(* ===== verification/Prelude.thy ===== *)
theory Prelude
  imports
    Main
    "HOL-Library.Char_ord"
    "HOL-Library.List_Lexorder"
    "HOL-Library.Product_Lexorder"
    "HOL-Library.Option_ord"
begin

text \<open>
  Shared vocabulary of the development: the types that stand for the program's
  scalars, and the Python library idioms the domain code is written in (\<open>max\<close> with a
  key, \<open>next\<close> over a generator, \<open>dict.fromkeys\<close>, \<open>str.startswith\<close>, \<open>str.strip\<close>), each
  with the few lemmas the component theories use.

  Strings are modelled by their UTF-8 bytes: a Python \<open>str\<close> is a \<^typ>\<open>string\<close>, byte-wise
  lexicographic order is Python's order by code point, and equality, prefixes and
  concatenation agree. Aware datetimes are \<^typ>\<open>int\<close> (microseconds).
\<close>

type_synonym ident = string
type_synonym instant = int

named_theorems facts_simps \<open>unfolding of the fact derivations\<close>
named_theorems fence_simps \<open>unfolding of the write fence and the row readers\<close>

section \<open>Options and lists\<close>

text \<open>\<open>max(xs, key=f)\<close>: the first of the elements with the greatest key.\<close>

fun max_by :: "('a \<Rightarrow> 'k::linorder) \<Rightarrow> 'a list \<Rightarrow> 'a option" where
  "max_by f [] = None"
| "max_by f (x # xs) =
     (case max_by f xs of None \<Rightarrow> Some x | Some y \<Rightarrow> if f x < f y then Some y else Some x)"

lemma max_by_eq_None [simp]: "max_by f xs = None \<longleftrightarrow> xs = []"
  by (cases xs) (auto split: option.splits)

lemma max_by_in_set: "max_by f xs = Some m \<Longrightarrow> m \<in> set xs"
  by (induction xs arbitrary: m) (auto split: option.splits if_splits)

lemma max_by_greatest: "max_by f xs = Some m \<Longrightarrow> x \<in> set xs \<Longrightarrow> f x \<le> f m"
proof (induction xs arbitrary: m x)
  case Nil
  then show ?case by simp
next
  case (Cons y ys)
  show ?case
  proof (cases "max_by f ys")
    case None
    with Cons.prems show ?thesis by auto
  next
    case (Some z)
    with Cons.IH have IH: "\<And>w. w \<in> set ys \<Longrightarrow> f w \<le> f z" by blast
    with Some Cons.prems show ?thesis by (force split: if_splits)
  qed
qed

lemma max_by_Some_ex: "xs \<noteq> [] \<Longrightarrow> \<exists>m. max_by f xs = Some m"
  by (metis max_by_eq_None not_None_eq)

lemma max_by_key:
  assumes "max_by f xs = Some m"
  shows "f m = Max (f ` set xs)"
proof (rule Max_eqI [symmetric])
  show "finite (f ` set xs)" by simp
  show "\<And>y. y \<in> f ` set xs \<Longrightarrow> y \<le> f m" using max_by_greatest [OF assms] by auto
  show "f m \<in> f ` set xs" using max_by_in_set [OF assms] by simp
qed

lemma max_by_append:
  "max_by f (xs @ ys) =
     (case max_by f xs of None \<Rightarrow> max_by f ys
      | Some a \<Rightarrow> (case max_by f ys of None \<Rightarrow> Some a
                  | Some b \<Rightarrow> if f a < f b then Some b else Some a))"
  by (induction xs) (auto split: option.splits)

lemma max_by_snoc_greater:
  "(\<And>x. x \<in> set xs \<Longrightarrow> f x < f y) \<Longrightarrow> max_by f (xs @ [y]) = Some y"
  by (auto simp: max_by_append split: option.splits dest: max_by_in_set)

text \<open>\<open>max(values, default=d)\<close> on a list of integers.\<close>

definition max_or :: "int \<Rightarrow> int list \<Rightarrow> int" where
  "max_or d xs = (if xs = [] then d else Max (set xs))"

lemma max_or_ge: "x \<in> set xs \<Longrightarrow> x \<le> max_or d xs"
  by (auto simp: max_or_def)

lemma max_or_in: "xs \<noteq> [] \<Longrightarrow> max_or d xs \<in> set xs"
  by (simp add: max_or_def)

text \<open>\<open>next((x for x in xs if P x), None)\<close> is the library's \<^const>\<open>List.find\<close>.\<close>

lemma find_SomeD: "List.find P xs = Some x \<Longrightarrow> x \<in> set xs \<and> P x"
  by (auto simp: find_Some_iff)

lemma find_eq_None: "List.find P xs = None \<longleftrightarrow> (\<forall>x\<in>set xs. \<not> P x)"
  by (auto simp: find_None_iff)

lemma find_Some_ex: "x \<in> set xs \<Longrightarrow> P x \<Longrightarrow> \<exists>y. List.find P xs = Some y"
  by (metis find_eq_None not_None_eq)

lemma find_append:
  "List.find P (xs @ ys) = (case List.find P xs of None \<Rightarrow> List.find P ys | Some x \<Rightarrow> Some x)"
  by (induction xs) auto

lemma find_key_distinct:
  "distinct (map f xs) \<Longrightarrow> x \<in> set xs \<Longrightarrow> List.find (\<lambda>y. f y = f x) xs = Some x"
  by (induction xs) (auto simp: image_iff)

text \<open>\<open>list(dict.fromkeys(xs))\<close>: the first occurrence of every element, in order.\<close>

definition dedup :: "'a list \<Rightarrow> 'a list" where
  "dedup xs = rev (remdups (rev xs))"

lemma set_dedup [simp]: "set (dedup xs) = set xs"
  by (simp add: dedup_def)

lemma distinct_dedup [simp]: "distinct (dedup xs)"
  by (simp add: dedup_def)

text \<open>Insertion-ordered dictionaries: an update keeps the position of a key it replaces.\<close>

fun dict_set :: "'k \<Rightarrow> 'v \<Rightarrow> ('k \<times> 'v) list \<Rightarrow> ('k \<times> 'v) list" where
  "dict_set k v [] = [(k, v)]"
| "dict_set k v (p # ps) = (if fst p = k then (k, v) # ps else p # dict_set k v ps)"

lemma map_of_dict_set [simp]: "map_of (dict_set k v ps) = (map_of ps)(k \<mapsto> v)"
  by (induction ps) auto

lemma keys_dict_set: "fst ` set (dict_set k v ps) = insert k (fst ` set ps)"
  by (induction ps) auto

lemma distinct_dict_set:
  "distinct (map fst ps) \<Longrightarrow> distinct (map fst (dict_set k v ps))"
  by (induction ps) (auto simp: keys_dict_set [unfolded image_set [symmetric]] image_iff
      dest!: equalityD1 [OF keys_dict_set, THEN subsetD])

lemma set_dict_set: "set (dict_set k v ps) \<subseteq> insert (k, v) (set ps)"
  by (induction ps) auto

definition dict_of :: "('k \<times> 'v) list \<Rightarrow> ('k \<times> 'v) list" where
  "dict_of ps = fold (\<lambda>(k, v). dict_set k v) ps []"

section \<open>Strings\<close>

definition starts_with :: "string \<Rightarrow> string \<Rightarrow> bool" where
  "starts_with p s \<longleftrightarrow> take (length p) s = p"

definition remove_prefix :: "string \<Rightarrow> string \<Rightarrow> string" where
  "remove_prefix p s = (if starts_with p s then drop (length p) s else s)"

lemma starts_with_append [simp]: "starts_with p (p @ s)"
  by (simp add: starts_with_def)

lemma remove_prefix_append [simp]: "remove_prefix p (p @ s) = s"
  by (simp add: remove_prefix_def)

lemma starts_with_decomp: "starts_with p s \<Longrightarrow> s = p @ drop (length p) s"
  by (metis append_take_drop_id starts_with_def)

text \<open>
  Python's whitespace (\<open>str.strip\<close>, \<open>str.split\<close>) by its UTF-8 bytes: the number of bytes of the
  whitespace character a string starts with, \<open>0\<close> when it starts with another character.
\<close>

definition ws_bytes :: "nat list \<Rightarrow> nat" where
  "ws_bytes bs =
     (case bs of [] \<Rightarrow> 0
      | b # rest \<Rightarrow>
          if (9 \<le> b \<and> b \<le> 13) \<or> (28 \<le> b \<and> b \<le> 32) then 1
          else if take 2 bs \<in> {[194, 133], [194, 160]} then 2
          else if take 3 bs \<in> {[225, 154, 128], [226, 128, 168], [226, 128, 169], [226, 128, 175],
                                [226, 129, 159], [227, 128, 128]} then 3
          else if take 2 bs = [226, 128] \<and> length bs \<ge> 3 \<and> 128 \<le> bs ! 2 \<and> bs ! 2 \<le> 138 then 3
          else 0)"

definition ws_len :: "string \<Rightarrow> nat" where
  "ws_len s = ws_bytes (map of_char (take 3 s))"

function is_blank :: "string \<Rightarrow> bool" where
  "is_blank s = (if s = [] then True else if ws_len s = 0 then False else is_blank (drop (ws_len s) s))"
  by pat_completeness auto
termination
  by (relation "measure length") auto

declare is_blank.simps [simp del]

fun has_ws :: "string \<Rightarrow> bool" where
  "has_ws [] = False"
| "has_ws (c # cs) = (ws_len (c # cs) \<noteq> 0 \<or> has_ws cs)"

function py_lstrip :: "string \<Rightarrow> string" where
  "py_lstrip s = (if s = [] \<or> ws_len s = 0 then s else py_lstrip (drop (ws_len s) s))"
  by pat_completeness auto
termination
  by (relation "measure length") auto

declare py_lstrip.simps [simp del]

fun py_rstrip :: "string \<Rightarrow> string" where
  "py_rstrip [] = []"
| "py_rstrip (c # cs) = (if is_blank (c # cs) then [] else c # py_rstrip cs)"

definition py_strip :: "string \<Rightarrow> string" where
  "py_strip s = py_rstrip (py_lstrip s)"

lemma is_blank_Nil [simp]: "is_blank []"
  by (simp add: is_blank.simps)

lemma py_rstrip_blank: "is_blank s \<Longrightarrow> py_rstrip s = []"
  by (cases s) auto

lemma py_lstrip_blank: "is_blank s = (py_lstrip s = [])"
proof (induction s rule: py_lstrip.induct)
  case (1 s)
  then show ?case
    by (subst is_blank.simps, subst py_lstrip.simps) auto
qed

lemma py_lstrip_starts: "py_lstrip s = [] \<or> ws_len (py_lstrip s) = 0"
proof (induction s rule: py_lstrip.induct)
  case (1 s)
  then show ?case by (subst (1 2) py_lstrip.simps) auto
qed

lemma py_strip_eq_Nil: "py_strip s = [] \<longleftrightarrow> is_blank s"
proof
  assume "is_blank s"
  then show "py_strip s = []" by (simp add: py_strip_def py_lstrip_blank)
next
  assume *: "py_strip s = []"
  show "is_blank s"
  proof (cases "py_lstrip s")
    case Nil
    then show ?thesis by (simp add: py_lstrip_blank)
  next
    case (Cons c cs)
    with py_lstrip_starts [of s] have "\<not> is_blank (c # cs)"
      by (subst is_blank.simps) auto
    with * Cons show ?thesis by (simp add: py_strip_def)
  qed
qed

end
