(* ===== verification/Graphs.thy ===== *)
theory Graphs
  imports Prelude
begin

text \<open>
  The workflow graph a chunk travels (\<open>hub/domain/graph/model.py\<close>, \<open>actions.py\<close>): the
  authored document, the reified graph with its lookups, the syntax of a choice's target and
  of a node's session value, the lifecycle of a mint, and which mint of a name a chunk sees.
\<close>

section \<open>Vocabulary (\<open>foundation/node_steps.py\<close>, \<open>foundation/artifacts.py\<close>)\<close>

datatype executor = ExecRunner | ExecHub
datatype judged_by = ByWorker | ByHuman
datatype session_mode = SessResume | SessFresh
datatype artifact_kind = GitCommit | Asset
datatype choice_target_kind = KindNode | KindDone | KindGraph | KindEscalate

definition RESERVED_TERMINAL :: ident where
  "RESERVED_TERMINAL = ''done''"

definition RESERVED_ESCALATE :: ident where
  "RESERVED_ESCALATE = ''escalate''"

definition GRAPH_TARGET_PREFIX :: string where
  "GRAPH_TARGET_PREFIX = ''graph:''"

definition HUB_DEFAULT_FAILURE_CHOICE :: ident where
  "HUB_DEFAULT_FAILURE_CHOICE = ''failure''"

section \<open>Choice targets and session values\<close>

text \<open>\<open>ChoiceTarget\<close>: neither field set is the malformed target.\<close>

record choice_target =
  ct_node :: "string option"
  ct_graph :: "string option"

definition ChoiceTarget_of :: "string \<Rightarrow> choice_target" where
  "ChoiceTarget_of to =
     (if \<not> starts_with GRAPH_TARGET_PREFIX to then \<lparr>ct_node = Some to, ct_graph = None\<rparr>
      else let name = drop (length GRAPH_TARGET_PREFIX) to
           in if name = [] \<or> CHR '':'' \<in> set name
              then \<lparr>ct_node = None, ct_graph = None\<rparr>
              else \<lparr>ct_node = None, ct_graph = Some name\<rparr>)"

definition ct_malformed :: "choice_target \<Rightarrow> bool" where
  "ct_malformed t \<longleftrightarrow> ct_node t = None \<and> ct_graph t = None"

definition ct_kind :: "choice_target \<Rightarrow> choice_target_kind" where
  "ct_kind t =
     (if ct_graph t \<noteq> None then KindGraph
      else if ct_node t = Some RESERVED_TERMINAL then KindDone
      else if ct_node t = Some RESERVED_ESCALATE then KindEscalate
      else KindNode)"

text \<open>\<open>SessionRef\<close>: what an authored \<open>session:\<close> value names.\<close>

record session_ref =
  sr_mode :: session_mode
  sr_source :: "string option"
  sr_malformed :: bool

definition SESSION_RESUME_TARGET_PREFIX :: string where
  "SESSION_RESUME_TARGET_PREFIX = ''resume:''"

definition SESSION_FRESH_TARGET_PREFIX :: string where
  "SESSION_FRESH_TARGET_PREFIX = ''fresh:''"

definition SessionRef_of :: "string \<Rightarrow> session_ref" where
  "SessionRef_of raw =
     (if raw = ''fresh'' then \<lparr>sr_mode = SessFresh, sr_source = None, sr_malformed = False\<rparr>
      else if raw = ''resume'' then \<lparr>sr_mode = SessResume, sr_source = None, sr_malformed = False\<rparr>
      else if starts_with SESSION_RESUME_TARGET_PREFIX raw
              \<and> drop (length SESSION_RESUME_TARGET_PREFIX) raw \<noteq> []
        then \<lparr>sr_mode = SessResume,
              sr_source = Some (drop (length SESSION_RESUME_TARGET_PREFIX) raw),
              sr_malformed = False\<rparr>
      else if starts_with SESSION_FRESH_TARGET_PREFIX raw
              \<and> drop (length SESSION_FRESH_TARGET_PREFIX) raw \<noteq> []
        then \<lparr>sr_mode = SessFresh,
              sr_source = Some (drop (length SESSION_FRESH_TARGET_PREFIX) raw),
              sr_malformed = False\<rparr>
      else \<lparr>sr_mode = SessResume, sr_source = None, sr_malformed = True\<rparr>)"

section \<open>The authoring document\<close>

record choice_doc =
  cd_name :: ident
  cd_description :: "string option"
  cd_to :: "string option"
  cd_prompt_addendum :: "string option"
  cd_target_graph :: "string option"
  cd_model :: "string option"
  cd_requires_checks :: bool

record judgement_doc =
  jd_prompt :: "string option"
  jd_by :: judged_by
  jd_choices :: "choice_doc list"

record produces_spec =
  ps_name :: ident
  ps_kind :: artifact_kind

record run_step_doc =
  rd_command :: string
  rd_name :: "string option"
  rd_produces :: "string option"

type_synonym action_args = "(string \<times> string list) list"

record node_doc =
  nd_name :: ident
  nd_executor :: executor
  nd_prompt :: "string option"
  nd_checks :: "string list"
  nd_produces :: "produces_spec list"
  nd_session :: session_mode
  nd_retries_max :: "int option"
  nd_retries_exhausted :: "string option"
  nd_judgement :: "judgement_doc option"
  nd_bounce_cap :: "int option"
  nd_run :: "run_step_doc list"
  nd_names_run :: bool
  nd_action :: "string option"
  nd_action_args :: action_args
  nd_malformed_action_args :: "string list"
  nd_poll_interval_seconds :: "int option"
  nd_poll_timeout_seconds :: "int option"
  nd_session_source :: "string option"
  nd_session_malformed :: bool
  nd_checks_cwd :: "string option"
  nd_checks_timeout :: "int option"
  nd_retired_keys :: "string list"

record rotate_policy =
  rp_max_context_tokens :: "int option"
  rp_max_transcript_bytes :: "int option"
  rp_max_invocations :: "int option"

record session_decl =
  sd_name :: ident
  sd_model :: "string list"
  sd_effort :: "string option"
  sd_rotate :: "rotate_policy option"
  sd_compaction_window :: "string option"
  sd_harnesses :: "string list"

text \<open>Dictionaries keep their insertion order: \<open>sessions\<close> and \<open>artifacts\<close> are association lists.\<close>

record graph_doc =
  gd_name :: ident
  gd_entry :: ident
  gd_nodes :: "node_doc list"
  gd_sessions :: "(ident \<times> session_decl) list"
  gd_artifacts :: "(ident \<times> string) list"

definition GraphDoc_node :: "graph_doc \<Rightarrow> ident \<Rightarrow> node_doc option" where
  "GraphDoc_node doc name = List.find (\<lambda>n. nd_name n = name) (gd_nodes doc)"

definition nd_is_hub_command_node :: "node_doc \<Rightarrow> bool" where
  "nd_is_hub_command_node n \<longleftrightarrow> nd_executor n = ExecHub"

section \<open>The reified graph\<close>

record choice =
  choice_id :: ident
  choice_name :: ident
  choice_description :: string
  choice_requires_checks :: bool

record edge =
  edge_from_node_id :: ident
  edge_choice_id :: ident
  edge_to_node_name :: string
  edge_prompt_addendum :: "string option"
  edge_target_graph :: "string option"
  edge_model :: "string option"

definition edge_escalates :: "edge \<Rightarrow> bool" where
  "edge_escalates e \<longleftrightarrow> edge_to_node_name e = RESERVED_ESCALATE"

record node =
  node_id :: ident
  node_graph_id :: ident
  node_name :: ident
  node_executor :: executor
  node_prompt :: "string option"
  node_checks :: "string list"
  node_produces :: "produces_spec list"
  node_session :: session_mode
  node_judged_by :: judged_by
  node_retries_max :: "int option"
  node_retries_exhausted :: "string option"
  node_judgement_prompt :: "string option"
  node_choices :: "choice list"
  node_bounce_cap :: "int option"
  node_action :: "string option"
  node_action_args :: action_args
  node_legacy_run :: "string option"
  node_poll_interval_seconds :: "int option"
  node_poll_timeout_seconds :: "int option"
  node_session_source :: "string option"
  node_checks_cwd :: "string option"
  node_checks_timeout :: "int option"

definition is_hub_command_node :: "node \<Rightarrow> bool" where
  "is_hub_command_node n \<longleftrightarrow> node_executor n = ExecHub"

record graph_artifact =
  ga_name :: ident
  ga_content :: string
  ga_ordinal :: nat

record graph =
  graph_id :: ident
  graph_name :: ident
  graph_entry_node_id :: ident
  graph_nodes :: "node list"
  graph_edges :: "edge list"
  graph_created_at :: instant
  graph_sessions :: "session_decl list"
  graph_artifacts :: "graph_artifact list"

section \<open>Graph lookups\<close>

definition declares_git_commit :: "graph \<Rightarrow> bool" where
  "declares_git_commit g \<longleftrightarrow>
     (\<exists>n\<in>set (graph_nodes g). \<exists>spec\<in>set (node_produces n). ps_kind spec = GitCommit)"

definition session_by_name :: "graph \<Rightarrow> ident \<Rightarrow> session_decl option" where
  "session_by_name g name = List.find (\<lambda>s. sd_name s = name) (graph_sessions g)"

definition node_by_name :: "graph \<Rightarrow> ident \<Rightarrow> node option" where
  "node_by_name g name = List.find (\<lambda>n. node_name n = name) (graph_nodes g)"

definition node_by_id :: "graph \<Rightarrow> ident \<Rightarrow> node option" where
  "node_by_id g nid = List.find (\<lambda>n. node_id n = nid) (graph_nodes g)"

definition edges_from :: "graph \<Rightarrow> ident \<Rightarrow> edge list" where
  "edges_from g nid = filter (\<lambda>e. edge_from_node_id e = nid) (graph_edges g)"

definition edge_for_choice :: "graph \<Rightarrow> ident \<Rightarrow> ident \<Rightarrow> edge option" where
  "edge_for_choice g nid name =
     (let choice_ids = {choice_id c | c n. n \<in> set (graph_nodes g) \<and> node_id n = nid
                          \<and> c \<in> set (node_choices n) \<and> choice_name c = name}
      in List.find (\<lambda>e. edge_from_node_id e = nid \<and> edge_choice_id e \<in> choice_ids) (graph_edges g))"

lemma edge_for_choice_code [code]:
  "edge_for_choice g nid name =
     (let choice_ids = concat (map (\<lambda>n. if node_id n = nid
              then map choice_id (filter (\<lambda>c. choice_name c = name) (node_choices n)) else [])
            (graph_nodes g))
      in List.find (\<lambda>e. edge_from_node_id e = nid \<and> edge_choice_id e \<in> set choice_ids) (graph_edges g))"
proof -
  have "set (concat (map (\<lambda>n. if node_id n = nid
              then map choice_id (filter (\<lambda>c. choice_name c = name) (node_choices n)) else [])
            (graph_nodes g))) =
        {choice_id c | c n. n \<in> set (graph_nodes g) \<and> node_id n = nid
                          \<and> c \<in> set (node_choices n) \<and> choice_name c = name}"
    by (auto split: if_splits)
  then show ?thesis by (simp only: edge_for_choice_def Let_def)
qed

definition cross_graph_targets :: "graph \<Rightarrow> string list" where
  "cross_graph_targets g = dedup (List.map_filter edge_target_graph (graph_edges g))"

definition cross_graph_target_name :: "graph \<Rightarrow> ident \<Rightarrow> ident \<Rightarrow> string option" where
  "cross_graph_target_name g from_node_id name =
     (if node_by_id g from_node_id = None then None
      else case edge_for_choice g from_node_id name of None \<Rightarrow> None | Some e \<Rightarrow> edge_target_graph e)"

section \<open>The hub action catalogue (\<open>actions.py\<close>)\<close>

datatype artifact_format = FindingDelta | GardenProposalCandidates

record action_spec =
  as_name :: string
  as_args :: "string set"
  as_required_args :: "string set"
  as_answers :: "string set"
  as_answers_from_arg :: "string option"
  as_lands :: bool
  as_arg_formats :: "(string \<times> artifact_format) list"

type_synonym catalogue = "(string \<times> action_spec) list"

definition RESERVED_WAITS :: "string set" where
  "RESERVED_WAITS = {''pending'', ''awaiting-merge''}"

definition answers_for :: "action_spec \<Rightarrow> action_args \<Rightarrow> string set" where
  "answers_for spec args =
     (case as_answers_from_arg spec of None \<Rightarrow> as_answers spec
      | Some arg \<Rightarrow> (case map_of args arg of None \<Rightarrow> {} | Some vs \<Rightarrow> set vs))"

definition can_wait_for :: "action_spec \<Rightarrow> action_args \<Rightarrow> bool" where
  "can_wait_for spec args \<longleftrightarrow> answers_for spec args \<inter> RESERVED_WAITS \<noteq> {}"

definition Catalogue_of :: "action_spec list \<Rightarrow> catalogue" where
  "Catalogue_of specs = dict_of (map (\<lambda>spec. (as_name spec, spec)) specs)"

definition catalogue_get :: "catalogue \<Rightarrow> string \<Rightarrow> action_spec option" where
  "catalogue_get cat name = map_of cat name"

definition catalogue_including :: "catalogue \<Rightarrow> action_spec list \<Rightarrow> catalogue" where
  "catalogue_including cat specs = Catalogue_of (map snd cat @ specs)"

definition LAND :: action_spec where
  "LAND = \<lparr>as_name = ''land'', as_args = {}, as_required_args = {},
     as_answers = {''landed'', ''conflict'', ''failure'', ''inherited-failure'', ''pending'', ''awaiting-merge''},
     as_answers_from_arg = None, as_lands = True, as_arg_formats = []\<rparr>"

definition RECORD_FINDINGS :: action_spec where
  "RECORD_FINDINGS = \<lparr>as_name = ''record-findings'', as_args = {}, as_required_args = {},
     as_answers = {''recorded'', ''invalid'', ''failure''},
     as_answers_from_arg = None, as_lands = False, as_arg_formats = []\<rparr>"

definition GARDEN_DELIVER :: action_spec where
  "GARDEN_DELIVER = \<lparr>as_name = ''garden-deliver'', as_args = {''delta'', ''proposals''}, as_required_args = {},
     as_answers = {''recorded'', ''invalid'', ''invalid-proposals'', ''failure''},
     as_answers_from_arg = None, as_lands = False,
     as_arg_formats = [(''delta'', FindingDelta), (''proposals'', GardenProposalCandidates)]\<rparr>"

definition PASS :: action_spec where
  "PASS = \<lparr>as_name = ''pass'', as_args = {}, as_required_args = {}, as_answers = {''success''},
     as_answers_from_arg = None, as_lands = False, as_arg_formats = []\<rparr>"

definition SHIPPED_CATALOGUE :: catalogue where
  "SHIPPED_CATALOGUE = Catalogue_of [LAND, RECORD_FINDINGS, GARDEN_DELIVER, PASS]"

definition artifact_formats :: "graph \<Rightarrow> ident \<Rightarrow> catalogue \<Rightarrow> artifact_format set" where
  "artifact_formats g name cat =
     set (concat (map (\<lambda>n.
       case node_action n of None \<Rightarrow> []
       | Some a \<Rightarrow> (case catalogue_get cat a of None \<Rightarrow> []
         | Some spec \<Rightarrow> List.map_filter (\<lambda>(arg, names).
             case map_of (as_arg_formats spec) arg of None \<Rightarrow> None
             | Some fmt \<Rightarrow> if name \<in> set names then Some fmt else None) (node_action_args n)))
       (graph_nodes g)))"

section \<open>Lifecycle of a mint\<close>

datatype graph_state = Enabled | Retired
datatype graph_verb = Retire | Enable | SetFollowLatest | ResolveByName | Target | RunPinned
datatype graph_verdict = Legal | Refused
datatype graph_lifecycle = Effective | LifecycleRetired | Superseded

definition GraphState_of :: "bool \<Rightarrow> graph_state" where
  "GraphState_of retired = (if retired then Retired else Enabled)"

fun GRAPH_TRANSITIONS :: "graph_state \<Rightarrow> graph_verb \<Rightarrow> graph_verdict" where
  "GRAPH_TRANSITIONS Enabled _ = Legal"
| "GRAPH_TRANSITIONS Retired Retire = Legal"
| "GRAPH_TRANSITIONS Retired Enable = Legal"
| "GRAPH_TRANSITIONS Retired SetFollowLatest = Legal"
| "GRAPH_TRANSITIONS Retired ResolveByName = Refused"
| "GRAPH_TRANSITIONS Retired Target = Refused"
| "GRAPH_TRANSITIONS Retired RunPinned = Legal"

record graph_standing =
  gs_graph :: graph
  gs_retired :: bool

definition gs_verdict :: "graph_standing \<Rightarrow> graph_verb \<Rightarrow> graph_verdict" where
  "gs_verdict st verb = GRAPH_TRANSITIONS (GraphState_of (gs_retired st)) verb"

definition targetable :: "graph_standing \<Rightarrow> bool" where
  "targetable st \<longleftrightarrow> gs_verdict st Target = Legal"

lemma targetable_iff [simp]: "targetable st \<longleftrightarrow> \<not> gs_retired st"
  by (simp add: targetable_def gs_verdict_def GraphState_of_def)

section \<open>Mint selection\<close>

record graph_summary =
  gsum_graph_id :: ident
  gsum_name :: ident
  gsum_entry_node_id :: ident
  gsum_created_at :: instant

definition summary_of :: "graph \<Rightarrow> graph_summary" where
  "summary_of g = \<lparr>gsum_graph_id = graph_id g, gsum_name = graph_name g,
     gsum_entry_node_id = graph_entry_node_id g, gsum_created_at = graph_created_at g\<rparr>"

definition mint_order :: "graph_summary \<Rightarrow> instant \<times> ident" where
  "mint_order m = (gsum_created_at m, gsum_graph_id m)"

definition newer_than :: "graph_summary \<Rightarrow> graph_summary \<Rightarrow> bool" where
  "newer_than m other \<longleftrightarrow> mint_order other < mint_order m"

record mints =
  mints_list :: "graph_summary list"
  mints_retired_ids :: "ident set"

definition consider_mint ::
  "ident set \<Rightarrow> graph_summary \<Rightarrow> (ident \<times> graph_summary) list \<Rightarrow> (ident \<times> graph_summary) list" where
  "consider_mint retired candidate newest =
     (if gsum_graph_id candidate \<in> retired then newest
      else case map_of newest (gsum_name candidate) of
        None \<Rightarrow> dict_set (gsum_name candidate) candidate newest
      | Some current \<Rightarrow> if newer_than candidate current
          then dict_set (gsum_name candidate) candidate newest else newest)"

definition newest_by_name :: "mints \<Rightarrow> (ident \<times> graph_summary) list" where
  "newest_by_name ms = fold (consider_mint (mints_retired_ids ms)) (mints_list ms) []"

definition effective_ids :: "mints \<Rightarrow> ident set" where
  "effective_ids ms = set (map (gsum_graph_id \<circ> snd) (newest_by_name ms))"

definition effective :: "mints \<Rightarrow> (ident \<times> bool) list" where
  "effective ms =
     dict_of (map (\<lambda>m. (gsum_graph_id m, gsum_graph_id m \<in> effective_ids ms)) (mints_list ms))"

definition lifecycle :: "mints \<Rightarrow> (ident \<times> graph_lifecycle) list" where
  "lifecycle ms = map (\<lambda>(gid, is_effective).
     (gid, if gid \<in> mints_retired_ids ms then LifecycleRetired
           else if is_effective then Effective else Superseded)) (effective ms)"

definition FollowLatest_of :: "bool option \<Rightarrow> bool \<Rightarrow> bool" where
  "FollowLatest_of graph_policy hub_default = (case graph_policy of None \<Rightarrow> hub_default | Some b \<Rightarrow> b)"

definition follow_latest_target :: "bool \<Rightarrow> graph \<Rightarrow> graph option \<Rightarrow> graph option" where
  "follow_latest_target enabled current newest_enabled =
     (if \<not> enabled then None
      else case newest_enabled of None \<Rightarrow> None
        | Some newest \<Rightarrow> if newer_than (summary_of newest) (summary_of current) then Some newest else None)"

section \<open>Lemmas\<close>

lemma node_by_id_Some: "node_by_id g nid = Some n \<Longrightarrow> n \<in> set (graph_nodes g) \<and> node_id n = nid"
  unfolding node_by_id_def by (drule find_SomeD) simp

lemma node_by_name_Some: "node_by_name g nm = Some n \<Longrightarrow> n \<in> set (graph_nodes g) \<and> node_name n = nm"
  unfolding node_by_name_def by (drule find_SomeD) simp

lemma node_by_name_eq_None: "node_by_name g nm = None \<longleftrightarrow> nm \<notin> node_name ` set (graph_nodes g)"
  by (auto simp: node_by_name_def find_eq_None)

lemma node_by_id_eq_None: "node_by_id g nid = None \<longleftrightarrow> nid \<notin> node_id ` set (graph_nodes g)"
  by (auto simp: node_by_id_def find_eq_None)

lemma node_by_id_distinct:
  "distinct (map node_id (graph_nodes g)) \<Longrightarrow> n \<in> set (graph_nodes g) \<Longrightarrow> node_by_id g (node_id n) = Some n"
  by (simp add: node_by_id_def find_key_distinct)

lemma edge_for_choice_Some:
  assumes "edge_for_choice g nid name = Some e"
  shows "e \<in> set (graph_edges g)" and "edge_from_node_id e = nid"
    and "\<exists>n c. n \<in> set (graph_nodes g) \<and> node_id n = nid \<and> c \<in> set (node_choices n)
           \<and> choice_name c = name \<and> edge_choice_id e = choice_id c"
  using assms unfolding edge_for_choice_def Let_def by (auto dest!: find_SomeD)

text \<open>What a target's syntax can be.\<close>

lemma ChoiceTarget_of_graph:
  "ct_graph (ChoiceTarget_of to) = Some name \<longleftrightarrow>
     to = GRAPH_TARGET_PREFIX @ name \<and> name \<noteq> [] \<and> CHR '':'' \<notin> set name"
proof (cases "starts_with GRAPH_TARGET_PREFIX to")
  case True
  then obtain r where "to = GRAPH_TARGET_PREFIX @ r" by (metis starts_with_decomp)
  then show ?thesis by (auto simp: ChoiceTarget_of_def Let_def)
next
  case False
  then show ?thesis by (auto simp: ChoiceTarget_of_def Let_def)
qed

lemma ChoiceTarget_of_node:
  "ct_node (ChoiceTarget_of to) = Some n \<longleftrightarrow> n = to \<and> \<not> starts_with GRAPH_TARGET_PREFIX to"
  by (auto simp: ChoiceTarget_of_def Let_def)

lemma not_graph_prefix_terminal [simp]:
  "\<not> starts_with GRAPH_TARGET_PREFIX RESERVED_TERMINAL"
  "\<not> starts_with GRAPH_TARGET_PREFIX RESERVED_ESCALATE"
  by (simp_all add: starts_with_def GRAPH_TARGET_PREFIX_def RESERVED_TERMINAL_def RESERVED_ESCALATE_def)

text \<open>The fold over the mints keeps the first of the greatest candidates of every name.\<close>

definition candidates :: "mints \<Rightarrow> ident \<Rightarrow> graph_summary list" where
  "candidates ms name = filter (\<lambda>m. gsum_name m = name \<and> gsum_graph_id m \<notin> mints_retired_ids ms) (mints_list ms)"

lemma map_of_consider_mint:
  "map_of (consider_mint retired c newest) name =
     (if gsum_graph_id c \<in> retired \<or> gsum_name c \<noteq> name then map_of newest name
      else case map_of newest name of None \<Rightarrow> Some c
        | Some cur \<Rightarrow> if mint_order cur < mint_order c then Some c else Some cur)"
  by (auto simp: consider_mint_def newer_than_def split: option.splits)

lemma newest_by_name_eq: "map_of (newest_by_name ms) name = max_by mint_order (candidates ms name)"
proof -
  have "map_of (fold (consider_mint R) xs []) name =
          max_by mint_order (filter (\<lambda>m. gsum_name m = name \<and> gsum_graph_id m \<notin> R) xs)" for R xs
    by (induction xs rule: rev_induct)
       (auto simp: map_of_consider_mint max_by_append split: option.splits)
  then show ?thesis by (simp add: newest_by_name_def candidates_def)
qed

definition keyed_by_name :: "(ident \<times> graph_summary) list \<Rightarrow> bool" where
  "keyed_by_name ps \<longleftrightarrow> distinct (map fst ps) \<and> (\<forall>(k, m)\<in>set ps. gsum_name m = k)"

lemma consider_mint_keyed: "keyed_by_name ps \<Longrightarrow> keyed_by_name (consider_mint R c ps)"
  using set_dict_set [of "gsum_name c" c ps]
  by (auto simp: keyed_by_name_def consider_mint_def distinct_dict_set split: option.splits)

lemma newest_by_name_keyed: "keyed_by_name (newest_by_name ms)"
proof -
  have "keyed_by_name (fold (consider_mint R) xs [])" for R xs
    by (induction xs rule: rev_induct) (auto simp: consider_mint_keyed, simp add: keyed_by_name_def)
  then show ?thesis by (simp add: newest_by_name_def)
qed

lemma effective_ids_iff:
  "gid \<in> effective_ids ms \<longleftrightarrow> (\<exists>name m. max_by mint_order (candidates ms name) = Some m \<and> gsum_graph_id m = gid)"
proof
  assume "gid \<in> effective_ids ms"
  then obtain k m where "(k, m) \<in> set (newest_by_name ms)" and "gsum_graph_id m = gid"
    by (auto simp: effective_ids_def)
  moreover then have "map_of (newest_by_name ms) k = Some m"
    using newest_by_name_keyed [of ms] by (simp add: keyed_by_name_def)
  ultimately show "\<exists>name m. max_by mint_order (candidates ms name) = Some m \<and> gsum_graph_id m = gid"
    by (metis newest_by_name_eq)
next
  assume "\<exists>name m. max_by mint_order (candidates ms name) = Some m \<and> gsum_graph_id m = gid"
  then obtain name m where "map_of (newest_by_name ms) name = Some m" and "gsum_graph_id m = gid"
    by (metis newest_by_name_eq)
  then show "gid \<in> effective_ids ms"
    by (force simp: effective_ids_def dest: map_of_SomeD)
qed

lemma map_of_dict_of: "map_of (dict_of ps) k = map_of (rev ps) k"
proof -
  have "map_of (fold (\<lambda>(k, v). dict_set k v) ps acc) k = (case map_of (rev ps) k of None \<Rightarrow> map_of acc k | Some v \<Rightarrow> Some v)" for acc
    by (induction ps arbitrary: acc) (auto simp: map_add_Some_iff map_add_def split: option.splits)
  then show ?thesis by (auto simp: dict_of_def split: option.splits)
qed

lemma map_of_effective:
  "gid \<in> gsum_graph_id ` set (mints_list ms) \<Longrightarrow> map_of (effective ms) gid = Some (gid \<in> effective_ids ms)"
proof -
  have "map_of (map (\<lambda>m. (gsum_graph_id m, gsum_graph_id m \<in> E)) xs) gid = Some (gid \<in> E)"
    if "gid \<in> gsum_graph_id ` set xs" for E xs
    using that by (induction xs) auto
  then have "gid \<in> gsum_graph_id ` set (rev (mints_list ms)) \<Longrightarrow> ?thesis"
    by (simp only: effective_def map_of_dict_of rev_map)
  then show "gid \<in> gsum_graph_id ` set (mints_list ms) \<Longrightarrow> ?thesis" by simp
qed

section \<open>Properties of mint selection\<close>

lemma map_of_keyed: "map_of (map (\<lambda>(k, v). (k, f k v)) ps) k = map_option (f k) (map_of ps k)"
  by (induction ps) auto

lemma map_of_lifecycle:
  assumes "m \<in> set (mints_list ms)"
  shows "map_of (lifecycle ms) (gsum_graph_id m) = Some
     (if gsum_graph_id m \<in> mints_retired_ids ms then LifecycleRetired
      else if gsum_graph_id m \<in> effective_ids ms then Effective else Superseded)"
  using assms map_of_effective [of "gsum_graph_id m" ms]
  by (simp add: lifecycle_def map_of_keyed [of "\<lambda>gid is_effective.
     if gid \<in> mints_retired_ids ms then LifecycleRetired
           else if is_effective then Effective else Superseded"])

lemma lifecycle_effective:
  assumes ids: "distinct (map gsum_graph_id (mints_list ms))" and m: "m \<in> set (mints_list ms)"
  shows "map_of (lifecycle ms) (gsum_graph_id m) = Some Effective \<longleftrightarrow>
       max_by mint_order (candidates ms (gsum_name m)) = Some m"
  proof -
    have inj: "x = m" if "max_by mint_order (candidates ms n) = Some x" "gsum_graph_id x = gsum_graph_id m" for x n
      using max_by_in_set [OF that(1)] that(2) ids m by (auto simp: candidates_def distinct_map dest!: inj_onD)
    have nm: "gsum_name x = n \<and> gsum_graph_id x \<notin> mints_retired_ids ms"
      if "max_by mint_order (candidates ms n) = Some x" for x n
      using max_by_in_set [OF that] by (simp add: candidates_def)
    have "gsum_graph_id m \<in> effective_ids ms \<longleftrightarrow> max_by mint_order (candidates ms (gsum_name m)) = Some m"
    proof
      assume "gsum_graph_id m \<in> effective_ids ms"
      then obtain n x where x: "max_by mint_order (candidates ms n) = Some x" "gsum_graph_id x = gsum_graph_id m"
        unfolding effective_ids_iff by blast
      from inj [OF x] nm [OF x(1)] x(1) show "max_by mint_order (candidates ms (gsum_name m)) = Some m" by simp
    qed (auto simp: effective_ids_iff)
    then show ?thesis using map_of_lifecycle [OF m] nm [where x = m and n = "gsum_name m"]
      by (simp split: if_splits)
  qed

theorem one_effective_mint_per_name:
  assumes ids: "distinct (map gsum_graph_id (mints_list ms))"
    and m0: "m0 \<in> set (mints_list ms)" "gsum_graph_id m0 \<notin> mints_retired_ids ms"
  shows "\<exists>!m. m \<in> set (mints_list ms) \<and> gsum_name m = gsum_name m0
           \<and> map_of (lifecycle ms) (gsum_graph_id m) = Some Effective"
proof -
  note eff = lifecycle_effective [OF ids]
  have "m0 \<in> set (candidates ms (gsum_name m0))" using m0 by (simp add: candidates_def)
  then have "candidates ms (gsum_name m0) \<noteq> []" by auto
  then obtain w where w: "max_by mint_order (candidates ms (gsum_name m0)) = Some w"
    by (metis max_by_Some_ex)
  have w': "w \<in> set (mints_list ms)" "gsum_name w = gsum_name m0"
    using max_by_in_set [OF w] by (simp_all add: candidates_def)
  show "\<exists>!m. m \<in> set (mints_list ms) \<and> gsum_name m = gsum_name m0
           \<and> map_of (lifecycle ms) (gsum_graph_id m) = Some Effective"
  proof (rule ex1I [of _ w])
    show "w \<in> set (mints_list ms) \<and> gsum_name w = gsum_name m0
           \<and> map_of (lifecycle ms) (gsum_graph_id w) = Some Effective"
      using w w' eff by simp
    fix m
    assume "m \<in> set (mints_list ms) \<and> gsum_name m = gsum_name m0
           \<and> map_of (lifecycle ms) (gsum_graph_id m) = Some Effective"
    then show "m = w" using w eff [of m] by simp
  qed
qed

theorem newer_than_effective_is_retired:
  assumes "distinct (map gsum_graph_id (mints_list ms))"
    and "m \<in> set (mints_list ms)" "map_of (lifecycle ms) (gsum_graph_id m) = Some Effective"
    and "other \<in> set (mints_list ms)" "gsum_name other = gsum_name m" "newer_than other m"
  shows "map_of (lifecycle ms) (gsum_graph_id other) = Some LifecycleRetired"
proof (rule ccontr)
  assume "map_of (lifecycle ms) (gsum_graph_id other) \<noteq> Some LifecycleRetired"
  then have "gsum_graph_id other \<notin> mints_retired_ids ms" using map_of_lifecycle [OF assms(4)] by auto
  then have "other \<in> set (candidates ms (gsum_name m))" using assms by (simp add: candidates_def)
  moreover have "max_by mint_order (candidates ms (gsum_name m)) = Some m"
    using assms lifecycle_effective by blast
  ultimately have "mint_order other \<le> mint_order m" by (metis max_by_greatest)
  with assms(6) show False by (simp add: newer_than_def)
qed

theorem follow_latest_only_forward:
  "(follow_latest_target enabled current newest = Some g \<longleftrightarrow>
      enabled \<and> newest = Some g \<and> newer_than (summary_of g) (summary_of current))
   \<and> (follow_latest_target enabled current newest = Some g \<longrightarrow> follow_latest_target enabled g newest = None)"
  by (auto simp: follow_latest_target_def newer_than_def split: option.splits if_splits)

section \<open>Witnesses\<close>

definition sample_mint :: "ident \<Rightarrow> instant \<Rightarrow> graph_summary" where
  "sample_mint gid at = \<lparr>gsum_graph_id = gid, gsum_name = ''default'', gsum_entry_node_id = ''nd_1'', gsum_created_at = at\<rparr>"

definition sample_mints :: mints where
  "sample_mints = \<lparr>mints_list = [sample_mint ''gr_1'' 1, sample_mint ''gr_2'' 2, sample_mint ''gr_3'' 3],
     mints_retired_ids = {''gr_3''}\<rparr>"

lemma sample_mints_lifecycle:
  "lifecycle sample_mints = [(''gr_1'', Superseded), (''gr_2'', Effective), (''gr_3'', LifecycleRetired)]"
  by code_simp

theorem one_effective_mint_per_name_witness:
  "\<exists>!m. m \<in> set (mints_list sample_mints) \<and> gsum_name m = ''default''
           \<and> map_of (lifecycle sample_mints) (gsum_graph_id m) = Some Effective"
  using one_effective_mint_per_name [of sample_mints "sample_mint ''gr_1'' 1"]
  by (simp add: sample_mints_def sample_mint_def)

theorem newer_than_effective_is_retired_witness:
  "map_of (lifecycle sample_mints) ''gr_3'' = Some LifecycleRetired"
  using newer_than_effective_is_retired [of sample_mints "sample_mint ''gr_2'' 2" "sample_mint ''gr_3'' 3"]
    sample_mints_lifecycle
  by (simp add: sample_mints_def sample_mint_def newer_than_def mint_order_def)

definition sample_mint_graph :: "ident \<Rightarrow> instant \<Rightarrow> graph" where
  "sample_mint_graph gid at = \<lparr>graph_id = gid, graph_name = ''default'', graph_entry_node_id = ''nd_1'',
     graph_nodes = [], graph_edges = [], graph_created_at = at, graph_sessions = [], graph_artifacts = []\<rparr>"

theorem follow_latest_only_forward_witness:
  "follow_latest_target True (sample_mint_graph ''gr_1'' 1) (Some (sample_mint_graph ''gr_2'' 2))
     = Some (sample_mint_graph ''gr_2'' 2)
   \<and> follow_latest_target True (sample_mint_graph ''gr_2'' 2) (Some (sample_mint_graph ''gr_2'' 2)) = None"
proof -
  have "follow_latest_target True (sample_mint_graph ''gr_1'' 1) (Some (sample_mint_graph ''gr_2'' 2))
     = Some (sample_mint_graph ''gr_2'' 2)"
    by (simp add: follow_latest_target_def newer_than_def mint_order_def summary_of_def sample_mint_graph_def)
  then show ?thesis
    using follow_latest_only_forward
      [of True "sample_mint_graph ''gr_1'' 1" "Some (sample_mint_graph ''gr_2'' 2)" "sample_mint_graph ''gr_2'' 2"]
    by blast
qed

end
