(* ===== verification/Walks.thy ===== *)
theory Walks
  imports Prelude
begin

text \<open>
  The two graph searches the domain code runs over a dictionary of successors: the stack walk of
  \<open>Reachability.reached\<close> and \<open>EligibilityCheck._reachable_runner_nodes\<close>, and the three-colour
  depth-first cycle check of \<open>would_close_a_cycle\<close>. Each is total and characterised against the
  successor relation of the dictionary.
\<close>

type_synonym 'a adjacency = "('a \<times> 'a list) list"

definition adj_get :: "'a adjacency \<Rightarrow> 'a \<Rightarrow> 'a list" where
  "adj_get adj x = (case map_of adj x of None \<Rightarrow> [] | Some ys \<Rightarrow> ys)"

definition adj_targets :: "'a adjacency \<Rightarrow> 'a set" where
  "adj_targets adj = (\<Union>p\<in>set adj. set (snd p))"

definition adj_rel :: "'a adjacency \<Rightarrow> ('a \<times> 'a) set" where
  "adj_rel adj = {(a, b). b \<in> set (adj_get adj a)}"

lemma adj_get_in: "y \<in> set (adj_get adj x) \<Longrightarrow> \<exists>ys. (x, ys) \<in> set adj \<and> y \<in> set ys"
  by (cases "map_of adj x") (auto simp: adj_get_def dest: map_of_SomeD)

lemma adj_get_targets: "set (adj_get adj x) \<subseteq> adj_targets adj"
proof
  fix y
  assume "y \<in> set (adj_get adj x)"
  then obtain ys where "(x, ys) \<in> set adj" and "y \<in> set ys" using adj_get_in by metis
  then show "y \<in> adj_targets adj" unfolding adj_targets_def by force
qed

lemma finite_adj_targets [simp]: "finite (adj_targets adj)"
  by (simp add: adj_targets_def)

lemma adj_get_nonempty_key: "y \<in> set (adj_get adj x) \<Longrightarrow> x \<in> fst ` set adj"
  by (force dest: adj_get_in)

section \<open>The stack walk\<close>

text \<open>The stack's top is the head of the list: the successors of one node are pushed in order, so
  the last pushed comes off first.\<close>

function walk :: "'a adjacency \<Rightarrow> 'a list \<Rightarrow> 'a list \<Rightarrow> 'a list" where
  "walk adj [] seen = seen"
| "walk adj (x # stack) seen =
     (if x \<in> set seen then walk adj stack seen
      else walk adj (rev (adj_get adj x) @ stack) (seen @ [x]))"
  by pat_completeness auto
termination
proof (relation "inv_image (finite_psubset <*lex*> less_than)
     (\<lambda>(adj, stack, seen). (adj_targets adj \<union> set stack - set seen, length stack))", goal_cases)
  case 1
  show ?case by auto
next
  case (2 adj x stack seen)
  then have "adj_targets adj \<union> set (x # stack) - set seen = adj_targets adj \<union> set stack - set seen"
    by auto
  then show ?case by simp
next
  case (3 adj x stack seen)
  have "adj_targets adj \<union> set (rev (adj_get adj x) @ stack) - set (seen @ [x])
          \<subset> adj_targets adj \<union> set (x # stack) - set seen"
    using 3 adj_get_targets [of adj x] by auto
  then show ?case by (simp add: finite_psubset_def)
qed

lemma walk_distinct: "distinct seen \<Longrightarrow> distinct (walk adj stack seen)"
  by (induction adj stack seen rule: walk.induct) auto

lemma walk_seen: "set seen \<subseteq> set (walk adj stack seen)"
  by (induction adj stack seen rule: walk.induct) auto

lemma walk_stack: "set stack \<subseteq> set (walk adj stack seen)"
proof (induction adj stack seen rule: walk.induct)
  case (1 adj seen)
  then show ?case by simp
next
  case (2 adj x stack seen)
  then show ?case
    using walk_seen [of seen adj stack] walk_seen [of "seen @ [x]" adj "rev (adj_get adj x) @ stack"]
    by auto
qed

lemma walk_closed:
  "(\<And>a. a \<in> set seen \<Longrightarrow> set (adj_get adj a) \<subseteq> set seen \<union> set stack) \<Longrightarrow>
   a \<in> set (walk adj stack seen) \<Longrightarrow> set (adj_get adj a) \<subseteq> set (walk adj stack seen)"
proof (induction adj stack seen arbitrary: a rule: walk.induct)
  case (1 adj seen)
  then show ?case by simp
next
  case (2 adj x stack seen)
  show ?case
  proof (cases "x \<in> set seen")
    case True
    with 2 show ?thesis by (simp, blast)
  next
    case False
    have "\<And>b. b \<in> set (seen @ [x]) \<Longrightarrow>
        set (adj_get adj b) \<subseteq> set (seen @ [x]) \<union> set (rev (adj_get adj x) @ stack)"
      using "2.prems"(1) by fastforce
    with False 2 show ?thesis by simp
  qed
qed

lemma walk_sound:
  "y \<in> set (walk adj stack seen) \<Longrightarrow> y \<in> set seen \<or> (\<exists>x\<in>set stack. (x, y) \<in> (adj_rel adj)\<^sup>*)"
proof (induction adj stack seen rule: walk.induct)
  case (1 adj seen)
  then show ?case by simp
next
  case (2 adj x stack seen)
  show ?case
  proof (cases "x \<in> set seen")
    case True
    with 2 show ?thesis by auto
  next
    case False
    with 2 have "y \<in> set (seen @ [x]) \<or> (\<exists>z\<in>set (rev (adj_get adj x) @ stack). (z, y) \<in> (adj_rel adj)\<^sup>*)"
      by simp
    moreover have "(z, y) \<in> (adj_rel adj)\<^sup>* \<Longrightarrow> z \<in> set (adj_get adj x) \<Longrightarrow> (x, y) \<in> (adj_rel adj)\<^sup>*" for z
      by (auto simp: adj_rel_def intro: converse_rtrancl_into_rtrancl)
    ultimately show ?thesis by auto
  qed
qed

text \<open>What the walk visits from one node is exactly what that node reaches.\<close>

lemma walk_reaches: "y \<in> set (walk adj [x] []) \<longleftrightarrow> (x, y) \<in> (adj_rel adj)\<^sup>*"
proof
  assume "y \<in> set (walk adj [x] [])"
  then show "(x, y) \<in> (adj_rel adj)\<^sup>*" using walk_sound by fastforce
next
  assume "(x, y) \<in> (adj_rel adj)\<^sup>*"
  then show "y \<in> set (walk adj [x] [])"
  proof (induction rule: rtrancl_induct)
    case base
    then show ?case using walk_stack [of "[x]" adj "[]"] by simp
  next
    case (step y z)
    then have "set (adj_get adj y) \<subseteq> set (walk adj [x] [])"
      by (intro walk_closed) auto
    with step.hyps show ?case by (auto simp: adj_rel_def)
  qed
qed

section \<open>The three-colour cycle check\<close>

text \<open>
  \<open>visit\<close> over a list of siblings: \<open>gray\<close> is the path being explored, \<open>black\<close> the finished nodes.
  \<open>None\<close> is "a back edge was found" (Python returns \<open>True\<close> all the way up), \<open>Some black'\<close> the
  finished nodes once every sibling is done.
\<close>

function visit_all :: "'a adjacency \<Rightarrow> 'a list \<Rightarrow> 'a list \<Rightarrow> 'a list \<Rightarrow> 'a list option" where
  "visit_all adj gray black [] = Some black"
| "visit_all adj gray black (n # ns) =
     (if n \<in> set gray then None
      else if n \<in> set black then visit_all adj gray black ns
      else case visit_all adj (n # gray) black (adj_get adj n) of
             None \<Rightarrow> None
           | Some black' \<Rightarrow> visit_all adj gray (n # black') ns)"
  by pat_completeness auto

lemma visit_all_grows_dom:
  "visit_all_dom (adj, gray, black, ns) \<Longrightarrow> visit_all adj gray black ns = Some black' \<Longrightarrow> set black \<subseteq> set black'"
proof (induction arbitrary: black' rule: visit_all.pinduct)
  case (1 adj gray black)
  then show ?case by (simp add: visit_all.psimps)
next
  case (2 adj gray black n ns)
  show ?case
  proof (cases "n \<in> set gray")
    case True
    with 2 show ?thesis by (simp add: visit_all.psimps)
  next
    case ng: False
    show ?thesis
    proof (cases "n \<in> set black")
      case True
      with "2.prems" "2.hyps" ng have "visit_all adj gray black ns = Some black'"
        by (simp add: visit_all.psimps)
      with "2.IH"(1) [OF ng True] show ?thesis by simp
    next
      case nb: False
      with "2.prems" "2.hyps" ng obtain mid where
        mid: "visit_all adj (n # gray) black (adj_get adj n) = Some mid" and
        rest: "visit_all adj gray (n # mid) ns = Some black'"
        by (auto simp: visit_all.psimps split: option.splits)
      from "2.IH"(2) [OF ng nb mid] "2.IH"(3) [OF ng nb mid rest] show ?thesis by auto
    qed
  qed
qed

termination visit_all
proof (relation "inv_image (finite_psubset <*lex*> less_than)
     (\<lambda>(adj, gray, black, ns). (adj_targets adj \<union> set ns - set gray - set black, length ns))", goal_cases)
  case 1
  show ?case by auto
next
  case (2 adj gray black n ns)
  then have "adj_targets adj \<union> set (n # ns) - set gray - set black = adj_targets adj \<union> set ns - set gray - set black"
    by auto
  then show ?case by simp
next
  case (3 adj gray black n ns)
  have "adj_targets adj \<union> set (adj_get adj n) - set (n # gray) - set black
          \<subset> adj_targets adj \<union> set (n # ns) - set gray - set black"
    using 3 adj_get_targets [of adj n] by auto
  then show ?case by (simp add: finite_psubset_def)
next
  case (4 adj gray black n ns black')
  then have "set black \<subseteq> set black'" by (metis visit_all_grows_dom)
  then have "adj_targets adj \<union> set ns - set gray - set (n # black')
          \<subset> adj_targets adj \<union> set (n # ns) - set gray - set black"
    using 4 by auto
  then show ?case by (simp add: finite_psubset_def)
qed

definition has_cycle :: "'a adjacency \<Rightarrow> bool" where
  "has_cycle adj \<longleftrightarrow> visit_all adj [] [] (map fst adj) = None"

text \<open>A back edge closes a cycle: every gray node reaches every sibling.\<close>

lemma visit_all_None:
  "visit_all adj gray black ns = None \<Longrightarrow> (\<And>g n. g \<in> set gray \<Longrightarrow> n \<in> set ns \<Longrightarrow> (g, n) \<in> (adj_rel adj)\<^sup>+) \<Longrightarrow>
   \<exists>x. (x, x) \<in> (adj_rel adj)\<^sup>+"
proof (induction adj gray black ns rule: visit_all.induct)
  case (1 adj gray black)
  then show ?case by simp
next
  case (2 adj gray black n ns)
  show ?case
  proof (cases "n \<in> set gray")
    case True
    with "2.prems"(2) [of n n] show ?thesis by auto
  next
    case ng: False
    show ?thesis
    proof (cases "n \<in> set black")
      case True
      with ng 2 show ?thesis by simp
    next
      case nb: False
      show ?thesis
      proof (cases "visit_all adj (n # gray) black (adj_get adj n)")
        case None
        have "(g, m) \<in> (adj_rel adj)\<^sup>+" if "g \<in> set (n # gray)" "m \<in> set (adj_get adj n)" for g m
        proof -
          have "(n, m) \<in> adj_rel adj" using that by (simp add: adj_rel_def)
          then show ?thesis using that "2.prems"(2) [of g n] by (auto intro: trancl_into_trancl)
        qed
        with "2.IH"(2) [OF ng nb None] show ?thesis by blast
      next
        case (Some black')
        with "2.IH"(3) [OF ng nb Some] "2.prems" ng nb show ?thesis by simp
      qed
    qed
  qed
qed

text \<open>The finished nodes: closed under successors, disjoint from the path, and free of cycles.\<close>

definition finished :: "'a adjacency \<Rightarrow> 'a list \<Rightarrow> bool" where
  "finished adj black \<longleftrightarrow>
     (\<forall>b\<in>set black. set (adj_get adj b) \<subseteq> set black) \<and> (\<forall>b\<in>set black. (b, b) \<notin> (adj_rel adj)\<^sup>+)"

lemma finished_reach:
  assumes "finished adj black" "b \<in> set black" "(b, c) \<in> (adj_rel adj)\<^sup>*"
  shows "c \<in> set black"
  using assms(3) by (induction rule: rtrancl_induct) (use assms in \<open>auto simp: finished_def adj_rel_def\<close>)

lemma finished_Cons:
  assumes f: "finished adj black" and succ: "set (adj_get adj n) \<subseteq> set black" and new: "n \<notin> set black"
  shows "finished adj (n # black)"
proof -
  have "(n, n) \<notin> (adj_rel adj)\<^sup>+"
  proof
    assume "(n, n) \<in> (adj_rel adj)\<^sup>+"
    then obtain m where "(n, m) \<in> adj_rel adj" and "(m, n) \<in> (adj_rel adj)\<^sup>*"
      by (meson tranclD)
    then show False using finished_reach [OF f, of m n] succ new by (auto simp: adj_rel_def)
  qed
  then show ?thesis using f succ by (auto simp: finished_def)
qed

lemma visit_all_Some:
  "visit_all adj gray black ns = Some black' \<Longrightarrow> finished adj black \<Longrightarrow> set gray \<inter> set black = {} \<Longrightarrow>
   finished adj black' \<and> set black \<subseteq> set black' \<and> set ns \<subseteq> set black' \<and> set gray \<inter> set black' = {}"
proof (induction adj gray black ns arbitrary: black' rule: visit_all.induct)
  case (1 adj gray black)
  then show ?case by simp
next
  case (2 adj gray black n ns)
  from "2.prems"(1) have ng: "n \<notin> set gray" by (auto split: if_splits)
  show ?case
  proof (cases "n \<in> set black")
    case True
    with ng 2 show ?thesis by auto
  next
    case nb: False
    with "2.prems"(1) ng obtain mid where
      mid: "visit_all adj (n # gray) black (adj_get adj n) = Some mid" and
      rest: "visit_all adj gray (n # mid) ns = Some black'"
      by (auto split: option.splits)
    from "2.IH"(2) [OF ng nb mid] "2.prems" nb
    have m: "finished adj mid" "set black \<subseteq> set mid" "set (adj_get adj n) \<subseteq> set mid" "set (n # gray) \<inter> set mid = {}"
      by auto
    then have "finished adj (n # mid)" by (intro finished_Cons) auto
    with "2.IH"(3) [OF ng nb mid rest] m ng show ?thesis by auto
  qed
qed

lemma has_cycle_iff: "has_cycle adj \<longleftrightarrow> \<not> acyclic (adj_rel adj)"
proof (cases "visit_all adj [] [] (map fst adj)")
  case None
  then have "\<exists>x. (x, x) \<in> (adj_rel adj)\<^sup>+" by (rule visit_all_None) simp
  with None show ?thesis by (auto simp: has_cycle_def acyclic_def)
next
  case (Some black')
  from visit_all_Some [OF Some]
  have f: "finished adj black'" "fst ` set adj \<subseteq> set black'" by (auto simp: finished_def)
  have "(x, x) \<notin> (adj_rel adj)\<^sup>+" for x
  proof
    assume c: "(x, x) \<in> (adj_rel adj)\<^sup>+"
    then obtain m where "(x, m) \<in> adj_rel adj" by (meson tranclD)
    then have "x \<in> set black'" using f(2) by (auto simp: adj_rel_def dest!: adj_get_nonempty_key)
    with f(1) c show False by (simp add: finished_def)
  qed
  with Some show ?thesis by (simp add: has_cycle_def acyclic_def)
qed

text \<open>The dictionary built with \<open>setdefault(k, []).append(v)\<close> over ordered pairs.\<close>

definition adj_add :: "'a \<times> 'a \<Rightarrow> 'a adjacency \<Rightarrow> 'a adjacency" where
  "adj_add p adj = dict_set (fst p) (adj_get adj (fst p) @ [snd p]) adj"

definition adj_of_pairs :: "('a \<times> 'a) list \<Rightarrow> 'a adjacency" where
  "adj_of_pairs ps = fold adj_add ps []"

lemma adj_get_add: "adj_get (adj_add p adj) x = (if x = fst p then adj_get adj x @ [snd p] else adj_get adj x)"
  by (auto simp: adj_get_def adj_add_def)

lemma adj_rel_add: "adj_rel (adj_add p adj) = insert p (adj_rel adj)"
  by (cases p) (auto simp: adj_rel_def adj_get_add split: if_splits)

lemma adj_rel_of_pairs: "adj_rel (adj_of_pairs ps) = set ps"
proof (induction ps rule: rev_induct)
  case Nil
  then show ?case by (simp add: adj_of_pairs_def adj_rel_def adj_get_def)
next
  case (snoc p ps)
  then show ?case by (simp add: adj_of_pairs_def adj_rel_add)
qed

end
