(* ===== verification/Graph_Validation.thy ===== *)
theory Graph_Validation
  imports Graphs Walks
begin

text \<open>
  Mint-time validation (\<open>hub/domain/graph/validation.py\<close>) and reification
  (\<open>hub/domain/graph/authoring.py\<close>): every rule appends its errors in the order the code
  runs them, one constructor per message, grouped by the rule that raises it; the reachability warnings run
  the code's depth-first walk. The lemmas show what an error-free document guarantees, and that
  the graph compiled from one routes every choice.
\<close>

datatype document_error =
    EntryUnknown ident
  | EscalateNameReserved
  | SessionCollidesWithNode ident
  | SessionModelEntryEmpty ident
  | SessionEffortEmpty ident
  | SessionCompactionEmpty ident
  | HarnessBlank ident nat
  | HarnessDuplicate ident string
  | RotateNotPositive ident string
  | ArtifactNameIllegal ident
  | ArtifactCollidesWithProduces ident
  | ArtifactIsFilePath ident string

datatype action_error =
    RunRetired ident
  | RunOnlyOnHub ident
  | ActionOnlyOnHub ident
  | WithOnlyOnHub ident
  | HubMustNameAction ident
  | WithOnlyOnAction ident
  | UnknownAction ident string
  | MalformedArg ident string
  | UndeclaredArg ident string string
  | RequiredArgMissing ident string string
  | AnswerNotAuthored ident string string
  | ReservedWaitAuthored ident ident

datatype poll_error =
    PollOnlyOnWaiting ident
  | PollIntervalNotPositive ident
  | PollTimeoutNotPositive ident
  | PollTimeoutBelowInterval ident

datatype judgement_error =
    RunnerMustJudge ident
  | WorkerMustPrompt ident
  | GateMustNotPrompt ident
  | HubMustNotPrompt ident
  | HubMustNotCheck ident
  | HubMustNotJudgePrompt ident
  | HubNotHumanJudged ident
  | HubMustJudge ident
  | HubMustAuthorFailure ident

datatype checks_error =
    ChecksCwdWithoutChecks ident
  | ChecksTimeoutWithoutChecks ident
  | ChecksTimeoutNotPositive ident
  | RequiresChecksWithoutChecks ident ident
  | RequiresChecksOnGate ident ident

datatype choice_error =
    ChoiceMissingDescription ident ident
  | ChoiceMissingTo ident ident
  | ChoiceMalformedTarget ident ident string
  | ChoiceEscalatesFromHub ident ident
  | ChoiceUnknownNode ident ident string

datatype session_error =
    SessionValueMalformed ident
  | FreshNamesNoSession ident ident
  | ResumeNamesNothing ident ident
  | RetriesExhaustedIllegal ident string
  | RetiredKey ident string

datatype validation_error =
    DocumentError document_error
  | ActionError action_error
  | PollError poll_error
  | JudgementError judgement_error
  | ChecksError checks_error
  | ChoiceError choice_error
  | SessionError session_error

datatype validation_warning =
    Unreachable ident
  | NoPathToTerminal
  | CrossGraphUnminted string

section \<open>Small rules\<close>

definition ascii_alnum :: "char \<Rightarrow> bool" where
  "ascii_alnum c \<longleftrightarrow> (CHR ''A'' \<le> c \<and> c \<le> CHR ''Z'') \<or> (CHR ''a'' \<le> c \<and> c \<le> CHR ''z'')
     \<or> (CHR ''0'' \<le> c \<and> c \<le> CHR ''9'')"

text \<open>The grammar \<open>[A-Za-z0-9]+(?:[-_.][A-Za-z0-9]+)*\<close>, as the automaton that remembers whether
  the previous character was alphanumeric.\<close>

fun artifact_name_from :: "bool \<Rightarrow> string \<Rightarrow> bool" where
  "artifact_name_from prev [] = prev"
| "artifact_name_from prev (c # cs) =
     (if ascii_alnum c then artifact_name_from True cs
      else prev \<and> c \<in> {CHR ''-'', CHR ''_'', CHR ''.''} \<and> artifact_name_from False cs)"

definition is_valid_graph_artifact_name :: "string \<Rightarrow> bool" where
  "is_valid_graph_artifact_name name = artifact_name_from False name"

text \<open>\<open>\.[A-Za-z0-9]{1,8}$\<close> on a value without whitespace.\<close>

definition has_file_extension :: "string \<Rightarrow> bool" where
  "has_file_extension s =
     (\<exists>n\<in>{1..8}. n < length s \<and> s ! (length s - n - 1) = CHR ''.''
        \<and> list_all ascii_alnum (drop (length s - n) s))"

fun contains_sub :: "string \<Rightarrow> string \<Rightarrow> bool" where
  "contains_sub p [] = (p = [])"
| "contains_sub p (c # cs) = (starts_with p (c # cs) \<or> contains_sub p cs)"

definition is_uninlined_file_reference :: "string \<Rightarrow> bool" where
  "is_uninlined_file_reference content =
     (if content = [] \<or> has_ws content \<or> contains_sub ''://'' content then False
      else CHR ''/'' \<in> set content \<or> has_file_extension content)"

datatype harness_reason = BlankHarness | DuplicateHarness

record harness_problem =
  hp_position :: nat
  hp_reason :: harness_reason
  hp_entry :: string

fun harness_problems_from :: "nat \<Rightarrow> string set \<Rightarrow> string list \<Rightarrow> harness_problem list" where
  "harness_problems_from _ _ [] = []"
| "harness_problems_from position seen (entry # entries) =
     (let stripped = py_strip entry
      in (if stripped = [] then [\<lparr>hp_position = position, hp_reason = BlankHarness, hp_entry = []\<rparr>]
          else if stripped \<in> seen then [\<lparr>hp_position = position, hp_reason = DuplicateHarness, hp_entry = stripped\<rparr>]
          else [])
         @ harness_problems_from (Suc position) (insert stripped seen) entries)"

definition harness_problems :: "string list \<Rightarrow> harness_problem list" where
  "harness_problems entries = harness_problems_from 1 {} entries"

definition validated_harnesses :: "string list \<Rightarrow> harness_problem + string list" where
  "validated_harnesses entries =
     (let problems = harness_problems entries;
          first = (case List.find (\<lambda>p. hp_reason p = BlankHarness) problems of
                     Some p \<Rightarrow> Some p
                   | None \<Rightarrow> (case problems of [] \<Rightarrow> None | p # _ \<Rightarrow> Some p))
      in case first of Some p \<Rightarrow> Inl p | None \<Rightarrow> Inr (map py_strip entries))"

section \<open>Document rules (\<open>Validator\<close>)\<close>

definition node_names :: "graph_doc \<Rightarrow> ident set" where
  "node_names doc = nd_name ` set (gd_nodes doc)"

definition session_names :: "graph_doc \<Rightarrow> ident set" where
  "session_names doc = fst ` set (gd_sessions doc)"

definition check_entry :: "graph_doc \<Rightarrow> document_error list" where
  "check_entry doc = (if gd_entry doc \<notin> node_names doc then [EntryUnknown (gd_entry doc)] else [])"

definition check_reserved_names :: "graph_doc \<Rightarrow> document_error list" where
  "check_reserved_names doc = (if RESERVED_ESCALATE \<in> node_names doc then [EscalateNameReserved] else [])"

definition check_harnesses :: "ident \<Rightarrow> string list \<Rightarrow> document_error list" where
  "check_harnesses name harnesses = map (\<lambda>p.
     if hp_reason p = BlankHarness then HarnessBlank name (hp_position p)
     else HarnessDuplicate name (hp_entry p)) (harness_problems harnesses)"

definition check_rotate :: "ident \<Rightarrow> rotate_policy \<Rightarrow> document_error list" where
  "check_rotate name policy = concat (map (\<lambda>(field, value).
     case value of Some v \<Rightarrow> if v \<le> 0 then [RotateNotPositive name field] else [] | None \<Rightarrow> [])
     [(''max_context_tokens'', rp_max_context_tokens policy),
      (''max_transcript_bytes'', rp_max_transcript_bytes policy),
      (''max_invocations'', rp_max_invocations policy)])"

definition check_decl :: "ident \<Rightarrow> session_decl \<Rightarrow> document_error list" where
  "check_decl name decl =
     map (\<lambda>_. SessionModelEntryEmpty name) (filter (\<lambda>entry. entry = []) (sd_model decl))
     @ (case sd_effort decl of Some e \<Rightarrow> if is_blank e then [SessionEffortEmpty name] else [] | None \<Rightarrow> [])
     @ (case sd_compaction_window decl of
          Some w \<Rightarrow> if is_blank w then [SessionCompactionEmpty name] else [] | None \<Rightarrow> [])
     @ check_harnesses name (sd_harnesses decl)
     @ (case sd_rotate decl of None \<Rightarrow> [] | Some policy \<Rightarrow> check_rotate name policy)"

definition check_sessions :: "graph_doc \<Rightarrow> document_error list" where
  "check_sessions doc = concat (map (\<lambda>(name, decl).
     (if name \<in> node_names doc then [SessionCollidesWithNode name] else []) @ check_decl name decl)
     (gd_sessions doc))"

definition check_artifacts :: "graph_doc \<Rightarrow> document_error list" where
  "check_artifacts doc =
     (let produces_names = ps_name ` (\<Union>n\<in>set (gd_nodes doc). set (nd_produces n))
      in concat (map (\<lambda>(name, content).
           (if \<not> is_valid_graph_artifact_name name then [ArtifactNameIllegal name] else [])
           @ (if name \<in> produces_names then [ArtifactCollidesWithProduces name] else [])
           @ (if is_uninlined_file_reference content then [ArtifactIsFilePath name content] else []))
         (gd_artifacts doc)))"

section \<open>Node rules (\<open>NodeCheck\<close>)\<close>

definition check_run :: "node_doc \<Rightarrow> action_error list" where
  "check_run n =
     (if \<not> nd_names_run n then []
      else if nd_executor n = ExecHub then [RunRetired (nd_name n)] else [RunOnlyOnHub (nd_name n)])"

definition authored_names :: "node_doc \<Rightarrow> ident set" where
  "authored_names n = (case nd_judgement n of None \<Rightarrow> {} | Some j \<Rightarrow> cd_name ` set (jd_choices j))"

definition check_action :: "catalogue \<Rightarrow> node_doc \<Rightarrow> action_error list" where
  "check_action cat n =
     (let name = nd_name n; keys = fst ` set (nd_action_args n);
          withs = nd_action_args n \<noteq> [] \<or> nd_malformed_action_args n \<noteq> []
      in if nd_executor n \<noteq> ExecHub then
           (if nd_action n \<noteq> None then [ActionOnlyOnHub name] else [])
           @ (if withs then [WithOnlyOnHub name] else [])
         else case nd_action n of
           None \<Rightarrow>
             (if \<not> nd_names_run n then [HubMustNameAction name] else [])
             @ (if withs then [WithOnlyOnAction name] else [])
         | Some action \<Rightarrow> (case catalogue_get cat action of
             None \<Rightarrow> [UnknownAction name action]
           | Some spec \<Rightarrow>
               map (MalformedArg name) (nd_malformed_action_args n)
               @ map (UndeclaredArg name (as_name spec)) (sorted_list_of_set (keys - as_args spec))
               @ map (RequiredArgMissing name (as_name spec))
                   (sorted_list_of_set (as_required_args spec - keys - set (nd_malformed_action_args n)))
               @ map (AnswerNotAuthored name (as_name spec))
                   (sorted_list_of_set (answers_for spec (nd_action_args n) - RESERVED_WAITS - authored_names n))))"

definition check_reserved_waits :: "node_doc \<Rightarrow> action_error list" where
  "check_reserved_waits n =
     (case nd_judgement n of None \<Rightarrow> []
      | Some j \<Rightarrow> map (\<lambda>c. ReservedWaitAuthored (nd_name n) (cd_name c))
                   (filter (\<lambda>c. cd_name c \<in> RESERVED_WAITS) (jd_choices j)))"

definition can_wait :: "catalogue \<Rightarrow> node_doc \<Rightarrow> bool" where
  "can_wait cat n =
     (if \<not> nd_is_hub_command_node n then False
      else case nd_action n of None \<Rightarrow> False
        | Some action \<Rightarrow> (case catalogue_get cat action of None \<Rightarrow> False
            | Some spec \<Rightarrow> can_wait_for spec (nd_action_args n)))"

definition check_poll :: "catalogue \<Rightarrow> node_doc \<Rightarrow> poll_error list" where
  "check_poll cat n =
     (let name = nd_name n; interval = nd_poll_interval_seconds n; timeout = nd_poll_timeout_seconds n
      in (if (interval \<noteq> None \<or> timeout \<noteq> None) \<and> \<not> can_wait cat n then [PollOnlyOnWaiting name] else [])
         @ (case interval of Some i \<Rightarrow> if i \<le> 0 then [PollIntervalNotPositive name] else [] | None \<Rightarrow> [])
         @ (case timeout of Some t \<Rightarrow> if t \<le> 0 then [PollTimeoutNotPositive name] else [] | None \<Rightarrow> [])
         @ (case (interval, timeout) of (Some i, Some t) \<Rightarrow> if t < i then [PollTimeoutBelowInterval name] else []
              | _ \<Rightarrow> []))"

text \<open>A prompt counts as declared when it is neither \<open>None\<close> nor the empty string.\<close>

definition truthy :: "string option \<Rightarrow> bool" where
  "truthy s \<longleftrightarrow> (case s of None \<Rightarrow> False | Some t \<Rightarrow> t \<noteq> [])"

definition check_judgement_kind :: "node_doc \<Rightarrow> judgement_error list" where
  "check_judgement_kind n =
     (let name = nd_name n in
      case nd_executor n of
        ExecRunner \<Rightarrow>
          (case nd_judgement n of
             None \<Rightarrow> [RunnerMustJudge name]
           | Some j \<Rightarrow>
               if jd_by j = ByWorker \<and> \<not> truthy (jd_prompt j) then [WorkerMustPrompt name]
               else if jd_by j = ByHuman \<and> truthy (jd_prompt j) then [GateMustNotPrompt name]
               else [])
      | ExecHub \<Rightarrow>
          (if nd_prompt n \<noteq> None then [HubMustNotPrompt name] else [])
          @ (if nd_checks n \<noteq> [] then [HubMustNotCheck name] else [])
          @ (case nd_judgement n of
               None \<Rightarrow> [HubMustJudge name]
             | Some j \<Rightarrow>
                 (if truthy (jd_prompt j) then [HubMustNotJudgePrompt name] else [])
                 @ (if jd_by j = ByHuman then [HubNotHumanJudged name] else [])
                 @ (if \<forall>c\<in>set (jd_choices j). cd_name c \<noteq> HUB_DEFAULT_FAILURE_CHOICE
                    then [HubMustAuthorFailure name] else [])))"

definition check_checks_gating :: "node_doc \<Rightarrow> checks_error list" where
  "check_checks_gating n =
     (let name = nd_name n in
      (if nd_checks n = [] then
         (if nd_checks_cwd n \<noteq> None then [ChecksCwdWithoutChecks name] else [])
         @ (if nd_checks_timeout n \<noteq> None then [ChecksTimeoutWithoutChecks name] else [])
       else [])
      @ (case nd_checks_timeout n of Some t \<Rightarrow> if t \<le> 0 then [ChecksTimeoutNotPositive name] else [] | None \<Rightarrow> [])
      @ (case nd_judgement n of None \<Rightarrow> []
         | Some j \<Rightarrow> concat (map (\<lambda>c.
             if \<not> cd_requires_checks c then []
             else (if nd_checks n = [] then [RequiresChecksWithoutChecks name (cd_name c)] else [])
                  @ (if jd_by j = ByHuman then [RequiresChecksOnGate name (cd_name c)] else []))
             (jd_choices j))))"

definition check_choice_target :: "ident set \<Rightarrow> node_doc \<Rightarrow> choice_doc \<Rightarrow> choice_error list" where
  "check_choice_target names n c =
     (let name = nd_name n in
      (if \<not> truthy (cd_description c) then [ChoiceMissingDescription name (cd_name c)] else [])
      @ (case cd_to c of
           None \<Rightarrow> [ChoiceMissingTo name (cd_name c)]
         | Some to \<Rightarrow>
             (let target = ChoiceTarget_of to in
              if ct_malformed target then [ChoiceMalformedTarget name (cd_name c) to]
              else if ct_node target = Some RESERVED_ESCALATE then
                (if nd_executor n = ExecHub then [ChoiceEscalatesFromHub name (cd_name c)] else [])
              else case ct_node target of
                  Some t \<Rightarrow> if t \<noteq> RESERVED_TERMINAL \<and> t \<notin> names
                             then [ChoiceUnknownNode name (cd_name c) to] else []
                | None \<Rightarrow> [])))"

definition check_choice_targets :: "ident set \<Rightarrow> node_doc \<Rightarrow> choice_error list" where
  "check_choice_targets names n =
     (case nd_judgement n of None \<Rightarrow> [] | Some j \<Rightarrow> concat (map (check_choice_target names n) (jd_choices j)))"

definition check_session_ref :: "ident set \<Rightarrow> ident set \<Rightarrow> node_doc \<Rightarrow> session_error list" where
  "check_session_ref names sessions n =
     (let name = nd_name n in
      if nd_session_malformed n then [SessionValueMalformed name]
      else case nd_session_source n of
        None \<Rightarrow> []
      | Some source \<Rightarrow>
          if nd_session n = SessFresh then
            (if source \<notin> sessions then [FreshNamesNoSession name source] else [])
          else if source \<notin> sessions \<and> source \<notin> names then [ResumeNamesNothing name source]
          else [])"

definition check_retries :: "node_doc \<Rightarrow> session_error list" where
  "check_retries n =
     (case nd_retries_exhausted n of
        Some x \<Rightarrow> if x \<noteq> ''escalate'' then [RetriesExhaustedIllegal (nd_name n) x] else []
      | None \<Rightarrow> [])"

definition check_retired_keys :: "node_doc \<Rightarrow> session_error list" where
  "check_retired_keys n = map (RetiredKey (nd_name n)) (nd_retired_keys n)"

definition node_check :: "catalogue \<Rightarrow> ident set \<Rightarrow> ident set \<Rightarrow> node_doc \<Rightarrow> validation_error list" where
  "node_check cat names sessions n =
     map ActionError (check_run n @ check_action cat n @ check_reserved_waits n)
     @ map PollError (check_poll cat n)
     @ map JudgementError (check_judgement_kind n)
     @ map ChecksError (check_checks_gating n)
     @ map ChoiceError (check_choice_targets names n)
     @ map SessionError (check_session_ref names sessions n @ check_retries n @ check_retired_keys n)"

section \<open>The document's verdict (\<open>Validator.result\<close>)\<close>

definition validator_errors :: "catalogue \<Rightarrow> graph_doc \<Rightarrow> validation_error list" where
  "validator_errors cat doc =
     map DocumentError (check_entry doc @ check_reserved_names doc @ check_sessions doc @ check_artifacts doc)
     @ concat (map (node_check cat (node_names doc) (session_names doc)) (gd_nodes doc))"

section \<open>Reachability warnings (\<open>Reachability\<close>)\<close>

text \<open>The names a node's authored choices lead to. A cross-graph, malformed or escalating target
  contributes none. A successor set is kept as a list without repetition.\<close>

definition choice_successor :: "choice_doc \<Rightarrow> ident option" where
  "choice_successor c =
     (case cd_to c of None \<Rightarrow> None
      | Some to \<Rightarrow> if ct_node (ChoiceTarget_of to) \<in> {None, Some RESERVED_ESCALATE} then None else Some to)"

definition node_successors :: "node_doc \<Rightarrow> ident list" where
  "node_successors n =
     (case nd_judgement n of None \<Rightarrow> [] | Some j \<Rightarrow> List.map_filter choice_successor (jd_choices j))"

definition reachability_edges :: "graph_doc \<Rightarrow> ident adjacency" where
  "reachability_edges doc =
     fold (\<lambda>n adj. dict_set (nd_name n) (dedup (adj_get adj (nd_name n) @ node_successors n)) adj)
       (gd_nodes doc) (dict_of (map (\<lambda>n. (nd_name n, [])) (gd_nodes doc)))"

definition without_terminal :: "ident adjacency \<Rightarrow> ident adjacency" where
  "without_terminal adj = map (\<lambda>(name, ts). (name, filter (\<lambda>t. t \<noteq> RESERVED_TERMINAL) ts)) adj"

definition reached :: "graph_doc \<Rightarrow> bool \<Rightarrow> ident set" where
  "reached doc include_terminal =
     (let edges = reachability_edges doc
      in set (walk (if include_terminal then edges else without_terminal edges) [gd_entry doc] []))"

definition reachability_warnings :: "graph_doc \<Rightarrow> validation_warning list" where
  "reachability_warnings doc =
     (if gd_entry doc \<notin> node_names doc then []
      else map Unreachable (sorted_list_of_set (node_names doc - reached doc False))
           @ (if RESERVED_TERMINAL \<notin> reached doc True then [NoPathToTerminal] else []))"

record validation_result =
  vr_errors :: "validation_error list"
  vr_warnings :: "validation_warning list"

definition validate :: "catalogue \<Rightarrow> graph_doc \<Rightarrow> validation_result" where
  "validate cat doc = \<lparr>vr_errors = validator_errors cat doc, vr_warnings = reachability_warnings doc\<rparr>"

definition vr_ok :: "validation_result \<Rightarrow> bool" where
  "vr_ok r \<longleftrightarrow> vr_errors r = []"

definition require_valid :: "catalogue \<Rightarrow> graph_doc \<Rightarrow> validation_result + validation_result" where
  "require_valid cat doc = (let r = validate cat doc in if \<not> vr_ok r then Inl r else Inr r)"

definition cross_graph_warnings :: "graph \<Rightarrow> string set \<Rightarrow> validation_warning list" where
  "cross_graph_warnings g enabled_names =
     map CrossGraphUnminted (filter (\<lambda>t. t \<notin> enabled_names) (cross_graph_targets g))"

section \<open>Reification (\<open>authoring.py\<close>)\<close>

text \<open>The ids a compilation has struck: one per node name, one per (node, choice) position.\<close>

record reification =
  re_doc :: graph_doc
  re_graph_id :: ident
  re_node_ids :: "ident \<Rightarrow> ident"
  re_choice_ids :: "nat \<times> nat \<Rightarrow> ident"
  re_created_at :: instant

definition choice_docs :: "node_doc \<Rightarrow> choice_doc list" where
  "choice_docs nd = (case nd_judgement nd of None \<Rightarrow> [] | Some j \<Rightarrow> jd_choices j)"

text \<open>\<open>s or default\<close>: the empty string and \<open>None\<close> both fall through.\<close>

definition or_else :: "string option \<Rightarrow> string \<Rightarrow> string" where
  "or_else s dflt = (case s of None \<Rightarrow> dflt | Some t \<Rightarrow> if t = [] then dflt else t)"

definition reified_node :: "reification \<Rightarrow> nat \<Rightarrow> node_doc \<Rightarrow> node" where
  "reified_node re index nd = \<lparr>
     node_id = re_node_ids re (nd_name nd),
     node_graph_id = re_graph_id re,
     node_name = nd_name nd,
     node_executor = nd_executor nd,
     node_prompt = nd_prompt nd,
     node_checks = nd_checks nd,
     node_produces = nd_produces nd,
     node_session = nd_session nd,
     node_judged_by = (case nd_judgement nd of None \<Rightarrow> ByWorker | Some j \<Rightarrow> jd_by j),
     node_retries_max = nd_retries_max nd,
     node_retries_exhausted = nd_retries_exhausted nd,
     node_judgement_prompt = (case nd_judgement nd of None \<Rightarrow> None | Some j \<Rightarrow> jd_prompt j),
     node_choices = map (\<lambda>(position, c).
       \<lparr>choice_id = re_choice_ids re (index, position), choice_name = cd_name c,
        choice_description = or_else (cd_description c) [], choice_requires_checks = cd_requires_checks c\<rparr>)
       (List.enumerate 0 (choice_docs nd)),
     node_bounce_cap = nd_bounce_cap nd,
     node_action = nd_action nd,
     node_action_args = nd_action_args nd,
     node_legacy_run = None,
     node_poll_interval_seconds = nd_poll_interval_seconds nd,
     node_poll_timeout_seconds = nd_poll_timeout_seconds nd,
     node_session_source = nd_session_source nd,
     node_checks_cwd = nd_checks_cwd nd,
     node_checks_timeout = nd_checks_timeout nd\<rparr>"

definition reified_edges :: "reification \<Rightarrow> nat \<Rightarrow> node_doc \<Rightarrow> edge list" where
  "reified_edges re index nd = map (\<lambda>(position, c).
     \<lparr>edge_from_node_id = re_node_ids re (nd_name nd),
      edge_choice_id = re_choice_ids re (index, position),
      edge_to_node_name = or_else (cd_to c) RESERVED_TERMINAL,
      edge_prompt_addendum = cd_prompt_addendum c,
      edge_target_graph = cd_target_graph c,
      edge_model = cd_model c\<rparr>) (List.enumerate 0 (choice_docs nd))"

definition reified_graph :: "reification \<Rightarrow> graph" where
  "reified_graph re =
     (let doc = re_doc re; nodes = List.enumerate 0 (gd_nodes doc) in \<lparr>
     graph_id = re_graph_id re,
     graph_name = gd_name doc,
     graph_entry_node_id = re_node_ids re (gd_entry doc),
     graph_nodes = map (\<lambda>(index, nd). reified_node re index nd) nodes,
     graph_edges = concat (map (\<lambda>(index, nd). reified_edges re index nd) nodes),
     graph_created_at = re_created_at re,
     graph_sessions = map snd (gd_sessions doc),
     graph_artifacts = map (\<lambda>(ordinal, (name, content)).
       \<lparr>ga_name = name, ga_content = content, ga_ordinal = ordinal\<rparr>)
       (List.enumerate 0 (gd_artifacts doc))\<rparr>)"

datatype default_resolution = UseEnabled graph | MintDefault | RefuseRetired ident

definition resolve_default :: "ident \<Rightarrow> graph option \<Rightarrow> bool \<Rightarrow> default_resolution" where
  "resolve_default name enabled any_minted =
     (case enabled of Some g \<Rightarrow> UseEnabled g
      | None \<Rightarrow> if any_minted then RefuseRetired name else MintDefault)"

section \<open>What an error-free document guarantees\<close>

lemma vr_ok_iff: "vr_ok (validate cat doc) \<longleftrightarrow> validator_errors cat doc = []"
  by (simp add: vr_ok_def validate_def)

lemma vr_ok_entry: "vr_ok (validate cat doc) \<Longrightarrow> gd_entry doc \<in> node_names doc"
  by (auto simp: vr_ok_iff validator_errors_def check_entry_def split: if_splits)

lemma vr_ok_escalate: "vr_ok (validate cat doc) \<Longrightarrow> RESERVED_ESCALATE \<notin> node_names doc"
  by (auto simp: vr_ok_iff validator_errors_def check_reserved_names_def split: if_splits)

lemma vr_ok_node:
  "vr_ok (validate cat doc) \<Longrightarrow> n \<in> set (gd_nodes doc) \<Longrightarrow>
   node_check cat (node_names doc) (session_names doc) n = []"
  by (auto simp: vr_ok_iff validator_errors_def)

lemma vr_ok_choice:
  assumes "vr_ok (validate cat doc)" and "n \<in> set (gd_nodes doc)" and "c \<in> set (choice_docs n)"
  shows "check_choice_target (node_names doc) n c = []"
  using vr_ok_node [OF assms(1,2)] assms(3)
  by (auto simp: node_check_def check_choice_targets_def choice_docs_def split: option.splits)

definition choice_resolves :: "graph_doc \<Rightarrow> node_doc \<Rightarrow> string \<Rightarrow> bool" where
  "choice_resolves doc n to \<longleftrightarrow>
     to = RESERVED_TERMINAL
     \<or> (to = RESERVED_ESCALATE \<and> nd_executor n = ExecRunner)
     \<or> ct_graph (ChoiceTarget_of to) \<noteq> None
     \<or> to \<in> node_names doc"

theorem valid_choices_resolve:
  assumes "vr_ok (validate cat doc)" and "n \<in> set (gd_nodes doc)" and "c \<in> set (choice_docs n)"
  shows "truthy (cd_description c) \<and> (\<exists>to. cd_to c = Some to \<and> choice_resolves doc n to)"
proof -
  note ok = vr_ok_choice [OF assms]
  from ok have d: "truthy (cd_description c)" by (auto simp: check_choice_target_def Let_def split: if_splits)
  from ok obtain to where to: "cd_to c = Some to"
    by (auto simp: check_choice_target_def Let_def split: if_splits option.splits)
  have "choice_resolves doc n to"
  proof (cases "ct_graph (ChoiceTarget_of to)")
    case None
    with ok to obtain t where t: "ct_node (ChoiceTarget_of to) = Some t"
      by (auto simp: check_choice_target_def ct_malformed_def Let_def split: if_splits)
    then have "t = to" by (simp add: ChoiceTarget_of_node)
    with ok to t None show ?thesis
      by (cases "nd_executor n")
         (auto simp: check_choice_target_def ct_malformed_def choice_resolves_def Let_def split: if_splits)
  next
    case (Some g)
    then show ?thesis by (simp add: choice_resolves_def)
  qed
  with d to show ?thesis by blast
qed

text \<open>An action's argument and answer sets are frozensets: finite.\<close>

definition finite_catalogue :: "catalogue \<Rightarrow> bool" where
  "finite_catalogue cat \<longleftrightarrow> (\<forall>p\<in>set cat. finite (as_required_args (snd p)) \<and> finite (as_answers (snd p)))"

lemma finite_answers:
  "finite_catalogue cat \<Longrightarrow> catalogue_get cat a = Some spec \<Longrightarrow>
   finite (as_required_args spec) \<and> finite (answers_for spec args)"
  unfolding catalogue_get_def finite_catalogue_def answers_for_def
  by (drule map_of_SomeD) (auto split: option.splits)

text \<open>C37: On a document the validator accepts every hub node names a catalogue action with its required
  arguments and no unknown ones, routes every answer the action can give except the reserved
  waits, routes no reserved wait, and routes the default failure choice.\<close>

theorem valid_hub_node_routes_every_answer:
  assumes fin: "finite_catalogue cat" and ok: "vr_ok (validate cat doc)"
    and n: "n \<in> set (gd_nodes doc)" and hub: "nd_executor n = ExecHub"
  shows "\<exists>action spec. nd_action n = Some action \<and> catalogue_get cat action = Some spec
           \<and> fst ` set (nd_action_args n) \<subseteq> as_args spec
           \<and> as_required_args spec \<subseteq> fst ` set (nd_action_args n)
           \<and> answers_for spec (nd_action_args n) - RESERVED_WAITS \<subseteq> authored_names n
           \<and> authored_names n \<inter> RESERVED_WAITS = {}
           \<and> HUB_DEFAULT_FAILURE_CHOICE \<in> authored_names n"
proof -
  note chk = vr_ok_node [OF ok n]
  from chk have run: "check_run n = []" and act: "check_action cat n = []" and waits: "check_reserved_waits n = []"
    and judge: "check_judgement_kind n = []"
    by (auto simp: node_check_def)
  from run hub have nr: "\<not> nd_names_run n" by (auto simp: check_run_def split: if_splits)
  from act hub nr obtain action where a: "nd_action n = Some action"
    by (auto simp: check_action_def Let_def split: option.splits if_splits)
  from act hub a obtain spec where sp: "catalogue_get cat action = Some spec"
    by (auto simp: check_action_def Let_def split: option.splits)
  have m: "nd_malformed_action_args n = []" and u: "fst ` set (nd_action_args n) \<subseteq> as_args spec"
    and rq: "as_required_args spec \<subseteq> fst ` set (nd_action_args n)"
    and ans: "answers_for spec (nd_action_args n) - RESERVED_WAITS \<subseteq> authored_names n"
    using act hub a sp finite_answers [OF fin sp] by (auto simp: check_action_def Let_def)
  from judge hub obtain j where j: "nd_judgement n = Some j"
    and f: "\<exists>c\<in>set (jd_choices j). cd_name c = HUB_DEFAULT_FAILURE_CHOICE"
    by (auto simp: check_judgement_kind_def Let_def split: option.splits if_splits)
  from waits j have "authored_names n \<inter> RESERVED_WAITS = {}"
    by (auto simp: check_reserved_waits_def authored_names_def filter_empty_conv)
  moreover from j f have "HUB_DEFAULT_FAILURE_CHOICE \<in> authored_names n"
    by (force simp: authored_names_def)
  ultimately show ?thesis using a sp u rq ans by blast
qed

definition leads_to :: "graph_doc \<Rightarrow> bool \<Rightarrow> (ident \<times> ident) set" where
  "leads_to doc include_terminal =
     {(a, b). \<exists>n\<in>set (gd_nodes doc). nd_name n = a \<and> b \<in> set (node_successors n)
                \<and> (include_terminal \<or> b \<noteq> RESERVED_TERMINAL)}"

lemma adj_rel_extend: "adj_rel (dict_set k (dedup (adj_get adj k @ ys)) adj) = adj_rel adj \<union> {k} \<times> set ys"
  by (auto simp: adj_rel_def adj_get_def split: if_splits option.splits)

lemma adj_rel_blank: "adj_rel (dict_of (map (\<lambda>n. (f n, [])) ns)) = {}"
proof -
  have "adj_get (dict_of (map (\<lambda>n. (f n, [])) ns)) x = []" for x
    by (auto simp: adj_get_def map_of_dict_of split: option.splits dest: map_of_SomeD)
  then show ?thesis by (simp add: adj_rel_def)
qed

lemma adj_rel_reachability_edges: "adj_rel (reachability_edges doc) = leads_to doc True"
proof -
  have "adj_rel (fold (\<lambda>n adj. dict_set (nd_name n) (dedup (adj_get adj (nd_name n) @ node_successors n)) adj) ns adj0)
        = adj_rel adj0 \<union> {(a, b). \<exists>n\<in>set ns. nd_name n = a \<and> b \<in> set (node_successors n)}" for ns adj0
    by (induction ns arbitrary: adj0) (auto simp: adj_rel_extend)
  then show ?thesis by (simp add: reachability_edges_def adj_rel_blank leads_to_def)
qed

lemma adj_rel_without_terminal:
  "adj_rel (without_terminal adj) = adj_rel adj \<inter> {(a, b). b \<noteq> RESERVED_TERMINAL}"
  by (auto simp: adj_rel_def adj_get_def without_terminal_def map_of_map split: option.splits)

lemma reached_iff: "x \<in> reached doc it \<longleftrightarrow> (gd_entry doc, x) \<in> (leads_to doc it)\<^sup>*"
proof -
  have "adj_rel (without_terminal (reachability_edges doc)) = leads_to doc False"
    by (auto simp: adj_rel_without_terminal adj_rel_reachability_edges leads_to_def)
  then show ?thesis
    by (cases it) (simp_all add: reached_def Let_def walk_reaches adj_rel_reachability_edges del: walk.simps)
qed

lemma finite_node_names [simp]: "finite (node_names doc)"
  by (simp add: node_names_def)

theorem reachability_warnings_exact:
  "(Unreachable name \<in> set (reachability_warnings doc) \<longleftrightarrow>
      gd_entry doc \<in> node_names doc \<and> name \<in> node_names doc
      \<and> (gd_entry doc, name) \<notin> (leads_to doc False)\<^sup>*)
   \<and> (NoPathToTerminal \<in> set (reachability_warnings doc) \<longleftrightarrow>
      gd_entry doc \<in> node_names doc \<and> (gd_entry doc, RESERVED_TERMINAL) \<notin> (leads_to doc True)\<^sup>*)"
  by (auto simp: reachability_warnings_def reached_iff)

section \<open>The compiled graph\<close>

text \<open>The ids of a compilation are minted one by one: distinct over what the document names.\<close>

definition doc_positions :: "graph_doc \<Rightarrow> (nat \<times> nat) set" where
  "doc_positions doc = {(i, p). i < length (gd_nodes doc) \<and> p < length (choice_docs (gd_nodes doc ! i))}"

definition fresh_ids :: "reification \<Rightarrow> bool" where
  "fresh_ids re \<longleftrightarrow> inj_on (re_node_ids re) (node_names (re_doc re))
     \<and> inj_on (re_choice_ids re) (doc_positions (re_doc re))"

definition named_apart :: "graph_doc \<Rightarrow> bool" where
  "named_apart doc \<longleftrightarrow> distinct (map nd_name (gd_nodes doc)) \<and> [] \<notin> node_names doc
     \<and> (\<forall>n\<in>set (gd_nodes doc). distinct (map cd_name (choice_docs n)))"

lemma enumerate_nth: "List.enumerate 0 xs = map (\<lambda>i. (i, xs ! i)) [0..<length xs]"
  by (rule nth_equalityI) (auto simp: nth_enumerate_eq)

lemma reified_nodes:
  "graph_nodes (reified_graph re) =
     map (\<lambda>i. reified_node re i (gd_nodes (re_doc re) ! i)) [0..<length (gd_nodes (re_doc re))]"
  by (simp add: reified_graph_def enumerate_nth Let_def)

lemma reified_node_simps [simp]:
  "node_id (reified_node re i nd) = re_node_ids re (nd_name nd)"
  "node_name (reified_node re i nd) = nd_name nd"
  "node_choices (reified_node re i nd) =
     map (\<lambda>p. let c = choice_docs nd ! p in
       \<lparr>choice_id = re_choice_ids re (i, p), choice_name = cd_name c,
        choice_description = or_else (cd_description c) [], choice_requires_checks = cd_requires_checks c\<rparr>)
       [0..<length (choice_docs nd)]"
  by (simp_all add: reified_node_def enumerate_nth Let_def)

definition edge_at :: "reification \<Rightarrow> nat \<Rightarrow> nat \<Rightarrow> edge" where
  "edge_at re i p =
     (let nd = gd_nodes (re_doc re) ! i; c = choice_docs nd ! p in
      \<lparr>edge_from_node_id = re_node_ids re (nd_name nd), edge_choice_id = re_choice_ids re (i, p),
       edge_to_node_name = or_else (cd_to c) RESERVED_TERMINAL, edge_prompt_addendum = cd_prompt_addendum c,
       edge_target_graph = cd_target_graph c, edge_model = cd_model c\<rparr>)"

lemma reified_edges_iff:
  "e \<in> set (graph_edges (reified_graph re)) \<longleftrightarrow> (\<exists>i p. (i, p) \<in> doc_positions (re_doc re) \<and> e = edge_at re i p)"
proof -
  have "graph_edges (reified_graph re) = concat (map (\<lambda>i.
      map (edge_at re i) [0..<length (choice_docs (gd_nodes (re_doc re) ! i))]) [0..<length (gd_nodes (re_doc re))])"
    by (simp add: reified_graph_def reified_edges_def Let_def enumerate_nth comp_def edge_at_def [abs_def])
  then have "set (graph_edges (reified_graph re)) = (\<Union>i<length (gd_nodes (re_doc re)).
      edge_at re i ` {..<length (choice_docs (gd_nodes (re_doc re) ! i))})"
    by (simp add: atLeast0LessThan)
  then show ?thesis unfolding doc_positions_def by blast
qed

lemma reified_choices_iff:
  "(\<exists>n c. n \<in> set (graph_nodes (reified_graph re)) \<and> node_id n = nid \<and> c \<in> set (node_choices n)
      \<and> choice_name c = name \<and> choice_id c = cid) \<longleftrightarrow>
   (\<exists>i p. (i, p) \<in> doc_positions (re_doc re) \<and> re_node_ids re (nd_name (gd_nodes (re_doc re) ! i)) = nid
      \<and> cd_name (choice_docs (gd_nodes (re_doc re) ! i) ! p) = name \<and> re_choice_ids re (i, p) = cid)"
proof
  assume "\<exists>n c. n \<in> set (graph_nodes (reified_graph re)) \<and> node_id n = nid \<and> c \<in> set (node_choices n)
      \<and> choice_name c = name \<and> choice_id c = cid"
  then show "\<exists>i p. (i, p) \<in> doc_positions (re_doc re) \<and> re_node_ids re (nd_name (gd_nodes (re_doc re) ! i)) = nid
      \<and> cd_name (choice_docs (gd_nodes (re_doc re) ! i) ! p) = name \<and> re_choice_ids re (i, p) = cid"
    by (clarsimp simp: reified_nodes doc_positions_def Let_def) blast
next
  assume "\<exists>i p. (i, p) \<in> doc_positions (re_doc re) \<and> re_node_ids re (nd_name (gd_nodes (re_doc re) ! i)) = nid
      \<and> cd_name (choice_docs (gd_nodes (re_doc re) ! i) ! p) = name \<and> re_choice_ids re (i, p) = cid"
  then obtain i p where i: "i < length (gd_nodes (re_doc re))"
    and p: "p < length (choice_docs (gd_nodes (re_doc re) ! i))"
    and eqs: "re_node_ids re (nd_name (gd_nodes (re_doc re) ! i)) = nid"
      "cd_name (choice_docs (gd_nodes (re_doc re) ! i) ! p) = name" "re_choice_ids re (i, p) = cid"
    by (auto simp: doc_positions_def)
  let ?n = "reified_node re i (gd_nodes (re_doc re) ! i)"
  have "?n \<in> set (graph_nodes (reified_graph re))" using i by (auto simp: reified_nodes)
  moreover have "node_choices ?n ! p \<in> set (node_choices ?n)" using p by simp
  moreover have "choice_name (node_choices ?n ! p) = name" "choice_id (node_choices ?n ! p) = cid"
    using p eqs by (auto simp: Let_def)
  ultimately show "\<exists>n c. n \<in> set (graph_nodes (reified_graph re)) \<and> node_id n = nid \<and> c \<in> set (node_choices n)
      \<and> choice_name c = name \<and> choice_id c = cid"
    using eqs(1) by (metis reified_node_simps(1))
qed

lemma edge_for_choice_iff:
  "edge_for_choice g nid name = List.find (\<lambda>e. edge_from_node_id e = nid \<and>
     (\<exists>n c. n \<in> set (graph_nodes g) \<and> node_id n = nid \<and> c \<in> set (node_choices n)
        \<and> choice_name c = name \<and> choice_id c = edge_choice_id e)) (graph_edges g)"
proof -
  have "(\<lambda>e. edge_from_node_id e = nid \<and> edge_choice_id e \<in> {choice_id c | c n. n \<in> set (graph_nodes g) \<and> node_id n = nid
                          \<and> c \<in> set (node_choices n) \<and> choice_name c = name})
     = (\<lambda>e. edge_from_node_id e = nid \<and>
     (\<exists>n c. n \<in> set (graph_nodes g) \<and> node_id n = nid \<and> c \<in> set (node_choices n)
        \<and> choice_name c = name \<and> choice_id c = edge_choice_id e))"
    by (rule ext, unfold mem_Collect_eq) metis
  then show ?thesis unfolding edge_for_choice_def Let_def
    by (rule arg_cong [where f = "\<lambda>P. List.find P (graph_edges g)"])
qed

lemma reified_edge_for_choice:
  assumes fresh: "fresh_ids re" and apart: "named_apart (re_doc re)"
    and pos: "(i, p) \<in> doc_positions (re_doc re)"
  defines "nd \<equiv> gd_nodes (re_doc re) ! i"
  defines "c \<equiv> choice_docs nd ! p"
  shows "\<exists>e. edge_for_choice (reified_graph re) (re_node_ids re (nd_name nd)) (cd_name c) = Some e
           \<and> edge_to_node_name e = or_else (cd_to c) RESERVED_TERMINAL
           \<and> edge_target_graph e = cd_target_graph c"
proof -
  let ?d = "re_doc re"
  let ?P = "\<lambda>e. edge_from_node_id e = re_node_ids re (nd_name nd) \<and>
     (\<exists>n ch. n \<in> set (graph_nodes (reified_graph re)) \<and> node_id n = re_node_ids re (nd_name nd)
        \<and> ch \<in> set (node_choices n) \<and> choice_name ch = cd_name c \<and> choice_id ch = edge_choice_id e)"
  let ?e = "edge_at re i p"
  have "?e \<in> set (graph_edges (reified_graph re))"
    using pos unfolding reified_edges_iff by blast
  moreover have "?P ?e"
    using pos unfolding reified_choices_iff nd_def c_def by (auto simp: edge_at_def Let_def)
  ultimately obtain e where f: "List.find ?P (graph_edges (reified_graph re)) = Some e"
    using find_Some_ex [of ?e _ ?P] by auto
  then have e: "e \<in> set (graph_edges (reified_graph re))" and Pe: "?P e" by (auto dest!: find_SomeD)
  from e obtain i1 p1 where 1: "(i1, p1) \<in> doc_positions ?d"
    and eq: "edge_choice_id e = re_choice_ids re (i1, p1)"
      "edge_to_node_name e = or_else (cd_to (choice_docs (gd_nodes ?d ! i1) ! p1)) RESERVED_TERMINAL"
      "edge_target_graph e = cd_target_graph (choice_docs (gd_nodes ?d ! i1) ! p1)"
    unfolding reified_edges_iff by (auto simp: edge_at_def Let_def)
  from Pe obtain i2 p2 where 2: "(i2, p2) \<in> doc_positions ?d"
    and n2: "re_node_ids re (nd_name (gd_nodes ?d ! i2)) = re_node_ids re (nd_name nd)"
    and c2: "cd_name (choice_docs (gd_nodes ?d ! i2) ! p2) = cd_name c"
    and id2: "re_choice_ids re (i2, p2) = edge_choice_id e"
    unfolding reified_choices_iff by auto
  from 1 2 eq id2 fresh have same: "(i1, p1) = (i2, p2)"
    by (auto simp: fresh_ids_def dest!: inj_onD)
  have "i2 = i"
  proof -
    have "nd_name (gd_nodes ?d ! i2) = nd_name nd"
      using n2 fresh 2 pos by (auto simp: fresh_ids_def node_names_def nd_def doc_positions_def dest!: inj_onD)
    then show ?thesis using apart 2 pos
      by (simp add: named_apart_def nd_def doc_positions_def distinct_conv_nth)
         (metis (no_types, lifting) nth_map)
  qed
  moreover have "p2 = p"
  proof -
    have "distinct (map cd_name (choice_docs nd))"
      using apart pos by (auto simp: named_apart_def nd_def doc_positions_def)
    then show ?thesis using c2 2 pos \<open>i2 = i\<close>
      by (simp add: c_def nd_def doc_positions_def distinct_conv_nth) (metis (no_types, lifting) nth_map)
  qed
  ultimately show ?thesis using f eq same
    by (simp add: edge_for_choice_iff nd_def c_def)
qed

lemma node_by_name_reified:
  "node_by_name (reified_graph re) name \<noteq> None \<longleftrightarrow> name \<in> node_names (re_doc re)"
proof -
  have "map node_name (graph_nodes (reified_graph re)) = map nd_name (gd_nodes (re_doc re))"
    by (rule nth_equalityI) (auto simp: reified_nodes)
  then have "node_name ` set (graph_nodes (reified_graph re)) = node_names (re_doc re)"
    unfolding node_names_def by (metis set_map)
  then show ?thesis by (simp add: node_by_name_eq_None)
qed

text \<open>C6: A document the validator accepts, whose node names are distinct and not empty and whose choice
  names are distinct within each node, compiles under fresh ids to a graph in which every
  authored choice of every node resolves to an edge whose target is the authored one: the
  terminal, an escalation from a runner node, another graph, or a node of the graph. Neither the
  validator nor the parser ensures those names (a mapping keyed by 1 and '1' gives two of one
  name, '' is a legal key); without them it fails, see the findings.\<close>

theorem minted_graph_routes_every_choice:
  assumes ok: "vr_ok (validate cat (re_doc re))" and fresh: "fresh_ids re" and apart: "named_apart (re_doc re)"
    and n: "n \<in> set (gd_nodes (re_doc re))" and c: "c \<in> set (choice_docs n)"
  shows "\<exists>e to. edge_for_choice (reified_graph re) (re_node_ids re (nd_name n)) (cd_name c) = Some e
           \<and> cd_to c = Some to \<and> edge_to_node_name e = to
           \<and> (to = RESERVED_TERMINAL \<or> (edge_escalates e \<and> nd_executor n = ExecRunner)
              \<or> ct_graph (ChoiceTarget_of to) \<noteq> None \<or> node_by_name (reified_graph re) to \<noteq> None)"
proof -
  from n c obtain i p where pos: "(i, p) \<in> doc_positions (re_doc re)"
    and eq: "n = gd_nodes (re_doc re) ! i" "c = choice_docs n ! p"
    by (fastforce simp: doc_positions_def in_set_conv_nth)
  from reified_edge_for_choice [OF fresh apart pos] eq obtain e where
    e: "edge_for_choice (reified_graph re) (re_node_ids re (nd_name n)) (cd_name c) = Some e"
      "edge_to_node_name e = or_else (cd_to c) RESERVED_TERMINAL" by auto
  from ok n c have "\<exists>to. cd_to c = Some to \<and> choice_resolves (re_doc re) n to"
    by (rule valid_choices_resolve [THEN conjunct2])
  then obtain to where to: "cd_to c = Some to" "choice_resolves (re_doc re) n to" by blast
  have "to \<noteq> []"
    using to(2) apart
    by (auto simp: choice_resolves_def named_apart_def RESERVED_TERMINAL_def RESERVED_ESCALATE_def
        ChoiceTarget_of_graph GRAPH_TARGET_PREFIX_def)
  with e to have "edge_to_node_name e = to" by (simp add: or_else_def)
  with e to show ?thesis
    unfolding node_by_name_reified choice_resolves_def edge_escalates_def by blast
qed

section \<open>Witnesses\<close>

text \<open>A two-node document the witnesses run on: a worker-judged \<open>work\<close> node and a \<open>land\<close> hub node.\<close>

definition sample_choice :: "ident \<Rightarrow> string \<Rightarrow> choice_doc" where
  "sample_choice name to = \<lparr>cd_name = name, cd_description = Some ''d'', cd_to = Some to,
     cd_prompt_addendum = None, cd_target_graph = None, cd_model = None, cd_requires_checks = False\<rparr>"

definition sample_node :: "ident \<Rightarrow> executor \<Rightarrow> string option \<Rightarrow> string option \<Rightarrow> choice_doc list \<Rightarrow> node_doc" where
  "sample_node name executor prompt action choices = \<lparr>nd_name = name, nd_executor = executor,
     nd_prompt = prompt, nd_checks = [], nd_produces = [], nd_session = SessResume, nd_retries_max = None,
     nd_retries_exhausted = None,
     nd_judgement = Some \<lparr>jd_prompt = prompt, jd_by = ByWorker, jd_choices = choices\<rparr>,
     nd_bounce_cap = None, nd_run = [], nd_names_run = False, nd_action = action, nd_action_args = [],
     nd_malformed_action_args = [], nd_poll_interval_seconds = None, nd_poll_timeout_seconds = None,
     nd_session_source = None, nd_session_malformed = False, nd_checks_cwd = None,
     nd_checks_timeout = None, nd_retired_keys = []\<rparr>"

definition sample_land :: node_doc where
  "sample_land = sample_node ''land'' ExecHub None (Some ''land'')
     [sample_choice ''landed'' ''done'', sample_choice ''conflict'' ''work'',
      sample_choice ''failure'' ''work'', sample_choice ''inherited-failure'' ''graph:repair'']"

definition sample_work :: node_doc where
  "sample_work = sample_node ''work'' ExecRunner (Some ''do it'') None
     [sample_choice ''ok'' ''land'', sample_choice ''stuck'' ''escalate'']"

definition sample_doc :: graph_doc where
  "sample_doc = \<lparr>gd_name = ''default'', gd_entry = ''work'', gd_nodes = [sample_work, sample_land],
     gd_sessions = [], gd_artifacts = []\<rparr>"

lemma sample_ok: "vr_ok (validate SHIPPED_CATALOGUE sample_doc)"
  by code_simp

lemma sample_nodes: "sample_land \<in> set (gd_nodes sample_doc)" "nd_executor sample_land = ExecHub"
  by (simp_all add: sample_doc_def sample_land_def sample_node_def)

lemma shipped_finite: "finite_catalogue SHIPPED_CATALOGUE"
  by (simp add: finite_catalogue_def SHIPPED_CATALOGUE_def Catalogue_of_def dict_of_def
      LAND_def RECORD_FINDINGS_def GARDEN_DELIVER_def PASS_def)

definition sample_reification :: reification where
  "sample_reification = \<lparr>re_doc = sample_doc, re_graph_id = ''gr_1'', re_node_ids = (\<lambda>name. ''nd_'' @ name),
     re_choice_ids = (\<lambda>(i, p). replicate i (CHR ''i'') @ CHR ''.'' # replicate p (CHR ''p'')),
     re_created_at = 0\<rparr>"

lemma sample_fresh: "fresh_ids sample_reification"
proof -
  have "(i, p) = (i', p')"
    if "replicate i (CHR ''i'') @ CHR ''.'' # replicate p (CHR ''p'')
        = replicate i' (CHR ''i'') @ CHR ''.'' # replicate p' (CHR ''p'')" for i p i' p'
  proof -
    have "takeWhile (\<lambda>c. c = CHR ''i'') (replicate k (CHR ''i'') @ CHR ''.'' # xs) = replicate k (CHR ''i'')" for k xs
      by (induction k) auto
    with arg_cong [OF that, of "takeWhile (\<lambda>c. c = CHR ''i'')"] have "i = i'"
      by (metis length_replicate)
    with that show ?thesis by (metis append_same_eq length_replicate list.inject same_append_eq)
  qed
  then show ?thesis
    by (auto simp: fresh_ids_def sample_reification_def inj_on_def)
qed

lemma sample_named_apart: "named_apart sample_doc"
  by code_simp

theorem valid_choices_resolve_witness:
  "\<exists>n c to. n \<in> set (gd_nodes sample_doc) \<and> c \<in> set (choice_docs n) \<and> cd_to c = Some to
     \<and> choice_resolves sample_doc n to"
proof -
  have c: "hd (choice_docs sample_land) \<in> set (choice_docs sample_land)"
    by (simp add: choice_docs_def sample_land_def sample_node_def)
  show ?thesis using valid_choices_resolve [OF sample_ok sample_nodes(1) c] sample_nodes(1) c by blast
qed

theorem valid_hub_node_routes_every_answer_witness:
  "HUB_DEFAULT_FAILURE_CHOICE \<in> authored_names sample_land"
  using valid_hub_node_routes_every_answer [OF shipped_finite sample_ok sample_nodes] by blast

theorem minted_graph_routes_every_choice_witness:
  "\<exists>e. edge_for_choice (reified_graph sample_reification) ''nd_land'' ''landed'' = Some e
     \<and> edge_to_node_name e = ''done''"
proof -
  have c: "sample_choice ''landed'' ''done'' \<in> set (choice_docs sample_land)"
    by (simp add: choice_docs_def sample_land_def sample_node_def)
  show ?thesis
    using minted_graph_routes_every_choice [of SHIPPED_CATALOGUE sample_reification sample_land,
        OF _ sample_fresh _ _ c] sample_ok sample_named_apart sample_nodes(1)
    by (auto simp: sample_reification_def sample_choice_def sample_land_def sample_node_def)
qed

text \<open>Names that are not apart pass the validator. A choice mapping keyed by \<open>1\<close> and \<open>'1'\<close> reads as two
  choices of one name, and the second resolves to the first one's edge. A node named by the empty
  string is a node, and a choice whose target names it compiles to the terminal.\<close>

definition twin_doc :: graph_doc where
  "twin_doc = sample_doc\<lparr>gd_nodes := [sample_node ''work'' ExecRunner (Some ''do it'') None
       [sample_choice ''1'' ''land'', sample_choice ''1'' ''done''], sample_land]\<rparr>"

definition nameless_doc :: graph_doc where
  "nameless_doc = sample_doc\<lparr>gd_nodes := [sample_work, sample_node [] ExecRunner (Some ''do it'') None
       [sample_choice ''ok'' ''land'', sample_choice ''again'' []], sample_land]\<rparr>"

lemma twin_choice_takes_the_first_edge:
  "vr_ok (validate SHIPPED_CATALOGUE twin_doc)
   \<and> map_option edge_to_node_name (edge_for_choice (reified_graph (sample_reification\<lparr>re_doc := twin_doc\<rparr>)) ''nd_work'' ''1'')
       = Some ''land''"
  by code_simp

lemma nameless_target_ends_the_chunk:
  "vr_ok (validate SHIPPED_CATALOGUE nameless_doc)
   \<and> node_by_name (reified_graph (sample_reification\<lparr>re_doc := nameless_doc\<rparr>)) [] \<noteq> None
   \<and> map_option edge_to_node_name (edge_for_choice (reified_graph (sample_reification\<lparr>re_doc := nameless_doc\<rparr>)) ''nd_'' ''again'')
       = Some RESERVED_TERMINAL"
  by code_simp

end
