(* ===== verification/Chunk_Verbs.thy ===== *)
theory Chunk_Verbs
  imports Prelude
begin

text \<open>
  The derived statuses of a chunk (\<open>foundation/chunk_status.py\<close>) and the verbs that read one to
  decide whether they are legal (\<open>ChunkVerb\<close> and \<open>CHUNK_VERB_LEGALITY\<close> of
  \<open>hub/domain/chunk/model.py\<close>).
\<close>

datatype chunk_status =
  NotReady | Ready | Running | Delivering | WaitingOnHuman | NeedsHuman | Paused | Stopped | Done

definition TERMINAL_STATUSES :: "chunk_status set" where
  "TERMINAL_STATUSES = {Stopped, Done}"

datatype chunk_verb =
    VDeclareDependency | VIngestHeldWorkRef | VPromote | VDemote | VPause | VResume | VStop | VComplete
  | VRestart | VDelete | VGroup | VEditGraphPin | VEditDefaults | VEditIntendedMigration | VReorderReady
  | VReorderBacklog | VClaim | VRekeyRouteToken | VReadEnvelope | VRequeue | VResolveDecision
  | VAnswerQuestion | VHubAdvance | VRelease

definition EVERY_STATUS :: "chunk_status set" where
  "EVERY_STATUS = {NotReady, Ready, Running, Delivering, WaitingOnHuman, NeedsHuman, Paused, Stopped, Done}"

definition NON_TERMINAL :: "chunk_status set" where
  "NON_TERMINAL = EVERY_STATUS - TERMINAL_STATUSES"

definition PRE_CLAIM_STATUSES :: "chunk_status set" where
  "PRE_CLAIM_STATUSES = {NotReady, Ready}"

fun CHUNK_VERB_LEGALITY :: "chunk_verb \<Rightarrow> chunk_status set" where
  "CHUNK_VERB_LEGALITY VDeclareDependency = PRE_CLAIM_STATUSES"
| "CHUNK_VERB_LEGALITY VIngestHeldWorkRef = TERMINAL_STATUSES"
| "CHUNK_VERB_LEGALITY VPromote = NON_TERMINAL"
| "CHUNK_VERB_LEGALITY VDemote = {Ready}"
| "CHUNK_VERB_LEGALITY VPause = NON_TERMINAL - {Delivering}"
| "CHUNK_VERB_LEGALITY VResume = EVERY_STATUS"
| "CHUNK_VERB_LEGALITY VStop = NON_TERMINAL"
| "CHUNK_VERB_LEGALITY VComplete = EVERY_STATUS"
| "CHUNK_VERB_LEGALITY VRestart = NON_TERMINAL"
| "CHUNK_VERB_LEGALITY VDelete = PRE_CLAIM_STATUSES"
| "CHUNK_VERB_LEGALITY VGroup = PRE_CLAIM_STATUSES"
| "CHUNK_VERB_LEGALITY VEditGraphPin = PRE_CLAIM_STATUSES"
| "CHUNK_VERB_LEGALITY VEditDefaults = PRE_CLAIM_STATUSES"
| "CHUNK_VERB_LEGALITY VEditIntendedMigration = NON_TERMINAL"
| "CHUNK_VERB_LEGALITY VReorderReady = {Ready}"
| "CHUNK_VERB_LEGALITY VReorderBacklog = {NotReady}"
| "CHUNK_VERB_LEGALITY VClaim = {Ready}"
| "CHUNK_VERB_LEGALITY VRekeyRouteToken = NON_TERMINAL"
| "CHUNK_VERB_LEGALITY VReadEnvelope = NON_TERMINAL"
| "CHUNK_VERB_LEGALITY VRequeue = {NeedsHuman}"
| "CHUNK_VERB_LEGALITY VResolveDecision = NON_TERMINAL"
| "CHUNK_VERB_LEGALITY VAnswerQuestion = NON_TERMINAL"
| "CHUNK_VERB_LEGALITY VHubAdvance = NON_TERMINAL - {NotReady}"
| "CHUNK_VERB_LEGALITY VRelease = {Running}"

definition verb_legal_from :: "chunk_verb \<Rightarrow> chunk_status \<Rightarrow> bool" where
  "verb_legal_from verb status \<longleftrightarrow> status \<in> CHUNK_VERB_LEGALITY verb"

definition holds_claim :: "chunk_status \<Rightarrow> bool" where
  "holds_claim status \<longleftrightarrow> status \<notin> TERMINAL_STATUSES"

definition holds_work_refs :: "chunk_status \<Rightarrow> bool" where
  "holds_work_refs status \<longleftrightarrow> \<not> verb_legal_from VIngestHeldWorkRef status"

lemmas status_sets =
  TERMINAL_STATUSES_def NON_TERMINAL_def EVERY_STATUS_def PRE_CLAIM_STATUSES_def

lemma EVERY_STATUS_UNIV: "EVERY_STATUS = UNIV"
  by (auto simp: EVERY_STATUS_def) (metis chunk_status.exhaust)

lemma in_NON_TERMINAL [simp]: "s \<in> NON_TERMINAL \<longleftrightarrow> s \<notin> TERMINAL_STATUSES"
  by (simp add: NON_TERMINAL_def EVERY_STATUS_UNIV)

lemma holds_claim_simps [simp]:
  "holds_claim Stopped = False" "holds_claim Done = False" "holds_claim NotReady" "holds_claim Ready"
  "holds_claim Running" "holds_claim Delivering" "holds_claim WaitingOnHuman" "holds_claim NeedsHuman"
  "holds_claim Paused"
  by (simp_all add: holds_claim_def TERMINAL_STATUSES_def)

lemma holds_work_refs_claim: "holds_work_refs s = holds_claim s"
  by (simp add: holds_work_refs_def verb_legal_from_def holds_claim_def)

text \<open>A verb that edits what a claim pins is legal exactly before the claim; everything but
  completion, resumption and re-ingest is refused on an ended chunk.\<close>

lemma ended_refuses:
  "s \<in> TERMINAL_STATUSES \<Longrightarrow> verb_legal_from v s \<longleftrightarrow> v \<in> {VIngestHeldWorkRef, VResume, VComplete}"
  by (cases v) (auto simp: verb_legal_from_def status_sets)

end
