(* ===== verification/Chunk_Facts.thy ===== *)
theory Chunk_Facts
  imports Graphs Chunk_Verbs
begin

text \<open>
  The facts of one chunk and everything derived from them (\<open>hub/domain/chunk/model.py\<close>): a chunk's
  status is never stored, it is \<open>ChunkFacts.status\<close> of the recorded facts. Each fact family is a
  record, \<open>ChunkFacts\<close> is the record of the families, and each derivation is a definition of the
  same name.
\<close>

section \<open>The fact families\<close>

record route_created_fact =
  rc_created_at :: instant
  rc_seq :: int

record route_released_fact =
  rr_released_at :: instant
  rr_seq :: int

record route_token_fact =
  rt_token_hash :: string
  rt_minted_at :: instant
  rt_seq :: int

record lease_fact =
  lease_epoch :: int
  lease_minted_at :: instant

record epoch_owner_fact =
  eo_epoch :: int
  eo_runner_id :: "ident option"

record transition_fact =
  tr_to_node_id :: ident
  tr_to_node_executor :: executor
  tr_epoch :: int
  tr_recorded_at :: instant
  tr_from_node_id :: "ident option"
  tr_choice_name :: "ident option"
  tr_graph_id :: "ident option"
  tr_transition_id :: "ident option"

record escalation_fact =
  esc_epoch :: int
  esc_recorded_at :: instant
  esc_takeover_command :: string
  esc_wrapped_takeover_command :: string
  esc_cause :: "string option"
  esc_detail :: "string option"
  esc_id :: "int option"

record question_fact =
  qf_question_id :: ident
  qf_asked_at :: instant
  qf_answered :: bool
  qf_epoch :: "int option"

record decision_fact =
  df_decision_id :: ident
  df_submitted_at :: instant
  df_resolved :: bool
  df_closed :: bool

record bounce_fact =
  bn_epoch :: int
  bn_cause :: string
  bn_envelope :: string
  bn_recorded_at :: instant

record hub_node_poll_fact =
  poll_node_id :: ident
  poll_epoch :: int
  poll_polled_at :: instant
  poll_next_poll_at :: "instant option"
  poll_kind :: string
  poll_last_polled_at :: "instant option"

datatype migration_source = SrcAuthoredEdge | SrcIntent | SrcFollowLatest | SrcRestart

record migration_fact =
  mg_from_node_id :: "ident option"
  mg_from_graph_id :: ident
  mg_to_graph_id :: ident
  mg_landed_node_id :: "ident option"
  mg_choice_name :: "ident option"
  mg_model :: "string option"
  mg_epoch :: int
  mg_recorded_at :: instant
  mg_landed_node_executor :: executor
  mg_source :: "migration_source option"
  mg_migration_id :: "ident option"

record restart_fact =
  rs_to_node_id :: ident
  rs_from_node_id :: "ident option"
  rs_graph_id :: ident
  rs_epoch :: int
  rs_recorded_at :: instant
  rs_from_graph_id :: "ident option"
  rs_to_node_executor :: executor
  rs_restarted_by :: string
  rs_note :: "string option"
  rs_decision_id :: "ident option"

record requeue_fact =
  rq_requeued_at :: instant
  rq_requeued_by :: "string option"
  rq_note :: "string option"

record pause_fact =
  pz_paused :: bool
  pz_set_at :: instant
  pz_set_by :: string

definition landing_node :: "graph \<Rightarrow> ident option \<Rightarrow> ident" where
  "landing_node target_graph from_node_name =
     (case from_node_name of None \<Rightarrow> graph_entry_node_id target_graph
      | Some name \<Rightarrow> (case node_by_name target_graph name of
          None \<Rightarrow> graph_entry_node_id target_graph | Some n \<Rightarrow> node_id n))"

record chunk_facts =
  cf_minted :: bool
  cf_promoted :: bool
  cf_stopped :: bool
  cf_stopped_at :: "instant option"
  cf_operator_completed :: bool
  cf_operator_completed_at :: "instant option"
  cf_delivery_landed :: bool
  cf_landed_repos :: "string set"
  cf_escalations :: "escalation_fact list"
  cf_leases :: "lease_fact list"
  cf_epoch_owners :: "epoch_owner_fact list"
  cf_transitions :: "transition_fact list"
  cf_routes_created :: "route_created_fact list"
  cf_routes_released :: "route_released_fact list"
  cf_route_tokens_minted :: "route_token_fact list"
  cf_questions :: "question_fact list"
  cf_decisions :: "decision_fact list"
  cf_requeues :: "requeue_fact list"
  cf_migrations :: "migration_fact list"
  cf_restarts :: "restart_fact list"
  cf_pauses :: "pause_fact list"
  cf_bounces :: "bounce_fact list"
  cf_hub_node_polls :: "hub_node_poll_fact list"

definition blank_facts :: "bool \<Rightarrow> chunk_facts" where
  "blank_facts minted = \<lparr>cf_minted = minted, cf_promoted = False, cf_stopped = False, cf_stopped_at = None,
     cf_operator_completed = False, cf_operator_completed_at = None, cf_delivery_landed = False,
     cf_landed_repos = {}, cf_escalations = [], cf_leases = [], cf_epoch_owners = [], cf_transitions = [],
     cf_routes_created = [], cf_routes_released = [], cf_route_tokens_minted = [], cf_questions = [],
     cf_decisions = [], cf_requeues = [], cf_migrations = [], cf_restarts = [], cf_pauses = [],
     cf_bounces = [], cf_hub_node_polls = []\<rparr>"

definition or_default :: "chunk_facts option \<Rightarrow> chunk_facts" where
  "or_default facts = (case facts of None \<Rightarrow> blank_facts True | Some f \<Rightarrow> f)"

section \<open>Movements\<close>

definition tr_key :: "transition_fact \<Rightarrow> instant \<times> int" where
  "tr_key t = (tr_recorded_at t, tr_epoch t)"

definition mg_key :: "migration_fact \<Rightarrow> instant \<times> int" where
  "mg_key m = (mg_recorded_at m, mg_epoch m)"

definition rs_key :: "restart_fact \<Rightarrow> instant \<times> int" where
  "rs_key r = (rs_recorded_at r, rs_epoch r)"

definition newest_transition :: "chunk_facts \<Rightarrow> transition_fact option" where
  "newest_transition f = max_by tr_key (cf_transitions f)"

definition transition_history :: "chunk_facts \<Rightarrow> transition_fact list" where
  "transition_history f = sort_key tr_key (cf_transitions f)"

definition newest_migration :: "chunk_facts \<Rightarrow> migration_fact option" where
  "newest_migration f = max_by mg_key (cf_migrations f)"

definition newest_restart :: "chunk_facts \<Rightarrow> restart_fact option" where
  "newest_restart f = max_by rs_key (cf_restarts f)"

definition restart_history :: "chunk_facts \<Rightarrow> restart_fact list" where
  "restart_history f = sort_key rs_key (cf_restarts f)"

definition transition_graph_off_pin :: "chunk_facts \<Rightarrow> ident \<Rightarrow> ident option" where
  "transition_graph_off_pin f pin_graph_id =
     (case newest_transition f of None \<Rightarrow> None
      | Some t \<Rightarrow> if tr_graph_id t = None \<or> tr_graph_id t = Some pin_graph_id then None else tr_graph_id t)"

text \<open>\<open>latest_epoch\<close>: \<open>None\<close> before any epoch was minted or reserved.\<close>

definition fact_epochs :: "chunk_facts \<Rightarrow> int list" where
  "fact_epochs f = map lease_epoch (cf_leases f) @ map rs_epoch (cf_restarts f) @ map eo_epoch (cf_epoch_owners f)"

definition facts_latest_epoch :: "chunk_facts \<Rightarrow> int option" where
  "facts_latest_epoch f = (if fact_epochs f = [] then None else Some (Max (set (fact_epochs f))))"

definition epoch_floor :: "chunk_facts \<Rightarrow> int" where
  "epoch_floor f = (case facts_latest_epoch f of None \<Rightarrow> 0 | Some e \<Rightarrow> e)"

datatype movement_kind = MTransition | MMigration | MRestart

fun movement_rank :: "movement_kind \<Rightarrow> int" where
  "movement_rank MTransition = 0"
| "movement_rank MMigration = 1"
| "movement_rank MRestart = 2"

definition order_key :: "movement_kind \<Rightarrow> instant \<times> int \<Rightarrow> instant \<times> int \<times> int" where
  "order_key kind key = (fst key, snd key, movement_rank kind)"

record movement =
  mv_kind :: movement_kind
  mv_node_id :: "ident option"
  mv_executor :: executor
  mv_graph_id :: "ident option"

text \<open>\<open>latest_movement\<close>: the newest of each family, ranked by \<open>order_key\<close>. The keys of the ranked
  dictionary are distinct because each carries its family's rank.\<close>

definition seen :: "instant option \<Rightarrow> instant \<Rightarrow> bool" where
  "seen as_of at \<longleftrightarrow> (case as_of of None \<Rightarrow> True | Some limit \<Rightarrow> at \<le> limit)"

definition movement_of_transition :: "transition_fact \<Rightarrow> movement" where
  "movement_of_transition t = \<lparr>mv_kind = MTransition, mv_node_id = Some (tr_to_node_id t),
     mv_executor = tr_to_node_executor t, mv_graph_id = tr_graph_id t\<rparr>"

definition movement_of_migration :: "migration_fact \<Rightarrow> movement" where
  "movement_of_migration m = \<lparr>mv_kind = MMigration, mv_node_id = mg_landed_node_id m,
     mv_executor = mg_landed_node_executor m, mv_graph_id = Some (mg_to_graph_id m)\<rparr>"

definition movement_of_restart :: "restart_fact \<Rightarrow> movement" where
  "movement_of_restart r = \<lparr>mv_kind = MRestart, mv_node_id = Some (rs_to_node_id r),
     mv_executor = rs_to_node_executor r, mv_graph_id = Some (rs_graph_id r)\<rparr>"

definition newest_ranked ::
  "movement_kind \<Rightarrow> ('f \<Rightarrow> instant \<times> int) \<Rightarrow> ('f \<Rightarrow> movement) \<Rightarrow> instant option \<Rightarrow> 'f list
     \<Rightarrow> ((instant \<times> int \<times> int) \<times> movement) list" where
  "newest_ranked kind key movement_of as_of rows =
     (case max_by key (filter (\<lambda>x. seen as_of (fst (key x))) rows) of None \<Rightarrow> []
      | Some x \<Rightarrow> [(order_key kind (key x), movement_of x)])"

definition ranked_movements :: "chunk_facts \<Rightarrow> instant option \<Rightarrow> ((instant \<times> int \<times> int) \<times> movement) list" where
  "ranked_movements f as_of =
     newest_ranked MTransition tr_key movement_of_transition as_of (cf_transitions f)
     @ newest_ranked MMigration mg_key movement_of_migration as_of (cf_migrations f)
     @ newest_ranked MRestart rs_key movement_of_restart as_of (cf_restarts f)"

definition latest_movement_as_of :: "chunk_facts \<Rightarrow> instant option \<Rightarrow> movement option" where
  "latest_movement_as_of f as_of = map_option snd (max_by fst (ranked_movements f as_of))"

abbreviation latest_movement :: "chunk_facts \<Rightarrow> movement option" where
  "latest_movement f \<equiv> latest_movement_as_of f None"

definition current_node_id :: "chunk_facts \<Rightarrow> ident option" where
  "current_node_id f = (case latest_movement f of None \<Rightarrow> None | Some m \<Rightarrow> mv_node_id m)"

text \<open>\<open>current_node_id() or graph.entry_node_id\<close>: an id is never the empty string in a stored row, and
  an empty one falls back to the entry node as \<open>None\<close> does.\<close>

definition current_node :: "chunk_facts \<Rightarrow> graph \<Rightarrow> node option" where
  "current_node f g = node_by_id g
     (case current_node_id f of None \<Rightarrow> graph_entry_node_id g
      | Some nid \<Rightarrow> if nid = [] then graph_entry_node_id g else nid)"

definition awaits_exit_from :: "chunk_facts \<Rightarrow> node \<Rightarrow> int \<Rightarrow> bool" where
  "awaits_exit_from f n epoch \<longleftrightarrow>
     \<not> ((\<exists>t\<in>set (cf_transitions f). tr_from_node_id t = Some (node_id n) \<and> tr_epoch t = epoch)
        \<or> (\<exists>m\<in>set (cf_migrations f). mg_from_node_id m = Some (node_id n) \<and> mg_epoch m = epoch))
     \<and> epoch_floor f \<le> epoch"

definition visit_is_current :: "chunk_facts \<Rightarrow> ident \<Rightarrow> int \<Rightarrow> bool" where
  "visit_is_current f nid epoch \<longleftrightarrow>
     (case latest_movement f of None \<Rightarrow> False | Some m \<Rightarrow> mv_node_id m = Some nid \<and> epoch_floor f = epoch)"

definition accepted_transition_target :: "chunk_facts \<Rightarrow> ident \<Rightarrow> int \<Rightarrow> ident option" where
  "accepted_transition_target f from_node_id epoch = map_option tr_to_node_id
     (List.find (\<lambda>t. tr_from_node_id t = Some from_node_id \<and> tr_epoch t = epoch) (cf_transitions f))"

definition escalated_at :: "chunk_facts \<Rightarrow> int \<Rightarrow> bool" where
  "escalated_at f epoch \<longleftrightarrow> (\<exists>e\<in>set (cf_escalations f). esc_epoch e = epoch)"

definition restarted_past :: "chunk_facts \<Rightarrow> int \<Rightarrow> bool" where
  "restarted_past f epoch \<longleftrightarrow> (\<exists>r\<in>set (cf_restarts f). rs_epoch r > epoch)"

definition entered_by_restart :: "chunk_facts \<Rightarrow> bool" where
  "entered_by_restart f \<longleftrightarrow> (case latest_movement f of None \<Rightarrow> False | Some m \<Rightarrow> mv_kind m = MRestart)"

definition newest_transition_is_terminal :: "chunk_facts \<Rightarrow> bool" where
  "newest_transition_is_terminal f \<longleftrightarrow>
     (case latest_movement f of None \<Rightarrow> False
      | Some m \<Rightarrow> mv_kind m = MTransition \<and> mv_node_id m = Some RESERVED_TERMINAL)"

definition latest_movement_enters_hub_node :: "chunk_facts \<Rightarrow> bool" where
  "latest_movement_enters_hub_node f \<longleftrightarrow>
     (case latest_movement f of None \<Rightarrow> False | Some m \<Rightarrow> mv_executor m = ExecHub)"

section \<open>Routes (\<open>RouteHistory\<close>)\<close>

definition rc_key :: "route_created_fact \<Rightarrow> instant \<times> int" where
  "rc_key r = (rc_created_at r, rc_seq r)"

definition rr_key :: "route_released_fact \<Rightarrow> instant \<times> int" where
  "rr_key r = (rr_released_at r, rr_seq r)"

definition rt_key :: "route_token_fact \<Rightarrow> instant \<times> int" where
  "rt_key t = (rt_minted_at t, rt_seq t)"

record route_history =
  rh_created :: "route_created_fact list"
  rh_released :: "route_released_fact list"
  rh_tokens_minted :: "route_token_fact list"

definition routes :: "chunk_facts \<Rightarrow> route_history" where
  "routes f = \<lparr>rh_created = cf_routes_created f, rh_released = cf_routes_released f,
     rh_tokens_minted = cf_route_tokens_minted f\<rparr>"

definition newest_route :: "route_history \<Rightarrow> route_created_fact option" where
  "newest_route h =
     (case max_by rc_key (rh_created h) of None \<Rightarrow> None
      | Some newest \<Rightarrow> if \<exists>rel\<in>set (rh_released h). rr_key rel > rc_key newest then None else Some newest)"

definition newest_token :: "route_history \<Rightarrow> route_token_fact option" where
  "newest_token h =
     (case newest_route h of None \<Rightarrow> None
      | Some live \<Rightarrow> max_by rt_key (filter (\<lambda>t. rt_seq t \<ge> rc_seq live) (rh_tokens_minted h)))"

definition has_live_route :: "chunk_facts \<Rightarrow> bool" where
  "has_live_route f \<longleftrightarrow> newest_route (routes f) \<noteq> None"

section \<open>The status ladder\<close>

text \<open>Both instants are set whenever their flags are; the code asserts it.\<close>

definition operator_completion_outranks_stop :: "chunk_facts \<Rightarrow> bool" where
  "operator_completion_outranks_stop f \<longleftrightarrow>
     (if \<not> cf_operator_completed f then False
      else if \<not> cf_stopped f then True
      else the (cf_operator_completed_at f) \<ge> the (cf_stopped_at f))"

definition completed_at :: "chunk_facts \<Rightarrow> instant option" where
  "completed_at f =
     (if cf_stopped f \<and> \<not> operator_completion_outranks_stop f then cf_stopped_at f
      else if cf_operator_completed f then cf_operator_completed_at f
      else if newest_transition_is_terminal f then map_option tr_recorded_at (newest_transition f)
      else None)"

definition superseding_instants :: "chunk_facts \<Rightarrow> instant option list" where
  "superseding_instants f =
     map (Some \<circ> lease_minted_at) (cf_leases f) @ map (Some \<circ> rq_requeued_at) (cf_requeues f)
     @ map (Some \<circ> rs_recorded_at) (cf_restarts f) @ [completed_at f]"

definition open_escalation :: "chunk_facts \<Rightarrow> escalation_fact option" where
  "open_escalation f =
     (case max_by esc_recorded_at (cf_escalations f) of None \<Rightarrow> None
      | Some newest \<Rightarrow>
          if \<exists>at\<in>set (superseding_instants f). (case at of None \<Rightarrow> False | Some i \<Rightarrow> i > esc_recorded_at newest)
          then None else Some newest)"

definition open_escalation_at :: "chunk_facts \<Rightarrow> int \<Rightarrow> escalation_fact option" where
  "open_escalation_at f epoch =
     (case open_escalation f of None \<Rightarrow> None | Some e \<Rightarrow> if esc_epoch e = epoch then Some e else None)"

definition open_questions :: "chunk_facts \<Rightarrow> question_fact list" where
  "open_questions f =
     sort_key (\<lambda>q. (qf_asked_at q, qf_question_id q)) (filter (\<lambda>q. \<not> qf_answered q) (cf_questions f))"

definition open_questions_at :: "chunk_facts \<Rightarrow> int \<Rightarrow> question_fact list" where
  "open_questions_at f epoch = filter (\<lambda>q. qf_epoch q = Some epoch) (open_questions f)"

definition open_decision :: "chunk_facts \<Rightarrow> decision_fact option" where
  "open_decision f = max_by df_submitted_at (filter (\<lambda>d. \<not> df_resolved d) (cf_decisions f))"

definition unclosed_decision :: "chunk_facts \<Rightarrow> decision_fact option" where
  "unclosed_decision f = max_by df_submitted_at (filter (\<lambda>d. \<not> df_closed d) (cf_decisions f))"

definition has_open_decision :: "chunk_facts \<Rightarrow> bool" where
  "has_open_decision f \<longleftrightarrow> open_decision f \<noteq> None"

definition open_pause :: "chunk_facts \<Rightarrow> pause_fact option" where
  "open_pause f =
     (if cf_pauses f \<noteq> [] \<and> pz_paused (last (cf_pauses f)) then Some (last (cf_pauses f)) else None)"

definition has_open_escalation :: "chunk_facts \<Rightarrow> bool" where
  "has_open_escalation f \<longleftrightarrow> open_escalation f \<noteq> None"

definition is_waiting_on_human :: "chunk_facts \<Rightarrow> bool" where
  "is_waiting_on_human f \<longleftrightarrow> open_questions f \<noteq> [] \<or> has_open_decision f"

definition is_paused :: "chunk_facts \<Rightarrow> bool" where
  "is_paused f \<longleftrightarrow> open_pause f \<noteq> None"

definition status_with :: "chunk_facts \<Rightarrow> bool \<Rightarrow> chunk_status" where
  "status_with f paused =
     (if cf_stopped f \<and> \<not> operator_completion_outranks_stop f then Stopped
      else if cf_operator_completed f \<or> newest_transition_is_terminal f then Done
      else if has_open_escalation f then NeedsHuman
      else if is_waiting_on_human f then WaitingOnHuman
      else if paused then Paused
      else if \<not> cf_promoted f \<and> \<not> has_live_route f then NotReady
      else if latest_movement_enters_hub_node f then Delivering
      else if has_live_route f then Running
      else Ready)"

definition status :: "chunk_facts \<Rightarrow> chunk_status" where
  "status f = status_with f (is_paused f)"

definition admits :: "chunk_facts \<Rightarrow> chunk_verb \<Rightarrow> bool" where
  "admits f verb \<longleftrightarrow> verb_legal_from verb (status f)"

definition status_if_paused :: "chunk_facts \<Rightarrow> chunk_status" where
  "status_if_paused f = (if \<not> admits f VPause then status f else status_with f True)"

definition is_ready_but_for_pause :: "chunk_facts \<Rightarrow> bool" where
  "is_ready_but_for_pause f \<longleftrightarrow> status (f\<lparr>cf_pauses := []\<rparr>) = Ready"

definition started_at :: "chunk_facts \<Rightarrow> instant option" where
  "started_at f = (if cf_leases f = [] then None else Some (Min (lease_minted_at ` set (cf_leases f))))"

definition finished_before :: "chunk_facts \<Rightarrow> instant \<Rightarrow> bool" where
  "finished_before f limit \<longleftrightarrow>
     (if status f \<noteq> Done then False
      else case completed_at f of None \<Rightarrow> False | Some i \<Rightarrow> i < limit)"

definition hub_advance_node :: "chunk_facts \<Rightarrow> graph \<Rightarrow> node option" where
  "hub_advance_node f g =
     (case (case current_node_id f of None \<Rightarrow> None | Some nid \<Rightarrow> node_by_id g nid) of
        None \<Rightarrow> None
      | Some n \<Rightarrow> if \<not> is_hub_command_node n then None
                  else if verb_legal_from VHubAdvance (status f) then Some n else None)"

definition delivering_at :: "chunk_facts \<Rightarrow> ident \<Rightarrow> int \<Rightarrow> bool" where
  "delivering_at f nid epoch \<longleftrightarrow> status f = Delivering \<and> visit_is_current f nid epoch"

section \<open>Deliveries\<close>

definition bounce_count :: "chunk_facts \<Rightarrow> int" where
  "bounce_count f = int (length (cf_bounces f))"

definition bounces_over_cap :: "chunk_facts \<Rightarrow> int \<Rightarrow> bool" where
  "bounces_over_cap f cap \<longleftrightarrow> bounce_count f > cap"

definition hub_node_poll_history :: "chunk_facts \<Rightarrow> ident \<Rightarrow> int \<Rightarrow> hub_node_poll_fact list" where
  "hub_node_poll_history f nid epoch =
     sort_key poll_polled_at (filter (\<lambda>p. poll_node_id p = nid \<and> poll_epoch p = epoch) (cf_hub_node_polls f))"

definition pending_run_start :: "hub_node_poll_fact list \<Rightarrow> instant option" where
  "pending_run_start polls = fold (\<lambda>p start.
     if poll_kind p \<noteq> ''pending'' then None
     else case start of None \<Rightarrow> Some (poll_polled_at p) | Some s \<Rightarrow> Some s) polls None"

definition hub_node_pending_since :: "chunk_facts \<Rightarrow> ident \<Rightarrow> int \<Rightarrow> instant option" where
  "hub_node_pending_since f nid epoch = pending_run_start (hub_node_poll_history f nid epoch)"

definition hub_node_pending :: "chunk_facts \<Rightarrow> hub_node_poll_fact option" where
  "hub_node_pending f =
     (case newest_transition f of None \<Rightarrow> None
      | Some t \<Rightarrow>
          if tr_to_node_executor t \<noteq> ExecHub then None
          else let history = hub_node_poll_history f (tr_to_node_id t) (tr_epoch t)
               in if history = [] then None else Some (last history))"

section \<open>Lemmas about the derivations\<close>

text \<open>A stop and an operator completion each record their instant with the flag.\<close>

definition instants_recorded :: "chunk_facts \<Rightarrow> bool" where
  "instants_recorded f \<longleftrightarrow> (cf_stopped f \<longleftrightarrow> cf_stopped_at f \<noteq> None)
     \<and> (cf_operator_completed f \<longleftrightarrow> cf_operator_completed_at f \<noteq> None)"

lemma latest_movement_Some:
  "latest_movement_as_of f as_of = Some m \<longleftrightarrow> (\<exists>k. max_by fst (ranked_movements f as_of) = Some (k, m))"
  by (auto simp: latest_movement_as_of_def)

text \<open>The movement facts recorded by \<open>as_of\<close>, each with its order key: ranking the newest of each
  family is ranking them all.\<close>

definition family_keys ::
  "movement_kind \<Rightarrow> ('f \<Rightarrow> instant \<times> int) \<Rightarrow> instant option \<Rightarrow> 'f list \<Rightarrow> (instant \<times> int \<times> int) set" where
  "family_keys kind key as_of rows = (\<lambda>x. order_key kind (key x)) ` {x \<in> set rows. seen as_of (fst (key x))}"

definition movement_keys :: "chunk_facts \<Rightarrow> instant option \<Rightarrow> (instant \<times> int \<times> int) set" where
  "movement_keys f as_of =
     family_keys MTransition tr_key as_of (cf_transitions f)
     \<union> family_keys MMigration mg_key as_of (cf_migrations f)
     \<union> family_keys MRestart rs_key as_of (cf_restarts f)"

lemma order_key_mono: "a \<le> b \<Longrightarrow> order_key k a \<le> order_key k b"
  by (auto simp: order_key_def less_eq_prod_def)

lemma newest_ranked_iff:
  "(k, m) \<in> set (newest_ranked kind key mv as_of rows) \<longleftrightarrow>
     (\<exists>x. max_by key (filter (\<lambda>x. seen as_of (fst (key x))) rows) = Some x
        \<and> k = order_key kind (key x) \<and> m = mv x)"
  by (cases "max_by key (filter (\<lambda>x. seen as_of (fst (key x))) rows)") (auto simp: newest_ranked_def)

lemma newest_ranked_covers:
  assumes "y \<in> family_keys kind key as_of rows"
  shows "\<exists>k m. (k, m) \<in> set (newest_ranked kind key mv as_of rows) \<and> y \<le> k"
proof -
  let ?xs = "filter (\<lambda>x. seen as_of (fst (key x))) rows"
  from assms obtain x where x: "x \<in> set ?xs" "y = order_key kind (key x)" by (auto simp: family_keys_def)
  then obtain w where w: "max_by key ?xs = Some w" by (metis max_by_Some_ex empty_iff empty_set)
  with max_by_greatest [OF w x(1)] x(2) show ?thesis
    unfolding newest_ranked_iff by (blast intro: order_key_mono)
qed

lemma newest_ranked_key: "(k, m) \<in> set (newest_ranked kind key mv as_of rows) \<Longrightarrow> k \<in> family_keys kind key as_of rows"
  unfolding newest_ranked_iff family_keys_def by (auto dest!: max_by_in_set)

lemma ranked_covers:
  assumes "y \<in> movement_keys f as_of"
  shows "\<exists>k m. (k, m) \<in> set (ranked_movements f as_of) \<and> y \<le> k"
  using assms newest_ranked_covers unfolding movement_keys_def ranked_movements_def set_append
  by (metis UnE UnI1 UnI2)

lemma ranked_key: "(k, m) \<in> set (ranked_movements f as_of) \<Longrightarrow> k \<in> movement_keys f as_of"
  unfolding movement_keys_def ranked_movements_def set_append Un_iff using newest_ranked_key by metis

lemma latest_movement_None: "latest_movement_as_of f as_of = None \<longleftrightarrow> movement_keys f as_of = {}"
proof -
  have "latest_movement_as_of f as_of = None \<longleftrightarrow> ranked_movements f as_of = []"
    by (simp add: latest_movement_as_of_def)
  also have "\<dots> \<longleftrightarrow> movement_keys f as_of = {}"
  proof
    assume "ranked_movements f as_of = []"
    then show "movement_keys f as_of = {}" using ranked_covers [of _ f as_of] by fastforce
  next
    assume "movement_keys f as_of = {}"
    then have "\<And>k m. (k, m) \<notin> set (ranked_movements f as_of)" using ranked_key by blast
    then show "ranked_movements f as_of = []" by (cases "ranked_movements f as_of") force+
  qed
  finally show ?thesis .
qed

lemma latest_movement_greatest:
  assumes "max_by fst (ranked_movements f as_of) = Some (k, m)" and "x \<in> movement_keys f as_of"
  shows "x \<le> k"
proof -
  from ranked_covers [OF assms(2)] obtain k' m' where
    "(k', m') \<in> set (ranked_movements f as_of)" and "x \<le> k'" by blast
  with max_by_greatest [OF assms(1)] show ?thesis by (metis fst_conv order_trans)
qed

text \<open>A transition that is the latest movement is \<open>newest_transition\<close>.\<close>

lemma latest_transition:
  assumes "latest_movement f = Some m" and "mv_kind m = MTransition"
  obtains t where "newest_transition f = Some t" and "mv_node_id m = Some (tr_to_node_id t)"
    and "mv_executor m = tr_to_node_executor t"
proof -
  from assms(1) obtain k where "max_by fst (ranked_movements f None) = Some (k, m)"
    unfolding latest_movement_Some by blast
  then have "(k, m) \<in> set (ranked_movements f None)" by (rule max_by_in_set)
  with assms(2) have "\<exists>t. newest_transition f = Some t \<and> mv_node_id m = Some (tr_to_node_id t)
      \<and> mv_executor m = tr_to_node_executor t"
    unfolding ranked_movements_def set_append Un_iff newest_ranked_iff
    by (auto simp: newest_transition_def seen_def movement_of_transition_def movement_of_migration_def
        movement_of_restart_def)
  with that show ?thesis by blast
qed

lemma terminal_transition:
  assumes "newest_transition_is_terminal f"
  shows "\<exists>t. newest_transition f = Some t \<and> tr_to_node_id t = RESERVED_TERMINAL"
proof -
  from assms obtain m where m: "latest_movement f = Some m" "mv_kind m = MTransition"
      "mv_node_id m = Some RESERVED_TERMINAL"
    by (auto simp: newest_transition_is_terminal_def split: option.splits)
  obtain t where "newest_transition f = Some t" "mv_node_id m = Some (tr_to_node_id t)"
    using latest_transition [OF m(1,2)] by metis
  with m(3) show ?thesis by simp
qed

section \<open>Properties of the derivations\<close>

theorem ended_iff_completed_at:
  assumes "instants_recorded f"
  shows "(status f \<in> TERMINAL_STATUSES \<longleftrightarrow> completed_at f \<noteq> None)
     \<and> (status f = Stopped \<longrightarrow> completed_at f = cf_stopped_at f)"
proof -
  have "newest_transition_is_terminal f \<Longrightarrow> newest_transition f \<noteq> None"
    by (drule terminal_transition) auto
  then show ?thesis
    using assms
    by (auto simp: status_def status_with_def completed_at_def instants_recorded_def TERMINAL_STATUSES_def
        split: if_splits)
qed

text \<open>No derivation but \<open>is_paused\<close> reads the pause facts.\<close>

lemma pause_frame [facts_simps]:
  "operator_completion_outranks_stop (f\<lparr>cf_pauses := ps\<rparr>) = operator_completion_outranks_stop f"
  "latest_movement_as_of (f\<lparr>cf_pauses := ps\<rparr>) as_of = latest_movement_as_of f as_of"
  "newest_transition (f\<lparr>cf_pauses := ps\<rparr>) = newest_transition f"
  "routes (f\<lparr>cf_pauses := ps\<rparr>) = routes f"
  "open_questions (f\<lparr>cf_pauses := ps\<rparr>) = open_questions f"
  "open_decision (f\<lparr>cf_pauses := ps\<rparr>) = open_decision f"
  by (simp_all add: operator_completion_outranks_stop_def latest_movement_as_of_def ranked_movements_def
      newest_transition_def routes_def open_questions_def open_decision_def)

lemma pause_frame_terminal [facts_simps]:
  "newest_transition_is_terminal (f\<lparr>cf_pauses := ps\<rparr>) = newest_transition_is_terminal f"
  "latest_movement_enters_hub_node (f\<lparr>cf_pauses := ps\<rparr>) = latest_movement_enters_hub_node f"
  by (simp_all add: newest_transition_is_terminal_def latest_movement_enters_hub_node_def facts_simps)

lemma pause_frame_escalation [facts_simps]:
  "completed_at (f\<lparr>cf_pauses := ps\<rparr>) = completed_at f"
  by (simp add: completed_at_def facts_simps)

lemma pause_frame_superseding [facts_simps]:
  "superseding_instants (f\<lparr>cf_pauses := ps\<rparr>) = superseding_instants f"
  by (simp add: superseding_instants_def facts_simps)

lemma pause_frame_open [facts_simps]: "open_escalation (f\<lparr>cf_pauses := ps\<rparr>) = open_escalation f"
  by (simp add: open_escalation_def facts_simps split: option.split)

lemma status_with_pauses: "status_with (f\<lparr>cf_pauses := ps\<rparr>) b = status_with f b"
  by (simp add: status_with_def has_open_escalation_def is_waiting_on_human_def has_open_decision_def
      has_live_route_def facts_simps)

theorem pause_settles_as_predicted:
  assumes "pz_paused p"
  shows "status_if_paused f =
     (if admits f VPause then status (f\<lparr>cf_pauses := cf_pauses f @ [p]\<rparr>) else status f)"
proof -
  have "is_paused (f\<lparr>cf_pauses := cf_pauses f @ [p]\<rparr>)" using assms by (simp add: is_paused_def open_pause_def)
  then show ?thesis by (simp add: status_if_paused_def status_def status_with_pauses)
qed

text \<open>The movement a chunk stands on is the newest over all three families, the later family
  outranking on an exact tie.\<close>

theorem latest_movement_is_newest:
  "(latest_movement_as_of f as_of = None \<longleftrightarrow> movement_keys f as_of = {})
   \<and> (\<forall>m. latest_movement_as_of f as_of = Some m \<longrightarrow>
        (\<exists>k. (k, m) \<in> set (ranked_movements f as_of) \<and> k = Max (movement_keys f as_of)
             \<and> snd (snd k) = movement_rank (mv_kind m)))"
proof (intro conjI allI impI latest_movement_None)
  fix m
  assume "latest_movement_as_of f as_of = Some m"
  then obtain k where k: "max_by fst (ranked_movements f as_of) = Some (k, m)"
    unfolding latest_movement_Some by blast
  then have mem: "(k, m) \<in> set (ranked_movements f as_of)" by (rule max_by_in_set)
  moreover have "k = Max (movement_keys f as_of)"
  proof (rule Max_eqI [symmetric])
    show "finite (movement_keys f as_of)" by (simp add: movement_keys_def family_keys_def)
    show "\<And>y. y \<in> movement_keys f as_of \<Longrightarrow> y \<le> k" by (rule latest_movement_greatest [OF k])
    show "k \<in> movement_keys f as_of" by (rule ranked_key [OF mem])
  qed
  moreover have "snd (snd k) = movement_rank (mv_kind m)"
    using mem unfolding ranked_movements_def set_append Un_iff newest_ranked_iff
    by (auto simp: order_key_def movement_of_transition_def movement_of_migration_def movement_of_restart_def)
  ultimately show "\<exists>k. (k, m) \<in> set (ranked_movements f as_of) \<and> k = Max (movement_keys f as_of)
             \<and> snd (snd k) = movement_rank (mv_kind m)" by blast
qed

text \<open>A restart recorded no earlier than any movement the chunk has made takes over where it stands.\<close>

theorem restart_takes_over:
  assumes newest: "\<And>k. k \<in> movement_keys f None \<Longrightarrow> (fst k, fst (snd k)) \<le> rs_key r"
    and fresh: "rs_key r \<notin> rs_key ` set (cf_restarts f)"
  defines "f' \<equiv> f\<lparr>cf_restarts := cf_restarts f @ [r]\<rparr>"
  shows "latest_movement f' = Some (movement_of_restart r) \<and> \<not> newest_transition_is_terminal f'
     \<and> entered_by_restart f'"
proof -
  have lt: "rs_key x < rs_key r" if "x \<in> set (cf_restarts f)" for x
  proof -
    have "order_key MRestart (rs_key x) \<in> movement_keys f None"
      using that by (auto simp: movement_keys_def family_keys_def seen_def)
    from newest [OF this] have "rs_key x \<le> rs_key r" by (simp add: order_key_def)
    with fresh that show ?thesis by (metis image_eqI order_le_less)
  qed
  have rr: "newest_ranked MRestart rs_key movement_of_restart None (cf_restarts f @ [r])
      = [(order_key MRestart (rs_key r), movement_of_restart r)]"
    using max_by_snoc_greater [of "cf_restarts f" rs_key r] lt by (simp add: newest_ranked_def seen_def)
  let ?old = "newest_ranked MTransition tr_key movement_of_transition None (cf_transitions f)
     @ newest_ranked MMigration mg_key movement_of_migration None (cf_migrations f)"
  have "fst p < order_key MRestart (rs_key r)" if "p \<in> set ?old" for p
  proof -
    obtain k m where p: "p = (k, m)" by (cases p)
    with that have "k \<in> movement_keys f None"
      using ranked_key [of k m f None] by (auto simp: ranked_movements_def)
    from newest [OF this] have "(fst k, fst (snd k)) \<le> rs_key r" .
    moreover have "snd (snd k) < 2"
      using that p by (auto simp: newest_ranked_iff order_key_def)
    ultimately show ?thesis using p
      by (cases k) (auto simp: order_key_def less_prod_def less_eq_prod_def)
  qed
  then have "max_by fst (?old @ [(order_key MRestart (rs_key r), movement_of_restart r)])
      = Some (order_key MRestart (rs_key r), movement_of_restart r)"
    by (intro max_by_snoc_greater) simp
  then have "latest_movement f' = Some (movement_of_restart r)"
    by (simp add: latest_movement_as_of_def ranked_movements_def f'_def rr)
  then show ?thesis
    by (simp add: newest_transition_is_terminal_def entered_by_restart_def movement_of_restart_def)
qed

text \<open>A lease minted or a requeue recorded after every escalation closes the open one.\<close>

theorem escalation_superseded:
  assumes later: "\<And>x. x \<in> set (cf_escalations f) \<Longrightarrow> esc_recorded_at x < at"
  shows "status (f\<lparr>cf_leases := cf_leases f @ [\<lparr>lease_epoch = epoch, lease_minted_at = at\<rparr>]\<rparr>) \<noteq> NeedsHuman
     \<and> status (f\<lparr>cf_requeues := cf_requeues f @ [\<lparr>rq_requeued_at = at, rq_requeued_by = by, rq_note = note\<rparr>]\<rparr>) \<noteq> NeedsHuman"
proof -
  have close: "open_escalation g = None"
    if "cf_escalations g = cf_escalations f" "Some at \<in> set (superseding_instants g)" for g :: chunk_facts
  proof (cases "max_by esc_recorded_at (cf_escalations g)")
    case None
    then show ?thesis by (simp add: open_escalation_def)
  next
    case (Some newest)
    then have "esc_recorded_at newest < at" using later that(1) max_by_in_set by metis
    with Some that(2) show ?thesis by (force simp: open_escalation_def)
  qed
  have "open_escalation (f\<lparr>cf_leases := cf_leases f @ [\<lparr>lease_epoch = epoch, lease_minted_at = at\<rparr>]\<rparr>) = None"
    by (rule close) (simp_all add: superseding_instants_def)
  moreover have "open_escalation (f\<lparr>cf_requeues := cf_requeues f @ [\<lparr>rq_requeued_at = at, rq_requeued_by = by, rq_note = note\<rparr>]\<rparr>) = None"
    by (rule close) (simp_all add: superseding_instants_def)
  ultimately show ?thesis
    by (auto simp: status_def status_with_def has_open_escalation_def split: if_splits)
qed

text \<open>Routes: a route is live exactly when the newest route event, by write order, is its creation.\<close>

lemma live_route_iff:
  "newest_route h = Some r \<longleftrightarrow>
     max_by rc_key (rh_created h) = Some r \<and> (\<forall>rel\<in>set (rh_released h). rr_key rel \<le> rc_key r)"
  by (auto simp: newest_route_def not_le [symmetric] split: option.splits if_splits)

theorem token_scoped_to_live_route:
  assumes "newest_token h = Some t"
  shows "\<exists>r. newest_route h = Some r \<and> t \<in> set (rh_tokens_minted h) \<and> rc_seq r \<le> rt_seq t
     \<and> (\<forall>t'\<in>set (rh_tokens_minted h). rc_seq r \<le> rt_seq t' \<longrightarrow> rt_key t' \<le> rt_key t)"
proof -
  from assms obtain r where r: "newest_route h = Some r"
    and m: "max_by rt_key (filter (\<lambda>t. rt_seq t \<ge> rc_seq r) (rh_tokens_minted h)) = Some t"
    by (auto simp: newest_token_def split: option.splits)
  from max_by_in_set [OF m] max_by_greatest [OF m] r show ?thesis by auto
qed

text \<open>\<open>transition_history\<close> ends in \<open>newest_transition\<close> when no two transitions tie.\<close>

lemma sorted_last_max:
  assumes "sorted (map g xs)" "x \<in> set xs"
  shows "g x \<le> g (last xs)"
  using assms by (induction xs) auto

theorem history_ends_at_newest:
  assumes "inj_on tr_key (set (cf_transitions f))" and "cf_transitions f \<noteq> []"
  shows "newest_transition f = Some (last (transition_history f))"
proof -
  obtain t where t: "newest_transition f = Some t"
    using assms(2) max_by_Some_ex unfolding newest_transition_def by metis
  let ?h = "transition_history f"
  have h: "set ?h = set (cf_transitions f)" "sorted (map tr_key ?h)"
    by (simp_all add: transition_history_def)
  then have ne: "?h \<noteq> []" using assms(2) by force
  have t': "t \<in> set (cf_transitions f)" using t max_by_in_set unfolding newest_transition_def by metis
  have "tr_key (last ?h) \<le> tr_key t"
    using t h(1) ne max_by_greatest last_in_set unfolding newest_transition_def by metis
  moreover have "tr_key t \<le> tr_key (last ?h)" using sorted_last_max [OF h(2)] t' h(1) by simp
  ultimately have "tr_key t = tr_key (last ?h)" by simp
  then have "t = last ?h" using assms(1) t' h(1) ne last_in_set by (metis inj_onD)
  with t show ?thesis by simp
qed

section \<open>Witnesses\<close>

definition sample_transition :: "ident \<Rightarrow> ident \<Rightarrow> int \<Rightarrow> instant \<Rightarrow> transition_fact" where
  "sample_transition from to epoch at = \<lparr>tr_to_node_id = to, tr_to_node_executor = ExecRunner, tr_epoch = epoch,
     tr_recorded_at = at, tr_from_node_id = Some from, tr_choice_name = None, tr_graph_id = None,
     tr_transition_id = None\<rparr>"

definition sample_restart :: "ident \<Rightarrow> int \<Rightarrow> instant \<Rightarrow> restart_fact" where
  "sample_restart to epoch at = \<lparr>rs_to_node_id = to, rs_from_node_id = None, rs_graph_id = ''gr_1'',
     rs_epoch = epoch, rs_recorded_at = at, rs_from_graph_id = None, rs_to_node_executor = ExecRunner,
     rs_restarted_by = ''op'', rs_note = None, rs_decision_id = None\<rparr>"

definition sample_escalation :: "int \<Rightarrow> instant \<Rightarrow> escalation_fact" where
  "sample_escalation epoch at = \<lparr>esc_epoch = epoch, esc_recorded_at = at, esc_takeover_command = [],
     esc_wrapped_takeover_command = [], esc_cause = None, esc_detail = None, esc_id = None\<rparr>"

definition sample_facts :: chunk_facts where
  "sample_facts = (blank_facts True)\<lparr>cf_promoted := True,
     cf_transitions := [sample_transition ''a'' ''b'' 1 10, sample_transition ''b'' ''c'' 2 20],
     cf_escalations := [sample_escalation 2 25],
     cf_leases := [\<lparr>lease_epoch = 1, lease_minted_at = 5\<rparr>, \<lparr>lease_epoch = 2, lease_minted_at = 15\<rparr>],
     cf_routes_created := [\<lparr>rc_created_at = 4, rc_seq = 2\<rparr>],
     cf_route_tokens_minted := [\<lparr>rt_token_hash = ''old'', rt_minted_at = 3, rt_seq = 1\<rparr>,
                               \<lparr>rt_token_hash = ''new'', rt_minted_at = 4, rt_seq = 2\<rparr>]\<rparr>"

lemmas sample_defs = sample_facts_def blank_facts_def sample_transition_def sample_restart_def sample_escalation_def

theorem ended_iff_completed_at_witness:
  "status (sample_facts\<lparr>cf_stopped := True, cf_stopped_at := Some 30\<rparr>) \<in> TERMINAL_STATUSES"
  using ended_iff_completed_at [of "sample_facts\<lparr>cf_stopped := True, cf_stopped_at := Some 30\<rparr>"]
  by (simp add: instants_recorded_def completed_at_def operator_completion_outranks_stop_def sample_defs)

theorem pause_settles_as_predicted_witness:
  "status_if_paused sample_facts =
     (if admits sample_facts VPause
      then status (sample_facts\<lparr>cf_pauses := [\<lparr>pz_paused = True, pz_set_at = 30, pz_set_by = ''op''\<rparr>]\<rparr>)
      else status sample_facts)"
  using pause_settles_as_predicted [of "\<lparr>pz_paused = True, pz_set_at = 30, pz_set_by = ''op''\<rparr>" sample_facts]
  by (simp add: sample_defs)

theorem latest_movement_is_newest_witness:
  "\<exists>m. latest_movement sample_facts = Some m \<and> mv_node_id m = Some ''c''"
proof -
  have "latest_movement sample_facts = Some (movement_of_transition (sample_transition ''b'' ''c'' 2 20))"
    by code_simp
  with latest_movement_is_newest [of sample_facts None] show ?thesis
    by (auto simp: movement_of_transition_def sample_transition_def)
qed

theorem restart_takes_over_witness:
  "latest_movement (sample_facts\<lparr>cf_restarts := cf_restarts sample_facts @ [sample_restart ''a'' 3 30]\<rparr>)
     = Some (movement_of_restart (sample_restart ''a'' 3 30))"
proof -
  have keys: "movement_keys sample_facts None \<subseteq> {(10, 1, 0), (20, 2, 0)}"
    by (auto simp: movement_keys_def family_keys_def order_key_def tr_key_def seen_def sample_defs image_iff)
  have "(fst k, fst (snd k)) \<le> rs_key (sample_restart ''a'' 3 30)" if "k \<in> movement_keys sample_facts None" for k
    using that keys by (auto simp: rs_key_def sample_restart_def)
  moreover have "rs_key (sample_restart ''a'' 3 30) \<notin> rs_key ` set (cf_restarts sample_facts)"
    by (simp add: sample_facts_def blank_facts_def)
  ultimately show ?thesis using restart_takes_over by blast
qed

theorem escalation_superseded_witness:
  "status (sample_facts\<lparr>cf_requeues := cf_requeues sample_facts @ [\<lparr>rq_requeued_at = 30, rq_requeued_by = None, rq_note = None\<rparr>]\<rparr>)
     \<noteq> NeedsHuman"
  using escalation_superseded [of sample_facts 30 3 None None] by (simp add: sample_defs)

theorem token_scoped_to_live_route_witness:
  "\<exists>t. newest_token (routes sample_facts) = Some t \<and> rt_token_hash t = ''new''"
proof -
  have t: "newest_token (routes sample_facts) = Some \<lparr>rt_token_hash = ''new'', rt_minted_at = 4, rt_seq = 2\<rparr>"
    by code_simp
  with token_scoped_to_live_route [OF t] show ?thesis by simp
qed

theorem history_ends_at_newest_witness:
  "newest_transition sample_facts = Some (last (transition_history sample_facts))"
  by (rule history_ends_at_newest) (simp_all add: tr_key_def sample_defs)

text \<open>On an exact tie of \<open>(recorded_at, epoch)\<close> the two part: \<open>max\<close> keeps the first of the tied
  transitions, the stable sort leaves the last of them at the end.\<close>

lemma history_parts_on_tie:
  "let f = (blank_facts True)\<lparr>cf_transitions := [sample_transition ''a'' ''b'' 1 10, sample_transition ''a'' ''c'' 1 10]\<rparr>
   in newest_transition f = Some (sample_transition ''a'' ''b'' 1 10)
      \<and> last (transition_history f) = sample_transition ''a'' ''c'' 1 10"
  by code_simp

end
