(* ===== verification/Dependencies.thy ===== *)
theory Dependencies
  imports Walks Chunk_Facts
begin

text \<open>
  Dependencies between chunks (\<open>hub/domain/chunk/dependencies.py\<close>, \<open>chunk_dependencies_store.py\<close>, the
  fold and delete of \<open>hub/domain/operations\<close>): the table of declared edges, the decision that
  declares one, the blocked marking, and the rewriting of a folded chunk's edges. The table never
  holds two standing edges on one pair and its standing edges never close a cycle.
\<close>

section \<open>Edges\<close>

record dependency_edge =
  de_dependency_id :: ident
  de_dependent :: ident
  de_prerequisite :: ident
  de_declared_at :: instant
  de_declared_by :: string
  de_released_at :: "instant option"
  de_released_by :: "string option"

definition edge_standing :: "dependency_edge \<Rightarrow> bool" where
  "edge_standing e \<longleftrightarrow> de_released_at e = None"

definition met_by :: "chunk_status option \<Rightarrow> bool" where
  "met_by prerequisite_status \<longleftrightarrow> prerequisite_status = Some Done"

definition de_pair :: "dependency_edge \<Rightarrow> ident \<times> ident" where
  "de_pair e = (de_dependent e, de_prerequisite e)"

section \<open>The table (\<open>ChunkDependenciesStore\<close>)\<close>

definition edge_order :: "dependency_edge \<Rightarrow> instant \<times> ident" where
  "edge_order e = (de_declared_at e, de_dependency_id e)"

definition list_standing_edges :: "dependency_edge list \<Rightarrow> dependency_edge list" where
  "list_standing_edges rows = sort_key edge_order (filter edge_standing rows)"

definition standing_edges_for_dependents :: "dependency_edge list \<Rightarrow> ident set \<Rightarrow> dependency_edge list" where
  "standing_edges_for_dependents rows dependents =
     sort_key edge_order (filter (\<lambda>e. edge_standing e \<and> de_dependent e \<in> dependents) rows)"

definition standing_edge :: "dependency_edge list \<Rightarrow> ident \<Rightarrow> ident \<Rightarrow> dependency_edge option" where
  "standing_edge rows dependent prerequisite =
     (case sort_key edge_order (filter (\<lambda>e. edge_standing e \<and> de_pair e = (dependent, prerequisite)) rows) of
        [] \<Rightarrow> None | e # _ \<Rightarrow> Some e)"

definition standing_edges_for :: "dependency_edge list \<Rightarrow> ident \<Rightarrow> dependency_edge list" where
  "standing_edges_for rows cid =
     sort_key edge_order (filter (\<lambda>e. edge_standing e \<and> (de_dependent e = cid \<or> de_prerequisite e = cid)) rows)"

definition declare_edge ::
  "ident \<Rightarrow> ident \<Rightarrow> ident \<Rightarrow> string \<Rightarrow> instant \<Rightarrow> dependency_edge list \<Rightarrow> dependency_edge \<times> dependency_edge list" where
  "declare_edge dependency_id dependent prerequisite who at rows =
     (let e = \<lparr>de_dependency_id = dependency_id, de_dependent = dependent, de_prerequisite = prerequisite,
               de_declared_at = at, de_declared_by = who, de_released_at = None, de_released_by = None\<rparr>
      in (e, rows @ [e]))"

definition release_rows ::
  "(dependency_edge \<Rightarrow> bool) \<Rightarrow> string \<Rightarrow> instant \<Rightarrow> dependency_edge list \<Rightarrow> dependency_edge list" where
  "release_rows sel who at rows =
     map (\<lambda>e. if sel e then e\<lparr>de_released_at := Some at, de_released_by := Some who\<rparr> else e) rows"

definition release_edge ::
  "ident \<Rightarrow> ident \<Rightarrow> string \<Rightarrow> instant \<Rightarrow> dependency_edge list \<Rightarrow> (dependency_edge \<times> dependency_edge list) option" where
  "release_edge dependent prerequisite who at rows =
     (case standing_edge rows dependent prerequisite of None \<Rightarrow> None
      | Some row \<Rightarrow> Some (row\<lparr>de_released_at := Some at, de_released_by := Some who\<rparr>,
          release_rows (\<lambda>e. de_dependency_id e = de_dependency_id row) who at rows))"

definition release_outgoing :: "ident \<Rightarrow> string \<Rightarrow> instant \<Rightarrow> dependency_edge list \<Rightarrow> dependency_edge list" where
  "release_outgoing cid who at rows = release_rows (\<lambda>e. de_dependent e = cid \<and> edge_standing e) who at rows"

section \<open>Declaring and releasing\<close>

definition would_close_a_cycle :: "dependency_edge list \<Rightarrow> (ident \<times> ident) list \<Rightarrow> bool" where
  "would_close_a_cycle standing added = has_cycle (adj_of_pairs (map de_pair standing @ added))"

datatype dependency_error =
    DependencyChunkNotFound ident
  | DependentNotEditable ident chunk_status
  | PrerequisiteIsEphemeral ident
  | DependencyWouldCloseCycle ident ident
  | NoStandingDependencyToRelease ident ident
  | FoldWouldCloseCycle ident "ident list"
  | ChunkNotDeletable ident chunk_status
  | ChunkHasDependents ident "ident list"

datatype declare_decision = AlreadyStanding dependency_edge | EdgeToDeclare ident ident

definition decide_declare ::
  "dependency_edge list \<Rightarrow> ident \<Rightarrow> chunk_facts option \<Rightarrow> ident \<Rightarrow> bool \<Rightarrow> dependency_error + declare_decision" where
  "decide_declare standing dependent dependent_facts prerequisite prerequisite_ephemeral =
     (case List.find (\<lambda>e. de_dependent e = dependent \<and> de_prerequisite e = prerequisite) standing of
        Some e \<Rightarrow> Inr (AlreadyStanding e)
      | None \<Rightarrow> (case dependent_facts of
          None \<Rightarrow> Inl (DependencyChunkNotFound dependent)
        | Some facts \<Rightarrow>
            if \<not> admits facts VDeclareDependency then Inl (DependentNotEditable dependent (status facts))
            else if prerequisite_ephemeral then Inl (PrerequisiteIsEphemeral prerequisite)
            else if would_close_a_cycle standing [(dependent, prerequisite)]
              then Inl (DependencyWouldCloseCycle dependent prerequisite)
            else Inr (EdgeToDeclare dependent prerequisite)))"

text \<open>\<open>DependencyService\<close>, under the tenant's cycle lock; the new row's id is an argument.\<close>

definition declare_dependency ::
  "ident \<Rightarrow> ident \<Rightarrow> chunk_facts option \<Rightarrow> ident \<Rightarrow> bool \<Rightarrow> string \<Rightarrow> instant \<Rightarrow> dependency_edge list
     \<Rightarrow> dependency_error + (dependency_edge \<times> dependency_edge list)" where
  "declare_dependency dependency_id dependent facts prerequisite ephemeral who at rows =
     (case decide_declare (list_standing_edges rows) dependent facts prerequisite ephemeral of
        Inl err \<Rightarrow> Inl err
      | Inr (AlreadyStanding e) \<Rightarrow> Inr (e, rows)
      | Inr (EdgeToDeclare a b) \<Rightarrow> Inr (declare_edge dependency_id a b who at rows))"

definition release_dependency ::
  "ident \<Rightarrow> ident \<Rightarrow> string \<Rightarrow> instant \<Rightarrow> dependency_edge list
     \<Rightarrow> dependency_error + (dependency_edge \<times> dependency_edge list)" where
  "release_dependency dependent prerequisite who at rows =
     (case release_edge dependent prerequisite who at rows of
        None \<Rightarrow> Inl (NoStandingDependencyToRelease dependent prerequisite)
      | Some result \<Rightarrow> Inr result)"

section \<open>The blocked marking\<close>

text \<open>A dictionary of lists grown with \<open>setdefault(k, []).append(v)\<close> is an \<^typ>\<open>ident adjacency\<close>.\<close>

definition unmet_step :: "(ident \<Rightarrow> chunk_status option) \<Rightarrow> dependency_edge \<Rightarrow> ident adjacency \<Rightarrow> ident adjacency" where
  "unmet_step statuses e unmet =
     (if statuses (de_dependent e) \<noteq> None \<and> the (statuses (de_dependent e)) \<notin> PRE_CLAIM_STATUSES then unmet
      else if met_by (statuses (de_prerequisite e)) then unmet
      else adj_add (de_pair e) unmet)"

definition derive_blocked_prerequisites ::
  "dependency_edge list \<Rightarrow> (ident \<Rightarrow> chunk_status option) \<Rightarrow> ident adjacency" where
  "derive_blocked_prerequisites standing statuses = fold (unmet_step statuses) standing []"

definition derive_blocked_markings ::
  "dependency_edge list \<Rightarrow> (ident \<Rightarrow> chunk_status option) \<Rightarrow> (ident \<times> ident) list" where
  "derive_blocked_markings standing statuses =
     map (\<lambda>(dependent, ps). (dependent, ps ! 0)) (derive_blocked_prerequisites standing statuses)"

record blocked_marking =
  bm_prerequisite :: ident
  bm_unmet_count :: int

definition BlockedMarking_of :: "ident list option \<Rightarrow> blocked_marking option" where
  "BlockedMarking_of unmet =
     (case unmet of None \<Rightarrow> None
      | Some ps \<Rightarrow> (case ps of [] \<Rightarrow> None | p # _ \<Rightarrow> Some \<lparr>bm_prerequisite = p, bm_unmet_count = int (length ps)\<rparr>))"

record chunk_neighbor =
  cn_chunk_id :: ident
  cn_status :: "chunk_status option"
  cn_satisfied :: bool

record chunk_neighborhood =
  nb_prerequisites :: "chunk_neighbor list"
  nb_dependents :: "chunk_neighbor list"

definition neighbor_step ::
  "ident \<Rightarrow> (ident \<Rightarrow> chunk_status option) \<Rightarrow> dependency_edge \<Rightarrow> chunk_neighborhood \<Rightarrow> chunk_neighborhood" where
  "neighbor_step cid statuses e nb =
     (let nb1 = (if de_dependent e = cid
           then nb\<lparr>nb_prerequisites := nb_prerequisites nb @
             [\<lparr>cn_chunk_id = de_prerequisite e, cn_status = statuses (de_prerequisite e),
               cn_satisfied = met_by (statuses (de_prerequisite e))\<rparr>]\<rparr>
           else nb)
      in if de_prerequisite e = cid
         then nb1\<lparr>nb_dependents := nb_dependents nb1 @
           [\<lparr>cn_chunk_id = de_dependent e, cn_status = statuses (de_dependent e),
             cn_satisfied = met_by (statuses cid)\<rparr>]\<rparr>
         else nb1)"

definition derive_chunk_neighborhood ::
  "ident \<Rightarrow> dependency_edge list \<Rightarrow> (ident \<Rightarrow> chunk_status option) \<Rightarrow> chunk_neighborhood" where
  "derive_chunk_neighborhood cid edges statuses =
     fold (neighbor_step cid statuses) edges \<lparr>nb_prerequisites = [], nb_dependents = []\<rparr>"

section \<open>Folding chunks together\<close>

record fold_mint =
  fm_dependent :: ident
  fm_prerequisite :: ident
  fm_declared_at :: instant

definition fm_pair :: "fold_mint \<Rightarrow> ident \<times> ident" where
  "fm_pair m = (fm_dependent m, fm_prerequisite m)"

record fold_edge_plan =
  fp_release :: "ident \<Rightarrow> ident list"
  fp_mint :: "ident \<Rightarrow> fold_mint list"
  fp_remaining :: "dependency_edge list"

definition remap :: "ident set \<Rightarrow> ident \<Rightarrow> ident \<Rightarrow> ident" where
  "remap folded survivor cid = (if cid \<in> folded then survivor else cid)"

definition remap_pair :: "ident set \<Rightarrow> ident \<Rightarrow> dependency_edge \<Rightarrow> ident \<times> ident" where
  "remap_pair folded survivor e = (remap folded survivor (de_dependent e), remap folded survivor (de_prerequisite e))"

definition touches :: "ident set \<Rightarrow> dependency_edge \<Rightarrow> bool" where
  "touches folded e \<longleftrightarrow> de_dependent e \<in> folded \<or> de_prerequisite e \<in> folded"

text \<open>The loop's variables.\<close>

record fold_state =
  fs_release :: "ident \<Rightarrow> ident list"
  fs_mint :: "ident \<Rightarrow> fold_mint list"
  fs_unfolded :: "(ident \<times> ident) \<Rightarrow> dependency_edge option"
  fs_minted_pairs :: "(ident \<times> ident) set"
  fs_superseded :: "ident set"

definition append_at :: "ident \<Rightarrow> 'v \<Rightarrow> (ident \<Rightarrow> 'v list) \<Rightarrow> ident \<Rightarrow> 'v list" where
  "append_at k v m = m(k := m k @ [v])"

definition fold_edge :: "ident set \<Rightarrow> ident \<Rightarrow> dependency_edge \<Rightarrow> fold_state \<Rightarrow> fold_state" where
  "fold_edge folded survivor e st =
     (if \<not> touches folded e then st
      else
        let owner = (if de_dependent e \<in> folded then de_dependent e else de_prerequisite e);
            st1 = st\<lparr>fs_release := append_at owner (de_dependency_id e) (fs_release st)\<rparr>;
            pair = remap_pair folded survivor e;
            mint = (\<lambda>s. s\<lparr>fs_minted_pairs := insert pair (fs_minted_pairs s),
                          fs_mint := append_at owner
                            \<lparr>fm_dependent = fst pair, fm_prerequisite = snd pair, fm_declared_at = de_declared_at e\<rparr>
                            (fs_mint s)\<rparr>)
        in if fst pair = snd pair \<or> pair \<in> fs_minted_pairs st1 then st1
           else case fs_unfolded st1 pair of
             None \<Rightarrow> mint st1
           | Some existing \<Rightarrow>
               if de_declared_at existing \<le> de_declared_at e then st1
               else mint (st1\<lparr>fs_release := append_at owner (de_dependency_id existing) (fs_release st1),
                              fs_superseded := insert (de_dependency_id existing) (fs_superseded st1),
                              fs_unfolded := (fs_unfolded st1)(pair := None)\<rparr>))"

definition plan_fold :: "dependency_edge list \<Rightarrow> ident \<Rightarrow> ident list \<Rightarrow> fold_edge_plan" where
  "plan_fold standing survivor folded_ids =
     (let folded = set folded_ids;
          remaining = filter (\<lambda>e. \<not> touches folded e) standing;
          st = fold (fold_edge folded survivor) standing
                 \<lparr>fs_release = (\<lambda>_. []), fs_mint = (\<lambda>_. []),
                  fs_unfolded = map_of (rev (map (\<lambda>e. (de_pair e, e)) remaining)),
                  fs_minted_pairs = {}, fs_superseded = {}\<rparr>
      in \<lparr>fp_release = fs_release st, fp_mint = fs_mint st,
          fp_remaining = filter (\<lambda>e. de_dependency_id e \<notin> fs_superseded st) remaining\<rparr>)"

definition plan_group :: "dependency_edge list \<Rightarrow> ident \<Rightarrow> ident list \<Rightarrow> dependency_error + fold_edge_plan" where
  "plan_group standing survivor folded_ids =
     (let plan = plan_fold standing survivor folded_ids;
          minted_pairs = map fm_pair (concat (map (fp_mint plan) folded_ids))
      in if would_close_a_cycle (fp_remaining plan) minted_pairs then Inl (FoldWouldCloseCycle survivor folded_ids)
         else Inr plan)"

definition merge_targets :: "ident \<Rightarrow> ident list \<Rightarrow> ident list" where
  "merge_targets survivor merge_ids = dedup (filter (\<lambda>m. m \<noteq> survivor) merge_ids)"

text \<open>\<open>record_fold\<close>, target by target; the id the \<open>k\<close>-th row is given is \<open>mint_id k\<close>.\<close>

definition insert_mint :: "(nat \<Rightarrow> ident) \<Rightarrow> string \<Rightarrow> fold_mint \<Rightarrow> dependency_edge list \<Rightarrow> dependency_edge list" where
  "insert_mint mint_id who m rows = rows @
     [\<lparr>de_dependency_id = mint_id (length rows), de_dependent = fm_dependent m, de_prerequisite = fm_prerequisite m,
       de_declared_at = fm_declared_at m, de_declared_by = who, de_released_at = None, de_released_by = None\<rparr>]"

definition record_fold_target ::
  "(nat \<Rightarrow> ident) \<Rightarrow> fold_edge_plan \<Rightarrow> string \<Rightarrow> instant \<Rightarrow> ident \<Rightarrow> dependency_edge list \<Rightarrow> dependency_edge list" where
  "record_fold_target mint_id plan who at target rows =
     fold (insert_mint mint_id who) (fp_mint plan target)
       (release_rows (\<lambda>e. de_dependency_id e \<in> set (fp_release plan target)) who at rows)"

definition record_fold ::
  "(nat \<Rightarrow> ident) \<Rightarrow> fold_edge_plan \<Rightarrow> ident list \<Rightarrow> string \<Rightarrow> instant \<Rightarrow> dependency_edge list \<Rightarrow> dependency_edge list" where
  "record_fold mint_id plan targets who at rows = fold (record_fold_target mint_id plan who at) targets rows"

definition group_edges ::
  "(nat \<Rightarrow> ident) \<Rightarrow> ident \<Rightarrow> ident list \<Rightarrow> string \<Rightarrow> instant \<Rightarrow> dependency_edge list
     \<Rightarrow> dependency_error + dependency_edge list" where
  "group_edges mint_id survivor merge_ids who at rows =
     (let targets = merge_targets survivor merge_ids in
      map_sum id (\<lambda>plan. record_fold mint_id plan targets who at rows)
        (plan_group (list_standing_edges rows) survivor targets))"

section \<open>Deleting a chunk\<close>

datatype delete_refusal_reason = RefusedByStatus | RefusedByDependents

definition dependent_chunk_ids :: "ident \<Rightarrow> dependency_edge list \<Rightarrow> ident list" where
  "dependent_chunk_ids cid standing = sort (map de_dependent (filter (\<lambda>e. de_prerequisite e = cid) standing))"

definition delete_refusal :: "chunk_facts \<Rightarrow> ident list \<Rightarrow> delete_refusal_reason option" where
  "delete_refusal facts dependents =
     (if \<not> admits facts VDelete then Some RefusedByStatus
      else if dependents \<noteq> [] then Some RefusedByDependents
      else None)"

definition require_deletable :: "ident \<Rightarrow> chunk_facts \<Rightarrow> dependency_edge list \<Rightarrow> dependency_error option" where
  "require_deletable cid facts standing =
     (let dependents = dependent_chunk_ids cid standing in
      case delete_refusal facts dependents of
        None \<Rightarrow> None
      | Some RefusedByStatus \<Rightarrow> Some (ChunkNotDeletable cid (status facts))
      | Some RefusedByDependents \<Rightarrow> Some (ChunkHasDependents cid dependents))"

text \<open>The edges a delete leaves behind; the deleted row and the withdrawn items are not edges.\<close>

definition delete_edges ::
  "ident \<Rightarrow> chunk_facts option \<Rightarrow> string \<Rightarrow> instant \<Rightarrow> dependency_edge list \<Rightarrow> dependency_error + dependency_edge list" where
  "delete_edges cid facts who at rows =
     (case facts of None \<Rightarrow> Inl (DependencyChunkNotFound cid)
      | Some f \<Rightarrow> (case require_deletable cid f (standing_edges_for rows cid) of
          Some err \<Rightarrow> Inl err
        | None \<Rightarrow> Inr (release_outgoing cid who at rows)))"

end
