(* ===== verification/Dependency_Laws.thy ===== *)
theory Dependency_Laws
  imports Dependencies "HOL-Library.Multiset"
begin

text \<open>
  What the dependency table guarantees: declaring, releasing and deleting keep its standing edges
  acyclic with one edge a pair, a cycle is refused exactly when one would close, a deleted chunk is on
  no standing edge, and the blocked marking names the earliest-declared prerequisite that is not done.
\<close>

section \<open>The table's invariant\<close>

definition standing_pairs :: "dependency_edge list \<Rightarrow> (ident \<times> ident) set" where
  "standing_pairs rows = de_pair ` {e \<in> set rows. edge_standing e}"

text \<open>The \<open>k\<close>-th row carries the \<open>k\<close>-th id minted; no pair stands twice; the standing edges are acyclic.\<close>

definition dep_inv :: "(nat \<Rightarrow> ident) \<Rightarrow> dependency_edge list \<Rightarrow> bool" where
  "dep_inv mint_id rows \<longleftrightarrow>
     map de_dependency_id rows = map mint_id [0..<length rows]
     \<and> distinct (map de_pair (filter edge_standing rows)) \<and> acyclic (standing_pairs rows)"

lemma standing_pairsI: "e \<in> set rows \<Longrightarrow> edge_standing e \<Longrightarrow> de_pair e = p \<Longrightarrow> p \<in> standing_pairs rows"
  by (force simp: standing_pairs_def)

lemma set_list_standing [simp]: "set (list_standing_edges rows) = {e \<in> set rows. edge_standing e}"
  by (simp add: list_standing_edges_def)

lemma would_close_a_cycle_iff: "would_close_a_cycle standing added \<longleftrightarrow> \<not> acyclic (de_pair ` set standing \<union> set added)"
  by (simp add: would_close_a_cycle_def has_cycle_iff adj_rel_of_pairs)

lemma standing_unique:
  assumes "distinct (map de_pair (filter edge_standing rows))" and "a \<in> set rows" "edge_standing a"
    and "b \<in> set rows" "edge_standing b" and "de_pair a = de_pair b"
  shows "a = b"
proof -
  have "inj_on de_pair (set (filter edge_standing rows))" using assms(1) by (simp add: distinct_map)
  with assms(2-) show ?thesis by (auto dest: inj_onD)
qed

lemma dep_ids_distinct: "inj mint_id \<Longrightarrow> dep_inv mint_id rows \<Longrightarrow> distinct (map de_dependency_id rows)"
  by (simp add: dep_inv_def distinct_map inj_on_subset [OF _ subset_UNIV])

lemma dep_ids_unique:
  "inj mint_id \<Longrightarrow> dep_inv mint_id rows \<Longrightarrow> a \<in> set rows \<Longrightarrow> b \<in> set rows \<Longrightarrow>
   de_dependency_id a = de_dependency_id b \<Longrightarrow> a = b"
  using dep_ids_distinct by (metis distinct_map inj_onD)

lemma dep_ids_range: "dep_inv mint_id rows \<Longrightarrow> e \<in> set rows \<Longrightarrow> \<exists>k<length rows. de_dependency_id e = mint_id k"
proof -
  assume inv: "dep_inv mint_id rows" and "e \<in> set rows"
  then obtain k where k: "k < length rows" "rows ! k = e" by (auto simp: in_set_conv_nth)
  have "map de_dependency_id rows ! k = map mint_id [0..<length rows] ! k" using inv by (simp add: dep_inv_def)
  with k show ?thesis by auto
qed

section \<open>Releasing rows\<close>

lemma release_rows_ids [simp]: "map de_dependency_id (release_rows P who at rows) = map de_dependency_id rows"
  by (simp add: release_rows_def)

lemma release_rows_length [simp]: "length (release_rows P who at rows) = length rows"
  by (simp add: release_rows_def)

lemma release_rows_standing:
  "filter edge_standing (release_rows P who at rows) = filter (\<lambda>e. edge_standing e \<and> \<not> P e) rows"
  by (induction rows) (auto simp: release_rows_def edge_standing_def)

lemma standing_pairs_filter: "standing_pairs rows = set (map de_pair (filter edge_standing rows))"
  by (simp add: standing_pairs_def)

lemma standing_pairs_release:
  "standing_pairs (release_rows P who at rows) = de_pair ` {e \<in> set rows. edge_standing e \<and> \<not> P e}"
  by (simp add: standing_pairs_filter release_rows_standing)

lemma dep_inv_release:
  assumes "dep_inv mint_id rows"
  shows "dep_inv mint_id (release_rows P who at rows)"
proof -
  have "distinct (map de_pair (filter (\<lambda>e. \<not> P e) (filter edge_standing rows)))"
    using assms distinct_map_filter [of de_pair "filter edge_standing rows"] unfolding dep_inv_def by blast
  then have "distinct (map de_pair (filter (\<lambda>e. edge_standing e \<and> \<not> P e) rows))"
    by (simp add: conj_commute)
  moreover have "standing_pairs (release_rows P who at rows) \<subseteq> standing_pairs rows"
    unfolding standing_pairs_release by (auto simp: standing_pairs_def)
  ultimately show ?thesis
    using assms acyclic_subset by (auto simp: dep_inv_def release_rows_standing)
qed

section \<open>Declaring\<close>

lemma declare_edge_inv:
  assumes inv: "dep_inv mint_id rows" and new: "(a, b) \<notin> standing_pairs rows"
    and ac: "acyclic (insert (a, b) (standing_pairs rows))"
    and d: "declare_edge (mint_id (length rows)) a b who at rows = (e, rows')"
  shows "dep_inv mint_id rows' \<and> e \<in> set rows' \<and> edge_standing e \<and> de_pair e = (a, b)
     \<and> standing_pairs rows' = insert (a, b) (standing_pairs rows)"
proof -
  from d have e: "rows' = rows @ [e]" "de_pair e = (a, b)" "edge_standing e" "de_dependency_id e = mint_id (length rows)"
    by (auto simp: declare_edge_def Let_def de_pair_def edge_standing_def)
  then have p: "standing_pairs rows' = insert (a, b) (standing_pairs rows)" by (simp add: standing_pairs_filter)
  from e inv new ac p show ?thesis by (auto simp: dep_inv_def standing_pairs_filter)
qed

lemma decide_declare_standing:
  "decide_declare (list_standing_edges rows) a facts b eph = Inr (AlreadyStanding e) \<Longrightarrow>
   e \<in> set rows \<and> edge_standing e \<and> de_pair e = (a, b)"
  by (auto simp: decide_declare_def de_pair_def split: option.splits if_splits dest: find_SomeD)

lemma find_pair_None:
  "List.find (\<lambda>e. de_dependent e = a \<and> de_prerequisite e = b) (list_standing_edges rows) = None
     \<longleftrightarrow> (a, b) \<notin> standing_pairs rows"
  by (auto simp: find_eq_None standing_pairs_def de_pair_def)

lemma decide_declare_mint:
  "decide_declare (list_standing_edges rows) a facts b eph = Inr (EdgeToDeclare a' b') \<longleftrightarrow>
     a' = a \<and> b' = b \<and> (a, b) \<notin> standing_pairs rows \<and> (\<exists>f. facts = Some f \<and> admits f VDeclareDependency) \<and> \<not> eph
     \<and> acyclic (insert (a, b) (standing_pairs rows))"
proof -
  have "de_pair ` {e \<in> set rows. edge_standing e} \<union> {(a, b)} = insert (a, b) (standing_pairs rows)"
    by (auto simp: standing_pairs_def)
  then show ?thesis
    using find_pair_None [of a b rows]
    by (auto simp: decide_declare_def would_close_a_cycle_iff split: option.splits)
qed

text \<open>C39: Declaring a dependency keeps the standing edges acyclic with one edge a pair, answers with a
  standing edge of the pair asked for, and adds that pair and nothing else.\<close>

theorem declaring_keeps_the_graph_acyclic:
  assumes inv: "dep_inv mint_id rows"
    and d: "declare_dependency (mint_id (length rows)) a facts b eph who at rows = Inr (e, rows')"
  shows "dep_inv mint_id rows' \<and> e \<in> set rows' \<and> edge_standing e \<and> de_pair e = (a, b)
     \<and> standing_pairs rows' = insert (a, b) (standing_pairs rows)"
proof (cases "decide_declare (list_standing_edges rows) a facts b eph")
  case (Inl err)
  with d show ?thesis by (simp add: declare_dependency_def)
next
  case (Inr r)
  show ?thesis
  proof (cases r)
    case (AlreadyStanding x)
    with Inr d have "x = e" "rows' = rows" by (auto simp: declare_dependency_def)
    moreover have "e \<in> set rows \<and> edge_standing e \<and> de_pair e = (a, b)"
      using decide_declare_standing Inr AlreadyStanding \<open>x = e\<close> by simp
    ultimately show ?thesis using inv standing_pairsI [of e rows "(a, b)"] by auto
  next
    case (EdgeToDeclare a' b')
    with Inr have "decide_declare (list_standing_edges rows) a facts b eph = Inr (EdgeToDeclare a' b')" by simp
    from this [unfolded decide_declare_mint]
    have *: "a' = a" "b' = b" "(a, b) \<notin> standing_pairs rows" "acyclic (insert (a, b) (standing_pairs rows))" by auto
    with Inr EdgeToDeclare d have "declare_edge (mint_id (length rows)) a b who at rows = (e, rows')"
      by (simp add: declare_dependency_def)
    from declare_edge_inv [OF inv *(3,4) this] show ?thesis .
  qed
qed

text \<open>C40: A declaration is refused as closing a cycle exactly when no edge stands on the pair, the
  dependent exists and admits the verb, the prerequisite is not ephemeral, and the prerequisite
  already waits, directly or through others, on the dependent, or is the dependent itself.\<close>

theorem cycle_refused_exactly:
  assumes inv: "dep_inv mint_id rows"
  shows "declare_dependency i a facts b eph who at rows = Inl (DependencyWouldCloseCycle a b) \<longleftrightarrow>
     (a, b) \<notin> standing_pairs rows \<and> (\<exists>f. facts = Some f \<and> admits f VDeclareDependency) \<and> \<not> eph
     \<and> (b, a) \<in> (standing_pairs rows)\<^sup>*"
proof -
  have "acyclic (standing_pairs rows)" using inv by (simp add: dep_inv_def)
  then have ac: "acyclic (insert (a, b) (standing_pairs rows)) \<longleftrightarrow> (b, a) \<notin> (standing_pairs rows)\<^sup>*"
    by (simp add: acyclic_insert)
  have "de_pair ` {e \<in> set rows. edge_standing e} \<union> {(a, b)} = insert (a, b) (standing_pairs rows)"
    by (auto simp: standing_pairs_def)
  then show ?thesis
    using find_pair_None [of a b rows] ac
    by (auto simp: declare_dependency_def decide_declare_def would_close_a_cycle_iff
        split: option.splits sum.splits declare_decision.splits)
qed

theorem releasing_removes_the_pair:
  assumes inj: "inj mint_id" and inv: "dep_inv mint_id rows"
  shows "(release_dependency a b who at rows = Inl (NoStandingDependencyToRelease a b) \<longleftrightarrow> (a, b) \<notin> standing_pairs rows)
     \<and> (release_dependency a b who at rows = Inr (e, rows') \<longrightarrow>
          dep_inv mint_id rows' \<and> standing_pairs rows' = standing_pairs rows - {(a, b)} \<and> e \<in> set rows')
     \<and> dep_inv mint_id (release_outgoing a who at rows)
     \<and> standing_pairs (release_outgoing a who at rows) = {p \<in> standing_pairs rows. fst p \<noteq> a}"
proof -
  let ?hits = "sort_key edge_order (filter (\<lambda>e. edge_standing e \<and> de_pair e = (a, b)) rows)"
  have none: "standing_edge rows a b = None \<longleftrightarrow> (a, b) \<notin> standing_pairs rows"
  proof -
    have "?hits = [] \<longleftrightarrow> set ?hits = {}" by (rule set_empty [symmetric])
    also have "\<dots> \<longleftrightarrow> (a, b) \<notin> standing_pairs rows"
      using standing_pairsI [of _ rows "(a, b)"] by (auto simp: standing_pairs_def)
    finally show ?thesis unfolding standing_edge_def by (auto split: list.split)
  qed
  have some: "row \<in> set rows \<and> edge_standing row \<and> de_pair row = (a, b)" if "standing_edge rows a b = Some row" for row
  proof -
    have "row \<in> set ?hits" using that by (cases ?hits) (auto simp: standing_edge_def)
    then show ?thesis by simp
  qed
  have rel: "dep_inv mint_id rows' \<and> standing_pairs rows' = standing_pairs rows - {(a, b)} \<and> e \<in> set rows'"
    if r: "release_dependency a b who at rows = Inr (e, rows')"
  proof -
    from r obtain row where row: "standing_edge rows a b = Some row"
        "rows' = release_rows (\<lambda>e. de_dependency_id e = de_dependency_id row) who at rows"
        "e = row\<lparr>de_released_at := Some at, de_released_by := Some who\<rparr>"
      by (auto simp: release_dependency_def release_edge_def split: option.splits)
    note hit = some [OF row(1)]
    have sel: "{x \<in> set rows. edge_standing x \<and> de_dependency_id x \<noteq> de_dependency_id row}
        = {x \<in> set rows. edge_standing x \<and> de_pair x \<noteq> (a, b)}"
      using hit dep_ids_unique [OF inj inv] standing_unique [of rows _ row] inv by (auto simp: dep_inv_def)
    have "standing_pairs rows' = standing_pairs rows - {(a, b)}"
      unfolding row(2) standing_pairs_release sel by (auto simp: standing_pairs_def)
    moreover have "e \<in> set rows'" using hit row(2,3) by (auto simp: release_rows_def image_iff)
    ultimately show ?thesis using dep_inv_release [OF inv] row(2) by simp
  qed
  have "release_dependency a b who at rows = Inl (NoStandingDependencyToRelease a b) \<longleftrightarrow> (a, b) \<notin> standing_pairs rows"
    unfolding none [symmetric] by (cases "standing_edge rows a b") (simp_all add: release_dependency_def release_edge_def)
  moreover have "standing_pairs (release_outgoing a who at rows) = {p \<in> standing_pairs rows. fst p \<noteq> a}"
    unfolding release_outgoing_def standing_pairs_release by (auto simp: standing_pairs_def de_pair_def)
  ultimately show ?thesis using rel dep_inv_release [OF inv] by (simp add: release_outgoing_def)
qed

section \<open>The blocked marking\<close>

definition awaits_claim :: "(ident \<Rightarrow> chunk_status option) \<Rightarrow> ident \<Rightarrow> bool" where
  "awaits_claim statuses cid \<longleftrightarrow> statuses cid = None \<or> the (statuses cid) \<in> PRE_CLAIM_STATUSES"

definition unmet_edges :: "dependency_edge list \<Rightarrow> (ident \<Rightarrow> chunk_status option) \<Rightarrow> ident \<Rightarrow> dependency_edge list" where
  "unmet_edges edges statuses d = filter (\<lambda>e. de_dependent e = d \<and> \<not> met_by (statuses (de_prerequisite e))) edges"

lemma map_of_adj_add:
  "map_of (adj_add p adj) x = (if x = fst p then Some (adj_get adj x @ [snd p]) else map_of adj x)"
  by (simp add: adj_add_def)

lemma blocked_prerequisites:
  "map_of (derive_blocked_prerequisites edges statuses) d =
     (if awaits_claim statuses d \<and> unmet_edges edges statuses d \<noteq> []
      then Some (map de_prerequisite (unmet_edges edges statuses d)) else None)"
proof (induction edges rule: rev_induct)
  case Nil
  then show ?case by (simp add: derive_blocked_prerequisites_def unmet_edges_def)
next
  case (snoc e es)
  let ?acc = "derive_blocked_prerequisites es statuses"
  have step: "derive_blocked_prerequisites (es @ [e]) statuses = unmet_step statuses e ?acc"
    by (simp add: derive_blocked_prerequisites_def)
  have unmet: "unmet_edges (es @ [e]) statuses d = unmet_edges es statuses d @
      (if de_dependent e = d \<and> \<not> met_by (statuses (de_prerequisite e)) then [e] else [])"
    by (simp add: unmet_edges_def)
  show ?case
  proof (cases "awaits_claim statuses (de_dependent e) \<and> \<not> met_by (statuses (de_prerequisite e))")
    case True
    then have "unmet_step statuses e ?acc = adj_add (de_pair e) ?acc"
      by (auto simp: unmet_step_def awaits_claim_def)
    then show ?thesis
      using True snoc unfolding step unmet by (auto simp: map_of_adj_add adj_get_def de_pair_def)
  next
    case False
    then have "unmet_step statuses e ?acc = ?acc" by (auto simp: unmet_step_def awaits_claim_def)
    with False snoc show ?thesis unfolding step unmet by auto
  qed
qed

theorem blocked_marking_exact:
  "BlockedMarking_of (map_of (derive_blocked_prerequisites (list_standing_edges rows) statuses) d) =
     (case unmet_edges (list_standing_edges rows) statuses d of
        [] \<Rightarrow> None
      | e # es \<Rightarrow> if awaits_claim statuses d
                 then Some \<lparr>bm_prerequisite = de_prerequisite e, bm_unmet_count = int (length es) + 1\<rparr> else None)
   \<and> map_of (derive_blocked_markings (list_standing_edges rows) statuses) d =
       map_option (\<lambda>m. bm_prerequisite m)
         (BlockedMarking_of (map_of (derive_blocked_prerequisites (list_standing_edges rows) statuses) d))
   \<and> set (unmet_edges (list_standing_edges rows) statuses d) =
       {e. e \<in> set rows \<and> edge_standing e \<and> de_dependent e = d \<and> statuses (de_prerequisite e) \<noteq> Some Done}
   \<and> sorted (map edge_order (unmet_edges (list_standing_edges rows) statuses d))"
proof (intro conjI)
  let ?es = "list_standing_edges rows"
  show "BlockedMarking_of (map_of (derive_blocked_prerequisites ?es statuses) d) =
     (case unmet_edges ?es statuses d of
        [] \<Rightarrow> None
      | e # es \<Rightarrow> if awaits_claim statuses d
                 then Some \<lparr>bm_prerequisite = de_prerequisite e, bm_unmet_count = int (length es) + 1\<rparr> else None)"
    by (cases "unmet_edges ?es statuses d") (simp_all add: blocked_prerequisites BlockedMarking_of_def)
  have "derive_blocked_markings ?es statuses = map (map_prod id (\<lambda>ps. ps ! 0)) (derive_blocked_prerequisites ?es statuses)"
    by (auto simp: derive_blocked_markings_def)
  then have "map_of (derive_blocked_markings ?es statuses) d
      = map_option (\<lambda>ps. ps ! 0) (map_of (derive_blocked_prerequisites ?es statuses) d)"
    by (simp add: map_prod_def map_of_map)
  then show "map_of (derive_blocked_markings ?es statuses) d =
       map_option (\<lambda>m. bm_prerequisite m) (BlockedMarking_of (map_of (derive_blocked_prerequisites ?es statuses) d))"
    by (cases "unmet_edges ?es statuses d") (simp_all add: blocked_prerequisites BlockedMarking_of_def)
  show "set (unmet_edges ?es statuses d) =
      {e. e \<in> set rows \<and> edge_standing e \<and> de_dependent e = d \<and> statuses (de_prerequisite e) \<noteq> Some Done}"
    by (auto simp: unmet_edges_def met_by_def)
  have "sorted (map edge_order ?es)" by (simp add: list_standing_edges_def)
  then show "sorted (map edge_order (unmet_edges ?es statuses d))"
    unfolding unmet_edges_def by (rule sorted_filter)
qed

section \<open>Deleting\<close>

theorem delete_leaves_no_edge:
  assumes inv: "dep_inv mint_id rows"
  shows "(\<forall>err. delete_edges cid facts who at rows = Inl err \<longleftrightarrow>
        (case facts of None \<Rightarrow> err = DependencyChunkNotFound cid
         | Some f \<Rightarrow> if \<not> admits f VDelete then err = ChunkNotDeletable cid (status f)
             else cid \<in> snd ` standing_pairs rows \<and>
               err = ChunkHasDependents cid (sorted_list_of_set {a. (a, cid) \<in> standing_pairs rows})))
     \<and> (\<forall>rows'. delete_edges cid facts who at rows = Inr rows' \<longrightarrow>
          dep_inv mint_id rows' \<and> standing_pairs rows' = {p \<in> standing_pairs rows. fst p \<noteq> cid}
          \<and> cid \<notin> fst ` standing_pairs rows' \<and> cid \<notin> snd ` standing_pairs rows')"
proof -
  let ?st = "standing_edges_for rows cid"
  have dp: "distinct (map de_pair (filter edge_standing rows))" using inv by (simp add: dep_inv_def)
  define into where "into = filter (\<lambda>e. de_prerequisite e = cid) ?st"
  have set_into: "set into = {e \<in> set rows. edge_standing e \<and> de_prerequisite e = cid}"
    by (auto simp: into_def standing_edges_for_def)
  have pairs: "de_dependent ` set into = {a. (a, cid) \<in> standing_pairs rows}"
    unfolding set_into by (auto simp: standing_pairs_def de_pair_def image_iff)
  have "distinct (filter (\<lambda>e. de_dependent e = cid \<or> de_prerequisite e = cid) (filter edge_standing rows))"
    using dp by (simp add: distinct_map distinct_filter del: filter_filter)
  then have "distinct into" unfolding into_def standing_edges_for_def by (simp add: conj_commute)
  moreover have "inj_on de_dependent (set into)"
    using standing_unique [OF dp] unfolding inj_on_def set_into by (auto simp: de_pair_def)
  ultimately have "distinct (map de_dependent into)" by (simp add: distinct_map)
  then have deps: "dependent_chunk_ids cid ?st = sorted_list_of_set {a. (a, cid) \<in> standing_pairs rows}"
    unfolding dependent_chunk_ids_def into_def [symmetric] pairs [symmetric]
    by (metis set_map sorted_list_of_set_sort_remdups distinct_remdups_id)
  have none: "dependent_chunk_ids cid ?st = [] \<longleftrightarrow> cid \<notin> snd ` standing_pairs rows"
  proof -
    have "set (dependent_chunk_ids cid ?st) = de_dependent ` set into"
      by (simp add: dependent_chunk_ids_def into_def)
    then have "dependent_chunk_ids cid ?st = [] \<longleftrightarrow> de_dependent ` set into = {}"
      by (metis set_empty)
    then show ?thesis unfolding pairs by force
  qed
  have out: "dep_inv mint_id (release_outgoing cid who at rows)"
      "standing_pairs (release_outgoing cid who at rows) = {p \<in> standing_pairs rows. fst p \<noteq> cid}"
    using dep_inv_release [OF inv] unfolding release_outgoing_def standing_pairs_release
    by (auto simp: standing_pairs_def de_pair_def)
  show ?thesis
  proof (cases facts)
    case None
    then show ?thesis by (auto simp: delete_edges_def)
  next
    case (Some f)
    have result: "delete_edges cid facts who at rows =
        (if \<not> admits f VDelete then Inl (ChunkNotDeletable cid (status f))
         else if cid \<in> snd ` standing_pairs rows then Inl (ChunkHasDependents cid (dependent_chunk_ids cid ?st))
         else Inr (release_outgoing cid who at rows))"
      using none by (simp add: Some delete_edges_def require_deletable_def delete_refusal_def Let_def)
    show ?thesis unfolding result deps using out by (auto simp: Some)
  qed
qed

section \<open>Witnesses\<close>

definition sample_edge :: "ident \<Rightarrow> ident \<Rightarrow> ident \<Rightarrow> instant \<Rightarrow> dependency_edge" where
  "sample_edge i a b at = \<lparr>de_dependency_id = i, de_dependent = a, de_prerequisite = b, de_declared_at = at,
     de_declared_by = ''op'', de_released_at = None, de_released_by = None\<rparr>"

definition sample_mint :: "nat \<Rightarrow> ident" where
  "sample_mint k = replicate k CHR ''x''"

definition sample_edges :: "dependency_edge list" where
  "sample_edges = [sample_edge '''' ''a'' ''b'' 1, sample_edge ''x'' ''b'' ''c'' 2, sample_edge ''xx'' ''a'' ''c'' 3]"

lemma sample_mint_inj: "inj sample_mint"
  by (rule injI) (metis sample_mint_def length_replicate)

lemma sample_pairs: "standing_pairs sample_edges = {(''a'', ''b''), (''b'', ''c''), (''a'', ''c'')}"
  by (simp add: standing_pairs_filter sample_edges_def sample_edge_def edge_standing_def de_pair_def)

lemma sample_edges_inv: "dep_inv sample_mint sample_edges"
proof -
  have "\<not> would_close_a_cycle sample_edges []" by code_simp
  moreover have "de_pair ` set sample_edges = standing_pairs sample_edges"
    by (auto simp: standing_pairs_def sample_edges_def sample_edge_def edge_standing_def)
  ultimately have "acyclic (standing_pairs sample_edges)" by (simp add: would_close_a_cycle_iff)
  then show ?thesis
    by (simp add: dep_inv_def sample_edges_def sample_edge_def sample_mint_def edge_standing_def de_pair_def upt_rec)
qed

theorem declaring_keeps_the_graph_acyclic_witness:
  "dep_inv sample_mint (snd (projr (declare_dependency (sample_mint 3) ''d'' (Some (blank_facts False)) ''a'' False ''op'' 9 sample_edges)))"
proof -
  have ok: "declare_dependency (sample_mint (length sample_edges)) ''d'' (Some (blank_facts False)) ''a'' False ''op'' 9 sample_edges
      = Inr (declare_edge (sample_mint 3) ''d'' ''a'' ''op'' 9 sample_edges)" by code_simp
  have "length sample_edges = 3" by code_simp
  with ok declaring_keeps_the_graph_acyclic
    [OF sample_edges_inv ok [unfolded declare_edge_def Let_def]]
  show ?thesis by (simp add: declare_edge_def Let_def)
qed

theorem cycle_refused_exactly_witness:
  "(''a'', ''c'') \<in> (standing_pairs sample_edges)\<^sup>*"
proof -
  have "declare_dependency ''i'' ''c'' (Some (blank_facts False)) ''a'' False ''op'' 9 sample_edges
      = Inl (DependencyWouldCloseCycle ''c'' ''a'')" by code_simp
  with cycle_refused_exactly [OF sample_edges_inv, of "''i''" "''c''" "Some (blank_facts False)" "''a''" False "''op''" 9]
  show ?thesis by blast
qed

theorem releasing_removes_the_pair_witness:
  "(''b'', ''c'') \<in> standing_pairs (release_outgoing ''a'' ''op'' 9 sample_edges)
     \<and> (''a'', ''b'') \<notin> standing_pairs (release_outgoing ''a'' ''op'' 9 sample_edges)"
proof -
  have "standing_pairs (release_outgoing ''a'' ''op'' 9 sample_edges) = {p \<in> standing_pairs sample_edges. fst p \<noteq> ''a''}"
    by (rule conjunct2 [OF conjunct2 [OF conjunct2 [OF
          releasing_removes_the_pair [OF sample_mint_inj sample_edges_inv, of "''a''" "''b''"]]]])
  then show ?thesis by (simp add: sample_pairs)
qed

theorem delete_leaves_no_edge_witness:
  "delete_edges ''c'' (Some (blank_facts False)) ''op'' 9 sample_edges = Inl (ChunkHasDependents ''c'' [''a'', ''b''])"
proof -
  note pairs = sample_pairs
  have "{a. (a, ''c'') \<in> standing_pairs sample_edges} = {''a'', ''b''}" unfolding pairs by auto
  moreover have "sorted_list_of_set {''a'', ''b''} = [''a'', ''b'']" by code_simp
  moreover have "admits (blank_facts False) VDelete" by code_simp
  ultimately show ?thesis
    using delete_leaves_no_edge [OF sample_edges_inv, of "''c''" "Some (blank_facts False)" "''op''" 9] pairs by auto
qed

end
