(* ===== verification/Fold_Laws.thy ===== *)
theory Fold_Laws
  imports Dependency_Laws
begin

text \<open>
  What grouping chunks does to the dependency table: the loop of \<open>plan_fold\<close> as an invariant, the rows
  \<open>record_fold\<close> writes, and the fold's contract: every standing edge of a folded chunk is carried to
  the survivor, at the earliest instant of the edges that meet there, and the fold is refused exactly
  when the carried edges would close a cycle.
\<close>

section \<open>The fold's loop\<close>

definition fold_start :: "dependency_edge list \<Rightarrow> ident set \<Rightarrow> fold_state" where
  "fold_start standing folded =
     \<lparr>fs_release = (\<lambda>_. []), fs_mint = (\<lambda>_. []),
      fs_unfolded = map_of (rev (map (\<lambda>e. (de_pair e, e)) (filter (\<lambda>e. \<not> touches folded e) standing))),
      fs_minted_pairs = {}, fs_superseded = {}\<rparr>"

text \<open>A folded edge wins its pair when no unfolded edge stood on it as early.\<close>

definition wins :: "(ident \<times> ident \<Rightarrow> dependency_edge option) \<Rightarrow> ident set \<Rightarrow> ident \<Rightarrow> dependency_edge \<Rightarrow> bool" where
  "wins unf folded survivor e \<longleftrightarrow>
     touches folded e \<and> fst (remap_pair folded survivor e) \<noteq> snd (remap_pair folded survivor e)
     \<and> (\<forall>u. unf (remap_pair folded survivor e) = Some u \<longrightarrow> de_declared_at e < de_declared_at u)"

definition all_released :: "ident list \<Rightarrow> fold_state \<Rightarrow> ident set" where
  "all_released ids st = (\<Union>k\<in>set ids. set (fs_release st k))"

definition all_minted :: "ident list \<Rightarrow> fold_state \<Rightarrow> fold_mint list" where
  "all_minted ids st = concat (map (fs_mint st) ids)"

lemma mset_append_at:
  assumes "distinct ids" and "k \<in> set ids"
  shows "mset (concat (map (append_at k v m) ids)) = add_mset v (mset (concat (map m ids)))"
  using assms
proof (induction ids)
  case (Cons a ids)
  show ?case
  proof (cases "a = k")
    case True
    with Cons.prems have "k \<notin> set ids" by simp
    then have "map (append_at k v m) ids = map m ids" by (auto simp: append_at_def)
    moreover have "append_at k v m k = m k @ [v]" by (simp add: append_at_def)
    ultimately show ?thesis using True by (simp del: map_eq_conv)
  next
    case False
    with Cons show ?thesis by (simp add: append_at_def)
  qed
qed simp

lemma set_append_at: "k \<in> set ids \<Longrightarrow> (\<Union>j\<in>set ids. set (append_at k v m j)) = insert v (\<Union>j\<in>set ids. set (m j))"
  by (auto simp: append_at_def split: if_splits)

definition earliest :: "ident list \<Rightarrow> ident \<Rightarrow> dependency_edge list \<Rightarrow> fold_mint \<Rightarrow> bool" where
  "earliest ids survivor es m \<longleftrightarrow>
     (\<exists>e\<in>set es. touches (set ids) e \<and> remap_pair (set ids) survivor e = fm_pair m \<and> fm_declared_at m = de_declared_at e
        \<and> (\<forall>x\<in>set es. touches (set ids) x \<and> remap_pair (set ids) survivor x = fm_pair m
              \<longrightarrow> de_declared_at e \<le> de_declared_at x))"

lemma earliest_snoc:
  assumes "earliest ids survivor es m" and "\<And>x. x \<in> set es \<Longrightarrow> de_declared_at x \<le> de_declared_at e"
  shows "earliest ids survivor (es @ [e]) m"
proof -
  from assms(1) obtain y where y: "y \<in> set es" "touches (set ids) y" "remap_pair (set ids) survivor y = fm_pair m"
      "fm_declared_at m = de_declared_at y"
      "\<forall>x\<in>set es. touches (set ids) x \<and> remap_pair (set ids) survivor x = fm_pair m \<longrightarrow> de_declared_at y \<le> de_declared_at x"
    unfolding earliest_def by blast
  with assms(2) [OF y(1)] show ?thesis unfolding earliest_def by (intro bexI [of _ y]) auto
qed

definition fold_inv ::
  "(ident \<times> ident \<Rightarrow> dependency_edge option) \<Rightarrow> ident list \<Rightarrow> ident \<Rightarrow> dependency_edge list \<Rightarrow> fold_state \<Rightarrow> bool" where
  "fold_inv unf ids survivor es st \<longleftrightarrow>
     fs_minted_pairs st = remap_pair (set ids) survivor ` {e \<in> set es. wins unf (set ids) survivor e}
     \<and> (\<forall>p. fs_unfolded st p = (if p \<in> fs_minted_pairs st then None else unf p))
     \<and> fs_superseded st = {de_dependency_id u |u p. p \<in> fs_minted_pairs st \<and> unf p = Some u}
     \<and> all_released ids st = de_dependency_id ` {e \<in> set es. touches (set ids) e} \<union> fs_superseded st
     \<and> distinct (map fm_pair (all_minted ids st)) \<and> fm_pair ` set (all_minted ids st) = fs_minted_pairs st
     \<and> (\<forall>m\<in>set (all_minted ids st). earliest ids survivor es m)"

lemma fold_invD:
  assumes "fold_inv unf ids survivor es st"
  shows "fs_minted_pairs st = remap_pair (set ids) survivor ` {e \<in> set es. wins unf (set ids) survivor e}"
    "\<forall>p. fs_unfolded st p = (if p \<in> fs_minted_pairs st then None else unf p)"
    "fs_superseded st = {de_dependency_id u |u p. p \<in> fs_minted_pairs st \<and> unf p = Some u}"
    "all_released ids st = de_dependency_id ` {e \<in> set es. touches (set ids) e} \<union> fs_superseded st"
    "distinct (map fm_pair (all_minted ids st))" "fm_pair ` set (all_minted ids st) = fs_minted_pairs st"
    "\<forall>m\<in>set (all_minted ids st). earliest ids survivor es m"
  using assms unfolding fold_inv_def by - (elim conjE, assumption)+

lemma fold_inv_step:
  assumes inv: "fold_inv unf ids survivor es st" and d: "distinct ids"
    and later: "\<And>x. x \<in> set es \<Longrightarrow> de_declared_at x \<le> de_declared_at e"
  shows "fold_inv unf ids survivor (es @ [e]) (fold_edge (set ids) survivor e st)"
proof (cases "touches (set ids) e")
  case False
  have snoc: "earliest ids survivor (es @ [e]) m" if "earliest ids survivor es m" for m
    using that by (rule earliest_snoc) (rule later)
  from False have same: "fold_edge (set ids) survivor e st = st" and nw: "\<not> wins unf (set ids) survivor e"
    by (simp_all add: fold_edge_def wins_def)
  have sets: "{x \<in> set (es @ [e]). wins unf (set ids) survivor x} = {x \<in> set es. wins unf (set ids) survivor x}"
      "{x \<in> set (es @ [e]). touches (set ids) x} = {x \<in> set es. touches (set ids) x}" using nw False by auto
  note i = fold_invD [OF inv]
  have "\<forall>m\<in>set (all_minted ids st). earliest ids survivor (es @ [e]) m" using i(7) snoc by blast
  then show ?thesis unfolding fold_inv_def same sets using i(1-6) by (intro conjI)
next
  case t: True
  have snoc: "earliest ids survivor (es @ [e]) m" if "earliest ids survivor es m" for m
    using that by (rule earliest_snoc) (rule later)
  let ?F = "set ids"
  define p where "p = remap_pair ?F survivor e"
  define owner where "owner = (if de_dependent e \<in> ?F then de_dependent e else de_prerequisite e)"
  have own: "owner \<in> ?F" using t by (auto simp: owner_def touches_def)
  define st1 where "st1 = st\<lparr>fs_release := append_at owner (de_dependency_id e) (fs_release st)\<rparr>"
  have rel1: "all_released ids st1 = insert (de_dependency_id e) (all_released ids st)"
    by (simp add: all_released_def st1_def set_append_at [OF own])
  have step: "fold_edge ?F survivor e st =
     (if fst p = snd p \<or> p \<in> fs_minted_pairs st then st1
      else case fs_unfolded st p of
        None \<Rightarrow> st1\<lparr>fs_minted_pairs := insert p (fs_minted_pairs st),
                 fs_mint := append_at owner \<lparr>fm_dependent = fst p, fm_prerequisite = snd p, fm_declared_at = de_declared_at e\<rparr> (fs_mint st)\<rparr>
      | Some x \<Rightarrow> if de_declared_at x \<le> de_declared_at e then st1
          else st1\<lparr>fs_release := append_at owner (de_dependency_id x) (fs_release st1),
                   fs_superseded := insert (de_dependency_id x) (fs_superseded st),
                   fs_unfolded := (fs_unfolded st)(p := None),
                   fs_minted_pairs := insert p (fs_minted_pairs st),
                   fs_mint := append_at owner \<lparr>fm_dependent = fst p, fm_prerequisite = snd p, fm_declared_at = de_declared_at e\<rparr> (fs_mint st)\<rparr>)"
    using t by (simp add: fold_edge_def Let_def p_def [symmetric] owner_def [symmetric] st1_def split: option.split)
  note i = fold_invD [OF inv]
  have unfp: "fs_unfolded st p = (if p \<in> fs_minted_pairs st then None else unf p)" using i(2) by blast
  show ?thesis
  proof (cases "wins unf ?F survivor e \<and> p \<notin> fs_minted_pairs st")
    case False
    have same: "fold_edge ?F survivor e st = st1"
    proof (cases "fst p = snd p \<or> p \<in> fs_minted_pairs st")
      case True
      then show ?thesis unfolding step by simp
    next
      case nt: False
      with False t obtain u where "unf p = Some u" "de_declared_at u \<le> de_declared_at e"
        by (auto simp: wins_def p_def not_less)
      with nt unfp show ?thesis unfolding step by simp
    qed
    have keep: "remap_pair ?F survivor ` {x \<in> set (es @ [e]). wins unf ?F survivor x}
        = remap_pair ?F survivor ` {x \<in> set es. wins unf ?F survivor x}"
      using False i(1) by (auto simp: p_def)
    have touched: "{x \<in> set (es @ [e]). touches ?F x} = insert e {x \<in> set es. touches ?F x}" using t by auto
    have parts: "fs_minted_pairs st1 = fs_minted_pairs st" "fs_unfolded st1 = fs_unfolded st"
        "fs_superseded st1 = fs_superseded st" "all_minted ids st1 = all_minted ids st"
      by (simp_all add: st1_def all_minted_def)
    have "all_released ids st1 = de_dependency_id ` {x \<in> set (es @ [e]). touches ?F x} \<union> fs_superseded st1"
      unfolding rel1 touched parts image_insert using i(4) by blast
    moreover have "\<forall>m\<in>set (all_minted ids st). earliest ids survivor (es @ [e]) m" using i(7) snoc by blast
    ultimately show ?thesis unfolding same fold_inv_def keep parts using i(1-3,5,6) by (intro conjI)
  next
    case True
    then have w: "wins unf ?F survivor e" and new: "p \<notin> fs_minted_pairs st" by auto
    then have np: "fst p \<noteq> snd p" by (simp add: wins_def p_def)
    let ?m = "\<lparr>fm_dependent = fst p, fm_prerequisite = snd p, fm_declared_at = de_declared_at e\<rparr>"
    have mp: "fm_pair ?m = p" by (simp add: fm_pair_def)
    define st2 where "st2 = fold_edge ?F survivor e st"
    have parts: "fs_minted_pairs st2 = insert p (fs_minted_pairs st)"
        "fs_mint st2 = append_at owner ?m (fs_mint st)"
        "\<forall>q. fs_unfolded st2 q = (if q = p then None else fs_unfolded st q)"
        "fs_superseded st2 = (case unf p of None \<Rightarrow> fs_superseded st | Some u \<Rightarrow> insert (de_dependency_id u) (fs_superseded st))"
        "all_released ids st2 = (case unf p of None \<Rightarrow> all_released ids st1
            | Some u \<Rightarrow> insert (de_dependency_id u) (all_released ids st1))"
      using w new np unfp unfolding st2_def step
      by (auto simp: wins_def p_def [symmetric] st1_def all_released_def set_append_at [OF own] not_le split: option.splits)
    have mset_m: "mset (all_minted ids st2) = add_mset ?m (mset (all_minted ids st))"
      unfolding all_minted_def parts(2) by (rule mset_append_at [OF d own])
    then have set_m: "set (all_minted ids st2) = insert ?m (set (all_minted ids st))"
      by (metis set_mset_add_mset_insert set_mset_mset)
    have "mset (map fm_pair (all_minted ids st2)) = mset (p # map fm_pair (all_minted ids st))"
      using arg_cong [OF mset_m, of "image_mset fm_pair"] mp by simp
    then have "distinct (map fm_pair (all_minted ids st2)) = distinct (p # map fm_pair (all_minted ids st))"
      by (rule mset_eq_imp_distinct_iff)
    then have dist: "distinct (map fm_pair (all_minted ids st2))" using i(5,6) new by auto
    have pairs: "fs_minted_pairs st2 = remap_pair ?F survivor ` {x \<in> set (es @ [e]). wins unf ?F survivor x}"
      using i(1) w by (auto simp: parts(1) p_def)
    have sup: "fs_superseded st2 = {de_dependency_id u |u q. q \<in> fs_minted_pairs st2 \<and> unf q = Some u}"
      using i(3) unfolding parts(1,4)
      by (cases "unf p") (auto simp del: split_paired_Ex)
    have rel: "all_released ids st2 = de_dependency_id ` {x \<in> set (es @ [e]). touches ?F x} \<union> fs_superseded st2"
      using i(4) t unfolding parts(4,5) rel1 by (cases "unf p") auto
    have first: "\<not> (touches ?F x \<and> remap_pair ?F survivor x = p)" if x: "x \<in> set es" for x
    proof
      assume "touches ?F x \<and> remap_pair ?F survivor x = p"
      moreover have "\<not> wins unf ?F survivor x \<or> remap_pair ?F survivor x \<noteq> p" using new i(1) x by auto
      ultimately obtain u where "unf p = Some u" "de_declared_at u \<le> de_declared_at x"
        using np by (auto simp: wins_def not_less)
      with w later [OF x] show False by (auto simp: wins_def p_def)
    qed
    have "earliest ids survivor (es @ [e]) ?m" using t first mp unfolding earliest_def by (auto simp: p_def)
    then have mints: "\<forall>m\<in>set (all_minted ids st2). earliest ids survivor (es @ [e]) m"
      using i(7) snoc unfolding set_m by blast
    have "fs_unfolded st2 q = (if q \<in> fs_minted_pairs st2 then None else unf q)" for q
      using spec [OF i(2), of q] spec [OF parts(3), of q] unfolding parts(1) by simp
    then have unfd: "\<forall>q. fs_unfolded st2 q = (if q \<in> fs_minted_pairs st2 then None else unf q)" by (rule allI)
    have img: "fm_pair ` set (all_minted ids st2) = fs_minted_pairs st2" using i(6) mp unfolding set_m parts(1) by auto
    show ?thesis unfolding st2_def [symmetric] fold_inv_def
      using pairs unfd sup rel dist img mints by (intro conjI)
  qed
qed

lemma fold_inv_fold:
  assumes "distinct ids" and "sorted (map de_declared_at es)" and "fold_inv unf ids survivor [] st"
  shows "fold_inv unf ids survivor es (fold (fold_edge (set ids) survivor) es st)"
  using assms(2)
proof (induction es rule: rev_induct)
  case Nil
  with assms(3) show ?case by simp
next
  case (snoc e es)
  then have "fold_inv unf ids survivor es (fold (fold_edge (set ids) survivor) es st)"
      "\<And>x. x \<in> set es \<Longrightarrow> de_declared_at x \<le> de_declared_at e"
    by (auto simp: sorted_append)
  from fold_inv_step [OF this(1) assms(1) this(2)] show ?case by simp
qed

lemma fold_inv_start: "fold_inv (fs_unfolded (fold_start standing F)) ids survivor [] (fold_start standing F)"
proof -
  have "all_minted ids (fold_start standing F) = []" by (simp add: all_minted_def fold_start_def)
  then show ?thesis by (simp add: fold_inv_def fold_start_def all_released_def)
qed

lemma list_standing_declared: "sorted (map de_declared_at (list_standing_edges rows))"
proof -
  have "sorted (map edge_order (list_standing_edges rows))" by (simp add: list_standing_edges_def)
  then have "sorted_wrt (\<lambda>x y. edge_order x \<le> edge_order y) (list_standing_edges rows)" by (simp add: sorted_map)
  then have "sorted_wrt (\<lambda>x y. de_declared_at x \<le> de_declared_at y) (list_standing_edges rows)"
    by (rule sorted_wrt_mono_rel [rotated]) (auto simp: edge_order_def less_eq_prod_def)
  then show ?thesis by (simp add: sorted_map)
qed

lemma list_standing_mset: "mset (list_standing_edges rows) = mset (filter edge_standing rows)"
  by (simp add: list_standing_edges_def)

lemma list_standing_pairs_distinct:
  assumes "distinct (map de_pair (filter edge_standing rows))"
  shows "distinct (map de_pair (list_standing_edges rows))"
proof -
  have "mset (map de_pair (list_standing_edges rows)) = mset (map de_pair (filter edge_standing rows))"
    by (simp add: list_standing_mset)
  with assms show ?thesis using mset_eq_imp_distinct_iff by blast
qed

lemma fold_start_unfolded:
  assumes "distinct (map de_pair (filter edge_standing rows))"
  shows "fs_unfolded (fold_start (list_standing_edges rows) F) p = Some u \<longleftrightarrow>
     u \<in> set rows \<and> edge_standing u \<and> \<not> touches F u \<and> de_pair u = p"
proof -
  let ?r = "filter (\<lambda>e. \<not> touches F e) (list_standing_edges rows)"
  have "distinct (map de_pair ?r)" by (rule distinct_map_filter) (rule list_standing_pairs_distinct [OF assms])
  then have "distinct (map fst (rev (map (\<lambda>e. (de_pair e, e)) ?r)))" by (simp add: rev_map [symmetric] comp_def)
  then have "map_of (rev (map (\<lambda>e. (de_pair e, e)) ?r)) p = Some u \<longleftrightarrow> (p, u) \<in> set (rev (map (\<lambda>e. (de_pair e, e)) ?r))"
    by (rule map_of_eq_Some_iff)
  also have "\<dots> \<longleftrightarrow> u \<in> set rows \<and> edge_standing u \<and> \<not> touches F u \<and> de_pair u = p" by auto
  finally show ?thesis by (simp add: fold_start_def)
qed

definition folded_state :: "dependency_edge list \<Rightarrow> ident \<Rightarrow> ident list \<Rightarrow> fold_state" where
  "folded_state standing survivor ids = fold (fold_edge (set ids) survivor) standing (fold_start standing (set ids))"

lemma plan_fold_state:
  "fp_release (plan_fold standing survivor ids) = fs_release (folded_state standing survivor ids)"
  "fp_mint (plan_fold standing survivor ids) = fs_mint (folded_state standing survivor ids)"
  "fp_remaining (plan_fold standing survivor ids) =
     filter (\<lambda>e. de_dependency_id e \<notin> fs_superseded (folded_state standing survivor ids))
       (filter (\<lambda>e. \<not> touches (set ids) e) standing)"
  unfolding plan_fold_def folded_state_def fold_start_def by (simp_all add: Let_def)

lemma folded_state_inv:
  assumes "distinct ids"
  shows "fold_inv (fs_unfolded (fold_start (list_standing_edges rows) (set ids))) ids survivor (list_standing_edges rows)
     (folded_state (list_standing_edges rows) survivor ids)"
  unfolding folded_state_def by (rule fold_inv_fold [OF assms list_standing_declared fold_inv_start])

text \<open>Where every pair of the table goes.\<close>

definition carried :: "ident set \<Rightarrow> ident \<Rightarrow> dependency_edge list \<Rightarrow> (ident \<times> ident) set" where
  "carried F survivor rows = {remap_pair F survivor e |e. e \<in> set rows \<and> edge_standing e} - Id"

lemma remap_untouched: "\<not> touches F e \<Longrightarrow> remap_pair F survivor e = de_pair e"
  by (simp add: remap_pair_def remap_def touches_def de_pair_def)

lemma acyclic_irrefl_pair: "acyclic R \<Longrightarrow> (a, a) \<notin> R"
  by (auto simp: acyclic_def)

text \<open>The pairs of the plan: an unfolded edge keeps its pair unless an earlier folded one takes it.\<close>

lemma fold_pairs:
  fixes survivor :: ident
  assumes inv: "dep_inv mint_id rows" and d: "distinct ids"
  defines "st \<equiv> folded_state (list_standing_edges rows) survivor ids"
  shows "de_pair ` {e \<in> set rows. edge_standing e \<and> \<not> touches (set ids) e} \<union> fs_minted_pairs st
    = carried (set ids) survivor rows"
proof -
  let ?F = "set ids" and ?unf = "fs_unfolded (fold_start (list_standing_edges rows) (set ids))"
  have dp: "distinct (map de_pair (filter edge_standing rows))" and ac: "acyclic (standing_pairs rows)"
    using inv by (simp_all add: dep_inv_def)
  note unf = fold_start_unfolded [OF dp, of ?F]
  have m: "fs_minted_pairs st = remap_pair ?F survivor ` {e \<in> set (list_standing_edges rows). wins ?unf ?F survivor e}"
    unfolding st_def by (rule fold_invD(1) [OF folded_state_inv [OF d]])
  show ?thesis
  proof (rule equalityI; rule subsetI)
    fix p assume "p \<in> de_pair ` {e \<in> set rows. edge_standing e \<and> \<not> touches ?F e} \<union> fs_minted_pairs st"
    then consider e where "e \<in> set rows" "edge_standing e" "\<not> touches ?F e" "p = de_pair e"
      | e where "e \<in> set rows" "edge_standing e" "wins ?unf ?F survivor e" "p = remap_pair ?F survivor e"
      unfolding m by auto
    then show "p \<in> carried ?F survivor rows"
    proof cases
      case (1 e)
      then have "p \<in> standing_pairs rows" by (auto simp: standing_pairs_def)
      then have "p \<notin> Id" using acyclic_irrefl_pair [OF ac] by auto
      moreover have "p = remap_pair ?F survivor e" using 1 remap_untouched by simp
      ultimately show ?thesis using 1 unfolding carried_def by blast
    next
      case (2 e)
      then show ?thesis unfolding carried_def wins_def by (cases p) auto
    qed
  next
    fix p assume "p \<in> carried ?F survivor rows"
    then obtain e where e: "e \<in> set rows" "edge_standing e" "p = remap_pair ?F survivor e" and nid: "p \<notin> Id"
      unfolding carried_def by blast
    from nid have np: "fst p \<noteq> snd p" by (cases p) simp
    show "p \<in> de_pair ` {e \<in> set rows. edge_standing e \<and> \<not> touches ?F e} \<union> fs_minted_pairs st"
    proof (cases "touches ?F e \<and> wins ?unf ?F survivor e")
      case True
      with e show ?thesis unfolding m by auto
    next
      case False
      then have "\<not> touches ?F e \<or> (\<exists>u. ?unf p = Some u)" using e np unfolding wins_def by auto
      then obtain u where "u \<in> set rows" "edge_standing u" "\<not> touches ?F u" "de_pair u = p"
        using e unf remap_untouched [of ?F e survivor] by auto
      then show ?thesis by blast
    qed
  qed
qed

section \<open>What the fold records\<close>

definition mint_row :: "ident \<Rightarrow> string \<Rightarrow> fold_mint \<Rightarrow> dependency_edge" where
  "mint_row i who m =
     \<lparr>de_dependency_id = i, de_dependent = fm_dependent m, de_prerequisite = fm_prerequisite m,
      de_declared_at = fm_declared_at m, de_declared_by = who, de_released_at = None, de_released_by = None\<rparr>"

definition minted_rows :: "(nat \<Rightarrow> ident) \<Rightarrow> string \<Rightarrow> nat \<Rightarrow> fold_mint list \<Rightarrow> dependency_edge list" where
  "minted_rows mint_id who n ms = map2 (\<lambda>i m. mint_row (mint_id i) who m) [n..<n + length ms] ms"

lemma minted_rows_append:
  "minted_rows mint_id who n (ms @ ks) = minted_rows mint_id who n ms @ minted_rows mint_id who (n + length ms) ks"
  by (simp add: minted_rows_def upt_add_eq_append [of n "n + length ms" "length ks", simplified add.assoc] add.assoc)

lemma insert_mints: "fold (insert_mint mint_id who) ms rows = rows @ minted_rows mint_id who (length rows) ms"
proof (induction ms rule: rev_induct)
  case (snoc m ms)
  then show ?case by (simp add: minted_rows_append) (simp add: insert_mint_def minted_rows_def mint_row_def)
qed (simp add: minted_rows_def)

lemma length_minted_rows [simp]: "length (minted_rows mint_id who n ms) = length ms"
  by (simp add: minted_rows_def)

lemma minted_rows_ids: "map de_dependency_id (minted_rows mint_id who n ms) = map mint_id [n..<n + length ms]"
  by (rule nth_equalityI) (simp_all add: minted_rows_def mint_row_def)

lemma minted_rows_pairs: "map de_pair (minted_rows mint_id who n ms) = map fm_pair ms"
  by (rule nth_equalityI) (simp_all add: minted_rows_def mint_row_def de_pair_def fm_pair_def)

lemma minted_rows_standing: "filter edge_standing (minted_rows mint_id who n ms) = minted_rows mint_id who n ms"
  by (rule filter_True) (auto simp: minted_rows_def mint_row_def edge_standing_def in_set_zip)

lemma minted_rows_declared:
  "e \<in> set (minted_rows mint_id who n ms) \<Longrightarrow> \<exists>m\<in>set ms. fm_pair m = de_pair e \<and> fm_declared_at m = de_declared_at e"
  by (auto simp: minted_rows_def mint_row_def de_pair_def fm_pair_def dest: set_zip_rightD)

lemma release_rows_twice:
  "release_rows P who at (release_rows Q who at rows) = release_rows (\<lambda>e. Q e \<or> P (if Q e then e\<lparr>de_released_at := Some at, de_released_by := Some who\<rparr> else e)) who at rows"
  by (auto simp: release_rows_def)

lemma release_rows_cong: "(\<And>e. e \<in> set rows \<Longrightarrow> P e = Q e) \<Longrightarrow> release_rows P who at rows = release_rows Q who at rows"
  by (auto simp: release_rows_def)

definition released_by_plan :: "fold_edge_plan \<Rightarrow> ident list \<Rightarrow> ident set" where
  "released_by_plan plan ids = (\<Union>k\<in>set ids. set (fp_release plan k))"

lemma record_fold_rows:
  assumes inj: "inj mint_id" and old: "released_by_plan plan targets \<subseteq> mint_id ` {..<length rows}"
  shows "record_fold mint_id plan targets who at rows =
     release_rows (\<lambda>e. de_dependency_id e \<in> released_by_plan plan targets) who at rows
       @ minted_rows mint_id who (length rows) (concat (map (fp_mint plan) targets))"
  using old
proof (induction targets rule: rev_induct)
  case Nil
  then show ?case by (simp add: record_fold_def released_by_plan_def release_rows_def minted_rows_def)
next
  case (snoc t ts)
  let ?ms = "concat (map (fp_mint plan) ts)" and ?at = "\<lambda>e. de_dependency_id e \<in> set (fp_release plan t)"
  have split: "released_by_plan plan (ts @ [t]) = released_by_plan plan ts \<union> set (fp_release plan t)"
    by (auto simp: released_by_plan_def)
  with snoc have IH: "record_fold mint_id plan ts who at rows =
      release_rows (\<lambda>e. de_dependency_id e \<in> released_by_plan plan ts) who at rows @ minted_rows mint_id who (length rows) ?ms"
    by simp
  have untouched: "\<not> ?at e" if "e \<in> set (minted_rows mint_id who (length rows) ?ms)" for e
  proof
    assume "?at e"
    then obtain k where k: "k < length rows" "de_dependency_id e = mint_id k" using snoc.prems split by auto
    have "de_dependency_id e \<in> set (map de_dependency_id (minted_rows mint_id who (length rows) ?ms))" using that by simp
    then obtain j where "length rows \<le> j" "de_dependency_id e = mint_id j" unfolding minted_rows_ids by auto
    with k inj show False by (metis injD leD)
  qed
  have "release_rows ?at who at (release_rows (\<lambda>e. de_dependency_id e \<in> released_by_plan plan ts) who at rows)
      = release_rows (\<lambda>e. de_dependency_id e \<in> released_by_plan plan (ts @ [t])) who at rows"
    unfolding release_rows_twice split by (rule release_rows_cong) auto
  moreover have "release_rows ?at who at (minted_rows mint_id who (length rows) ?ms) = minted_rows mint_id who (length rows) ?ms"
    unfolding release_rows_def using untouched by (intro map_idI) auto
  moreover have "release_rows ?at who at (xs @ ys) = release_rows ?at who at xs @ release_rows ?at who at ys" for xs ys
    by (simp add: release_rows_def)
  moreover have "record_fold mint_id plan (ts @ [t]) who at rows
      = record_fold_target mint_id plan who at t (record_fold mint_id plan ts who at rows)"
    by (simp add: record_fold_def)
  ultimately show ?case by (simp add: IH record_fold_target_def insert_mints minted_rows_append)
qed

section \<open>The fold\<close>

lemma dedup_distinct_targets: "distinct (merge_targets survivor merge_ids)" "survivor \<notin> set (merge_targets survivor merge_ids)"
  by (simp_all add: merge_targets_def)

lemma carried_no_folded:
  "survivor \<notin> F \<Longrightarrow> (a, b) \<in> carried F survivor rows \<Longrightarrow> a \<notin> F \<and> b \<notin> F"
  by (auto simp: carried_def remap_pair_def remap_def split: if_splits)


text \<open>Which rows the fold releases: those of a folded chunk, and those standing on a pair it mints.\<close>

lemma fold_releases:
  fixes survivor :: ident
  assumes inj: "inj mint_id" and inv: "dep_inv mint_id rows" and d: "distinct ids"
    and e: "e \<in> set rows" "edge_standing e"
  defines "st \<equiv> folded_state (list_standing_edges rows) survivor ids"
  shows "de_dependency_id e \<in> all_released ids st \<longleftrightarrow> touches (set ids) e \<or> de_pair e \<in> fs_minted_pairs st"
    and "\<not> touches (set ids) e \<Longrightarrow> de_dependency_id e \<in> fs_superseded st \<longleftrightarrow> de_pair e \<in> fs_minted_pairs st"
proof -
  let ?F = "set ids" and ?unf = "fs_unfolded (fold_start (list_standing_edges rows) (set ids))"
  have dp: "distinct (map de_pair (filter edge_standing rows))" using inv by (simp add: dep_inv_def)
  note unf = fold_start_unfolded [OF dp, of ?F] and same = dep_ids_unique [OF inj inv]
  note i = fold_invD [OF folded_state_inv [OF d, of rows survivor], folded st_def]
  have sup: "de_dependency_id e \<in> fs_superseded st \<longleftrightarrow> \<not> touches ?F e \<and> de_pair e \<in> fs_minted_pairs st"
  proof
    assume "de_dependency_id e \<in> fs_superseded st"
    then obtain u p where u: "de_dependency_id e = de_dependency_id u" "p \<in> fs_minted_pairs st" "?unf p = Some u"
      unfolding i(3) by blast
    then have "u \<in> set rows" "\<not> touches ?F u" "de_pair u = p" using unf by auto
    with same [OF e(1) _ u(1)] u(2) show "\<not> touches ?F e \<and> de_pair e \<in> fs_minted_pairs st" by simp
  next
    assume "\<not> touches ?F e \<and> de_pair e \<in> fs_minted_pairs st"
    moreover from this have "?unf (de_pair e) = Some e" using unf e by simp
    ultimately show "de_dependency_id e \<in> fs_superseded st" unfolding i(3) by blast
  qed
  then show "\<not> touches ?F e \<Longrightarrow> de_dependency_id e \<in> fs_superseded st \<longleftrightarrow> de_pair e \<in> fs_minted_pairs st"
    by simp
  have "de_dependency_id e \<in> de_dependency_id ` {x \<in> set (list_standing_edges rows). touches ?F x} \<longleftrightarrow> touches ?F e"
  proof
    assume "de_dependency_id e \<in> de_dependency_id ` {x \<in> set (list_standing_edges rows). touches ?F x}"
    then obtain x where "x \<in> set rows" "touches ?F x" "de_dependency_id e = de_dependency_id x" by auto
    with same [OF e(1)] show "touches ?F e" by blast
  qed (use e in auto)
  then show "de_dependency_id e \<in> all_released ids st \<longleftrightarrow> touches ?F e \<or> de_pair e \<in> fs_minted_pairs st"
    unfolding i(4) Un_iff sup by blast
qed

lemma released_are_old:
  assumes inv: "dep_inv mint_id rows" and d: "distinct ids"
  shows "all_released ids (folded_state (list_standing_edges rows) survivor ids) \<subseteq> mint_id ` {..<length rows}"
proof -
  let ?st = "folded_state (list_standing_edges rows) survivor ids"
  have dp: "distinct (map de_pair (filter edge_standing rows))" using inv by (simp add: dep_inv_def)
  note i = fold_invD [OF folded_state_inv [OF d, of rows survivor]]
  have "all_released ids ?st \<subseteq> de_dependency_id ` set rows"
    unfolding i(4) i(3) using fold_start_unfolded [OF dp, of "set ids"] by auto
  also have "\<dots> \<subseteq> mint_id ` {..<length rows}" using dep_ids_range [OF inv] by auto
  finally show ?thesis .
qed

definition folded_rows ::
  "(nat \<Rightarrow> ident) \<Rightarrow> ident \<Rightarrow> ident list \<Rightarrow> string \<Rightarrow> instant \<Rightarrow> dependency_edge list \<Rightarrow> dependency_edge list" where
  "folded_rows mint_id survivor ids who at rows =
     record_fold mint_id (plan_fold (list_standing_edges rows) survivor ids) ids who at rows"

lemma folded_rows_eq:
  fixes survivor :: ident
  assumes inj: "inj mint_id" and inv: "dep_inv mint_id rows" and d: "distinct ids"
  defines "st \<equiv> folded_state (list_standing_edges rows) survivor ids"
  shows "folded_rows mint_id survivor ids who at rows =
     release_rows (\<lambda>e. de_dependency_id e \<in> all_released ids st) who at rows
       @ minted_rows mint_id who (length rows) (all_minted ids st)"
proof -
  let ?plan = "plan_fold (list_standing_edges rows) survivor ids"
  have r: "released_by_plan ?plan ids = all_released ids st" and m: "concat (map (fp_mint ?plan) ids) = all_minted ids st"
    by (simp_all add: released_by_plan_def all_released_def all_minted_def plan_fold_state st_def)
  have "released_by_plan ?plan ids \<subseteq> mint_id ` {..<length rows}"
    unfolding r st_def by (rule released_are_old [OF inv d])
  from record_fold_rows [OF inj this, of who at] show ?thesis unfolding folded_rows_def r m .
qed

lemma folded_rows_standing:
  fixes survivor :: ident
  assumes inj: "inj mint_id" and inv: "dep_inv mint_id rows" and d: "distinct ids"
  defines "st \<equiv> folded_state (list_standing_edges rows) survivor ids"
  shows "filter edge_standing (folded_rows mint_id survivor ids who at rows) =
     filter (\<lambda>e. edge_standing e \<and> \<not> touches (set ids) e \<and> de_pair e \<notin> fs_minted_pairs st) rows
       @ minted_rows mint_id who (length rows) (all_minted ids st)"
proof -
  have "filter (\<lambda>e. edge_standing e \<and> de_dependency_id e \<notin> all_released ids st) rows
      = filter (\<lambda>e. edge_standing e \<and> \<not> touches (set ids) e \<and> de_pair e \<notin> fs_minted_pairs st) rows"
    by (rule filter_cong [OF refl])
      (use fold_releases(1) [OF inj inv d, of _ survivor, folded st_def] in blast)
  then show ?thesis
    by (simp add: folded_rows_eq [OF inj inv d, of survivor, folded st_def] release_rows_standing minted_rows_standing)
qed

lemma carried_image:
  "carried F survivor rows = map_prod (remap F survivor) (remap F survivor) ` standing_pairs rows - Id"
  by (force simp: carried_def standing_pairs_def remap_pair_def de_pair_def)

lemma folded_rows_pairs:
  assumes inj: "inj mint_id" and inv: "dep_inv mint_id rows" and d: "distinct ids"
  shows "standing_pairs (folded_rows mint_id survivor ids who at rows) = carried (set ids) survivor rows"
proof -
  define st where "st = folded_state (list_standing_edges rows) survivor ids"
  have img: "fm_pair ` set (all_minted ids st) = fs_minted_pairs st"
    using fold_invD(6) [OF folded_state_inv [OF d, of rows survivor]] by (simp add: st_def)
  have "standing_pairs (folded_rows mint_id survivor ids who at rows)
      = de_pair ` {e \<in> set rows. edge_standing e \<and> \<not> touches (set ids) e \<and> de_pair e \<notin> fs_minted_pairs st}
        \<union> set (map de_pair (minted_rows mint_id who (length rows) (all_minted ids st)))"
    unfolding standing_pairs_filter folded_rows_standing [OF inj inv d, of survivor who at, folded st_def] by auto
  also have "\<dots> = de_pair ` {e \<in> set rows. edge_standing e \<and> \<not> touches (set ids) e} \<union> fs_minted_pairs st"
    unfolding minted_rows_pairs set_map img by auto
  also have "\<dots> = carried (set ids) survivor rows"
    unfolding st_def by (rule fold_pairs [OF inv d])
  finally show ?thesis .
qed

lemma folded_rows_distinct:
  assumes inj: "inj mint_id" and inv: "dep_inv mint_id rows" and d: "distinct ids"
  shows "distinct (map de_pair (filter edge_standing (folded_rows mint_id survivor ids who at rows)))"
proof -
  define st where "st = folded_state (list_standing_edges rows) survivor ids"
  note i = fold_invD [OF folded_state_inv [OF d, of rows survivor], folded st_def]
  let ?keep = "filter (\<lambda>e. edge_standing e \<and> \<not> touches (set ids) e \<and> de_pair e \<notin> fs_minted_pairs st) rows"
  have "distinct (map de_pair (filter (\<lambda>e. \<not> touches (set ids) e \<and> de_pair e \<notin> fs_minted_pairs st) (filter edge_standing rows)))"
    using inv distinct_map_filter [of de_pair "filter edge_standing rows"] unfolding dep_inv_def by blast
  then have "distinct (map de_pair ?keep)" by (simp add: conj_ac)
  moreover have "set (map de_pair ?keep) \<inter> set (map fm_pair (all_minted ids st)) = {}"
    using i(6) by auto
  ultimately show ?thesis
    using i(5) unfolding folded_rows_standing [OF inj inv d, of survivor who at, folded st_def] map_append minted_rows_pairs
    by simp
qed

lemma folded_rows_ids:
  assumes inj: "inj mint_id" and inv: "dep_inv mint_id rows" and d: "distinct ids"
  shows "map de_dependency_id (folded_rows mint_id survivor ids who at rows)
     = map mint_id [0..<length (folded_rows mint_id survivor ids who at rows)]"
proof -
  have "map de_dependency_id rows = map mint_id [0..<length rows]" using inv by (simp add: dep_inv_def)
  then show ?thesis
    unfolding folded_rows_eq [OF inj inv d] map_append release_rows_ids minted_rows_ids
    by (simp add: upt_add_eq_append [of 0, simplified])
qed

lemma plan_group_refuses:
  assumes inj: "inj mint_id" and inv: "dep_inv mint_id rows" and d: "distinct ids"
  shows "plan_group (list_standing_edges rows) survivor ids =
     (if acyclic (carried (set ids) survivor rows) then Inr (plan_fold (list_standing_edges rows) survivor ids)
      else Inl (FoldWouldCloseCycle survivor ids))"
proof -
  define st where "st = folded_state (list_standing_edges rows) survivor ids"
  let ?plan = "plan_fold (list_standing_edges rows) survivor ids"
  have img: "fm_pair ` set (all_minted ids st) = fs_minted_pairs st"
    using fold_invD(6) [OF folded_state_inv [OF d, of rows survivor]] by (simp add: st_def)
  have "set (fp_remaining ?plan) =
      {e \<in> set rows. edge_standing e \<and> \<not> touches (set ids) e \<and> de_dependency_id e \<notin> fs_superseded st}"
    by (auto simp: plan_fold_state st_def)
  also have "\<dots> = {e \<in> set rows. edge_standing e \<and> \<not> touches (set ids) e \<and> de_pair e \<notin> fs_minted_pairs st}"
    using fold_releases(2) [OF inj inv d, of _ survivor, folded st_def] by blast
  finally have "de_pair ` set (fp_remaining ?plan) \<union> fs_minted_pairs st
      = de_pair ` {e \<in> set rows. edge_standing e \<and> \<not> touches (set ids) e} \<union> fs_minted_pairs st"
    by auto
  also have "\<dots> = carried (set ids) survivor rows" unfolding st_def by (rule fold_pairs [OF inv d])
  finally have "de_pair ` set (fp_remaining ?plan) \<union> fs_minted_pairs st = carried (set ids) survivor rows" .
  moreover have m: "concat (map (fp_mint ?plan) ids) = all_minted ids st"
    by (simp add: all_minted_def plan_fold_state st_def)
  ultimately show ?thesis unfolding plan_group_def Let_def m would_close_a_cycle_iff set_map img by simp
qed

lemma folded_rows_earliest:
  fixes survivor :: ident
  assumes inj: "inj mint_id" and inv: "dep_inv mint_id rows" and d: "distinct ids"
    and e: "e \<in> set (folded_rows mint_id survivor ids who at rows)" "edge_standing e"
  shows "de_declared_at e =
     Min (de_declared_at ` {x \<in> set rows. edge_standing x \<and> remap_pair (set ids) survivor x = de_pair e})"
proof -
  define st where "st = folded_state (list_standing_edges rows) survivor ids"
  let ?F = "set ids" and ?unf = "fs_unfolded (fold_start (list_standing_edges rows) (set ids))"
  let ?from = "{x \<in> set rows. edge_standing x \<and> remap_pair (set ids) survivor x = de_pair e}"
  have dp: "distinct (map de_pair (filter edge_standing rows))" and ac: "acyclic (standing_pairs rows)"
    using inv by (simp_all add: dep_inv_def)
  note unf = fold_start_unfolded [OF dp, of ?F]
  note i = fold_invD [OF folded_state_inv [OF d, of rows survivor], folded st_def]
  have "e \<in> set (filter edge_standing (folded_rows mint_id survivor ids who at rows))" using e by simp
  then consider (kept) "e \<in> set rows" "\<not> touches ?F e" "de_pair e \<notin> fs_minted_pairs st"
    | (minted) "e \<in> set (minted_rows mint_id who (length rows) (all_minted ids st))"
    unfolding folded_rows_standing [OF inj inv d, of survivor who at, folded st_def] by auto
  then have "\<exists>y\<in>?from. de_declared_at e = de_declared_at y \<and> (\<forall>x\<in>?from. de_declared_at y \<le> de_declared_at x)"
  proof cases
    case kept
    have "de_declared_at e \<le> de_declared_at x" if x: "x \<in> ?from" for x
    proof (cases "touches ?F x")
      case False
      then have "de_pair x = de_pair e" using x remap_untouched by auto
      with standing_unique [OF dp] kept e x have "x = e" by blast
      then show ?thesis by simp
    next
      case True
      have "de_pair e \<in> standing_pairs rows" using kept e by (auto simp: standing_pairs_def)
      then have np: "fst (de_pair e) \<noteq> snd (de_pair e)" using acyclic_irrefl_pair [OF ac] by (metis prod.collapse)
      have "\<not> wins ?unf ?F survivor x"
      proof
        assume "wins ?unf ?F survivor x"
        then have "remap_pair ?F survivor x \<in> fs_minted_pairs st" unfolding i(1) using x by (intro imageI) simp
        with kept x show False by simp
      qed
      with True x np obtain u where u: "?unf (de_pair e) = Some u" "de_declared_at u \<le> de_declared_at x"
        unfolding wins_def by (auto simp: not_less)
      moreover have "?unf (de_pair e) = Some e" using unf kept e by simp
      ultimately show ?thesis by simp
    qed
    moreover have "e \<in> ?from" using kept e remap_untouched by simp
    ultimately show ?thesis by blast
  next
    case minted
    from minted_rows_declared [OF minted] obtain m where m: "m \<in> set (all_minted ids st)" "fm_pair m = de_pair e"
        "fm_declared_at m = de_declared_at e" by blast
    with i(7) have "earliest ids survivor (list_standing_edges rows) m" by blast
    then obtain y where y: "y \<in> ?from" "touches ?F y" "de_declared_at e = de_declared_at y"
      and first: "\<And>x. x \<in> ?from \<Longrightarrow> touches ?F x \<Longrightarrow> de_declared_at y \<le> de_declared_at x"
      using m unfolding earliest_def by auto
    have "de_pair e \<in> fs_minted_pairs st" using m i(6) by force
    then obtain w where w: "w \<in> ?from" "wins ?unf ?F survivor w" unfolding i(1) by auto
    have "de_declared_at y \<le> de_declared_at x" if x: "x \<in> ?from" for x
    proof (cases "touches ?F x")
      case False
      then have "?unf (remap_pair ?F survivor w) = Some x" using unf x w remap_untouched by simp
      with w(2) have "de_declared_at w < de_declared_at x" "touches ?F w" unfolding wins_def by blast+
      with first [OF w(1)] show ?thesis by simp
    qed (rule first [OF x])
    with y show ?thesis by blast
  qed
  then obtain y where "y \<in> ?from" "de_declared_at e = de_declared_at y" "\<forall>x\<in>?from. de_declared_at y \<le> de_declared_at x"
    by blast
  then show ?thesis by (intro Min_eqI [symmetric]) auto
qed

text \<open>C38: Grouping chunks into a survivor carries their edges: afterwards the standing edges are exactly
  the old ones with every folded chunk replaced by the survivor and self-edges dropped, one edge
  a pair, each at the earliest instant of the edges that met there; it is refused exactly when
  those edges would close a cycle (the chunks have passed the status and project refusals that
  come before the fold).\<close>

theorem folding_carries_every_edge:
  assumes inj: "inj mint_id" and inv: "dep_inv mint_id rows"
  shows "(group_edges mint_id survivor merge_ids who at rows = Inl err \<longleftrightarrow>
        err = FoldWouldCloseCycle survivor (merge_targets survivor merge_ids)
        \<and> \<not> acyclic (carried (set merge_ids - {survivor}) survivor rows))
     \<and> (group_edges mint_id survivor merge_ids who at rows = Inr rows' \<longrightarrow>
        dep_inv mint_id rows' \<and> standing_pairs rows' = carried (set merge_ids - {survivor}) survivor rows
        \<and> standing_pairs rows' \<inter> {p. fst p \<in> set merge_ids - {survivor} \<or> snd p \<in> set merge_ids - {survivor}} = {}
        \<and> (\<forall>e\<in>set rows'. edge_standing e \<longrightarrow> de_declared_at e =
             Min (de_declared_at ` {x \<in> set rows. edge_standing x \<and>
               remap_pair (set merge_ids - {survivor}) survivor x = de_pair e})))"
proof -
  define ids where "ids = merge_targets survivor merge_ids"
  have d: "distinct ids" and F: "set ids = set merge_ids - {survivor}" by (auto simp: ids_def merge_targets_def)
  have g: "group_edges mint_id survivor merge_ids who at rows =
      (if acyclic (carried (set ids) survivor rows) then Inr (folded_rows mint_id survivor ids who at rows)
       else Inl (FoldWouldCloseCycle survivor ids))"
    by (simp add: group_edges_def Let_def ids_def [symmetric] plan_group_refuses [OF inj inv d] folded_rows_def)
  have pairs: "standing_pairs (folded_rows mint_id survivor ids who at rows) = carried (set ids) survivor rows"
    by (rule folded_rows_pairs [OF inj inv d])
  have inv': "dep_inv mint_id (folded_rows mint_id survivor ids who at rows)" if "acyclic (carried (set ids) survivor rows)"
    unfolding dep_inv_def pairs
    using that folded_rows_distinct [OF inj inv d] folded_rows_ids [OF inj inv d] by simp
  have none: "carried (set ids) survivor rows \<inter> {p. fst p \<in> set ids \<or> snd p \<in> set ids} = {}"
    using carried_no_folded [of survivor "set ids"] F by auto
  have early: "\<forall>e\<in>set (folded_rows mint_id survivor ids who at rows). edge_standing e \<longrightarrow> de_declared_at e =
      Min (de_declared_at ` {x \<in> set rows. edge_standing x \<and> remap_pair (set ids) survivor x = de_pair e})"
    using folded_rows_earliest [OF inj inv d] by blast
  show ?thesis
    unfolding g F [symmetric] ids_def [symmetric] using inv' pairs none early by (auto split: if_splits)
qed

section \<open>Witness\<close>

theorem folding_carries_every_edge_witness:
  "standing_pairs (projr (group_edges sample_mint ''b'' [''c''] ''op'' 9 sample_edges)) = {(''a'', ''b'')}"
proof -
  from sample_pairs have c: "carried (set [''c''] - {''b''}) ''b'' sample_edges = {(''a'', ''b'')}"
    unfolding carried_image by (auto simp: remap_def)
  let ?G = "group_edges sample_mint ''b'' [''c''] ''op'' 9 sample_edges"
  note fold = folding_carries_every_edge [OF sample_mint_inj sample_edges_inv, of "''b''" "[''c'']" "''op''" 9, unfolded c]
  have "acyclic {(''a'', ''b'')}" by (simp add: acyclic_insert wf_acyclic)
  then have "?G \<noteq> Inl err" for err using conjunct1 [OF fold, of err] by blast
  then obtain rows' where G: "?G = Inr rows'" by (cases ?G) blast+
  have "standing_pairs rows' = {(''a'', ''b'')}"
    by (rule conjunct1 [OF conjunct2 [OF mp [OF conjunct2 [OF fold] G]]])
  with G show ?thesis by simp
qed

end
