(* ===== verification/Fence.thy ===== *)
theory Fence
  imports Prelude
begin

text \<open>
  The write fence's vocabulary (\<open>hub/domain/chunk/ports/fence.py\<close>): which epochs a write accepts,
  who owns an epoch, whether a runner attempt owns the epoch it writes at, and whether a runner's
  lease mint may land.
\<close>

datatype epoch_admission = AdmitCurrent | AdmitAtOrAbove | AdmitAbove

fun admission_admits :: "epoch_admission \<Rightarrow> int \<Rightarrow> int \<Rightarrow> bool" where
  "admission_admits adm epoch newest =
     (if newest = 0 then True
      else case adm of
        AdmitCurrent \<Rightarrow> epoch = newest
      | AdmitAtOrAbove \<Rightarrow> epoch \<ge> newest
      | AdmitAbove \<Rightarrow> epoch > newest)"

text \<open>One constructor per way a \<open>FenceRefusal\<close> is built: the write's epoch, and the chunk's latest.\<close>

datatype fence_refusal =
    RefusedTerminal int
  | RefusedStale int int
  | RefusedDisplaced int int

text \<open>\<open>EpochOwner\<close>: the hub (\<open>None\<close>) or one runner.\<close>

type_synonym epoch_owner = "ident option"

record claimant =
  cl_runner_id :: ident
  cl_lease_id :: "ident option"

definition claimant_owns :: "claimant \<Rightarrow> epoch_owner option \<Rightarrow> ident option \<Rightarrow> bool" where
  "claimant_owns c owner owning_lease_id =
     (case owner of None \<Rightarrow> False
      | Some None \<Rightarrow> False
      | Some (Some runner_id) \<Rightarrow>
          if runner_id \<noteq> cl_runner_id c then False
          else owning_lease_id = None \<or> cl_lease_id c = None \<or> owning_lease_id = cl_lease_id c)"

record mint_admission =
  ma_epoch :: int
  ma_newest :: int
  ma_terminal :: bool
  ma_owner :: "epoch_owner option"
  ma_owning_lease_id :: "ident option"
  ma_holds_route :: bool

definition mint_refusal :: "mint_admission \<Rightarrow> claimant \<Rightarrow> fence_refusal option" where
  "mint_refusal m c =
     (if ma_terminal m then Some (RefusedTerminal (ma_epoch m))
      else if \<not> admission_admits AdmitAtOrAbove (ma_epoch m) (ma_newest m)
        then Some (RefusedStale (ma_epoch m) (ma_newest m))
      else if ma_owner m \<noteq> None then
        (if claimant_owns c (ma_owner m) (ma_owning_lease_id m) then None
         else Some (RefusedDisplaced (ma_epoch m) (ma_newest m)))
      else if ma_epoch m > ma_newest m \<and> ma_holds_route m then None
      else Some (RefusedDisplaced (ma_epoch m) (ma_newest m)))"

definition takes_ownership :: "mint_admission \<Rightarrow> bool" where
  "takes_ownership m \<longleftrightarrow> ma_owner m = None"

section \<open>Lemmas\<close>

lemma current_stale: "newest \<noteq> 0 \<Longrightarrow> epoch < newest \<Longrightarrow> \<not> admission_admits adm epoch newest"
  by (cases adm) auto

lemma claimant_owns_runner: "claimant_owns c owner lease \<Longrightarrow> owner = Some (Some (cl_runner_id c))"
  by (auto simp: claimant_owns_def split: option.splits if_splits)

text \<open>Two attempts that name different runners never own one epoch together.\<close>

lemma claimant_exclusive:
  "claimant_owns a owner la \<Longrightarrow> claimant_owns b owner lb \<Longrightarrow> cl_runner_id a = cl_runner_id b"
  by (auto dest!: claimant_owns_runner)

text \<open>An admitted mint is at or above the newest epoch, on a live chunk, and its runner owns the epoch
  or holds the live route above it.\<close>

lemma mint_admitted:
  assumes "mint_refusal m c = None"
  shows "\<not> ma_terminal m" and "ma_newest m = 0 \<or> ma_newest m \<le> ma_epoch m"
    and "claimant_owns c (ma_owner m) (ma_owning_lease_id m)
         \<or> (ma_owner m = None \<and> ma_newest m < ma_epoch m \<and> ma_holds_route m)"
  using assms by (auto simp: mint_refusal_def split: if_splits)

end
