(* ===== verification/Chunk_Rows.thy ===== *)
theory Chunk_Rows
  imports Chunk_Facts Fence
begin

text \<open>
  One chunk's rows in the store and the reads the adapters share
  (\<open>hub/store/internal/chunk_rows.py\<close>, \<open>chunk_terminal_predicates.py\<close>, \<open>chunk_fact_loading.py\<close>).
  A table is the list of the chunk's rows in insertion order; a write takes the row lock first, so
  every operation is one function from rows to rows. The lemmas relate the SQL reads to the domain
  derivations over the loaded facts.
\<close>

section \<open>Rows (\<open>schema.py\<close>)\<close>

record lease_row =
  lr_epoch :: int
  lr_runner_id :: ident
  lr_minted_at :: instant
  lr_lease_id :: "ident option"

record owner_row =
  ow_epoch :: int
  ow_owner :: epoch_owner
  ow_recorded_at :: instant

record transition_row =
  xr_transition_id :: ident
  xr_graph_id :: ident
  xr_from_node_id :: "ident option"
  xr_to_node_id :: ident
  xr_choice_name :: "ident option"
  xr_decision_id :: "ident option"
  xr_epoch :: int
  xr_runner_id :: ident
  xr_recorded_at :: instant

record migration_row =
  mr_migration_id :: ident
  mr_from_node_id :: "ident option"
  mr_from_graph_id :: ident
  mr_to_graph_id :: ident
  mr_landed_node_id :: "ident option"
  mr_choice_name :: "ident option"
  mr_decision_id :: "ident option"
  mr_model_after :: "string option"
  mr_epoch :: int
  mr_recorded_at :: instant
  mr_source :: "migration_source option"

record restart_row =
  sr_graph_id :: ident
  sr_from_node_id :: "ident option"
  sr_from_graph_id :: "ident option"
  sr_to_node_id :: ident
  sr_epoch :: int
  sr_decision_id :: "ident option"
  sr_restarted_by :: string
  sr_recorded_at :: instant
  sr_note :: "string option"

record route_row =
  wr_route_id :: ident
  wr_runner_id :: ident
  wr_workspace_id :: ident
  wr_created_at :: instant
  wr_seq :: int
  wr_environment_ids :: "ident list"

datatype release_cause = CauseDetach | CauseRetirement | CauseRelease

record released_row =
  wl_released_at :: instant
  wl_seq :: int
  wl_cause :: "release_cause option"
  wl_reason :: "string option"

record escalation_row =
  er_epoch :: int
  er_takeover_command :: string
  er_wrapped_takeover_command :: string
  er_decision_id :: "ident option"
  er_cause :: "string option"
  er_detail :: "string option"
  er_recorded_at :: instant

record stored_artifact =
  sa_kind :: artifact_kind
  sa_name :: string
  sa_data :: string
  sa_repo :: "string option"
  sa_forge :: "string option"
  sa_artifact_id :: ident
  sa_node_id :: ident
  sa_node_name :: ident
  sa_epoch :: int

record artifact_row =
  ar_artifact :: stored_artifact
  ar_produced_at :: instant
  ar_seq :: int

record work_ref =
  ref_source :: string
  ref_ref :: string

datatype close_outcome = CloseClosed | CloseGone | CloseSkipped | CloseFailed

record closure_row =
  cw_ref :: work_ref
  cw_outcome :: close_outcome
  cw_recorded_at :: instant

record close_intent_row =
  ci_ref :: work_ref
  ci_enqueued_at :: instant
  ci_retired_at :: "instant option"

record question_row =
  qr_question_id :: ident
  qr_node_id :: "ident option"
  qr_session_id :: "ident option"
  qr_harness_id :: "ident option"
  qr_runner_id :: ident
  qr_epoch :: int
  qr_question :: string
  qr_options :: "string list"
  qr_asked_at :: instant

record answer_row =
  aw_question_id :: ident
  aw_answer :: string
  aw_answered_by :: string
  aw_answered_at :: instant

record decision_choice =
  dch_name :: ident
  dch_description :: string
  dch_requires_checks :: bool

record decision_check =
  dck_command :: string
  dck_passed :: bool

record decision_row =
  dr_decision_id :: ident
  dr_node_id :: ident
  dr_node_name :: ident
  dr_epoch :: int
  dr_choices :: "decision_choice list"
  dr_check_results :: "decision_check list"
  dr_submitted_at :: instant
  dr_imposed_by_runner_id :: "ident option"

record resolution_row =
  rv_decision_id :: ident
  rv_choice :: ident
  rv_resolved_by :: string
  rv_resolved_at :: instant
  rv_overrode_red_checks :: bool
  rv_note :: "string option"

datatype migration_mode = ModeAuto | ModeForced

record intended_migration =
  im_mode :: migration_mode
  im_graph_id :: ident
  im_node_name :: "ident option"

definition intended_toward :: "ident \<Rightarrow> ident option \<Rightarrow> intended_migration" where
  "intended_toward gid landing =
     \<lparr>im_mode = (if landing \<noteq> None then ModeForced else ModeAuto), im_graph_id = gid, im_node_name = landing\<rparr>"

section \<open>The chunk's rows\<close>

record chunk_rows =
  ck_graph_id :: ident
  ck_default_model :: "string list"
  ck_intended_migration :: "intended_migration option"
  ck_work_refs :: "work_ref list"
  ck_ephemeral :: bool
  ck_leases :: "lease_row list"
  ck_owners :: "owner_row list"
  ck_transitions :: "transition_row list"
  ck_migrations :: "migration_row list"
  ck_restarts :: "restart_row list"
  ck_routes :: "route_row list"
  ck_released :: "released_row list"
  ck_tokens :: "route_token_fact list"
  ck_escalations :: "escalation_row list"
  ck_requeues :: "requeue_fact list"
  ck_bounces :: "bounce_fact list"
  ck_polls :: "hub_node_poll_fact list"
  ck_pauses :: "pause_fact list"
  ck_stopped :: "instant list"
  ck_completed :: "instant list"
  ck_promoted :: "instant list"
  ck_demoted :: "instant list"
  ck_artifacts :: "artifact_row list"
  ck_closures :: "closure_row list"
  ck_close_intents :: "close_intent_row list"
  ck_skip_events :: "(work_ref \<times> instant) list"
  ck_questions :: "question_row list"
  ck_answers :: "answer_row list"
  ck_deliveries :: "(ident \<times> instant) list"
  ck_decisions :: "decision_row list"
  ck_resolutions :: "resolution_row list"
  ck_delivery_landed :: bool
  ck_landed_repos :: "string list"

section \<open>Epochs\<close>

text \<open>\<open>max(column) or 0\<close>: no row, and a maximum of \<open>0\<close>, both read \<open>0\<close>.\<close>

definition col_max :: "int list \<Rightarrow> int" where
  "col_max xs = (if xs = [] then 0 else Max (set xs))"

definition latest_epoch :: "chunk_rows \<Rightarrow> int" where
  "latest_epoch s = max (max (col_max (map lr_epoch (ck_leases s))) (col_max (map sr_epoch (ck_restarts s))))
     (col_max (map ow_epoch (ck_owners s)))"

definition epoch_owner_of :: "chunk_rows \<Rightarrow> int \<Rightarrow> epoch_owner option" where
  "epoch_owner_of s epoch = map_option ow_owner (List.find (\<lambda>w. ow_epoch w = epoch) (ck_owners s))"

definition owning_lease_id :: "chunk_rows \<Rightarrow> int \<Rightarrow> ident option" where
  "owning_lease_id s epoch =
     (case List.find (\<lambda>l. lr_epoch l = epoch \<and> lr_lease_id l \<noteq> None) (ck_leases s) of
        None \<Rightarrow> None | Some l \<Rightarrow> lr_lease_id l)"

definition record_epoch_owner :: "int \<Rightarrow> epoch_owner \<Rightarrow> instant \<Rightarrow> chunk_rows \<Rightarrow> chunk_rows" where
  "record_epoch_owner epoch owner at s =
     (if epoch_owner_of s epoch \<noteq> None then s
      else s\<lparr>ck_owners := ck_owners s @ [\<lparr>ow_epoch = epoch, ow_owner = owner, ow_recorded_at = at\<rparr>]\<rparr>)"

definition record_hub_lease :: "int \<Rightarrow> ident \<Rightarrow> instant \<Rightarrow> chunk_rows \<Rightarrow> chunk_rows" where
  "record_hub_lease epoch runner_id at s =
     record_epoch_owner epoch None at
       (s\<lparr>ck_leases := ck_leases s @ [\<lparr>lr_epoch = epoch, lr_runner_id = runner_id, lr_minted_at = at, lr_lease_id = None\<rparr>]\<rparr>)"

section \<open>The terminal predicate\<close>

definition not_older :: "transition_row \<Rightarrow> instant \<Rightarrow> int \<Rightarrow> bool" where
  "not_older terminal at epoch \<longleftrightarrow>
     at > xr_recorded_at terminal \<or> (at = xr_recorded_at terminal \<and> epoch \<ge> xr_epoch terminal)"

definition unsuperseded_terminal :: "chunk_rows \<Rightarrow> transition_row \<Rightarrow> bool" where
  "unsuperseded_terminal s t \<longleftrightarrow>
     xr_to_node_id t = RESERVED_TERMINAL
     \<and> \<not> ((\<exists>x\<in>set (ck_transitions s). not_older t (xr_recorded_at x) (xr_epoch x)
              \<and> (xr_to_node_id x \<noteq> RESERVED_TERMINAL \<or> xr_recorded_at x > xr_recorded_at t))
          \<or> (\<exists>m\<in>set (ck_migrations s). not_older t (mr_recorded_at m) (mr_epoch m))
          \<or> (\<exists>r\<in>set (ck_restarts s). not_older t (sr_recorded_at r) (sr_epoch r)))"

definition done_by_transition :: "chunk_rows \<Rightarrow> bool" where
  "done_by_transition s \<longleftrightarrow> (\<exists>t\<in>set (ck_transitions s). unsuperseded_terminal s t)"

definition is_terminal :: "chunk_rows \<Rightarrow> bool" where
  "is_terminal s \<longleftrightarrow> ck_stopped s \<noteq> [] \<or> ck_completed s \<noteq> [] \<or> done_by_transition s"

section \<open>Routes\<close>

record route =
  route_runner_id :: ident
  route_workspace_id :: ident
  route_environment_ids :: "ident list"
  route_created_at :: instant
  route_route_id :: "ident option"

text \<open>The row no newer row beats; the dictionary built from the query keeps the last of a tie.\<close>

definition newest_row :: "('r \<Rightarrow> instant \<times> int) \<Rightarrow> 'r list \<Rightarrow> 'r option" where
  "newest_row key rows =
     (let unbeaten = filter (\<lambda>r. \<forall>x\<in>set rows. \<not> key r < key x) rows
      in if unbeaten = [] then None else Some (last unbeaten))"

definition wr_key :: "route_row \<Rightarrow> instant \<times> int" where
  "wr_key r = (wr_created_at r, wr_seq r)"

definition wl_key :: "released_row \<Rightarrow> instant \<times> int" where
  "wl_key r = (wl_released_at r, wl_seq r)"

definition created_fact :: "route_row \<Rightarrow> route_created_fact" where
  "created_fact r = \<lparr>rc_created_at = wr_created_at r, rc_seq = wr_seq r\<rparr>"

definition released_fact :: "released_row \<Rightarrow> route_released_fact" where
  "released_fact r = \<lparr>rr_released_at = wl_released_at r, rr_seq = wl_seq r\<rparr>"

definition route_of :: "chunk_rows \<Rightarrow> route option" where
  "route_of s =
     (case newest_row wr_key (ck_routes s) of None \<Rightarrow> None
      | Some row \<Rightarrow>
          let released = (case newest_row wl_key (ck_released s) of None \<Rightarrow> [] | Some rel \<Rightarrow> [released_fact rel])
          in if newest_route \<lparr>rh_created = [created_fact row], rh_released = released, rh_tokens_minted = []\<rparr> = None
             then None
             else Some \<lparr>route_runner_id = wr_runner_id row, route_workspace_id = wr_workspace_id row,
                        route_environment_ids = wr_environment_ids row, route_created_at = wr_created_at row,
                        route_route_id = Some (wr_route_id row)\<rparr>)"

definition next_route_seq :: "chunk_rows \<Rightarrow> int" where
  "next_route_seq s =
     max (max (col_max (map wr_seq (ck_routes s))) (col_max (map wl_seq (ck_released s))))
         (col_max (map rt_seq (ck_tokens s))) + 1"

definition next_artifact_seq :: "chunk_rows \<Rightarrow> int" where
  "next_artifact_seq s = col_max (map ar_seq (ck_artifacts s)) + 1"

section \<open>The fence\<close>

definition fence :: "chunk_rows \<Rightarrow> int \<Rightarrow> epoch_admission \<Rightarrow> claimant option \<Rightarrow> fence_refusal option" where
  "fence s epoch admission cl =
     (let newest = latest_epoch s in
      if is_terminal s then Some (RefusedTerminal epoch)
      else if \<not> admission_admits admission epoch newest then Some (RefusedStale epoch newest)
      else case cl of None \<Rightarrow> None
        | Some c \<Rightarrow> if \<not> claimant_owns c (epoch_owner_of s epoch) (owning_lease_id s epoch)
                   then Some (RefusedDisplaced epoch newest) else None)"

definition mint_admission_of :: "chunk_rows \<Rightarrow> int \<Rightarrow> ident \<Rightarrow> mint_admission" where
  "mint_admission_of s epoch runner_id =
     \<lparr>ma_epoch = epoch, ma_newest = latest_epoch s, ma_terminal = is_terminal s, ma_owner = epoch_owner_of s epoch,
      ma_owning_lease_id = owning_lease_id s epoch,
      ma_holds_route = (case route_of s of None \<Rightarrow> False | Some r \<Rightarrow> route_runner_id r = runner_id)\<rparr>"

section \<open>Artifacts and close intents\<close>

definition MARKER_PREFIX :: string where
  "MARKER_PREFIX = ''merged/''"

definition is_landed_revision :: "string \<Rightarrow> bool" where
  "is_landed_revision content \<longleftrightarrow> py_strip content \<noteq> []"

definition is_landing_marker :: "string \<Rightarrow> string \<Rightarrow> bool" where
  "is_landing_marker name data \<longleftrightarrow> starts_with MARKER_PREFIX name \<and> is_landed_revision data"

definition insert_artifact :: "instant \<Rightarrow> stored_artifact \<Rightarrow> chunk_rows \<Rightarrow> chunk_rows" where
  "insert_artifact at a s = s\<lparr>ck_artifacts := ck_artifacts s @
     [\<lparr>ar_artifact = a, ar_produced_at = at, ar_seq = next_artifact_seq s\<rparr>]\<rparr>"

record close_decision =
  cd_closable :: "work_ref set"
  cd_skipped :: "work_ref set"

definition decide_close_enqueue :: "work_ref list \<Rightarrow> (string \<Rightarrow> bool) \<Rightarrow> close_decision" where
  "decide_close_enqueue refs closer_available =
     \<lparr>cd_closable = {r \<in> set refs. closer_available (ref_source r)},
      cd_skipped = {r \<in> set refs. \<not> closer_available (ref_source r)}\<rparr>"

definition TERMINAL_CLOSE_OUTCOMES :: "close_outcome set" where
  "TERMINAL_CLOSE_OUTCOMES = {CloseClosed, CloseGone, CloseSkipped}"

text \<open>One work ref's turn in the loop: the refs with a terminal closure and those already enqueued are
  read once before it.\<close>

definition enqueue_one ::
  "work_ref set \<Rightarrow> work_ref set \<Rightarrow> close_decision \<Rightarrow> instant \<Rightarrow> work_ref \<Rightarrow> chunk_rows \<Rightarrow> chunk_rows" where
  "enqueue_one settled already decision at r s =
     (if r \<in> settled then s
      else if r \<in> cd_skipped decision then
        s\<lparr>ck_closures := ck_closures s @ [\<lparr>cw_ref = r, cw_outcome = CloseSkipped, cw_recorded_at = at\<rparr>],
          ck_close_intents := map (\<lambda>i. if ci_ref i = r \<and> ci_retired_at i = None
                                       then i\<lparr>ci_retired_at := Some at\<rparr> else i) (ck_close_intents s),
          ck_skip_events := ck_skip_events s @ [(r, at)]\<rparr>
      else if r \<notin> already then
        s\<lparr>ck_close_intents := ck_close_intents s @ [\<lparr>ci_ref = r, ci_enqueued_at = at, ci_retired_at = None\<rparr>]\<rparr>
      else s)"

text \<open>A decision that does not partition the chunk's refs raises, and the transaction is rolled back.\<close>

datatype store_error = CloseDecisionNotAPartition

definition enqueue_close_intents :: "instant \<Rightarrow> close_decision \<Rightarrow> chunk_rows \<Rightarrow> store_error + chunk_rows" where
  "enqueue_close_intents at decision s =
     (if ck_ephemeral s then Inr s
      else let refs = ck_work_refs s in
        if refs = [] then Inr s
        else if cd_closable decision \<inter> cd_skipped decision \<noteq> {}
                \<or> set refs \<noteq> cd_closable decision \<union> cd_skipped decision
          then Inl CloseDecisionNotAPartition
        else let settled = cw_ref ` {c \<in> set (ck_closures s). cw_outcome c \<in> TERMINAL_CLOSE_OUTCOMES};
                 already = ci_ref ` set (ck_close_intents s)
             in Inr (fold (enqueue_one settled already decision at) refs s))"

section \<open>Loading the facts (\<open>load_chunk_facts\<close>)\<close>

text \<open>\<open>executors\<close> is the \<open>graph_nodes\<close> table, keyed by graph and node id.\<close>

type_synonym executors = "ident \<times> ident \<Rightarrow> executor option"

definition executor_at :: "executors \<Rightarrow> ident \<Rightarrow> ident option \<Rightarrow> executor" where
  "executor_at executors gid nid =
     (case nid of None \<Rightarrow> ExecRunner
      | Some n \<Rightarrow> (case executors (gid, n) of None \<Rightarrow> ExecRunner | Some e \<Rightarrow> e))"

definition transition_of_row :: "executors \<Rightarrow> transition_row \<Rightarrow> transition_fact" where
  "transition_of_row ex t = \<lparr>tr_to_node_id = xr_to_node_id t,
     tr_to_node_executor = executor_at ex (xr_graph_id t) (Some (xr_to_node_id t)),
     tr_epoch = xr_epoch t, tr_recorded_at = xr_recorded_at t, tr_from_node_id = xr_from_node_id t,
     tr_choice_name = xr_choice_name t, tr_graph_id = Some (xr_graph_id t),
     tr_transition_id = Some (xr_transition_id t)\<rparr>"

definition migration_of_row :: "executors \<Rightarrow> migration_row \<Rightarrow> migration_fact" where
  "migration_of_row ex m = \<lparr>mg_from_node_id = mr_from_node_id m, mg_from_graph_id = mr_from_graph_id m,
     mg_to_graph_id = mr_to_graph_id m, mg_landed_node_id = mr_landed_node_id m,
     mg_choice_name = mr_choice_name m, mg_model = mr_model_after m, mg_epoch = mr_epoch m,
     mg_recorded_at = mr_recorded_at m,
     mg_landed_node_executor = executor_at ex (mr_to_graph_id m) (mr_landed_node_id m),
     mg_source = mr_source m, mg_migration_id = Some (mr_migration_id m)\<rparr>"

definition restart_of_row :: "executors \<Rightarrow> restart_row \<Rightarrow> restart_fact" where
  "restart_of_row ex r = \<lparr>rs_to_node_id = sr_to_node_id r, rs_from_node_id = sr_from_node_id r,
     rs_graph_id = sr_graph_id r, rs_epoch = sr_epoch r, rs_recorded_at = sr_recorded_at r,
     rs_from_graph_id = sr_from_graph_id r,
     rs_to_node_executor = executor_at ex (sr_graph_id r) (Some (sr_to_node_id r)),
     rs_restarted_by = sr_restarted_by r, rs_note = sr_note r, rs_decision_id = sr_decision_id r\<rparr>"

definition currently_promoted :: "chunk_rows \<Rightarrow> bool" where
  "currently_promoted s \<longleftrightarrow>
     (if ck_promoted s = [] then False
      else ck_demoted s = [] \<or> Max (set (ck_promoted s)) > Max (set (ck_demoted s)))"

definition resolved_ids :: "chunk_rows \<Rightarrow> ident set" where
  "resolved_ids s = rv_decision_id ` set (ck_resolutions s)
     \<union> set (List.map_filter sr_decision_id (ck_restarts s))"

definition decision_closure_ids :: "chunk_rows \<Rightarrow> ident set" where
  "decision_closure_ids s =
     set (List.map_filter xr_decision_id (ck_transitions s))
     \<union> set (List.map_filter mr_decision_id (ck_migrations s))
     \<union> set (List.map_filter er_decision_id (ck_escalations s))
     \<union> set (List.map_filter sr_decision_id (ck_restarts s))"

definition option_max :: "instant list \<Rightarrow> instant option" where
  "option_max xs = (if xs = [] then None else Some (Max (set xs)))"

definition load_facts :: "executors \<Rightarrow> chunk_rows \<Rightarrow> chunk_facts" where
  "load_facts ex s = \<lparr>
     cf_minted = True,
     cf_promoted = currently_promoted s,
     cf_stopped = (ck_stopped s \<noteq> []),
     cf_stopped_at = option_max (ck_stopped s),
     cf_operator_completed = (ck_completed s \<noteq> []),
     cf_operator_completed_at = option_max (ck_completed s),
     cf_delivery_landed = ck_delivery_landed s,
     cf_landed_repos = set (ck_landed_repos s),
     cf_escalations = map (\<lambda>(i, e). \<lparr>esc_epoch = er_epoch e, esc_recorded_at = er_recorded_at e,
        esc_takeover_command = er_takeover_command e,
        esc_wrapped_takeover_command = er_wrapped_takeover_command e,
        esc_cause = er_cause e, esc_detail = er_detail e, esc_id = Some (int i)\<rparr>)
        (List.enumerate 1 (ck_escalations s)),
     cf_leases = map (\<lambda>l. \<lparr>lease_epoch = lr_epoch l, lease_minted_at = lr_minted_at l\<rparr>) (ck_leases s),
     cf_epoch_owners = map (\<lambda>w. \<lparr>eo_epoch = ow_epoch w, eo_runner_id = ow_owner w\<rparr>) (ck_owners s),
     cf_transitions = map (transition_of_row ex) (ck_transitions s),
     cf_routes_created = map created_fact (ck_routes s),
     cf_routes_released = map released_fact (ck_released s),
     cf_route_tokens_minted = ck_tokens s,
     cf_questions = map (\<lambda>q. \<lparr>qf_question_id = qr_question_id q, qf_asked_at = qr_asked_at q,
        qf_answered = (qr_question_id q \<in> aw_question_id ` set (ck_answers s)), qf_epoch = Some (qr_epoch q)\<rparr>)
        (ck_questions s),
     cf_decisions = map (\<lambda>d. \<lparr>df_decision_id = dr_decision_id d, df_submitted_at = dr_submitted_at d,
        df_resolved = (dr_decision_id d \<in> resolved_ids s),
        df_closed = (dr_decision_id d \<in> decision_closure_ids s)\<rparr>) (ck_decisions s),
     cf_requeues = ck_requeues s,
     cf_migrations = map (migration_of_row ex) (ck_migrations s),
     cf_restarts = map (restart_of_row ex) (ck_restarts s),
     cf_pauses = ck_pauses s,
     cf_bounces = ck_bounces s,
     cf_hub_node_polls = ck_polls s\<rparr>"

section \<open>A freshly minted chunk\<close>

definition insert_chunk_rows :: "ident \<Rightarrow> string list \<Rightarrow> work_ref list \<Rightarrow> chunk_rows" where
  "insert_chunk_rows gid default_model refs = \<lparr>
     ck_graph_id = gid, ck_default_model = default_model, ck_intended_migration = None, ck_work_refs = refs,
     ck_ephemeral = False, ck_leases = [], ck_owners = [], ck_transitions = [], ck_migrations = [],
     ck_restarts = [], ck_routes = [], ck_released = [], ck_tokens = [], ck_escalations = [], ck_requeues = [],
     ck_bounces = [], ck_polls = [], ck_pauses = [], ck_stopped = [], ck_completed = [], ck_promoted = [],
     ck_demoted = [], ck_artifacts = [], ck_closures = [], ck_close_intents = [], ck_skip_events = [],
     ck_questions = [], ck_answers = [], ck_deliveries = [], ck_decisions = [], ck_resolutions = [],
     ck_delivery_landed = False,
     ck_landed_repos = []\<rparr>"

definition sample_row :: "ident \<Rightarrow> ident \<Rightarrow> int \<Rightarrow> instant \<Rightarrow> transition_row" where
  "sample_row from to epoch at = \<lparr>xr_transition_id = ''tr_1'', xr_graph_id = ''gr_1'', xr_from_node_id = Some from,
     xr_to_node_id = to, xr_choice_name = None, xr_decision_id = None, xr_epoch = epoch, xr_runner_id = ''rn_1'',
     xr_recorded_at = at\<rparr>"

definition finished_rows :: chunk_rows where
  "finished_rows = (insert_chunk_rows ''gr_1'' [] [])\<lparr>
     ck_transitions := [sample_row ''a'' ''b'' 1 10, sample_row ''b'' RESERVED_TERMINAL 1 20]\<rparr>"

end
