(* ===== verification/Chunk_Writes.thy ===== *)
theory Chunk_Writes
  imports Chunk_Rows
begin

text \<open>
  The writes of the chunk's store adapters (\<open>chunk_movement_store.py\<close>, \<open>chunk_route_store.py\<close>,
  \<open>chunk_escalations_store.py\<close>, \<open>chunk_hub_exec_store.py\<close>, \<open>chunk_lifecycle_store.py\<close>,
  \<open>chunk_decisions_store.py\<close>, \<open>chunk_queue_store.py\<close>, \<open>chunk_artifacts_store.py\<close>,
  \<open>chunk_questions_store.py\<close>), each as the function its one locked transaction computes. A keyword-argument list is a record; a raise rolls the transaction back and
  is \<open>Inl\<close>. The flow-submission tables a stop, completion or restart also closes rows in are not
  part of these rows.
\<close>

section \<open>Movement\<close>

record transition_write =
  tw_transition_id :: ident
  tw_from_node_id :: "ident option"
  tw_to_node_id :: ident
  tw_choice_name :: "ident option"
  tw_epoch :: int
  tw_admission :: epoch_admission
  tw_claimant :: "claimant option"
  tw_runner_id :: ident
  tw_at :: instant
  tw_artifacts :: "stored_artifact list"
  tw_close_decision :: close_decision
  tw_decision_id :: "ident option"

definition insert_transition :: "transition_write \<Rightarrow> chunk_rows \<Rightarrow> chunk_rows" where
  "insert_transition w s = s\<lparr>ck_transitions := ck_transitions s @
     [\<lparr>xr_transition_id = tw_transition_id w, xr_graph_id = ck_graph_id s, xr_from_node_id = tw_from_node_id w,
       xr_to_node_id = tw_to_node_id w, xr_choice_name = tw_choice_name w, xr_decision_id = tw_decision_id w,
       xr_epoch = tw_epoch w, xr_runner_id = tw_runner_id w, xr_recorded_at = tw_at w\<rparr>]\<rparr>"

definition insert_artifacts :: "instant \<Rightarrow> stored_artifact list \<Rightarrow> chunk_rows \<Rightarrow> chunk_rows" where
  "insert_artifacts at artifacts s = fold (insert_artifact at) artifacts s"

definition any_landing_marker :: "stored_artifact list \<Rightarrow> bool" where
  "any_landing_marker artifacts \<longleftrightarrow> (\<exists>a\<in>set artifacts. is_landing_marker (sa_name a) (sa_data a))"

text \<open>\<open>_record_transition_conn\<close>: \<open>Some r\<close> is the refusal, with nothing written.\<close>

definition record_transition ::
  "transition_write \<Rightarrow> chunk_rows \<Rightarrow> store_error + (fence_refusal option \<times> chunk_rows)" where
  "record_transition w s =
     (case fence s (tw_epoch w) (tw_admission w) (tw_claimant w) of
        Some refusal \<Rightarrow> Inr (Some refusal, s)
      | None \<Rightarrow>
          let s' = insert_artifacts (tw_at w) (tw_artifacts w) (insert_transition w s) in
          if tw_to_node_id w = RESERVED_TERMINAL \<or> any_landing_marker (tw_artifacts w)
          then map_sum id (\<lambda>s''. (None, s'')) (enqueue_close_intents (tw_at w) (tw_close_decision w) s')
          else Inr (None, s'))"

record migration_write =
  mw_migration_id :: ident
  mw_from_node_id :: "ident option"
  mw_from_graph_id :: ident
  mw_to_graph_id :: ident
  mw_landed_node_id :: "ident option"
  mw_choice_name :: "ident option"
  mw_decision_id :: "ident option"
  mw_model :: "string option"
  mw_epoch :: int
  mw_admission :: epoch_admission
  mw_claimant :: "claimant option"
  mw_at :: instant
  mw_artifacts :: "stored_artifact list"
  mw_close_decision :: close_decision
  mw_source :: migration_source
  mw_release_route :: bool
  mw_clear_intent :: bool

definition migration_exists :: "chunk_rows \<Rightarrow> ident option \<Rightarrow> int \<Rightarrow> bool" where
  "migration_exists s from_node_id epoch \<longleftrightarrow>
     (\<exists>m\<in>set (ck_migrations s). mr_from_node_id m = from_node_id \<and> mr_epoch m = epoch)"

definition insert_migration :: "migration_write \<Rightarrow> chunk_rows \<Rightarrow> chunk_rows" where
  "insert_migration w s = s\<lparr>ck_migrations := ck_migrations s @
     [\<lparr>mr_migration_id = mw_migration_id w, mr_from_node_id = mw_from_node_id w,
       mr_from_graph_id = mw_from_graph_id w, mr_to_graph_id = mw_to_graph_id w,
       mr_landed_node_id = mw_landed_node_id w, mr_choice_name = mw_choice_name w,
       mr_decision_id = mw_decision_id w, mr_model_after = mw_model w, mr_epoch = mw_epoch w,
       mr_recorded_at = mw_at w, mr_source = Some (mw_source w)\<rparr>],
     ck_graph_id := mw_to_graph_id w,
     ck_default_model := (case mw_model w of None \<Rightarrow> ck_default_model s | Some m \<Rightarrow> [m]),
     ck_intended_migration := (if mw_clear_intent w then None else ck_intended_migration s)\<rparr>"

definition insert_release :: "instant \<Rightarrow> release_cause option \<Rightarrow> string option \<Rightarrow> chunk_rows \<Rightarrow> chunk_rows" where
  "insert_release at cause reason s = s\<lparr>ck_released := ck_released s @
     [\<lparr>wl_released_at = at, wl_seq = next_route_seq s, wl_cause = cause, wl_reason = reason\<rparr>]\<rparr>"

datatype migration_outcome = AlreadyMigrated | MigrationRefused fence_refusal | Migrated ident

definition record_migration ::
  "migration_write \<Rightarrow> chunk_rows \<Rightarrow> store_error + (migration_outcome \<times> chunk_rows)" where
  "record_migration w s =
     (if migration_exists s (mw_from_node_id w) (mw_epoch w) then Inr (AlreadyMigrated, s)
      else case fence s (mw_epoch w) (mw_admission w) (mw_claimant w) of
        Some refusal \<Rightarrow> Inr (MigrationRefused refusal, s)
      | None \<Rightarrow>
          let s1 = insert_migration w s;
              s2 = (if mw_release_route w then insert_release (mw_at w) None None s1 else s1);
              s3 = insert_artifacts (mw_at w) (mw_artifacts w) s2
          in if any_landing_marker (mw_artifacts w)
             then map_sum id (\<lambda>s4. (Migrated (mw_migration_id w), s4))
                    (enqueue_close_intents (mw_at w) (mw_close_decision w) s3)
             else Inr (Migrated (mw_migration_id w), s3))"

record restart_write =
  sw_from_node_id :: "ident option"
  sw_to_node_id :: ident
  sw_by :: string
  sw_at :: instant
  sw_decision_id :: "ident option"
  sw_answered_question_ids :: "ident list"
  sw_answer :: string
  sw_to_graph_id :: "ident option"
  sw_note :: "string option"
  sw_migration_id :: ident

definition answer_superseded :: "string \<Rightarrow> string \<Rightarrow> instant \<Rightarrow> ident \<Rightarrow> chunk_rows \<Rightarrow> chunk_rows" where
  "answer_superseded answer by at question_id s =
     (if question_id \<in> aw_question_id ` set (ck_answers s) then s
      else s\<lparr>ck_answers := ck_answers s @
        [\<lparr>aw_question_id = question_id, aw_answer = answer, aw_answered_by = by, aw_answered_at = at\<rparr>]\<rparr>)"

definition repin_by_restart :: "restart_write \<Rightarrow> ident \<Rightarrow> int \<Rightarrow> chunk_rows \<Rightarrow> chunk_rows" where
  "repin_by_restart w to_graph_id epoch s = s\<lparr>ck_migrations := ck_migrations s @
     [\<lparr>mr_migration_id = sw_migration_id w, mr_from_node_id = sw_from_node_id w,
       mr_from_graph_id = ck_graph_id s, mr_to_graph_id = to_graph_id,
       mr_landed_node_id = Some (sw_to_node_id w), mr_choice_name = None, mr_decision_id = None,
       mr_model_after = None, mr_epoch = epoch, mr_recorded_at = sw_at w, mr_source = Some SrcRestart\<rparr>],
     ck_graph_id := to_graph_id, ck_intended_migration := None\<rparr>"

definition record_restart :: "restart_write \<Rightarrow> chunk_rows \<Rightarrow> chunk_rows" where
  "record_restart w s =
     (let epoch = latest_epoch s + 1;
          s1 = fold (answer_superseded (sw_answer w) (sw_by w) (sw_at w)) (sw_answered_question_ids w) s;
          from_graph_id = ck_graph_id s1;
          s2 = (case sw_to_graph_id w of None \<Rightarrow> s1 | Some g \<Rightarrow> repin_by_restart w g epoch s1);
          s3 = s2\<lparr>ck_restarts := ck_restarts s2 @
            [\<lparr>sr_graph_id = (case sw_to_graph_id w of None \<Rightarrow> from_graph_id | Some g \<Rightarrow> g),
              sr_from_node_id = sw_from_node_id w,
              sr_from_graph_id = (case sw_to_graph_id w of None \<Rightarrow> None | Some _ \<Rightarrow> Some from_graph_id),
              sr_to_node_id = sw_to_node_id w, sr_epoch = epoch, sr_decision_id = sw_decision_id w,
              sr_restarted_by = sw_by w, sr_recorded_at = sw_at w, sr_note = sw_note w\<rparr>]\<rparr>
      in record_epoch_owner epoch None (sw_at w) s3)"

definition record_requeue :: "instant \<Rightarrow> string option \<Rightarrow> string option \<Rightarrow> chunk_rows \<Rightarrow> chunk_rows" where
  "record_requeue at by note s = s\<lparr>ck_requeues := ck_requeues s @
     [\<lparr>rq_requeued_at = at, rq_requeued_by = by, rq_note = note\<rparr>]\<rparr>"

section \<open>Routes and leases\<close>

definition insert_token :: "string \<Rightarrow> instant \<Rightarrow> chunk_rows \<Rightarrow> chunk_rows" where
  "insert_token token_hash at s = s\<lparr>ck_tokens := ck_tokens s @
     [\<lparr>rt_token_hash = token_hash, rt_minted_at = at, rt_seq = next_route_seq s\<rparr>]\<rparr>"

definition record_route :: "ident \<Rightarrow> route \<Rightarrow> string \<Rightarrow> instant \<Rightarrow> chunk_rows \<Rightarrow> chunk_rows" where
  "record_route route_id r token_hash at s =
     (let s1 = s\<lparr>ck_routes := ck_routes s @
            [\<lparr>wr_route_id = route_id, wr_runner_id = route_runner_id r, wr_workspace_id = route_workspace_id r,
              wr_created_at = at, wr_seq = next_route_seq s, wr_environment_ids = route_environment_ids r\<rparr>]\<rparr>;
          s2 = insert_token token_hash at s1
      in record_epoch_owner (latest_epoch s2 + 1) (Some (route_runner_id r)) at s2)"

definition record_route_released ::
  "instant \<Rightarrow> release_cause option \<Rightarrow> string option \<Rightarrow> chunk_rows \<Rightarrow> chunk_rows" where
  "record_route_released at cause reason s = insert_release at cause reason s"

definition record_route_token :: "string \<Rightarrow> instant \<Rightarrow> chunk_rows \<Rightarrow> chunk_rows" where
  "record_route_token token_hash at s = insert_token token_hash at s"

definition record_lease_minted ::
  "int \<Rightarrow> claimant \<Rightarrow> instant \<Rightarrow> chunk_rows \<Rightarrow> fence_refusal option \<times> chunk_rows" where
  "record_lease_minted epoch c at s =
     (let admission = mint_admission_of s epoch (cl_runner_id c) in
      case mint_refusal admission c of
        Some refusal \<Rightarrow> (Some refusal, s)
      | None \<Rightarrow>
          let s1 = (if takes_ownership admission then record_epoch_owner epoch (Some (cl_runner_id c)) at s else s)
          in (None, s1\<lparr>ck_leases := ck_leases s1 @
               [\<lparr>lr_epoch = epoch, lr_runner_id = cl_runner_id c, lr_minted_at = at, lr_lease_id = cl_lease_id c\<rparr>]\<rparr>))"

section \<open>Hub steps, escalations and bounces\<close>

record hub_step_write =
  hw_from_node_id :: ident
  hw_to_node_id :: ident
  hw_choice_name :: ident
  hw_epoch :: int
  hw_admission :: epoch_admission
  hw_runner_id :: ident
  hw_transition_id :: ident
  hw_at :: instant
  hw_artifacts :: "stored_artifact list"
  hw_release_route :: bool
  hw_close_decision :: close_decision

definition transition_exists :: "chunk_rows \<Rightarrow> ident \<Rightarrow> int \<Rightarrow> bool" where
  "transition_exists s from_node_id epoch \<longleftrightarrow>
     (\<exists>t\<in>set (ck_transitions s). xr_from_node_id t = Some from_node_id \<and> xr_epoch t = epoch)"

definition hub_step_transition_row :: "hub_step_write \<Rightarrow> chunk_rows \<Rightarrow> transition_row" where
  "hub_step_transition_row w s =
     \<lparr>xr_transition_id = hw_transition_id w, xr_graph_id = ck_graph_id s, xr_from_node_id = Some (hw_from_node_id w),
      xr_to_node_id = hw_to_node_id w, xr_choice_name = Some (hw_choice_name w), xr_decision_id = None,
      xr_epoch = hw_epoch w, xr_runner_id = hw_runner_id w, xr_recorded_at = hw_at w\<rparr>"

definition record_hub_step_transition ::
  "hub_step_write \<Rightarrow> chunk_rows \<Rightarrow> store_error + (bool \<times> chunk_rows)" where
  "record_hub_step_transition w s =
     (if transition_exists s (hw_from_node_id w) (hw_epoch w) then Inr (False, s)
      else if fence s (hw_epoch w) (hw_admission w) None \<noteq> None then Inr (False, s)
      else
        let s1 = record_hub_lease (hw_epoch w) (hw_runner_id w) (hw_at w) s;
            s2 = s1\<lparr>ck_transitions := ck_transitions s1 @ [hub_step_transition_row w s1]\<rparr>;
            s3 = insert_artifacts (hw_at w) (hw_artifacts w) s2;
            s4 = (if hw_release_route w then insert_release (hw_at w) None None s3 else s3)
        in if hw_to_node_id w = RESERVED_TERMINAL \<or> any_landing_marker (hw_artifacts w)
           then map_sum id (\<lambda>s5. (True, s5)) (enqueue_close_intents (hw_at w) (hw_close_decision w) s4)
           else Inr (True, s4))"

definition record_hub_node_poll ::
  "ident \<Rightarrow> int \<Rightarrow> string \<Rightarrow> instant \<Rightarrow> instant option \<Rightarrow> chunk_rows \<Rightarrow> chunk_rows" where
  "record_hub_node_poll nid epoch kind at next_poll_at s =
     (let mine = filter (\<lambda>i. poll_node_id (ck_polls s ! i) = nid \<and> poll_epoch (ck_polls s ! i) = epoch)
                   [0..<length (ck_polls s)];
          fresh = s\<lparr>ck_polls := ck_polls s @ [\<lparr>poll_node_id = nid, poll_epoch = epoch, poll_polled_at = at,
                     poll_next_poll_at = next_poll_at, poll_kind = kind, poll_last_polled_at = None\<rparr>]\<rparr>
      in if kind = ''awaiting-merge'' \<and> mine \<noteq> [] \<and> poll_kind (ck_polls s ! last mine) = kind
         then s\<lparr>ck_polls := (ck_polls s)[last mine := (ck_polls s ! last mine)
                 \<lparr>poll_last_polled_at := Some at, poll_next_poll_at := next_poll_at\<rparr>]\<rparr>
         else fresh)"

record escalation_write =
  ew_epoch :: int
  ew_admission :: epoch_admission
  ew_claimant :: "claimant option"
  ew_takeover_command :: string
  ew_wrapped_takeover_command :: string
  ew_at :: instant
  ew_decision_id :: "ident option"
  ew_cause :: "string option"
  ew_detail :: "string option"

definition insert_escalation :: "escalation_write \<Rightarrow> chunk_rows \<Rightarrow> chunk_rows" where
  "insert_escalation w s = s\<lparr>ck_escalations := ck_escalations s @
     [\<lparr>er_epoch = ew_epoch w, er_takeover_command = ew_takeover_command w,
       er_wrapped_takeover_command = ew_wrapped_takeover_command w, er_decision_id = ew_decision_id w,
       er_cause = ew_cause w, er_detail = ew_detail w, er_recorded_at = ew_at w\<rparr>]\<rparr>"

definition record_escalation :: "escalation_write \<Rightarrow> chunk_rows \<Rightarrow> fence_refusal option \<times> chunk_rows" where
  "record_escalation w s =
     (case fence s (ew_epoch w) (ew_admission w) (ew_claimant w) of
        Some refusal \<Rightarrow> (Some refusal, s)
      | None \<Rightarrow> (None, insert_escalation w s))"

definition record_bounce ::
  "int \<Rightarrow> epoch_admission \<Rightarrow> string \<Rightarrow> string \<Rightarrow> instant \<Rightarrow> chunk_rows \<Rightarrow> bool \<times> chunk_rows" where
  "record_bounce epoch admission cause envelope at s =
     (if \<exists>b\<in>set (ck_bounces s). bn_epoch b = epoch then (False, s)
      else if fence s epoch admission None \<noteq> None then (False, s)
      else (True, s\<lparr>ck_bounces := ck_bounces s @
        [\<lparr>bn_epoch = epoch, bn_cause = cause, bn_envelope = envelope, bn_recorded_at = at\<rparr>]\<rparr>))"

datatype bounce_escalation_outcome = BounceAlreadyRecorded | BounceRefused | BounceRecorded

definition record_bounce_escalation ::
  "ident \<Rightarrow> escalation_write \<Rightarrow> chunk_rows \<Rightarrow> bounce_escalation_outcome \<times> chunk_rows" where
  "record_bounce_escalation runner_id w s =
     (if \<exists>e\<in>set (ck_escalations s). er_epoch e = ew_epoch w then (BounceAlreadyRecorded, s)
      else if fence s (ew_epoch w) (ew_admission w) None \<noteq> None then (BounceRefused, s)
      else (BounceRecorded,
            insert_escalation (w\<lparr>ew_wrapped_takeover_command := [], ew_decision_id := None\<rparr>)
              (record_hub_lease (ew_epoch w) runner_id (ew_at w) s)))"

section \<open>Decisions\<close>

record decision_write =
  dw_decision :: decision_row
  dw_admission :: epoch_admission
  dw_claimant :: "claimant option"
  dw_artifacts :: "stored_artifact list"
  dw_close_decision :: close_decision

definition record_decision ::
  "decision_write \<Rightarrow> chunk_rows \<Rightarrow> store_error + (fence_refusal option \<times> chunk_rows)" where
  "record_decision w s =
     (case fence s (dr_epoch (dw_decision w)) (dw_admission w) (dw_claimant w) of
        Some refusal \<Rightarrow> Inr (Some refusal, s)
      | None \<Rightarrow>
          let at = dr_submitted_at (dw_decision w);
              s' = insert_artifacts at (dw_artifacts w) (s\<lparr>ck_decisions := ck_decisions s @ [dw_decision w]\<rparr>)
          in if any_landing_marker (dw_artifacts w)
             then map_sum id (\<lambda>s''. (None, s'')) (enqueue_close_intents at (dw_close_decision w) s')
             else Inr (None, s'))"

definition decision_exists :: "chunk_rows \<Rightarrow> ident \<Rightarrow> int \<Rightarrow> bool" where
  "decision_exists s nid epoch \<longleftrightarrow> (\<exists>d\<in>set (ck_decisions s). dr_node_id d = nid \<and> dr_epoch d = epoch)"

datatype decision_outcome = DecisionExists | DecisionRecorded | DecisionRefused fence_refusal

definition record_decision_locked ::
  "decision_write \<Rightarrow> chunk_rows \<Rightarrow> store_error + (decision_outcome \<times> chunk_rows)" where
  "record_decision_locked w s =
     (if decision_exists s (dr_node_id (dw_decision w)) (dr_epoch (dw_decision w)) then Inr (DecisionExists, s)
      else map_sum id (\<lambda>(refusal, s').
             (case refusal of None \<Rightarrow> DecisionRecorded | Some r \<Rightarrow> DecisionRefused r, s')) (record_decision w s))"

definition record_decision_resolution :: "resolution_row \<Rightarrow> chunk_rows \<Rightarrow> bool \<times> chunk_rows" where
  "record_decision_resolution r s =
     (if rv_decision_id r \<in> rv_decision_id ` set (ck_resolutions s) then (False, s)
      else (True, s\<lparr>ck_resolutions := ck_resolutions s @ [r]\<rparr>))"

section \<open>Lifecycle and promotion\<close>

definition record_pause :: "bool \<Rightarrow> string \<Rightarrow> instant \<Rightarrow> chunk_rows \<Rightarrow> chunk_rows" where
  "record_pause paused by at s =
     s\<lparr>ck_pauses := ck_pauses s @ [\<lparr>pz_paused = paused, pz_set_at = at, pz_set_by = by\<rparr>]\<rparr>"

definition release_live_route :: "instant \<Rightarrow> chunk_rows \<Rightarrow> chunk_rows" where
  "release_live_route at s = (if route_of s \<noteq> None then insert_release at None None s else s)"

definition record_stop :: "instant \<Rightarrow> chunk_rows \<Rightarrow> chunk_rows" where
  "record_stop at s = release_live_route at (s\<lparr>ck_stopped := ck_stopped s @ [at]\<rparr>)"

definition record_completion :: "instant \<Rightarrow> close_decision \<Rightarrow> chunk_rows \<Rightarrow> store_error + chunk_rows" where
  "record_completion at decision s =
     enqueue_close_intents at decision (release_live_route at (s\<lparr>ck_completed := ck_completed s @ [at]\<rparr>))"

text \<open>\<open>after_newest\<close>: one microsecond past the opposing fact when the clock is not already past it.\<close>

definition after_newest :: "instant list \<Rightarrow> instant \<Rightarrow> instant" where
  "after_newest opposing at = (if opposing = [] then at else max at (Max (set opposing) + 1))"

definition record_promote :: "instant \<Rightarrow> chunk_rows \<Rightarrow> chunk_rows" where
  "record_promote at s =
     (if currently_promoted s then s
      else s\<lparr>ck_promoted := ck_promoted s @ [after_newest (ck_demoted s) at]\<rparr>)"

definition insert_promote_rows :: "instant \<Rightarrow> chunk_rows \<Rightarrow> chunk_rows" where
  "insert_promote_rows at s = s\<lparr>ck_promoted := ck_promoted s @ [after_newest (ck_demoted s) at]\<rparr>"

definition insert_demote_rows :: "instant \<Rightarrow> chunk_rows \<Rightarrow> chunk_rows" where
  "insert_demote_rows at s = s\<lparr>ck_demoted := ck_demoted s @ [after_newest (ck_promoted s) at]\<rparr>"

section \<open>Landings\<close>

record landing_write =
  lw_node_id :: ident
  lw_node_name :: ident
  lw_epoch :: int
  lw_admission :: epoch_admission
  lw_repo :: string
  lw_revision :: string
  lw_artifact_id :: ident
  lw_at :: instant
  lw_close_decision :: close_decision

definition write_landing_rows ::
  "landing_write \<Rightarrow> chunk_rows \<Rightarrow> store_error + ((bool \<times> bool) \<times> chunk_rows)" where
  "write_landing_rows w s =
     (let name = MARKER_PREFIX @ lw_repo w;
          refused = (fence s (lw_epoch w) (lw_admission w) None \<noteq> None)
      in if \<exists>a\<in>set (ck_artifacts s). sa_node_id (ar_artifact a) = lw_node_id w
              \<and> sa_epoch (ar_artifact a) = lw_epoch w \<and> sa_name (ar_artifact a) = name
         then Inr ((refused, False), s)
         else
           let s1 = insert_artifact (lw_at w)
                 \<lparr>sa_kind = Asset, sa_name = name, sa_data = lw_revision w, sa_repo = None, sa_forge = None,
                  sa_artifact_id = lw_artifact_id w, sa_node_id = lw_node_id w, sa_node_name = lw_node_name w,
                  sa_epoch = lw_epoch w\<rparr> s;
               s2 = s1\<lparr>ck_landed_repos := ck_landed_repos s1 @ [lw_repo w]\<rparr>
           in map_sum id (\<lambda>s3. ((refused, True), s3)) (enqueue_close_intents (lw_at w) (lw_close_decision w) s2))"

section \<open>Hub artifacts\<close>

record hub_artifact_write =
  ha_node_id :: ident
  ha_node_name :: ident
  ha_epoch :: int
  ha_admission :: epoch_admission
  ha_name :: string
  ha_content :: string
  ha_artifact_id :: ident
  ha_at :: instant
  ha_close_decision :: close_decision

definition has_hub_artifact :: "chunk_rows \<Rightarrow> ident \<Rightarrow> int \<Rightarrow> string \<Rightarrow> bool" where
  "has_hub_artifact s nid epoch name \<longleftrightarrow>
     (\<exists>a\<in>set (ck_artifacts s). sa_node_id (ar_artifact a) = nid \<and> sa_epoch (ar_artifact a) = epoch
        \<and> sa_name (ar_artifact a) = name)"

definition hub_artifact_of :: "hub_artifact_write \<Rightarrow> stored_artifact" where
  "hub_artifact_of w =
     \<lparr>sa_kind = Asset, sa_name = ha_name w, sa_data = ha_content w, sa_repo = None, sa_forge = None,
      sa_artifact_id = ha_artifact_id w, sa_node_id = ha_node_id w, sa_node_name = ha_node_name w, sa_epoch = ha_epoch w\<rparr>"

definition record_hub_artifact :: "hub_artifact_write \<Rightarrow> chunk_rows \<Rightarrow> store_error + (bool \<times> chunk_rows)" where
  "record_hub_artifact w s =
     (if has_hub_artifact s (ha_node_id w) (ha_epoch w) (ha_name w) then Inr (False, s)
      else if fence s (ha_epoch w) (ha_admission w) None \<noteq> None then Inr (False, s)
      else let s1 = insert_artifact (ha_at w) (hub_artifact_of w) s
           in if is_landing_marker (ha_name w) (ha_content w)
              then map_sum id (\<lambda>s2. (True, s2)) (enqueue_close_intents (ha_at w) (ha_close_decision w) s1)
              else Inr (True, s1))"

section \<open>Questions\<close>

text \<open>\<open>elsewhere\<close> holds the ids of the other chunks' questions, which share the table's key.\<close>

definition record_question ::
  "ident set \<Rightarrow> question_row \<Rightarrow> epoch_admission \<Rightarrow> claimant option \<Rightarrow> chunk_rows \<Rightarrow> fence_refusal option \<times> chunk_rows" where
  "record_question elsewhere q admission cl s =
     (if qr_question_id q \<in> elsewhere \<union> qr_question_id ` set (ck_questions s) then (None, s)
      else case fence s (qr_epoch q) admission cl of
        Some refusal \<Rightarrow> (Some refusal, s)
      | None \<Rightarrow> (None, s\<lparr>ck_questions := ck_questions s @ [q]\<rparr>))"

text \<open>An insert on a taken key fails in its savepoint, and the loser reads the winner.\<close>

definition answer_question :: "answer_row \<Rightarrow> chunk_rows \<Rightarrow> (bool \<times> answer_row) \<times> chunk_rows" where
  "answer_question a s =
     (case List.find (\<lambda>w. aw_question_id w = aw_question_id a) (ck_answers s) of
        Some winner \<Rightarrow> ((False, winner), s)
      | None \<Rightarrow> ((True, a), s\<lparr>ck_answers := ck_answers s @ [a]\<rparr>))"

definition record_answer_delivered :: "ident \<Rightarrow> instant \<Rightarrow> chunk_rows \<Rightarrow> chunk_rows" where
  "record_answer_delivered question_id at s = s\<lparr>ck_deliveries := ck_deliveries s @ [(question_id, at)]\<rparr>"

end
