(* ===== verification/Completion.thy ===== *)
theory Completion
  imports Chunk_Writes
begin

text \<open>
  The completion rules (\<open>hub/domain/execution/completion.py\<close>, \<open>submissions.py\<close>, \<open>auth\<close>, and the gate
  decision of \<open>hub/domain/chunk/model.py\<close>): what one node-step's completion does, decided on loaded
  values. A rule returns its decision or the refusal it raises; a refusal is a constructor carrying the
  values its message is formatted from.
\<close>

section \<open>Submissions\<close>

record completion_artifact =
  cx_name :: string
  cx_kind :: artifact_kind
  cx_forge :: "string option"
  cx_repo :: "string option"
  cx_branch_name :: "string option"
  cx_commit_hash :: "string option"
  cx_content :: "string option"
  cx_attached :: bool

record check_outcome =
  co_command :: string
  co_passed :: bool

record completion =
  cp_choice :: ident
  cp_epoch :: int
  cp_runner_id :: ident
  cp_from_node_id :: ident
  cp_check_results :: "check_outcome list"
  cp_artifacts :: "completion_artifact list"
  cp_decision_id :: "ident option"
  cp_route_token :: "string option"
  cp_lease_id :: "ident option"

record chunk =
  ch_chunk_id :: ident
  ch_graph_id :: ident
  ch_work_refs :: "work_ref list"
  ch_minted_at :: instant
  ch_default_model :: "string list"
  ch_default_effort :: "string option"
  ch_default_harnesses :: "string list"
  ch_intended_migration :: "intended_migration option"
  ch_project_id :: "ident option"

section \<open>The completion gates and the submission's authorization\<close>

definition covered_names :: "completion_artifact list \<Rightarrow> string set" where
  "covered_names artifacts = cx_name ` {a \<in> set artifacts. cx_attached a \<or> cx_kind a = GitCommit}"

definition unmet_specs :: "completion_artifact list \<Rightarrow> produces_spec list \<Rightarrow> produces_spec list" where
  "unmet_specs artifacts specs = filter (\<lambda>spec.
     if ps_kind spec = GitCommit then \<not> (\<exists>a\<in>set artifacts. cx_kind a = GitCommit)
     else ps_name spec \<notin> covered_names artifacts) specs"

definition checks_violated :: "bool \<Rightarrow> bool list \<Rightarrow> bool" where
  "checks_violated requires_checks passed \<longleftrightarrow> requires_checks \<and> False \<in> set passed"

text \<open>The names a submission leaves uncovered, when the brake enforces.\<close>

definition produces_rejection :: "bool \<Rightarrow> node \<Rightarrow> completion_artifact list \<Rightarrow> ident list option" where
  "produces_rejection enforce n artifacts =
     (let missing = map ps_name (unmet_specs artifacts (node_produces n))
      in if missing \<noteq> [] \<and> enforce then Some missing else None)"

datatype pointer_fault = RepoRequired | BranchRequired | BranchHasColon | NotAFullObjectName

definition or_empty :: "string option \<Rightarrow> string" where
  "or_empty s = (case s of None \<Rightarrow> [] | Some t \<Rightarrow> t)"

definition full_object_name :: "string \<Rightarrow> bool" where
  "full_object_name h \<longleftrightarrow> (length h = 40 \<or> length h = 64) \<and> set h \<subseteq> set ''0123456789abcdef''"

definition commit_pointer_fault :: "completion_artifact \<Rightarrow> pointer_fault option" where
  "commit_pointer_fault a =
     (if py_strip (or_empty (cx_repo a)) = [] then Some RepoRequired
      else if py_strip (or_empty (cx_branch_name a)) = [] then Some BranchRequired
      else if CHR '':'' \<in> set (or_empty (cx_branch_name a)) then Some BranchHasColon
      else if \<not> full_object_name (or_empty (cx_commit_hash a)) then Some NotAFullObjectName
      else None)"

fun commit_pointer_rejection :: "completion_artifact list \<Rightarrow> (string \<times> pointer_fault) option" where
  "commit_pointer_rejection [] = None"
| "commit_pointer_rejection (a # as) =
     (if cx_kind a \<noteq> GitCommit then commit_pointer_rejection as
      else case commit_pointer_fault a of None \<Rightarrow> commit_pointer_rejection as
        | Some fault \<Rightarrow> Some (cx_name a, fault))"

datatype route_token_failure = NoLiveRoute | TokenMismatch | NotTheRoutesRunner ident

text \<open>\<open>digest\<close> is the SHA-256 hex digest of a token's plaintext; under \<open>warn\<close> a failure is only logged.\<close>

definition route_token_rejection ::
  "(string \<Rightarrow> string) \<Rightarrow> bool \<Rightarrow> chunk_facts \<Rightarrow> string option \<Rightarrow> ident \<Rightarrow> ident option \<Rightarrow> route_token_failure option" where
  "route_token_rejection digest enforce facts presented runner_id holder =
     (let detail = (case newest_token (routes facts) of
          None \<Rightarrow> Some NoLiveRoute
        | Some live \<Rightarrow>
            if presented = None \<or> digest (the presented) \<noteq> rt_token_hash live then Some TokenMismatch
            else if Some runner_id \<noteq> holder then Some (NotTheRoutesRunner runner_id)
            else None)
      in if enforce then detail else None)"

section \<open>Gate decisions\<close>

record gate_decision =
  gd_decision_id :: ident
  gd_chunk_id :: ident
  gd_node_id :: ident
  gd_node_name :: ident
  gd_epoch :: int
  gd_choices :: "decision_choice list"
  gd_submitted_at :: instant
  gd_resolved_choice :: "ident option"
  gd_resolved_by :: "string option"
  gd_resolved_at :: "instant option"
  gd_transitioned :: bool
  gd_imposed_by_runner_id :: "ident option"
  gd_check_results :: "decision_check list"
  gd_overrode_red_checks :: bool
  gd_note :: "string option"

datatype gate_state = GateOpen | GateResolved | GateClosedUndecided
datatype gate_verdict = GateApply | GateReplay | GateRefuse

definition gd_resolved :: "gate_decision \<Rightarrow> bool" where
  "gd_resolved d \<longleftrightarrow> gd_resolved_choice d \<noteq> None"

definition gd_is_open :: "gate_decision \<Rightarrow> bool" where
  "gd_is_open d \<longleftrightarrow> \<not> gd_resolved d \<and> \<not> gd_transitioned d"

definition gd_closed_undecided :: "gate_decision \<Rightarrow> bool" where
  "gd_closed_undecided d \<longleftrightarrow> \<not> gd_resolved d \<and> gd_transitioned d"

definition gd_state :: "gate_decision \<Rightarrow> gate_state" where
  "gd_state d = (if gd_resolved d then GateResolved else if gd_transitioned d then GateClosedUndecided else GateOpen)"

fun GATE_RESOLVE_LEGALITY :: "gate_state \<Rightarrow> gate_verdict" where
  "GATE_RESOLVE_LEGALITY GateOpen = GateApply"
| "GATE_RESOLVE_LEGALITY GateResolved = GateReplay"
| "GATE_RESOLVE_LEGALITY GateClosedUndecided = GateRefuse"

definition resolve_verdict :: "gate_decision \<Rightarrow> gate_verdict" where
  "resolve_verdict d = GATE_RESOLVE_LEGALITY (gd_state d)"

datatype resolve_refusal =
    NotADecisionChoice ident "ident list"
  | ClosedByRestart ident
  | ClosedByChunk ident ident chunk_status

definition require_resolvable :: "gate_decision \<Rightarrow> ident \<Rightarrow> chunk_status \<Rightarrow> resolve_refusal option" where
  "require_resolvable d choice chunk_status =
     (if choice \<notin> dch_name ` set (gd_choices d) then Some (NotADecisionChoice choice (map dch_name (gd_choices d)))
      else case resolve_verdict d of
        GateReplay \<Rightarrow> None
      | GateRefuse \<Rightarrow> Some (ClosedByRestart (gd_decision_id d))
      | GateApply \<Rightarrow>
          if \<not> verb_legal_from VResolveDecision chunk_status
          then Some (ClosedByChunk (gd_decision_id d) (gd_chunk_id d) chunk_status) else None)"

definition overrides_red_checks :: "gate_decision \<Rightarrow> ident \<Rightarrow> bool" where
  "overrides_red_checks d choice =
     (case List.find (\<lambda>c. dch_name c = choice) (gd_choices d) of None \<Rightarrow> False
      | Some taken \<Rightarrow> checks_violated (dch_requires_checks taken) (map dck_passed (gd_check_results d)))"

section \<open>Refusals\<close>

datatype completion_refusal =
    CompletionNotAtCurrentNode ident ident int
  | ChunkEscalated int
  | OpenQuestion ident
  | HubExecutedNode ident
  | NoNodeInGraph ident ident
  | NoChoicesToGate ident
  | HumanSignoffRequired ident
  | GateDecisionOpen ident ident
  | GateResolutionUnapplied ident ident ident
  | NodeHasNoChoice ident ident
  | ChecksAreRed ident
  | ProducesMissing ident "ident list"
  | DecisionDoesNotMatch ident ident
  | DecisionOfAnotherVisit ident int int
  | DecisionNotYetResolved ident
  | NotTheResolvedChoice ident ident
  | GateHasNoChoice ident ident
  | RoutesToUnknownNode ident string
  | CommitPointerRefused string pointer_fault

definition resolving_refusal ::
  "gate_decision \<Rightarrow> ident \<Rightarrow> ident \<Rightarrow> ident \<Rightarrow> int \<Rightarrow> ident \<Rightarrow> completion_refusal option" where
  "resolving_refusal d chunk_id nid name epoch choice =
     (if gd_chunk_id d \<noteq> chunk_id \<or> gd_node_id d \<noteq> nid then Some (DecisionDoesNotMatch (gd_decision_id d) name)
      else if gd_epoch d \<noteq> epoch then Some (DecisionOfAnotherVisit (gd_decision_id d) (gd_epoch d) epoch)
      else case gd_resolved_choice d of
        None \<Rightarrow> Some (DecisionNotYetResolved (gd_decision_id d))
      | Some resolved \<Rightarrow> if choice \<noteq> resolved then Some (NotTheResolvedChoice choice resolved) else None)"

datatype escalation_cause =
    RetriesExhausted | OwnerUnresolvable | NoAcceptableHarness | SpendCap | BounceCap
  | MigrationTargetUnresolvable | HubActionMissing | HubActionStuck | UnroutableOutcome | ForgeAuth
  | ForgeConfig | ForgeCapabilityMissing | ChangeClosed | BranchProtected | MergeMethodRefused
  | ParkTimeout | CauseEscalateChoice

fun cause_value :: "escalation_cause \<Rightarrow> string" where
  "cause_value RetriesExhausted = ''retries-exhausted''"
| "cause_value OwnerUnresolvable = ''owner-unresolvable''"
| "cause_value NoAcceptableHarness = ''no-acceptable-harness''"
| "cause_value SpendCap = ''spend-cap''"
| "cause_value BounceCap = ''bounce-cap''"
| "cause_value MigrationTargetUnresolvable = ''migration-target-unresolvable''"
| "cause_value HubActionMissing = ''hub-action-missing''"
| "cause_value HubActionStuck = ''hub-action-stuck''"
| "cause_value UnroutableOutcome = ''unroutable-outcome''"
| "cause_value ForgeAuth = ''forge-auth''"
| "cause_value ForgeConfig = ''forge-config''"
| "cause_value ForgeCapabilityMissing = ''forge-capability-missing''"
| "cause_value ChangeClosed = ''change-closed''"
| "cause_value BranchProtected = ''branch-protected''"
| "cause_value MergeMethodRefused = ''merge-method-refused''"
| "cause_value ParkTimeout = ''park-timeout''"
| "cause_value CauseEscalateChoice = ''escalate-choice''"

text \<open>\<open>UnresolvableTarget\<close> and \<open>EscalateChoice\<close>: what the hub's own escalation records.\<close>

record escalation_draft =
  ed_takeover_command :: string
  ed_detail :: string
  ed_cause :: escalation_cause

definition dash :: string where
  "dash = [CHR 0x20, CHR 0xE2, CHR 0x80, CHR 0x94, CHR 0x20]"

definition UnresolvableTarget_of :: "edge \<Rightarrow> escalation_draft" where
  "UnresolvableTarget_of e =
     (let target = (case edge_target_graph e of None \<Rightarrow> ''None'' | Some g \<Rightarrow> g) in
      \<lparr>ed_takeover_command = ''cross-graph target `'' @ target @ ''` names no enabled graph'' @ dash
         @ ''mint a graph named `'' @ target @ ''` (or edit the choice), then requeue this chunk'',
       ed_detail = ''cross-graph target graph `'' @ target @ ''` names no enabled graph'',
       ed_cause = MigrationTargetUnresolvable\<rparr>)"

definition EscalateChoice_of :: "node \<Rightarrow> ident \<Rightarrow> escalation_draft" where
  "EscalateChoice_of n choice =
     \<lparr>ed_takeover_command = ''node `'' @ node_name n @ ''` escalated through choice `'' @ choice @ ''`'' @ dash
         @ ''read the assets it produced, then requeue this chunk with a note that settles it'',
      ed_detail = ''node `'' @ node_name n @ ''` took choice `'' @ choice @ ''`, which escalates for a human'',
      ed_cause = CauseEscalateChoice\<rparr>"

definition HUB_AUTHORED_ESCALATIONS :: "string option set" where
  "HUB_AUTHORED_ESCALATIONS = {Some (cause_value MigrationTargetUnresolvable), Some (cause_value CauseEscalateChoice)}"

definition refuse_incoherent_attempt ::
  "chunk_facts \<Rightarrow> graph \<Rightarrow> node \<Rightarrow> int \<Rightarrow> bool \<Rightarrow> completion_refusal option" where
  "refuse_incoherent_attempt facts g from_node epoch re_escalating =
     (let elsewhere = (if epoch \<noteq> epoch_floor facts then None
          else case current_node facts g of None \<Rightarrow> None
            | Some current \<Rightarrow> if node_id current \<noteq> node_id from_node then Some current else None)
      in case elsewhere of
        Some current \<Rightarrow> Some (CompletionNotAtCurrentNode (node_name from_node) (node_name current) epoch)
      | None \<Rightarrow>
          if (case open_escalation_at facts epoch of None \<Rightarrow> False
              | Some e \<Rightarrow> \<not> (re_escalating \<and> esc_cause e \<in> HUB_AUTHORED_ESCALATIONS))
          then Some (ChunkEscalated epoch)
          else case open_questions_at facts epoch of [] \<Rightarrow> None
            | q # _ \<Rightarrow> Some (OpenQuestion (qf_question_id q)))"

section \<open>Migration targets\<close>

record migration_targets =
  mt_cross_graph :: "graph option"
  mt_intended :: "graph option"
  mt_follow_latest :: "graph option"

definition MigrationTargets_of ::
  "chunk \<Rightarrow> graph \<Rightarrow> graph option \<Rightarrow> graph option \<Rightarrow> bool \<Rightarrow> bool \<Rightarrow> graph option \<Rightarrow> migration_targets" where
  "MigrationTargets_of c g cross_graph intent_graph intent_retired follow_latest newest_same_name =
     \<lparr>mt_cross_graph = cross_graph,
      mt_intended = (case (ch_intended_migration c, intent_graph) of
          (Some _, Some ig) \<Rightarrow>
            if targetable \<lparr>gs_graph = ig, gs_retired = intent_retired\<rparr> then intent_graph else None
        | _ \<Rightarrow> None),
      mt_follow_latest = (if ch_intended_migration c = None
        then follow_latest_target follow_latest g newest_same_name else None)\<rparr>"

definition re_escalates ::
  "chunk_facts \<Rightarrow> edge option \<Rightarrow> migration_targets \<Rightarrow> int \<Rightarrow> escalation_draft option \<Rightarrow> bool" where
  "re_escalates facts e targets epoch taken =
     (let same = (\<lambda>draft. case open_escalation_at facts epoch of None \<Rightarrow> False
            | Some esc \<Rightarrow> esc_cause esc = Some (cause_value (ed_cause draft)) \<and> esc_detail esc = Some (ed_detail draft))
      in case e of None \<Rightarrow> False
        | Some ed \<Rightarrow>
            if edge_escalates ed
            then (case taken of None \<Rightarrow> False
                  | Some draft \<Rightarrow> (case open_escalation_at facts epoch of None \<Rightarrow> False
                      | Some esc \<Rightarrow> esc_cause esc = Some (cause_value CauseEscalateChoice)
                                  \<and> esc_detail esc = Some (ed_detail draft)))
            else if edge_target_graph ed = None \<or> mt_cross_graph targets \<noteq> None then False
            else same (UnresolvableTarget_of ed))"

definition refuse_hub_executed :: "node \<Rightarrow> completion_refusal option" where
  "refuse_hub_executed n = (if node_executor n = ExecHub then Some (HubExecutedNode (node_name n)) else None)"

definition gate_refusal :: "graph \<Rightarrow> ident \<Rightarrow> completion_refusal + node" where
  "gate_refusal g from_node_id =
     (case node_by_id g from_node_id of None \<Rightarrow> Inl (NoNodeInGraph from_node_id (graph_id g))
      | Some n \<Rightarrow> if node_choices n = [] then Inl (NoChoicesToGate (node_name n)) else Inr n)"

definition decision_choices :: "node \<Rightarrow> decision_choice list" where
  "decision_choices n = map (\<lambda>c. \<lparr>dch_name = choice_name c, dch_description = choice_description c,
     dch_requires_checks = choice_requires_checks c\<rparr>) (node_choices n)"

section \<open>The plan\<close>

definition Destination_of :: "graph \<Rightarrow> edge \<Rightarrow> ident option" where
  "Destination_of g e =
     (if edge_to_node_name e = RESERVED_TERMINAL then Some RESERVED_TERMINAL
      else map_option node_id (node_by_name g (edge_to_node_name e)))"

record completion_plan =
  pl_edge :: edge
  pl_to_node_id :: "ident option"

definition pl_escalates :: "completion_plan \<Rightarrow> bool" where
  "pl_escalates p \<longleftrightarrow> edge_escalates (pl_edge p)"

definition pl_migrates :: "completion_plan \<Rightarrow> bool" where
  "pl_migrates p \<longleftrightarrow> pl_to_node_id p = None \<and> \<not> edge_escalates (pl_edge p)"

definition plan_edge :: "graph \<Rightarrow> edge \<Rightarrow> ident \<Rightarrow> completion_refusal + completion_plan" where
  "plan_edge g e choice =
     (if edge_target_graph e \<noteq> None \<or> edge_escalates e then Inr \<lparr>pl_edge = e, pl_to_node_id = None\<rparr>
      else case Destination_of g e of
        None \<Rightarrow> Inl (RoutesToUnknownNode choice (edge_to_node_name e))
      | Some nid \<Rightarrow> Inr \<lparr>pl_edge = e, pl_to_node_id = Some nid\<rparr>)"

definition open_gate_refusal :: "node \<Rightarrow> gate_decision option \<Rightarrow> completion_refusal option" where
  "open_gate_refusal from_node open_gate =
     (case open_gate of None \<Rightarrow> None
      | Some d \<Rightarrow>
          if gd_is_open d then Some (GateDecisionOpen (gd_decision_id d) (node_name from_node))
          else if gd_resolved d \<and> \<not> gd_transitioned d
            then Some (GateResolutionUnapplied (gd_decision_id d) (node_name from_node) (the (gd_resolved_choice d)))
          else None)"

definition red_check :: "node \<Rightarrow> completion \<Rightarrow> bool" where
  "red_check n sub \<longleftrightarrow>
     (case List.find (\<lambda>c. choice_name c = cp_choice sub) (node_choices n) of None \<Rightarrow> False
      | Some selected \<Rightarrow> checks_violated (choice_requires_checks selected) (map co_passed (cp_check_results sub)))"

definition plain_plan ::
  "bool \<Rightarrow> graph \<Rightarrow> node \<Rightarrow> completion \<Rightarrow> gate_decision option \<Rightarrow> completion_refusal + completion_plan" where
  "plain_plan produces_enforce g from_node sub open_gate =
     (if node_judged_by from_node = ByHuman then Inl (HumanSignoffRequired (node_name from_node))
      else case open_gate_refusal from_node open_gate of Some refusal \<Rightarrow> Inl refusal
      | None \<Rightarrow> (case edge_for_choice g (node_id from_node) (cp_choice sub) of
          None \<Rightarrow> Inl (NodeHasNoChoice (node_name from_node) (cp_choice sub))
        | Some e \<Rightarrow>
            if red_check from_node sub then Inl (ChecksAreRed (cp_choice sub))
            else (case produces_rejection produces_enforce from_node (cp_artifacts sub) of
                Some missing \<Rightarrow> Inl (ProducesMissing (node_name from_node) missing)
              | None \<Rightarrow> plan_edge g e (cp_choice sub))))"

definition resolving_plan ::
  "graph \<Rightarrow> node \<Rightarrow> completion \<Rightarrow> gate_decision option \<Rightarrow> chunk \<Rightarrow> int option \<Rightarrow> completion_refusal + completion_plan" where
  "resolving_plan g gate_node sub decision c visit_epoch =
     (let detail = (case decision of
          None \<Rightarrow> Some (DecisionDoesNotMatch (the (cp_decision_id sub)) (node_name gate_node))
        | Some d \<Rightarrow> resolving_refusal d (ch_chunk_id c) (node_id gate_node) (node_name gate_node)
            (case visit_epoch of None \<Rightarrow> cp_epoch sub | Some e \<Rightarrow> e) (cp_choice sub))
      in case detail of Some refusal \<Rightarrow> Inl refusal
      | None \<Rightarrow> (case edge_for_choice g (node_id gate_node) (cp_choice sub) of
          None \<Rightarrow> Inl (GateHasNoChoice (node_name gate_node) (cp_choice sub))
        | Some e \<Rightarrow> plan_edge g e (cp_choice sub)))"

section \<open>Replays\<close>

datatype replayed_migration_kind = SupersededByRestart | ReplayHubNodeTaken | ReplayMigrated

definition replayed_migration :: "chunk_facts \<Rightarrow> ident \<Rightarrow> int \<Rightarrow> replayed_migration_kind" where
  "replayed_migration facts from_node_id epoch =
     (case List.find (\<lambda>m. mg_from_node_id m = Some from_node_id \<and> mg_epoch m = epoch) (cf_migrations facts) of
        None \<Rightarrow> ReplayMigrated
      | Some m \<Rightarrow> if mg_source m = Some SrcRestart then SupersededByRestart
                 else if mg_landed_node_executor m = ExecHub then ReplayHubNodeTaken
                 else ReplayMigrated)"

section \<open>Landings\<close>

record landing =
  ld_graph :: graph
  ld_node_id :: ident
  ld_source :: migration_source
  ld_clear_intent :: bool
  ld_model :: "string option"

definition landing_target :: "landing \<Rightarrow> node option" where
  "landing_target l = node_by_id (ld_graph l) (ld_node_id l)"

definition releases_route :: "landing \<Rightarrow> bool" where
  "releases_route l \<longleftrightarrow> (case landing_target l of None \<Rightarrow> True | Some n \<Rightarrow> node_executor n \<noteq> ExecHub)"

definition authored_landing :: "edge \<Rightarrow> graph \<Rightarrow> node \<Rightarrow> landing" where
  "authored_landing e target from_node =
     \<lparr>ld_graph = target, ld_node_id = landing_node target (Some (node_name from_node)), ld_source = SrcAuthoredEdge,
      ld_clear_intent = False, ld_model = edge_model e\<rparr>"

text \<open>\<open>Landing.consult\<close>: \<open>Inl\<close> is a failed assertion, a forced intent whose node its graph lacks.\<close>

datatype consult_error = ConsultedNodeMissing

definition consult_landing ::
  "chunk \<Rightarrow> edge \<Rightarrow> migration_targets \<Rightarrow> consult_error + landing option" where
  "consult_landing c e targets =
     (case ch_intended_migration c of
        None \<Rightarrow> (case mt_follow_latest targets of None \<Rightarrow> Inr None
          | Some latest \<Rightarrow>
              if edge_to_node_name e = RESERVED_TERMINAL then Inr None
              else Inr (Some \<lparr>ld_graph = latest, ld_node_id = landing_node latest (Some (edge_to_node_name e)),
                              ld_source = SrcFollowLatest, ld_clear_intent = False, ld_model = None\<rparr>))
      | Some intent \<Rightarrow> (case mt_intended targets of None \<Rightarrow> Inr None
          | Some target \<Rightarrow>
              let landed_name = (if im_mode intent = ModeForced then im_node_name intent
                    else if node_by_name target (edge_to_node_name e) \<noteq> None then Some (edge_to_node_name e)
                    else None)
              in if im_mode intent \<noteq> ModeForced \<and> landed_name = None then Inr None
                 else (case landed_name of None \<Rightarrow> Inl ConsultedNodeMissing
                   | Some name \<Rightarrow> (case node_by_name target name of None \<Rightarrow> Inl ConsultedNodeMissing
                       | Some landed \<Rightarrow> Inr (Some \<lparr>ld_graph = target, ld_node_id = node_id landed,
                           ld_source = SrcIntent, ld_clear_intent = True, ld_model = None\<rparr>)))))"

section \<open>The next step\<close>

datatype next_step =
    StepDone
  | StepMissing
  | StepHubTakes node
  | StepGate node
  | StepAdvance node

definition NextStep_of :: "graph \<Rightarrow> ident \<Rightarrow> next_step" where
  "NextStep_of g to_node_id =
     (if to_node_id = RESERVED_TERMINAL then StepDone
      else case node_by_id g to_node_id of None \<Rightarrow> StepMissing
        | Some n \<Rightarrow> if node_executor n = ExecHub then StepHubTakes n
                   else if node_judged_by n = ByHuman then StepGate n
                   else StepAdvance n)"

definition stored_artifact_of :: "node \<Rightarrow> int \<Rightarrow> completion_artifact \<Rightarrow> ident \<Rightarrow> stored_artifact" where
  "stored_artifact_of n epoch a artifact_id =
     (let is_commit = (cx_kind a = GitCommit); show = (\<lambda>s. case s of None \<Rightarrow> ''None'' | Some t \<Rightarrow> t) in
      \<lparr>sa_kind = cx_kind a, sa_name = cx_name a,
       sa_data = (if is_commit then show (cx_branch_name a) @ '':'' @ show (cx_commit_hash a) else or_empty (cx_content a)),
       sa_repo = (if is_commit then cx_repo a else None), sa_forge = (if is_commit then cx_forge a else None),
       sa_artifact_id = artifact_id, sa_node_id = node_id n, sa_node_name = node_name n, sa_epoch = epoch\<rparr>)"

definition stored_artifacts :: "node \<Rightarrow> int \<Rightarrow> completion_artifact list \<Rightarrow> ident list \<Rightarrow> stored_artifact list" where
  "stored_artifacts n epoch artifacts artifact_ids = map2 (stored_artifact_of n epoch) artifacts artifact_ids"

end
