(* ===== verification/Apply.thy ===== *)
theory Apply
  imports Completion
begin

text \<open>
  Completion apply (\<open>hub/domain/execution/apply.py\<close>, \<open>gate_arrival.py\<close>): the service that applies one
  node-step's completion to a chunk. The reads before the lock are separate transactions, so each sees
  its own snapshot of the rows; everything after the lock is one function from the locked rows to the
  rows it commits, or the error that rolls them back.
\<close>

section \<open>What an apply answers\<close>

datatype apply_outcome = OutcomeNext | OutcomeHubNodeTaken | OutcomeParkedAtGate | OutcomeMigrated | OutcomeDone | OutcomeFailure

datatype apply_detail =
    UnknownChunk ident
  | SupersededByRestartAt int
  | RouteTokenRejected route_token_failure
  | NoSuchNode ident ident
  | CompletionRefused completion_refusal
  | FenceRefused fence_refusal
  | TargetIsNotANode ident
  | ReachedTerminal
  | ParkedAt ident
  | TargetUnresolved "string option"
  | EscalatedByChoice ident ident
  | TakenOverBy ident
  | LandedOnHubNode ident
  | MigratedOnto ident ident
  | MigrationReplayed
  | HubNodeReplayed

record envelope =
  ev_node :: node
  ev_artifacts :: "stored_artifact list"
  ev_epoch :: int
  ev_arrival_addendum :: "string option"

record apply_result =
  ap_outcome :: apply_outcome
  ap_detail :: "apply_detail option"
  ap_envelope :: "envelope option"
  ap_transition_id :: "ident option"
  ap_migration_id :: "ident option"

definition apply_answer :: "apply_outcome \<Rightarrow> apply_detail \<Rightarrow> ident option \<Rightarrow> ident option \<Rightarrow> apply_result" where
  "apply_answer outcome detail transition_id migration_id =
     \<lparr>ap_outcome = outcome, ap_detail = Some detail, ap_envelope = None,
      ap_transition_id = transition_id, ap_migration_id = migration_id\<rparr>"

definition failure :: "apply_detail \<Rightarrow> apply_result" where
  "failure detail = apply_answer OutcomeFailure detail None None"

fun replayed_answer :: "replayed_migration_kind \<Rightarrow> int \<Rightarrow> apply_result" where
  "replayed_answer SupersededByRestart epoch = failure (SupersededByRestartAt epoch)"
| "replayed_answer ReplayHubNodeTaken epoch = apply_answer OutcomeHubNodeTaken HubNodeReplayed None None"
| "replayed_answer ReplayMigrated epoch = apply_answer OutcomeMigrated MigrationReplayed None None"

definition fresh_migration :: "apply_result \<Rightarrow> bool" where
  "fresh_migration r \<longleftrightarrow> ap_outcome r = OutcomeMigrated \<and> ap_migration_id r \<noteq> None"

datatype raced = RacedTransition ident | RacedMigration replayed_migration_kind

text \<open>What escapes as an exception; the transaction it leaves is rolled back.\<close>

datatype service_error =
    RunnerRetired ident
  | AssertionFailed
  | GateArrivalRefused fence_refusal
  | StoreRaised store_error

section \<open>The request, its collaborators and its reads\<close>

record apply_request =
  aq_chunk :: chunk
  aq_graph :: graph
  aq_submission :: completion
  aq_enforce_route_token :: bool
  aq_enforce_produces :: bool
  aq_targets :: migration_targets

text \<open>The identifiers the call mints, its clock's readings, and what it asks of other components.\<close>

record apply_env =
  ae_executors :: executors
  ae_digest :: "string \<Rightarrow> string"
  ae_retired :: "ident set"
  ae_closer_available :: "string \<Rightarrow> bool"
  ae_other_decisions :: "ident \<Rightarrow> gate_decision option"
  ae_transition_id :: ident
  ae_migration_id :: ident
  ae_decision_id :: ident
  ae_artifact_ids :: "ident list"
  ae_at :: instant
  ae_gate_at :: instant

datatype apply_read = ReadFacts | ReadMigrations | ReadRoute | ReadTransitions | ReadDecision | ReadArtifacts

record snapshot =
  sn_found :: bool
  sn_rows :: chunk_rows

definition gate_decision_of_row :: "ident \<Rightarrow> chunk_rows \<Rightarrow> decision_row \<Rightarrow> gate_decision" where
  "gate_decision_of_row cid s d =
     (let resolution = List.find (\<lambda>r. rv_decision_id r = dr_decision_id d) (ck_resolutions s) in
      \<lparr>gd_decision_id = dr_decision_id d, gd_chunk_id = cid, gd_node_id = dr_node_id d, gd_node_name = dr_node_name d,
       gd_epoch = dr_epoch d, gd_choices = dr_choices d, gd_submitted_at = dr_submitted_at d,
       gd_resolved_choice = map_option rv_choice resolution, gd_resolved_by = map_option rv_resolved_by resolution,
       gd_resolved_at = map_option rv_resolved_at resolution,
       gd_transitioned = (dr_decision_id d \<in> decision_closure_ids s),
       gd_imposed_by_runner_id = dr_imposed_by_runner_id d, gd_check_results = dr_check_results d,
       gd_overrode_red_checks = (case resolution of None \<Rightarrow> False | Some r \<Rightarrow> rv_overrode_red_checks r),
       gd_note = (case resolution of None \<Rightarrow> None | Some r \<Rightarrow> rv_note r)\<rparr>)"

text \<open>A decision id names a decision of any chunk: \<open>others\<close> holds the other chunks' decisions.\<close>

definition get_decision :: "(ident \<Rightarrow> gate_decision option) \<Rightarrow> ident \<Rightarrow> chunk_rows \<Rightarrow> ident \<Rightarrow> gate_decision option" where
  "get_decision others cid s decision_id =
     (case List.find (\<lambda>d. dr_decision_id d = decision_id) (ck_decisions s) of
        Some d \<Rightarrow> Some (gate_decision_of_row cid s d) | None \<Rightarrow> others decision_id)"

definition find_decision :: "ident \<Rightarrow> chunk_rows \<Rightarrow> ident \<Rightarrow> int \<Rightarrow> gate_decision option" where
  "find_decision cid s nid epoch = map_option (gate_decision_of_row cid s)
     (List.find (\<lambda>d. dr_node_id d = nid \<and> dr_epoch d = epoch) (ck_decisions s))"

definition accepted_target_row :: "chunk_rows \<Rightarrow> ident \<Rightarrow> int \<Rightarrow> ident option" where
  "accepted_target_row s from_node_id epoch = map_option xr_to_node_id
     (List.find (\<lambda>t. xr_from_node_id t = Some from_node_id \<and> xr_epoch t = epoch) (ck_transitions s))"

definition load_artifacts :: "chunk_rows \<Rightarrow> stored_artifact list" where
  "load_artifacts s = map ar_artifact (sort_key (\<lambda>a. (ar_seq a, sa_artifact_id (ar_artifact a))) (ck_artifacts s))"

text \<open>\<open>arrival_epoch_at\<close>: \<open>max\<close> over \<open>(order_key, node id, epoch)\<close> tuples, so a tie on the key goes to the
  greater node id.\<close>

definition arrivals :: "chunk_facts \<Rightarrow> ((instant \<times> int \<times> int) \<times> ident option \<times> int) list" where
  "arrivals f =
     map (\<lambda>t. (order_key MTransition (tr_recorded_at t, tr_epoch t), Some (tr_to_node_id t), tr_epoch t)) (cf_transitions f)
     @ map (\<lambda>m. (order_key MMigration (mg_recorded_at m, mg_epoch m), mg_landed_node_id m, mg_epoch m)) (cf_migrations f)
     @ map (\<lambda>r. (order_key MRestart (rs_recorded_at r, rs_epoch r), Some (rs_to_node_id r), rs_epoch r)) (cf_restarts f)"

definition arrival_epoch_at :: "chunk_facts \<Rightarrow> ident \<Rightarrow> int option" where
  "arrival_epoch_at f nid =
     (case max_by (\<lambda>(key, node, epoch). (key, or_empty node, epoch)) (arrivals f) of None \<Rightarrow> None
      | Some (_, landed, epoch) \<Rightarrow> if landed = Some nid then Some epoch else None)"

section \<open>Opening a graph gate on arrival\<close>

definition arrival_decision :: "ident \<Rightarrow> node \<Rightarrow> int \<Rightarrow> instant \<Rightarrow> claimant option \<Rightarrow> close_decision \<Rightarrow> decision_write" where
  "arrival_decision decision_id n epoch at cl close =
     \<lparr>dw_decision = \<lparr>dr_decision_id = decision_id, dr_node_id = node_id n, dr_node_name = node_name n, dr_epoch = epoch,
        dr_choices = decision_choices n, dr_check_results = [], dr_submitted_at = at, dr_imposed_by_runner_id = None\<rparr>,
      dw_admission = AdmitCurrent, dw_claimant = cl, dw_artifacts = [], dw_close_decision = close\<rparr>"

definition open_graph_gate_on_arrival ::
  "ident \<Rightarrow> graph \<Rightarrow> ident \<Rightarrow> int \<Rightarrow> instant \<Rightarrow> claimant option \<Rightarrow> close_decision \<Rightarrow> chunk_rows
     \<Rightarrow> service_error + chunk_rows" where
  "open_graph_gate_on_arrival decision_id g nid epoch at cl close s =
     (case NextStep_of g nid of
        StepGate n \<Rightarrow>
          (case record_decision_locked (arrival_decision decision_id n epoch at cl close) s of
             Inl err \<Rightarrow> Inl (StoreRaised err)
           | Inr (DecisionRefused refusal, _) \<Rightarrow> Inl (GateArrivalRefused refusal)
           | Inr (_, s') \<Rightarrow> Inr s')
      | _ \<Rightarrow> Inr s)"

section \<open>Under the lock\<close>

definition landed_under_lock :: "chunk_facts \<Rightarrow> completion \<Rightarrow> raced option" where
  "landed_under_lock locked sub =
     (case accepted_transition_target locked (cp_from_node_id sub) (cp_epoch sub) of
        Some target \<Rightarrow> Some (RacedTransition target)
      | None \<Rightarrow>
          if \<exists>m\<in>set (cf_migrations locked). mg_from_node_id m = Some (cp_from_node_id sub) \<and> mg_epoch m = cp_epoch sub
          then Some (RacedMigration (replayed_migration locked (cp_from_node_id sub) (cp_epoch sub)))
          else None)"

definition exit_claimant :: "chunk_facts \<Rightarrow> chunk_rows \<Rightarrow> completion \<Rightarrow> claimant option" where
  "exit_claimant facts s sub =
     (if cp_decision_id sub \<noteq> None
         \<and> (\<exists>r\<in>set (cf_restarts facts). rs_epoch r = cp_epoch sub \<and> rs_to_node_id r = cp_from_node_id sub)
         \<and> (case route_of s of None \<Rightarrow> False | Some r \<Rightarrow> route_runner_id r = cp_runner_id sub)
      then None
      else Some \<lparr>cl_runner_id = cp_runner_id sub, cl_lease_id = cp_lease_id sub\<rparr>)"

definition close_of :: "apply_env \<Rightarrow> apply_request \<Rightarrow> close_decision" where
  "close_of env req = decide_close_enqueue (ch_work_refs (aq_chunk req)) (ae_closer_available env)"

text \<open>A locked section commits its rows beside an answer, or the movement it lost the race to.\<close>

datatype 'a locked_answer = Raced raced | Answered apply_result | Recorded 'a

definition transition_of_plan ::
  "apply_env \<Rightarrow> apply_request \<Rightarrow> node \<Rightarrow> ident \<Rightarrow> completion_artifact list \<Rightarrow> chunk_facts \<Rightarrow> chunk_rows \<Rightarrow> transition_write" where
  "transition_of_plan env req from_node to_node_id artifacts locked s =
     (let sub = aq_submission req in
      \<lparr>tw_transition_id = ae_transition_id env, tw_from_node_id = Some (node_id from_node), tw_to_node_id = to_node_id,
       tw_choice_name = Some (cp_choice sub), tw_epoch = cp_epoch sub, tw_admission = AdmitCurrent,
       tw_claimant = exit_claimant locked s sub, tw_runner_id = cp_runner_id sub, tw_at = ae_at env,
       tw_artifacts = stored_artifacts from_node (cp_epoch sub) artifacts (ae_artifact_ids env),
       tw_close_decision = close_of env req, tw_decision_id = cp_decision_id sub\<rparr>)"

definition transition_locked ::
  "apply_env \<Rightarrow> apply_request \<Rightarrow> node \<Rightarrow> ident \<Rightarrow> completion_artifact list \<Rightarrow> snapshot
     \<Rightarrow> service_error + (unit locked_answer \<times> chunk_rows)" where
  "transition_locked env req from_node to_node_id artifacts snap =
     (let s = sn_rows snap; sub = aq_submission req; locked = load_facts (ae_executors env) s in
      if \<not> sn_found snap then Inr (Answered (failure (UnknownChunk (ch_chunk_id (aq_chunk req)))), s)
      else case landed_under_lock locked sub of Some r \<Rightarrow> Inr (Raced r, s)
      | None \<Rightarrow> (case refuse_incoherent_attempt locked (aq_graph req) from_node (cp_epoch sub) False of
          Some refusal \<Rightarrow> Inr (Answered (failure (CompletionRefused refusal)), s)
        | None \<Rightarrow> (case record_transition (transition_of_plan env req from_node to_node_id artifacts locked s) s of
            Inl err \<Rightarrow> Inl (StoreRaised err)
          | Inr (Some refusal, s1) \<Rightarrow> Inr (Answered (failure (FenceRefused refusal)), s1)
          | Inr (None, s1) \<Rightarrow>
              map_sum id (\<lambda>s2. (Recorded (), s2))
                (open_graph_gate_on_arrival (ae_decision_id env) (aq_graph req) to_node_id (cp_epoch sub)
                   (ae_gate_at env) (exit_claimant locked s sub) (close_of env req) s1))))"

definition migration_of_landing ::
  "apply_env \<Rightarrow> apply_request \<Rightarrow> node \<Rightarrow> landing \<Rightarrow> completion_artifact list \<Rightarrow> chunk_facts \<Rightarrow> chunk_rows \<Rightarrow> migration_write" where
  "migration_of_landing env req from_node l artifacts locked s =
     (let sub = aq_submission req in
      \<lparr>mw_migration_id = ae_migration_id env, mw_from_node_id = Some (node_id from_node),
       mw_from_graph_id = node_graph_id from_node, mw_to_graph_id = graph_id (ld_graph l),
       mw_landed_node_id = Some (ld_node_id l), mw_choice_name = Some (cp_choice sub),
       mw_decision_id = cp_decision_id sub, mw_model = ld_model l, mw_epoch = cp_epoch sub,
       mw_admission = AdmitCurrent, mw_claimant = exit_claimant locked s sub, mw_at = ae_at env,
       mw_artifacts = stored_artifacts from_node (cp_epoch sub) artifacts (ae_artifact_ids env),
       mw_close_decision = close_of env req, mw_source = ld_source l, mw_release_route = releases_route l,
       mw_clear_intent = ld_clear_intent l\<rparr>)"

text \<open>\<open>record_migration_locked\<close> answers \<open>None\<close> for a migration already recorded at the key.\<close>

definition migrated_id :: "migration_outcome \<Rightarrow> ident option" where
  "migrated_id m = (case m of Migrated i \<Rightarrow> Some i | _ \<Rightarrow> None)"

definition migration_locked ::
  "apply_env \<Rightarrow> apply_request \<Rightarrow> node \<Rightarrow> landing \<Rightarrow> completion_artifact list \<Rightarrow> snapshot
     \<Rightarrow> service_error + (ident option locked_answer \<times> chunk_rows)" where
  "migration_locked env req from_node l artifacts snap =
     (let s = sn_rows snap; sub = aq_submission req; locked = load_facts (ae_executors env) s in
      if \<not> sn_found snap then Inr (Answered (failure (UnknownChunk (ch_chunk_id (aq_chunk req)))), s)
      else case landed_under_lock locked sub of Some r \<Rightarrow> Inr (Raced r, s)
      | None \<Rightarrow> (case refuse_incoherent_attempt locked (aq_graph req) from_node (cp_epoch sub) False of
          Some refusal \<Rightarrow> Inr (Answered (failure (CompletionRefused refusal)), s)
        | None \<Rightarrow> (case record_migration (migration_of_landing env req from_node l artifacts locked s) s of
            Inl err \<Rightarrow> Inl (StoreRaised err)
          | Inr (MigrationRefused refusal, s1) \<Rightarrow> Inr (Answered (failure (FenceRefused refusal)), s1)
          | Inr (outcome, s1) \<Rightarrow>
              map_sum id (\<lambda>s2. (Recorded (migrated_id outcome), s2))
                (open_graph_gate_on_arrival (ae_decision_id env) (ld_graph l) (ld_node_id l) (cp_epoch sub)
                   (ae_gate_at env) None (close_of env req) s1))))"

definition escalation_of_draft ::
  "apply_env \<Rightarrow> apply_request \<Rightarrow> escalation_draft \<Rightarrow> chunk_facts \<Rightarrow> chunk_rows \<Rightarrow> escalation_write" where
  "escalation_of_draft env req draft facts s =
     (let sub = aq_submission req in
      \<lparr>ew_epoch = cp_epoch sub, ew_admission = AdmitCurrent, ew_claimant = exit_claimant facts s sub,
       ew_takeover_command = ed_takeover_command draft, ew_wrapped_takeover_command = [], ew_at = ae_at env,
       ew_decision_id = cp_decision_id sub, ew_cause = Some (cause_value (ed_cause draft)),
       ew_detail = Some (ed_detail draft)\<rparr>)"

definition escalate_locked ::
  "apply_env \<Rightarrow> apply_request \<Rightarrow> node \<Rightarrow> edge \<Rightarrow> escalation_draft \<Rightarrow> escalation_draft option \<Rightarrow> apply_result \<Rightarrow> snapshot
     \<Rightarrow> unit locked_answer \<times> chunk_rows" where
  "escalate_locked env req from_node e draft taken answer snap =
     (let s = sn_rows snap; sub = aq_submission req; facts = load_facts (ae_executors env) s in
      if \<not> sn_found snap then (Answered (failure (UnknownChunk (ch_chunk_id (aq_chunk req)))), s)
      else case landed_under_lock facts sub of Some r \<Rightarrow> (Raced r, s)
      | None \<Rightarrow>
          let re_escalating = re_escalates facts (Some e) (aq_targets req) (cp_epoch sub) taken in
          (case refuse_incoherent_attempt facts (aq_graph req) from_node (cp_epoch sub) re_escalating of
             Some refusal \<Rightarrow> (Answered (failure (CompletionRefused refusal)), s)
           | None \<Rightarrow>
               if re_escalating then (Answered answer, s)
               else (case record_escalation (escalation_of_draft env req draft facts s) s of
                   (Some refusal, s1) \<Rightarrow> (Answered (failure (FenceRefused refusal)), s1)
                 | (None, s1) \<Rightarrow> (Answered answer, s1))))"

section \<open>Responding\<close>

text \<open>The answer, and whether the call wakes the taker of hub steps.\<close>

definition respond ::
  "apply_request \<Rightarrow> node \<Rightarrow> ident \<Rightarrow> edge option \<Rightarrow> ident option \<Rightarrow> chunk_rows \<Rightarrow> apply_result \<times> bool" where
  "respond req from_node to_node_id e transition_id artifacts_at =
     (let sub = aq_submission req in
      case NextStep_of (aq_graph req) to_node_id of
        StepDone \<Rightarrow> (apply_answer OutcomeDone ReachedTerminal transition_id None, False)
      | StepMissing \<Rightarrow> (failure (TargetIsNotANode to_node_id), False)
      | StepHubTakes n \<Rightarrow> (apply_answer OutcomeHubNodeTaken (TakenOverBy (node_name n)) transition_id None, True)
      | StepGate n \<Rightarrow> (apply_answer OutcomeParkedAtGate (ParkedAt (node_name n)) transition_id None, False)
      | StepAdvance n \<Rightarrow>
          let arrival = (if e \<noteq> None then e else edge_for_choice (aq_graph req) (node_id from_node) (cp_choice sub))
          in (\<lparr>ap_outcome = OutcomeNext, ap_detail = None,
               ap_envelope = Some \<lparr>ev_node = n, ev_artifacts = load_artifacts artifacts_at, ev_epoch = cp_epoch sub,
                 ev_arrival_addendum = (case arrival of None \<Rightarrow> None | Some ed \<Rightarrow> edge_prompt_addendum ed)\<rparr>,
               ap_transition_id = transition_id, ap_migration_id = None\<rparr>, False))"

definition answer_raced ::
  "apply_request \<Rightarrow> node \<Rightarrow> raced \<Rightarrow> chunk_rows \<Rightarrow> apply_result \<times> bool" where
  "answer_raced req from_node r artifacts_at =
     (case r of
        RacedMigration kind \<Rightarrow> (replayed_answer kind (cp_epoch (aq_submission req)), False)
      | RacedTransition target \<Rightarrow> respond req from_node target None None artifacts_at)"

definition answer_landing :: "node \<Rightarrow> landing \<Rightarrow> ident option \<Rightarrow> service_error + (apply_result \<times> bool)" where
  "answer_landing from_node l migration_id =
     (if releases_route l
      then Inr (apply_answer OutcomeMigrated (MigratedOnto (node_name from_node) (graph_name (ld_graph l))) None migration_id, False)
      else case landing_target l of None \<Rightarrow> Inl AssertionFailed
        | Some n \<Rightarrow> Inr (apply_answer OutcomeHubNodeTaken (LandedOnHubNode (node_name n)) None migration_id, True))"

section \<open>The service\<close>

definition plan_completion ::
  "apply_env \<Rightarrow> apply_request \<Rightarrow> chunk_facts \<Rightarrow> node \<Rightarrow> chunk_rows \<Rightarrow> completion_refusal + completion_plan" where
  "plan_completion env req facts from_node decision_rows =
     (let sub = aq_submission req; g = aq_graph req; epoch = cp_epoch sub;
          again = re_escalates facts (edge_for_choice g (node_id from_node) (cp_choice sub)) (aq_targets req) epoch
            (Some (EscalateChoice_of from_node (cp_choice sub)))
      in case refuse_hub_executed from_node of Some refusal \<Rightarrow> Inl refusal
      | None \<Rightarrow> (case refuse_incoherent_attempt facts g from_node epoch again of Some refusal \<Rightarrow> Inl refusal
      | None \<Rightarrow> (case commit_pointer_rejection (cp_artifacts sub) of
          Some (name, fault) \<Rightarrow> Inl (CommitPointerRefused name fault)
      | None \<Rightarrow> (case cp_decision_id sub of
          Some decision_id \<Rightarrow>
            resolving_plan g from_node sub
              (get_decision (ae_other_decisions env) (ch_chunk_id (aq_chunk req)) decision_rows decision_id)
              (aq_chunk req)
              (if node_judged_by from_node = ByHuman then arrival_epoch_at facts (node_id from_node) else None)
        | None \<Rightarrow>
            plain_plan (aq_enforce_produces req) g from_node sub
              (find_decision (ch_chunk_id (aq_chunk req)) decision_rows (node_id from_node) epoch)))))"

text \<open>What the call does once planned: its answer and the rows it leaves.\<close>

definition finish ::
  "snapshot \<Rightarrow> ('a locked_answer \<Rightarrow> service_error + (apply_result \<times> bool)) \<Rightarrow> service_error + ('a locked_answer \<times> chunk_rows)
     \<Rightarrow> (service_error + (apply_result \<times> bool)) \<times> chunk_rows" where
  "finish snap answer result =
     (case result of Inl err \<Rightarrow> (Inl err, sn_rows snap) | Inr (a, s') \<Rightarrow> (answer a, s'))"

definition answer_locked ::
  "apply_request \<Rightarrow> node \<Rightarrow> chunk_rows \<Rightarrow> ('a \<Rightarrow> service_error + (apply_result \<times> bool)) \<Rightarrow> 'a locked_answer
     \<Rightarrow> service_error + (apply_result \<times> bool)" where
  "answer_locked req from_node artifacts_at recorded a =
     (case a of Raced r \<Rightarrow> Inr (answer_raced req from_node r artifacts_at)
      | Answered r \<Rightarrow> Inr (r, False)
      | Recorded x \<Rightarrow> recorded x)"

definition run_landing ::
  "apply_env \<Rightarrow> apply_request \<Rightarrow> node \<Rightarrow> completion_artifact list \<Rightarrow> chunk_rows \<Rightarrow> snapshot \<Rightarrow> landing
     \<Rightarrow> (service_error + (apply_result \<times> bool)) \<times> chunk_rows" where
  "run_landing env req from_node artifacts artifacts_at snap l =
     finish snap (answer_locked req from_node artifacts_at (answer_landing from_node l))
       (migration_locked env req from_node l artifacts snap)"

definition run_plan ::
  "apply_env \<Rightarrow> apply_request \<Rightarrow> node \<Rightarrow> completion_plan \<Rightarrow> chunk_rows \<Rightarrow> snapshot
     \<Rightarrow> (service_error + (apply_result \<times> bool)) \<times> chunk_rows" where
  "run_plan env req from_node plan artifacts_at snap =
     (let sub = aq_submission req; e = pl_edge plan; targets = aq_targets req;
          artifacts = (if cp_decision_id sub \<noteq> None then [] else cp_artifacts sub);
          escalate = (\<lambda>draft taken answer.
            finish snap (answer_locked req from_node artifacts_at (\<lambda>_. Inl AssertionFailed))
              (Inr (escalate_locked env req from_node e draft taken answer snap)))
      in if pl_escalates plan then
           (let draft = EscalateChoice_of from_node (cp_choice sub)
            in escalate draft (Some draft)
                 (apply_answer OutcomeParkedAtGate (EscalatedByChoice (node_name from_node) (cp_choice sub)) None None))
         else if pl_migrates plan then
           (case mt_cross_graph targets of
              Some target \<Rightarrow> run_landing env req from_node artifacts artifacts_at snap (authored_landing e target from_node)
            | None \<Rightarrow> escalate (UnresolvableTarget_of e) None
                 (apply_answer OutcomeParkedAtGate (TargetUnresolved (edge_target_graph e)) None None))
         else case consult_landing (aq_chunk req) e targets of
             Inl _ \<Rightarrow> (Inl AssertionFailed, sn_rows snap)
           | Inr (Some l) \<Rightarrow> run_landing env req from_node artifacts artifacts_at snap l
           | Inr None \<Rightarrow>
               let to_node_id = the (pl_to_node_id plan)
               in finish snap
                    (answer_locked req from_node artifacts_at
                      (\<lambda>_. Inr (respond req from_node to_node_id (Some e) (Some (ae_transition_id env)) artifacts_at)))
                    (transition_locked env req from_node to_node_id artifacts snap))"

definition apply_completion ::
  "apply_env \<Rightarrow> apply_request \<Rightarrow> (apply_read \<Rightarrow> snapshot) \<Rightarrow> snapshot
     \<Rightarrow> (service_error + (apply_result \<times> bool)) \<times> chunk_rows" where
  "apply_completion env req reads snap =
     (let sub = aq_submission req; g = aq_graph req; from_id = cp_from_node_id sub; epoch = cp_epoch sub;
          rows = (\<lambda>r. sn_rows (reads r)); nothing = (\<lambda>answer. (answer, sn_rows snap));
          facts = load_facts (ae_executors env) (rows ReadFacts)
      in if cp_runner_id sub \<in> ae_retired env then nothing (Inl (RunnerRetired (cp_runner_id sub)))
         else if \<not> sn_found (reads ReadFacts) then nothing (Inr (failure (UnknownChunk (ch_chunk_id (aq_chunk req))), False))
         else if migration_exists (rows ReadMigrations) (Some from_id) epoch
           then nothing (Inr (replayed_answer (replayed_migration facts from_id epoch) epoch, False))
         else case route_token_rejection (ae_digest env) (aq_enforce_route_token req) facts (cp_route_token sub)
                (cp_runner_id sub) (map_option route_runner_id (route_of (rows ReadRoute))) of
           Some rejection \<Rightarrow> nothing (Inr (failure (RouteTokenRejected rejection), False))
         | None \<Rightarrow> (case node_by_id g from_id of
             None \<Rightarrow> nothing (Inr (failure (NoSuchNode from_id (graph_id g)), False))
           | Some from_node \<Rightarrow> (case accepted_target_row (rows ReadTransitions) from_id epoch of
               Some target \<Rightarrow> nothing (Inr (respond req from_node target None None (rows ReadArtifacts)))
             | None \<Rightarrow> (case plan_completion env req facts from_node (rows ReadDecision) of
                 Inl refusal \<Rightarrow> nothing (Inr (failure (CompletionRefused refusal), False))
               | Inr plan \<Rightarrow> run_plan env req from_node plan (rows ReadArtifacts) snap))))"

end
