(* ===== verification/Terminal_Predicates.thy ===== *)
theory Terminal_Predicates
  imports Chunk_Rows
begin

text \<open>
  The SQL forms of the ended chunk (\<open>chunk_terminal_predicates.py\<close>) against the derived status of
  \<open>ChunkFacts\<close>: which chunks settle as \<open>stopped\<close>, which as \<open>done\<close>, and when a done chunk finished.
  They are exact but for two transitions at one \<open>(recorded_at, epoch)\<close> of which one is terminal.
\<close>

section \<open>The predicates\<close>

definition done_by_transition_before :: "chunk_rows \<Rightarrow> instant option \<Rightarrow> bool" where
  "done_by_transition_before s limit \<longleftrightarrow>
     (\<exists>t\<in>set (ck_transitions s). unsuperseded_terminal s t
        \<and> (case limit of None \<Rightarrow> True | Some i \<Rightarrow> xr_recorded_at t < i))"

definition maybe_live :: "chunk_rows \<Rightarrow> bool" where
  "maybe_live s \<longleftrightarrow> \<not> is_terminal s"

definition settled_stopped :: "chunk_rows \<Rightarrow> bool" where
  "settled_stopped s \<longleftrightarrow> (\<exists>stop\<in>set (ck_stopped s). \<not> (\<exists>c\<in>set (ck_completed s). c \<ge> stop))"

definition settled_done :: "chunk_rows \<Rightarrow> instant option \<Rightarrow> bool" where
  "settled_done s limit \<longleftrightarrow>
     ((\<exists>c\<in>set (ck_completed s). \<not> (\<exists>stop\<in>set (ck_stopped s). stop > c))
       \<and> (case limit of None \<Rightarrow> True
          | Some i \<Rightarrow> \<not> (\<exists>c\<in>set (ck_completed s). c \<ge> i)))
     \<or> (ck_stopped s = [] \<and> ck_completed s = [] \<and> done_by_transition_before s limit)"

definition done_completed_at :: "chunk_rows \<Rightarrow> instant option" where
  "done_completed_at s =
     (case option_max (ck_completed s) of
        Some i \<Rightarrow> Some i
      | None \<Rightarrow> option_max (map xr_recorded_at (filter (unsuperseded_terminal s) (ck_transitions s))))"

lemma done_by_transition_before_None: "done_by_transition_before s None = done_by_transition s"
  by (simp add: done_by_transition_before_def done_by_transition_def)

section \<open>The latest movement, read as a supersession\<close>

lemma order_key_le:
  "order_key k a \<le> order_key l b \<longleftrightarrow> a < b \<or> (a = b \<and> movement_rank k \<le> movement_rank l)"
  by (cases a; cases b) (auto simp: order_key_def less_eq_prod_def less_prod_def)

lemma newest_terminal_iff:
  "newest_transition_is_terminal f \<longleftrightarrow>
     (\<exists>t. newest_transition f = Some t \<and> tr_to_node_id t = RESERVED_TERMINAL
        \<and> (\<forall>m\<in>set (cf_migrations f). mg_key m < tr_key t) \<and> (\<forall>r\<in>set (cf_restarts f). rs_key r < tr_key t))"
    (is "_ \<longleftrightarrow> ?R")
proof
  assume "newest_transition_is_terminal f"
  then obtain m where lm: "latest_movement f = Some m" "mv_kind m = MTransition"
      "mv_node_id m = Some RESERVED_TERMINAL"
    by (auto simp: newest_transition_is_terminal_def split: option.splits)
  then obtain k where k: "max_by fst (ranked_movements f None) = Some (k, m)"
    unfolding latest_movement_Some by blast
  from max_by_in_set [OF k] lm(2,3) obtain t where t: "newest_transition f = Some t"
      "k = order_key MTransition (tr_key t)" "tr_to_node_id t = RESERVED_TERMINAL"
    unfolding ranked_movements_def set_append Un_iff newest_ranked_iff
    by (auto simp: newest_transition_def seen_def movement_of_transition_def movement_of_migration_def
        movement_of_restart_def)
  have m: "mg_key x < tr_key t" if "x \<in> set (cf_migrations f)" for x
  proof -
    have "order_key MMigration (mg_key x) \<in> movement_keys f None"
      using that by (auto simp: movement_keys_def family_keys_def seen_def)
    from latest_movement_greatest [OF k this] show ?thesis by (simp add: t(2) order_key_le)
  qed
  have r: "rs_key x < tr_key t" if "x \<in> set (cf_restarts f)" for x
  proof -
    have "order_key MRestart (rs_key x) \<in> movement_keys f None"
      using that by (auto simp: movement_keys_def family_keys_def seen_def)
    from latest_movement_greatest [OF k this] show ?thesis by (simp add: t(2) order_key_le)
  qed
  from t m r show ?R by blast
next
  assume ?R
  then obtain t where t: "newest_transition f = Some t" "tr_to_node_id t = RESERVED_TERMINAL"
    and old: "\<And>m. m \<in> set (cf_migrations f) \<Longrightarrow> mg_key m < tr_key t"
      "\<And>r. r \<in> set (cf_restarts f) \<Longrightarrow> rs_key r < tr_key t" by blast
  have tk: "order_key MTransition (tr_key t) \<in> movement_keys f None"
    using max_by_in_set [OF t(1) [unfolded newest_transition_def]]
    by (auto simp: movement_keys_def family_keys_def seen_def)
  then obtain m where m: "latest_movement f = Some m" using latest_movement_None [of f None] by fastforce
  then obtain k where k: "max_by fst (ranked_movements f None) = Some (k, m)"
    unfolding latest_movement_Some by blast
  have le: "order_key MTransition (tr_key t) \<le> k" by (rule latest_movement_greatest [OF k tk])
  have "mv_kind m = MTransition \<and> mv_node_id m = Some (tr_to_node_id t)"
    using max_by_in_set [OF k] unfolding ranked_movements_def set_append Un_iff newest_ranked_iff
  proof (elim disjE exE conjE)
    fix x
    assume "max_by tr_key (filter (\<lambda>x. seen None (fst (tr_key x))) (cf_transitions f)) = Some x"
      and "m = movement_of_transition x"
    with t(1) show ?thesis by (simp add: newest_transition_def seen_def movement_of_transition_def)
  next
    fix x
    assume x: "max_by mg_key (filter (\<lambda>x. seen None (fst (mg_key x))) (cf_migrations f)) = Some x"
      and "k = order_key MMigration (mg_key x)"
    with le old(1) [of x] max_by_in_set [OF x] show ?thesis by (auto simp: order_key_le)
  next
    fix x
    assume x: "max_by rs_key (filter (\<lambda>x. seen None (fst (rs_key x))) (cf_restarts f)) = Some x"
      and "k = order_key MRestart (rs_key x)"
    with le old(2) [of x] max_by_in_set [OF x] show ?thesis by (auto simp: order_key_le)
  qed
  with m t(2) show "newest_transition_is_terminal f" by (simp add: newest_transition_is_terminal_def)
qed

definition xr_key :: "transition_row \<Rightarrow> instant \<times> int" where
  "xr_key t = (xr_recorded_at t, xr_epoch t)"

lemma not_older_iff: "not_older t at epoch \<longleftrightarrow> xr_key t \<le> (at, epoch)"
  by (auto simp: not_older_def xr_key_def less_eq_prod_def)

lemma tr_key_row [simp]: "tr_key (transition_of_row ex t) = xr_key t"
  by (simp add: tr_key_def transition_of_row_def xr_key_def)

lemma loaded_movements:
  "cf_transitions (load_facts ex s) = map (transition_of_row ex) (ck_transitions s)"
  "cf_migrations (load_facts ex s) = map (migration_of_row ex) (ck_migrations s)"
  "cf_restarts (load_facts ex s) = map (restart_of_row ex) (ck_restarts s)"
  by (simp_all add: load_facts_def)

lemma movement_row_keys:
  "mg_key (migration_of_row ex m) = (mr_recorded_at m, mr_epoch m)"
  "rs_key (restart_of_row ex r) = (sr_recorded_at r, sr_epoch r)"
  by (simp_all add: mg_key_def migration_of_row_def rs_key_def restart_of_row_def)

lemma row_fields [simp]:
  "tr_to_node_id (transition_of_row ex x) = xr_to_node_id x"
  "tr_recorded_at (transition_of_row ex x) = xr_recorded_at x"
  by (simp_all add: transition_of_row_def)

lemma unsuperseded_iff:
  "unsuperseded_terminal s t \<longleftrightarrow> xr_to_node_id t = RESERVED_TERMINAL
     \<and> (\<forall>x\<in>set (ck_transitions s). xr_key t \<le> xr_key x \<longrightarrow>
          xr_to_node_id x = RESERVED_TERMINAL \<and> xr_recorded_at x = xr_recorded_at t)
     \<and> (\<forall>m\<in>set (ck_migrations s). (mr_recorded_at m, mr_epoch m) < xr_key t)
     \<and> (\<forall>r\<in>set (ck_restarts s). (sr_recorded_at r, sr_epoch r) < xr_key t)"
proof -
  have beats: "(not_older t (xr_recorded_at x) (xr_epoch x) \<and> (A \<or> xr_recorded_at x > xr_recorded_at t))
      \<longleftrightarrow> \<not> (xr_key t \<le> xr_key x \<longrightarrow> \<not> A \<and> xr_recorded_at x = xr_recorded_at t)" for x A
    by (auto simp: not_older_def xr_key_def less_eq_prod_def)
  have "unsuperseded_terminal s t \<longleftrightarrow> xr_to_node_id t = RESERVED_TERMINAL
     \<and> \<not> ((\<exists>x\<in>set (ck_transitions s). \<not> (xr_key t \<le> xr_key x \<longrightarrow>
              xr_to_node_id x = RESERVED_TERMINAL \<and> xr_recorded_at x = xr_recorded_at t))
          \<or> (\<exists>m\<in>set (ck_migrations s). not_older t (mr_recorded_at m) (mr_epoch m))
          \<or> (\<exists>r\<in>set (ck_restarts s). not_older t (sr_recorded_at r) (sr_epoch r)))"
    unfolding unsuperseded_terminal_def beats not_not ..
  then show ?thesis unfolding not_older_iff not_le [symmetric] by blast
qed

text \<open>A terminal transition no movement supersedes is, up to its ties, the derivation's newest.\<close>

lemma unsuperseded_newest:
  assumes t: "t \<in> set (ck_transitions s)" and u: "unsuperseded_terminal s t"
  shows "newest_transition_is_terminal (load_facts ex s)
     \<and> (\<exists>n. newest_transition (load_facts ex s) = Some n \<and> tr_recorded_at n = xr_recorded_at t)"
proof -
  let ?f = "load_facts ex s"
  obtain n where n: "newest_transition ?f = Some n"
    using t max_by_eq_None [of tr_key "cf_transitions ?f"]
    by (cases "newest_transition ?f") (auto simp: newest_transition_def loaded_movements)
  from max_by_in_set [OF n [unfolded newest_transition_def]] obtain x where
    x: "x \<in> set (ck_transitions s)" "n = transition_of_row ex x" by (auto simp: loaded_movements)
  have "tr_key (transition_of_row ex t) \<le> tr_key n"
    using t by (intro max_by_greatest [OF n [unfolded newest_transition_def]]) (simp add: loaded_movements)
  then have le: "xr_key t \<le> xr_key x" using x(2) by simp
  with u x(1) have x': "xr_to_node_id x = RESERVED_TERMINAL" "xr_recorded_at x = xr_recorded_at t"
    by (simp_all add: unsuperseded_iff)
  have "\<forall>m\<in>set (cf_migrations ?f). mg_key m < tr_key n" "\<forall>r\<in>set (cf_restarts ?f). rs_key r < tr_key n"
    using u le x(2) by (auto simp: loaded_movements movement_row_keys unsuperseded_iff intro: order_less_le_trans)
  with n x(2) x' show ?thesis by (auto simp: newest_terminal_iff)
qed

text \<open>No two transitions at one \<open>(recorded_at, epoch)\<close> of which one is terminal: the residue.\<close>

definition no_terminal_tie :: "chunk_rows \<Rightarrow> bool" where
  "no_terminal_tie s \<longleftrightarrow> (\<forall>x\<in>set (ck_transitions s). \<forall>y\<in>set (ck_transitions s).
     xr_key x = xr_key y \<longrightarrow> xr_to_node_id x = RESERVED_TERMINAL \<longrightarrow> xr_to_node_id y = RESERVED_TERMINAL)"

lemma newest_unsuperseded:
  assumes "newest_transition_is_terminal (load_facts ex s)" and tie: "no_terminal_tie s"
  obtains t where "t \<in> set (ck_transitions s)" and "unsuperseded_terminal s t"
    and "newest_transition (load_facts ex s) = Some (transition_of_row ex t)"
proof -
  let ?f = "load_facts ex s"
  obtain n where n: "newest_transition ?f = Some n" "tr_to_node_id n = RESERVED_TERMINAL"
      "\<forall>m\<in>set (cf_migrations ?f). mg_key m < tr_key n" "\<forall>r\<in>set (cf_restarts ?f). rs_key r < tr_key n"
    using assms(1) unfolding newest_terminal_iff by blast
  from max_by_in_set [OF n(1) [unfolded newest_transition_def]] obtain t where
    t: "t \<in> set (ck_transitions s)" "n = transition_of_row ex t" by (auto simp: loaded_movements)
  have top: "xr_key x \<le> xr_key t" if "x \<in> set (ck_transitions s)" for x
  proof -
    have "tr_key (transition_of_row ex x) \<le> tr_key n"
      using that by (intro max_by_greatest [OF n(1) [unfolded newest_transition_def]]) (simp add: loaded_movements)
    with t(2) show ?thesis by simp
  qed
  have "xr_to_node_id x = RESERVED_TERMINAL \<and> xr_recorded_at x = xr_recorded_at t"
    if "x \<in> set (ck_transitions s)" "xr_key t \<le> xr_key x" for x
  proof -
    from top [OF that(1)] that(2) have "xr_key t = xr_key x" by simp
    moreover from this have "xr_to_node_id x = RESERVED_TERMINAL"
      using tie t(1) that(1) n(2) unfolding no_terminal_tie_def t(2) row_fields by blast
    ultimately show ?thesis by (simp add: xr_key_def)
  qed
  moreover have "\<forall>m\<in>set (ck_migrations s). (mr_recorded_at m, mr_epoch m) < xr_key t"
      "\<forall>r\<in>set (ck_restarts s). (sr_recorded_at r, sr_epoch r) < xr_key t"
    using n(3,4) unfolding loaded_movements t(2) set_map ball_simps movement_row_keys tr_key_row by blast+
  moreover have "xr_to_node_id t = RESERVED_TERMINAL" using n(2) t(2) by simp
  ultimately have "unsuperseded_terminal s t" unfolding unsuperseded_iff by blast
  with that t n(1) show ?thesis by blast
qed

section \<open>Agreement\<close>

definition rows_status :: "executors \<Rightarrow> chunk_rows \<Rightarrow> chunk_status" where
  "rows_status ex s = status (load_facts ex s)"

lemma loaded_ends:
  "cf_stopped (load_facts ex s) = (ck_stopped s \<noteq> [])"
  "cf_stopped_at (load_facts ex s) = option_max (ck_stopped s)"
  "cf_operator_completed (load_facts ex s) = (ck_completed s \<noteq> [])"
  "cf_operator_completed_at (load_facts ex s) = option_max (ck_completed s)"
  by (simp_all add: load_facts_def)

lemma outranks_rows:
  "operator_completion_outranks_stop (load_facts ex s) \<longleftrightarrow>
     ck_completed s \<noteq> [] \<and> (ck_stopped s = [] \<or> Max (set (ck_stopped s)) \<le> Max (set (ck_completed s)))"
  by (auto simp: operator_completion_outranks_stop_def loaded_ends option_max_def)

lemma status_ends:
  "status f = Stopped \<longleftrightarrow> cf_stopped f \<and> \<not> operator_completion_outranks_stop f"
  "status f = Done \<longleftrightarrow> \<not> (cf_stopped f \<and> \<not> operator_completion_outranks_stop f)
     \<and> (cf_operator_completed f \<or> newest_transition_is_terminal f)"
  by (simp_all add: status_def status_with_def)

lemma settled_stopped_iff: "settled_stopped s \<longleftrightarrow> rows_status ex s = Stopped"
proof -
  have "settled_stopped s \<longleftrightarrow> ck_stopped s \<noteq> []
      \<and> (ck_completed s = [] \<or> Max (set (ck_completed s)) < Max (set (ck_stopped s)))"
    unfolding settled_stopped_def
    by (cases "ck_stopped s = []"; cases "ck_completed s = []") (auto simp: not_le Max_gr_iff ex_in_conv)
  also have "\<dots> \<longleftrightarrow> rows_status ex s = Stopped"
    unfolding rows_status_def status_ends outranks_rows loaded_ends by linarith
  finally show ?thesis .
qed

lemma done_by_transition_newest:
  assumes "no_terminal_tie s"
  shows "done_by_transition_before s limit \<longleftrightarrow>
     newest_transition_is_terminal (load_facts ex s)
     \<and> (\<exists>n. newest_transition (load_facts ex s) = Some n
          \<and> (case limit of None \<Rightarrow> True | Some i \<Rightarrow> tr_recorded_at n < i))"
    (is "?L \<longleftrightarrow> ?R")
proof
  assume ?L
  then obtain t where "t \<in> set (ck_transitions s)" "unsuperseded_terminal s t"
      "case limit of None \<Rightarrow> True | Some i \<Rightarrow> xr_recorded_at t < i"
    unfolding done_by_transition_before_def by blast
  with unsuperseded_newest [of t s ex] show ?R by (auto split: option.splits)
next
  assume r: ?R
  then obtain t where t: "t \<in> set (ck_transitions s)" "unsuperseded_terminal s t"
      "newest_transition (load_facts ex s) = Some (transition_of_row ex t)"
    using newest_unsuperseded assms by metis
  with r have "case limit of None \<Rightarrow> True | Some i \<Rightarrow> xr_recorded_at t < i" by (auto split: option.splits)
  with t(1,2) show ?L unfolding done_by_transition_before_def by blast
qed

lemma unbeaten_max:
  fixes cs ss :: "int list"
  shows "(\<exists>c\<in>set cs. \<not> (\<exists>stop\<in>set ss. stop > c)) \<longleftrightarrow>
     cs \<noteq> [] \<and> (ss = [] \<or> Max (set ss) \<le> Max (set cs))"
proof (cases "cs = []")
  case False
  then have c: "Max (set cs) \<in> set cs" "\<And>c. c \<in> set cs \<Longrightarrow> c \<le> Max (set cs)" by simp_all
  show ?thesis
  proof
    assume "\<exists>c\<in>set cs. \<not> (\<exists>stop\<in>set ss. stop > c)"
    then obtain c where "c \<in> set cs" "\<And>x. x \<in> set ss \<Longrightarrow> x \<le> c" by force
    then have "ss \<noteq> [] \<longrightarrow> Max (set ss) \<le> c" "c \<le> Max (set cs)" using c(2) by simp_all
    with False show "cs \<noteq> [] \<and> (ss = [] \<or> Max (set ss) \<le> Max (set cs))" by linarith
  next
    assume "cs \<noteq> [] \<and> (ss = [] \<or> Max (set ss) \<le> Max (set cs))"
    then have "\<not> (\<exists>stop\<in>set ss. stop > Max (set cs))"
      by (cases "ss = []") (auto simp: not_less)
    with c(1) show "\<exists>c\<in>set cs. \<not> (\<exists>stop\<in>set ss. stop > c)" by blast
  qed
qed simp

lemma done_rows:
  "rows_status ex s = Done \<longleftrightarrow>
     (ck_completed s \<noteq> [] \<and> (ck_stopped s = [] \<or> Max (set (ck_stopped s)) \<le> Max (set (ck_completed s))))
     \<or> (ck_stopped s = [] \<and> ck_completed s = [] \<and> newest_transition_is_terminal (load_facts ex s))"
  unfolding rows_status_def status_ends outranks_rows loaded_ends by blast

lemma completed_at_done:
  "rows_status ex s = Done \<Longrightarrow> completed_at (load_facts ex s) =
     (if ck_completed s \<noteq> [] then option_max (ck_completed s)
      else map_option tr_recorded_at (newest_transition (load_facts ex s)))"
  unfolding done_rows completed_at_def outranks_rows loaded_ends by auto

lemma settled_done_iff:
  assumes "no_terminal_tie s"
  shows "settled_done s None \<longleftrightarrow> rows_status ex s = Done"
    and "settled_done s (Some i) \<longleftrightarrow> finished_before (load_facts ex s) i"
proof -
  have n: "newest_transition_is_terminal (load_facts ex s) \<longrightarrow> (\<exists>n. newest_transition (load_facts ex s) = Some n)"
    using terminal_transition by blast
  show "settled_done s None \<longleftrightarrow> rows_status ex s = Done"
    unfolding settled_done_def done_rows unbeaten_max done_by_transition_newest [OF assms, of _ ex] using n by auto
  have le: "\<not> (\<exists>c\<in>set (ck_completed s). c \<ge> i) \<longleftrightarrow> ck_completed s = [] \<or> Max (set (ck_completed s)) < i"
    by (cases "ck_completed s = []") (auto simp: not_le)
  show "settled_done s (Some i) \<longleftrightarrow> finished_before (load_facts ex s) i"
  proof (cases "rows_status ex s = Done")
    case False
    then show ?thesis
      unfolding settled_done_def unbeaten_max done_by_transition_newest [OF assms, of _ ex] finished_before_def
        rows_status_def [symmetric] using done_rows [of ex s] by auto
  next
    case True
    then show ?thesis
      unfolding settled_done_def unbeaten_max done_by_transition_newest [OF assms, of _ ex] finished_before_def
        rows_status_def [symmetric] completed_at_done [OF True] le using done_rows [of ex s] by (auto simp: option_max_def split: option.splits)
  qed
qed

lemma done_completed_at_exact:
  assumes tie: "no_terminal_tie s" and d: "rows_status ex s = Done"
  shows "done_completed_at s = completed_at (load_facts ex s)"
proof (cases "ck_completed s = []")
  case False
  then show ?thesis using completed_at_done [OF d] by (simp add: done_completed_at_def option_max_def)
next
  case True
  with d have "newest_transition_is_terminal (load_facts ex s)" by (simp add: done_rows)
  then obtain t where t: "t \<in> set (ck_transitions s)" "unsuperseded_terminal s t"
      "newest_transition (load_facts ex s) = Some (transition_of_row ex t)"
    using newest_unsuperseded tie by metis
  let ?us = "map xr_recorded_at (filter (unsuperseded_terminal s) (ck_transitions s))"
  have "xr_recorded_at x = xr_recorded_at t" if "x \<in> set (ck_transitions s)" "unsuperseded_terminal s x" for x
  proof -
    from unsuperseded_newest [OF that, of ex] obtain n where
      "newest_transition (load_facts ex s) = Some n" "tr_recorded_at n = xr_recorded_at x" by blast
    with t(3) show ?thesis by simp
  qed
  then have "set ?us \<subseteq> {xr_recorded_at t}" unfolding set_map set_filter by blast
  moreover have "xr_recorded_at t \<in> set ?us" using t(1,2) unfolding set_map set_filter by blast
  ultimately have "set ?us = {xr_recorded_at t}" by blast
  then have "option_max ?us = Some (xr_recorded_at t)"
    unfolding option_max_def by (metis Max_singleton empty_not_insert empty_set)
  with True t(3) completed_at_done [OF d] show ?thesis by (simp add: done_completed_at_def option_max_def)
qed

lemma is_terminal_sound: "is_terminal s \<Longrightarrow> rows_status ex s \<in> TERMINAL_STATUSES"
proof -
  assume "is_terminal s"
  then have "ck_stopped s \<noteq> [] \<or> ck_completed s \<noteq> [] \<or> newest_transition_is_terminal (load_facts ex s)"
    using unsuperseded_newest [of _ s ex] unfolding is_terminal_def done_by_transition_def by blast
  then have "rows_status ex s = Stopped \<or> rows_status ex s = Done"
    unfolding rows_status_def status_ends loaded_ends outranks_rows by blast
  then show "rows_status ex s \<in> TERMINAL_STATUSES" by (auto simp: TERMINAL_STATUSES_def)
qed

section \<open>Properties\<close>

text \<open>C4: The SQL terminal predicates agree with the derived status: settled_stopped is stopped,
  settled_done is done, its finished_before form is ChunkFacts.finished_before, maybe_live is
  not ended, and done_completed_at is completed_at, on every chunk with no two transitions at
  one (recorded_at, epoch) of which only one is terminal.\<close>

theorem terminal_predicates_exact:
  assumes "no_terminal_tie s"
  shows "(settled_stopped s \<longleftrightarrow> rows_status ex s = Stopped)
     \<and> (settled_done s None \<longleftrightarrow> rows_status ex s = Done)
     \<and> (settled_done s (Some i) \<longleftrightarrow> finished_before (load_facts ex s) i)
     \<and> (maybe_live s \<longleftrightarrow> rows_status ex s \<notin> TERMINAL_STATUSES)
     \<and> (rows_status ex s = Done \<longrightarrow> done_completed_at s = completed_at (load_facts ex s))"
proof -
  have "is_terminal s" if t: "rows_status ex s \<in> TERMINAL_STATUSES"
  proof -
    have "rows_status ex s = Stopped \<or> settled_done s None"
      using t settled_done_iff(1) [OF assms] by (auto simp: TERMINAL_STATUSES_def)
    moreover have "rows_status ex s = Stopped \<longrightarrow> ck_stopped s \<noteq> []"
      unfolding rows_status_def status_ends loaded_ends by blast
    moreover have "settled_done s None \<longrightarrow> ck_completed s \<noteq> [] \<or> done_by_transition s"
      by (auto simp: settled_done_def done_by_transition_before_None)
    ultimately show ?thesis unfolding is_terminal_def by blast
  qed
  then have "maybe_live s \<longleftrightarrow> rows_status ex s \<notin> TERMINAL_STATUSES"
    unfolding maybe_live_def using is_terminal_sound by blast
  with settled_stopped_iff settled_done_iff [OF assms] done_completed_at_exact [OF assms]
  show ?thesis by blast
qed

theorem fenced_chunk_reads_ended:
  assumes "is_terminal s"
  shows "rows_status ex s \<in> TERMINAL_STATUSES
     \<and> (\<forall>verb. admits (load_facts ex s) verb \<longleftrightarrow> verb \<in> {VIngestHeldWorkRef, VResume, VComplete})"
  using is_terminal_sound [OF assms, of ex] ended_refuses [OF is_terminal_sound [OF assms, of ex]]
  by (simp add: admits_def rows_status_def)

section \<open>Witnesses\<close>

lemma finished_no_tie: "no_terminal_tie finished_rows"
  by (simp add: no_terminal_tie_def finished_rows_def xr_key_def sample_row_def)

theorem terminal_predicates_exact_witness:
  "settled_done finished_rows None \<and> rows_status (\<lambda>_. None) finished_rows = Done
     \<and> done_completed_at finished_rows = completed_at (load_facts (\<lambda>_. None) finished_rows)"
proof -
  have "rows_status (\<lambda>_. None) finished_rows = Done" by code_simp
  with terminal_predicates_exact [OF finished_no_tie, of "\<lambda>_. None" 0] show ?thesis by simp
qed

theorem fenced_chunk_reads_ended_witness:
  "rows_status (\<lambda>_. None) finished_rows \<in> TERMINAL_STATUSES"
proof -
  have "is_terminal finished_rows" by code_simp
  from fenced_chunk_reads_ended [OF this] show ?thesis by simp
qed

end
