(* ===== verification/Store_Steps.thy ===== *)
theory Store_Steps
  imports Chunk_Writes Terminal_Predicates "HOL-Library.Sublist" "HOL-Library.Multiset"
begin

text \<open>
  The store as a state machine: one step is one committed transaction of a chunk adapter. Tables are
  append-only ledgers (two of them also update a row's instants in place), so whatever a fenced decision once read stays true; the latest epoch never
  falls, an epoch keeps its first owner, and every fenced write is refused on a stale or terminal
  chunk. The interfaces are locales, interpreted on the tables and on the writes.
\<close>

section \<open>Interfaces\<close>

text \<open>A table the steps only append to.\<close>

locale ledger =
  fixes step :: "'s \<Rightarrow> 's \<Rightarrow> bool"
    and entries :: "'s \<Rightarrow> 'a list"
  assumes appends: "step s s' \<Longrightarrow> prefix (entries s) (entries s')"
begin

lemma steps_append: "step\<^sup>*\<^sup>* s s' \<Longrightarrow> prefix (entries s) (entries s')"
proof (induction rule: rtranclp_induct)
  case base
  show ?case by simp
next
  case (step y z)
  from step.IH appends [OF step.hyps(2)] show ?case by (rule prefix_order.trans)
qed

lemma steps_keep: "step\<^sup>*\<^sup>* s s' \<Longrightarrow> set (entries s) \<subseteq> set (entries s')"
  using steps_append by (rule set_mono_prefix)

lemma steps_find: "step\<^sup>*\<^sup>* s s' \<Longrightarrow> List.find P (entries s) = Some x \<Longrightarrow> List.find P (entries s') = Some x"
  by (drule steps_append) (auto simp: prefix_def find_append)

end

text \<open>A write behind the fence: refused, it changes nothing and is not accepted.\<close>

locale fenced_write =
  fixes put :: "'w \<Rightarrow> chunk_rows \<Rightarrow> chunk_rows"
    and accepted :: "'w \<Rightarrow> chunk_rows \<Rightarrow> bool"
    and epoch :: "'w \<Rightarrow> int"
    and admission :: "'w \<Rightarrow> epoch_admission"
    and claimant :: "'w \<Rightarrow> claimant option"
  assumes refused: "fence s (epoch w) (admission w) (claimant w) \<noteq> None \<Longrightarrow> \<not> accepted w s \<and> put w s = s"
begin

lemma accepted_fence: "accepted w s \<Longrightarrow> fence s (epoch w) (admission w) (claimant w) = None"
  using refused by blast

lemma terminal_refuses: "is_terminal s \<Longrightarrow> \<not> accepted w s \<and> put w s = s"
  by (rule refused) (simp add: fence_def)

lemma stale_refuses: "latest_epoch s \<noteq> 0 \<Longrightarrow> epoch w < latest_epoch s \<Longrightarrow> \<not> accepted w s \<and> put w s = s"
  using current_stale by (intro refused) (auto simp: fence_def Let_def)

lemma accepted_owns:
  assumes "accepted w s" and "claimant w = Some c"
  shows "epoch_owner_of s (epoch w) = Some (Some (cl_runner_id c))"
  using accepted_fence [OF assms(1)] assms(2)
  by (auto simp: fence_def Let_def claimant_owns_runner split: if_splits)

lemma accepted_current:
  assumes "accepted w s" and "admission w = AdmitCurrent" and "latest_epoch s \<noteq> 0"
  shows "epoch w = latest_epoch s"
  using accepted_fence [OF assms(1)] assms(2,3) by (auto simp: fence_def Let_def split: if_splits)

end

section \<open>The fenced writes\<close>

text \<open>What a transaction leaves behind: its rows, or the rows before it when it raised.\<close>

definition committed :: "chunk_rows \<Rightarrow> store_error + ('r \<times> chunk_rows) \<Rightarrow> chunk_rows" where
  "committed s result = (case result of Inl _ \<Rightarrow> s | Inr (_, s') \<Rightarrow> s')"

definition answered :: "store_error + ('r \<times> chunk_rows) \<Rightarrow> 'r \<Rightarrow> bool" where
  "answered result r \<longleftrightarrow> (case result of Inl _ \<Rightarrow> False | Inr (r', _) \<Rightarrow> r' = r)"

interpretation transition_fence: fenced_write
  "\<lambda>w s. committed s (record_transition w s)" "\<lambda>w s. answered (record_transition w s) None"
  tw_epoch tw_admission tw_claimant
  by unfold_locales (auto simp: record_transition_def committed_def answered_def)

interpretation migration_fence: fenced_write
  "\<lambda>w s. committed s (record_migration w s)"
  "\<lambda>w s. \<exists>m. answered (record_migration w s) (Migrated m)"
  mw_epoch mw_admission mw_claimant
  by unfold_locales (auto simp: record_migration_def committed_def answered_def)

interpretation escalation_fence: fenced_write
  "\<lambda>w s. snd (record_escalation w s)" "\<lambda>w s. fst (record_escalation w s) = None"
  ew_epoch ew_admission ew_claimant
  by unfold_locales (auto simp: record_escalation_def)

interpretation decision_fence: fenced_write
  "\<lambda>w s. committed s (record_decision w s)" "\<lambda>w s. answered (record_decision w s) None"
  "\<lambda>w. dr_epoch (dw_decision w)" dw_admission dw_claimant
  by unfold_locales (auto simp: record_decision_def committed_def answered_def)

interpretation hub_step_fence: fenced_write
  "\<lambda>w s. committed s (record_hub_step_transition w s)"
  "\<lambda>w s. answered (record_hub_step_transition w s) True"
  hw_epoch hw_admission "\<lambda>_. None"
  by unfold_locales (auto simp: record_hub_step_transition_def committed_def answered_def)

section \<open>Tables only grow\<close>

text \<open>Two tables are also updated in place: a close intent is retired once, and the newest row of an
  awaiting-merge wait takes the instants of its last and next poll.\<close>

definition rows_extend :: "('a \<Rightarrow> 'a \<Rightarrow> bool) \<Rightarrow> 'a list \<Rightarrow> 'a list \<Rightarrow> bool" where
  "rows_extend kept xs ys \<longleftrightarrow> length xs \<le> length ys \<and> (\<forall>i<length xs. kept (xs ! i) (ys ! i))"

definition intent_kept :: "close_intent_row \<Rightarrow> close_intent_row \<Rightarrow> bool" where
  "intent_kept i j \<longleftrightarrow> j = i \<or> (ci_retired_at i = None \<and> (\<exists>at. j = i\<lparr>ci_retired_at := Some at\<rparr>))"

definition poll_kept :: "hub_node_poll_fact \<Rightarrow> hub_node_poll_fact \<Rightarrow> bool" where
  "poll_kept p q \<longleftrightarrow> q = p
     \<or> (poll_kind p = ''awaiting-merge''
        \<and> (\<exists>at nx. q = p\<lparr>poll_last_polled_at := Some at, poll_next_poll_at := nx\<rparr>))"

lemma intent_kept_refl [simp]: "intent_kept i i"
  by (simp add: intent_kept_def)

lemma poll_kept_refl [simp]: "poll_kept p p"
  by (simp add: poll_kept_def)

lemma intent_kept_trans: "intent_kept i j \<Longrightarrow> intent_kept j k \<Longrightarrow> intent_kept i k"
  by (auto simp: intent_kept_def)

lemma poll_kept_trans: "poll_kept p q \<Longrightarrow> poll_kept q r \<Longrightarrow> poll_kept p r"
  unfolding poll_kept_def by (elim disjE conjE exE; simp; blast)

lemma rows_extend_append: "(\<And>x. kept x x) \<Longrightarrow> rows_extend kept xs (xs @ ys)"
  by (simp add: rows_extend_def nth_append)

lemma rows_extend_trans:
  assumes "\<And>x y z. kept x y \<Longrightarrow> kept y z \<Longrightarrow> kept x z"
    and "rows_extend kept xs ys" and "rows_extend kept ys zs"
  shows "rows_extend kept xs zs"
  using assms(2,3) unfolding rows_extend_def by (meson assms(1) order.strict_trans2 order.trans)

lemma rows_extend_update:
  "(\<And>x. kept x x) \<Longrightarrow> (i < length xs \<Longrightarrow> kept (xs ! i) x) \<Longrightarrow> rows_extend kept xs (xs[i := x])"
  by (cases "i < length xs") (auto simp: rows_extend_def nth_list_update)

lemma rows_extend_map: "(\<And>x. kept x (f x)) \<Longrightarrow> rows_extend kept xs (map f xs)"
  by (simp add: rows_extend_def)

definition intents_extend :: "close_intent_row list \<Rightarrow> close_intent_row list \<Rightarrow> bool" where
  "intents_extend = rows_extend intent_kept"

definition polls_extend :: "hub_node_poll_fact list \<Rightarrow> hub_node_poll_fact list \<Rightarrow> bool" where
  "polls_extend = rows_extend poll_kept"

lemma intents_extend_refl [simp]: "intents_extend xs xs"
  and intents_extend_append [simp]: "intents_extend xs (xs @ ys)"
  using rows_extend_append [of intent_kept xs "[]"] rows_extend_append [of intent_kept xs ys]
  by (simp_all add: intents_extend_def)

lemma polls_extend_refl [simp]: "polls_extend ps ps"
  and polls_extend_append [simp]: "polls_extend ps (ps @ qs)"
  using rows_extend_append [of poll_kept ps "[]"] rows_extend_append [of poll_kept ps qs]
  by (simp_all add: polls_extend_def)

lemma intents_extend_trans: "intents_extend xs ys \<Longrightarrow> intents_extend ys zs \<Longrightarrow> intents_extend xs zs"
  unfolding intents_extend_def by (rule rows_extend_trans [OF intent_kept_trans])

lemma polls_extend_trans: "polls_extend xs ys \<Longrightarrow> polls_extend ys zs \<Longrightarrow> polls_extend xs zs"
  unfolding polls_extend_def by (rule rows_extend_trans [OF poll_kept_trans])

lemma intents_retired: "intents_extend xs (map (\<lambda>i. if P i \<and> ci_retired_at i = None
    then i\<lparr>ci_retired_at := Some at\<rparr> else i) xs)"
  unfolding intents_extend_def by (rule rows_extend_map) (auto simp: intent_kept_def)

lemma polls_polled: "(i < length ps \<Longrightarrow> poll_kind (ps ! i) = ''awaiting-merge'')
    \<Longrightarrow> polls_extend ps (ps[i := (ps ! i)\<lparr>poll_last_polled_at := Some at, poll_next_poll_at := nx\<rparr>])"
  unfolding polls_extend_def by (rule rows_extend_update) (auto simp: poll_kept_def)

definition grows :: "chunk_rows \<Rightarrow> chunk_rows \<Rightarrow> bool" where
  "grows s s' \<longleftrightarrow>
     prefix (ck_leases s) (ck_leases s') \<and> prefix (ck_owners s) (ck_owners s')
     \<and> prefix (ck_transitions s) (ck_transitions s') \<and> prefix (ck_migrations s) (ck_migrations s')
     \<and> prefix (ck_restarts s) (ck_restarts s') \<and> prefix (ck_routes s) (ck_routes s')
     \<and> prefix (ck_released s) (ck_released s') \<and> prefix (ck_tokens s) (ck_tokens s')
     \<and> prefix (ck_escalations s) (ck_escalations s') \<and> prefix (ck_requeues s) (ck_requeues s')
     \<and> prefix (ck_bounces s) (ck_bounces s') \<and> prefix (ck_pauses s) (ck_pauses s')
     \<and> prefix (ck_stopped s) (ck_stopped s') \<and> prefix (ck_completed s) (ck_completed s')
     \<and> prefix (ck_promoted s) (ck_promoted s') \<and> prefix (ck_demoted s) (ck_demoted s')
     \<and> prefix (ck_artifacts s) (ck_artifacts s') \<and> prefix (ck_closures s) (ck_closures s')
     \<and> prefix (ck_answers s) (ck_answers s') \<and> prefix (ck_decisions s) (ck_decisions s')
     \<and> prefix (ck_resolutions s) (ck_resolutions s') \<and> prefix (ck_landed_repos s) (ck_landed_repos s')
     \<and> prefix (ck_questions s) (ck_questions s') \<and> prefix (ck_deliveries s) (ck_deliveries s')
     \<and> prefix (ck_skip_events s) (ck_skip_events s')
     \<and> intents_extend (ck_close_intents s) (ck_close_intents s')
     \<and> polls_extend (ck_polls s) (ck_polls s')"

lemma grows_refl [simp]: "grows s s"
  by (simp add: grows_def)

lemma grows_trans [trans]: "grows s t \<Longrightarrow> grows t u \<Longrightarrow> grows s u"
  unfolding grows_def by (blast intro: prefix_order.trans intents_extend_trans polls_extend_trans)

named_theorems grow \<open>the writes that only append\<close>

lemma grows_fold: "(\<And>x s. grows s (f x s)) \<Longrightarrow> grows s (fold f xs s)"
  by (induction xs arbitrary: s) (auto intro: grows_trans)

lemma grows_owner [grow]: "grows s (record_epoch_owner e w at s)"
  by (simp add: record_epoch_owner_def grows_def)

lemma grows_hub_lease [grow]: "grows s (record_hub_lease e r at s)"
  unfolding record_hub_lease_def by (rule grows_trans [OF _ grows_owner]) (simp add: grows_def)

lemma grows_artifacts [grow]: "grows s (insert_artifacts at xs s)"
  unfolding insert_artifacts_def by (rule grows_fold) (simp add: insert_artifact_def grows_def)

lemma grows_enqueue_one: "grows s (enqueue_one settled already d at r s)"
  by (simp add: enqueue_one_def grows_def intents_retired)

lemma grows_enqueue [grow]: "enqueue_close_intents at d s = Inr s' \<Longrightarrow> grows s s'"
  by (auto simp: enqueue_close_intents_def Let_def intro: grows_fold grows_enqueue_one split: if_splits)

lemma grows_insert_transition [grow]: "grows s (insert_transition w s)"
  by (simp add: insert_transition_def grows_def)

lemma grows_insert_migration [grow]: "grows s (insert_migration w s)"
  by (simp add: insert_migration_def grows_def)

lemma grows_release [grow]: "grows s (insert_release at c r s)"
  by (simp add: insert_release_def grows_def)

lemma grows_token [grow]: "grows s (insert_token h at s)"
  by (simp add: insert_token_def grows_def)

lemma grows_live_release [grow]: "grows s (release_live_route at s)"
  by (simp add: release_live_route_def grow)

lemma grows_escalation [grow]: "grows s (insert_escalation w s)"
  by (simp add: insert_escalation_def grows_def)

text \<open>A write that may enqueue close intents at its end.\<close>

lemma map_sum_Inr: "map_sum id f x = Inr y \<longleftrightarrow> (\<exists>z. x = Inr z \<and> y = f z)"
  by (cases x) auto

lemma grows_transition [grow]:
  assumes "record_transition w s = Inr (r, s')"
  shows "grows s s'"
proof -
  have "grows s (insert_artifacts (tw_at w) (tw_artifacts w) (insert_transition w s))"
    by (rule grows_trans [OF grows_insert_transition grows_artifacts])
  with assms show ?thesis
    by (auto simp: record_transition_def Let_def map_sum_Inr dest!: grows_enqueue
        intro: grows_trans split: option.splits if_splits)
qed

lemma grows_migration [grow]:
  assumes "record_migration w s = Inr (r, s')"
  shows "grows s s'"
proof -
  let ?s2 = "if mw_release_route w then insert_release (mw_at w) None None (insert_migration w s) else insert_migration w s"
  have "grows s ?s2" using grows_trans [OF grows_insert_migration grows_release] by (simp add: grow)
  then have "grows s (insert_artifacts (mw_at w) (mw_artifacts w) ?s2)" by (rule grows_trans [OF _ grows_artifacts])
  with assms show ?thesis
    by (auto simp: record_migration_def Let_def map_sum_Inr dest!: grows_enqueue
        intro: grows_trans split: option.splits if_splits)
qed

lemma grows_restart [grow]: "grows s (record_restart w s)"
proof -
  let ?s1 = "fold (answer_superseded (sw_answer w) (sw_by w) (sw_at w)) (sw_answered_question_ids w) s"
  let ?e = "latest_epoch s + 1"
  let ?s2 = "case sw_to_graph_id w of None \<Rightarrow> ?s1 | Some g \<Rightarrow> repin_by_restart w g ?e ?s1"
  have 1: "grows s ?s1" by (rule grows_fold) (simp add: answer_superseded_def grows_def)
  have 2: "grows ?s1 ?s2" by (simp add: repin_by_restart_def grows_def split: option.split)
  have 3: "grows ?s2 (?s2\<lparr>ck_restarts := ck_restarts ?s2 @ rs\<rparr>)" for rs by (simp add: grows_def)
  show ?thesis unfolding record_restart_def Let_def
    by (rule grows_trans [OF grows_trans [OF 1 grows_trans [OF 2 3]] grows_owner])
qed

lemma grows_route [grow]: "grows s (record_route i r h at s)"
  unfolding record_route_def Let_def
  by (rule grows_trans [OF grows_trans [OF _ grows_token] grows_owner]) (simp add: grows_def)

lemma grows_lease [grow]: "record_lease_minted e c at s = (r, s') \<Longrightarrow> grows s s'"
  using grows_owner [of s e "Some (cl_runner_id c)" at]
  by (auto simp: record_lease_minted_def Let_def split: option.splits if_splits intro: grows_trans
      simp: grows_def)

lemma grows_hub_step [grow]:
  assumes "record_hub_step_transition w s = Inr (r, s')"
  shows "grows s s'"
proof -
  let ?s1 = "record_hub_lease (hw_epoch w) (hw_runner_id w) (hw_at w) s"
  let ?s2 = "?s1\<lparr>ck_transitions := ck_transitions ?s1 @ [hub_step_transition_row w ?s1]\<rparr>"
  let ?s3 = "insert_artifacts (hw_at w) (hw_artifacts w) ?s2"
  let ?s4 = "if hw_release_route w then insert_release (hw_at w) None None ?s3 else ?s3"
  have 2: "grows ?s1 ?s2" by (simp add: grows_def)
  have "grows s ?s3" by (rule grows_trans [OF grows_trans [OF grows_hub_lease 2] grows_artifacts])
  moreover have "grows ?s3 ?s4" by (simp add: grow)
  ultimately have 4: "grows s ?s4" by (rule grows_trans)
  show ?thesis
    using assms 4 unfolding record_hub_step_transition_def Let_def
    by (auto simp: map_sum_Inr dest!: grows_enqueue intro: grows_trans split: if_splits)
qed

lemma grows_poll [grow]: "grows s (record_hub_node_poll n e k at nx s)"
  by (auto simp: record_hub_node_poll_def Let_def grows_def intro: polls_polled)

lemma grows_escalate [grow]: "record_escalation w s = (r, s') \<Longrightarrow> grows s s'"
  by (auto simp: record_escalation_def grow split: option.splits)

lemma grows_bounce [grow]: "record_bounce e a c v at s = (r, s') \<Longrightarrow> grows s s'"
  by (auto simp: record_bounce_def grows_def split: if_splits)

lemma grows_bounce_escalation [grow]: "record_bounce_escalation i w s = (r, s') \<Longrightarrow> grows s s'"
  by (auto simp: record_bounce_escalation_def grow split: if_splits
      intro: grows_trans [OF grows_hub_lease grows_escalation])

lemma grows_decision [grow]:
  assumes "record_decision w s = Inr (r, s')"
  shows "grows s s'"
proof -
  have "grows s (s\<lparr>ck_decisions := ck_decisions s @ [dw_decision w]\<rparr>)" by (simp add: grows_def)
  then have "grows s (insert_artifacts at xs (s\<lparr>ck_decisions := ck_decisions s @ [dw_decision w]\<rparr>))" for at xs
    by (rule grows_trans [OF _ grows_artifacts])
  with assms show ?thesis
    by (auto simp: record_decision_def Let_def map_sum_Inr dest!: grows_enqueue
        intro: grows_trans split: option.splits if_splits)
qed

lemma grows_decision_locked [grow]: "record_decision_locked w s = Inr (r, s') \<Longrightarrow> grows s s'"
  by (auto simp: record_decision_locked_def map_sum_Inr dest!: grows_decision split: if_splits)

lemma grows_resolution [grow]: "record_decision_resolution r s = (b, s') \<Longrightarrow> grows s s'"
  by (auto simp: record_decision_resolution_def grows_def split: if_splits)

lemma grows_stop [grow]: "grows s (record_stop at s)"
  unfolding record_stop_def by (rule grows_trans [OF _ grows_live_release]) (simp add: grows_def)

lemma grows_completion [grow]:
  assumes "record_completion at d s = Inr s'"
  shows "grows s s'"
proof -
  have "grows s (release_live_route at (s\<lparr>ck_completed := ck_completed s @ [at]\<rparr>))"
    by (rule grows_trans [OF _ grows_live_release]) (simp add: grows_def)
  with assms show ?thesis unfolding record_completion_def by (blast intro: grows_trans grows_enqueue)
qed

lemma grows_landing [grow]:
  assumes "write_landing_rows w s = Inr (r, s')"
  shows "grows s s'"
proof -
  have "grows s (insert_artifact at a s)" for at a by (simp add: insert_artifact_def grows_def)
  moreover have "grows t (t\<lparr>ck_landed_repos := ck_landed_repos t @ [x]\<rparr>)" for t x by (simp add: grows_def)
  ultimately have "grows s (insert_artifact at a s\<lparr>ck_landed_repos := ck_landed_repos (insert_artifact at a s) @ [x]\<rparr>)"
    for at a x by (blast intro: grows_trans)
  with assms show ?thesis
    by (auto simp: write_landing_rows_def Let_def map_sum_Inr dest!: grows_enqueue
        intro: grows_trans split: if_splits)
qed

lemma grows_hub_artifact [grow]:
  assumes "record_hub_artifact w s = Inr (r, s')"
  shows "grows s s'"
proof -
  have "grows s (insert_artifact at a s)" for at a by (simp add: insert_artifact_def grows_def)
  with assms show ?thesis
    by (auto simp: record_hub_artifact_def Let_def map_sum_Inr dest!: grows_enqueue intro: grows_trans split: if_splits)
qed

lemma grows_question [grow]: "record_question el q adm cl s = (r, s') \<Longrightarrow> grows s s'"
  by (auto simp: record_question_def grows_def split: if_splits option.splits)

lemma grows_answer [grow]: "answer_question a s = (o', s') \<Longrightarrow> grows s s'"
  by (auto simp: answer_question_def grows_def split: option.splits)

section \<open>Steps\<close>

text \<open>One committed transaction. A write its service guards by the chunk's derived status, read
  under the same lock, is a step only where the guard holds; \<open>executors\<close> is the graph store's table
  at that moment.\<close>

inductive store_step :: "chunk_rows \<Rightarrow> chunk_rows \<Rightarrow> bool" where
  transition: "record_transition tw s = Inr (r, s') \<Longrightarrow> store_step s s'"
| migration: "record_migration mw s = Inr (m, s') \<Longrightarrow> store_step s s'"
| restart: "admits (load_facts ex s) VRestart \<Longrightarrow> store_step s (record_restart sw s)"
| requeue: "admits (load_facts ex s) VRequeue \<Longrightarrow> store_step s (record_requeue at who why s)"
| claim: "route_of s = None \<Longrightarrow> admits (load_facts ex s) VClaim \<Longrightarrow> store_step s (record_route i rt h at s)"
| release: "store_step s (record_route_released at cause reason s)"
| rekey: "admits (load_facts ex s) VRekeyRouteToken \<Longrightarrow> store_step s (record_route_token h at s)"
| lease: "record_lease_minted e c at s = (r, s') \<Longrightarrow> store_step s s'"
| hub_step: "record_hub_step_transition hw s = Inr (b, s') \<Longrightarrow> store_step s s'"
| poll: "store_step s (record_hub_node_poll n e k at nx s)"
| escalation: "record_escalation ew s = (r, s') \<Longrightarrow> store_step s s'"
| bounce: "record_bounce e adm cause env at s = (b, s') \<Longrightarrow> store_step s s'"
| bounce_escalation: "record_bounce_escalation i ew s = (o', s') \<Longrightarrow> store_step s s'"
| decision: "record_decision dw s = Inr (r, s') \<Longrightarrow> store_step s s'"
| decision_locked: "record_decision_locked dw s = Inr (d, s') \<Longrightarrow> store_step s s'"
| resolution: "record_decision_resolution rv s = (b, s') \<Longrightarrow> store_step s s'"
| pause: "store_step s (record_pause p who at s)"
| stop: "admits (load_facts ex s) VStop \<Longrightarrow> store_step s (record_stop at s)"
| completion: "record_completion at d s = Inr s' \<Longrightarrow> store_step s s'"
| promote: "store_step s (record_promote at s)"
| promote_ranked: "store_step s (insert_promote_rows at s)"
| demote: "admits (load_facts ex s) VDemote \<Longrightarrow> store_step s (insert_demote_rows at s)"
| landing: "write_landing_rows lw s = Inr (b2, s') \<Longrightarrow> store_step s s'"
| hub_artifact: "record_hub_artifact aw s = Inr (b, s') \<Longrightarrow> store_step s s'"
| question: "record_question el q adm cl s = (r, s') \<Longrightarrow> store_step s s'"
| answer: "admits (load_facts ex s) VAnswerQuestion \<Longrightarrow> answer_question a s = (o2, s') \<Longrightarrow> store_step s s'"
| delivered: "store_step s (record_answer_delivered i at s)"

lemma store_step_grows: "store_step s s' \<Longrightarrow> grows s s'"
proof (induction rule: store_step.induct)
  case (requeue ex s) then show ?case by (simp add: record_requeue_def grows_def)
next
  case (release s) then show ?case by (simp add: record_route_released_def grow)
next
  case (rekey ex s) then show ?case by (simp add: record_route_token_def grow)
next
  case (pause s) then show ?case by (simp add: record_pause_def grows_def)
next
  case (promote s) then show ?case by (simp add: record_promote_def grows_def)
next
  case (promote_ranked s) then show ?case by (simp add: insert_promote_rows_def grows_def)
next
  case (demote ex s) then show ?case by (simp add: insert_demote_rows_def grows_def)
next
  case (delivered s) then show ?case by (simp add: record_answer_delivered_def grows_def)
qed (blast intro: grow)+

interpretation owners: ledger store_step ck_owners
  by unfold_locales (drule store_step_grows, simp add: grows_def)

interpretation leases: ledger store_step ck_leases
  by unfold_locales (drule store_step_grows, simp add: grows_def)

interpretation restarts: ledger store_step ck_restarts
  by unfold_locales (drule store_step_grows, simp add: grows_def)

interpretation transitions: ledger store_step ck_transitions
  by unfold_locales (drule store_step_grows, simp add: grows_def)

interpretation migrations: ledger store_step ck_migrations
  by unfold_locales (drule store_step_grows, simp add: grows_def)

interpretation stops: ledger store_step ck_stopped
  by unfold_locales (drule store_step_grows, simp add: grows_def)

interpretation completions: ledger store_step ck_completed
  by unfold_locales (drule store_step_grows, simp add: grows_def)

section \<open>The invariant\<close>

definition route_seqs :: "chunk_rows \<Rightarrow> int list" where
  "route_seqs s = map wr_seq (ck_routes s) @ map wl_seq (ck_released s) @ map rt_seq (ck_tokens s)"

definition store_inv :: "chunk_rows \<Rightarrow> bool" where
  "store_inv s \<longleftrightarrow>
     (\<forall>r\<in>set (ck_restarts s). 1 \<le> sr_epoch r)
     \<and> distinct (map ow_epoch (ck_owners s))
     \<and> distinct (route_seqs s) \<and> (\<forall>q\<in>set (route_seqs s). 1 \<le> q)"

lemma col_max_ge: "x \<in> set xs \<Longrightarrow> x \<le> col_max xs"
  by (auto simp: col_max_def)

lemma col_max_in: "col_max xs = 0 \<or> col_max xs \<in> set xs"
  by (simp add: col_max_def)

lemma next_route_seq_greater: "q \<in> set (route_seqs s) \<Longrightarrow> q < next_route_seq s"
  using col_max_ge [of q "map wr_seq (ck_routes s)"] col_max_ge [of q "map wl_seq (ck_released s)"]
    col_max_ge [of q "map rt_seq (ck_tokens s)"]
  unfolding route_seqs_def next_route_seq_def by auto

lemma next_route_seq_pos: "store_inv s \<Longrightarrow> 1 \<le> next_route_seq s"
proof -
  assume "store_inv s"
  then have pos: "\<And>q. q \<in> set (map wr_seq (ck_routes s)) \<Longrightarrow> 1 \<le> q"
    unfolding store_inv_def route_seqs_def by simp
  have "0 \<le> col_max (map wr_seq (ck_routes s))"
    using col_max_in [of "map wr_seq (ck_routes s)"] pos [of "col_max (map wr_seq (ck_routes s))"] by linarith
  then show ?thesis by (simp add: next_route_seq_def)
qed

text \<open>The parts the invariant reads, and the writes that leave them alone.\<close>

definition inv_part :: "chunk_rows \<Rightarrow> restart_row list \<times> owner_row list \<times> route_row list \<times> released_row list \<times> route_token_fact list" where
  "inv_part s = (ck_restarts s, ck_owners s, ck_routes s, ck_released s, ck_tokens s)"

lemma store_inv_cong: "inv_part s = inv_part t \<Longrightarrow> store_inv s = store_inv t"
  by (simp add: inv_part_def store_inv_def route_seqs_def)

lemma inv_part_artifacts [simp]: "inv_part (insert_artifacts at xs s) = inv_part s"
proof (induction xs arbitrary: s)
  case Nil
  then show ?case by (simp add: insert_artifacts_def)
next
  case (Cons x xs)
  then show ?case by (simp add: insert_artifacts_def) (simp add: inv_part_def insert_artifact_def)
qed

lemma inv_part_enqueue: "enqueue_close_intents at d s = Inr s' \<Longrightarrow> inv_part s' = inv_part s"
proof -
  have one: "inv_part (enqueue_one a b d at r t) = inv_part t" for a b r t
    by (simp add: enqueue_one_def inv_part_def)
  have "inv_part (fold (enqueue_one a b d at) rs t) = inv_part t" for a b rs t
    by (induction rs arbitrary: t) (auto simp: one)
  then show "enqueue_close_intents at d s = Inr s' \<Longrightarrow> inv_part s' = inv_part s"
    by (auto simp: enqueue_close_intents_def Let_def split: if_splits)
qed

lemma inv_part_plain [simp]:
  "inv_part (insert_transition w s) = inv_part s" "inv_part (insert_migration mw s) = inv_part s"
  "inv_part (insert_escalation ew s) = inv_part s" "inv_part (record_hub_node_poll n e k at nx s) = inv_part s"
  by (simp_all add: inv_part_def insert_transition_def insert_migration_def insert_escalation_def
      record_hub_node_poll_def Let_def)

lemma inv_answer [simp]: "inv_part (fold (answer_superseded a b at) qs s) = inv_part s"
  by (induction qs arbitrary: s) (auto simp: inv_part_def answer_superseded_def)

named_theorems inv_keeps \<open>the writes that keep the store invariant\<close>

lemma inv_owner [inv_keeps]:
  assumes "store_inv s"
  shows "store_inv (record_epoch_owner e w at s)"
proof (cases "epoch_owner_of s e")
  case None
  then have "e \<notin> ow_epoch ` set (ck_owners s)" by (auto simp: epoch_owner_of_def find_eq_None)
  with None assms show ?thesis by (simp add: record_epoch_owner_def store_inv_def route_seqs_def)
next
  case (Some a)
  with assms show ?thesis by (simp add: record_epoch_owner_def)
qed

lemma inv_hub_lease [inv_keeps]: "store_inv s \<Longrightarrow> store_inv (record_hub_lease e r at s)"
  unfolding record_hub_lease_def by (rule inv_owner) (simp add: store_inv_def route_seqs_def)

lemma inv_fresh_seq:
  assumes "store_inv s" and "mset (route_seqs t) = add_mset (next_route_seq s) (mset (route_seqs s))"
    and "ck_restarts t = ck_restarts s" and "ck_owners t = ck_owners s"
  shows "store_inv t"
proof -
  have d: "distinct (route_seqs t) \<longleftrightarrow> distinct (next_route_seq s # route_seqs s)"
    using assms(2) by (intro mset_eq_imp_distinct_iff) simp
  have "set (route_seqs t) = set (next_route_seq s # route_seqs s)"
    using arg_cong [OF assms(2), of set_mset] by simp
  then show ?thesis
    using d assms(1,3,4) next_route_seq_greater [of "next_route_seq s" s] next_route_seq_pos [OF assms(1)]
    unfolding store_inv_def by auto
qed

lemma inv_release [inv_keeps]: "store_inv s \<Longrightarrow> store_inv (insert_release at c r s)"
  by (erule inv_fresh_seq) (simp_all add: insert_release_def route_seqs_def)

lemma inv_token [inv_keeps]: "store_inv s \<Longrightarrow> store_inv (insert_token h at s)"
  by (erule inv_fresh_seq) (simp_all add: insert_token_def route_seqs_def)

lemma inv_live_release [inv_keeps]: "store_inv s \<Longrightarrow> store_inv (release_live_route at s)"
  by (simp add: release_live_route_def inv_release)

lemma latest_epoch_nonneg: "store_inv s \<Longrightarrow> 0 \<le> latest_epoch s"
  using col_max_in [of "map sr_epoch (ck_restarts s)"]
  by (force simp: latest_epoch_def store_inv_def)

lemma inv_transition: "record_transition w s = Inr (r, s') \<Longrightarrow> store_inv s \<Longrightarrow> store_inv s'"
  using store_inv_cong [of s s'] inv_part_enqueue
  by (auto simp: record_transition_def Let_def map_sum_Inr split: option.splits if_splits)

lemma inv_migration:
  assumes "record_migration w s = Inr (r, s')" and "store_inv s"
  shows "store_inv s'"
proof -
  let ?s2 = "if mw_release_route w then insert_release (mw_at w) None None (insert_migration w s) else insert_migration w s"
  have 1: "store_inv (insert_migration w s)" using assms(2) store_inv_cong inv_part_plain(2) by blast
  then have 2: "store_inv ?s2" by (simp add: inv_release)
  have "store_inv t" if "inv_part t = inv_part ?s2" for t using 2 that store_inv_cong by blast
  then show ?thesis
    using assms by (auto simp: record_migration_def Let_def map_sum_Inr dest!: inv_part_enqueue split: option.splits if_splits)
qed

lemma inv_part_repin: "inv_part (repin_by_restart w g e t) = inv_part t"
  by (simp add: repin_by_restart_def inv_part_def)

lemma inv_restart: "store_inv s \<Longrightarrow> store_inv (record_restart w s)"
proof -
  assume inv: "store_inv s"
  let ?s1 = "fold (answer_superseded (sw_answer w) (sw_by w) (sw_at w)) (sw_answered_question_ids w) s"
  let ?e = "latest_epoch s + 1"
  let ?s2 = "case sw_to_graph_id w of None \<Rightarrow> ?s1 | Some g \<Rightarrow> repin_by_restart w g ?e ?s1"
  have "inv_part ?s2 = inv_part s"
    by (cases "sw_to_graph_id w") (simp_all add: inv_part_repin)
  then have 2: "store_inv ?s2" using inv store_inv_cong by blast
  have "store_inv (?s2\<lparr>ck_restarts := ck_restarts ?s2 @ [x]\<rparr>)" if "sr_epoch x = ?e" for x
    using 2 that latest_epoch_nonneg [OF inv] by (auto simp: store_inv_def route_seqs_def)
  then show ?thesis unfolding record_restart_def Let_def by (intro inv_owner) simp
qed

lemma inv_route: "store_inv s \<Longrightarrow> store_inv (record_route i r h at s)"
  unfolding record_route_def Let_def
  by (intro inv_owner inv_token, erule inv_fresh_seq) (simp_all add: route_seqs_def)

lemma inv_lease: "record_lease_minted e c at s = (r, s') \<Longrightarrow> store_inv s \<Longrightarrow> store_inv s'"
proof -
  have l: "store_inv t \<Longrightarrow> store_inv (t\<lparr>ck_leases := ls\<rparr>)" for t ls
    by (simp add: store_inv_def route_seqs_def)
  show "record_lease_minted e c at s = (r, s') \<Longrightarrow> store_inv s \<Longrightarrow> store_inv s'"
    by (auto simp: record_lease_minted_def Let_def intro!: l inv_owner split: option.splits if_splits)
qed

lemma inv_hub_step:
  assumes "record_hub_step_transition w s = Inr (r, s')" and "store_inv s"
  shows "store_inv s'"
proof -
  let ?s1 = "record_hub_lease (hw_epoch w) (hw_runner_id w) (hw_at w) s"
  let ?s2 = "?s1\<lparr>ck_transitions := ck_transitions ?s1 @ [hub_step_transition_row w ?s1]\<rparr>"
  let ?s3 = "insert_artifacts (hw_at w) (hw_artifacts w) ?s2"
  let ?s4 = "if hw_release_route w then insert_release (hw_at w) None None ?s3 else ?s3"
  have "store_inv ?s1" using assms(2) by (rule inv_hub_lease)
  moreover have "inv_part ?s3 = inv_part ?s1" by simp (simp add: inv_part_def)
  ultimately have "store_inv ?s3" using store_inv_cong by blast
  then have 4: "store_inv ?s4" by (simp add: inv_release)
  then have "store_inv t" if "inv_part t = inv_part ?s4" for t using that store_inv_cong by blast
  with 4 show ?thesis
    using assms unfolding record_hub_step_transition_def Let_def
    by (auto simp: map_sum_Inr dest!: inv_part_enqueue split: if_splits)
qed

lemma inv_decision: "record_decision w s = Inr (r, s') \<Longrightarrow> store_inv s \<Longrightarrow> store_inv s'"
proof -
  have "inv_part (insert_artifacts at xs (s\<lparr>ck_decisions := ds\<rparr>)) = inv_part s" for at xs ds
    by simp (simp add: inv_part_def)
  then show "record_decision w s = Inr (r, s') \<Longrightarrow> store_inv s \<Longrightarrow> store_inv s'"
    using store_inv_cong [of s s']
    by (auto simp: record_decision_def Let_def map_sum_Inr dest!: inv_part_enqueue split: option.splits if_splits)
qed

lemma inv_landing: "write_landing_rows w s = Inr (r, s') \<Longrightarrow> store_inv s \<Longrightarrow> store_inv s'"
proof -
  have "inv_part (insert_artifact at a s\<lparr>ck_landed_repos := ls\<rparr>) = inv_part s" for at a ls
    by (simp add: inv_part_def insert_artifact_def)
  then show "write_landing_rows w s = Inr (r, s') \<Longrightarrow> store_inv s \<Longrightarrow> store_inv s'"
    using store_inv_cong [of s s']
    by (auto simp: write_landing_rows_def Let_def map_sum_Inr dest!: inv_part_enqueue split: if_splits)
qed

lemma inv_hub_artifact: "record_hub_artifact w s = Inr (r, s') \<Longrightarrow> store_inv s \<Longrightarrow> store_inv s'"
proof -
  have "inv_part (insert_artifact at a s) = inv_part s" for at a by (simp add: inv_part_def insert_artifact_def)
  then show "record_hub_artifact w s = Inr (r, s') \<Longrightarrow> store_inv s \<Longrightarrow> store_inv s'"
    using store_inv_cong [of s s']
    by (auto simp: record_hub_artifact_def Let_def map_sum_Inr dest!: inv_part_enqueue split: if_splits)
qed

lemma inv_completion: "record_completion at d s = Inr s' \<Longrightarrow> store_inv s \<Longrightarrow> store_inv s'"
proof -
  assume c: "record_completion at d s = Inr s'" and inv: "store_inv s"
  have "store_inv (s\<lparr>ck_completed := cs\<rparr>)" for cs using inv by (simp add: store_inv_def route_seqs_def)
  then have "store_inv (release_live_route at (s\<lparr>ck_completed := cs\<rparr>))" for cs by (rule inv_live_release)
  then show ?thesis using c inv_part_enqueue store_inv_cong unfolding record_completion_def by metis
qed

lemma store_step_inv: "store_step s s' \<Longrightarrow> store_inv s \<Longrightarrow> store_inv s'"
proof (induction rule: store_step.induct)
  case (transition tw s r s') then show ?case by (rule inv_transition)
next
  case (migration mw s m s') then show ?case by (rule inv_migration)
next
  case (restart ex s sw) then show ?case by (simp add: inv_restart)
next
  case (requeue ex s) then show ?case by (simp add: record_requeue_def store_inv_def route_seqs_def)
next
  case (claim s ex) then show ?case by (simp add: inv_route)
next
  case (release s) then show ?case by (simp add: record_route_released_def inv_release)
next
  case (rekey ex s) then show ?case by (simp add: record_route_token_def inv_token)
next
  case (lease e c at s r s') then show ?case by (rule inv_lease)
next
  case (hub_step hw s b s') then show ?case by (rule inv_hub_step)
next
  case (poll s) then show ?case using inv_part_plain(4) store_inv_cong by blast
next
  case (escalation ew s r s')
  have "store_inv s \<Longrightarrow> store_inv (insert_escalation w s)" for w
    using inv_part_plain(3) store_inv_cong by blast
  with escalation show ?case by (auto simp: record_escalation_def split: option.splits)
next
  case (bounce e adm cause env at s b s')
  have "store_inv s \<Longrightarrow> store_inv (s\<lparr>ck_bounces := bs\<rparr>)" for bs by (simp add: store_inv_def route_seqs_def)
  with bounce show ?case by (auto simp: record_bounce_def split: if_splits)
next
  case (bounce_escalation i ew s o' s')
  have "store_inv s \<Longrightarrow> store_inv (insert_escalation w (record_hub_lease e r at s))" for w e r at
    using inv_part_plain(3) store_inv_cong inv_hub_lease by blast
  with bounce_escalation show ?case by (auto simp: record_bounce_escalation_def split: if_splits)
next
  case (decision dw s r s') then show ?case by (rule inv_decision)
next
  case (decision_locked dw s d s')
  then show ?case by (auto simp: record_decision_locked_def map_sum_Inr dest!: inv_decision split: if_splits)
next
  case (resolution rv s b s')
  have "store_inv s \<Longrightarrow> store_inv (s\<lparr>ck_resolutions := bs\<rparr>)" for bs by (simp add: store_inv_def route_seqs_def)
  with resolution show ?case by (auto simp: record_decision_resolution_def split: if_splits)
next
  case (pause s) then show ?case by (simp add: record_pause_def store_inv_def route_seqs_def)
next
  case (stop ex s at)
  have "store_inv (s\<lparr>ck_stopped := xs\<rparr>)" for xs using stop by (simp add: store_inv_def route_seqs_def)
  then show ?case unfolding record_stop_def by (rule inv_live_release)
next
  case (completion at d s s') then show ?case by (rule inv_completion)
next
  case (promote s) then show ?case by (simp add: record_promote_def store_inv_def route_seqs_def)
next
  case (promote_ranked s) then show ?case by (simp add: insert_promote_rows_def store_inv_def route_seqs_def)
next
  case (demote ex s) then show ?case by (simp add: insert_demote_rows_def store_inv_def route_seqs_def)
next
  case (landing lw s b2 s') then show ?case by (rule inv_landing)
next
  case (hub_artifact aw s b s') then show ?case by (rule inv_hub_artifact)
next
  case (question el q adm cl s r s')
  have "store_inv s \<Longrightarrow> store_inv (s\<lparr>ck_questions := qs\<rparr>)" for qs by (simp add: store_inv_def route_seqs_def)
  with question show ?case by (auto simp: record_question_def split: if_splits option.splits)
next
  case (answer ex s a o2 s')
  have "store_inv s \<Longrightarrow> store_inv (s\<lparr>ck_answers := ws\<rparr>)" for ws by (simp add: store_inv_def route_seqs_def)
  with answer show ?case by (auto simp: answer_question_def split: option.splits)
next
  case (delivered s) then show ?case by (simp add: record_answer_delivered_def store_inv_def route_seqs_def)
qed

lemma steps_inv: "store_step\<^sup>*\<^sup>* s s' \<Longrightarrow> store_inv s \<Longrightarrow> store_inv s'"
  by (induction rule: rtranclp_induct) (auto dest: store_step_inv)

end
