(* ===== verification/Store_Laws.thy ===== *)
theory Store_Laws
  imports Store_Steps
begin

text \<open>
  What the steps of the store guarantee: epochs rise and keep their first owner, a claim or restart
  shuts out every write below the epoch it reserves, an ended chunk stays ended, a replayed hub write
  records nothing, and the store's own reads agree with the derivations over the loaded facts.
\<close>

section \<open>Epochs\<close>

definition row_epochs :: "chunk_rows \<Rightarrow> int set" where
  "row_epochs s = lr_epoch ` set (ck_leases s) \<union> sr_epoch ` set (ck_restarts s) \<union> ow_epoch ` set (ck_owners s)"

lemma latest_epoch_ge: "e \<in> row_epochs s \<Longrightarrow> e \<le> latest_epoch s"
  using col_max_ge [of e "map lr_epoch (ck_leases s)"] col_max_ge [of e "map sr_epoch (ck_restarts s)"]
    col_max_ge [of e "map ow_epoch (ck_owners s)"]
  unfolding row_epochs_def latest_epoch_def by auto

lemma latest_epoch_in: "latest_epoch s = 0 \<or> latest_epoch s \<in> row_epochs s"
  using col_max_in [of "map lr_epoch (ck_leases s)"] col_max_in [of "map sr_epoch (ck_restarts s)"]
    col_max_in [of "map ow_epoch (ck_owners s)"]
  unfolding row_epochs_def latest_epoch_def by (auto simp: max_def)

lemma row_epochs_mono: "store_step\<^sup>*\<^sup>* s s' \<Longrightarrow> row_epochs s \<subseteq> row_epochs s'"
  using leases.steps_keep [of s s'] restarts.steps_keep [of s s'] owners.steps_keep [of s s']
  unfolding row_epochs_def by blast

lemma epochs_rise:
  assumes "store_step\<^sup>*\<^sup>* s s'" and "store_inv s"
  shows "latest_epoch s \<le> latest_epoch s'"
  using latest_epoch_in [of s]
proof
  assume "latest_epoch s = 0"
  then show ?thesis using latest_epoch_nonneg [OF steps_inv [OF assms]] by simp
next
  assume "latest_epoch s \<in> row_epochs s"
  with row_epochs_mono [OF assms(1)] show ?thesis by (blast intro: latest_epoch_ge)
qed

lemma owner_forever:
  "store_step\<^sup>*\<^sup>* s s' \<Longrightarrow> epoch_owner_of s e = Some w \<Longrightarrow> epoch_owner_of s' e = Some w"
  unfolding epoch_owner_of_def by (auto dest: owners.steps_find)

lemma owner_epoch: "epoch_owner_of s e \<noteq> None \<Longrightarrow> e \<in> row_epochs s"
  unfolding epoch_owner_of_def row_epochs_def by (auto dest: find_SomeD)

lemma owner_recorded:
  "epoch_owner_of s e = None \<Longrightarrow> epoch_owner_of (record_epoch_owner e w at s) e = Some w"
  by (simp add: record_epoch_owner_def epoch_owner_of_def find_append)

lemma fresh_epoch_unowned: "latest_epoch s < e \<Longrightarrow> epoch_owner_of s e = None"
  using owner_epoch latest_epoch_ge by fastforce

lemma record_route_epoch:
  "latest_epoch s < latest_epoch (record_route i r h at s)
   \<and> epoch_owner_of (record_route i r h at s) (latest_epoch s + 1) = Some (Some (route_runner_id r))"
proof -
  define s2 where "s2 = insert_token h at (s\<lparr>ck_routes := ck_routes s @
     [\<lparr>wr_route_id = i, wr_runner_id = route_runner_id r, wr_workspace_id = route_workspace_id r,
       wr_created_at = at, wr_seq = next_route_seq s, wr_environment_ids = route_environment_ids r\<rparr>]\<rparr>)"
  have l: "latest_epoch s2 = latest_epoch s" by (simp add: s2_def insert_token_def latest_epoch_def)
  have r: "record_route i r h at s = record_epoch_owner (latest_epoch s + 1) (Some (route_runner_id r)) at s2"
    by (simp add: record_route_def Let_def s2_def [symmetric] l)
  have o: "epoch_owner_of (record_route i r h at s) (latest_epoch s + 1) = Some (Some (route_runner_id r))"
    unfolding r by (rule owner_recorded) (simp add: fresh_epoch_unowned l)
  then have "latest_epoch s + 1 \<le> latest_epoch (record_route i r h at s)"
    using owner_epoch [of "record_route i r h at s" "latest_epoch s + 1"] latest_epoch_ge by simp
  with o show ?thesis by simp
qed


section \<open>A write below the newest epoch\<close>

text \<open>Every fenced write at epoch \<open>e\<close> is refused by these rows and leaves them as they are; a question
  already asked is answered as asked. A landing has happened on the forge: it is recorded past the
  fence, and its answer says that the fence refuses it.\<close>

definition shuts_out :: "chunk_rows \<Rightarrow> int \<Rightarrow> bool" where
  "shuts_out s e \<longleftrightarrow>
     (\<forall>w. tw_epoch w = e \<longrightarrow> (\<exists>r. record_transition w s = Inr (Some r, s)))
     \<and> (\<forall>w. mw_epoch w = e \<longrightarrow> (\<exists>o'. record_migration w s = Inr (o', s) \<and> (\<forall>m. o' \<noteq> Migrated m)))
     \<and> (\<forall>w. ew_epoch w = e \<longrightarrow> (\<exists>r. record_escalation w s = (Some r, s)))
     \<and> (\<forall>w. dr_epoch (dw_decision w) = e \<longrightarrow> (\<exists>r. record_decision w s = Inr (Some r, s)))
     \<and> (\<forall>w. hw_epoch w = e \<longrightarrow> record_hub_step_transition w s = Inr (False, s))
     \<and> (\<forall>adm cause env at. record_bounce e adm cause env at s = (False, s))
     \<and> (\<forall>rn w. ew_epoch w = e \<longrightarrow> (\<exists>o'. record_bounce_escalation rn w s = (o', s) \<and> o' \<noteq> BounceRecorded))
     \<and> (\<forall>c at. \<exists>r. record_lease_minted e c at s = (Some r, s))
     \<and> (\<forall>w. dr_epoch (dw_decision w) = e \<longrightarrow>
          (\<exists>o'. record_decision_locked w s = Inr (o', s) \<and> o' \<noteq> DecisionRecorded))
     \<and> (\<forall>el q adm cl. qr_epoch q = e \<longrightarrow> (\<exists>o'. record_question el q adm cl s = (o', s)
          \<and> (qr_question_id q \<in> el \<union> qr_question_id ` set (ck_questions s) \<or> o' \<noteq> None)))
     \<and> (\<forall>w. ha_epoch w = e \<longrightarrow> record_hub_artifact w s = Inr (False, s))
     \<and> (\<forall>w refused wrote s'. lw_epoch w = e \<longrightarrow> write_landing_rows w s = Inr ((refused, wrote), s') \<longrightarrow> refused)"

lemma shuts_outI:
  assumes f: "\<And>adm cl. fence s e adm cl \<noteq> None"
    and m: "\<And>c. mint_refusal (mint_admission_of s e (cl_runner_id c)) c \<noteq> None"
  shows "shuts_out s e"
proof -
  have f': "\<And>adm cl. \<exists>r. fence s e adm cl = Some r" using f by blast
  have m': "\<And>c. \<exists>r. mint_refusal (mint_admission_of s e (cl_runner_id c)) c = Some r" using m by blast
  show ?thesis unfolding shuts_out_def
  proof (intro conjI allI impI)
    fix w show "tw_epoch w = e \<Longrightarrow> \<exists>r. record_transition w s = Inr (Some r, s)"
      using f' [of "tw_admission w" "tw_claimant w"] by (auto simp: record_transition_def)
  next
    fix w show "mw_epoch w = e \<Longrightarrow> \<exists>o'. record_migration w s = Inr (o', s) \<and> (\<forall>m. o' \<noteq> Migrated m)"
      using f' [of "mw_admission w" "mw_claimant w"] by (auto simp: record_migration_def)
  next
    fix w show "ew_epoch w = e \<Longrightarrow> \<exists>r. record_escalation w s = (Some r, s)"
      using f' [of "ew_admission w" "ew_claimant w"] by (auto simp: record_escalation_def)
  next
    fix w show "dr_epoch (dw_decision w) = e \<Longrightarrow> \<exists>r. record_decision w s = Inr (Some r, s)"
      using f' [of "dw_admission w" "dw_claimant w"] by (auto simp: record_decision_def)
  next
    fix w show "hw_epoch w = e \<Longrightarrow> record_hub_step_transition w s = Inr (False, s)"
      using f [of "hw_admission w" None] by (auto simp: record_hub_step_transition_def)
  next
    fix adm cause env at show "record_bounce e adm cause env at s = (False, s)"
      using f [of adm None] by (auto simp: record_bounce_def)
  next
    fix rn w show "ew_epoch w = e \<Longrightarrow> \<exists>o'. record_bounce_escalation rn w s = (o', s) \<and> o' \<noteq> BounceRecorded"
      using f [of "ew_admission w" None] by (auto simp: record_bounce_escalation_def)
  next
    fix c at show "\<exists>r. record_lease_minted e c at s = (Some r, s)"
      using m' [of c] by (auto simp: record_lease_minted_def Let_def)
  next
    fix w show "dr_epoch (dw_decision w) = e \<Longrightarrow> \<exists>o'. record_decision_locked w s = Inr (o', s) \<and> o' \<noteq> DecisionRecorded"
      using f' [of "dw_admission w" "dw_claimant w"] by (auto simp: record_decision_locked_def record_decision_def)
  next
    fix el q adm cl
    show "qr_epoch q = e \<Longrightarrow> \<exists>o'. record_question el q adm cl s = (o', s)
        \<and> (qr_question_id q \<in> el \<union> qr_question_id ` set (ck_questions s) \<or> o' \<noteq> None)"
      using f' [of adm cl] by (auto simp: record_question_def)
  next
    fix w show "ha_epoch w = e \<Longrightarrow> record_hub_artifact w s = Inr (False, s)"
      using f [of "ha_admission w" None] by (auto simp: record_hub_artifact_def)
  next
    fix w refused wrote s'
    show "lw_epoch w = e \<Longrightarrow> write_landing_rows w s = Inr ((refused, wrote), s') \<Longrightarrow> refused"
      using f [of "lw_admission w" None]
      by (auto simp: write_landing_rows_def Let_def map_sum_Inr split: if_splits)
  qed
qed

lemma stale_shut_out:
  assumes "e < latest_epoch s" and "latest_epoch s \<noteq> 0"
  shows "shuts_out s e"
proof (rule shuts_outI)
  show "fence s e adm cl \<noteq> None" for adm cl
    using current_stale [OF assms(2,1), of adm] by (simp add: fence_def Let_def)
  show "mint_refusal (mint_admission_of s e (cl_runner_id c)) c \<noteq> None" for c
    using assms by (simp add: mint_refusal_def mint_admission_of_def)
qed

lemma terminal_shut_out: "is_terminal s \<Longrightarrow> shuts_out s e"
  by (rule shuts_outI) (simp_all add: fence_def mint_refusal_def mint_admission_of_def)

section \<open>Fencing across steps\<close>

lemma shut_out_after:
  assumes inv: "store_inv s" and steps: "store_step\<^sup>*\<^sup>* t s'" and tinv: "store_inv t"
    and rise: "latest_epoch s < latest_epoch t" and e: "e \<le> latest_epoch s"
  shows "shuts_out s' e"
proof (rule stale_shut_out)
  have "latest_epoch t \<le> latest_epoch s'" by (rule epochs_rise [OF steps tinv])
  with rise e latest_epoch_nonneg [OF inv] show "e < latest_epoch s'" "latest_epoch s' \<noteq> 0" by linarith+
qed

text \<open>C1: A claim reserves a fresh epoch: after it, through any further committed transactions, every
  transition, migration, escalation, decision, question, hub step, hub artifact, bounce or lease
  mint at an epoch the chunk had reached before is refused and writes nothing, and the reserved
  epoch stays owned by the claiming runner. (A question already asked is answered as asked; a
  landing, which happened on the forge, is still recorded and reported as refused.)\<close>

theorem claim_shuts_out_earlier_attempts:
  assumes inv: "store_inv s" and steps: "store_step\<^sup>*\<^sup>* (record_route i r h at s) s'"
    and e: "e \<le> latest_epoch s"
  shows "shuts_out s' e
     \<and> epoch_owner_of s' (latest_epoch s + 1) = Some (Some (route_runner_id r))"
  using shut_out_after [OF inv steps inv_route [OF inv] conjunct1 [OF record_route_epoch] e]
    owner_forever [OF steps conjunct2 [OF record_route_epoch]] by blast

text \<open>An accepted write of a runner attempt, in the chunk's lock, and the rows it leaves. A question
  already asked is not a write.\<close>

inductive runner_write :: "chunk_rows \<Rightarrow> int \<Rightarrow> claimant \<Rightarrow> chunk_rows \<Rightarrow> bool" where
  moves: "tw_claimant w = Some c \<Longrightarrow> record_transition w s = Inr (None, s') \<Longrightarrow> runner_write s (tw_epoch w) c s'"
| migrates: "mw_claimant w = Some c \<Longrightarrow> record_migration w s = Inr (Migrated m, s') \<Longrightarrow> runner_write s (mw_epoch w) c s'"
| escalates: "ew_claimant w = Some c \<Longrightarrow> record_escalation w s = (None, s') \<Longrightarrow> runner_write s (ew_epoch w) c s'"
| decides: "dw_claimant w = Some c \<Longrightarrow> record_decision w s = Inr (None, s')
    \<Longrightarrow> runner_write s (dr_epoch (dw_decision w)) c s'"
| decides_locked: "dw_claimant w = Some c \<Longrightarrow> record_decision_locked w s = Inr (DecisionRecorded, s')
    \<Longrightarrow> runner_write s (dr_epoch (dw_decision w)) c s'"
| asks: "qr_question_id q \<notin> el \<union> qr_question_id ` set (ck_questions s)
    \<Longrightarrow> record_question el q adm (Some c) s = (None, s') \<Longrightarrow> runner_write s (qr_epoch q) c s'"
| mints: "record_lease_minted e c at s = (None, s') \<Longrightarrow> runner_write s e c s'"

lemma runner_write_step: "runner_write s e c s' \<Longrightarrow> store_step s s'"
  by (induction rule: runner_write.induct) (auto intro: store_step.intros)

lemma fence_owns: "fence s e adm (Some c) = None \<Longrightarrow> epoch_owner_of s e = Some (Some (cl_runner_id c))"
  by (auto simp: fence_def Let_def claimant_owns_runner split: if_splits)

lemma lease_owner:
  assumes "record_lease_minted e c at s = (None, s')"
  shows "epoch_owner_of s' e = Some (Some (cl_runner_id c))"
proof (cases "epoch_owner_of s e")
  case None
  with assms have "epoch_owner_of s' e = epoch_owner_of (record_epoch_owner e (Some (cl_runner_id c)) at s) e"
    by (auto simp: record_lease_minted_def Let_def takes_ownership_def mint_admission_of_def epoch_owner_of_def
        split: option.splits)
  with None show ?thesis by (simp add: owner_recorded)
next
  case (Some o')
  with assms have "mint_refusal (mint_admission_of s e (cl_runner_id c)) c = None"
    by (auto simp: record_lease_minted_def Let_def split: option.splits)
  then have "epoch_owner_of s e = Some (Some (cl_runner_id c))"
    using Some by (auto simp: mint_refusal_def mint_admission_of_def dest: claimant_owns_runner split: if_splits)
  moreover have "store_step\<^sup>*\<^sup>* s s'" using store_step.lease [OF assms] by blast
  ultimately show ?thesis by (rule owner_forever [rotated])
qed

lemma runner_write_owned:
  assumes "runner_write s e c s'"
  shows "epoch_owner_of s' e = Some (Some (cl_runner_id c))"
proof -
  have s: "store_step\<^sup>*\<^sup>* s s'" using runner_write_step [OF assms] by blast
  show ?thesis using assms
  proof cases
    case (moves w)
    then show ?thesis using transition_fence.accepted_owns [of w s c] by (auto simp: answered_def intro: owner_forever [OF s])
  next
    case (migrates w m)
    then show ?thesis using migration_fence.accepted_owns [of w s c] by (auto simp: answered_def intro: owner_forever [OF s])
  next
    case (escalates w)
    then show ?thesis using escalation_fence.accepted_owns [of w s c] by (auto intro: owner_forever [OF s])
  next
    case (decides w)
    then show ?thesis using decision_fence.accepted_owns [of w s c] by (auto simp: answered_def intro: owner_forever [OF s])
  next
    case (decides_locked w)
    then show ?thesis using decision_fence.accepted_owns [of w s c]
      by (auto simp: record_decision_locked_def map_sum_Inr answered_def intro: owner_forever [OF s] split: if_splits option.splits)
  next
    case (asks q el adm)
    then have "fence s e adm (Some c) = None" by (auto simp: record_question_def split: option.splits if_splits)
    then show ?thesis by (rule owner_forever [OF s fence_owns])
  next
    case (mints at) then show ?thesis by (rule lease_owner)
  qed
qed



text \<open>C3: Two accepted writes of runner attempts at one epoch, however many transactions apart, come
  from the same runner, each of them a transition, a migration, an escalation, a decision, a
  first asking of a question or a lease mint.\<close>

theorem one_runner_per_epoch:
  assumes first: "runner_write s e c s1" and steps: "store_step\<^sup>*\<^sup>* s1 s2" and second: "runner_write s2 e d s3"
  shows "cl_runner_id c = cl_runner_id d"
proof -
  have "store_step\<^sup>*\<^sup>* s1 s3" using steps runner_write_step [OF second] by simp
  from owner_forever [OF this runner_write_owned [OF first]] runner_write_owned [OF second] show ?thesis by simp
qed

section \<open>An ended chunk stays ended\<close>

definition movement_rows :: "chunk_rows \<Rightarrow> transition_row list \<times> migration_row list \<times> restart_row list" where
  "movement_rows s = (ck_transitions s, ck_migrations s, ck_restarts s)"

lemma done_cong: "movement_rows s' = movement_rows s \<Longrightarrow> done_by_transition s' = done_by_transition s"
  by (simp add: movement_rows_def done_by_transition_def unsuperseded_terminal_def)

lemma enqueue_movements: "enqueue_close_intents at d s = Inr s' \<Longrightarrow> movement_rows s' = movement_rows s"
proof -
  have one: "movement_rows (enqueue_one a b d at r t) = movement_rows t" for a b r t
    by (simp add: enqueue_one_def movement_rows_def)
  have "movement_rows (fold (enqueue_one a b d at) rs t) = movement_rows t" for a b rs t
    by (induction rs arbitrary: t) (auto simp: one)
  then show "enqueue_close_intents at d s = Inr s' \<Longrightarrow> movement_rows s' = movement_rows s"
    by (auto simp: enqueue_close_intents_def Let_def split: if_splits)
qed

lemma landing_movements: "write_landing_rows w s = Inr (b, s') \<Longrightarrow> movement_rows s' = movement_rows s"
proof -
  have "movement_rows (insert_artifact at a s\<lparr>ck_landed_repos := ls\<rparr>) = movement_rows s" for at a ls
    by (simp add: movement_rows_def insert_artifact_def)
  then show "write_landing_rows w s = Inr (b, s') \<Longrightarrow> movement_rows s' = movement_rows s"
    by (auto simp: write_landing_rows_def Let_def map_sum_Inr dest!: enqueue_movements split: if_splits)
qed

lemma live_release_movements: "movement_rows (release_live_route at s) = movement_rows s"
  by (simp add: release_live_route_def insert_release_def movement_rows_def)

lemma completion_movements: "record_completion at d s = Inr s' \<Longrightarrow> movement_rows s' = movement_rows s"
proof -
  have "movement_rows (release_live_route at (s\<lparr>ck_completed := cs\<rparr>)) = movement_rows s" for cs
    by (simp add: live_release_movements) (simp add: movement_rows_def)
  then show "record_completion at d s = Inr s' \<Longrightarrow> movement_rows s' = movement_rows s"
    unfolding record_completion_def by (metis enqueue_movements)
qed

lemma ended_admits_no_restart: "is_terminal s \<Longrightarrow> admits (load_facts ex s) VRestart \<Longrightarrow> False"
  using is_terminal_sound [of s ex] by (simp add: admits_def rows_status_def ended_refuses)

lemma terminal_step_movements:
  assumes "store_step s s'" and t: "is_terminal s"
  shows "movement_rows s' = movement_rows s"
proof -
  note out = terminal_shut_out [OF t, unfolded shuts_out_def]
  from assms show ?thesis
  proof (induction rule: store_step.induct)
    case (transition tw s r s') then show ?case by (auto simp: record_transition_def fence_def)
  next
    case (migration mw s m s') then show ?case by (auto simp: record_migration_def fence_def split: if_splits)
  next
    case (restart ex s sw) then show ?case using ended_admits_no_restart by blast
  next
    case (lease e c at s r s')
    then show ?case by (auto simp: record_lease_minted_def mint_refusal_def mint_admission_of_def)
  next
    case (hub_step hw s b s') then show ?case by (auto simp: record_hub_step_transition_def fence_def split: if_splits)
  next
    case (poll s) then show ?case by (simp add: record_hub_node_poll_def Let_def movement_rows_def)
  next
    case (escalation ew s r s') then show ?case by (auto simp: record_escalation_def fence_def)
  next
    case (bounce e adm cause env at s b s') then show ?case by (auto simp: record_bounce_def fence_def split: if_splits)
  next
    case (bounce_escalation i ew s o' s')
    then show ?case by (auto simp: record_bounce_escalation_def fence_def split: if_splits)
  next
    case (decision dw s r s') then show ?case by (auto simp: record_decision_def fence_def)
  next
    case (decision_locked dw s d s')
    then show ?case by (auto simp: record_decision_locked_def record_decision_def fence_def split: if_splits)
  next
    case (resolution rv s b s')
    then show ?case by (auto simp: record_decision_resolution_def movement_rows_def split: if_splits)
  next
    case (stop ex s at)
    show ?case unfolding record_stop_def live_release_movements by (simp add: movement_rows_def)
  next
    case (completion at d s s') then show ?case by (simp add: completion_movements)
  next
    case (landing lw s b2 s') then show ?case by (simp add: landing_movements)
  next
    case (hub_artifact aw s b s')
    then show ?case by (auto simp: record_hub_artifact_def fence_def split: if_splits)
  next
    case (question el q adm cl s r s')
    then show ?case by (auto simp: record_question_def movement_rows_def split: if_splits option.splits)
  next
    case (answer ex s a o2 s')
    then show ?case by (auto simp: answer_question_def movement_rows_def split: option.splits)
  next
    case (delivered s) then show ?case by (simp add: record_answer_delivered_def movement_rows_def)
  qed (simp_all add: movement_rows_def record_requeue_def record_route_def Let_def insert_token_def
      record_epoch_owner_def record_route_released_def insert_release_def record_route_token_def record_pause_def
      record_promote_def insert_promote_rows_def insert_demote_rows_def)
qed

lemma terminal_step:
  assumes step: "store_step s s'" and t: "is_terminal s"
  shows "is_terminal s'"
proof -
  have "prefix (ck_stopped s) (ck_stopped s')" "prefix (ck_completed s) (ck_completed s')"
    using store_step_grows [OF step] by (simp_all add: grows_def)
  with t done_cong [OF terminal_step_movements [OF step t]] show ?thesis
    unfolding is_terminal_def by auto
qed

text \<open>C2: An ended chunk never reopens: from rows the terminal predicate settles, every reachable state
  is still settled, derives stopped or done, has the same movement rows, and at every epoch
  refuses every transition, migration, escalation, decision, question, hub step, hub artifact,
  bounce and lease mint, which write nothing (a question already asked is answered as asked; a
  landing is still recorded and reported as refused). The garden-delivery and review-finding
  stores, which call the same fence, are not modelled.\<close>

theorem ended_chunk_stays_ended:
  assumes "is_terminal s" and "store_step\<^sup>*\<^sup>* s s'"
  shows "is_terminal s' \<and> rows_status ex s' \<in> TERMINAL_STATUSES \<and> shuts_out s' e
     \<and> movement_rows s' = movement_rows s"
proof -
  have "is_terminal s' \<and> movement_rows s' = movement_rows s"
    using assms(2,1)
    by (induction rule: rtranclp_induct) (auto simp: terminal_step_movements intro: terminal_step)
  with is_terminal_sound terminal_shut_out show ?thesis by blast
qed

section \<open>Replays\<close>

lemma steps_grow: "store_step\<^sup>*\<^sup>* s s' \<Longrightarrow> grows s s'"
  by (induction rule: rtranclp_induct) (auto intro: grows_trans store_step_grows)


lemma grows_sets:
  assumes "grows s s'"
  shows "set (ck_transitions s) \<subseteq> set (ck_transitions s')" "set (ck_migrations s) \<subseteq> set (ck_migrations s')"
    "set (ck_bounces s) \<subseteq> set (ck_bounces s')" "set (ck_escalations s) \<subseteq> set (ck_escalations s')"
    "set (ck_decisions s) \<subseteq> set (ck_decisions s')" "set (ck_resolutions s) \<subseteq> set (ck_resolutions s')"
    "set (ck_artifacts s) \<subseteq> set (ck_artifacts s')"
  using assms unfolding grows_def by (auto dest: set_mono_prefix)

lemma hub_step_recorded:
  assumes "record_hub_step_transition w s = Inr (True, s')"
  shows "transition_exists s' (hw_from_node_id w) (hw_epoch w)"
proof -
  let ?s1 = "record_hub_lease (hw_epoch w) (hw_runner_id w) (hw_at w) s"
  let ?s2 = "?s1\<lparr>ck_transitions := ck_transitions ?s1 @ [hub_step_transition_row w ?s1]\<rparr>"
  let ?s3 = "insert_artifacts (hw_at w) (hw_artifacts w) ?s2"
  let ?s4 = "if hw_release_route w then insert_release (hw_at w) None None ?s3 else ?s3"
  have 4: "grows ?s2 ?s4" using grows_trans [OF grows_artifacts grows_release] by (auto simp: grow)
  have "grows ?s2 s'"
    using assms 4 unfolding record_hub_step_transition_def Let_def
    by (auto simp: map_sum_Inr dest!: grows_enqueue intro: grows_trans split: if_splits)
  then have "hub_step_transition_row w ?s1 \<in> set (ck_transitions s')" using grows_sets(1) by fastforce
  then show ?thesis unfolding transition_exists_def by (force simp: hub_step_transition_row_def)
qed

lemma migration_recorded:
  assumes "record_migration w s = Inr (Migrated m, s')"
  shows "migration_exists s' (mw_from_node_id w) (mw_epoch w)"
proof -
  let ?s1 = "insert_migration w s"
  let ?s2 = "if mw_release_route w then insert_release (mw_at w) None None ?s1 else ?s1"
  have "grows ?s1 ?s2" by (simp add: grow)
  then have 3: "grows ?s1 (insert_artifacts (mw_at w) (mw_artifacts w) ?s2)" by (rule grows_trans [OF _ grows_artifacts])
  have "grows ?s1 s'"
    using assms 3 unfolding record_migration_def Let_def
    by (auto simp: map_sum_Inr dest!: grows_enqueue intro: grows_trans split: if_splits option.splits)
  then have "set (ck_migrations ?s1) \<subseteq> set (ck_migrations s')" by (rule grows_sets(2))
  then show ?thesis unfolding migration_exists_def by (force simp: insert_migration_def)
qed

lemma decision_recorded:
  assumes "record_decision_locked w s = Inr (DecisionRecorded, s')"
  shows "dw_decision w \<in> set (ck_decisions s')"
proof -
  let ?s1 = "s\<lparr>ck_decisions := ck_decisions s @ [dw_decision w]\<rparr>"
  let ?s2 = "insert_artifacts (dr_submitted_at (dw_decision w)) (dw_artifacts w) ?s1"
  have "record_decision w s = Inr (None, s')"
    using assms by (auto simp: record_decision_locked_def map_sum_Inr split: if_splits option.splits)
  then have "grows ?s2 s'"
    unfolding record_decision_def Let_def
    by (auto simp: map_sum_Inr dest!: grows_enqueue split: if_splits option.splits)
  then have "grows ?s1 s'" by (rule grows_trans [OF grows_artifacts])
  then have "set (ck_decisions ?s1) \<subseteq> set (ck_decisions s')" by (rule grows_sets(5))
  then show ?thesis by auto
qed

text \<open>C5: A replayed hub write records nothing: once a hub step, migration, bounce, bounce escalation,
  locked decision or decision resolution was accepted, the same key (node and epoch, epoch, or
  decision id) in any later state answers as already recorded and leaves the rows unchanged.\<close>

theorem hub_writes_land_once:
  assumes steps: "store_step\<^sup>*\<^sup>* t s'"
  shows "(record_hub_step_transition w s = Inr (True, t) \<and> hw_from_node_id w' = hw_from_node_id w \<and> hw_epoch w' = hw_epoch w
        \<longrightarrow> record_hub_step_transition w' s' = Inr (False, s'))
     \<and> (record_migration m s = Inr (Migrated i, t) \<and> mw_from_node_id m' = mw_from_node_id m \<and> mw_epoch m' = mw_epoch m
        \<longrightarrow> record_migration m' s' = Inr (AlreadyMigrated, s'))
     \<and> (record_bounce e adm cause env at s = (True, t) \<longrightarrow> record_bounce e adm' cause' env' at' s' = (False, s'))
     \<and> (record_bounce_escalation rn ew s = (BounceRecorded, t) \<and> ew_epoch ew' = ew_epoch ew
        \<longrightarrow> record_bounce_escalation rn' ew' s' = (BounceAlreadyRecorded, s'))
     \<and> (record_decision_locked d s = Inr (DecisionRecorded, t) \<and> dr_node_id (dw_decision d') = dr_node_id (dw_decision d)
          \<and> dr_epoch (dw_decision d') = dr_epoch (dw_decision d)
        \<longrightarrow> record_decision_locked d' s' = Inr (DecisionExists, s'))
     \<and> (record_decision_resolution rv s = (True, t) \<and> rv_decision_id rv' = rv_decision_id rv
        \<longrightarrow> record_decision_resolution rv' s' = (False, s'))"
proof (intro conjI impI)
  note keep = grows_sets [OF steps_grow [OF steps]]
  assume "record_hub_step_transition w s = Inr (True, t) \<and> hw_from_node_id w' = hw_from_node_id w \<and> hw_epoch w' = hw_epoch w"
  with hub_step_recorded keep(1) have "transition_exists s' (hw_from_node_id w') (hw_epoch w')"
    unfolding transition_exists_def by fastforce
  then show "record_hub_step_transition w' s' = Inr (False, s')" by (simp add: record_hub_step_transition_def)
next
  note keep = grows_sets [OF steps_grow [OF steps]]
  assume "record_migration m s = Inr (Migrated i, t) \<and> mw_from_node_id m' = mw_from_node_id m \<and> mw_epoch m' = mw_epoch m"
  with migration_recorded keep(2) have "migration_exists s' (mw_from_node_id m') (mw_epoch m')"
    unfolding migration_exists_def by fastforce
  then show "record_migration m' s' = Inr (AlreadyMigrated, s')" by (simp add: record_migration_def)
next
  note keep = grows_sets [OF steps_grow [OF steps]]
  assume "record_bounce e adm cause env at s = (True, t)"
  then have "\<exists>b\<in>set (ck_bounces t). bn_epoch b = e" by (auto simp: record_bounce_def split: if_splits)
  with keep(3) show "record_bounce e adm' cause' env' at' s' = (False, s')" by (auto simp: record_bounce_def)
next
  note keep = grows_sets [OF steps_grow [OF steps]]
  assume "record_bounce_escalation rn ew s = (BounceRecorded, t) \<and> ew_epoch ew' = ew_epoch ew"
  then have "\<exists>x\<in>set (ck_escalations t). er_epoch x = ew_epoch ew'"
    by (auto simp: record_bounce_escalation_def insert_escalation_def split: if_splits)
  with keep(4) show "record_bounce_escalation rn' ew' s' = (BounceAlreadyRecorded, s')"
    by (auto simp: record_bounce_escalation_def)
next
  note keep = grows_sets [OF steps_grow [OF steps]]
  assume "record_decision_locked d s = Inr (DecisionRecorded, t)
    \<and> dr_node_id (dw_decision d') = dr_node_id (dw_decision d) \<and> dr_epoch (dw_decision d') = dr_epoch (dw_decision d)"
  with decision_recorded keep(5) have "decision_exists s' (dr_node_id (dw_decision d')) (dr_epoch (dw_decision d'))"
    unfolding decision_exists_def by (metis subsetD)
  then show "record_decision_locked d' s' = Inr (DecisionExists, s')" by (simp add: record_decision_locked_def)
next
  note keep = grows_sets [OF steps_grow [OF steps]]
  assume "record_decision_resolution rv s = (True, t) \<and> rv_decision_id rv' = rv_decision_id rv"
  then have "rv_decision_id rv' \<in> rv_decision_id ` set (ck_resolutions t)"
    by (auto simp: record_decision_resolution_def split: if_splits)
  with keep(6) show "record_decision_resolution rv' s' = (False, s')" by (auto simp: record_decision_resolution_def)
qed

section \<open>Promotion\<close>

lemma after_newest_later:
  assumes "x \<in> set opposing"
  shows "x < after_newest opposing at"
proof -
  have "x \<le> Max (set opposing)" "opposing \<noteq> []" using assms by auto
  then have "x < max at (Max (set opposing) + 1)" by linarith
  with \<open>opposing \<noteq> []\<close> show ?thesis unfolding after_newest_def by presburger
qed

lemma promoted_iff:
  "currently_promoted s \<longleftrightarrow> (\<exists>p\<in>set (ck_promoted s). \<forall>d\<in>set (ck_demoted s). d < p)"
proof (cases "ck_promoted s = [] \<or> ck_demoted s = []")
  case True
  then show ?thesis by (auto simp: currently_promoted_def ex_in_conv)
next
  case False
  then show ?thesis by (simp add: currently_promoted_def) (meson Max_ge Max_in List.finite_set less_le_trans set_empty)
qed

theorem newest_queue_verb_wins:
  "currently_promoted (record_promote at s)
   \<and> currently_promoted (insert_promote_rows at s)
   \<and> \<not> currently_promoted (insert_demote_rows at s)
   \<and> record_promote at' (record_promote at s) = record_promote at s
   \<and> cf_promoted (load_facts ex (insert_demote_rows at s)) = False"
proof -
  have p: "currently_promoted (insert_promote_rows at s)"
    by (auto simp: promoted_iff insert_promote_rows_def after_newest_later)
  have rp: "currently_promoted (record_promote at s)"
    using p by (simp add: record_promote_def insert_promote_rows_def)
  have d: "\<not> currently_promoted (insert_demote_rows at s)"
    using after_newest_later [of _ "ck_promoted s" at] by (fastforce simp: promoted_iff insert_demote_rows_def)
  from rp have "record_promote at' (record_promote at s) = record_promote at s"
    by (simp add: record_promote_def [of at' "record_promote at s"])
  with p rp d show ?thesis by (simp add: load_facts_def)
qed

section \<open>The route read\<close>

lemma newest_row_None: "newest_row key rows = None \<longleftrightarrow> rows = []" for key :: "'r \<Rightarrow> instant \<times> int"
proof (cases "rows = []")
  case False
  then have fin: "finite (key ` set rows)" "key ` set rows \<noteq> {}" by simp_all
  from Max_in [OF fin] obtain r where r: "r \<in> set rows" "key r = Max (key ` set rows)" by auto
  have "\<forall>x\<in>set rows. \<not> key r < key x" unfolding r(2) using Max_ge [OF fin(1)] by (auto simp: not_less)
  with r(1) have "filter (\<lambda>r. \<forall>x\<in>set rows. \<not> key r < key x) rows \<noteq> []"
    unfolding filter_empty_conv by blast
  then have "newest_row key rows = Some (last (filter (\<lambda>r. \<forall>x\<in>set rows. \<not> key r < key x) rows))"
    unfolding newest_row_def Let_def by (rule if_not_P)
  with False show ?thesis by simp
qed (simp add: newest_row_def)

lemma newest_row_Some:
  assumes "newest_row key rows = Some r"
  shows "r \<in> set rows \<and> (\<forall>x\<in>set rows. key x \<le> key r)"
proof -
  let ?u = "filter (\<lambda>r. \<forall>x\<in>set rows. \<not> key r < key x) rows"
  have "?u \<noteq> []"
  proof
    assume "?u = []"
    then have "newest_row key rows = None" unfolding newest_row_def Let_def by (rule if_P)
    with assms show False by simp
  qed
  then have "newest_row key rows = Some (last ?u)" unfolding newest_row_def Let_def by (rule if_not_P)
  with assms have r: "last ?u = r" by simp
  from last_in_set [OF \<open>?u \<noteq> []\<close>] have "r \<in> set ?u" unfolding r .
  then show ?thesis unfolding set_filter not_less by blast
qed

lemma newest_row_eqI:
  assumes "r \<in> set rows" and "\<And>x. x \<in> set rows \<Longrightarrow> x \<noteq> r \<Longrightarrow> key x < key r"
  shows "newest_row key rows = Some r"
proof (cases "newest_row key rows")
  case None
  with assms(1) show ?thesis by (simp add: newest_row_None)
next
  case (Some q)
  with newest_row_Some [OF Some] assms show ?thesis by (metis leD)
qed

lemma row_key_facts [simp]: "rc_key (created_fact r) = wr_key r" "rr_key (released_fact q) = wl_key q"
  by (simp_all add: rc_key_def created_fact_def wr_key_def rr_key_def released_fact_def wl_key_def)

lemma created_fact_inj: "wr_key a = wr_key b \<Longrightarrow> created_fact a = created_fact b"
  by (simp add: wr_key_def created_fact_def)

lemma loaded_routes:
  "routes (load_facts ex s) = \<lparr>rh_created = map created_fact (ck_routes s),
     rh_released = map released_fact (ck_released s), rh_tokens_minted = ck_tokens s\<rparr>"
  by (simp add: routes_def load_facts_def)

lemma newest_created:
  "max_by rc_key (map created_fact rows) = map_option created_fact (newest_row wr_key rows)"
proof (cases "newest_row wr_key rows")
  case (Some r)
  from newest_row_Some [OF Some] have r: "r \<in> set rows" "\<And>x. x \<in> set rows \<Longrightarrow> wr_key x \<le> wr_key r" by auto
  then obtain f where f: "max_by rc_key (map created_fact rows) = Some f"
    using max_by_eq_None [of rc_key "map created_fact rows"] by (cases "max_by rc_key (map created_fact rows)") auto
  from max_by_in_set [OF f] obtain q where q: "q \<in> set rows" "f = created_fact q" by auto
  have "wr_key r \<le> wr_key q" using max_by_greatest [OF f, of "created_fact r"] r(1) q(2) by simp
  with r(2) [OF q(1)] have "created_fact q = created_fact r" by (intro created_fact_inj) simp
  with f q(2) Some show ?thesis by simp
qed (simp add: newest_row_None)

lemma route_of_iff:
  "route_of s = Some r \<longleftrightarrow> (\<exists>row. newest_row wr_key (ck_routes s) = Some row
     \<and> (\<forall>q\<in>set (ck_released s). wl_key q \<le> wr_key row)
     \<and> r = \<lparr>route_runner_id = wr_runner_id row, route_workspace_id = wr_workspace_id row,
            route_environment_ids = wr_environment_ids row, route_created_at = wr_created_at row,
            route_route_id = Some (wr_route_id row)\<rparr>)"
proof (cases "newest_row wr_key (ck_routes s)")
  case None
  then show ?thesis by (simp add: route_of_def)
next
  case (Some row)
  let ?rel = "case newest_row wl_key (ck_released s) of None \<Rightarrow> [] | Some rel \<Rightarrow> [released_fact rel]"
  have "(\<forall>q\<in>set (ck_released s). wl_key q \<le> wr_key row) \<longleftrightarrow> (\<forall>x\<in>set ?rel. rr_key x \<le> wr_key row)"
  proof (cases "newest_row wl_key (ck_released s)")
    case None
    then show ?thesis using newest_row_None [of wl_key "ck_released s"] by simp
  next
    case (Some rel)
    from newest_row_Some [OF Some] Some show ?thesis by (auto intro: order_trans)
  qed
  moreover have "newest_route \<lparr>rh_created = [created_fact row], rh_released = ?rel, rh_tokens_minted = []\<rparr> \<noteq> None
      \<longleftrightarrow> (\<forall>x\<in>set ?rel. rr_key x \<le> wr_key row)"
    using live_route_iff [of "\<lparr>rh_created = [created_fact row], rh_released = ?rel, rh_tokens_minted = []\<rparr>"] by auto
  ultimately show ?thesis using Some by (auto simp: route_of_def Let_def)
qed

theorem route_read_is_derived:
  "map_option (\<lambda>r. route_created_at r) (route_of s)
     = map_option (\<lambda>r. rc_created_at r) (newest_route (routes (load_facts ex s)))"
proof (cases "newest_row wr_key (ck_routes s)")
  case None
  then have "ck_routes s = []" by (simp add: newest_row_None)
  then show ?thesis by (simp add: route_of_def newest_row_def loaded_routes newest_route_def)
next
  case (Some row)
  show ?thesis
  proof (cases "\<forall>q\<in>set (ck_released s). wl_key q \<le> wr_key row")
    case True
    with Some have "newest_route (routes (load_facts ex s)) = Some (created_fact row)"
      unfolding live_route_iff by (simp add: loaded_routes newest_created)
    moreover from True Some obtain r where "route_of s = Some r" "route_created_at r = wr_created_at row"
      using route_of_iff [of s] by auto
    ultimately show ?thesis by (simp add: created_fact_def)
  next
    case False
    have "newest_route (routes (load_facts ex s)) \<noteq> Some x" for x
      unfolding live_route_iff loaded_routes using False Some by (auto simp: newest_created)
    moreover have "route_of s \<noteq> Some r" for r using False Some unfolding route_of_iff by auto
    ultimately have "newest_route (routes (load_facts ex s)) = None" "route_of s = None" by auto
    then show ?thesis by simp
  qed
qed

definition routes_not_after :: "chunk_rows \<Rightarrow> instant \<Rightarrow> bool" where
  "routes_not_after s at \<longleftrightarrow> (\<forall>r\<in>set (ck_routes s). wr_created_at r \<le> at)
     \<and> (\<forall>q\<in>set (ck_released s). wl_released_at q \<le> at) \<and> (\<forall>t\<in>set (ck_tokens s). rt_minted_at t \<le> at)"

lemma seqs_below:
  "r \<in> set (ck_routes s) \<Longrightarrow> wr_seq r < next_route_seq s"
  "q \<in> set (ck_released s) \<Longrightarrow> wl_seq q < next_route_seq s"
  "t \<in> set (ck_tokens s) \<Longrightarrow> rt_seq t < next_route_seq s"
  by (rule next_route_seq_greater; simp add: route_seqs_def)+

lemma owner_routes [simp]:
  "ck_routes (record_epoch_owner e w at s) = ck_routes s" "ck_released (record_epoch_owner e w at s) = ck_released s"
  "ck_tokens (record_epoch_owner e w at s) = ck_tokens s"
  by (simp_all add: record_epoch_owner_def)

theorem claim_takes_the_route:
  assumes "routes_not_after s at"
  shows "route_of (record_route i r h at s) = Some (r\<lparr>route_created_at := at, route_route_id := Some i\<rparr>)
     \<and> (\<exists>t. newest_token (routes (load_facts ex (record_route i r h at s))) = Some t \<and> rt_token_hash t = h)
     \<and> route_of (record_route_released at' cause reason (record_route i r h at s)) =
         (if at \<le> at' then None else Some (r\<lparr>route_created_at := at, route_route_id := Some i\<rparr>))"
proof -
  let ?s' = "record_route i r h at s"
  let ?row = "\<lparr>wr_route_id = i, wr_runner_id = route_runner_id r, wr_workspace_id = route_workspace_id r,
     wr_created_at = at, wr_seq = next_route_seq s, wr_environment_ids = route_environment_ids r\<rparr>"
  have rows: "ck_routes ?s' = ck_routes s @ [?row]" "ck_released ?s' = ck_released s"
    by (simp_all add: record_route_def Let_def insert_token_def)
  have less: "wr_key x < wr_key ?row" if "x \<in> set (ck_routes s)" for x
    using assms that seqs_below(1) [OF that] by (auto simp: routes_not_after_def wr_key_def less_prod_def less_eq_prod_def)
  have top: "newest_row wr_key (ck_routes ?s') = Some ?row"
    by (rule newest_row_eqI) (auto simp: rows less)
  have live: "wl_key q \<le> wr_key ?row" if "q \<in> set (ck_released s)" for q
    using assms that seqs_below(2) [OF that] by (auto simp: routes_not_after_def wl_key_def wr_key_def less_eq_prod_def)
  have full: "(\<lparr>route_runner_id = route_runner_id r, route_workspace_id = route_workspace_id r,
      route_environment_ids = route_environment_ids r, route_created_at = at, route_route_id = Some i\<rparr>)
      = r\<lparr>route_created_at := at, route_route_id := Some i\<rparr>" by simp
  have now: "route_of ?s' = Some (r\<lparr>route_created_at := at, route_route_id := Some i\<rparr>)"
    unfolding route_of_iff using top live rows(2) full by auto
  show ?thesis
  proof (intro conjI now)
    let ?h = "routes (load_facts ex ?s')"
    have "max_by rc_key (rh_created ?h) = Some (created_fact ?row)" using top by (simp add: loaded_routes newest_created)
    then have nr: "newest_route ?h = Some (created_fact ?row)"
      unfolding live_route_iff using live rows(2) by (auto simp: loaded_routes)
    obtain q where tok: "ck_tokens ?s' = ck_tokens s @ [\<lparr>rt_token_hash = h, rt_minted_at = at, rt_seq = q\<rparr>]"
      and q: "next_route_seq s < q"
    proof
      let ?s1 = "s\<lparr>ck_routes := ck_routes s @ [?row]\<rparr>"
      show "ck_tokens ?s' = ck_tokens s @ [\<lparr>rt_token_hash = h, rt_minted_at = at, rt_seq = next_route_seq ?s1\<rparr>]"
        by (simp add: record_route_def Let_def insert_token_def)
      show "next_route_seq s < next_route_seq ?s1" using seqs_below(1) [of ?row ?s1] by simp
    qed
    let ?old = "filter (\<lambda>t. wr_seq ?row \<le> rt_seq t) (ck_tokens s)"
    have "?old = []" using seqs_below(3) [of _ s] by (auto simp: filter_empty_conv not_le)
    then have "newest_token ?h = Some \<lparr>rt_token_hash = h, rt_minted_at = at, rt_seq = q\<rparr>"
      using nr q by (simp add: newest_token_def loaded_routes tok created_fact_def)
    then show "\<exists>t. newest_token ?h = Some t \<and> rt_token_hash t = h" by simp
  next
    let ?rel = "record_route_released at' cause reason ?s'"
    have rows': "ck_routes ?rel = ck_routes ?s'"
      "ck_released ?rel = ck_released s @ [\<lparr>wl_released_at = at', wl_seq = next_route_seq ?s', wl_cause = cause, wl_reason = reason\<rparr>]"
      by (simp_all add: record_route_released_def insert_release_def rows)
    have "next_route_seq s < next_route_seq ?s'" using seqs_below(1) [of ?row ?s'] rows by simp
    then have "(\<forall>q\<in>set (ck_released ?rel). wl_key q \<le> wr_key ?row) \<longleftrightarrow> \<not> at \<le> at'"
      using live by (auto simp: rows' wl_key_def wr_key_def less_eq_prod_def)
    then show "route_of ?rel = (if at \<le> at' then None else Some (r\<lparr>route_created_at := at, route_route_id := Some i\<rparr>))"
      using route_of_iff [of ?rel] top full by (cases "route_of ?rel") (auto simp: rows')
  qed
qed

section \<open>A restart moves the chunk\<close>

lemma answered_rows:
  "movement_rows (fold (answer_superseded a b at) qs s) = movement_rows s
   \<and> ck_graph_id (fold (answer_superseded a b at) qs s) = ck_graph_id s"
  by (induction qs arbitrary: s) (auto simp: answer_superseded_def movement_rows_def)

definition restart_row_of :: "restart_write \<Rightarrow> chunk_rows \<Rightarrow> restart_row" where
  "restart_row_of w s =
     \<lparr>sr_graph_id = (case sw_to_graph_id w of None \<Rightarrow> ck_graph_id s | Some g \<Rightarrow> g),
      sr_from_node_id = sw_from_node_id w,
      sr_from_graph_id = (case sw_to_graph_id w of None \<Rightarrow> None | Some _ \<Rightarrow> Some (ck_graph_id s)),
      sr_to_node_id = sw_to_node_id w, sr_epoch = latest_epoch s + 1, sr_decision_id = sw_decision_id w,
      sr_restarted_by = sw_by w, sr_recorded_at = sw_at w, sr_note = sw_note w\<rparr>"

lemma restart_rows:
  "ck_transitions (record_restart w s) = ck_transitions s"
  "ck_restarts (record_restart w s) = ck_restarts s @ [restart_row_of w s]"
  "\<forall>m\<in>set (ck_migrations (record_restart w s)). m \<in> set (ck_migrations s)
     \<or> (mr_recorded_at m, mr_epoch m) = (sw_at w, latest_epoch s + 1)"
  "ck_graph_id (record_restart w s) = (case sw_to_graph_id w of None \<Rightarrow> ck_graph_id s | Some g \<Rightarrow> g)"
  using answered_rows [of "sw_answer w" "sw_by w" "sw_at w" "sw_answered_question_ids w" s]
  by (auto simp: record_restart_def Let_def record_epoch_owner_def repin_by_restart_def restart_row_of_def
      movement_rows_def split: option.splits)

definition moved_by :: "chunk_rows \<Rightarrow> instant \<Rightarrow> int \<Rightarrow> bool" where
  "moved_by s at epoch \<longleftrightarrow>
     (\<forall>t\<in>set (ck_transitions s). xr_key t \<le> (at, epoch))
     \<and> (\<forall>m\<in>set (ck_migrations s). (mr_recorded_at m, mr_epoch m) \<le> (at, epoch))
     \<and> (\<forall>r\<in>set (ck_restarts s). (sr_recorded_at r, sr_epoch r) \<le> (at, epoch))"

lemma order_key_le_restart: "a \<le> b \<Longrightarrow> order_key k a \<le> order_key MRestart b"
  using order_key_le [of k a MRestart b] by (cases k) (auto simp: order_le_less)

lemma loaded_keys_le:
  assumes "moved_by s at epoch" and "k \<in> movement_keys (load_facts ex s) None"
  shows "k \<le> order_key MRestart (at, epoch)"
  using assms unfolding movement_keys_def family_keys_def loaded_movements moved_by_def
  by (auto simp: movement_row_keys intro!: order_key_le_restart)

theorem restart_moves_the_chunk:
  assumes "moved_by s (sw_at w) (latest_epoch s + 1)"
  shows "latest_movement (load_facts ex (record_restart w s))
       = Some (movement_of_restart (restart_of_row ex (restart_row_of w s)))
     \<and> current_node_id (load_facts ex (record_restart w s)) = Some (sw_to_node_id w)
     \<and> mv_graph_id (movement_of_restart (restart_of_row ex (restart_row_of w s))) = Some (ck_graph_id (record_restart w s))
     \<and> \<not> newest_transition_is_terminal (load_facts ex (record_restart w s))"
proof -
  let ?s' = "record_restart w s" and ?e = "latest_epoch s + 1"
  let ?f = "load_facts ex ?s'" and ?r = "restart_of_row ex (restart_row_of w s)"
  have key: "rs_key ?r = (sw_at w, ?e)" by (simp add: movement_row_keys restart_row_of_def)
  have "moved_by ?s' (sw_at w) ?e"
    using assms restart_rows(3) [of w s] unfolding moved_by_def restart_rows(1,2)
    by (auto simp: restart_row_of_def)
  note le = loaded_keys_le [OF this, of _ ex]
  have "order_key MRestart (rs_key ?r) \<in> movement_keys ?f None"
    by (auto simp: movement_keys_def family_keys_def seen_def loaded_movements restart_rows(2))
  then have mem: "order_key MRestart (sw_at w, ?e) \<in> movement_keys ?f None" by (simp add: key)
  then obtain m where m: "latest_movement ?f = Some m" using latest_movement_None [of ?f None] by fastforce
  then obtain k where k: "max_by fst (ranked_movements ?f None) = Some (k, m)"
    unfolding latest_movement_Some by blast
  have k_eq: "k = order_key MRestart (sw_at w, ?e)"
    using latest_movement_greatest [OF k mem] le [OF ranked_key [OF max_by_in_set [OF k]]] by simp
  have "\<exists>x. max_by rs_key (cf_restarts ?f) = Some x \<and> m = movement_of_restart x \<and> rs_key x = (sw_at w, ?e)"
    using max_by_in_set [OF k] unfolding ranked_movements_def set_append Un_iff newest_ranked_iff k_eq
    by (auto simp: order_key_def seen_def prod_eq_iff)
  then obtain x where x: "x \<in> set (cf_restarts ?f)" "m = movement_of_restart x" "rs_key x = (sw_at w, ?e)"
    using max_by_in_set by metis
  have "x = ?r"
  proof -
    from x(1) consider y where "y \<in> set (ck_restarts s)" "x = restart_of_row ex y" | "x = ?r"
      by (auto simp: loaded_movements restart_rows(2))
    then show ?thesis
    proof cases
      case 1
      then have "sr_epoch y \<in> row_epochs s" by (simp add: row_epochs_def)
      from latest_epoch_ge [OF this] x(3) 1(2) show ?thesis by (simp add: movement_row_keys)
    qed
  qed
  with m x(2) have "latest_movement ?f = Some (movement_of_restart ?r)" by simp
  then show ?thesis
    by (simp add: current_node_id_def movement_of_restart_def newest_transition_is_terminal_def restart_of_row_def
        restart_row_of_def restart_rows(4))
qed

section \<open>A claimed runner can work\<close>

lemma claim_epoch: "store_inv s \<Longrightarrow> latest_epoch (record_route i r h at s) = latest_epoch s + 1"
proof -
  assume inv: "store_inv s"
  have "row_epochs (record_route i r h at s) \<subseteq> insert (latest_epoch s + 1) (row_epochs s)"
    by (auto simp: row_epochs_def record_route_def Let_def insert_token_def record_epoch_owner_def latest_epoch_def)
  then have "e \<in> row_epochs (record_route i r h at s) \<Longrightarrow> e \<le> latest_epoch s + 1" for e
    using latest_epoch_ge [of e s] by auto
  with latest_epoch_in [of "record_route i r h at s"] conjunct1 [OF record_route_epoch, of s i r h at]
    latest_epoch_nonneg [OF inv] show ?thesis by fastforce
qed

lemma no_lease_above: "latest_epoch s < e \<Longrightarrow> List.find (\<lambda>l. lr_epoch l = e \<and> lr_lease_id l \<noteq> None) (ck_leases s) = None"
  using latest_epoch_ge [of e s] by (auto simp: find_eq_None row_epochs_def)

text \<open>C8: On a live chunk the claiming runner's lease mint at the reserved epoch is accepted, and its
  writes at that epoch then pass the fence under both the current and the at-or-above admission.\<close>

theorem claimed_runner_can_write:
  assumes inv: "store_inv s" and live: "\<not> is_terminal s" and c: "cl_runner_id c = route_runner_id r"
  shows "\<exists>s'. record_lease_minted (latest_epoch s + 1) c at' (record_route i r h at s) = (None, s')
     \<and> fence s' (latest_epoch s + 1) AdmitCurrent (Some c) = None
     \<and> fence s' (latest_epoch s + 1) AdmitAtOrAbove (Some c) = None"
proof -
  let ?e = "latest_epoch s + 1" and ?t = "record_route i r h at s"
  have e: "latest_epoch ?t = ?e" by (rule claim_epoch [OF inv])
  have o: "epoch_owner_of ?t ?e = Some (Some (cl_runner_id c))" using record_route_epoch [of s i r h at] c by simp
  have l: "ck_leases ?t = ck_leases s" "ck_stopped ?t = ck_stopped s" "ck_completed ?t = ck_completed s"
    and mv: "movement_rows ?t = movement_rows s"
    by (simp_all add: record_route_def Let_def insert_token_def record_epoch_owner_def movement_rows_def)
  have nt: "\<not> is_terminal ?t" using live done_cong [OF mv] by (simp add: is_terminal_def l)
  have ol: "owning_lease_id ?t ?e = None" using no_lease_above [of s ?e] by (simp add: owning_lease_id_def l)
  let ?row = "\<lparr>lr_epoch = ?e, lr_runner_id = cl_runner_id c, lr_minted_at = at', lr_lease_id = cl_lease_id c\<rparr>"
  let ?s' = "?t\<lparr>ck_leases := ck_leases ?t @ [?row]\<rparr>"
  have mint: "record_lease_minted ?e c at' ?t = (None, ?s')"
    using nt e o ol
    by (simp add: record_lease_minted_def Let_def mint_admission_of_def mint_refusal_def takes_ownership_def claimant_owns_def)
  have e': "latest_epoch ?s' = ?e"
  proof -
    have "row_epochs ?s' = insert ?e (row_epochs ?t)" by (auto simp: row_epochs_def)
    moreover have "x \<in> row_epochs ?t \<Longrightarrow> x \<le> ?e" for x using latest_epoch_ge [of x ?t] e by simp
    ultimately show ?thesis
      using latest_epoch_in [of ?s'] latest_epoch_ge [of ?e ?s'] latest_epoch_nonneg [OF inv] by fastforce
  qed
  have nt': "\<not> is_terminal ?s'" using nt by (simp add: is_terminal_def done_by_transition_def unsuperseded_terminal_def)
  have o': "epoch_owner_of ?s' ?e = Some (Some (cl_runner_id c))" using o by (simp add: epoch_owner_of_def)
  have ol': "owning_lease_id ?s' ?e = cl_lease_id c"
    using no_lease_above [of s ?e] by (simp add: owning_lease_id_def l find_append)
  have pos: "?e \<noteq> 0" using latest_epoch_nonneg [OF inv] by simp
  have "fence ?s' ?e AdmitCurrent (Some c) = None \<and> fence ?s' ?e AdmitAtOrAbove (Some c) = None"
    using nt' e' o' ol' pos by (simp add: fence_def Let_def claimant_owns_def)
  with mint show ?thesis by blast
qed

section \<open>Witnesses\<close>

definition sample_route :: "ident \<Rightarrow> route" where
  "sample_route rn = \<lparr>route_runner_id = rn, route_workspace_id = ''ws_1'', route_environment_ids = [],
     route_created_at = 0, route_route_id = None\<rparr>"

definition fresh_rows :: chunk_rows where
  "fresh_rows = record_promote 5 (insert_chunk_rows ''gr_1'' [] [])"

definition claimed_rows :: chunk_rows where
  "claimed_rows = record_route ''rt_1'' (sample_route ''rn_1'') ''hash'' 10 fresh_rows"

definition sample_claimant :: claimant where
  "sample_claimant = \<lparr>cl_runner_id = ''rn_1'', cl_lease_id = None\<rparr>"

definition sample_transition_write :: transition_write where
  "sample_transition_write = \<lparr>tw_transition_id = ''tr_1'', tw_from_node_id = Some ''a'', tw_to_node_id = ''b'',
     tw_choice_name = None, tw_epoch = 1, tw_admission = AdmitCurrent, tw_claimant = Some sample_claimant,
     tw_runner_id = ''rn_1'', tw_at = 20, tw_artifacts = [], tw_close_decision = \<lparr>cd_closable = {}, cd_skipped = {}\<rparr>,
     tw_decision_id = None\<rparr>"

definition sample_restart_write :: restart_write where
  "sample_restart_write = \<lparr>sw_from_node_id = None, sw_to_node_id = ''c'', sw_by = ''op'', sw_at = 30,
     sw_decision_id = None, sw_answered_question_ids = [], sw_answer = [], sw_to_graph_id = None, sw_note = None,
     sw_migration_id = ''mg_1''\<rparr>"

definition sample_hub_step :: hub_step_write where
  "sample_hub_step = \<lparr>hw_from_node_id = ''a'', hw_to_node_id = ''b'', hw_choice_name = ''ok'', hw_epoch = 1,
     hw_admission = AdmitAtOrAbove, hw_runner_id = ''hub'', hw_transition_id = ''tr_1'', hw_at = 20, hw_artifacts = [],
     hw_release_route = False, hw_close_decision = \<lparr>cd_closable = {}, cd_skipped = {}\<rparr>\<rparr>"

lemma fresh_inv: "store_inv fresh_rows"
  by (simp add: fresh_rows_def insert_chunk_rows_def record_promote_def store_inv_def route_seqs_def)


lemma fresh_epoch: "latest_epoch fresh_rows = 0" and claimed_epoch: "latest_epoch claimed_rows = 1"
  by code_simp+

theorem claim_shuts_out_earlier_attempts_witness:
  "shuts_out claimed_rows 0 \<and> epoch_owner_of claimed_rows 1 = Some (Some ''rn_1'')"
proof -
  have "store_step\<^sup>*\<^sup>* (record_route ''rt_1'' (sample_route ''rn_1'') ''hash'' 10 fresh_rows) claimed_rows"
    by (simp add: claimed_rows_def)
  from claim_shuts_out_earlier_attempts [OF fresh_inv this, of 0] show ?thesis
    by (simp add: fresh_epoch sample_route_def)
qed


theorem one_runner_per_epoch_witness:
  "\<exists>s1 s3. runner_write claimed_rows 1 sample_claimant s1
     \<and> runner_write s1 1 (sample_claimant\<lparr>cl_lease_id := Some ''ls_1''\<rparr>) s3
     \<and> cl_runner_id sample_claimant = cl_runner_id (sample_claimant\<lparr>cl_lease_id := Some ''ls_1''\<rparr>)"
proof -
  let ?d = "sample_claimant\<lparr>cl_lease_id := Some ''ls_1''\<rparr>"
  let ?w = "sample_transition_write\<lparr>tw_claimant := Some ?d\<rparr>"
  define s1 where "s1 = snd (record_lease_minted 1 sample_claimant 15 claimed_rows)"
  have "fst (record_lease_minted 1 sample_claimant 15 claimed_rows) = None" by code_simp
  then have first: "runner_write claimed_rows 1 sample_claimant s1"
    by (intro runner_write.mints [of _ _ 15]) (simp add: s1_def prod_eq_iff)
  have "answered (record_transition ?w s1) None" unfolding s1_def by code_simp
  then obtain s3 where "record_transition ?w s1 = Inr (None, s3)"
    by (auto simp: answered_def split: sum.splits)
  then have second: "runner_write s1 1 ?d s3"
    using runner_write.moves [of ?w ?d s1 s3] by (simp add: sample_transition_write_def)
  from first second one_runner_per_epoch [OF first rtranclp.rtrancl_refl second] show ?thesis by blast
qed

theorem ended_chunk_stays_ended_witness:
  "is_terminal (record_pause True ''op'' 30 finished_rows) \<and> shuts_out (record_pause True ''op'' 30 finished_rows) 7"
proof -
  have "is_terminal finished_rows" by code_simp
  moreover have "store_step\<^sup>*\<^sup>* finished_rows (record_pause True ''op'' 30 finished_rows)"
    by (rule r_into_rtranclp) (rule store_step.pause)
  ultimately show ?thesis using ended_chunk_stays_ended [of finished_rows _ "\<lambda>_. None" 7] by blast
qed


theorem hub_writes_land_once_witness:
  "\<exists>t. record_hub_step_transition sample_hub_step fresh_rows = Inr (True, t)
     \<and> record_hub_step_transition sample_hub_step t = Inr (False, t)"
proof -
  have "answered (record_hub_step_transition sample_hub_step fresh_rows) True" by code_simp
  then obtain t where t: "record_hub_step_transition sample_hub_step fresh_rows = Inr (True, t)"
    by (auto simp: answered_def split: sum.splits)
  have "record_hub_step_transition sample_hub_step t = Inr (False, t)"
    using conjunct1 [OF hub_writes_land_once [OF rtranclp.rtrancl_refl, of sample_hub_step fresh_rows t sample_hub_step]] t
    by simp
  with t show ?thesis by blast
qed

theorem claim_takes_the_route_witness:
  "route_of claimed_rows = Some ((sample_route ''rn_1'')\<lparr>route_created_at := 10, route_route_id := Some ''rt_1''\<rparr>)"
proof -
  have "routes_not_after fresh_rows 10"
    by (simp add: routes_not_after_def fresh_rows_def insert_chunk_rows_def record_promote_def)
  from claim_takes_the_route [OF this, of "''rt_1''" "sample_route ''rn_1''" "''hash''"] show ?thesis
    by (simp add: claimed_rows_def)
qed

theorem restart_moves_the_chunk_witness:
  "current_node_id (load_facts (\<lambda>_. None) (record_restart sample_restart_write claimed_rows)) = Some ''c''"
proof -
  have "movement_rows claimed_rows = ([], [], [])" by code_simp
  then have "moved_by claimed_rows (sw_at sample_restart_write) (latest_epoch claimed_rows + 1)"
    by (simp add: moved_by_def movement_rows_def)
  from restart_moves_the_chunk [OF this, of "\<lambda>_. None"] show ?thesis by (simp add: sample_restart_write_def)
qed

theorem claimed_runner_can_write_witness:
  "\<exists>s'. record_lease_minted 1 sample_claimant 12 claimed_rows = (None, s') \<and> fence s' 1 AdmitCurrent (Some sample_claimant) = None"
proof -
  have "\<not> is_terminal fresh_rows" by code_simp
  from claimed_runner_can_write [OF fresh_inv this, of sample_claimant "sample_route ''rn_1''" 12 "''rt_1''" "''hash''" 10]
  show ?thesis by (auto simp: claimed_rows_def fresh_epoch sample_claimant_def sample_route_def)
qed

end
