(* ===== verification/Apply_Laws.thy ===== *)
theory Apply_Laws
  imports Apply Store_Laws
begin

text \<open>
  What applying a completion guarantees. The chunk's exits, one per visit (a node at an epoch), are a
  register each visit writes at most once: an apply fills an empty entry or changes nothing, whatever
  it read before the lock; a failure writes nothing; a gate's decision is opened in the transaction
  that lands on it, and opening it is never refused.
\<close>

section \<open>The tables a movement leaves alone\<close>

lemma movements_artifacts [simp]: "movement_rows (insert_artifacts at xs s) = movement_rows s"
proof (induction xs arbitrary: s)
  case (Cons x xs)
  then show ?case by (simp add: insert_artifacts_def) (simp add: movement_rows_def insert_artifact_def)
qed (simp add: insert_artifacts_def)

definition fence_part :: "chunk_rows \<Rightarrow> lease_row list \<times> owner_row list \<times> restart_row list \<times> instant list \<times> instant list" where
  "fence_part s = (ck_leases s, ck_owners s, ck_restarts s, ck_stopped s, ck_completed s)"

lemma fence_artifacts [simp]: "fence_part (insert_artifacts at xs s) = fence_part s"
proof (induction xs arbitrary: s)
  case (Cons x xs)
  then show ?case by (simp add: insert_artifacts_def) (simp add: fence_part_def insert_artifact_def)
qed (simp add: insert_artifacts_def)

lemma fence_enqueue: "enqueue_close_intents at d s = Inr s' \<Longrightarrow> fence_part s' = fence_part s"
proof -
  have one: "fence_part (enqueue_one a b d at r t) = fence_part t" for a b r t
    by (simp add: enqueue_one_def fence_part_def)
  have "fence_part (fold (enqueue_one a b d at) rs t) = fence_part t" for a b rs t
    by (induction rs arbitrary: t) (auto simp: one)
  then show "enqueue_close_intents at d s = Inr s' \<Longrightarrow> fence_part s' = fence_part s"
    by (auto simp: enqueue_close_intents_def Let_def split: if_splits)
qed

lemma fence_part_epochs:
  "fence_part s' = fence_part s \<Longrightarrow> latest_epoch s' = latest_epoch s \<and> epoch_owner_of s' e = epoch_owner_of s e
     \<and> owning_lease_id s' e = owning_lease_id s e"
  by (simp add: fence_part_def latest_epoch_def epoch_owner_of_def owning_lease_id_def)

lemma decision_tables:
  assumes "record_decision w s = Inr (r, s')"
  shows "movement_rows s' = movement_rows s \<and> fence_part s' = fence_part s"
proof -
  let ?s1 = "s\<lparr>ck_decisions := ck_decisions s @ [dw_decision w]\<rparr>"
  have "movement_rows ?s1 = movement_rows s" "fence_part ?s1 = fence_part s"
    by (simp_all add: movement_rows_def fence_part_def)
  then show ?thesis
    using assms enqueue_movements fence_enqueue
    by (auto simp: record_decision_def Let_def map_sum_Inr split: option.splits if_splits)
qed

lemma decision_locked_tables:
  "record_decision_locked w s = Inr (r, s') \<Longrightarrow> movement_rows s' = movement_rows s \<and> fence_part s' = fence_part s"
  by (auto simp: record_decision_locked_def map_sum_Inr dest: decision_tables split: if_splits)

lemma gate_tables:
  "open_graph_gate_on_arrival i g nid e at cl close s = Inr s' \<Longrightarrow>
   movement_rows s' = movement_rows s \<and> fence_part s' = fence_part s"
  by (auto simp: open_graph_gate_on_arrival_def dest: decision_locked_tables
      split: next_step.splits sum.splits decision_outcome.splits)

section \<open>The decisions a movement leaves alone\<close>

lemma decisions_artifacts [simp]: "ck_decisions (insert_artifacts at xs s) = ck_decisions s"
proof (induction xs arbitrary: s)
  case (Cons x xs)
  then show ?case by (simp add: insert_artifacts_def) (simp add: insert_artifact_def)
qed (simp add: insert_artifacts_def)

lemma decisions_enqueue: "enqueue_close_intents at d s = Inr s' \<Longrightarrow> ck_decisions s' = ck_decisions s"
proof -
  have "ck_decisions (fold (enqueue_one a b d at) rs t) = ck_decisions t" for a b rs t
    by (induction rs arbitrary: t) (auto simp: enqueue_one_def)
  then show "enqueue_close_intents at d s = Inr s' \<Longrightarrow> ck_decisions s' = ck_decisions s"
    by (auto simp: enqueue_close_intents_def Let_def split: if_splits)
qed

lemma decisions_transition: "record_transition w s = Inr (r, s') \<Longrightarrow> ck_decisions s' = ck_decisions s"
  by (auto simp: record_transition_def Let_def map_sum_Inr insert_transition_def dest!: decisions_enqueue
      split: option.splits if_splits)

lemma decisions_migration: "record_migration w s = Inr (r, s') \<Longrightarrow> ck_decisions s' = ck_decisions s"
  by (auto simp: record_migration_def Let_def map_sum_Inr insert_migration_def insert_release_def
      dest!: decisions_enqueue split: option.splits if_splits)

section \<open>Exits\<close>

datatype chunk_exit = ExitTo ident | ExitOnto ident "ident option"

definition exits :: "chunk_rows \<Rightarrow> ident \<times> int \<Rightarrow> chunk_exit option" where
  "exits s k =
     (case accepted_target_row s (fst k) (snd k) of Some t \<Rightarrow> Some (ExitTo t)
      | None \<Rightarrow> map_option (\<lambda>m. ExitOnto (mr_to_graph_id m) (mr_landed_node_id m))
          (List.find (\<lambda>m. mr_from_node_id m = Some (fst k) \<and> mr_epoch m = snd k) (ck_migrations s)))"

lemma exits_cong: "movement_rows s' = movement_rows s \<Longrightarrow> exits s' = exits s"
  by (rule ext) (simp add: exits_def accepted_target_row_def movement_rows_def split: option.split)

lemma target_None: "accepted_target_row s n e = None \<longleftrightarrow> \<not> transition_exists s n e"
  by (auto simp: accepted_target_row_def transition_exists_def find_eq_None)

lemma exits_None:
  "exits s (n, e) = None \<longleftrightarrow> \<not> transition_exists s n e \<and> \<not> migration_exists s (Some n) e"
proof (cases "accepted_target_row s n e")
  case None
  then show ?thesis by (auto simp: exits_def target_None [symmetric] migration_exists_def find_eq_None)
next
  case (Some t)
  then have "transition_exists s n e" using target_None [of s n e] by simp
  with Some show ?thesis by (simp add: exits_def)
qed

lemma exits_add_transition:
  assumes "ck_transitions s' = ck_transitions s @ [t]" and "ck_migrations s' = ck_migrations s"
    and "xr_from_node_id t = Some n" and "exits s (n, xr_epoch t) = None"
  shows "exits s' = (exits s)((n, xr_epoch t) \<mapsto> ExitTo (xr_to_node_id t))"
proof
  fix k
  show "exits s' k = ((exits s)((n, xr_epoch t) \<mapsto> ExitTo (xr_to_node_id t))) k"
  proof (cases "k = (n, xr_epoch t)")
    case True
    with assms show ?thesis
      by (auto simp: exits_def accepted_target_row_def find_append split: option.splits)
  next
    case False
    then have "\<not> (xr_from_node_id t = Some (fst k) \<and> xr_epoch t = snd k)" using assms(3) by (cases k) auto
    with False assms(1,2) show ?thesis
      by (auto simp: exits_def accepted_target_row_def find_append split: option.splits)
  qed
qed

lemma exits_add_migration:
  assumes "ck_migrations s' = ck_migrations s @ [m]" and "ck_transitions s' = ck_transitions s"
    and "mr_from_node_id m = Some n" and "exits s (n, mr_epoch m) = None"
  shows "exits s' = (exits s)((n, mr_epoch m) \<mapsto> ExitOnto (mr_to_graph_id m) (mr_landed_node_id m))"
proof
  fix k
  show "exits s' k = ((exits s)((n, mr_epoch m) \<mapsto> ExitOnto (mr_to_graph_id m) (mr_landed_node_id m))) k"
  proof (cases "k = (n, mr_epoch m)")
    case True
    with assms show ?thesis
      by (auto simp: exits_def accepted_target_row_def find_append split: option.splits)
  next
    case False
    then have "\<not> (mr_from_node_id m = Some (fst k) \<and> mr_epoch m = snd k)" using assms(3) by (cases k) auto
    with False assms(1,2) show ?thesis
      by (auto simp: exits_def accepted_target_row_def find_append split: option.splits)
  qed
qed

lemma loaded_moves [simp]:
  "cf_transitions (load_facts ex s) = map (transition_of_row ex) (ck_transitions s)"
  "cf_migrations (load_facts ex s) = map (migration_of_row ex) (ck_migrations s)"
  by (simp_all add: load_facts_def)

lemma find_map_field:
  "(\<And>x. x \<in> set xs \<Longrightarrow> P (f x) = Q x) \<Longrightarrow> List.find P (map f xs) = map_option f (List.find Q xs)"
  by (induction xs) auto

lemma loaded_target: "accepted_transition_target (load_facts ex s) n e = accepted_target_row s n e"
proof -
  have "List.find (\<lambda>t. tr_from_node_id t = Some n \<and> tr_epoch t = e) (map (transition_of_row ex) (ck_transitions s))
      = map_option (transition_of_row ex) (List.find (\<lambda>t. xr_from_node_id t = Some n \<and> xr_epoch t = e) (ck_transitions s))"
    by (rule find_map_field) (simp add: transition_of_row_def)
  then show ?thesis
    by (simp add: accepted_transition_target_def accepted_target_row_def option.map_comp comp_def transition_of_row_def)
qed

lemma landed_iff:
  "landed_under_lock (load_facts ex s) sub = None \<longleftrightarrow> exits s (cp_from_node_id sub, cp_epoch sub) = None"
proof -
  let ?n = "cp_from_node_id sub" and ?e = "cp_epoch sub"
  have "(\<exists>m\<in>set (cf_migrations (load_facts ex s)). mg_from_node_id m = Some ?n \<and> mg_epoch m = ?e)
      \<longleftrightarrow> migration_exists s (Some ?n) ?e"
    by (simp add: migration_exists_def migration_of_row_def)
  then show ?thesis
    using target_None [of s ?n ?e] by (auto simp: landed_under_lock_def loaded_target exits_None split: option.splits)
qed

section \<open>The movements recorded\<close>

lemma transition_recorded_tables:
  assumes "record_transition w s = Inr (None, s')"
  shows "ck_transitions s' = ck_transitions s @
       [\<lparr>xr_transition_id = tw_transition_id w, xr_graph_id = ck_graph_id s, xr_from_node_id = tw_from_node_id w,
         xr_to_node_id = tw_to_node_id w, xr_choice_name = tw_choice_name w, xr_decision_id = tw_decision_id w,
         xr_epoch = tw_epoch w, xr_runner_id = tw_runner_id w, xr_recorded_at = tw_at w\<rparr>]
     \<and> ck_migrations s' = ck_migrations s \<and> fence_part s' = fence_part s
     \<and> fence s (tw_epoch w) (tw_admission w) (tw_claimant w) = None"
proof -
  let ?s1 = "insert_transition w s"
  have f: "fence s (tw_epoch w) (tw_admission w) (tw_claimant w) = None"
    using assms by (auto simp: record_transition_def split: option.splits)
  with assms have "movement_rows s' = movement_rows ?s1 \<and> fence_part s' = fence_part ?s1"
    by (auto simp: record_transition_def Let_def map_sum_Inr dest: enqueue_movements fence_enqueue split: if_splits)
  moreover have "fence_part ?s1 = fence_part s" by (simp add: fence_part_def insert_transition_def)
  ultimately show ?thesis using f by (simp add: movement_rows_def insert_transition_def)
qed

lemma transition_refused_rows: "record_transition w s = Inr (Some r, s') \<Longrightarrow> s' = s"
  by (auto simp: record_transition_def Let_def map_sum_Inr split: option.splits if_splits)

lemma fence_release [simp]: "fence_part (insert_release at c r s) = fence_part s"
  by (simp add: fence_part_def insert_release_def)

lemma movements_release [simp]: "movement_rows (insert_release at c r s) = movement_rows s"
  by (simp add: movement_rows_def insert_release_def)

lemma migration_recorded_tables:
  assumes "record_migration w s = Inr (Migrated i, s')"
  shows "i = mw_migration_id w \<and> ck_migrations s' = ck_migrations s @
       [\<lparr>mr_migration_id = mw_migration_id w, mr_from_node_id = mw_from_node_id w,
         mr_from_graph_id = mw_from_graph_id w, mr_to_graph_id = mw_to_graph_id w,
         mr_landed_node_id = mw_landed_node_id w, mr_choice_name = mw_choice_name w,
         mr_decision_id = mw_decision_id w, mr_model_after = mw_model w, mr_epoch = mw_epoch w,
         mr_recorded_at = mw_at w, mr_source = Some (mw_source w)\<rparr>]
     \<and> ck_transitions s' = ck_transitions s \<and> fence_part s' = fence_part s
     \<and> fence s (mw_epoch w) (mw_admission w) (mw_claimant w) = None"
proof -
  let ?s1 = "insert_migration w s"
  let ?s2 = "if mw_release_route w then insert_release (mw_at w) None None ?s1 else ?s1"
  let ?s3 = "insert_artifacts (mw_at w) (mw_artifacts w) ?s2"
  have f: "fence s (mw_epoch w) (mw_admission w) (mw_claimant w) = None" and i: "i = mw_migration_id w"
    and nx: "\<not> migration_exists s (mw_from_node_id w) (mw_epoch w)"
    using assms by (auto simp: record_migration_def Let_def map_sum_Inr split: option.splits if_splits)
  have 3: "movement_rows ?s3 = movement_rows ?s1 \<and> fence_part ?s3 = fence_part ?s1" by simp
  from f nx assms have "s' = ?s3 \<or> enqueue_close_intents (mw_at w) (mw_close_decision w) ?s3 = Inr s'"
    by (auto simp: record_migration_def Let_def map_sum_Inr split: if_splits)
  then have "movement_rows s' = movement_rows ?s1 \<and> fence_part s' = fence_part ?s1"
    using 3 enqueue_movements fence_enqueue by metis
  moreover have "fence_part ?s1 = fence_part s" by (simp add: fence_part_def insert_migration_def)
  ultimately show ?thesis using f i by (simp add: movement_rows_def insert_migration_def)
qed

lemma migration_refused_rows: "record_migration w s = Inr (MigrationRefused r, s') \<Longrightarrow> s' = s"
  by (auto simp: record_migration_def Let_def map_sum_Inr split: option.splits if_splits)

lemma escalation_movements: "record_escalation w s = (r, s') \<Longrightarrow> movement_rows s' = movement_rows s"
  by (auto simp: record_escalation_def insert_escalation_def movement_rows_def split: option.splits)

section \<open>The locked sections\<close>

abbreviation visit_of :: "apply_request \<Rightarrow> ident \<times> int" where
  "visit_of req \<equiv> (cp_from_node_id (aq_submission req), cp_epoch (aq_submission req))"

lemma transition_locked_cases:
  assumes "transition_locked env req from_node to arts snap = Inr (a, s')"
  shows "(s' = sn_rows snap \<and> a \<noteq> Recorded ())
     \<or> (a = Recorded () \<and> exits (sn_rows snap) (visit_of req) = None
        \<and> (\<exists>s1. record_transition (transition_of_plan env req from_node to arts
                   (load_facts (ae_executors env) (sn_rows snap)) (sn_rows snap)) (sn_rows snap) = Inr (None, s1)
             \<and> open_graph_gate_on_arrival (ae_decision_id env) (aq_graph req) to (cp_epoch (aq_submission req))
                 (ae_gate_at env) (exit_claimant (load_facts (ae_executors env) (sn_rows snap)) (sn_rows snap) (aq_submission req))
                 (close_of env req) s1 = Inr s'))"
  using assms landed_iff [of "ae_executors env" "sn_rows snap" "aq_submission req"]
  by (auto simp: transition_locked_def Let_def map_sum_Inr dest!: transition_refused_rows
      split: if_splits option.splits sum.splits)

lemma transition_locked_raced:
  assumes "exits (sn_rows snap) (visit_of req) \<noteq> None" and "sn_found snap"
  shows "\<exists>r. transition_locked env req from_node to arts snap = Inr (Raced r, sn_rows snap)"
  using assms landed_iff [of "ae_executors env" "sn_rows snap" "aq_submission req"]
  by (cases "landed_under_lock (load_facts (ae_executors env) (sn_rows snap)) (aq_submission req)")
    (simp_all add: transition_locked_def Let_def)

lemma migration_locked_cases:
  assumes "migration_locked env req from_node l arts snap = Inr (a, s')"
    and that: "node_id from_node = cp_from_node_id (aq_submission req)"
  shows "(s' = sn_rows snap \<and> (\<forall>i. a \<noteq> Recorded i))
     \<or> (a = Recorded (Some (ae_migration_id env)) \<and> exits (sn_rows snap) (visit_of req) = None
        \<and> (\<exists>s1. record_migration (migration_of_landing env req from_node l arts
                   (load_facts (ae_executors env) (sn_rows snap)) (sn_rows snap)) (sn_rows snap)
                 = Inr (Migrated (ae_migration_id env), s1)
             \<and> open_graph_gate_on_arrival (ae_decision_id env) (ld_graph l) (ld_node_id l) (cp_epoch (aq_submission req))
                 (ae_gate_at env) None (close_of env req) s1 = Inr s'))"
proof (cases "sn_found snap \<and> landed_under_lock (load_facts (ae_executors env) (sn_rows snap)) (aq_submission req) = None
    \<and> refuse_incoherent_attempt (load_facts (ae_executors env) (sn_rows snap)) (aq_graph req) from_node
        (cp_epoch (aq_submission req)) False = None")
  case False
  with assms show ?thesis by (auto simp: migration_locked_def Let_def split: if_splits option.splits)
next
  case True
  let ?s = "sn_rows snap"
  let ?w = "migration_of_landing env req from_node l arts (load_facts (ae_executors env) ?s) ?s"
  have e: "exits ?s (visit_of req) = None" using True landed_iff [of "ae_executors env" ?s "aq_submission req"] by simp
  have w: "mw_from_node_id ?w = Some (cp_from_node_id (aq_submission req))" "mw_epoch ?w = cp_epoch (aq_submission req)"
      "mw_migration_id ?w = ae_migration_id env"
    using that by (simp_all add: migration_of_landing_def Let_def)
  then have nx: "\<not> migration_exists ?s (mw_from_node_id ?w) (mw_epoch ?w)" using e exits_None by simp
  obtain outcome s1 where m: "record_migration ?w ?s = Inr (outcome, s1)"
    using assms True by (cases "record_migration ?w ?s") (auto simp: migration_locked_def Let_def)
  show ?thesis
  proof (cases outcome)
    case AlreadyMigrated
    with m nx show ?thesis by (auto simp: record_migration_def Let_def map_sum_Inr split: option.splits if_splits)
  next
    case (MigrationRefused refusal)
    with m have "s1 = ?s" using migration_refused_rows by blast
    with assms True m MigrationRefused show ?thesis by (auto simp: migration_locked_def Let_def)
  next
    case (Migrated i)
    with m w migration_recorded_tables have "i = ae_migration_id env" by fastforce
    with assms True m Migrated e show ?thesis by (auto simp: migration_locked_def Let_def map_sum_Inr migrated_id_def)
  qed
qed

lemma migration_locked_raced:
  assumes "exits (sn_rows snap) (visit_of req) \<noteq> None" and "sn_found snap"
  shows "\<exists>r. migration_locked env req from_node l arts snap = Inr (Raced r, sn_rows snap)"
  using assms landed_iff [of "ae_executors env" "sn_rows snap" "aq_submission req"]
  by (cases "landed_under_lock (load_facts (ae_executors env) (sn_rows snap)) (aq_submission req)")
    (simp_all add: migration_locked_def Let_def)

lemma escalate_locked_cases:
  assumes "escalate_locked env req from_node e draft taken answer snap = (a, s')"
  shows "(s' = sn_rows snap \<and> ((\<exists>r. a = Raced r) \<or> (\<exists>d. a = Answered (failure d)) \<or> a = Answered answer))
     \<or> (a = Answered answer \<and> sn_found snap \<and> exits (sn_rows snap) (visit_of req) = None
        \<and> fence (sn_rows snap) (cp_epoch (aq_submission req)) AdmitCurrent
            (exit_claimant (load_facts (ae_executors env) (sn_rows snap)) (sn_rows snap) (aq_submission req)) = None
        \<and> s' = insert_escalation (escalation_of_draft env req draft (load_facts (ae_executors env) (sn_rows snap)) (sn_rows snap))
                 (sn_rows snap))"
proof -
  let ?s = "sn_rows snap"
  let ?f = "load_facts (ae_executors env) ?s"
  let ?w = "escalation_of_draft env req draft ?f ?s"
  have w: "ew_epoch ?w = cp_epoch (aq_submission req)" "ew_admission ?w = AdmitCurrent"
      "ew_claimant ?w = exit_claimant ?f ?s (aq_submission req)"
    by (simp_all add: escalation_of_draft_def Let_def)
  have r: "record_escalation ?w ?s = (case fence ?s (cp_epoch (aq_submission req)) AdmitCurrent
        (exit_claimant ?f ?s (aq_submission req)) of Some refusal \<Rightarrow> (Some refusal, ?s) | None \<Rightarrow> (None, insert_escalation ?w ?s))"
    by (simp add: record_escalation_def w)
  show ?thesis
    using assms landed_iff [of "ae_executors env" ?s "aq_submission req"]
    unfolding escalate_locked_def Let_def r by (auto split: if_splits option.splits)
qed

section \<open>One call\<close>

definition fresh_id :: "apply_result \<Rightarrow> bool" where
  "fresh_id r \<longleftrightarrow> ap_transition_id r \<noteq> None \<or> ap_migration_id r \<noteq> None"

lemma fresh_answers [simp]:
  "fresh_id (failure d) = False" "fresh_id (apply_answer out d t m) \<longleftrightarrow> t \<noteq> None \<or> m \<noteq> None"
  by (simp_all add: fresh_id_def failure_def apply_answer_def)

lemma fresh_replayed [simp]: "fresh_id (replayed_answer k e) = False"
  by (cases k) simp_all

lemma fresh_respond:
  "fresh_id (fst (respond req n to e tid rows)) \<longleftrightarrow> NextStep_of (aq_graph req) to \<noteq> StepMissing \<and> tid \<noteq> None"
  by (auto simp: respond_def Let_def fresh_id_def apply_answer_def failure_def split: next_step.split)

lemma fresh_raced: "\<not> fresh_id (fst (answer_raced req n r rows))"
  by (cases r) (simp_all add: answer_raced_def fresh_respond)

text \<open>The ways a call ends: with nothing written, with the hub's escalation, or with one movement.\<close>

definition kept :: "snapshot \<Rightarrow> service_error + (apply_result \<times> bool) \<Rightarrow> chunk_rows \<Rightarrow> bool" where
  "kept snap ans s' \<longleftrightarrow> s' = sn_rows snap \<and> (\<forall>r w. ans = Inr (r, w) \<longrightarrow> \<not> fresh_id r)"

lemma kept_raced: "s' = sn_rows snap \<Longrightarrow> kept snap (Inr (answer_raced req n r rows)) s'"
  using fresh_raced [of req n r rows] by (cases "answer_raced req n r rows") (simp add: kept_def)

lemma kept_failure: "s' = sn_rows snap \<Longrightarrow> kept snap (Inr (failure d, w)) s'"
  by (simp add: kept_def)

lemma kept_error: "s' = sn_rows snap \<Longrightarrow> kept snap (Inl err) s'"
  by (simp add: kept_def)

definition escalated ::
  "apply_env \<Rightarrow> apply_request \<Rightarrow> snapshot \<Rightarrow> service_error + (apply_result \<times> bool) \<Rightarrow> chunk_rows \<Rightarrow> bool" where
  "escalated env req snap ans s' \<longleftrightarrow>
     exits (sn_rows snap) (visit_of req) = None \<and> movement_rows s' = movement_rows (sn_rows snap)
     \<and> (\<exists>r. ans = Inr (r, False) \<and> ap_outcome r = OutcomeParkedAtGate \<and> \<not> fresh_id r)
     \<and> (\<exists>draft. s' = insert_escalation (escalation_of_draft env req draft
           (load_facts (ae_executors env) (sn_rows snap)) (sn_rows snap)) (sn_rows snap))"

definition moved_to ::
  "apply_env \<Rightarrow> apply_request \<Rightarrow> snapshot \<Rightarrow> service_error + (apply_result \<times> bool) \<Rightarrow> chunk_rows \<Rightarrow> bool" where
  "moved_to env req snap ans s' \<longleftrightarrow>
     (\<exists>from_node to e arts rows. node_id from_node = cp_from_node_id (aq_submission req)
        \<and> transition_locked env req from_node to arts snap = Inr (Recorded (), s')
        \<and> Destination_of (aq_graph req) e = Some to
        \<and> ans = Inr (respond req from_node to (Some e) (Some (ae_transition_id env)) rows))"

text \<open>The landings a call may make: its edge's own graph, or the one consulted for a pending move.\<close>

definition landing_for :: "apply_request \<Rightarrow> landing \<Rightarrow> bool" where
  "landing_for req l \<longleftrightarrow>
     (\<exists>e n target. mt_cross_graph (aq_targets req) = Some target
        \<and> node_id n = cp_from_node_id (aq_submission req) \<and> l = authored_landing e target n)
     \<or> (\<exists>e. consult_landing (aq_chunk req) e (aq_targets req) = Inr (Some l))"

definition moved_onto ::
  "apply_env \<Rightarrow> apply_request \<Rightarrow> snapshot \<Rightarrow> service_error + (apply_result \<times> bool) \<Rightarrow> chunk_rows \<Rightarrow> bool" where
  "moved_onto env req snap ans s' \<longleftrightarrow>
     (\<exists>from_node l arts. node_id from_node = cp_from_node_id (aq_submission req) \<and> landing_for req l
        \<and> migration_locked env req from_node l arts snap = Inr (Recorded (Some (ae_migration_id env)), s')
        \<and> ans = answer_landing from_node l (Some (ae_migration_id env)))"

lemma run_landing_cases:
  assumes "run_landing env req n arts rows snap l = (ans, s')" and n: "node_id n = cp_from_node_id (aq_submission req)"
    and l: "landing_for req l"
  shows "kept snap ans s' \<or> moved_onto env req snap ans s'"
proof (cases "migration_locked env req n l arts snap")
  case (Inl err)
  with assms show ?thesis by (auto simp: run_landing_def finish_def intro: kept_error)
next
  case (Inr p)
  then obtain a t where m: "migration_locked env req n l arts snap = Inr (a, t)" by (cases p) auto
  with assms(1) have ans: "ans = answer_locked req n rows (answer_landing n l) a" and t: "t = s'"
    by (simp_all add: run_landing_def finish_def)
  from migration_locked_cases [OF m n] t show ?thesis
  proof (elim disjE conjE)
    assume "t = sn_rows snap" "\<forall>i. a \<noteq> Recorded i"
    then show ?thesis
    proof (cases a)
      case (Raced r)
      then have "kept snap ans s'" using ans t \<open>t = sn_rows snap\<close> by (auto simp: answer_locked_def intro: kept_raced)
      then show ?thesis ..
    next
      case (Answered r)
      from m Answered have "\<exists>d. r = failure d"
        by (auto simp: migration_locked_def Let_def map_sum_Inr split: if_splits option.splits sum.splits migration_outcome.splits)
      with Answered ans t \<open>t = sn_rows snap\<close> show ?thesis using kept_failure by (auto simp: answer_locked_def)
    qed simp
  next
    assume "a = Recorded (Some (ae_migration_id env))"
    with m n l ans t show ?thesis unfolding moved_onto_def by (auto simp: answer_locked_def)
  qed
qed

lemma escalate_cases:
  assumes "finish snap (answer_locked req n rows (\<lambda>_. Inl AssertionFailed))
      (Inr (escalate_locked env req n e draft taken answer snap)) = (ans, s')"
    and a: "ap_outcome answer = OutcomeParkedAtGate" "\<not> fresh_id answer"
  shows "kept snap ans s' \<or> escalated env req snap ans s'"
proof -
  obtain a t where m: "escalate_locked env req n e draft taken answer snap = (a, t)" by (cases "escalate_locked env req n e draft taken answer snap")
  with assms(1) have ans: "ans = answer_locked req n rows (\<lambda>_. Inl AssertionFailed) a" and t: "t = s'"
    by (simp_all add: finish_def)
  from escalate_locked_cases [OF m] show ?thesis
  proof (elim disjE conjE)
    assume "t = sn_rows snap" "\<exists>r. a = Raced r"
    then show ?thesis using ans t kept_raced by (auto simp: answer_locked_def)
  next
    assume "t = sn_rows snap" "\<exists>d. a = Answered (failure d)"
    then show ?thesis using ans t by (auto simp: kept_def answer_locked_def)
  next
    assume "t = sn_rows snap" "a = Answered answer"
    then show ?thesis using ans t a by (auto simp: kept_def answer_locked_def)
  next
    assume "a = Answered answer" "exits (sn_rows snap) (visit_of req) = None"
      "t = insert_escalation (escalation_of_draft env req draft (load_facts (ae_executors env) (sn_rows snap)) (sn_rows snap)) (sn_rows snap)"
    then show ?thesis using ans t a
      by (auto simp: escalated_def answer_locked_def insert_escalation_def movement_rows_def)
  qed
qed

lemma run_plan_cases:
  assumes "run_plan env req n plan rows snap = (ans, s')" and n: "node_id n = cp_from_node_id (aq_submission req)"
    and dest: "pl_to_node_id plan \<noteq> None \<Longrightarrow> Destination_of (aq_graph req) (pl_edge plan) = pl_to_node_id plan"
  shows "kept snap ans s' \<or> escalated env req snap ans s' \<or> moved_to env req snap ans s' \<or> moved_onto env req snap ans s'"
proof -
  let ?sub = "aq_submission req" and ?e = "pl_edge plan"
  let ?arts = "if cp_decision_id ?sub \<noteq> None then [] else cp_artifacts ?sub"
  consider (choice) "pl_escalates plan"
    | (across) target where "\<not> pl_escalates plan" "pl_migrates plan" "mt_cross_graph (aq_targets req) = Some target"
    | (unresolved) "\<not> pl_escalates plan" "pl_migrates plan" "mt_cross_graph (aq_targets req) = None"
    | (assertion) err where "\<not> pl_escalates plan" "\<not> pl_migrates plan" "consult_landing (aq_chunk req) ?e (aq_targets req) = Inl err"
    | (consulted) l where "\<not> pl_escalates plan" "\<not> pl_migrates plan" "consult_landing (aq_chunk req) ?e (aq_targets req) = Inr (Some l)"
    | (plain) "\<not> pl_escalates plan" "\<not> pl_migrates plan" "consult_landing (aq_chunk req) ?e (aq_targets req) = Inr None"
    using sum.exhaust [of "consult_landing (aq_chunk req) ?e (aq_targets req)"] option.exhaust by metis
  then show ?thesis
  proof cases
    case choice
    let ?draft = "EscalateChoice_of n (cp_choice ?sub)"
      and ?answer = "apply_answer OutcomeParkedAtGate (EscalatedByChoice (node_name n) (cp_choice ?sub)) None None"
    from choice assms(1) have "finish snap (answer_locked req n rows (\<lambda>_. Inl AssertionFailed))
        (Inr (escalate_locked env req n ?e ?draft (Some ?draft) ?answer snap)) = (ans, s')"
      by (simp add: run_plan_def Let_def)
    from escalate_cases [OF this] show ?thesis by (auto simp: apply_answer_def fresh_id_def)
  next
    case (across target)
    with assms(1) have "run_landing env req n ?arts rows snap (authored_landing ?e target n) = (ans, s')"
      by (simp add: run_plan_def Let_def)
    moreover have "landing_for req (authored_landing ?e target n)" using across n unfolding landing_for_def by blast
    ultimately show ?thesis using run_landing_cases [OF _ n] by blast
  next
    case unresolved
    let ?answer = "apply_answer OutcomeParkedAtGate (TargetUnresolved (edge_target_graph ?e)) None None"
    from unresolved assms(1) have "finish snap (answer_locked req n rows (\<lambda>_. Inl AssertionFailed))
        (Inr (escalate_locked env req n ?e (UnresolvableTarget_of ?e) None ?answer snap)) = (ans, s')"
      by (simp add: run_plan_def Let_def)
    from escalate_cases [OF this] show ?thesis by (auto simp: apply_answer_def fresh_id_def)
  next
    case assertion
    with assms(1) show ?thesis by (auto simp: run_plan_def Let_def intro: kept_error)
  next
    case (consulted l)
    with assms(1) have "run_landing env req n ?arts rows snap l = (ans, s')" by (simp add: run_plan_def Let_def)
    moreover have "landing_for req l" using consulted unfolding landing_for_def by blast
    ultimately show ?thesis using run_landing_cases [OF _ n] by blast
  next
    case plain
    let ?to = "the (pl_to_node_id plan)"
    have to: "pl_to_node_id plan = Some ?to" using plain by (auto simp: pl_migrates_def pl_escalates_def)
    let ?rec = "\<lambda>_. Inr (respond req n ?to (Some ?e) (Some (ae_transition_id env)) rows)"
    from assms(1) plain have f: "finish snap (answer_locked req n rows ?rec) (transition_locked env req n ?to ?arts snap) = (ans, s')"
      by (simp add: run_plan_def Let_def)
    show ?thesis
    proof (cases "transition_locked env req n ?to ?arts snap")
      case (Inl err)
      with f show ?thesis by (auto simp: finish_def intro: kept_error)
    next
      case (Inr p)
      then obtain a where m: "transition_locked env req n ?to ?arts snap = Inr (a, s')"
        and ans: "ans = answer_locked req n rows ?rec a"
        using f by (cases p) (auto simp: finish_def)
      show ?thesis
      proof (cases a)
        case (Raced r)
        with transition_locked_cases [OF m] have "s' = sn_rows snap" by auto
        with Raced ans show ?thesis using kept_raced by (simp add: answer_locked_def)
      next
        case (Answered r)
        with transition_locked_cases [OF m] have "s' = sn_rows snap" by auto
        moreover from m Answered have "\<exists>d. r = failure d"
          by (auto simp: transition_locked_def Let_def map_sum_Inr split: if_splits option.splits sum.splits)
        ultimately show ?thesis using Answered ans by (auto simp: kept_def answer_locked_def)
      next
        case (Recorded u)
        have "Destination_of (aq_graph req) ?e = pl_to_node_id plan" by (rule dest, rule notI) (use to in simp)
        with to have "Destination_of (aq_graph req) ?e = Some ?to" by simp
        with Recorded m n ans have "moved_to env req snap ans s'"
          unfolding moved_to_def by (intro exI [of _ n] exI [of _ ?to] exI [of _ ?e] exI [of _ ?arts] exI [of _ rows])
            (simp add: answer_locked_def)
        then show ?thesis by blast
      qed
    qed
  qed
qed

lemma plan_edge_dest:
  "plan_edge g e c = Inr plan \<Longrightarrow> pl_to_node_id plan \<noteq> None \<Longrightarrow> Destination_of g (pl_edge plan) = pl_to_node_id plan"
  by (auto simp: plan_edge_def split: if_splits option.splits)

lemma plan_completion_dest:
  "plan_completion env req facts n rows = Inr plan \<Longrightarrow> pl_to_node_id plan \<noteq> None \<Longrightarrow>
   Destination_of (aq_graph req) (pl_edge plan) = pl_to_node_id plan"
  by (auto simp: plan_completion_def Let_def plain_plan_def resolving_plan_def dest: plan_edge_dest
      split: option.splits if_splits)

lemma apply_cases:
  assumes "apply_completion env req reads snap = (ans, s')"
  shows "kept snap ans s' \<or> escalated env req snap ans s' \<or> moved_to env req snap ans s' \<or> moved_onto env req snap ans s'"
proof -
  let ?sub = "aq_submission req" and ?rows = "\<lambda>r. sn_rows (reads r)"
  let ?facts = "load_facts (ae_executors env) (?rows ReadFacts)"
  let ?nothing = "\<lambda>answer. (answer, sn_rows snap)"
  have keep: "kept snap ans s'" if "(ans, s') = ?nothing (Inr (failure d, False))" for d
    using that kept_failure by simp
  consider (retired) err where "(ans, s') = ?nothing (Inl err)"
    | (failed) d where "(ans, s') = ?nothing (Inr (failure d, False))"
    | (replayed) k where "(ans, s') = ?nothing (Inr (replayed_answer k (cp_epoch ?sub), False))"
    | (answered) n target where "(ans, s') = ?nothing (Inr (respond req n target None None (?rows ReadArtifacts)))"
    | (planned) n plan where "node_by_id (aq_graph req) (cp_from_node_id ?sub) = Some n"
        "plan_completion env req ?facts n (?rows ReadDecision) = Inr plan"
        "run_plan env req n plan (?rows ReadArtifacts) snap = (ans, s')"
    using assms unfolding apply_completion_def Let_def
    by (auto split: if_splits option.splits sum.splits)
  then show ?thesis
  proof cases
    case retired
    then show ?thesis using kept_error by auto
  next
    case failed
    then show ?thesis using kept_failure by auto
  next
    case replayed
    then show ?thesis by (simp add: kept_def)
  next
    case (answered n target)
    then show ?thesis using fresh_respond [of req n target None None "?rows ReadArtifacts"]
      by (cases "respond req n target None None (?rows ReadArtifacts)") (simp add: kept_def)
  next
    case (planned n plan)
    have "node_id n = cp_from_node_id ?sub" using find_SomeD [OF planned(1) [unfolded node_by_id_def]] by simp
    from run_plan_cases [OF planned(3) this plan_completion_dest [OF planned(2)]] show ?thesis .
  qed
qed

section \<open>What one call does to the exits\<close>

lemma transition_locked_effect:
  assumes t: "transition_locked env req n to arts snap = Inr (Recorded (), s')"
    and n: "node_id n = cp_from_node_id (aq_submission req)"
  shows "exits (sn_rows snap) (visit_of req) = None
     \<and> exits s' = (exits (sn_rows snap))(visit_of req \<mapsto> ExitTo to)
     \<and> (\<exists>s1 cl. ck_decisions s1 = ck_decisions (sn_rows snap)
           \<and> open_graph_gate_on_arrival (ae_decision_id env) (aq_graph req) to (cp_epoch (aq_submission req))
               (ae_gate_at env) cl (close_of env req) s1 = Inr s')"
proof -
  let ?s = "sn_rows snap"
  let ?w = "transition_of_plan env req n to arts (load_facts (ae_executors env) ?s) ?s"
  from transition_locked_cases [OF t] obtain s1 where none: "exits ?s (visit_of req) = None"
    and r: "record_transition ?w ?s = Inr (None, s1)"
    and g: "open_graph_gate_on_arrival (ae_decision_id env) (aq_graph req) to (cp_epoch (aq_submission req))
         (ae_gate_at env) (exit_claimant (load_facts (ae_executors env) ?s) ?s (aq_submission req)) (close_of env req) s1 = Inr s'"
    by auto
  have w: "tw_from_node_id ?w = Some (cp_from_node_id (aq_submission req))" "tw_to_node_id ?w = to"
      "tw_epoch ?w = cp_epoch (aq_submission req)"
    using n by (simp_all add: transition_of_plan_def Let_def)
  note rec = transition_recorded_tables [OF r]
  have "exits s1 = (exits ?s)(visit_of req \<mapsto> ExitTo to)"
    using rec none w by (subst exits_add_transition) auto
  moreover have "exits s' = exits s1" using gate_tables [OF g] exits_cong by blast
  ultimately show ?thesis using none g decisions_transition [OF r] by auto
qed

lemma migration_locked_effect:
  assumes m: "migration_locked env req n l arts snap = Inr (Recorded (Some (ae_migration_id env)), s')"
    and n: "node_id n = cp_from_node_id (aq_submission req)"
  shows "exits (sn_rows snap) (visit_of req) = None
     \<and> exits s' = (exits (sn_rows snap))(visit_of req \<mapsto> ExitOnto (graph_id (ld_graph l)) (Some (ld_node_id l)))
     \<and> (\<exists>s1. ck_decisions s1 = ck_decisions (sn_rows snap)
           \<and> open_graph_gate_on_arrival (ae_decision_id env) (ld_graph l) (ld_node_id l) (cp_epoch (aq_submission req))
               (ae_gate_at env) None (close_of env req) s1 = Inr s')"
proof -
  let ?s = "sn_rows snap"
  let ?w = "migration_of_landing env req n l arts (load_facts (ae_executors env) ?s) ?s"
  from migration_locked_cases [OF m n] obtain s1 where none: "exits ?s (visit_of req) = None"
    and r: "record_migration ?w ?s = Inr (Migrated (ae_migration_id env), s1)"
    and g: "open_graph_gate_on_arrival (ae_decision_id env) (ld_graph l) (ld_node_id l) (cp_epoch (aq_submission req))
         (ae_gate_at env) None (close_of env req) s1 = Inr s'"
    by auto
  have w: "mw_from_node_id ?w = Some (cp_from_node_id (aq_submission req))" "mw_to_graph_id ?w = graph_id (ld_graph l)"
      "mw_landed_node_id ?w = Some (ld_node_id l)" "mw_epoch ?w = cp_epoch (aq_submission req)"
    using n by (simp_all add: migration_of_landing_def Let_def)
  note rec = migration_recorded_tables [OF r]
  have "exits s1 = (exits ?s)(visit_of req \<mapsto> ExitOnto (graph_id (ld_graph l)) (Some (ld_node_id l)))"
    using rec none w by (subst exits_add_migration) auto
  moreover have "exits s' = exits s1" using gate_tables [OF g] exits_cong by blast
  ultimately show ?thesis using none g decisions_migration [OF r] by auto
qed

lemma moved_to_exits:
  assumes "moved_to env req snap ans s'"
  shows "\<exists>to e n rows. exits (sn_rows snap) (visit_of req) = None \<and> exits s' = (exits (sn_rows snap))(visit_of req \<mapsto> ExitTo to)
     \<and> Destination_of (aq_graph req) e = Some to
     \<and> ans = Inr (respond req n to (Some e) (Some (ae_transition_id env)) rows)"
  using assms transition_locked_effect unfolding moved_to_def by blast

lemma moved_onto_exits:
  assumes "moved_onto env req snap ans s'"
  shows "\<exists>l n. exits (sn_rows snap) (visit_of req) = None
     \<and> exits s' = (exits (sn_rows snap))(visit_of req \<mapsto> ExitOnto (graph_id (ld_graph l)) (Some (ld_node_id l)))
     \<and> ans = answer_landing n l (Some (ae_migration_id env))"
  using assms migration_locked_effect unfolding moved_onto_def by blast

lemma dest_not_missing: "Destination_of g e = Some to \<Longrightarrow> NextStep_of g to \<noteq> StepMissing"
proof -
  assume d: "Destination_of g e = Some to"
  show ?thesis
  proof (cases "to = RESERVED_TERMINAL")
    case False
    with d obtain n where n: "node_by_name g (edge_to_node_name e) = Some n" "to = node_id n"
      by (auto simp: Destination_of_def split: if_splits)
    then have "n \<in> set (graph_nodes g)" using find_SomeD unfolding node_by_name_def by fast
    then have "node_by_id g to \<noteq> None" using n(2) by (auto simp: node_by_id_def find_eq_None)
    then show ?thesis by (auto simp: NextStep_of_def split: if_splits)
  qed (simp add: NextStep_of_def)
qed

lemma answer_landing_fresh:
  "\<exists>r w. answer_landing n l (Some i) = Inr (r, w) \<and> fresh_id r \<and> ap_outcome r \<noteq> OutcomeFailure"
  by (auto simp: answer_landing_def releases_route_def apply_answer_def fresh_id_def split: option.splits)

text \<open>The abstract register: an entry is written when it is empty, and never again.\<close>

definition put_once :: "'k \<Rightarrow> 'v option \<Rightarrow> ('k \<Rightarrow> 'v option) \<Rightarrow> 'k \<Rightarrow> 'v option" where
  "put_once k v X = (case v of None \<Rightarrow> X | Some m \<Rightarrow> if X k = None then X(k \<mapsto> m) else X)"

text \<open>C10: Applying a completion refines one write into a register that is written at most once per
  visit: whatever the call read before taking the lock, it either leaves the visit's exit as it
  was or records one where there was none, and it writes nothing when it answers a failure or
  raises.\<close>

theorem apply_refines_put_once:
  assumes "apply_completion env req reads snap = (ans, s')"
  shows "(\<exists>v. exits s' = put_once (visit_of req) v (exits (sn_rows snap))
        \<and> (v \<noteq> None \<longleftrightarrow> (\<exists>r w. ans = Inr (r, w) \<and> fresh_id r))
        \<and> (v \<noteq> None \<longrightarrow> exits (sn_rows snap) (visit_of req) = None))
     \<and> (exits (sn_rows snap) (visit_of req) \<noteq> None \<longrightarrow> s' = sn_rows snap)
     \<and> ((\<exists>err. ans = Inl err) \<or> (\<exists>r w. ans = Inr (r, w) \<and> ap_outcome r = OutcomeFailure) \<longrightarrow> s' = sn_rows snap)"
  using apply_cases [OF assms]
proof (elim disjE)
  assume k: "kept snap ans s'"
  then show ?thesis unfolding kept_def by (intro conjI exI [of _ None]) (auto simp: put_once_def)
next
  assume e: "escalated env req snap ans s'"
  have "movement_rows s' = movement_rows (sn_rows snap)" using e unfolding escalated_def by blast
  then have x: "exits s' = exits (sn_rows snap)" by (rule exits_cong)
  obtain r where r: "ans = Inr (r, False)" "ap_outcome r = OutcomeParkedAtGate" "\<not> fresh_id r"
    using e unfolding escalated_def by blast
  have none: "exits (sn_rows snap) (visit_of req) = None" using e unfolding escalated_def by blast
  show ?thesis by (intro conjI exI [of _ None]) (simp_all add: put_once_def x r none)
next
  assume "moved_to env req snap ans s'"
  from moved_to_exits [OF this] obtain to e n rows where
      none: "exits (sn_rows snap) (visit_of req) = None" and x: "exits s' = (exits (sn_rows snap))(visit_of req \<mapsto> ExitTo to)"
    and d: "Destination_of (aq_graph req) e = Some to"
    and ans: "ans = Inr (respond req n to (Some e) (Some (ae_transition_id env)) rows)" by blast
  let ?r = "respond req n to (Some e) (Some (ae_transition_id env)) rows"
  have f: "fresh_id (fst ?r)" using dest_not_missing [OF d] by (simp add: fresh_respond)
  have "ap_outcome (fst ?r) \<noteq> OutcomeFailure"
    using dest_not_missing [OF d] by (auto simp: respond_def Let_def apply_answer_def split: next_step.split)
  then show ?thesis using f ans none x
    by (intro conjI exI [of _ "Some (ExitTo to)"]) (auto simp: put_once_def, metis fst_conv prod.collapse)
next
  assume "moved_onto env req snap ans s'"
  from moved_onto_exits [OF this] obtain l n where
      none: "exits (sn_rows snap) (visit_of req) = None"
    and x: "exits s' = (exits (sn_rows snap))(visit_of req \<mapsto> ExitOnto (graph_id (ld_graph l)) (Some (ld_node_id l)))"
    and ans: "ans = answer_landing n l (Some (ae_migration_id env))" by blast
  from answer_landing_fresh [of n l "ae_migration_id env"] obtain r w where
      r: "ans = Inr (r, w)" "fresh_id r" "ap_outcome r \<noteq> OutcomeFailure" using ans by auto
  then show ?thesis using none x
    by (intro conjI exI [of _ "Some (ExitOnto (graph_id (ld_graph l)) (Some (ld_node_id l)))"]) (auto simp: put_once_def)
qed

section \<open>A visit exits once\<close>

text \<open>A register whose entries are written once: a put on a taken entry does nothing, and no step empties
  one.\<close>

locale once_register =
  fixes entry :: "'s \<Rightarrow> 'k \<Rightarrow> 'v option"
    and put :: "'w \<Rightarrow> 's \<Rightarrow> 's"
    and key :: "'w \<Rightarrow> 'k"
    and step :: "'s \<Rightarrow> 's \<Rightarrow> bool"
  assumes taken: "entry s (key w) \<noteq> None \<Longrightarrow> put w s = s"
    and stays: "step s s' \<Longrightarrow> entry s k \<noteq> None \<Longrightarrow> entry s' k \<noteq> None"
begin

lemma steps_stay: "step\<^sup>*\<^sup>* s s' \<Longrightarrow> entry s k \<noteq> None \<Longrightarrow> entry s' k \<noteq> None"
  by (induction rule: rtranclp_induct) (auto dest: stays)

lemma put_again:
  assumes "entry s (key w) \<noteq> None" and "step\<^sup>*\<^sup>* s s'" and "key w' = key w"
  shows "put w' s' = s'"
  using steps_stay [OF assms(2,1)] assms(3) by (intro taken) simp

end

text \<open>Writing one's own exit: the call's arguments but for the locked rows.\<close>

type_synonym apply_call = "apply_env \<times> apply_request \<times> (apply_read \<Rightarrow> snapshot) \<times> bool"

definition apply_rows :: "apply_call \<Rightarrow> chunk_rows \<Rightarrow> chunk_rows" where
  "apply_rows c s = (case c of (env, req, reads, found) \<Rightarrow> snd (apply_completion env req reads \<lparr>sn_found = found, sn_rows = s\<rparr>))"

lemma step_keeps_exits:
  assumes "store_step s s'"
  shows "transition_exists s n e \<Longrightarrow> transition_exists s' n e" and "migration_exists s m e \<Longrightarrow> migration_exists s' m e"
proof -
  have "set (ck_transitions s) \<subseteq> set (ck_transitions s')" "set (ck_migrations s) \<subseteq> set (ck_migrations s')"
    using grows_sets [OF store_step_grows [OF assms]] by blast+
  then show "transition_exists s n e \<Longrightarrow> transition_exists s' n e" "migration_exists s m e \<Longrightarrow> migration_exists s' m e"
    unfolding transition_exists_def migration_exists_def by blast+
qed

lemma exits_steps: "store_step s s' \<Longrightarrow> exits s k \<noteq> None \<Longrightarrow> exits s' k \<noteq> None"
  using step_keeps_exits by (cases k) (auto simp: exits_None)

interpretation visit_exits: once_register exits apply_rows "\<lambda>(env, req, reads, found). visit_of req" store_step
proof unfold_locales
  fix s and c :: apply_call
  assume taken: "exits s (case c of (env, req, reads, found) \<Rightarrow> visit_of req) \<noteq> None"
  obtain env req reads found where c: "c = (env, req, reads, found)" by (cases c)
  let ?snap = "\<lparr>sn_found = found, sn_rows = s\<rparr>"
  obtain ans s' where a: "apply_completion env req reads ?snap = (ans, s')" by fastforce
  from apply_cases [OF a] taken c have "kept ?snap ans s'"
    using moved_to_exits [of env req ?snap ans s'] moved_onto_exits [of env req ?snap ans s']
    by (auto simp: escalated_def)
  then show "apply_rows c s = s" by (simp add: apply_rows_def c a kept_def)
next
  fix s s' k
  show "store_step s s' \<Longrightarrow> exits s k \<noteq> None \<Longrightarrow> exits s' k \<noteq> None" by (rule exits_steps)
qed

text \<open>The store's own registers, behind the probe each write makes.\<close>

interpretation hub_exits: once_register
  "\<lambda>s (n, e). if transition_exists s n e then Some () else None"
  "\<lambda>w s. committed s (record_hub_step_transition w s)" "\<lambda>w. (hw_from_node_id w, hw_epoch w)" store_step
  by unfold_locales (auto simp: record_hub_step_transition_def committed_def split: if_splits intro: step_keeps_exits)

interpretation migration_exits: once_register
  "\<lambda>s (n, e). if migration_exists s n e then Some () else None"
  "\<lambda>w s. committed s (record_migration w s)" "\<lambda>w. (mw_from_node_id w, mw_epoch w)" store_step
  by unfold_locales (auto simp: record_migration_def committed_def split: if_splits intro: step_keeps_exits)

lemma fresh_exit:
  assumes "apply_completion env req reads snap = (Inr (r, w), s')" and "fresh_id r"
  shows "exits s' (visit_of req) \<noteq> None \<and> exits (sn_rows snap) (visit_of req) = None"
  using apply_cases [OF assms(1)] assms(2) moved_to_exits [of env req snap "Inr (r, w)" s']
    moved_onto_exits [of env req snap "Inr (r, w)" s']
  by (auto simp: kept_def escalated_def)

lemma taken_keeps:
  assumes "apply_completion env req reads snap = (ans, s')" and "exits (sn_rows snap) (visit_of req) \<noteq> None"
  shows "kept snap ans s'"
  using apply_cases [OF assms(1)] assms(2) moved_to_exits [of env req snap ans s'] moved_onto_exits [of env req snap ans s']
  by (auto simp: escalated_def)

text \<open>C11: However many completions of one visit are submitted, in whatever order and with whatever stale
  reads, at most one transition or migration leaves that visit, and once recorded it never
  changes.\<close>

theorem visit_exits_once:
  assumes first: "apply_completion env req reads snap = (Inr (r, w), s1)" and fresh: "fresh_id r"
    and steps: "store_step\<^sup>*\<^sup>* s1 (sn_rows snap')" and same: "visit_of req' = visit_of req"
    and again: "apply_completion env' req' reads' snap' = (ans, s3)"
  shows "s3 = sn_rows snap' \<and> (\<forall>r' w'. ans = Inr (r', w') \<longrightarrow> \<not> fresh_id r')"
proof -
  have "exits s1 (visit_of req) \<noteq> None" using fresh_exit [OF first fresh] by blast
  then have "exits (sn_rows snap') (visit_of req') \<noteq> None"
    using visit_exits.steps_stay [OF steps] unfolding same by blast
  from taken_keeps [OF again this] show ?thesis unfolding kept_def by blast
qed

section \<open>The attempt a movement needs\<close>

lemma transition_locked_coherent:
  "transition_locked env req n to arts snap = Inr (Recorded (), s') \<Longrightarrow>
   refuse_incoherent_attempt (load_facts (ae_executors env) (sn_rows snap)) (aq_graph req) n
     (cp_epoch (aq_submission req)) False = None"
  by (auto simp: transition_locked_def Let_def map_sum_Inr split: if_splits option.splits sum.splits)

lemma migration_locked_coherent:
  "migration_locked env req n l arts snap = Inr (Recorded i, s') \<Longrightarrow>
   refuse_incoherent_attempt (load_facts (ae_executors env) (sn_rows snap)) (aq_graph req) n
     (cp_epoch (aq_submission req)) False = None"
  by (auto simp: migration_locked_def Let_def map_sum_Inr
      split: if_splits option.splits sum.splits migration_outcome.splits)

lemma coherent_attempt:
  assumes "refuse_incoherent_attempt facts g n epoch False = None"
  shows "open_escalation_at facts epoch = None \<and> open_questions_at facts epoch = []
     \<and> (epoch = epoch_floor facts \<longrightarrow> (case current_node facts g of None \<Rightarrow> True | Some c \<Rightarrow> node_id c = node_id n))"
  using assms by (auto simp: refuse_incoherent_attempt_def Let_def split: option.splits if_splits list.splits)

lemma fence_None:
  assumes "fence s epoch AdmitCurrent cl = None"
  shows "\<not> is_terminal s \<and> (latest_epoch s \<noteq> 0 \<longrightarrow> epoch = latest_epoch s)
     \<and> (\<forall>c. cl = Some c \<longrightarrow> epoch_owner_of s epoch = Some (Some (cl_runner_id c)))"
  using assms by (auto simp: fence_def Let_def claimant_owns_runner split: if_splits)

lemma loaded_restarts: "cf_restarts (load_facts ex s) = map (restart_of_row ex) (ck_restarts s)"
  by (simp add: load_facts_def)

lemma exit_claimant_cases:
  "exit_claimant (load_facts ex s) s sub = Some \<lparr>cl_runner_id = cp_runner_id sub, cl_lease_id = cp_lease_id sub\<rparr>
   \<or> (exit_claimant (load_facts ex s) s sub = None \<and> cp_decision_id sub \<noteq> None
      \<and> (\<exists>r\<in>set (ck_restarts s). sr_epoch r = cp_epoch sub \<and> sr_to_node_id r = cp_from_node_id sub)
      \<and> (\<exists>r. route_of s = Some r \<and> route_runner_id r = cp_runner_id sub))"
  by (auto simp: exit_claimant_def loaded_restarts restart_of_row_def split: option.splits)

text \<open>C12: A completion that moves the chunk does so only for the attempt that may: under the lock the
  chunk is not ended, the epoch is the latest one (if the chunk has any) and belongs to the
  submitting runner (or to a restart onto that node, when the routed runner resolves its gate),
  and nothing escalated or asked at it is open. If the epoch is also the newest that leases and
  restarts show and the chunk's current node is found in the submitted graph, that node is the
  one the completion leaves.\<close>

theorem movement_needs_the_attempt:
  assumes call: "apply_completion env req reads snap = (Inr (r, w), s')" and fresh: "fresh_id r"
  shows "\<not> is_terminal (sn_rows snap)
     \<and> (latest_epoch (sn_rows snap) \<noteq> 0 \<longrightarrow> cp_epoch (aq_submission req) = latest_epoch (sn_rows snap))
     \<and> (epoch_owner_of (sn_rows snap) (cp_epoch (aq_submission req)) = Some (Some (cp_runner_id (aq_submission req)))
        \<or> cp_decision_id (aq_submission req) \<noteq> None
          \<and> (\<exists>x\<in>set (ck_restarts (sn_rows snap)). sr_epoch x = cp_epoch (aq_submission req)
               \<and> sr_to_node_id x = cp_from_node_id (aq_submission req))
          \<and> (\<exists>x. route_of (sn_rows snap) = Some x \<and> route_runner_id x = cp_runner_id (aq_submission req)))
     \<and> open_escalation_at (load_facts (ae_executors env) (sn_rows snap)) (cp_epoch (aq_submission req)) = None
     \<and> open_questions_at (load_facts (ae_executors env) (sn_rows snap)) (cp_epoch (aq_submission req)) = []
     \<and> (cp_epoch (aq_submission req) = epoch_floor (load_facts (ae_executors env) (sn_rows snap)) \<longrightarrow>
          (case current_node (load_facts (ae_executors env) (sn_rows snap)) (aq_graph req) of None \<Rightarrow> True
           | Some c \<Rightarrow> node_id c = cp_from_node_id (aq_submission req)))"
proof -
  let ?s = "sn_rows snap" and ?sub = "aq_submission req"
  let ?f = "load_facts (ae_executors env) ?s"
  have "\<exists>n. node_id n = cp_from_node_id ?sub \<and> refuse_incoherent_attempt ?f (aq_graph req) n (cp_epoch ?sub) False = None
      \<and> fence ?s (cp_epoch ?sub) AdmitCurrent (exit_claimant ?f ?s ?sub) = None"
    using apply_cases [OF call]
  proof (elim disjE)
    assume "moved_to env req snap (Inr (r, w)) s'"
    then obtain n to arts where n: "node_id n = cp_from_node_id ?sub"
      and t: "transition_locked env req n to arts snap = Inr (Recorded (), s')" unfolding moved_to_def by blast
    from transition_locked_cases [OF t] obtain s1 where
      "record_transition (transition_of_plan env req n to arts ?f ?s) ?s = Inr (None, s1)" by auto
    from transition_recorded_tables [OF this] have "fence ?s (cp_epoch ?sub) AdmitCurrent (exit_claimant ?f ?s ?sub) = None"
      by (simp add: transition_of_plan_def Let_def)
    with n transition_locked_coherent [OF t] show ?thesis by blast
  next
    assume "moved_onto env req snap (Inr (r, w)) s'"
    then obtain n l arts where n: "node_id n = cp_from_node_id ?sub"
      and m: "migration_locked env req n l arts snap = Inr (Recorded (Some (ae_migration_id env)), s')"
      unfolding moved_onto_def by blast
    from migration_locked_cases [OF m n] obtain s1 where
      "record_migration (migration_of_landing env req n l arts ?f ?s) ?s = Inr (Migrated (ae_migration_id env), s1)" by auto
    from migration_recorded_tables [OF this] have "fence ?s (cp_epoch ?sub) AdmitCurrent (exit_claimant ?f ?s ?sub) = None"
      by (simp add: migration_of_landing_def Let_def)
    with n migration_locked_coherent [OF m] show ?thesis by blast
  qed (use fresh in \<open>auto simp: kept_def escalated_def\<close>)
  then obtain n where n: "node_id n = cp_from_node_id ?sub"
    and c: "refuse_incoherent_attempt ?f (aq_graph req) n (cp_epoch ?sub) False = None"
    and f: "fence ?s (cp_epoch ?sub) AdmitCurrent (exit_claimant ?f ?s ?sub) = None" by blast
  have owner: "epoch_owner_of ?s (cp_epoch ?sub) = Some (Some (cp_runner_id ?sub))
      \<or> cp_decision_id ?sub \<noteq> None
        \<and> (\<exists>x\<in>set (ck_restarts ?s). sr_epoch x = cp_epoch ?sub \<and> sr_to_node_id x = cp_from_node_id ?sub)
        \<and> (\<exists>x. route_of ?s = Some x \<and> route_runner_id x = cp_runner_id ?sub)"
    using fence_None [OF f] exit_claimant_cases [of "ae_executors env" ?s ?sub] by auto
  show ?thesis
    using fence_None [OF f] owner coherent_attempt [OF c] unfolding n by (intro conjI) blast+
qed

section \<open>The gate a movement lands on\<close>

text \<open>The decision a gate opens with: its node, the epoch, and every choice the node lists.\<close>

definition gate_decision :: "ident \<Rightarrow> node \<Rightarrow> int \<Rightarrow> instant \<Rightarrow> decision_row" where
  "gate_decision i n e at =
     \<lparr>dr_decision_id = i, dr_node_id = node_id n, dr_node_name = node_name n, dr_epoch = e,
      dr_choices = map (\<lambda>c. \<lparr>dch_name = choice_name c, dch_description = choice_description c,
        dch_requires_checks = choice_requires_checks c\<rparr>) (node_choices n),
      dr_check_results = [], dr_submitted_at = at, dr_imposed_by_runner_id = None\<rparr>"

definition opened_on :: "apply_env \<Rightarrow> apply_request \<Rightarrow> chunk_rows \<Rightarrow> graph \<Rightarrow> ident \<Rightarrow> decision_row list" where
  "opened_on env req s g nid =
     (case NextStep_of g nid of
        StepGate n \<Rightarrow> if decision_exists s (node_id n) (cp_epoch (aq_submission req)) then []
                      else [gate_decision (ae_decision_id env) n (cp_epoch (aq_submission req)) (ae_gate_at env)]
      | _ \<Rightarrow> [])"

lemma gate_decisions:
  assumes g: "open_graph_gate_on_arrival i g nid e at cl close s = Inr s'"
  shows "ck_decisions s' = ck_decisions s @
     (case NextStep_of g nid of
        StepGate n \<Rightarrow> if decision_exists s (node_id n) e then [] else [gate_decision i n e at]
      | _ \<Rightarrow> [])"
proof (cases "\<exists>n. NextStep_of g nid = StepGate n")
  case False
  with g show ?thesis by (auto simp: open_graph_gate_on_arrival_def split: next_step.splits)
next
  case True
  then obtain n where n: "NextStep_of g nid = StepGate n" by blast
  let ?w = "arrival_decision i n e at cl close"
  have w: "dw_decision ?w = gate_decision i n e at" "dr_node_id (dw_decision ?w) = node_id n"
      "dr_epoch (dw_decision ?w) = e"
    by (simp_all add: arrival_decision_def gate_decision_def decision_choices_def)
  from g n obtain d where d: "record_decision_locked ?w s = Inr (d, s')" and nr: "\<And>r. d \<noteq> DecisionRefused r"
    by (auto simp: open_graph_gate_on_arrival_def split: sum.splits decision_outcome.splits)
  show ?thesis
  proof (cases "decision_exists s (node_id n) e")
    case True
    with d w n show ?thesis by (simp add: record_decision_locked_def)
  next
    case False
    with d w nr have "record_decision ?w s = Inr (None, s')"
      by (auto simp: record_decision_locked_def map_sum_Inr split: option.splits)
    then have "ck_decisions s' = ck_decisions s @ [dw_decision ?w]"
      by (auto simp: record_decision_def Let_def map_sum_Inr dest!: decisions_enqueue split: option.splits if_splits)
    with False n w show ?thesis by simp
  qed
qed

lemma gate_refused_fence:
  assumes "open_graph_gate_on_arrival i g nid e at cl close s = Inl (GateArrivalRefused r)"
  shows "fence s e AdmitCurrent cl \<noteq> None \<and> nid \<noteq> RESERVED_TERMINAL"
proof -
  from assms obtain n s' where n: "NextStep_of g nid = StepGate n"
    and d: "record_decision_locked (arrival_decision i n e at cl close) s = Inr (DecisionRefused r, s')"
    by (auto simp: open_graph_gate_on_arrival_def split: next_step.splits sum.splits decision_outcome.splits)
  from n have "nid \<noteq> RESERVED_TERMINAL" by (auto simp: NextStep_of_def)
  moreover from d have "fence s e AdmitCurrent cl \<noteq> None"
    by (auto simp: record_decision_locked_def record_decision_def map_sum_Inr arrival_decision_def Let_def
        split: if_splits option.splits)
  ultimately show ?thesis by blast
qed

text \<open>A non-terminal movement leaves an open fence open.\<close>

lemma fence_after_movement:
  assumes old: "fence s e AdmitCurrent cl = None" and part: "fence_part s' = fence_part s"
    and ts: "\<And>t. t \<in> set (ck_transitions s') \<Longrightarrow> t \<in> set (ck_transitions s) \<or> xr_to_node_id t \<noteq> RESERVED_TERMINAL"
    and more: "set (ck_transitions s) \<subseteq> set (ck_transitions s')" "set (ck_migrations s) \<subseteq> set (ck_migrations s')"
  shows "fence s' e AdmitCurrent cl = None"
proof -
  have rest: "ck_restarts s' = ck_restarts s" "ck_stopped s' = ck_stopped s" "ck_completed s' = ck_completed s"
    using part by (simp_all add: fence_part_def)
  have "done_by_transition s" if dt: "done_by_transition s'"
  proof -
    from dt obtain t where t: "t \<in> set (ck_transitions s')" "unsuperseded_terminal s' t"
      unfolding done_by_transition_def by blast
    with ts have "t \<in> set (ck_transitions s)" by (auto simp: unsuperseded_terminal_def)
    moreover have "unsuperseded_terminal s t" using t(2) unfolding unsuperseded_terminal_def rest(1) using more by blast
    ultimately show ?thesis unfolding done_by_transition_def by blast
  qed
  then have "is_terminal s' \<Longrightarrow> is_terminal s" using rest by (auto simp: is_terminal_def)
  moreover have "\<not> is_terminal s" using fence_None [OF old] by blast
  ultimately have same: "is_terminal s' = is_terminal s" by blast
  have ep: "latest_epoch s' = latest_epoch s" "epoch_owner_of s' e = epoch_owner_of s e"
      "owning_lease_id s' e = owning_lease_id s e"
    using fence_part_epochs [OF part] by blast+
  have "fence s' e AdmitCurrent cl = fence s e AdmitCurrent cl" unfolding fence_def ep same by (rule refl)
  with old show ?thesis by simp
qed

lemma transition_gate_open:
  assumes r: "record_transition (transition_of_plan env req n to arts f s) s = Inr (None, s1)"
    and cl: "exit_claimant f s (aq_submission req) = cl"
  shows "open_graph_gate_on_arrival i g to (cp_epoch (aq_submission req)) at cl close s1 \<noteq> Inl (GateArrivalRefused x)"
proof
  assume g: "open_graph_gate_on_arrival i g to (cp_epoch (aq_submission req)) at cl close s1 = Inl (GateArrivalRefused x)"
  note rec = transition_recorded_tables [OF r]
  have "to \<noteq> RESERVED_TERMINAL" using gate_refused_fence [OF g] by blast
  have f: "fence s (cp_epoch (aq_submission req)) AdmitCurrent cl = None"
    using rec cl by (simp add: transition_of_plan_def Let_def)
  obtain x where x: "ck_transitions s1 = ck_transitions s @ [x]" "xr_to_node_id x = to"
    using conjunct1 [OF rec] by (simp add: transition_of_plan_def Let_def)
  have m: "ck_migrations s1 = ck_migrations s" and p: "fence_part s1 = fence_part s" using rec by blast+
  have "fence s1 (cp_epoch (aq_submission req)) AdmitCurrent cl = None"
    by (rule fence_after_movement [OF f p]) (use \<open>to \<noteq> RESERVED_TERMINAL\<close> in \<open>auto simp: x m\<close>)
  with gate_refused_fence [OF g] show False by blast
qed

lemma migration_gate_open:
  assumes r: "record_migration (migration_of_landing env req n l arts f s) s = Inr (Migrated j, s1)"
  shows "open_graph_gate_on_arrival i g nid (cp_epoch (aq_submission req)) at None close s1 \<noteq> Inl (GateArrivalRefused x)"
proof
  assume g: "open_graph_gate_on_arrival i g nid (cp_epoch (aq_submission req)) at None close s1 = Inl (GateArrivalRefused x)"
  note rec = migration_recorded_tables [OF r]
  have "fence s (cp_epoch (aq_submission req)) AdmitCurrent (exit_claimant f s (aq_submission req)) = None"
    using rec by (simp add: migration_of_landing_def Let_def)
  then have f: "fence s (cp_epoch (aq_submission req)) AdmitCurrent None = None"
    by (simp add: fence_def Let_def split: if_splits)
  obtain y where y: "ck_migrations s1 = ck_migrations s @ [y]" using conjunct1 [OF conjunct2 [OF rec]] by simp
  have t: "ck_transitions s1 = ck_transitions s" and p: "fence_part s1 = fence_part s" using rec by blast+
  have "fence s1 (cp_epoch (aq_submission req)) AdmitCurrent None = None"
    by (rule fence_after_movement [OF f p]) (auto simp: y t)
  with gate_refused_fence [OF g] show False by blast
qed

lemma map_sum_Inl: "map_sum id f x = Inl e \<longleftrightarrow> x = Inl e"
  by (cases x) auto

lemma transition_locked_gate: "transition_locked env req n to arts snap \<noteq> Inl (GateArrivalRefused x)"
proof
  let ?s = "sn_rows snap"
  let ?f = "load_facts (ae_executors env) ?s"
  assume "transition_locked env req n to arts snap = Inl (GateArrivalRefused x)"
  then obtain s1 where "record_transition (transition_of_plan env req n to arts ?f ?s) ?s = Inr (None, s1)"
      "open_graph_gate_on_arrival (ae_decision_id env) (aq_graph req) to (cp_epoch (aq_submission req)) (ae_gate_at env)
         (exit_claimant ?f ?s (aq_submission req)) (close_of env req) s1 = Inl (GateArrivalRefused x)"
    by (auto simp: transition_locked_def Let_def map_sum_Inl split: if_splits option.splits sum.splits)
  with transition_gate_open [OF this(1) refl] show False by blast
qed

lemma migration_locked_gate:
  assumes n: "node_id n = cp_from_node_id (aq_submission req)"
  shows "migration_locked env req n l arts snap \<noteq> Inl (GateArrivalRefused x)"
proof
  let ?s = "sn_rows snap"
  let ?f = "load_facts (ae_executors env) ?s"
  let ?w = "migration_of_landing env req n l arts ?f ?s"
  assume "migration_locked env req n l arts snap = Inl (GateArrivalRefused x)"
  then obtain outcome s1 where none: "landed_under_lock ?f (aq_submission req) = None"
      and r: "record_migration ?w ?s = Inr (outcome, s1)" and nr: "\<And>y. outcome \<noteq> MigrationRefused y"
      and g: "open_graph_gate_on_arrival (ae_decision_id env) (ld_graph l) (ld_node_id l) (cp_epoch (aq_submission req))
         (ae_gate_at env) None (close_of env req) s1 = Inl (GateArrivalRefused x)"
    by (auto simp: migration_locked_def Let_def map_sum_Inl split: if_splits option.splits sum.splits migration_outcome.splits)
  have "\<not> migration_exists ?s (Some (cp_from_node_id (aq_submission req))) (cp_epoch (aq_submission req))"
    using none landed_iff exits_None by blast
  then have nx: "\<not> migration_exists ?s (mw_from_node_id ?w) (mw_epoch ?w)"
    using n by (simp add: migration_of_landing_def Let_def)
  show False
  proof (cases outcome)
    case (Migrated j)
    with migration_gate_open r g show ?thesis by blast
  next
    case AlreadyMigrated
    with r nx show ?thesis by (auto simp: record_migration_def Let_def map_sum_Inr split: option.splits if_splits)
  next
    case (MigrationRefused y)
    with nr show ?thesis by blast
  qed
qed

lemma run_plan_gate:
  assumes n: "node_id n = cp_from_node_id (aq_submission req)"
  shows "fst (run_plan env req n plan rows snap) \<noteq> Inl (GateArrivalRefused x)"
proof -
  have fin: "fst (finish snap (answer_locked req n rows rec) result) \<noteq> Inl (GateArrivalRefused x)"
    if "result \<noteq> Inl (GateArrivalRefused x)" "\<And>v. rec v \<noteq> Inl (GateArrivalRefused x)" for result rec
    using that by (auto simp: finish_def answer_locked_def split: sum.splits locked_answer.splits prod.splits)
  have land: "fst (run_landing env req n arts rows snap l) \<noteq> Inl (GateArrivalRefused x)" for arts l
    unfolding run_landing_def
    by (rule fin [OF migration_locked_gate [OF n]]) (auto simp: answer_landing_def split: option.splits)
  have esc: "fst (finish snap (answer_locked req n rows (\<lambda>_. Inl AssertionFailed)) (Inr y)) \<noteq> Inl (GateArrivalRefused x)"
    for y :: "unit locked_answer \<times> chunk_rows"
    by (rule fin) simp_all
  have tr: "fst (finish snap (answer_locked req n rows (\<lambda>_. Inr a)) (transition_locked env req n to arts snap))
      \<noteq> Inl (GateArrivalRefused x)" for a to arts
    by (rule fin [OF transition_locked_gate]) simp
  show ?thesis
    unfolding run_plan_def Let_def
    by (auto simp: land esc tr split: option.splits sum.splits if_splits)
qed

text \<open>C13: A completion that moves the chunk onto a human gate opens that gate's decision in the same
  transaction: one row is added, under the gate's node, at the visit's epoch, with every choice
  the gate lists (unless a decision at that node and epoch stands already), and a movement onto
  anything else adds none. The gate is looked up in the submitted graph for a transition, and
  for a migration in the graph the call resolved for it. The arrival is never refused.\<close>

theorem gate_opens_with_the_landing:
  assumes call: "apply_completion env req reads snap = (ans, s')"
  shows "ans \<noteq> Inl (GateArrivalRefused x)
     \<and> (\<forall>r w. ans = Inr (r, w) \<and> fresh_id r \<longrightarrow>
          (\<exists>nid. exits s' (visit_of req) = Some (ExitTo nid)
             \<and> ck_decisions s' = ck_decisions (sn_rows snap) @ opened_on env req (sn_rows snap) (aq_graph req) nid)
          \<or> (\<exists>l. landing_for req l \<and> exits s' (visit_of req) = Some (ExitOnto (graph_id (ld_graph l)) (Some (ld_node_id l)))
             \<and> ck_decisions s' = ck_decisions (sn_rows snap)
                 @ opened_on env req (sn_rows snap) (ld_graph l) (ld_node_id l)))"
proof (intro conjI allI impI)
  let ?sub = "aq_submission req" and ?rows = "\<lambda>r. sn_rows (reads r)"
  show "ans \<noteq> Inl (GateArrivalRefused x)"
  proof
    assume ref: "ans = Inl (GateArrivalRefused x)"
    with call obtain n plan where n: "node_by_id (aq_graph req) (cp_from_node_id ?sub) = Some n"
        and p: "run_plan env req n plan (?rows ReadArtifacts) snap = (ans, s')"
      unfolding apply_completion_def Let_def by (auto split: if_splits option.splits sum.splits)
    have "node_id n = cp_from_node_id ?sub" using find_SomeD [OF n [unfolded node_by_id_def]] by simp
    from run_plan_gate [OF this, of env plan "?rows ReadArtifacts" snap x] p ref show False by simp
  qed
next
  fix r w assume a: "ans = Inr (r, w) \<and> fresh_id r"
  have "moved_to env req snap ans s' \<or> moved_onto env req snap ans s'"
    using apply_cases [OF call] a by (auto simp: kept_def escalated_def)
  have de: "decision_exists s1 m e = decision_exists (sn_rows snap) m e"
    if "ck_decisions s1 = ck_decisions (sn_rows snap)" for s1 m e
    using that by (simp add: decision_exists_def)
  from \<open>moved_to env req snap ans s' \<or> moved_onto env req snap ans s'\<close>
  show "(\<exists>nid. exits s' (visit_of req) = Some (ExitTo nid)
             \<and> ck_decisions s' = ck_decisions (sn_rows snap) @ opened_on env req (sn_rows snap) (aq_graph req) nid)
          \<or> (\<exists>l. landing_for req l \<and> exits s' (visit_of req) = Some (ExitOnto (graph_id (ld_graph l)) (Some (ld_node_id l)))
             \<and> ck_decisions s' = ck_decisions (sn_rows snap)
                 @ opened_on env req (sn_rows snap) (ld_graph l) (ld_node_id l))"
  proof
    assume "moved_to env req snap ans s'"
    then obtain n to arts where "transition_locked env req n to arts snap = Inr (Recorded (), s')"
        "node_id n = cp_from_node_id (aq_submission req)" unfolding moved_to_def by blast
    from transition_locked_effect [OF this] obtain s1 cl where x: "exits s' (visit_of req) = Some (ExitTo to)"
      and s1: "ck_decisions s1 = ck_decisions (sn_rows snap)"
      and g: "open_graph_gate_on_arrival (ae_decision_id env) (aq_graph req) to (cp_epoch (aq_submission req))
         (ae_gate_at env) cl (close_of env req) s1 = Inr s'" by auto
    from gate_decisions [OF g] x show ?thesis unfolding s1 de [OF s1] opened_on_def by blast
  next
    assume "moved_onto env req snap ans s'"
    then obtain n l arts where l: "landing_for req l"
      and m: "migration_locked env req n l arts snap = Inr (Recorded (Some (ae_migration_id env)), s')"
      and n: "node_id n = cp_from_node_id (aq_submission req)" unfolding moved_onto_def by blast
    from migration_locked_effect [OF m n] obtain s1 where
      x: "exits s' (visit_of req) = Some (ExitOnto (graph_id (ld_graph l)) (Some (ld_node_id l)))"
      and s1: "ck_decisions s1 = ck_decisions (sn_rows snap)"
      and g: "open_graph_gate_on_arrival (ae_decision_id env) (ld_graph l) (ld_node_id l) (cp_epoch (aq_submission req))
         (ae_gate_at env) None (close_of env req) s1 = Inr s'" by auto
    from gate_decisions [OF g] x l show ?thesis unfolding s1 de [OF s1] opened_on_def by blast
  qed
qed

section \<open>Witnesses\<close>

definition sample_gate_node :: "ident \<Rightarrow> judged_by \<Rightarrow> ident \<Rightarrow> node" where
  "sample_gate_node name by c = \<lparr>node_id = name, node_graph_id = ''gr_1'', node_name = name, node_executor = ExecRunner,
     node_prompt = None, node_checks = [], node_produces = [], node_session = SessResume, node_judged_by = by,
     node_retries_max = None, node_retries_exhausted = None, node_judgement_prompt = None,
     node_choices = [\<lparr>choice_id = c, choice_name = ''ok'', choice_description = ''d'', choice_requires_checks = False\<rparr>],
     node_bounce_cap = None, node_action = None, node_action_args = [], node_legacy_run = None,
     node_poll_interval_seconds = None, node_poll_timeout_seconds = None, node_session_source = None,
     node_checks_cwd = None, node_checks_timeout = None\<rparr>"

definition sample_gate_edge :: "ident \<Rightarrow> ident \<Rightarrow> string \<Rightarrow> edge" where
  "sample_gate_edge from c to = \<lparr>edge_from_node_id = from, edge_choice_id = c, edge_to_node_name = to,
     edge_prompt_addendum = None, edge_target_graph = None, edge_model = None\<rparr>"

definition sample_gate_graph :: graph where
  "sample_gate_graph = \<lparr>graph_id = ''gr_1'', graph_name = ''default'', graph_entry_node_id = ''work'',
     graph_nodes = [sample_gate_node ''work'' ByWorker ''c1'', sample_gate_node ''review'' ByHuman ''c2''],
     graph_edges = [sample_gate_edge ''work'' ''c1'' ''review'', sample_gate_edge ''review'' ''c2'' ''done''],
     graph_created_at = 0, graph_sessions = [], graph_artifacts = []\<rparr>"

definition sample_apply_env :: apply_env where
  "sample_apply_env = \<lparr>ae_executors = (\<lambda>_. None), ae_digest = (\<lambda>t. t), ae_retired = {},
     ae_closer_available = (\<lambda>_. False), ae_other_decisions = (\<lambda>_. None), ae_transition_id = ''tr_1'',
     ae_migration_id = ''mg_1'', ae_decision_id = ''dc_1'', ae_artifact_ids = [], ae_at = 20, ae_gate_at = 20\<rparr>"

definition sample_apply_request :: apply_request where
  "sample_apply_request = \<lparr>aq_chunk = \<lparr>ch_chunk_id = ''ch_1'', ch_graph_id = ''gr_1'', ch_work_refs = [], ch_minted_at = 0,
        ch_default_model = [], ch_default_effort = None, ch_default_harnesses = [], ch_intended_migration = None,
        ch_project_id = None\<rparr>,
     aq_graph = sample_gate_graph,
     aq_submission = \<lparr>cp_choice = ''ok'', cp_epoch = 1, cp_runner_id = ''rn_1'', cp_from_node_id = ''work'',
        cp_check_results = [], cp_artifacts = [], cp_decision_id = None, cp_route_token = Some ''hash'', cp_lease_id = None\<rparr>,
     aq_enforce_route_token = True, aq_enforce_produces = True,
     aq_targets = \<lparr>mt_cross_graph = None, mt_intended = None, mt_follow_latest = None\<rparr>\<rparr>"

definition sample_snapshot :: snapshot where
  "sample_snapshot = \<lparr>sn_found = True, sn_rows = claimed_rows\<rparr>"

abbreviation sample_apply :: "(service_error + (apply_result \<times> bool)) \<times> chunk_rows" where
  "sample_apply \<equiv> apply_completion sample_apply_env sample_apply_request (\<lambda>_. sample_snapshot) sample_snapshot"

lemma sample_apply_parks:
  "case sample_apply of (Inr (r, w), s') \<Rightarrow> fresh_id r \<and> ap_outcome r = OutcomeParkedAtGate | _ \<Rightarrow> False"
  by code_simp

lemma sample_apply_ends:
  obtains r w s' where "sample_apply = (Inr (r, w), s')" "fresh_id r"
  using sample_apply_parks by (auto split: prod.splits sum.splits)

lemma sample_visit: "visit_of sample_apply_request = (''work'', 1)"
  by (simp add: sample_apply_request_def)

theorem apply_refines_put_once_witness:
  "exits (snd sample_apply) (''work'', 1) \<noteq> None \<and> exits claimed_rows (''work'', 1) = None"
proof -
  obtain r w s' where a: "sample_apply = (Inr (r, w), s')" "fresh_id r" by (rule sample_apply_ends)
  from conjunct1 [OF apply_refines_put_once [OF a(1)]] obtain v where
    v: "exits s' = put_once (''work'', 1) v (exits claimed_rows)" "v \<noteq> None" "exits claimed_rows (''work'', 1) = None"
    using a(2) by (auto simp: sample_visit sample_snapshot_def)
  then show ?thesis using a(1) by (auto simp: put_once_def)
qed

theorem visit_exits_once_witness:
  "snd (apply_completion sample_apply_env sample_apply_request (\<lambda>_. sample_snapshot)
     \<lparr>sn_found = True, sn_rows = snd sample_apply\<rparr>) = snd sample_apply"
proof -
  let ?again = "apply_completion sample_apply_env sample_apply_request (\<lambda>_. sample_snapshot)
     \<lparr>sn_found = True, sn_rows = snd sample_apply\<rparr>"
  obtain r w s' where a: "sample_apply = (Inr (r, w), s')" "fresh_id r" by (rule sample_apply_ends)
  have "store_step\<^sup>*\<^sup>* s' (sn_rows \<lparr>sn_found = True, sn_rows = snd sample_apply\<rparr>)" using a by simp
  from visit_exits_once [OF a this refl, of sample_apply_env "\<lambda>_. sample_snapshot" "fst ?again" "snd ?again"]
  show ?thesis by simp
qed

theorem movement_needs_the_attempt_witness:
  "latest_epoch claimed_rows = 1 \<and> epoch_owner_of claimed_rows 1 = Some (Some ''rn_1'')"
proof -
  obtain r w s' where a: "sample_apply = (Inr (r, w), s')" "fresh_id r" by (rule sample_apply_ends)
  have none: "cp_decision_id (aq_submission sample_apply_request) = None" by (simp add: sample_apply_request_def)
  from movement_needs_the_attempt [OF a] have
    "epoch_owner_of claimed_rows (cp_epoch (aq_submission sample_apply_request))
       = Some (Some (cp_runner_id (aq_submission sample_apply_request)))"
    unfolding none sample_snapshot_def by simp
  then show ?thesis by (simp add: sample_apply_request_def claimed_epoch)
qed

theorem gate_opens_with_the_landing_witness:
  "ck_decisions (snd sample_apply)
     = [gate_decision ''dc_1'' (sample_gate_node ''review'' ByHuman ''c2'') 1 20]"
proof -
  obtain r w s' where a: "sample_apply = (Inr (r, w), s')" "fresh_id r" by (rule sample_apply_ends)
  have x: "exits (snd sample_apply) (''work'', 1) = Some (ExitTo ''review'')" by code_simp
  have g: "NextStep_of (aq_graph sample_apply_request) ''review'' = StepGate (sample_gate_node ''review'' ByHuman ''c2'')"
    by (simp add: NextStep_of_def node_by_id_def sample_apply_request_def sample_gate_graph_def sample_gate_node_def
        RESERVED_TERMINAL_def)
  have none: "ck_decisions claimed_rows = []" by code_simp
  from gate_opens_with_the_landing [OF a(1)] a(2) x a(1)
  have "ck_decisions s' = ck_decisions claimed_rows
      @ opened_on sample_apply_env sample_apply_request claimed_rows (aq_graph sample_apply_request) ''review''"
    by (auto simp: sample_visit sample_snapshot_def)
  then show ?thesis using a(1)
    by (simp add: none opened_on_def g decision_exists_def) (simp add: sample_apply_request_def sample_apply_env_def)
qed

end
