(* ===== verification/Claims.thy ===== *)
theory Claims
  imports Apply Dependencies
begin

text \<open>
  How a runner takes work and how a chunk is given back: the runner's bars and capabilities
  (\<open>hub/domain/runners/registration.py\<close>), the eligibility walk (\<open>hub/domain/execution/eligibility.py\<close>), the claim
  and the rekey (\<open>claim.py\<close>), release and detach (\<open>release.py\<close>, \<open>detach.py\<close>). Each decides from what it reads
  under the chunk's lock and writes in the same transaction; a refusal is \<open>Inl\<close> and writes nothing. The
  envelope a won claim returns is not part of its answer here.
\<close>

section \<open>Python's \<open>fnmatchcase\<close>\<close>

datatype glob_token = AnyRun | AnyChar | OneOf bool "(char \<times> char) list" | Exactly char

text \<open>The inside of a bracket as ranges: a dash between two characters spans them, an empty span admits none.\<close>

fun glob_ranges :: "string \<Rightarrow> (char \<times> char) list" where
  "glob_ranges [] = []"
| "glob_ranges [a] = [(a, a)]"
| "glob_ranges [a, b] = [(a, a), (b, b)]"
| "glob_ranges (a # b # c # cs) =
     (if b = CHR ''-'' then (a, c) # glob_ranges cs else (a, a) # glob_ranges (b # c # cs))"

text \<open>What stands after an opening bracket, split at the bracket that closes it; a first \<open>]\<close> is a member.\<close>

definition glob_bracket :: "string \<Rightarrow> (glob_token \<times> string) option" where
  "glob_bracket p =
     (let negated = (p \<noteq> [] \<and> hd p = CHR ''!''); q = (if negated then tl p else p);
          first = take 1 q; later = drop 1 q;
          inside = takeWhile (\<lambda>c. c \<noteq> CHR '']'') later; rest = dropWhile (\<lambda>c. c \<noteq> CHR '']'') later
      in if q = [] \<or> rest = [] then None
         else Some (OneOf negated (glob_ranges (first @ inside)), tl rest))"

lemma glob_bracket_shorter: "glob_bracket p = Some (t, rest) \<Longrightarrow> length rest < length p"
proof -
  assume a: "glob_bracket p = Some (t, rest)"
  let ?q = "if p \<noteq> [] \<and> hd p = CHR ''!'' then tl p else p"
  have "?q \<noteq> []" and "rest = tl (dropWhile (\<lambda>c. c \<noteq> CHR '']'') (drop 1 ?q))"
    using a by (auto simp: glob_bracket_def Let_def split: if_splits)
  moreover have "length (dropWhile (\<lambda>c. c \<noteq> CHR '']'') (drop 1 ?q)) \<le> length (drop 1 ?q)" by (rule length_dropWhile_le)
  moreover have "length ?q \<le> length p" by simp
  ultimately show "length rest < length p" by (cases ?q) auto
qed

function glob_tokens :: "string \<Rightarrow> glob_token list" where
  "glob_tokens [] = []"
| "glob_tokens (c # cs) =
     (if c = CHR ''*'' then AnyRun # glob_tokens cs
      else if c = CHR ''?'' then AnyChar # glob_tokens cs
      else if c = CHR ''['' then
        (case glob_bracket cs of None \<Rightarrow> Exactly c # glob_tokens cs | Some (t, rest) \<Rightarrow> t # glob_tokens rest)
      else Exactly c # glob_tokens cs)"
  by pat_completeness auto
termination by (relation "measure length") (auto dest: glob_bracket_shorter)

fun glob_admits :: "glob_token \<Rightarrow> char \<Rightarrow> bool" where
  "glob_admits AnyRun c = True"
| "glob_admits AnyChar c = True"
| "glob_admits (OneOf negated ranges) c =
     (negated \<noteq> list_ex (\<lambda>(a, b). (of_char a :: nat) \<le> of_char c \<and> (of_char c :: nat) \<le> of_char b) ranges)"
| "glob_admits (Exactly a) c = (a = c)"

fun glob_match :: "glob_token list \<Rightarrow> string \<Rightarrow> bool" where
  "glob_match [] s = (s = [])"
| "glob_match (AnyRun # ts) [] = glob_match ts []"
| "glob_match (AnyRun # ts) (c # cs) = (glob_match ts (c # cs) \<or> glob_match (AnyRun # ts) cs)"
| "glob_match (t # ts) [] = False"
| "glob_match (t # ts) (c # cs) = (glob_admits t c \<and> glob_match ts cs)"

definition fnmatchcase :: "string \<Rightarrow> string \<Rightarrow> bool" where
  "fnmatchcase name pattern = glob_match (glob_tokens pattern) name"

section \<open>Capabilities and registrations\<close>

definition TIER_PREFIX :: string where
  "TIER_PREFIX = ''blizzard:''"

definition model_supported :: "string \<Rightarrow> string list \<Rightarrow> bool" where
  "model_supported entry supported \<longleftrightarrow>
     (if starts_with TIER_PREFIX entry then False else \<exists>pattern\<in>set supported. fnmatchcase entry pattern)"

record runner_capability =
  rk_harness_id :: string
  rk_version :: "string option"
  rk_tiers :: "string list"
  rk_supported_models :: "string list"
  rk_default :: bool
  rk_available :: bool

record served_entry =
  se_entry :: string
  se_project_id :: "ident option"

datatype version_refusal_reason = TooOld | TooNew | UnversionedRunner

datatype runner_state = Unenrolled | Enrolled | RunnerRetiredState

datatype runner_verb = VEnroll | VRevokeToken | VBrake | VRetire | VReinstate | VContact

definition ACTIVE_VERBS :: "runner_verb set" where
  "ACTIVE_VERBS = {VBrake, VRetire, VEnroll, VContact}"

fun RUNNER_VERBS :: "runner_state \<Rightarrow> runner_verb set" where
  "RUNNER_VERBS Unenrolled = ACTIVE_VERBS"
| "RUNNER_VERBS Enrolled = insert VRevokeToken ACTIVE_VERBS"
| "RUNNER_VERBS RunnerRetiredState = {VBrake, VRetire, VReinstate, VRevokeToken}"

text \<open>The fields of a registration that a claim reads.\<close>

record runner_registration =
  rg_runner_id :: ident
  rg_hub_paused :: bool
  rg_registered_at :: "instant option"
  rg_token_hash :: "string option"
  rg_capabilities :: "runner_capability list"
  rg_retired :: bool
  rg_lifecycle_version :: int
  rg_served :: "served_entry list"
  rg_reported_version :: "string option"
  rg_version_refusal :: "version_refusal_reason option"

definition serves :: "runner_registration \<Rightarrow> ident \<Rightarrow> bool" where
  "serves r project_id \<longleftrightarrow> (\<exists>e\<in>set (rg_served r). se_project_id e = Some project_id)"

definition never_connected :: "runner_registration \<Rightarrow> bool" where
  "never_connected r \<longleftrightarrow> rg_registered_at r = None"

definition runner_state_of :: "runner_registration \<Rightarrow> runner_state" where
  "runner_state_of r =
     (if rg_retired r then RunnerRetiredState else if rg_token_hash r = None then Unenrolled else Enrolled)"

definition permits :: "runner_registration \<Rightarrow> runner_verb \<Rightarrow> bool" where
  "permits r verb \<longleftrightarrow> verb \<in> RUNNER_VERBS (runner_state_of r)"

datatype claim_bar = BarUnregistered | BarRetired | BarVersionRefused | BarPaused

definition claim_bar_of :: "runner_registration \<Rightarrow> claim_bar option" where
  "claim_bar_of r =
     (if never_connected r then Some BarUnregistered
      else if \<not> permits r VContact then Some BarRetired
      else if rg_version_refusal r \<noteq> None then Some BarVersionRefused
      else if rg_hub_paused r then Some BarPaused
      else None)"

section \<open>Eligibility\<close>

record effective_session =
  es_name :: "ident option"
  es_model :: "string list"
  es_effort :: "string option"
  es_rotate :: "rotate_policy option"
  es_compaction_window :: "string option"
  es_harnesses :: "string list"

definition EffectiveSession_of :: "chunk \<Rightarrow> graph \<Rightarrow> node \<Rightarrow> effective_session" where
  "EffectiveSession_of c g n =
     (case (case node_session_source n of None \<Rightarrow> None | Some src \<Rightarrow> if src = [] then None else session_by_name g src) of
        None \<Rightarrow> \<lparr>es_name = None, es_model = ch_default_model c, es_effort = ch_default_effort c, es_rotate = None,
                  es_compaction_window = None, es_harnesses = ch_default_harnesses c\<rparr>
      | Some d \<Rightarrow> \<lparr>es_name = Some (sd_name d),
                  es_model = (if sd_model d \<noteq> [] then sd_model d else ch_default_model c),
                  es_effort = (if sd_effort d \<noteq> None then sd_effort d else ch_default_effort c),
                  es_rotate = sd_rotate d, es_compaction_window = sd_compaction_window d,
                  es_harnesses = (if sd_harnesses d \<noteq> [] then sd_harnesses d else ch_default_harnesses c)\<rparr>)"

definition local_targets :: "graph \<Rightarrow> node \<Rightarrow> node list" where
  "local_targets g n = List.map_filter (\<lambda>e.
     if edge_target_graph e \<noteq> None \<or> edge_escalates e \<or> edge_to_node_name e = RESERVED_TERMINAL then None
     else node_by_name g (edge_to_node_name e)) (edges_from g (node_id n))"

lemma local_targets_in: "m \<in> set (local_targets g n) \<Longrightarrow> m \<in> set (graph_nodes g)"
  by (auto simp: local_targets_def map_filter_def node_by_name_def split: if_splits dest: find_SomeD)

text \<open>The nodes the stack walk visits, in order; the stack's top is the head of the list.\<close>

function visited_nodes :: "graph \<Rightarrow> node list \<Rightarrow> ident set \<Rightarrow> node list" where
  "visited_nodes g [] met = []"
| "visited_nodes g (n # stack) met =
     (if node_id n \<in> met then visited_nodes g stack met
      else n # visited_nodes g (rev (local_targets g n) @ stack) (insert (node_id n) met))"
  by pat_completeness auto
termination
proof (relation "inv_image (finite_psubset <*lex*> less_than)
     (\<lambda>(g, stack, met). (node_id ` (set (graph_nodes g) \<union> set stack) - met, length stack))", goal_cases)
  case 1
  show ?case by auto
next
  case (2 g n stack met)
  then have "node_id ` (set (graph_nodes g) \<union> set (n # stack)) - met = node_id ` (set (graph_nodes g) \<union> set stack) - met" by auto
  then show ?case by simp
next
  case (3 g n stack met)
  have "node_id ` (set (graph_nodes g) \<union> set (rev (local_targets g n) @ stack)) - insert (node_id n) met
          \<subset> node_id ` (set (graph_nodes g) \<union> set (n # stack)) - met"
    using 3 local_targets_in [of _ g n] by auto
  then show ?case by (simp add: finite_psubset_def)
qed

definition reachable_runner_nodes :: "graph \<Rightarrow> node \<Rightarrow> node list" where
  "reachable_runner_nodes g n = filter (\<lambda>m. node_executor m = ExecRunner) (visited_nodes g [n] {})"

definition lineage_satisfied :: "chunk \<Rightarrow> graph \<Rightarrow> runner_capability list \<Rightarrow> node \<Rightarrow> bool" where
  "lineage_satisfied c g capabilities n =
     (let session = EffectiveSession_of c g n; available = filter rk_available capabilities
      in if es_harnesses session = [] then \<exists>k\<in>set available. rk_default k
         else let strict = (es_model session \<noteq> []
                \<and> (length (es_harnesses session) > 1 \<or> (\<exists>tier\<in>set (es_model session). starts_with TIER_PREFIX tier)))
              in \<exists>h\<in>set (es_harnesses session).
                   case List.find (\<lambda>k. rk_harness_id k = h) available of
                     None \<Rightarrow> False
                   | Some k \<Rightarrow> \<not> strict \<or> (\<exists>entry\<in>set (es_model session).
                       entry \<in> set (rk_tiers k) \<or> model_supported entry (rk_supported_models k)))"

definition capability_eligible :: "chunk \<Rightarrow> graph \<Rightarrow> node \<Rightarrow> runner_capability list \<Rightarrow> bool" where
  "capability_eligible c g n capabilities \<longleftrightarrow>
     capabilities \<noteq> [] \<and> (\<forall>m\<in>set (reachable_runner_nodes g n). lineage_satisfied c g capabilities m)"

section \<open>Refusals of a claim\<close>

datatype claim_refusal =
    ClaimUnregistered ident
  | ClaimRunnerRetired ident
  | ClaimVersionRefused ident version_refusal_reason "string option"
  | ClaimRunnerPaused ident
  | ClaimTerminal ident chunk_status
  | ClaimConflict ident
  | ClaimNotReady ident chunk_status
  | ClaimDependency ident ident
  | ClaimProjectMissing ident
  | ClaimUnserved ident ident ident
  | ClaimIncapable ident ident

definition refuse_version_refused :: "runner_registration \<Rightarrow> claim_refusal option" where
  "refuse_version_refused r = map_option (\<lambda>reason. ClaimVersionRefused (rg_runner_id r) reason (rg_reported_version r))
     (rg_version_refusal r)"

definition refuse_runner_retired :: "runner_registration \<Rightarrow> claim_refusal option" where
  "refuse_runner_retired r = (if \<not> permits r VContact then Some (ClaimRunnerRetired (rg_runner_id r)) else None)"

definition refuse_paused_runner :: "runner_registration option \<Rightarrow> ident \<Rightarrow> claim_refusal option" where
  "refuse_paused_runner registration runner_id =
     (case registration of None \<Rightarrow> Some (ClaimUnregistered runner_id)
      | Some r \<Rightarrow> (case claim_bar_of r of
          Some BarUnregistered \<Rightarrow> Some (ClaimUnregistered runner_id)
        | Some BarRetired \<Rightarrow> refuse_runner_retired r
        | Some BarVersionRefused \<Rightarrow> refuse_version_refused r
        | Some BarPaused \<Rightarrow> Some (ClaimRunnerPaused runner_id)
        | None \<Rightarrow> None))"

fun first_unmet_prerequisite ::
  "ident \<Rightarrow> dependency_edge list \<Rightarrow> (ident \<Rightarrow> chunk_facts option) \<Rightarrow> ident option" where
  "first_unmet_prerequisite cid [] facts_of = None"
| "first_unmet_prerequisite cid (e # es) facts_of =
     (if de_dependent e \<noteq> cid then first_unmet_prerequisite cid es facts_of
      else if \<not> met_by (map_option status (facts_of (de_prerequisite e))) then Some (de_prerequisite e)
      else first_unmet_prerequisite cid es facts_of)"

text \<open>\<open>ClaimAdmission.node\<close>: the refusals in the code's order, else the node the claim lands the chunk at.\<close>

definition claim_admission ::
  "chunk \<Rightarrow> graph \<Rightarrow> chunk_facts option \<Rightarrow> ident \<Rightarrow> route option \<Rightarrow> ident option \<Rightarrow> runner_registration option
     \<Rightarrow> claim_refusal + node" where
  "claim_admission c g facts runner_id existing_route unmet registration =
     (case registration of None \<Rightarrow> Inl (ClaimUnregistered runner_id)
      | Some r \<Rightarrow>
        if never_connected r then Inl (ClaimUnregistered runner_id)
        else case refuse_runner_retired r of Some refusal \<Rightarrow> Inl refusal
        | None \<Rightarrow> (case refuse_version_refused r of Some refusal \<Rightarrow> Inl refusal
        | None \<Rightarrow>
          let f = or_default facts; st = (if facts \<noteq> None then status f else NotReady) in
          if \<not> holds_claim st then Inl (ClaimTerminal (ch_chunk_id c) st)
          else case existing_route of Some held \<Rightarrow> Inl (ClaimConflict (route_runner_id held))
          | None \<Rightarrow>
            if \<not> verb_legal_from VClaim st then Inl (ClaimNotReady (ch_chunk_id c) st)
            else case unmet of Some prerequisite \<Rightarrow> Inl (ClaimDependency (ch_chunk_id c) prerequisite)
            | None \<Rightarrow> (case ch_project_id c of None \<Rightarrow> Inl (ClaimProjectMissing (ch_chunk_id c))
              | Some project \<Rightarrow>
                if \<not> serves r project then Inl (ClaimUnserved (ch_chunk_id c) (rg_runner_id r) project)
                else case current_node f g of None \<Rightarrow> Inl (ClaimConflict runner_id)
                | Some n \<Rightarrow> if \<not> capability_eligible c g n (rg_capabilities r) then Inl (ClaimIncapable (ch_chunk_id c) runner_id)
                            else Inr n)))"

section \<open>The claim\<close>

text \<open>What a claim reads beside its chunk's rows: \<open>cr_registration\<close> twice, before the lock and under it, the
  record, the graph pinned by then, the edges and the facts of the chunks they name. \<open>cr_found\<close> is whether
  the chunk's facts are there.\<close>

record claim_reads =
  cr_executors :: executors
  cr_peeked :: "runner_registration option"
  cr_registration :: "runner_registration option"
  cr_record :: "chunk option"
  cr_graph :: "ident \<Rightarrow> graph option"
  cr_edges :: "dependency_edge list"
  cr_facts_of :: "ident \<Rightarrow> chunk_facts option"
  cr_found :: bool

record claim_request =
  cq_runner_id :: ident
  cq_workspace_id :: ident
  cq_environment_ids :: "ident list"
  cq_token_hash :: string
  cq_route_id :: ident
  cq_at :: instant

definition claimed_route :: "claim_request \<Rightarrow> route" where
  "claimed_route q = \<lparr>route_runner_id = cq_runner_id q, route_workspace_id = cq_workspace_id q,
     route_environment_ids = cq_environment_ids q, route_created_at = cq_at q, route_route_id = None\<rparr>"

definition claim_facts :: "claim_reads \<Rightarrow> chunk_rows \<Rightarrow> chunk_facts option" where
  "claim_facts r s = (if cr_found r then Some (load_facts (cr_executors r) s) else None)"

definition claim_locked :: "claim_reads \<Rightarrow> chunk \<Rightarrow> graph \<Rightarrow> claim_request \<Rightarrow> chunk_rows \<Rightarrow> claim_refusal + (node \<times> chunk_rows)" where
  "claim_locked r c g q s =
     (case cr_record r of None \<Rightarrow> Inl (ClaimConflict (cq_runner_id q))
      | Some current \<Rightarrow>
        (case (if ch_graph_id current \<noteq> ch_graph_id c then cr_graph r (ch_graph_id current) else Some g) of
           None \<Rightarrow> Inl (ClaimConflict (cq_runner_id q))
         | Some graph \<Rightarrow>
           map_sum id (\<lambda>n. (n, record_route (cq_route_id q) (claimed_route q) (cq_token_hash q) (cq_at q) s))
             (claim_admission current graph (claim_facts r s) (cq_runner_id q) (route_of s)
                (first_unmet_prerequisite (ch_chunk_id current)
                   (standing_edges_for (cr_edges r) (ch_chunk_id current)) (cr_facts_of r))
                (cr_registration r))))"

definition claim :: "claim_reads \<Rightarrow> chunk \<Rightarrow> graph \<Rightarrow> claim_request \<Rightarrow> chunk_rows \<Rightarrow> claim_refusal + (node \<times> chunk_rows)" where
  "claim r c g q s =
     (case refuse_paused_runner (cr_peeked r) (cq_runner_id q) of
        Some refusal \<Rightarrow> Inl refusal
      | None \<Rightarrow> claim_locked r c g q s)"

section \<open>Rekey, release and detach\<close>

datatype rekey_refusal = RekeyRunnerRetired ident | RekeyNotHolder "ident option" | RekeyTerminal chunk_status

definition refuse_rekey :: "chunk_facts \<Rightarrow> rekey_refusal option" where
  "refuse_rekey f = (if \<not> verb_legal_from VRekeyRouteToken (status f) then Some (RekeyTerminal (status f)) else None)"

definition rekey ::
  "executors \<Rightarrow> bool \<Rightarrow> ident \<Rightarrow> string \<Rightarrow> instant \<Rightarrow> chunk_rows \<Rightarrow> rekey_refusal + chunk_rows" where
  "rekey ex retired runner_id token_hash i s =
     (if retired then Inl (RekeyRunnerRetired runner_id)
      else case route_of s of
        None \<Rightarrow> Inl (RekeyNotHolder None)
      | Some current \<Rightarrow>
          if route_runner_id current \<noteq> runner_id then Inl (RekeyNotHolder (Some (route_runner_id current)))
          else case refuse_rekey (load_facts ex s) of
            Some refusal \<Rightarrow> Inl refusal
          | None \<Rightarrow> Inr (record_route_token token_hash i s))"

definition DETACHABLE :: "chunk_status set" where
  "DETACHABLE = EVERY_STATUS - TERMINAL_STATUSES"

definition holds :: "chunk_status option \<Rightarrow> bool" where
  "holds st \<longleftrightarrow> (case st of None \<Rightarrow> True | Some x \<Rightarrow> holds_claim x)"

definition releasable_by :: "route option \<Rightarrow> chunk_status option \<Rightarrow> ident \<Rightarrow> bool" where
  "releasable_by r st runner_id \<longleftrightarrow>
     (case r of None \<Rightarrow> False | Some held \<Rightarrow> route_runner_id held = runner_id) \<and> holds st"

datatype release_refusal = NotHolder | NotRunning | StaleRelease

definition refuse_release :: "route option \<Rightarrow> chunk_facts \<Rightarrow> ident \<Rightarrow> int \<Rightarrow> release_refusal option" where
  "refuse_release r f runner_id epoch =
     (if \<not> releasable_by r (Some (status f)) runner_id then Some NotHolder
      else if \<not> admits f VRelease then Some NotRunning
      else if epoch \<noteq> epoch_floor f then Some StaleRelease
      else None)"

definition release ::
  "executors \<Rightarrow> (string \<Rightarrow> string) \<Rightarrow> bool \<Rightarrow> ident \<Rightarrow> int \<Rightarrow> string option \<Rightarrow> string \<Rightarrow> instant \<Rightarrow> chunk_rows
     \<Rightarrow> release_refusal + chunk_rows" where
  "release ex digest enforce runner_id epoch token reason i s =
     (let f = load_facts ex s in
      if route_token_rejection digest enforce f token runner_id (map_option route_runner_id (route_of s)) \<noteq> None
      then Inl NotHolder
      else case refuse_release (route_of s) f runner_id epoch of
        Some refusal \<Rightarrow> Inl refusal
      | None \<Rightarrow> Inr (record_route_released i (Some CauseRelease) (Some reason) s))"

datatype detach_refusal = NoRouteToDetach | RouteHoldsNoClaim chunk_status | LifecycleMoved ident int

definition refuse_detach :: "route option \<Rightarrow> chunk_status option \<Rightarrow> detach_refusal option" where
  "refuse_detach r st =
     (if r = None then Some NoRouteToDetach
      else case st of None \<Rightarrow> None
      | Some x \<Rightarrow> if x \<notin> DETACHABLE then Some (RouteHoldsNoClaim x) else None)"

definition detach :: "executors \<Rightarrow> instant \<Rightarrow> chunk_rows \<Rightarrow> detach_refusal + chunk_rows" where
  "detach ex i s =
     (case refuse_detach (route_of s) (if route_of s \<noteq> None then Some (status (load_facts ex s)) else None) of
        Some refusal \<Rightarrow> Inl refusal
      | None \<Rightarrow> Inr (record_route_released i (Some CauseDetach) None s))"

text \<open>\<open>release_held\<close>: \<open>runner\<close> is a runner and the lifecycle version its retirement stands at; \<open>version\<close> the
  runner's own by now.\<close>

definition release_held ::
  "executors \<Rightarrow> ident \<times> int \<Rightarrow> int \<Rightarrow> instant \<Rightarrow> chunk_rows \<Rightarrow> detach_refusal + (bool \<times> chunk_rows)" where
  "release_held ex runner version i s =
     (if \<not> releasable_by (route_of s) (if route_of s \<noteq> None then Some (status (load_facts ex s)) else None) (fst runner)
      then Inr (False, s)
      else if version \<noteq> snd runner then Inl (LifecycleMoved (fst runner) (snd runner))
      else Inr (True, record_route_released i (Some CauseRetirement) None s))"

definition held_routes :: "(ident \<times> route) list \<Rightarrow> (ident \<Rightarrow> chunk_status option) \<Rightarrow> (ident \<times> route) list" where
  "held_routes rs statuses = filter (\<lambda>r. holds (statuses (fst r))) rs"

end
