(* ===== verification/Claim_Laws.thy ===== *)
theory Claim_Laws
  imports Claims Apply_Laws
begin

text \<open>
  The eligibility walk against reachability, a claim's grant against its conditions, and what a grant and
  a release do to the chunk.
\<close>

section \<open>The eligibility walk\<close>

definition local_successors :: "graph \<Rightarrow> (node \<times> node list) list" where
  "local_successors g = map (\<lambda>n. (n, local_targets g n)) (graph_nodes g)"

lemma map_of_graph: "map_of (map (\<lambda>n. (n, f n)) ns) n = (if n \<in> set ns then Some (f n) else None)"
  by (induction ns) auto

lemma successors_get: "adj_get (local_successors g) n = (if n \<in> set (graph_nodes g) then local_targets g n else [])"
  by (simp add: adj_get_def local_successors_def map_of_graph)

lemma visited_is_walk:
  assumes "distinct (map node_id (graph_nodes g))"
  shows "set stack \<subseteq> set (graph_nodes g) \<Longrightarrow> set met \<subseteq> set (graph_nodes g) \<Longrightarrow>
    met @ visited_nodes g stack (node_id ` set met) = walk (local_successors g) stack met"
proof (induction "local_successors g" stack met rule: walk.induct)
  case (2 n stack met)
  have inj: "inj_on node_id (set (graph_nodes g))" using assms by (simp add: distinct_map)
  then have iff: "node_id n \<in> node_id ` set met \<longleftrightarrow> n \<in> set met"
    using 2(3,4) by (auto simp: inj_on_image_mem_iff)
  show ?case
  proof (cases "n \<in> set met")
    case True
    with 2(1) 2(3,4) iff show ?thesis by simp
  next
    case False
    have get: "adj_get (local_successors g) n = local_targets g n" using 2(3) by (simp add: successors_get)
    have "set (rev (local_targets g n) @ stack) \<subseteq> set (graph_nodes g)" using 2(3) local_targets_in by auto
    with 2(2) [OF False] 2(3,4) get False iff show ?thesis by simp
  qed
qed simp

definition leads_on :: "graph \<Rightarrow> (node \<times> node) set" where
  "leads_on g = {(a, b). b \<in> set (local_targets g a)}"

lemma leads_on_rel:
  assumes "n \<in> set (graph_nodes g)"
  shows "(n, m) \<in> (adj_rel (local_successors g))\<^sup>* \<longleftrightarrow> (n, m) \<in> (leads_on g)\<^sup>*"
proof
  have "adj_rel (local_successors g) \<subseteq> leads_on g" by (auto simp: adj_rel_def leads_on_def successors_get split: if_splits)
  then show "(n, m) \<in> (adj_rel (local_successors g))\<^sup>* \<Longrightarrow> (n, m) \<in> (leads_on g)\<^sup>*" using rtrancl_mono by blast
  assume "(n, m) \<in> (leads_on g)\<^sup>*"
  then have "(n, m) \<in> (adj_rel (local_successors g))\<^sup>* \<and> m \<in> set (graph_nodes g)"
  proof (induction rule: rtrancl_induct)
    case (step y z)
    then have "(y, z) \<in> adj_rel (local_successors g)" by (auto simp: adj_rel_def leads_on_def successors_get)
    with step local_targets_in [of z g y] show ?case by (auto simp: leads_on_def intro: rtrancl_into_rtrancl)
  qed (simp add: assms)
  then show "(n, m) \<in> (adj_rel (local_successors g))\<^sup>*" by simp
qed

text \<open>The walk decides eligibility by reachability over the edges that stay in the graph.\<close>

lemma eligible_exactly:
  assumes "distinct (map node_id (graph_nodes g))" and "n \<in> set (graph_nodes g)"
  shows "capability_eligible c g n capabilities \<longleftrightarrow> capabilities \<noteq> []
    \<and> (\<forall>m. (n, m) \<in> (leads_on g)\<^sup>* \<and> node_executor m = ExecRunner \<longrightarrow> lineage_satisfied c g capabilities m)"
proof -
  have "visited_nodes g [n] {} = walk (local_successors g) [n] []"
    using visited_is_walk [OF assms(1), of "[n]" "[]"] assms(2) by simp
  then have met: "m \<in> set (visited_nodes g [n] {}) \<longleftrightarrow> (n, m) \<in> (leads_on g)\<^sup>*" for m
    using walk_reaches [of m "local_successors g" n] leads_on_rel [OF assms(2)] by simp
  show ?thesis unfolding capability_eligible_def reachable_runner_nodes_def set_filter met by blast
qed

section \<open>The grant\<close>

lemma status_route_frame:
  "status (f\<lparr>cf_routes_created := a, cf_routes_released := b, cf_route_tokens_minted := d, cf_epoch_owners := w\<rparr>) =
     (let live = newest_route \<lparr>rh_created = a, rh_released = b, rh_tokens_minted = d\<rparr> \<noteq> None in
      if cf_stopped f \<and> \<not> operator_completion_outranks_stop f then Stopped
      else if cf_operator_completed f \<or> newest_transition_is_terminal f then Done
      else if has_open_escalation f then NeedsHuman
      else if is_waiting_on_human f then WaitingOnHuman
      else if is_paused f then Paused
      else if \<not> cf_promoted f \<and> \<not> live then NotReady
      else if latest_movement_enters_hub_node f then Delivering
      else if live then Running
      else Ready)"
proof -
  let ?f = "f\<lparr>cf_routes_created := a, cf_routes_released := b, cf_route_tokens_minted := d, cf_epoch_owners := w\<rparr>"
  have m: "latest_movement ?f = latest_movement f" by (simp add: latest_movement_as_of_def ranked_movements_def)
  have t: "newest_transition_is_terminal ?f = newest_transition_is_terminal f"
    "latest_movement_enters_hub_node ?f = latest_movement_enters_hub_node f"
    by (simp_all only: newest_transition_is_terminal_def latest_movement_enters_hub_node_def m)
  have o: "operator_completion_outranks_stop ?f = operator_completion_outranks_stop f"
    by (simp add: operator_completion_outranks_stop_def)
  have c: "completed_at ?f = completed_at f" unfolding completed_at_def t o by (simp add: newest_transition_def)
  have i: "superseding_instants ?f = superseding_instants f" unfolding superseding_instants_def c by simp
  have e: "has_open_escalation ?f = has_open_escalation f" unfolding has_open_escalation_def open_escalation_def i by simp
  have p: "is_waiting_on_human ?f = is_waiting_on_human f" "is_paused ?f = is_paused f"
    by (simp_all add: is_waiting_on_human_def open_questions_def has_open_decision_def open_decision_def is_paused_def open_pause_def)
  have r: "has_live_route ?f \<longleftrightarrow> newest_route \<lparr>rh_created = a, rh_released = b, rh_tokens_minted = d\<rparr> \<noteq> None"
    by (simp add: has_live_route_def routes_def)
  show ?thesis unfolding status_def status_with_def t o e p r Let_def by simp
qed

lemma load_route: "\<exists>a b d w. load_facts ex (record_route i r h at s) =
    load_facts ex s\<lparr>cf_routes_created := a, cf_routes_released := b, cf_route_tokens_minted := d, cf_epoch_owners := w\<rparr>"
  by (simp add: load_facts_def record_route_def insert_token_def record_epoch_owner_def Let_def currently_promoted_def
      resolved_ids_def decision_closure_ids_def)


lemma live_route_loaded: "has_live_route (load_facts ex s) \<longleftrightarrow> route_of s \<noteq> None"
  using route_read_is_derived [of s ex] by (auto simp: has_live_route_def map_option_case split: option.splits)

lemma first_unmet_None:
  "first_unmet_prerequisite cid es facts_of = None \<longleftrightarrow>
     (\<forall>e\<in>set es. de_dependent e = cid \<longrightarrow> map_option status (facts_of (de_prerequisite e)) = Some Done)"
  by (induction es) (auto simp: met_by_def)

lemma ready_has_no_route: "status (load_facts ex s) = Ready \<Longrightarrow> route_of s = None"
  using live_route_loaded [of ex s] by (auto simp: status_def status_with_def split: if_splits)

definition unbarred :: "runner_registration \<Rightarrow> bool" where
  "unbarred r \<longleftrightarrow> rg_registered_at r \<noteq> None \<and> \<not> rg_retired r \<and> rg_version_refusal r = None"

lemma unbarred_iff:
  "claim_bar_of r = None \<longleftrightarrow> unbarred r \<and> \<not> rg_hub_paused r"
  "\<not> never_connected r \<and> refuse_runner_retired r = None \<and> refuse_version_refused r = None \<longleftrightarrow> unbarred r"
  by (auto simp: claim_bar_of_def unbarred_def never_connected_def permits_def runner_state_of_def ACTIVE_VERBS_def
      refuse_runner_retired_def refuse_version_refused_def split: if_splits)

lemma refuse_paused_None: "refuse_paused_runner p i = None \<longleftrightarrow> (\<exists>r. p = Some r \<and> claim_bar_of r = None)"
  by (auto simp: refuse_paused_runner_def claim_bar_of_def refuse_runner_retired_def refuse_version_refused_def
      split: option.splits if_splits)

text \<open>What a grant needs of the chunk as it stands: its record and graph, a ready status, prerequisites that are
  done, a project the runner serves, and a node every runner step from which it can execute.\<close>

definition grantable :: "claim_reads \<Rightarrow> chunk \<Rightarrow> graph \<Rightarrow> runner_registration \<Rightarrow> chunk_rows \<Rightarrow> node \<Rightarrow> bool" where
  "grantable r c g reg s n \<longleftrightarrow>
     status (load_facts (cr_executors r) s) = Ready
     \<and> (\<forall>e\<in>set (cr_edges r). edge_standing e \<and> de_dependent e = ch_chunk_id c \<longrightarrow>
          map_option status (cr_facts_of r (de_prerequisite e)) = Some Done)
     \<and> (\<exists>project. ch_project_id c = Some project \<and> serves reg project)
     \<and> current_node (load_facts (cr_executors r) s) g = Some n
     \<and> capability_eligible c g n (rg_capabilities reg)"

lemma admission_granted:
  "claim_admission c g (claim_facts r s) i (route_of s)
     (first_unmet_prerequisite (ch_chunk_id c) (standing_edges_for (cr_edges r) (ch_chunk_id c)) (cr_facts_of r))
     (Some reg) = Inr n \<longleftrightarrow> cr_found r \<and> unbarred reg \<and> grantable r c g reg s n"
proof -
  have unmet: "first_unmet_prerequisite (ch_chunk_id c) (standing_edges_for (cr_edges r) (ch_chunk_id c)) (cr_facts_of r) = None
    \<longleftrightarrow> (\<forall>e\<in>set (cr_edges r). edge_standing e \<and> de_dependent e = ch_chunk_id c \<longrightarrow>
          map_option status (cr_facts_of r (de_prerequisite e)) = Some Done)"
    unfolding first_unmet_None by (auto simp: standing_edges_for_def)
  show ?thesis
  proof (cases "unbarred reg \<and> cr_found r")
    case True
    then have bars: "\<not> never_connected reg" "refuse_runner_retired reg = None" "refuse_version_refused reg = None"
      using unbarred_iff(2) [of reg] by auto
    have ready: "status (load_facts (cr_executors r) s) = Ready \<Longrightarrow> route_of s = None" by (rule ready_has_no_route)
    let ?F = "load_facts (cr_executors r) s"
    show ?thesis
    proof (cases "status ?F = Ready")
      case ready': True
      with ready ready' bars True have "claim_admission c g (claim_facts r s) i (route_of s) u (Some reg) =
          (case u of Some p \<Rightarrow> Inl (ClaimDependency (ch_chunk_id c) p)
           | None \<Rightarrow> (case ch_project_id c of None \<Rightarrow> Inl (ClaimProjectMissing (ch_chunk_id c))
              | Some project \<Rightarrow> if \<not> serves reg project then Inl (ClaimUnserved (ch_chunk_id c) (rg_runner_id reg) project)
                else case current_node ?F g of None \<Rightarrow> Inl (ClaimConflict i)
                | Some n \<Rightarrow> if \<not> capability_eligible c g n (rg_capabilities reg) then Inl (ClaimIncapable (ch_chunk_id c) i) else Inr n))" for u
        by (simp add: claim_admission_def claim_facts_def or_default_def verb_legal_from_def holds_claim_def TERMINAL_STATUSES_def)
      with ready' True unmet show ?thesis
        by (cases "first_unmet_prerequisite (ch_chunk_id c) (standing_edges_for (cr_edges r) (ch_chunk_id c)) (cr_facts_of r)")
          (simp_all add: grantable_def split: option.splits, auto)
    next
      case False
      with bars True show ?thesis
        by (auto simp: claim_admission_def claim_facts_def or_default_def verb_legal_from_def grantable_def Let_def split: option.splits)
    qed
  next
    case False
    then show ?thesis using unbarred_iff(2) [of reg]
      by (auto simp: claim_admission_def claim_facts_def verb_legal_from_def Let_def split: option.splits if_splits)
  qed
qed

text \<open>A claim is granted exactly under these conditions, and writes the route.\<close>

lemma claim_granted_exactly:
  "claim r c g q s = Inr (n, s') \<longleftrightarrow>
     (\<exists>peeked. cr_peeked r = Some peeked \<and> unbarred peeked \<and> \<not> rg_hub_paused peeked)
     \<and> cr_found r
     \<and> (\<exists>reg current graph. cr_registration r = Some reg \<and> unbarred reg \<and> cr_record r = Some current
          \<and> (if ch_graph_id current \<noteq> ch_graph_id c then cr_graph r (ch_graph_id current) else Some g) = Some graph
          \<and> grantable r current graph reg s n)
     \<and> s' = record_route (cq_route_id q) (claimed_route q) (cq_token_hash q) (cq_at q) s"
proof -
  have inr: "map_sum id (\<lambda>n. (n, x)) y = Inr (n, s') \<longleftrightarrow> y = Inr n \<and> s' = x" for x y by (cases y) auto
  have none: "claim_admission c g f i route unmet None \<noteq> Inr n" for c g f i route unmet by (simp add: claim_admission_def)
  show ?thesis
  proof (cases "refuse_paused_runner (cr_peeked r) (cq_runner_id q)")
    case None
    with refuse_paused_None [of "cr_peeked r" "cq_runner_id q"] unbarred_iff(1)
    have "\<exists>peeked. cr_peeked r = Some peeked \<and> unbarred peeked \<and> \<not> rg_hub_paused peeked" by auto
    moreover have "claim r c g q s = claim_locked r c g q s" using None by (simp add: claim_def)
    ultimately show ?thesis
      by (cases "cr_registration r") (auto simp: claim_locked_def inr none admission_granted split: option.splits)
  next
    case (Some refusal)
    then have "\<not> (\<exists>peeked. cr_peeked r = Some peeked \<and> unbarred peeked \<and> \<not> rg_hub_paused peeked)"
      using refuse_paused_None [of "cr_peeked r" "cq_runner_id q"] unbarred_iff(1) by auto
    with Some show ?thesis by (simp add: claim_def)
  qed
qed

text \<open>C22: Of all claims of a chunk one wins. A claim is granted only if the runner is registered, not
  retired, not refused on its version and not paused by the hub, the chunk derives ready, every
  prerequisite is done, the runner serves its project, and every runner node the walk reaches
  from the current node can be served by its capabilities. Once granted the chunk runs under the
  claim's route, and any other claim made on the rows it leaves, whatever else was read for it,
  is refused. (The clock is not behind the chunk's own route rows.)\<close>

theorem one_claim_wins:
  assumes granted: "claim r c g q s = Inr (n, s')" and late: "routes_not_after s (cq_at q)"
  shows "(\<exists>peeked reg current graph. cr_peeked r = Some peeked \<and> unbarred peeked \<and> \<not> rg_hub_paused peeked
       \<and> cr_registration r = Some reg \<and> unbarred reg \<and> cr_record r = Some current
       \<and> (if ch_graph_id current \<noteq> ch_graph_id c then cr_graph r (ch_graph_id current) else Some g) = Some graph
       \<and> grantable r current graph reg s n)
    \<and> route_of s' = Some ((claimed_route q)\<lparr>route_created_at := cq_at q, route_route_id := Some (cq_route_id q)\<rparr>)
    \<and> status (load_facts (cr_executors r) s') = Running
    \<and> (\<exists>refusal. claim r' c' g' q' s' = Inl refusal)"
proof -
  note conditions = granted [unfolded claim_granted_exactly]
  have s': "s' = record_route (cq_route_id q) (claimed_route q) (cq_token_hash q) (cq_at q) s"
    and ready: "status (load_facts (cr_executors r) s) = Ready"
    using conditions by (auto simp: grantable_def)
  have route: "route_of s' = Some ((claimed_route q)\<lparr>route_created_at := cq_at q, route_route_id := Some (cq_route_id q)\<rparr>)"
    using claim_takes_the_route [OF late] unfolding s' by blast
  then have live: "has_live_route (load_facts ex s')" for ex using live_route_loaded by simp
  then have not_ready: "status (load_facts ex s') \<noteq> Ready" for ex
    using ready_has_no_route [of ex s'] route by auto
  then have "claim r' c' g' q' s' \<noteq> Inr (m, x)" for m x unfolding claim_granted_exactly by (auto simp: grantable_def)
  then have lost: "\<exists>refusal. claim r' c' g' q' s' = Inl refusal" by (cases "claim r' c' g' q' s'") auto
  let ?f = "load_facts (cr_executors r) s"
  obtain a b d w where f': "load_facts (cr_executors r) s' =
      ?f\<lparr>cf_routes_created := a, cf_routes_released := b, cf_route_tokens_minted := d, cf_epoch_owners := w\<rparr>"
    using load_route unfolding s' by blast
  from live [of "cr_executors r"] have "newest_route \<lparr>rh_created = a, rh_released = b, rh_tokens_minted = d\<rparr> \<noteq> None"
    unfolding f' by (simp add: has_live_route_def routes_def)
  with ready have "status (load_facts (cr_executors r) s') = Running"
    unfolding f' status_route_frame Let_def by (auto simp: status_def status_with_def split: if_splits)
  with route lost conditions show ?thesis by blast
qed

section \<open>Witness\<close>

definition sample_registration :: runner_registration where
  "sample_registration = \<lparr>rg_runner_id = ''rn_1'', rg_hub_paused = False, rg_registered_at = Some 1, rg_token_hash = Some ''t'',
     rg_capabilities = [\<lparr>rk_harness_id = ''h'', rk_version = None, rk_tiers = [], rk_supported_models = [], rk_default = True,
       rk_available = True\<rparr>],
     rg_retired = False, rg_lifecycle_version = 0, rg_served = [\<lparr>se_entry = ''web'', se_project_id = Some ''pr_1''\<rparr>],
     rg_reported_version = None, rg_version_refusal = None\<rparr>"

definition sample_claim_chunk :: chunk where
  "sample_claim_chunk = (aq_chunk sample_apply_request)\<lparr>ch_project_id := Some ''pr_1''\<rparr>"

definition sample_claim_reads :: claim_reads where
  "sample_claim_reads = \<lparr>cr_executors = (\<lambda>_. None), cr_peeked = Some sample_registration,
     cr_registration = Some sample_registration, cr_record = Some sample_claim_chunk, cr_graph = (\<lambda>_. None), cr_edges = [],
     cr_facts_of = (\<lambda>_. None), cr_found = True\<rparr>"

definition sample_claim_request :: claim_request where
  "sample_claim_request = \<lparr>cq_runner_id = ''rn_1'', cq_workspace_id = ''ws'', cq_environment_ids = [''env''],
     cq_token_hash = ''hash'', cq_route_id = ''rt_1'', cq_at = 10\<rparr>"

lemma sample_claim_granted:
  "case claim sample_claim_reads sample_claim_chunk sample_gate_graph sample_claim_request fresh_rows of
     Inl _ \<Rightarrow> False | Inr (n, _) \<Rightarrow> node_id n = ''work''"
  by code_simp

theorem one_claim_wins_witness:
  "\<exists>n s'. claim sample_claim_reads sample_claim_chunk sample_gate_graph sample_claim_request fresh_rows = Inr (n, s')
     \<and> map_option route_runner_id (route_of s') = Some ''rn_1''
     \<and> (\<exists>refusal. claim sample_claim_reads sample_claim_chunk sample_gate_graph
          (sample_claim_request\<lparr>cq_runner_id := ''rn_2''\<rparr>) s' = Inl refusal)"
proof -
  obtain n s' where granted: "claim sample_claim_reads sample_claim_chunk sample_gate_graph sample_claim_request fresh_rows = Inr (n, s')"
    using sample_claim_granted by (auto split: sum.splits)
  have late: "routes_not_after fresh_rows (cq_at sample_claim_request)"
    by (simp add: routes_not_after_def fresh_rows_def insert_chunk_rows_def record_promote_def)
  note won = one_claim_wins [OF granted late, of sample_claim_reads sample_claim_chunk sample_gate_graph
      "sample_claim_request\<lparr>cq_runner_id := ''rn_2''\<rparr>"]
  have "map_option route_runner_id (route_of s') = Some ''rn_1''"
    using won by (simp add: claimed_route_def sample_claim_request_def)
  with granted won show ?thesis by blast
qed

end
