(* ===== verification/Doubles.thy ===== *)
theory Doubles
  imports Prelude "HOL-Library.Log_Nat"
begin

text \<open>
  Python's \<open>float\<close> as the queue arithmetic uses it (\<open>+\<close>, \<open>-\<close>, halving, \<open>math.nextafter\<close>, the
  timestamp of an instant): finite IEEE 754 doubles, rounded to nearest with ties to even. Every
  finite double is a whole multiple of \<open>2^-1074\<close>, so a double is the integer multiple. The exponent is
  not capped above: results agree with the format as long as they stay below \<open>2^1024\<close>, which every
  bound used below is far under.
\<close>

type_synonym double = int

section \<open>Rounding\<close>

definition one_double :: double where
  "one_double = 2 ^ 1074"

text \<open>The nearest integer to \<open>p / q\<close>, the even one on a tie.\<close>

definition half_even_div :: "int \<Rightarrow> int \<Rightarrow> int" where
  "half_even_div p q =
     (let f = p div q; r = p mod q
      in if 2 * r < q \<or> (2 * r = q \<and> even f) then f else f + 1)"

text \<open>The exponent of the last place of a double of magnitude \<open>n\<close>: 53 bits of significand.\<close>

definition grain :: "int \<Rightarrow> nat" where
  "grain n = nat (bitlen n - 53)"

definition representable :: "int \<Rightarrow> bool" where
  "representable n \<longleftrightarrow> n mod 2 ^ grain \<bar>n\<bar> = 0"

text \<open>The double nearest to the rational \<open>p / q\<close>.\<close>

definition round_ratio :: "int \<Rightarrow> int \<Rightarrow> double" where
  "round_ratio p q = (let u = 2 ^ grain (\<bar>p\<bar> div q) in u * half_even_div p (q * u))"

definition double_add :: "double \<Rightarrow> double \<Rightarrow> double" where
  "double_add a b = round_ratio (a + b) 1"

definition double_sub :: "double \<Rightarrow> double \<Rightarrow> double" where
  "double_sub a b = round_ratio (a - b) 1"

definition double_half :: "double \<Rightarrow> double" where
  "double_half a = round_ratio a 2"

definition double_of_int :: "int \<Rightarrow> double" where
  "double_of_int i = round_ratio (i * one_double) 1"

text \<open>\<open>datetime.timestamp()\<close>: microseconds divided, correctly rounded, by a million.\<close>

definition timestamp :: "instant \<Rightarrow> double" where
  "timestamp i = round_ratio (i * one_double) 1000000"

text \<open>\<open>math.nextafter\<close>.\<close>

definition next_up :: "double \<Rightarrow> double" where
  "next_up x = x + 2 ^ grain (if 0 \<le> x then x else - x - 1)"

definition nextafter :: "double \<Rightarrow> double \<Rightarrow> double" where
  "nextafter x y = (if x = y then y else if x < y then next_up x else - next_up (- x))"

section \<open>The grid of doubles\<close>

lemma bitlen_le_power: "0 \<le> n \<Longrightarrow> bitlen n \<le> int k \<longleftrightarrow> n < 2 ^ k"
  using bitlen_le_iff_power [of n k] by (cases "n = 0") auto

lemma grain_le: "0 \<le> n \<Longrightarrow> grain n \<le> k \<longleftrightarrow> n < 2 ^ (k + 53)"
  using bitlen_le_power [of n "k + 53"] by (auto simp: grain_def)

lemma grain_bound: "0 \<le> n \<Longrightarrow> n < 2 ^ (grain n + 53)"
  using grain_le [of n "grain n"] by simp

lemma grain_ge: "0 \<le> n \<Longrightarrow> 0 < grain n \<Longrightarrow> 2 ^ (grain n + 52) \<le> n"
  using grain_le [of n "grain n - 1"] by (cases "grain n") (auto simp: add.commute)

lemma representable_dvd: "representable z \<longleftrightarrow> 2 ^ grain \<bar>z\<bar> dvd z"
  by (simp add: representable_def dvd_eq_mod_eq_0)

lemma representable_grid:
  assumes "representable z" and "2 ^ (k + 52) \<le> \<bar>z\<bar>"
  shows "2 ^ k dvd z"
proof -
  have "k \<le> grain \<bar>z\<bar>"
  proof (rule ccontr)
    assume "\<not> k \<le> grain \<bar>z\<bar>"
    then obtain j where j: "k = Suc j" "grain \<bar>z\<bar> \<le> j" by (cases k) auto
    then have "\<bar>z\<bar> < 2 ^ (j + 53)" using grain_le [of "\<bar>z\<bar>" j] by simp
    with assms(2) j show False by (simp add: eval_nat_numeral)
  qed
  then show ?thesis using assms(1) unfolding representable_dvd by (blast intro: dvd_trans le_imp_power_dvd)
qed

lemma representable_scaled:
  assumes "\<bar>m\<bar> \<le> 2 ^ 53"
  shows "representable (2 ^ k * m)"
proof (cases "\<bar>m\<bar> = 2 ^ 53")
  case True
  then have "\<bar>2 ^ k * m\<bar> = 2 ^ (k + 53)" by (simp add: abs_mult power_add)
  then have "grain \<bar>2 ^ k * m\<bar> \<le> Suc k" using grain_le [of "\<bar>2 ^ k * m\<bar>" "Suc k"] by simp
  moreover have "2 ^ Suc k dvd 2 ^ k * m"
  proof -
    from True have "m = 2 ^ 53 \<or> m = - (2 ^ 53)" by linarith
    then have "2 dvd m" by auto
    then show ?thesis by (simp add: mult.commute mult_dvd_mono)
  qed
  ultimately show ?thesis unfolding representable_dvd by (blast intro: dvd_trans le_imp_power_dvd)
next
  case False
  with assms have "\<bar>m\<bar> < 2 ^ 53" by linarith
  then have "\<bar>2 ^ k * m\<bar> < 2 ^ (k + 53)" by (simp add: abs_mult power_add)
  then have "grain \<bar>2 ^ k * m\<bar> \<le> k" using grain_le [of "\<bar>2 ^ k * m\<bar>" k] by simp
  then show ?thesis unfolding representable_dvd by (blast intro: dvd_trans le_imp_power_dvd dvd_triv_left)
qed

lemma representable_small: "\<bar>m\<bar> \<le> 2 ^ 53 \<Longrightarrow> representable m"
  using representable_scaled [of m 0] by simp

lemma representable_uminus [simp]: "representable (- z) \<longleftrightarrow> representable z"
  by (simp add: representable_dvd)

section \<open>Rounding goes to the nearest double\<close>

lemma half_even_div_bounds:
  assumes "0 < q"
  shows "q * z \<le> p \<Longrightarrow> z \<le> half_even_div p q" and "p \<le> q * z \<Longrightarrow> half_even_div p q \<le> z"
    and "2 * \<bar>p - q * half_even_div p q\<bar> \<le> q"
proof -
  define f r where "f = p div q" and "r = p mod q"
  have p: "p = q * f + r" by (simp add: f_def r_def)
  have r: "0 \<le> r" "r < q" using assms by (simp_all add: r_def)
  have h: "half_even_div p q = (if 2 * r < q \<or> (2 * r = q \<and> even f) then f else f + 1)"
    by (simp add: half_even_div_def Let_def f_def r_def)
  show "q * z \<le> p \<Longrightarrow> z \<le> half_even_div p q"
  proof -
    assume "q * z \<le> p"
    then have "q * z < q * (f + 1)" using p r by (simp add: algebra_simps)
    then have "z \<le> f" using assms by simp
    then show ?thesis by (simp add: h)
  qed
  show "p \<le> q * z \<Longrightarrow> half_even_div p q \<le> z"
  proof -
    assume le: "p \<le> q * z"
    then have "q * f \<le> q * z" using p r by linarith
    then have "f \<le> z" using assms by simp
    moreover have "f < z" if "0 < r"
    proof -
      have "q * f < q * z" using that p le by linarith
      then show ?thesis using assms by simp
    qed
    ultimately show ?thesis using r assms by (cases "r = 0") (auto simp: h)
  qed
  have "p - q * f = r" "p - q * (f + 1) = r - q" using p by (simp_all add: algebra_simps)
  then show "2 * \<bar>p - q * half_even_div p q\<bar> \<le> q" using r unfolding h by (auto split: if_splits)
qed

lemma abs_nearer: "2 * \<bar>p - x\<bar> \<le> q \<Longrightarrow> q \<le> \<bar>x - y\<bar> \<Longrightarrow> \<bar>p - x\<bar> \<le> \<bar>p - y\<bar>"
  for p x y q :: int
  unfolding abs_if by (auto split: if_splits)

lemma half_even_div_nearest:
  assumes "0 < q"
  shows "\<bar>p - q * half_even_div p q\<bar> \<le> \<bar>p - q * z\<bar>"
proof (cases "z = half_even_div p q")
  case False
  let ?h = "half_even_div p q"
  have "q * 1 \<le> q * \<bar>?h - z\<bar>" by (rule mult_left_mono) (use False assms in linarith)+
  moreover have "q * \<bar>?h - z\<bar> = \<bar>q * (?h - z)\<bar>" using assms by (simp add: abs_mult)
  ultimately have "q \<le> \<bar>q * ?h - q * z\<bar>" by (simp add: right_diff_distrib)
  then show ?thesis by (rule abs_nearer [OF half_even_div_bounds(3) [OF assms]])
qed simp

lemma div_split_bounds:
  assumes q: "0 < (q::int)"
  shows "q * (x div q) \<le> x" and "x < q * (x div q + 1)"
proof -
  have "x = q * (x div q) + x mod q" by simp
  moreover have "0 \<le> x mod q" "x mod q < q" using q by simp_all
  ultimately show "q * (x div q) \<le> x" "x < q * (x div q + 1)" unfolding distrib_left mult_1_right by linarith+
qed

lemma round_ratio_representable:
  assumes q: "0 < q"
  shows "representable (round_ratio p q)"
proof -
  define a k where "a = \<bar>p\<bar> div q" and "k = grain a"
  have a0: "0 \<le> a" using q by (simp add: a_def pos_imp_zdiv_nonneg_iff)
  have "a < 2 ^ (k + 53)" using grain_bound [OF a0] by (simp add: k_def)
  then have "a + 1 \<le> 2 ^ (k + 53)" by linarith
  moreover have "\<bar>p\<bar> < q * (a + 1)" unfolding a_def by (rule div_split_bounds(2) [OF q])
  ultimately have "\<bar>p\<bar> \<le> q * 2 ^ (k + 53)"
    using q by (smt (verit) mult_left_mono)
  then have "\<bar>p\<bar> \<le> (q * 2 ^ k) * 2 ^ 53" by (simp add: power_add mult.assoc)
  then have "p \<le> (q * 2 ^ k) * 2 ^ 53" "(q * 2 ^ k) * (- (2 ^ 53)) \<le> p" by linarith+
  then have "half_even_div p (q * 2 ^ k) \<le> 2 ^ 53" "- (2 ^ 53) \<le> half_even_div p (q * 2 ^ k)"
    using half_even_div_bounds(1,2) [of "q * 2 ^ k"] q by simp_all
  then have "\<bar>half_even_div p (q * 2 ^ k)\<bar> \<le> 2 ^ 53" by linarith
  from representable_scaled [OF this, of k] show ?thesis by (simp add: round_ratio_def Let_def k_def a_def)
qed

lemma round_ratio_nearest:
  assumes q: "0 < q" and z: "representable z"
  shows "\<bar>p - q * round_ratio p q\<bar> \<le> \<bar>p - q * z\<bar>"
proof -
  define a k where "a = \<bar>p\<bar> div q" and "k = grain a"
  let ?u = "2 ^ k :: int"
  have a0: "0 \<le> a" using q by (simp add: a_def pos_imp_zdiv_nonneg_iff)
  have near: "\<bar>p - q * round_ratio p q\<bar> \<le> \<bar>p - q * (?u * w)\<bar>" for w
    using half_even_div_nearest [of "q * ?u" p w] q
    by (simp add: round_ratio_def Let_def k_def a_def mult.assoc)
  show ?thesis
  proof (cases "?u dvd z")
    case True
    then obtain w where "z = ?u * w" by blast
    with near [of w] show ?thesis by simp
  next
    case False
    then have "0 < k" by (cases k) auto
    then have big: "2 ^ (k + 52) \<le> a" using grain_ge [OF a0] by (simp add: k_def)
    have small: "\<bar>z\<bar> < 2 ^ (k + 52)" using representable_grid [OF z, of k] False by linarith
    have "q * a \<le> \<bar>p\<bar>" unfolding a_def by (rule div_split_bounds(1) [OF q])
    then have out: "q * 2 ^ (k + 52) \<le> \<bar>p\<bar>" using big q by (smt (verit) mult_left_mono)
    have "q * \<bar>z\<bar> \<le> q * 2 ^ (k + 52)" using small q by (simp add: mult_le_cancel_left)
    moreover have "\<bar>q * z\<bar> = q * \<bar>z\<bar>" using q by (simp add: abs_mult)
    ultimately have "\<bar>p\<bar> - q * 2 ^ (k + 52) \<le> \<bar>p - q * z\<bar>" by linarith
    moreover have "\<bar>p - q * round_ratio p q\<bar> \<le> \<bar>p\<bar> - q * 2 ^ (k + 52)"
    proof (cases "0 \<le> p")
      case True
      with near [of "2 ^ 52"] out show ?thesis by (simp add: power_add)
    next
      case False
      with near [of "- (2 ^ 52)"] out show ?thesis by (simp add: power_add)
    qed
    ultimately show ?thesis by linarith
  qed
qed

lemma round_ratio_bounds:
  assumes q: "0 < q" and z: "representable z"
  shows "q * z \<le> p \<Longrightarrow> z \<le> round_ratio p q" and "p \<le> q * z \<Longrightarrow> round_ratio p q \<le> z"
proof -
  note near = round_ratio_nearest [OF q z, of p]
  have lt: "q * x < q * y" if "x < y" for x y using that q by simp
  show "q * z \<le> p \<Longrightarrow> z \<le> round_ratio p q" using near lt [of "round_ratio p q" z] by linarith
  show "p \<le> q * z \<Longrightarrow> round_ratio p q \<le> z" using near lt [of z "round_ratio p q"] by linarith
qed

lemma round_ratio_exact:
  assumes "0 < q" and "representable z"
  shows "round_ratio (q * z) q = z"
  using round_ratio_bounds [OF assms, of "q * z"] by simp

lemmas double_defs = double_add_def double_sub_def double_half_def double_of_int_def timestamp_def

lemma representable_results [simp]:
  "representable (double_add a b)" "representable (double_sub a b)" "representable (double_half a)"
  "representable (double_of_int i)" "representable (timestamp j)"
  by (simp_all add: double_defs round_ratio_representable)

section \<open>Adding one, the neighbour and the midpoint\<close>

lemma next_up_properties:
  assumes x: "representable x"
  shows "representable (next_up x)" and "x < next_up x" and "representable z \<Longrightarrow> x < z \<Longrightarrow> next_up x \<le> z"
proof -
  show "x < next_up x" by (simp add: next_up_def)
  have "representable (next_up x) \<and> (representable z \<longrightarrow> x < z \<longrightarrow> next_up x \<le> z)"
  proof (cases "0 \<le> x")
    case True
    define k where "k = grain x"
    let ?u = "2 ^ k :: int"
    have next_eq: "next_up x = x + ?u" using True by (simp add: next_up_def k_def)
    obtain m where m: "x = ?u * m" using x True unfolding representable_dvd k_def by auto
    have "?u * m < ?u * 2 ^ 53" using grain_bound [OF True] unfolding m [symmetric] by (simp add: k_def power_add)
    then have m53: "m < 2 ^ 53" by simp
    have "0 \<le> m" using True m by (simp add: zero_le_mult_iff)
    with m53 have "representable (?u * (m + 1))" by (intro representable_scaled) linarith
    then have r: "representable (next_up x)" unfolding next_eq using m by (simp add: distrib_left)
    have "next_up x \<le> z" if z: "representable z" "x < z" for z
    proof -
      have "?u dvd z"
      proof (cases "k = 0")
        case False
        then have "2 ^ (k + 52) \<le> x" using grain_ge [OF True] by (simp add: k_def)
        with z show ?thesis by (intro representable_grid) linarith+
      qed simp
      then obtain w where w: "z = ?u * w" by blast
      with z m have "m < w" by simp
      then have "?u * (m + 1) \<le> ?u * w" by simp
      then show ?thesis unfolding next_eq w using m by (simp add: distrib_left)
    qed
    with r show ?thesis by blast
  next
    case False
    define a k where "a = - x" and "k = grain (a - 1)"
    let ?u = "2 ^ k :: int"
    have a: "0 < a" "representable a" using False x by (simp_all add: a_def)
    have next_eq: "next_up x = - (a - ?u)" using False by (simp add: next_up_def k_def a_def)
    have b: "a - 1 < 2 ^ (k + 53)" using grain_bound [of "a - 1"] a by (simp add: k_def)
    have big: "2 ^ (k + 52) \<le> a - 1" if "k \<noteq> 0" using grain_ge [of "a - 1"] a that by (simp add: k_def)
    have div: "?u dvd a"
    proof (cases "k = 0")
      case False
      with big a show ?thesis by (intro representable_grid) auto
    qed simp
    then obtain m where m: "a = ?u * m" by blast
    have "0 < m" using a m by (simp add: zero_less_mult_iff)
    have "?u * (m - 1) = a - ?u" by (simp add: m right_diff_distrib)
    moreover have "m - 1 < 2 ^ 53"
    proof -
      have "1 \<le> ?u" by simp
      moreover have "a - 1 < ?u * 2 ^ 53" using b by (simp only: power_add)
      ultimately have "?u * (m - 1) < ?u * 2 ^ 53" unfolding \<open>?u * (m - 1) = a - ?u\<close> by linarith
      then show ?thesis by simp
    qed
    ultimately have r: "representable (next_up x)"
      unfolding next_eq representable_uminus using representable_scaled [of "m - 1" k] \<open>0 < m\<close> by simp
    have "next_up x \<le> z" if z: "representable z" "x < z" for z
    proof (cases "?u dvd z")
      case True
      then obtain w where w: "z = ?u * w" by blast
      with z(2) m have "?u * (- m) < ?u * w" by (simp add: a_def)
      then have "- m < w" using mult_less_cancel_left_pos [of ?u "- m" w] by (simp del: mult_minus_right)
      then have "?u * (1 - m) \<le> ?u * w" by simp
      then show ?thesis by (simp add: next_eq m w right_diff_distrib)
    next
      case False
      then have k: "k \<noteq> 0" by (cases k) auto
      have "\<bar>z\<bar> < 2 ^ (k + 52)" using representable_grid [OF z(1), of k] False by linarith
      moreover have "2 ^ (k + 52) \<le> a - ?u"
      proof -
        have "?u * 2 ^ 52 < ?u * m" using big [OF k] unfolding m [symmetric] by (simp add: power_add)
        then have "2 ^ 52 \<le> m - 1" by simp
        then have "?u * 2 ^ 52 \<le> ?u * (m - 1)" by (rule mult_left_mono) simp
        then show ?thesis by (simp add: m right_diff_distrib power_add)
      qed
      ultimately show ?thesis by (simp add: next_eq)
    qed
    with r show ?thesis by blast
  qed
  then show "representable (next_up x)" and "representable z \<Longrightarrow> x < z \<Longrightarrow> next_up x \<le> z" by blast+
qed

text \<open>The test the code makes: between two doubles there is another one.\<close>

lemma nextafter_spent:
  assumes "representable a" and "representable b" and "a \<le> b"
  shows "nextafter a b \<ge> b \<longleftrightarrow> \<not> (\<exists>c. representable c \<and> a < c \<and> c < b)"
proof (cases "a = b")
  case False
  with assms have n: "nextafter a b = next_up a" by (simp add: nextafter_def)
  show ?thesis unfolding n
  proof
    assume le: "b \<le> next_up a"
    show "\<not> (\<exists>c. representable c \<and> a < c \<and> c < b)"
      using next_up_properties(3) [OF assms(1)] le by fastforce
  next
    assume "\<not> (\<exists>c. representable c \<and> a < c \<and> c < b)"
    then show "b \<le> next_up a" using next_up_properties(1,2) [OF assms(1)] not_le by blast
  qed
qed (simp add: nextafter_def)

lemma double_midpoint:
  assumes a: "representable a" and b: "representable b" and c: "representable c" "a < c" "c < b"
  shows "a < double_half (double_add a b)" and "double_half (double_add a b) < b"
proof -
  define s h where "s = double_add a b" and "h = double_half s"
  have repr_s: "representable s" by (simp add: s_def)
  have "representable (2 * c)" using c(1)
  proof -
    obtain m where m: "c = 2 ^ grain \<bar>c\<bar> * m" using c(1) unfolding representable_dvd by auto
    have "\<bar>c\<bar> < 2 ^ grain \<bar>c\<bar> * 2 ^ 53" using grain_bound [of "\<bar>c\<bar>"] by (simp add: power_add)
    then have "2 ^ grain \<bar>c\<bar> * \<bar>m\<bar> < 2 ^ grain \<bar>c\<bar> * 2 ^ 53" by (subst (asm) (1) m) (simp add: abs_mult)
    then have "\<bar>m\<bar> \<le> 2 ^ 53" by simp
    from representable_scaled [OF this, of "Suc (grain \<bar>c\<bar>)"] show ?thesis by (subst m) (simp add: mult.assoc)
  qed
  from round_ratio_nearest [OF _ this, of 1 "a + b"]
  have "\<bar>a + b - s\<bar> \<le> \<bar>a + b - 2 * c\<bar>" by (simp add: s_def double_add_def)
  then have s: "2 * a < s" "s < 2 * b" using c by linarith+
  have "2 * a < 2 * h \<and> 2 * h < 2 * b"
  proof (cases "even s")
    case True
    then obtain t where t: "s = 2 * t" by blast
    have "representable t"
    proof (cases "\<bar>t\<bar> \<le> 2 ^ 53")
      case False
      define g where "g = grain \<bar>s\<bar>"
      have "\<not> g \<le> 0" using False grain_le [of "\<bar>s\<bar>" 0] by (simp add: t g_def)
      then obtain j where j: "g = Suc j" by (cases g) auto
      obtain m where m: "s = 2 ^ g * m" using repr_s unfolding representable_dvd g_def by auto
      have "\<bar>s\<bar> < 2 ^ g * 2 ^ 53" using grain_bound [of "\<bar>s\<bar>"] by (simp add: power_add g_def)
      then have "\<bar>m\<bar> \<le> 2 ^ 53" unfolding m by (simp add: abs_mult)
      moreover have "t = 2 ^ j * m" using m t j by simp
      ultimately show ?thesis by (simp add: representable_scaled)
    qed (rule representable_small)
    then have "h = t" unfolding h_def double_half_def t by (simp add: round_ratio_exact)
    with t s show ?thesis by linarith
  next
    case False
    have "s = a + b"
    proof -
      have "grain \<bar>s\<bar> = 0" using False repr_s unfolding representable_dvd by (cases "grain \<bar>s\<bar>") auto
      then have "\<bar>s\<bar> < 2 ^ 53" using grain_bound [of "\<bar>s\<bar>"] by simp
      moreover have "2 ^ 53 \<le> s" if "2 ^ 53 \<le> a + b"
        using round_ratio_bounds(1) [of 1 "2 ^ 53" "a + b"] that by (simp add: s_def double_add_def representable_small)
      moreover have "s \<le> - (2 ^ 53)" if "a + b \<le> - (2 ^ 53)"
        using round_ratio_bounds(2) [of 1 "- (2 ^ 53)" "a + b"] that by (simp add: s_def double_add_def representable_small)
      ultimately have "\<bar>a + b\<bar> \<le> 2 ^ 53" by linarith
      then have "representable (a + b)" by (rule representable_small)
      from round_ratio_exact [OF _ this, of 1] show ?thesis by (simp add: s_def double_add_def)
    qed
    moreover have "\<bar>s - 2 * h\<bar> \<le> \<bar>s - 2 * c\<bar>"
      using round_ratio_nearest [OF _ c(1), of 2 s] by (simp add: h_def double_half_def)
    ultimately show ?thesis using c by linarith
  qed
  then show "a < double_half (double_add a b)" and "double_half (double_add a b) < b" by (simp_all add: h_def s_def)
qed

text \<open>Below \<open>2^53\<close> a step of one is a step.\<close>

definition whole_bound :: int where
  "whole_bound = one_double * 2 ^ 53"

lemma one_double_pos [simp]: "0 < one_double"
  by (simp add: one_double_def)

lemma one_double_nonneg [simp]: "0 \<le> one_double"
  by (rule less_imp_le [OF one_double_pos])

lemma whole_representable: "\<bar>m\<bar> \<le> 2 ^ 53 \<Longrightarrow> representable (one_double * m)"
  unfolding one_double_def by (rule representable_scaled)

lemma double_of_int_exact: "\<bar>m\<bar> \<le> 2 ^ 53 \<Longrightarrow> double_of_int m = one_double * m"
  using round_ratio_exact [OF _ whole_representable, of 1 m] by (simp add: double_of_int_def mult.commute)

lemma whole_bounds:
  assumes "- whole_bound < a" and "a < whole_bound"
  shows "a < one_double * (a div one_double + 1)" and "representable (one_double * (a div one_double + 1))"
    and "one_double * (a div one_double + 1) \<le> a + one_double"
proof -
  define m where "m = a div one_double"
  have lo: "one_double * m \<le> a" "a < one_double * (m + 1)"
    using div_split_bounds [OF one_double_pos, of a] by (simp_all add: m_def)
  have "one_double * m < one_double * 2 ^ 53" using lo(1) assms(2) unfolding whole_bound_def by (rule le_less_trans)
  then have "m < 2 ^ 53" by (simp only: mult_less_cancel_left_pos [OF one_double_pos])
  moreover have "one_double * (- (2 ^ 53)) < one_double * (m + 1)"
    using assms(1) lo(2) unfolding whole_bound_def by linarith
  then have "- (2 ^ 53) < m + 1" by (simp only: mult_less_cancel_left_pos [OF one_double_pos])
  ultimately show "representable (one_double * (a div one_double + 1))"
    unfolding m_def [symmetric] by (intro whole_representable) linarith
  show "a < one_double * (a div one_double + 1)" using lo(2) by (simp only: m_def)
  show "one_double * (a div one_double + 1) \<le> a + one_double" using lo(1) by (simp add: m_def distrib_left)
qed

lemma double_add_one:
  assumes "- whole_bound < a" and "a < whole_bound"
  shows "a < double_add a one_double"
  using whole_bounds [OF assms] round_ratio_bounds(1) [of 1 _ "a + one_double"]
  by (force simp: double_add_def)

lemma round_ratio_uminus_one: "representable z \<Longrightarrow> a - one_double \<le> z \<Longrightarrow> double_sub a one_double \<le> z"
  using round_ratio_bounds(2) [of 1 z "a - one_double"] by (simp add: double_sub_def)

lemma double_sub_one:
  assumes "- whole_bound < a" and "a < whole_bound"
  shows "double_sub a one_double < a"
proof -
  let ?z = "one_double * (- a div one_double + 1)"
  have b: "- whole_bound < - a" "- a < whole_bound" using assms by linarith+
  note w = whole_bounds [OF b]
  have "representable (- ?z)" using w(2) by (simp only: representable_uminus)
  moreover have "a - one_double \<le> - ?z" using w(3) by linarith
  ultimately have "double_sub a one_double \<le> - ?z" by (rule round_ratio_uminus_one)
  with w(1) show ?thesis by linarith
qed

end
