(* ===== verification/Float_Slots.thy ===== *)
theory Float_Slots
  imports Doubles
begin

text \<open>
  Slots in an explicitly ordered list (\<open>hub/domain/kernel/float_slots.py\<close>): a move writes the midpoint
  between its new neighbours, and a spent gap renumbers the list to whole numbers first. An index
  handed in is an index of the list, which every caller looks up there.
\<close>

section \<open>The arithmetic\<close>

record slot =
  sl_position :: double
  sl_renumbered :: "double list"

definition renumbered :: "nat \<Rightarrow> double \<Rightarrow> double list" where
  "renumbered count start = map (\<lambda>i. double_add start (double_of_int (int i))) [0..<count]"

definition slot_after :: "double list \<Rightarrow> nat option \<Rightarrow> double \<Rightarrow> double option" where
  "slot_after positions after start =
     (case after of
        None \<Rightarrow> Some (if positions \<noteq> [] then double_sub (hd positions) one_double else start)
      | Some i \<Rightarrow>
          let after_pos = positions ! i in
          if Suc i = length positions then Some (double_add after_pos one_double)
          else let next_pos = positions ! Suc i in
            if nextafter after_pos next_pos \<ge> next_pos then None
            else Some (double_half (double_add after_pos next_pos)))"

text \<open>\<open>None\<close> is the failed assertion.\<close>

definition land_after :: "double list \<Rightarrow> nat option \<Rightarrow> double \<Rightarrow> slot option" where
  "land_after positions after start =
     (case slot_after positions after start of
        Some p \<Rightarrow> Some \<lparr>sl_position = p, sl_renumbered = []\<rparr>
      | None \<Rightarrow>
          let whole = renumbered (length positions) start
          in map_option (\<lambda>p. \<lparr>sl_position = p, sl_renumbered = whole\<rparr>) (slot_after whole after start))"

section \<open>What a slot guarantees\<close>

definition in_range :: "double \<Rightarrow> bool" where
  "in_range p \<longleftrightarrow> representable p \<and> - whole_bound < p \<and> p < whole_bound"

lemma renumbered_whole: "n \<le> 2 ^ 53 \<Longrightarrow> renumbered n 0 = map (\<lambda>i. one_double * int i) [0..<n]"
  unfolding renumbered_def
proof (rule map_cong [OF refl])
  fix i
  assume n: "n \<le> 2 ^ 53" and "i \<in> set [0..<n]"
  then have "int i < int (2 ^ 53)" by simp
  then have i: "\<bar>int i\<bar> \<le> 2 ^ 53" by simp
  show "double_add 0 (double_of_int (int i)) = one_double * int i"
    using round_ratio_exact [OF _ whole_representable [OF i], of 1]
    by (simp add: double_of_int_exact [OF i] double_add_def)
qed

lemma renumbered_in_range:
  assumes "n \<le> 2 ^ 53" and "i < n"
  shows "in_range (renumbered n 0 ! i)"
proof -
  have i: "int i < 2 ^ 53" using assms by (metis of_nat_less_iff of_nat_numeral of_nat_power order_less_le_trans)
  then have "representable (one_double * int i)" by (intro whole_representable) simp
  moreover have "one_double * int i < one_double * 2 ^ 53"
    using i by (simp only: mult_less_cancel_left_pos [OF one_double_pos])
  moreover have "0 \<le> one_double * int i" by (simp add: one_double_def)
  moreover have "renumbered n 0 ! i = one_double * int i" using assms by (simp add: renumbered_whole)
  moreover have "0 < one_double * 2 ^ 53" by simp
  ultimately show ?thesis unfolding in_range_def whole_bound_def
    by (intro conjI, simp only:, linarith, linarith)
qed

lemma slot_after_gap:
  assumes "in_range (ps ! i)" and "Suc i < length ps" and "in_range (ps ! Suc i)" and "ps ! i \<le> ps ! Suc i"
  shows "slot_after ps (Some i) start = None \<longleftrightarrow> \<not> (\<exists>c. representable c \<and> ps ! i < c \<and> c < ps ! Suc i)"
    and "slot_after ps (Some i) start = Some p \<Longrightarrow> ps ! i < p \<and> p < ps ! Suc i"
proof -
  have sp: "nextafter (ps ! i) (ps ! Suc i) \<ge> ps ! Suc i \<longleftrightarrow>
      \<not> (\<exists>c. representable c \<and> ps ! i < c \<and> c < ps ! Suc i)"
    by (rule nextafter_spent) (use assms in_range_def in auto)
  then show "slot_after ps (Some i) start = None \<longleftrightarrow> \<not> (\<exists>c. representable c \<and> ps ! i < c \<and> c < ps ! Suc i)"
    using assms(2) by (simp add: slot_after_def Let_def)
  assume s: "slot_after ps (Some i) start = Some p"
  then obtain c where "representable c" "ps ! i < c" "c < ps ! Suc i" "p = double_half (double_add (ps ! i) (ps ! Suc i))"
    using assms(2) sp by (auto simp: slot_after_def Let_def split: if_splits)
  then show "ps ! i < p \<and> p < ps ! Suc i"
    using assms(1,3) double_midpoint [of "ps ! i" "ps ! Suc i" c] by (simp add: in_range_def)
qed

lemma slot_after_end:
  assumes "Suc i = length ps" and "in_range (ps ! i)"
  shows "\<exists>p. slot_after ps (Some i) start = Some p \<and> ps ! i < p"
  using assms double_add_one [of "ps ! i"] by (simp add: slot_after_def Let_def in_range_def)

lemma slot_at_top:
  assumes "ps \<noteq> []" and "in_range (hd ps)"
  shows "\<exists>p. slot_after ps None start = Some p \<and> p < hd ps"
  using assms double_sub_one [of "hd ps"] by (simp add: slot_after_def in_range_def)

text \<open>Up to \<open>2^52\<close> members, whole numbers leave a double between neighbours, so the assertion holds.\<close>

lemma whole_slot:
  assumes n: "n \<le> 2 ^ 52" and i: "Suc i < n"
  shows "\<exists>p. slot_after (renumbered n 0) (Some i) start = Some p \<and> renumbered n 0 ! i < p \<and> p < renumbered n 0 ! Suc i"
proof -
  let ?w = "renumbered n 0"
  have len: "length ?w = n" by (simp add: renumbered_def)
  have n': "n \<le> 2 ^ 53" using n by simp
  have w: "?w ! i = one_double * int i" "?w ! Suc i = one_double * int (Suc i)"
    using n' i by (simp_all add: renumbered_whole)
  have le: "?w ! i \<le> ?w ! Suc i" unfolding w by (rule mult_left_mono) simp_all
  have "int (Suc i) < 2 ^ 52" using i n by (metis of_nat_less_iff of_nat_numeral of_nat_power order_less_le_trans)
  then have m: "\<bar>2 * int i + 1\<bar> \<le> 2 ^ 53" by simp
  define h :: int where "h = 2 ^ 1073"
  have h: "0 < h" "one_double = 2 * h" unfolding one_double_def h_def by (simp_all flip: power_Suc)
  let ?c = "h * (2 * int i + 1)"
  have "?w ! i = h * (2 * int i)" "?w ! Suc i = h * (2 * int i + 2)"
    unfolding w h(2) by (simp_all add: algebra_simps)
  then have "?w ! i < ?c" "?c < ?w ! Suc i" by (simp_all only: mult_less_cancel_left_pos [OF h(1)])
  then have gap: "\<exists>c. representable c \<and> ?w ! i < c \<and> c < ?w ! Suc i"
    using representable_scaled [OF m, of 1073] unfolding h_def by blast
  have r: "in_range (?w ! i)" "in_range (?w ! Suc i)" using n' i by (simp_all add: renumbered_in_range)
  from slot_after_gap(1) [OF r(1) _ r(2) le, of start] gap i len
  obtain p where p: "slot_after ?w (Some i) start = Some p" by auto
  with slot_after_gap(2) [OF r(1) _ r(2) le p] i len show ?thesis by auto
qed

lemma renumbered_sorted:
  assumes "n \<le> 2 ^ 53" and "i < j" and "j < n"
  shows "renumbered n 0 ! i < renumbered n 0 ! j"
  using assms by (simp add: renumbered_whole)

text \<open>The landing is the strict successor of its anchor's position in the list the move leaves, and
  the list is renumbered exactly when no double is left in the gap.\<close>

definition landing_positions :: "double list \<Rightarrow> slot \<Rightarrow> double list" where
  "landing_positions ps sl = (if sl_renumbered sl = [] then ps else sl_renumbered sl)"

lemma land_after_anchor:
  assumes ps: "\<forall>p\<in>set ps. in_range p" "sorted ps" and n: "length ps \<le> 2 ^ 52" and i: "i < length ps"
  shows "\<exists>sl. land_after ps (Some i) 0 = Some sl \<and> length (landing_positions ps sl) = length ps
     \<and> sorted (landing_positions ps sl)
     \<and> landing_positions ps sl ! i < sl_position sl
     \<and> (Suc i < length ps \<longrightarrow> sl_position sl < landing_positions ps sl ! Suc i)
     \<and> (sl_renumbered sl = [] \<or> sl_renumbered sl = renumbered (length ps) 0)
     \<and> (sl_renumbered sl \<noteq> [] \<longleftrightarrow>
          Suc i < length ps \<and> \<not> (\<exists>c. representable c \<and> ps ! i < c \<and> c < ps ! Suc i))"
proof (cases "Suc i = length ps")
  case True
  from slot_after_end [OF this, of 0] ps(1) i obtain p where
    "slot_after ps (Some i) 0 = Some p" "ps ! i < p" by auto
  then show ?thesis using True ps by (simp add: land_after_def landing_positions_def)
next
  case False
  then have si: "Suc i < length ps" using i by simp
  have r: "in_range (ps ! i)" "in_range (ps ! Suc i)" using ps(1) si by simp_all
  have le: "ps ! i \<le> ps ! Suc i" using ps(2) si by (simp add: sorted_iff_nth_mono)
  note gap = slot_after_gap [OF r(1) si r(2) le, where start = 0]
  show ?thesis
  proof (cases "slot_after ps (Some i) 0")
    case (Some p)
    with gap(1) have "\<exists>c. representable c \<and> ps ! i < c \<and> c < ps ! Suc i" by auto
    with gap(2) [OF Some] Some ps show ?thesis by (simp add: land_after_def landing_positions_def)
  next
    case None
    let ?w = "renumbered (length ps) 0"
    have lw: "length ?w = length ps" by (simp add: renumbered_def)
    then have ne: "?w \<noteq> []" using i by auto
    from whole_slot [OF n si] obtain p where p: "slot_after ?w (Some i) 0 = Some p" "?w ! i < p" "p < ?w ! Suc i" by blast
    have "sorted ?w" unfolding sorted_iff_nth_mono_less lw
      using renumbered_sorted [of "length ps"] n by (simp add: less_imp_le)
    with p None gap(1) lw ne si show ?thesis by (simp add: land_after_def landing_positions_def Let_def)
  qed
qed

lemma land_at_top:
  assumes "\<forall>p\<in>set ps. in_range p" and "sorted ps"
  shows "\<exists>p. land_after ps None 0 = Some \<lparr>sl_position = p, sl_renumbered = []\<rparr> \<and> (\<forall>x\<in>set ps. p < x)"
proof (cases ps)
  case Nil
  then show ?thesis by (simp add: land_after_def slot_after_def)
next
  case (Cons x xs)
  then obtain p where "slot_after ps None 0 = Some p" "p < x" using slot_at_top [of ps 0] assms(1) by auto
  moreover have "\<forall>y\<in>set ps. x \<le> y" using assms(2) Cons by simp
  ultimately show ?thesis by (auto simp: land_after_def)
qed

end
