(* ===== verification/Queue.thy ===== *)
theory Queue
  imports Float_Slots Completion Terminal_Predicates
begin

text \<open>
  Queue ranking (\<open>hub/domain/operations/queue.py\<close>, \<open>promote.py\<close>, \<open>demote.py\<close>, \<open>chunk_queue_store.py\<close>):
  the \<open>ready\<close> queue and the \<open>not_ready\<close> list are each ordered by appended position facts. The hub's
  chunks are a list of rows with distinct ids; each service is one transaction on them under the
  list's ranking lock. A page's cursor is the key it encodes; its base64 text is not modelled.
\<close>

section \<open>The chunks of a hub\<close>

record fleet_row =
  fr_chunk_id :: ident
  fr_minted_at :: instant
  fr_default_effort :: "string option"
  fr_default_harnesses :: "string list"
  fr_project_id :: "ident option"
  fr_rows :: chunk_rows

record fleet =
  fl_rows :: "fleet_row list"
  fl_positions :: "(ident \<times> double \<times> instant) list"

definition chunk_of :: "fleet_row \<Rightarrow> chunk" where
  "chunk_of r = \<lparr>ch_chunk_id = fr_chunk_id r, ch_graph_id = ck_graph_id (fr_rows r),
     ch_work_refs = ck_work_refs (fr_rows r), ch_minted_at = fr_minted_at r,
     ch_default_model = ck_default_model (fr_rows r), ch_default_effort = fr_default_effort r,
     ch_default_harnesses = fr_default_harnesses r,
     ch_intended_migration = ck_intended_migration (fr_rows r), ch_project_id = fr_project_id r\<rparr>"

definition find_row :: "fleet \<Rightarrow> ident \<Rightarrow> fleet_row option" where
  "find_row fl cid = List.find (\<lambda>r. fr_chunk_id r = cid) (fl_rows fl)"

definition facts_of :: "executors \<Rightarrow> fleet \<Rightarrow> ident \<Rightarrow> chunk_facts option" where
  "facts_of ex fl cid =
     (case find_row fl cid of None \<Rightarrow> None
      | Some r \<Rightarrow> if ck_ephemeral (fr_rows r) then None else Some (load_facts ex (fr_rows r)))"

definition row_status :: "executors \<Rightarrow> fleet_row \<Rightarrow> chunk_status" where
  "row_status ex r = status (load_facts ex (fr_rows r))"

definition maybe_live_statuses :: "executors \<Rightarrow> fleet \<Rightarrow> (ident \<times> chunk_status) list" where
  "maybe_live_statuses ex fl = map (\<lambda>r. (fr_chunk_id r, row_status ex r))
     (filter (\<lambda>r. maybe_live (fr_rows r) \<and> \<not> ck_ephemeral (fr_rows r)) (fl_rows fl))"

definition load_live_statuses :: "executors \<Rightarrow> fleet \<Rightarrow> (ident \<times> chunk_status) list" where
  "load_live_statuses ex fl = filter (\<lambda>(_, st). st \<notin> TERMINAL_STATUSES) (maybe_live_statuses ex fl)"

definition get_many :: "fleet \<Rightarrow> ident list \<Rightarrow> chunk list" where
  "get_many fl ids = map chunk_of
     (filter (\<lambda>r. fr_chunk_id r \<in> set ids \<and> \<not> ck_ephemeral (fr_rows r)) (fl_rows fl))"

definition listed_with_status :: "fleet \<Rightarrow> chunk_status \<Rightarrow> (ident \<times> chunk_status) list \<Rightarrow> chunk list" where
  "listed_with_status fl st statuses = get_many fl (map fst (filter (\<lambda>(_, s). s = st) statuses))"

section \<open>The position facts (\<open>ChunkQueueStore\<close>)\<close>

text \<open>The newest row by insertion order.\<close>

definition queue_position :: "fleet \<Rightarrow> ident \<Rightarrow> double option" where
  "queue_position fl cid = map_option (\<lambda>(_, p, _). p) (List.find (\<lambda>(i, _). i = cid) (rev (fl_positions fl)))"

definition promoted_at :: "fleet \<Rightarrow> ident \<Rightarrow> instant option" where
  "promoted_at fl cid =
     (case find_row fl cid of None \<Rightarrow> None
      | Some r \<Rightarrow> if currently_promoted (fr_rows r) then Some (Max (set (ck_promoted (fr_rows r)))) else None)"

definition record_queue_positions :: "(ident \<times> double) list \<Rightarrow> instant \<Rightarrow> fleet \<Rightarrow> fleet" where
  "record_queue_positions positions now fl =
     fl\<lparr>fl_positions := fl_positions fl @ map (\<lambda>(i, p). (i, p, now)) positions\<rparr>"

definition record_backlog_positions :: "(ident \<times> double) list \<Rightarrow> instant \<Rightarrow> fleet \<Rightarrow> fleet" where
  "record_backlog_positions positions now fl =
     record_queue_positions (filter (\<lambda>(i, _). promoted_at fl i = None) positions) now fl"

definition update_row :: "ident \<Rightarrow> (chunk_rows \<Rightarrow> chunk_rows) \<Rightarrow> fleet \<Rightarrow> fleet" where
  "update_row cid f fl = fl\<lparr>fl_rows := map (\<lambda>r. if fr_chunk_id r = cid then r\<lparr>fr_rows := f (fr_rows r)\<rparr> else r) (fl_rows fl)\<rparr>"

text \<open>\<open>insert_promote_rows\<close>/\<open>insert_demote_rows\<close> with the position row, stamped at one instant.\<close>

definition record_promote_with_position :: "ident \<Rightarrow> double \<Rightarrow> instant \<Rightarrow> fleet \<Rightarrow> fleet" where
  "record_promote_with_position cid position now fl =
     (let stamped = (case find_row fl cid of None \<Rightarrow> now | Some r \<Rightarrow> after_newest (ck_demoted (fr_rows r)) now)
      in record_queue_positions [(cid, position)] stamped (update_row cid (insert_promote_rows now) fl))"

definition record_demote_with_position :: "ident \<Rightarrow> double \<Rightarrow> instant \<Rightarrow> fleet \<Rightarrow> fleet" where
  "record_demote_with_position cid position now fl =
     (let stamped = (case find_row fl cid of None \<Rightarrow> now | Some r \<Rightarrow> after_newest (ck_promoted (fr_rows r)) now)
      in record_queue_positions [(cid, position)] stamped (update_row cid (insert_demote_rows now) fl))"

section \<open>The two lists and their refusals\<close>

datatype queue_list = ReadyList | NotReadyList

datatype queue_error =
    DuplicateReorderIds
  | SelfAnchoredMove
  | ContradictoryPlacement
  | NotInList ident queue_list "queue_list option"
  | QueueChunkNotFound ident
  | ChunkNotPromotable ident chunk_status
  | ChunkNotDemotable ident chunk_status
  | LimitTooSmall int
  | SlotAssertion

fun REORDER_VERB :: "queue_list \<Rightarrow> chunk_verb" where
  "REORDER_VERB ReadyList = VReorderReady"
| "REORDER_VERB NotReadyList = VReorderBacklog"

fun other_list :: "queue_list \<Rightarrow> queue_list" where
  "other_list ReadyList = NotReadyList"
| "other_list NotReadyList = ReadyList"

record placement =
  pc_after_chunk_id :: "ident option"
  pc_to_top :: bool

definition Placement :: "ident option \<Rightarrow> bool \<Rightarrow> queue_error + placement" where
  "Placement after_chunk_id to_top =
     (if to_top \<and> after_chunk_id \<noteq> None then Inl ContradictoryPlacement
      else Inr \<lparr>pc_after_chunk_id = after_chunk_id, pc_to_top = to_top\<rparr>)"

definition NotInList_of :: "ident \<Rightarrow> queue_list \<Rightarrow> (ident \<times> chunk_status) list \<Rightarrow> queue_error" where
  "NotInList_of cid expected statuses =
     NotInList cid expected
       (case map_of statuses cid of None \<Rightarrow> None
        | Some st \<Rightarrow> if verb_legal_from (REORDER_VERB (other_list expected)) st then Some (other_list expected) else None)"

definition find_chunk :: "ident \<Rightarrow> chunk list \<Rightarrow> chunk option" where
  "find_chunk cid cs = List.find (\<lambda>c. ch_chunk_id c = cid) cs"

definition replacement_order ::
  "queue_list \<Rightarrow> chunk list \<Rightarrow> chunk list \<Rightarrow> (ident \<times> chunk_status) list \<Rightarrow> queue_error + chunk list" where
  "replacement_order l current named statuses =
     (let named_ids = map ch_chunk_id named in
      if \<not> distinct named_ids then Inl DuplicateReorderIds
      else case List.find (\<lambda>i. find_chunk i current = None) named_ids of
        Some i \<Rightarrow> Inl (NotInList_of i l statuses)
      | None \<Rightarrow> Inr (List.map_filter (\<lambda>i. find_chunk i current) named_ids
                     @ filter (\<lambda>c. ch_chunk_id c \<notin> set named_ids) current))"

definition resolve_move ::
  "queue_list \<Rightarrow> chunk list \<Rightarrow> chunk \<Rightarrow> chunk option \<Rightarrow> (ident \<times> chunk_status) list
     \<Rightarrow> queue_error + (chunk \<times> chunk option)" where
  "resolve_move l current c after statuses =
     (if map_option ch_chunk_id after = Some (ch_chunk_id c) then Inl SelfAnchoredMove
      else case find_chunk (ch_chunk_id c) current of
        None \<Rightarrow> Inl (NotInList_of (ch_chunk_id c) l statuses)
      | Some moving \<Rightarrow> (case after of
          None \<Rightarrow> Inr (moving, None)
        | Some a \<Rightarrow> (case find_chunk (ch_chunk_id a) current of
            None \<Rightarrow> Inl (NotInList_of (ch_chunk_id a) l statuses)
          | Some anchor \<Rightarrow> Inr (moving, Some anchor))))"

definition require_anchor_among ::
  "queue_list \<Rightarrow> chunk list \<Rightarrow> ident option \<Rightarrow> (ident \<times> chunk_status) list \<Rightarrow> queue_error + chunk option" where
  "require_anchor_among l members after_id statuses =
     (case after_id of None \<Rightarrow> Inr None
      | Some i \<Rightarrow> (case find_chunk i members of
          None \<Rightarrow> Inl (NotInList_of i l statuses)
        | Some anchor \<Rightarrow> Inr (Some anchor)))"

section \<open>The ranking\<close>

record ranking =
  rk_positions :: "ident \<Rightarrow> double option"
  rk_promoted_ats :: "ident \<Rightarrow> instant option"

definition effective_position :: "ranking \<Rightarrow> chunk \<Rightarrow> double" where
  "effective_position rk c =
     (case rk_positions rk (ch_chunk_id c) of
        Some p \<Rightarrow> p
      | None \<Rightarrow> (case rk_promoted_ats rk (ch_chunk_id c) of
          Some i \<Rightarrow> timestamp i
        | None \<Rightarrow> timestamp (ch_minted_at c)))"

definition rank_key :: "ranking \<Rightarrow> chunk \<Rightarrow> double \<times> ident" where
  "rank_key rk c = (effective_position rk c, ch_chunk_id c)"

definition ranked :: "ranking \<Rightarrow> chunk list \<Rightarrow> chunk list" where
  "ranked rk members = sort_key (rank_key rk) members"

definition tail_position :: "ranking \<Rightarrow> chunk list \<Rightarrow> double" where
  "tail_position rk members = double_add (max_or (- one_double) (map (effective_position rk) members)) one_double"

record queue_entry =
  qe_chunk :: chunk
  qe_position :: nat

definition entries_of :: "chunk list \<Rightarrow> ident set option \<Rightarrow> queue_entry list" where
  "entries_of ordered projects = map (\<lambda>(i, c). \<lparr>qe_chunk = c, qe_position = i\<rparr>)
     (filter (\<lambda>(_, c). case projects of None \<Rightarrow> True
        | Some ps \<Rightarrow> (case ch_project_id c of None \<Rightarrow> False | Some p \<Rightarrow> p \<in> ps)) (List.enumerate 0 ordered))"

record queue_page =
  qp_entries :: "queue_entry list"
  qp_next_cursor :: "(double \<times> ident) option"

definition page ::
  "ranking \<Rightarrow> chunk list \<Rightarrow> (double \<times> ident) option \<Rightarrow> int \<Rightarrow> ident option \<Rightarrow> queue_error + queue_page" where
  "page rk members cursor limit project =
     (if limit < 1 then Inl (LimitTooSmall limit)
      else
        let keyed = ranked rk members;
            n = nat limit;
            kept = filter (\<lambda>(_, c). (project = None \<or> ch_project_id c = project)
                             \<and> (case cursor of None \<Rightarrow> True | Some k \<Rightarrow> \<not> rank_key rk c \<le> k))
                     (List.enumerate 0 keyed);
            entries = take (Suc n) kept
        in Inr \<lparr>qp_entries = map (\<lambda>(i, c). \<lparr>qe_chunk = c, qe_position = i\<rparr>) (take n entries),
               qp_next_cursor = (if n < length entries then Some (rank_key rk (snd (entries ! (n - 1)))) else None)\<rparr>)"

definition index_of :: "chunk list \<Rightarrow> chunk option \<Rightarrow> nat option" where
  "index_of ordered after =
     map_option (\<lambda>a. length (takeWhile (\<lambda>c. ch_chunk_id c \<noteq> ch_chunk_id a) ordered)) after"

record queue_landing =
  ql_position :: double
  ql_renormalized :: "(ident \<times> double) list"

definition land_chunk_after :: "ranking \<Rightarrow> chunk list \<Rightarrow> chunk option \<Rightarrow> queue_error + queue_landing" where
  "land_chunk_after rk ordered after =
     (case land_after (map (effective_position rk) ordered) (index_of ordered after) 0 of
        None \<Rightarrow> Inl SlotAssertion
      | Some sl \<Rightarrow> Inr \<lparr>ql_position = sl_position sl,
          ql_renormalized = zip (map ch_chunk_id ordered) (sl_renumbered sl)\<rparr>)"

definition resolve_landing ::
  "ranking \<Rightarrow> queue_list \<Rightarrow> chunk list \<Rightarrow> ident \<Rightarrow> placement \<Rightarrow> (ident \<times> chunk_status) list
     \<Rightarrow> queue_error + queue_landing" where
  "resolve_landing rk l members cid pl statuses =
     (if pc_after_chunk_id pl = Some cid then Inl SelfAnchoredMove
      else case require_anchor_among l members (pc_after_chunk_id pl) statuses of
        Inl err \<Rightarrow> Inl err
      | Inr after \<Rightarrow>
          if after = None \<and> \<not> pc_to_top pl
          then Inr \<lparr>ql_position = tail_position rk members, ql_renormalized = []\<rparr>
          else land_chunk_after rk (ranked rk members) after)"

section \<open>The services\<close>

definition write_positions :: "queue_list \<Rightarrow> (ident \<times> double) list \<Rightarrow> instant \<Rightarrow> fleet \<Rightarrow> fleet" where
  "write_positions l positions now fl =
     (case l of NotReadyList \<Rightarrow> record_backlog_positions positions now fl
      | ReadyList \<Rightarrow> record_queue_positions positions now fl)"

definition read_ranking :: "fleet \<Rightarrow> chunk list \<Rightarrow> ranking" where
  "read_ranking fl members =
     (let ids = set (map ch_chunk_id members)
      in \<lparr>rk_positions = (\<lambda>i. if i \<in> ids then queue_position fl i else None),
          rk_promoted_ats = (\<lambda>i. if i \<in> ids then promoted_at fl i else None)\<rparr>)"

definition queue_candidates :: "queue_list \<Rightarrow> fleet \<Rightarrow> (ident \<times> chunk_status) list \<Rightarrow> chunk list" where
  "queue_candidates l fl statuses =
     listed_with_status fl (case l of ReadyList \<Rightarrow> Ready | NotReadyList \<Rightarrow> NotReady) statuses"

definition queue_ordered :: "queue_list \<Rightarrow> fleet \<Rightarrow> (ident \<times> chunk_status) list \<Rightarrow> chunk list" where
  "queue_ordered l fl statuses =
     (let members = queue_candidates l fl statuses in ranked (read_ranking fl members) members)"

definition reorder ::
  "executors \<Rightarrow> queue_list \<Rightarrow> chunk list \<Rightarrow> instant \<Rightarrow> fleet \<Rightarrow> queue_error + (chunk list \<times> fleet)" where
  "reorder ex l chunks now fl =
     (let statuses = load_live_statuses ex fl; current = queue_ordered l fl statuses
      in case replacement_order l current chunks statuses of
        Inl err \<Rightarrow> Inl err
      | Inr ordered \<Rightarrow>
          Inr (ordered, write_positions l
            (map (\<lambda>(i, c). (ch_chunk_id c, double_of_int (int i))) (List.enumerate 0 ordered)) now fl))"

definition reposition ::
  "executors \<Rightarrow> queue_list \<Rightarrow> chunk \<Rightarrow> chunk option \<Rightarrow> instant \<Rightarrow> fleet \<Rightarrow> queue_error + (chunk list \<times> fleet)" where
  "reposition ex l c after now fl =
     (let statuses = load_live_statuses ex fl; members = queue_candidates l fl statuses;
          rk = read_ranking fl members
      in case resolve_move l members c after statuses of
        Inl err \<Rightarrow> Inl err
      | Inr (moving, anchor) \<Rightarrow>
          (let others = ranked rk (filter (\<lambda>x. ch_chunk_id x \<noteq> ch_chunk_id moving) members)
           in case land_chunk_after rk others anchor of
             Inl err \<Rightarrow> Inl err
           | Inr landing \<Rightarrow>
               (let index = (case index_of others anchor of None \<Rightarrow> 0 | Some i \<Rightarrow> Suc i)
                in Inr (take index others @ moving # drop index others,
                        write_positions l (ql_renormalized landing @ [(ch_chunk_id moving, ql_position landing)]) now fl))))"

section \<open>Promoting and demoting\<close>

definition is_promotable :: "chunk_facts \<Rightarrow> bool" where
  "is_promotable facts \<longleftrightarrow> \<not> cf_promoted facts \<and> admits facts VPromote"

definition promotion_writes :: "ident \<Rightarrow> chunk_facts \<Rightarrow> queue_error + bool" where
  "promotion_writes cid facts =
     (if cf_promoted facts then Inr False
      else if \<not> is_promotable facts then Inl (ChunkNotPromotable cid (status facts))
      else Inr True)"

definition demotion_writes :: "ident \<Rightarrow> chunk_facts \<Rightarrow> queue_error + bool" where
  "demotion_writes cid facts =
     (if \<not> cf_promoted facts then Inr False
      else if \<not> admits facts VDemote \<and> \<not> is_ready_but_for_pause facts then Inl (ChunkNotDemotable cid (status facts))
      else Inr True)"

definition withheld_by_pause :: "(ident \<times> chunk_facts) list \<Rightarrow> ident list" where
  "withheld_by_pause facts_by_id = map fst (filter (\<lambda>(_, f). is_ready_but_for_pause f) facts_by_id)"

definition ready_members :: "executors \<Rightarrow> fleet \<Rightarrow> (ident \<times> chunk_status) list \<Rightarrow> chunk list" where
  "ready_members ex fl statuses =
     (let paused_ids = map fst (filter (\<lambda>(_, st). st = Paused) statuses);
          paused_facts = List.map_filter (\<lambda>i. map_option (\<lambda>f. (i, f)) (facts_of ex fl i)) paused_ids
      in listed_with_status fl Ready statuses
         @ (if paused_ids = [] then [] else get_many fl (withheld_by_pause paused_facts)))"

definition promote ::
  "executors \<Rightarrow> ident \<Rightarrow> placement \<Rightarrow> instant \<Rightarrow> fleet \<Rightarrow> queue_error + (bool \<times> fleet)" where
  "promote ex cid pl now fl =
     (case facts_of ex fl cid of
        None \<Rightarrow> Inl (QueueChunkNotFound cid)
      | Some facts \<Rightarrow> (case promotion_writes cid facts of
          Inl err \<Rightarrow> Inl err
        | Inr False \<Rightarrow> Inr (False, fl)
        | Inr True \<Rightarrow>
            (let statuses = load_live_statuses ex fl; members = ready_members ex fl statuses
             in case resolve_landing (read_ranking fl members) ReadyList members cid pl statuses of
               Inl err \<Rightarrow> Inl err
             | Inr landing \<Rightarrow>
                 Inr (True, record_promote_with_position cid (ql_position landing) now
                   (if ql_renormalized landing = [] then fl
                    else write_positions ReadyList (ql_renormalized landing) now fl)))))"

definition demote ::
  "executors \<Rightarrow> ident \<Rightarrow> placement \<Rightarrow> instant \<Rightarrow> fleet \<Rightarrow> queue_error + (bool \<times> fleet)" where
  "demote ex cid pl now fl =
     (case facts_of ex fl cid of
        None \<Rightarrow> Inl (QueueChunkNotFound cid)
      | Some facts \<Rightarrow> (case demotion_writes cid facts of
          Inl err \<Rightarrow> Inl err
        | Inr False \<Rightarrow> Inr (False, fl)
        | Inr True \<Rightarrow>
            (let statuses = load_live_statuses ex fl; members = listed_with_status fl NotReady statuses
             in case resolve_landing (read_ranking fl members) NotReadyList members cid pl statuses of
               Inl err \<Rightarrow> Inl err
             | Inr landing \<Rightarrow>
                 Inr (True, record_demote_with_position cid (ql_position landing) now
                   (if ql_renormalized landing = [] then fl
                    else write_positions NotReadyList (ql_renormalized landing) now fl)))))"

end
