(* ===== verification/Queue_Laws.thy ===== *)
theory Queue_Laws
  imports Queue "HOL-Library.Multiset"
begin

text \<open>
  What a reorder and a reposition leave: positions from which the next read derives the order they
  decided, the other list untouched. The position facts are an interface (the locale
  \<open>position_table\<close>), interpreted on the store writes of both lists.
\<close>

section \<open>Reading a ranked list\<close>

definition fallback_position :: "fleet \<Rightarrow> chunk \<Rightarrow> double" where
  "fallback_position fl c =
     (case promoted_at fl (ch_chunk_id c) of Some i \<Rightarrow> timestamp i | None \<Rightarrow> timestamp (ch_minted_at c))"

definition position_of :: "(ident \<Rightarrow> double option) \<Rightarrow> (chunk \<Rightarrow> double) \<Rightarrow> chunk \<Rightarrow> double" where
  "position_of positions fb c = (case positions (ch_chunk_id c) of Some p \<Rightarrow> p | None \<Rightarrow> fb c)"

definition position_key :: "(ident \<Rightarrow> double option) \<Rightarrow> (chunk \<Rightarrow> double) \<Rightarrow> chunk \<Rightarrow> double \<times> ident" where
  "position_key positions fb c = (position_of positions fb c, ch_chunk_id c)"

lemma rank_key_read:
  assumes "c \<in> set members"
  shows "effective_position (read_ranking fl members) c = position_of (queue_position fl) (fallback_position fl) c"
    and "rank_key (read_ranking fl members) c = position_key (queue_position fl) (fallback_position fl) c"
  using assms by (auto simp: rank_key_def position_key_def effective_position_def position_of_def fallback_position_def
      read_ranking_def Let_def split: option.splits)

lemma fallback_in_range: "representable (fallback_position fl c)"
  by (simp add: fallback_position_def split: option.splits)

lemma sort_key_cong: "(\<And>x. x \<in> set xs \<Longrightarrow> f x = g x) \<Longrightarrow> sort_key f xs = sort_key g xs"
proof (induction xs)
  case (Cons x xs)
  have "insort_key f x ys = insort_key g x ys" if "set ys \<subseteq> set xs" for ys
    using that Cons.prems by (induction ys) auto
  with Cons show ?case by (metis list.set_intros(2) set_sort sort_key_simps(2) subset_refl)
qed simp

lemma ranked_read:
  "ranked (read_ranking fl members) members = sort_key (position_key (queue_position fl) (fallback_position fl)) members"
  unfolding ranked_def by (rule sort_key_cong) (rule rank_key_read)

lemma ranked_eqI:
  assumes "distinct (map ch_chunk_id xs)" and "mset ys = mset xs" and "sorted (map (position_key q fb) ys)"
  shows "sort_key (position_key q fb) xs = ys"
proof (rule sort_key_inj_key_eq)
  show "inj_on (position_key q fb) (set xs)"
    using assms(1) by (auto simp: distinct_map position_key_def inj_on_def)
qed (use assms in auto)

lemma fst_image: "map fst ps = ids \<Longrightarrow> fst ` set ps = set ids"
  by (metis set_map)

section \<open>The interface of the position facts\<close>

locale position_table =
  fixes read :: "'s \<Rightarrow> ident \<Rightarrow> double option"
    and put :: "(ident \<times> double) list \<Rightarrow> 's \<Rightarrow> 's"
    and writable :: "'s \<Rightarrow> ident set"
  assumes read_write: "distinct (map fst ps) \<Longrightarrow> fst ` set ps \<subseteq> writable s \<Longrightarrow>
    read (put ps s) i = (case map_of ps i of Some p \<Rightarrow> Some p | None \<Rightarrow> read s i)"
begin

text \<open>A whole order written from zero up reads back as written.\<close>

lemma replaced_order:
  assumes ids: "distinct (map ch_chunk_id ys)" and w: "ch_chunk_id ` set ys \<subseteq> writable s" and n: "length ys \<le> 2 ^ 53"
  shows "sorted (map (position_key (read (put
      (map (\<lambda>(i, c). (ch_chunk_id c, double_of_int (int i))) (List.enumerate 0 ys)) s)) fb) ys)"
proof -
  let ?ps = "map (\<lambda>(i, c). (ch_chunk_id c, double_of_int (int i))) (List.enumerate 0 ys)"
  have fst_ps: "map fst ?ps = map ch_chunk_id ys"
    by (simp add: comp_def case_prod_unfold flip: map_map [of ch_chunk_id snd, unfolded comp_def])
  have d: "distinct (map fst ?ps)" unfolding fst_ps by (rule ids)
  have sub: "fst ` set ?ps \<subseteq> writable s" using w unfolding fst_image [OF fst_ps] by simp
  have pos: "position_of (read (put ?ps s)) fb (ys ! i) = one_double * int i" if i: "i < length ys" for i
  proof -
    have "(ch_chunk_id (ys ! i), double_of_int (int i)) \<in> set ?ps"
      using i by (auto simp: in_set_enumerate_eq intro!: rev_image_eqI [of "(i, ys ! i)"])
    then have "map_of ?ps (ch_chunk_id (ys ! i)) = Some (double_of_int (int i))" using d by simp
    moreover have "\<bar>int i\<bar> \<le> 2 ^ 53"
    proof -
      have "int i < int (2 ^ 53)" using i n by (metis of_nat_less_iff order_less_le_trans)
      then show ?thesis by simp
    qed
    ultimately show ?thesis by (simp add: position_of_def read_write [OF d sub] double_of_int_exact)
  qed
  show ?thesis
    unfolding sorted_iff_nth_mono_less length_map
    by (auto simp: position_key_def less_eq_prod_def less_prod_def pos)
qed

text \<open>One member moved: the others keep their order, the slot puts it where it was asked for.\<close>

lemma moved_order:
  assumes ids: "distinct (map ch_chunk_id (m # others))"
    and w: "ch_chunk_id ` set (m # others) \<subseteq> writable s"
    and sorted: "sorted (map (position_key (read s) fb) others)"
    and sl: "sl_renumbered sl = [] \<or> length (sl_renumbered sl) = length others \<and> sorted_wrt (<) (sl_renumbered sl)"
    and k: "k \<le> length others"
    and below: "\<And>j. j < k \<Longrightarrow> landing_positions (map (position_of (read s) fb) others) sl ! j < sl_position sl"
    and above: "\<And>j. k \<le> j \<Longrightarrow> j < length others \<Longrightarrow>
        sl_position sl < landing_positions (map (position_of (read s) fb) others) sl ! j"
  shows "sorted (map (position_key (read (put
      (zip (map ch_chunk_id others) (sl_renumbered sl) @ [(ch_chunk_id m, sl_position sl)]) s)) fb)
        (take k others @ m # drop k others))"
proof -
  let ?ps = "zip (map ch_chunk_id others) (sl_renumbered sl) @ [(ch_chunk_id m, sl_position sl)]"
  let ?q = "read (put ?ps s)" and ?L = "landing_positions (map (position_of (read s) fb) others) sl"
  have zid: "map fst (zip (map ch_chunk_id others) (sl_renumbered sl)) =
      (if sl_renumbered sl = [] then [] else map ch_chunk_id others)"
    using sl by auto
  have d: "distinct (map fst ?ps)" using ids zid by auto
  have sub: "fst ` set ?ps \<subseteq> writable s"
    using w arg_cong [OF zid, of set] by (auto split: if_splits)
  note rw = read_write [OF d sub]
  have m: "position_of ?q fb m = sl_position sl"
  proof -
    have "map_of ?ps (ch_chunk_id m) = Some (sl_position sl)" by (rule map_of_is_SomeI [OF d]) simp
    then show ?thesis by (simp add: position_of_def rw)
  qed
  have o: "position_of ?q fb (others ! j) = ?L ! j" if j: "j < length others" for j
  proof (cases "sl_renumbered sl = []")
    case True
    have "ch_chunk_id m \<noteq> ch_chunk_id (others ! j)" using ids nth_mem [OF j] by (metis distinct.simps(2) image_eqI list.map(2) set_map)
    then have "map_of ?ps (ch_chunk_id (others ! j)) = None" using True by simp
    then show ?thesis using j unfolding position_of_def rw landing_positions_def by (simp add: True position_of_def)
  next
    case False
    then have len: "length (sl_renumbered sl) = length others" using sl by blast
    have "(ch_chunk_id (others ! j), sl_renumbered sl ! j) \<in> set ?ps"
      using j len by (auto simp: in_set_zip intro!: exI [of _ j])
    then have "map_of ?ps (ch_chunk_id (others ! j)) = Some (sl_renumbered sl ! j)" by (rule map_of_is_SomeI [OF d])
    then show ?thesis using False by (simp add: position_of_def rw landing_positions_def)
  qed
  have so: "sorted (map (position_key ?q fb) others)"
  proof (cases "sl_renumbered sl = []")
    case True
    then have "position_of ?q fb x = position_of (read s) fb x" if "x \<in> set others" for x
      using that o by (auto simp: in_set_conv_nth landing_positions_def)
    then have "map (position_key ?q fb) others = map (position_key (read s) fb) others"
      by (simp add: position_key_def)
    then show ?thesis using sorted by (simp only:)
  next
    case False
    with sl o show ?thesis
      by (auto simp: sorted_iff_nth_mono_less position_key_def less_eq_prod_def less_prod_def landing_positions_def
          sorted_wrt_iff_nth_less)
  qed
  have lo: "position_of ?q fb x < sl_position sl" if "x \<in> set (take k others)" for x
    using that below o k by (auto simp: in_set_conv_nth)
  have hi: "sl_position sl < position_of ?q fb x" if "x \<in> set (drop k others)" for x
    using that above o k by (auto simp: in_set_conv_nth)
  have "sorted (map (position_key ?q fb) (take k others @ drop k others))" using so by simp
  then have "sorted (map (position_key ?q fb) (take k others))" "sorted (map (position_key ?q fb) (drop k others))"
    and "\<forall>x\<in>set (take k others). \<forall>y\<in>set (drop k others). position_key ?q fb x \<le> position_key ?q fb y"
    unfolding map_append sorted_append by auto
  with lo hi m show ?thesis
    by (auto simp: sorted_append position_key_def less_eq_prod_def less_prod_def intro: less_imp_le)
qed

end

section \<open>Both store writes provide it\<close>

lemma find_rev_map_of:
  assumes "distinct (map fst ps)"
  shows "List.find (\<lambda>(i, _). i = k) (rev (map (\<lambda>(i, p). (i, p, now)) ps)) = map_option (\<lambda>p. (k, p, now)) (map_of ps k)"
  using assms
proof (induction ps)
  case (Cons x ps)
  obtain i p where x: "x = (i, p)" by (cases x)
  have "map_of ps k = None" if "i = k" using that Cons.prems x by (simp add: map_of_eq_None_iff)
  with Cons x show ?case by (auto simp: find_append split: option.splits)
qed simp

lemma queue_position_recorded:
  assumes "distinct (map fst ps)"
  shows "queue_position (record_queue_positions ps now fl) i =
     (case map_of ps i of Some p \<Rightarrow> Some p | None \<Rightarrow> queue_position fl i)"
  by (simp add: queue_position_def record_queue_positions_def find_append find_rev_map_of [OF assms] split: option.splits)

lemma promoted_at_recorded [simp]: "promoted_at (record_queue_positions ps now fl) i = promoted_at fl i"
  by (simp add: promoted_at_def find_row_def record_queue_positions_def)

interpretation ready_positions: position_table queue_position "\<lambda>ps. record_queue_positions ps now" "\<lambda>_. UNIV" for now
  by unfold_locales (rule queue_position_recorded)

interpretation backlog_positions:
  position_table queue_position "\<lambda>ps. record_backlog_positions ps now" "\<lambda>fl. {i. promoted_at fl i = None}" for now
proof
  fix ps :: "(ident \<times> double) list" and fl i
  assume "distinct (map fst ps)" and sub: "fst ` set ps \<subseteq> {i. promoted_at fl i = None}"
  moreover have "filter (\<lambda>(i, _). promoted_at fl i = None) ps = ps" using sub by (auto simp: filter_id_conv)
  ultimately show "queue_position (record_backlog_positions ps now fl) i =
      (case map_of ps i of Some p \<Rightarrow> Some p | None \<Rightarrow> queue_position fl i)"
    by (simp add: record_backlog_positions_def queue_position_recorded)
qed

text \<open>What one ranking write may name, and what it leaves alone.\<close>

definition rankable :: "queue_list \<Rightarrow> fleet \<Rightarrow> ident set" where
  "rankable l fl = (case l of ReadyList \<Rightarrow> UNIV | NotReadyList \<Rightarrow> {i. promoted_at fl i = None})"

interpretation list_positions: position_table queue_position "\<lambda>ps. write_positions l ps now" "rankable l" for l now
  using ready_positions.read_write backlog_positions.read_write
  by unfold_locales (cases l; simp add: write_positions_def rankable_def)

lemma write_positions_rows [simp]: "fl_rows (write_positions l ps now fl) = fl_rows fl"
  by (simp add: write_positions_def record_backlog_positions_def record_queue_positions_def split: queue_list.splits)

lemma rows_determine:
  assumes "fl_rows fl' = fl_rows fl"
  shows "load_live_statuses ex fl' = load_live_statuses ex fl" and "queue_candidates l fl' st = queue_candidates l fl st"
    and "fallback_position fl' = fallback_position fl" and "promoted_at fl' = promoted_at fl"
proof -
  show p: "promoted_at fl' = promoted_at fl" using assms by (simp add: promoted_at_def find_row_def fun_eq_iff)
  show "load_live_statuses ex fl' = load_live_statuses ex fl"
    using assms by (simp add: load_live_statuses_def maybe_live_statuses_def)
  show "queue_candidates l fl' st = queue_candidates l fl st"
    using assms by (simp add: queue_candidates_def listed_with_status_def get_many_def split: queue_list.splits)
  show "fallback_position fl' = fallback_position fl" by (simp add: fallback_position_def p fun_eq_iff)
qed

lemma position_unnamed:
  assumes "i \<notin> fst ` set ps"
  shows "queue_position (write_positions l ps now fl) i = queue_position fl i"
proof -
  have q: "queue_position (record_queue_positions qs now fl) i = queue_position fl i" if "i \<notin> fst ` set qs" for qs
  proof -
    have "List.find (\<lambda>(k, _). k = i) (rev (map (\<lambda>(i, p). (i, p, now)) qs)) = None"
      using that by (force simp: find_None_iff)
    then show ?thesis by (simp add: queue_position_def record_queue_positions_def find_append)
  qed
  have "i \<notin> fst ` set (filter (\<lambda>(i, _). promoted_at fl i = None) ps)" using assms by auto
  then show ?thesis using assms q by (simp add: write_positions_def record_backlog_positions_def split: queue_list.splits)
qed

section \<open>The members of a list\<close>

lemma get_many_ids: "map ch_chunk_id (get_many fl ids) =
    map fr_chunk_id (filter (\<lambda>r. fr_chunk_id r \<in> set ids \<and> \<not> ck_ephemeral (fr_rows r)) (fl_rows fl))"
  by (simp add: get_many_def comp_def chunk_of_def)

lemma candidates_distinct: "distinct (map fr_chunk_id (fl_rows fl)) \<Longrightarrow> distinct (map ch_chunk_id (queue_candidates l fl st))"
  by (simp add: queue_candidates_def listed_with_status_def get_many_ids distinct_map_filter)

lemma candidates_length: "length (queue_candidates l fl st) \<le> length (fl_rows fl)"
  by (simp add: queue_candidates_def listed_with_status_def get_many_def)

lemma live_status_row:
  "(i, st) \<in> set (load_live_statuses ex fl) \<Longrightarrow>
   \<exists>r\<in>set (fl_rows fl). fr_chunk_id r = i \<and> row_status ex r = st \<and> \<not> ck_ephemeral (fr_rows r) \<and> st \<notin> TERMINAL_STATUSES"
  by (auto simp: load_live_statuses_def maybe_live_statuses_def)

lemma candidate_row:
  assumes ids: "distinct (map fr_chunk_id (fl_rows fl))" and c: "c \<in> set (queue_candidates l fl (load_live_statuses ex fl))"
  shows "\<exists>r\<in>set (fl_rows fl). c = chunk_of r
     \<and> row_status ex r = (case l of ReadyList \<Rightarrow> Ready | NotReadyList \<Rightarrow> NotReady)"
proof -
  let ?st = "case l of ReadyList \<Rightarrow> Ready | NotReadyList \<Rightarrow> NotReady"
  obtain r where r: "r \<in> set (fl_rows fl)" "c = chunk_of r"
    and "fr_chunk_id r \<in> set (map fst (filter (\<lambda>(_, s). s = ?st) (load_live_statuses ex fl)))"
    using c unfolding queue_candidates_def listed_with_status_def get_many_def by auto
  then have "(fr_chunk_id r, ?st) \<in> set (load_live_statuses ex fl)" by auto
  from live_status_row [OF this] obtain r' where r': "r' \<in> set (fl_rows fl)" "fr_chunk_id r' = fr_chunk_id r"
    "row_status ex r' = ?st" by blast
  with r(1) ids have "r' = r" by (auto simp: distinct_map dest: inj_onD)
  with r r' show ?thesis by blast
qed

lemma find_row_distinct:
  "distinct (map fr_chunk_id (fl_rows fl)) \<Longrightarrow> r \<in> set (fl_rows fl) \<Longrightarrow> find_row fl (fr_chunk_id r) = Some r"
  unfolding find_row_def by (rule find_key_distinct)

lemma not_ready_not_promoted: "status f = NotReady \<Longrightarrow> \<not> cf_promoted f"
  by (auto simp: status_def status_with_def split: if_splits)

lemma candidates_rankable:
  assumes "distinct (map fr_chunk_id (fl_rows fl))"
  shows "ch_chunk_id ` set (queue_candidates l fl (load_live_statuses ex fl)) \<subseteq> rankable l fl"
proof (cases l)
  case NotReadyList
  have "promoted_at fl (ch_chunk_id c) = None" if c: "c \<in> set (queue_candidates l fl (load_live_statuses ex fl))" for c
  proof -
    from candidate_row [OF assms c] obtain r where r: "r \<in> set (fl_rows fl)" "c = chunk_of r" "row_status ex r = NotReady"
      using NotReadyList by auto
    from not_ready_not_promoted [OF r(3) [unfolded row_status_def]] have "\<not> currently_promoted (fr_rows r)"
      by (simp add: load_facts_def)
    with find_row_distinct [OF assms r(1)] r(2) show ?thesis by (simp add: promoted_at_def chunk_of_def)
  qed
  then show ?thesis using NotReadyList by (auto simp: rankable_def)
qed (simp add: rankable_def)

lemma lists_disjoint:
  assumes "distinct (map fr_chunk_id (fl_rows fl))" and "c \<in> set (queue_candidates l fl (load_live_statuses ex fl))"
    and "d \<in> set (queue_candidates (other_list l) fl (load_live_statuses ex fl))"
  shows "ch_chunk_id c \<noteq> ch_chunk_id d"
proof
  assume eq: "ch_chunk_id c = ch_chunk_id d"
  from candidate_row [OF assms(1,2)] candidate_row [OF assms(1,3)] obtain r r' where
    r: "r \<in> set (fl_rows fl)" "c = chunk_of r" "row_status ex r = (case l of ReadyList \<Rightarrow> Ready | NotReadyList \<Rightarrow> NotReady)"
    and r': "r' \<in> set (fl_rows fl)" "d = chunk_of r'"
      "row_status ex r' = (case other_list l of ReadyList \<Rightarrow> Ready | NotReadyList \<Rightarrow> NotReady)" by blast
  from eq r(1,2) r'(1,2) assms(1) have "r = r'" by (auto simp: distinct_map chunk_of_def dest: inj_onD)
  with r(3) r'(3) show False by (cases l) auto
qed

text \<open>A write that names members of one list leaves the order of the other.\<close>

lemma other_order_kept:
  assumes ids: "distinct (map fr_chunk_id (fl_rows fl))"
    and ps: "fst ` set ps \<subseteq> ch_chunk_id ` set (queue_candidates l fl (load_live_statuses ex fl))"
  shows "queue_ordered (other_list l) (write_positions l ps now fl) (load_live_statuses ex fl) =
    queue_ordered (other_list l) fl (load_live_statuses ex fl)"
proof -
  let ?fl' = "write_positions l ps now fl" and ?m = "queue_candidates (other_list l) fl (load_live_statuses ex fl)"
  have "position_key (queue_position ?fl') (fallback_position fl) d = position_key (queue_position fl) (fallback_position fl) d"
    if "d \<in> set ?m" for d
  proof -
    have "ch_chunk_id d \<notin> fst ` set ps" using lists_disjoint [OF ids _ that] ps by auto
    then show ?thesis by (simp add: position_key_def position_of_def position_unnamed)
  qed
  then have "sort_key (position_key (queue_position ?fl') (fallback_position fl)) ?m =
      sort_key (position_key (queue_position fl) (fallback_position fl)) ?m" by (rule sort_key_cong)
  then show ?thesis
    unfolding queue_ordered_def Let_def ranked_read rows_determine(2,3) [OF write_positions_rows] .
qed

section \<open>Replacing an order\<close>

lemma find_chunk_Some: "find_chunk i cs = Some c \<Longrightarrow> c \<in> set cs \<and> ch_chunk_id c = i"
  unfolding find_chunk_def by (rule find_SomeD)

lemma replacement_order_Inr:
  assumes r: "replacement_order l current named statuses = Inr ys" and d: "distinct (map ch_chunk_id current)"
  shows "mset ys = mset current" and "map ch_chunk_id (take (length named) ys) = map ch_chunk_id named"
    and "drop (length named) ys = filter (\<lambda>c. ch_chunk_id c \<notin> ch_chunk_id ` set named) current"
proof -
  let ?ids = "map ch_chunk_id named"
  let ?front = "List.map_filter (\<lambda>i. find_chunk i current) ?ids"
  let ?rest = "filter (\<lambda>c. ch_chunk_id c \<notin> ch_chunk_id ` set named) current"
  from r have ids: "distinct ?ids" and found: "\<forall>i\<in>set ?ids. find_chunk i current \<noteq> None" and ys: "ys = ?front @ ?rest"
    by (auto simp: replacement_order_def Let_def find_None_iff split: if_splits option.splits)
  have all: "map ch_chunk_id (List.map_filter (\<lambda>i. find_chunk i current) is) = is"
    if "\<forall>i\<in>set is. find_chunk i current \<noteq> None" for "is"
    using that by (induction "is") (auto simp: List.map_filter_simps dest: find_chunk_Some)
  from all [OF found] have front: "map ch_chunk_id ?front = ?ids" .
  then have len: "length ?front = length named" by (metis length_map)
  show "map ch_chunk_id (take (length named) ys) = ?ids" using len front by (simp add: ys)
  show "drop (length named) ys = ?rest" using len by (simp add: ys)
  have "set (List.map_filter (\<lambda>i. find_chunk i current) is) \<subseteq> set current" for "is"
    by (induction "is") (auto simp: List.map_filter_simps split: option.splits dest: find_chunk_Some)
  then have sub: "set ?front \<subseteq> set current" .
  have df: "distinct ?front" using front ids by (metis distinct_map)
  have dc: "distinct current" using d by (simp add: distinct_map)
  have inj: "inj_on ch_chunk_id (set current)" using d by (simp add: distinct_map)
  have fr: "ch_chunk_id ` set ?front = ch_chunk_id ` set named" using front by (metis list.set_map)
  have "set ys = set current"
  proof
    show "set ys \<subseteq> set current" using sub by (auto simp: ys)
    show "set current \<subseteq> set ys"
    proof
      fix c assume c: "c \<in> set current"
      show "c \<in> set ys"
      proof (cases "ch_chunk_id c \<in> ch_chunk_id ` set named")
        case True
        then obtain x where "x \<in> set ?front" "ch_chunk_id x = ch_chunk_id c" unfolding fr [symmetric] by auto
        with sub c inj show ?thesis by (auto simp: ys dest: inj_onD)
      qed (use c in \<open>simp add: ys\<close>)
    qed
  qed
  moreover have "distinct ys" using df dc fr by (auto simp: ys)
  ultimately show "mset ys = mset current" using dc set_eq_iff_mset_eq_distinct by blast
qed

lemma ordered_mset: "mset (queue_ordered l fl st) = mset (queue_candidates l fl st)"
  by (simp add: queue_ordered_def Let_def ranked_def)

lemma ordered_ids:
  assumes "distinct (map fr_chunk_id (fl_rows fl))"
  shows "distinct (map ch_chunk_id (queue_ordered l fl st))"
  using candidates_distinct [OF assms] ordered_mset [of l fl st]
  by (metis mset_map mset_eq_imp_distinct_iff)

text \<open>C19: Replacing a list's order writes positions from which the next read derives exactly the order
  answered: the named chunks first as named, then the unnamed members in their current order,
  nobody lost, and the other list's order untouched.\<close>

theorem reorder_is_read_back:
  assumes ids: "distinct (map fr_chunk_id (fl_rows fl))" and n: "length (fl_rows fl) \<le> 2 ^ 53"
    and r: "reorder ex l named now fl = Inr (ordered, fl')"
  shows "queue_ordered l fl' (load_live_statuses ex fl') = ordered
     \<and> queue_ordered (other_list l) fl' (load_live_statuses ex fl') = queue_ordered (other_list l) fl (load_live_statuses ex fl)
     \<and> mset ordered = mset (queue_ordered l fl (load_live_statuses ex fl))
     \<and> map ch_chunk_id (take (length named) ordered) = map ch_chunk_id named
     \<and> drop (length named) ordered =
         filter (\<lambda>c. ch_chunk_id c \<notin> ch_chunk_id ` set named) (queue_ordered l fl (load_live_statuses ex fl))"
proof -
  let ?st = "load_live_statuses ex fl"
  let ?cur = "queue_ordered l fl ?st" and ?members = "queue_candidates l fl ?st"
  let ?ps = "map (\<lambda>(i, c). (ch_chunk_id c, double_of_int (int i))) (List.enumerate 0 ordered)"
  from r have rep: "replacement_order l ?cur named ?st = Inr ordered" and fl': "fl' = write_positions l ?ps now fl"
    by (auto simp: reorder_def Let_def split: sum.splits)
  note rr = replacement_order_Inr [OF rep ordered_ids [OF ids]]
  have rows: "fl_rows fl' = fl_rows fl" by (simp add: fl')
  have ms: "mset ordered = mset ?members" using rr(1) by (simp add: ordered_mset)
  have dm: "distinct (map ch_chunk_id ordered)"
    using candidates_distinct [OF ids] ms by (metis mset_map mset_eq_imp_distinct_iff)
  have sm: "set ordered = set ?members" using ms by (rule mset_eq_setD)
  have fst_ps: "fst ` set ?ps = ch_chunk_id ` set ordered"
  proof -
    have "map fst ?ps = map ch_chunk_id ordered"
      by (simp add: comp_def case_prod_unfold flip: map_map [of ch_chunk_id snd, unfolded comp_def])
    from fst_image [OF this] show ?thesis by simp
  qed
  have "length ordered \<le> length (fl_rows fl)" using candidates_length [of l fl ?st] ms by (metis size_mset)
  then have len: "length ordered \<le> 2 ^ 53" using n by linarith
  have "ch_chunk_id ` set ordered \<subseteq> rankable l fl" using candidates_rankable [OF ids, of l ex] sm by simp
  from list_positions.replaced_order [OF dm this len, where now = now]
  have "sorted (map (position_key (queue_position fl') (fallback_position fl)) ordered)" unfolding fl' .
  then have "sort_key (position_key (queue_position fl') (fallback_position fl)) ?members = ordered"
    using ranked_eqI [OF candidates_distinct [OF ids] ms] by blast
  then have "queue_ordered l fl' ?st = ordered"
    unfolding queue_ordered_def Let_def ranked_read rows_determine(2,3) [OF rows] .
  moreover have "queue_ordered (other_list l) fl' ?st = queue_ordered (other_list l) fl ?st"
    unfolding fl' by (rule other_order_kept [OF ids]) (simp only: fst_ps sm order_refl)
  ultimately show ?thesis using rr rows_determine(1) [OF rows] by simp
qed

section \<open>Moving one chunk\<close>

lemma index_of_anchor:
  assumes "a \<in> set xs"
  shows "\<exists>i. index_of xs (Some a) = Some i \<and> i < length xs \<and> ch_chunk_id (xs ! i) = ch_chunk_id a"
proof -
  let ?i = "length (takeWhile (\<lambda>c. ch_chunk_id c \<noteq> ch_chunk_id a) xs)"
  have lt: "?i < length xs"
    using assms by (metis (mono_tags, lifting) length_takeWhile_le nat_less_le takeWhile_eq_all_conv takeWhile_eq_take take_all_iff order_refl)
  from nth_length_takeWhile [OF lt] lt show ?thesis by (simp add: index_of_def)
qed

text \<open>Where a landing puts a chunk, by the anchor it was given.\<close>

definition insertion_index :: "chunk list \<Rightarrow> chunk option \<Rightarrow> nat" where
  "insertion_index others anchor = (case index_of others anchor of None \<Rightarrow> 0 | Some i \<Rightarrow> Suc i)"

lemma landing_sorted:
  assumes members: "\<And>c. c \<in> set others \<Longrightarrow> effective_position rk c = position_of q fb c"
    and range: "\<And>c. c \<in> set others \<Longrightarrow> in_range (position_of q fb c)"
    and sorted: "sorted (map (position_key q fb) others)" and n: "length others \<le> 2 ^ 52"
    and a: "\<And>a. anchor = Some a \<Longrightarrow> a \<in> set others"
  shows "\<exists>sl. land_chunk_after rk others anchor =
        Inr \<lparr>ql_position = sl_position sl, ql_renormalized = zip (map ch_chunk_id others) (sl_renumbered sl)\<rparr>
     \<and> (sl_renumbered sl = [] \<or> length (sl_renumbered sl) = length others \<and> sorted_wrt (<) (sl_renumbered sl))
     \<and> (\<forall>j < insertion_index others anchor. landing_positions (map (position_of q fb) others) sl ! j < sl_position sl)
     \<and> (\<forall>j. insertion_index others anchor \<le> j \<longrightarrow> j < length others \<longrightarrow>
           sl_position sl < landing_positions (map (position_of q fb) others) sl ! j)
     \<and> insertion_index others anchor \<le> length others
     \<and> (sl_renumbered sl \<noteq> [] \<longleftrightarrow> (\<exists>i. index_of others anchor = Some i \<and> Suc i < length others
           \<and> \<not> (\<exists>c. representable c \<and> position_of q fb (others ! i) < c \<and> c < position_of q fb (others ! Suc i))))"
proof -
  let ?ps = "map (position_of q fb) others"
  have eff: "map (effective_position rk) others = ?ps" using members by simp
  have r: "\<forall>p\<in>set ?ps. in_range p" using range by simp
  have so: "sorted ?ps"
    using sorted by (auto simp: sorted_iff_nth_mono_less position_key_def less_eq_prod_def less_prod_def)
      (metis less_imp_le order_refl)
  show ?thesis
  proof (cases anchor)
    case None
    then have ix: "index_of others anchor = None" by (simp add: index_of_def)
    from land_at_top [OF r so] obtain p where p: "land_after ?ps None 0 = Some \<lparr>sl_position = p, sl_renumbered = []\<rparr>"
      "\<forall>x\<in>set ?ps. p < x" by blast
    let ?sl = "\<lparr>sl_position = p, sl_renumbered = []\<rparr>"
    have "land_chunk_after rk others anchor =
        Inr \<lparr>ql_position = sl_position ?sl, ql_renormalized = zip (map ch_chunk_id others) (sl_renumbered ?sl)\<rparr>"
      by (simp add: land_chunk_after_def eff ix p)
    moreover have "p < ?ps ! j" if "j < length others" for j using p(2) that by simp
    ultimately show ?thesis
      by (intro exI [of _ ?sl]) (simp add: insertion_index_def ix landing_positions_def)
  next
    case (Some a')
    from index_of_anchor [OF a [OF this]] obtain i where ix: "index_of others anchor = Some i" "i < length others"
      using Some by auto
    have len: "length ?ps \<le> 2 ^ 52" "i < length ?ps" using n ix by simp_all
    from land_after_anchor [OF r so len] obtain sl where sl: "land_after ?ps (Some i) 0 = Some sl"
      and L: "length (landing_positions ?ps sl) = length ?ps" "sorted (landing_positions ?ps sl)"
      and lo: "landing_positions ?ps sl ! i < sl_position sl"
      and hi: "Suc i < length ?ps \<Longrightarrow> sl_position sl < landing_positions ?ps sl ! Suc i"
      and re: "sl_renumbered sl = [] \<or> sl_renumbered sl = renumbered (length ?ps) 0"
      and iff: "sl_renumbered sl \<noteq> [] \<longleftrightarrow>
          Suc i < length ?ps \<and> \<not> (\<exists>c. representable c \<and> ?ps ! i < c \<and> c < ?ps ! Suc i)" by blast
    have inc: "sorted_wrt (<) (renumbered (length others) 0)"
    proof -
      have len: "length (renumbered (length others) 0) = length others" by (simp add: renumbered_def)
      have "length others \<le> 2 ^ 53" using n by simp
      from renumbered_sorted [OF this] show ?thesis unfolding sorted_wrt_iff_nth_less len by blast
    qed
    have r2: "sl_renumbered sl = [] \<or> length (sl_renumbered sl) = length others \<and> sorted_wrt (<) (sl_renumbered sl)"
      using re inc by (auto simp: renumbered_def)
    have below: "landing_positions ?ps sl ! j < sl_position sl" if "j < Suc i" for j
      using lo sorted_nth_mono [OF L(2), of j i] that L(1) ix(2) by simp
    have above: "sl_position sl < landing_positions ?ps sl ! j" if "Suc i \<le> j" "j < length others" for j
      using hi sorted_nth_mono [OF L(2), of "Suc i" j] that L(1) by simp
    have iff': "sl_renumbered sl \<noteq> [] \<longleftrightarrow> Suc i < length others
           \<and> \<not> (\<exists>c. representable c \<and> position_of q fb (others ! i) < c \<and> c < position_of q fb (others ! Suc i))"
      using iff ix(2) by (cases "Suc i < length others") simp_all
    have "land_chunk_after rk others anchor =
        Inr \<lparr>ql_position = sl_position sl, ql_renormalized = zip (map ch_chunk_id others) (sl_renumbered sl)\<rparr>"
      by (simp add: land_chunk_after_def eff ix sl)
    then show ?thesis using r2 below above ix iff'
      by (intro exI [of _ sl]) (simp add: insertion_index_def)
  qed
qed

lemma mset_apart:
  assumes "distinct (map ch_chunk_id xs)" and "m \<in> set xs"
  shows "mset xs = add_mset m (mset (filter (\<lambda>x. ch_chunk_id x \<noteq> ch_chunk_id m) xs))"
  using assms
proof (induction xs)
  case (Cons x xs)
  show ?case
  proof (cases "m = x")
    case True
    with Cons.prems(1) have "filter (\<lambda>y. ch_chunk_id y \<noteq> ch_chunk_id m) xs = xs"
      by (auto simp: filter_id_conv) (metis imageI)
    with True show ?thesis by simp
  next
    case False
    with Cons.prems have "m \<in> set xs" "ch_chunk_id x \<noteq> ch_chunk_id m" by auto
    with Cons show ?thesis by simp
  qed
qed simp

definition rank_bounded :: "queue_list \<Rightarrow> fleet \<Rightarrow> (ident \<times> chunk_status) list \<Rightarrow> bool" where
  "rank_bounded l fl st \<longleftrightarrow>
     (let members = queue_candidates l fl st
      in \<forall>c\<in>set members. in_range (effective_position (read_ranking fl members) c))"

lemma resolve_move_Inr:
  assumes "resolve_move l current c after st = Inr (moving, anchor)"
  shows "moving \<in> set current" and "ch_chunk_id moving = ch_chunk_id c"
    and "map_option ch_chunk_id anchor = map_option ch_chunk_id after"
    and "anchor = Some a \<Longrightarrow> a \<in> set current \<and> ch_chunk_id a \<noteq> ch_chunk_id c"
proof -
  from assms have f: "find_chunk (ch_chunk_id c) current = Some moving"
    by (auto simp: resolve_move_def split: if_splits option.splits)
  from find_chunk_Some [OF this] show "moving \<in> set current" "ch_chunk_id moving = ch_chunk_id c" by blast+
  have "(case after of None \<Rightarrow> anchor = None
      | Some x \<Rightarrow> ch_chunk_id x \<noteq> ch_chunk_id c \<and> find_chunk (ch_chunk_id x) current = anchor \<and> anchor \<noteq> None)"
    using assms by (cases after) (auto simp: resolve_move_def f split: if_splits option.splits dest: sym [of "Some _"])
  then show "map_option ch_chunk_id anchor = map_option ch_chunk_id after"
    and "anchor = Some a \<Longrightarrow> a \<in> set current \<and> ch_chunk_id a \<noteq> ch_chunk_id c"
    by (auto split: option.splits dest: find_chunk_Some)
qed

text \<open>A reposition, taken apart.\<close>

lemma reposition_steps:
  fixes fl l ex
  defines "st \<equiv> load_live_statuses ex fl"
  assumes ids: "distinct (map fr_chunk_id (fl_rows fl))" and n: "length (fl_rows fl) \<le> 2 ^ 52"
    and range: "rank_bounded l fl st"
    and move: "resolve_move l (queue_candidates l fl st) c after st = Inr (moving, anchor)"
  obtains others and sl :: slot and k where
      "others = filter (\<lambda>x. ch_chunk_id x \<noteq> ch_chunk_id c) (queue_ordered l fl st)"
    and "k = insertion_index others anchor" and "k \<le> length others"
    and "reposition ex l c after now fl = Inr (take k others @ moving # drop k others,
        write_positions l (zip (map ch_chunk_id others) (sl_renumbered sl) @ [(ch_chunk_id c, sl_position sl)]) now fl)"
    and "queue_ordered l
        (write_positions l (zip (map ch_chunk_id others) (sl_renumbered sl) @ [(ch_chunk_id c, sl_position sl)]) now fl) st
          = take k others @ moving # drop k others"
    and "fst ` set (zip (map ch_chunk_id others) (sl_renumbered sl) @ [(ch_chunk_id c, sl_position sl)])
        \<subseteq> ch_chunk_id ` set (queue_candidates l fl st)"
    and "sl_renumbered sl \<noteq> [] \<longleftrightarrow> (\<exists>i. index_of others anchor = Some i \<and> Suc i < length others
           \<and> \<not> (\<exists>x. representable x
             \<and> effective_position (read_ranking fl (queue_candidates l fl st)) (others ! i) < x
             \<and> x < effective_position (read_ranking fl (queue_candidates l fl st)) (others ! Suc i)))"
proof -
  let ?members = "queue_candidates l fl st" and ?q = "queue_position fl" and ?fb = "fallback_position fl"
  let ?rk = "read_ranking fl ?members" and ?P = "\<lambda>x. ch_chunk_id x \<noteq> ch_chunk_id c"
  note mv = resolve_move_Inr [OF move]
  define others where "others = filter ?P (queue_ordered l fl st)"
  have others: "ranked ?rk (filter (\<lambda>x. ch_chunk_id x \<noteq> ch_chunk_id moving) ?members) = others"
    by (simp add: others_def queue_ordered_def Let_def ranked_def filter_sort mv(2))
  have so: "set others = {x \<in> set ?members. ?P x}" by (auto simp: others_def queue_ordered_def Let_def ranked_def)
  have dm: "distinct (map ch_chunk_id ?members)" by (rule candidates_distinct [OF ids])
  have key: "rank_key ?rk x = position_key ?q ?fb x" "effective_position ?rk x = position_of ?q ?fb x"
    if "x \<in> set others" for x using that so rank_key_read by simp_all
  have sorted: "sorted (map (position_key ?q ?fb) others)"
  proof -
    have "sorted (map (rank_key ?rk) others)" unfolding others_def queue_ordered_def Let_def ranked_def filter_sort by simp
    moreover have "map (rank_key ?rk) others = map (position_key ?q ?fb) others" using key(1) by simp
    ultimately show ?thesis by (simp only:)
  qed
  have rng: "in_range (position_of ?q ?fb x)" if "x \<in> set others" for x
    using range so key(2) [OF that] that by (auto simp: rank_bounded_def Let_def)
  have "length others \<le> length ?members"
    by (simp add: others_def queue_ordered_def Let_def ranked_def filter_sort)
  then have len: "length others \<le> 2 ^ 52" using candidates_length [of l fl st] n by linarith
  have anchor: "a \<in> set others" if "anchor = Some a" for a using mv(4) [OF that] so by simp
  define k where "k = insertion_index others anchor"
  from landing_sorted [OF key(2) rng sorted len anchor] obtain sl where
    land: "land_chunk_after ?rk others anchor =
        Inr \<lparr>ql_position = sl_position sl, ql_renormalized = zip (map ch_chunk_id others) (sl_renumbered sl)\<rparr>"
    and r: "sl_renumbered sl = [] \<or> length (sl_renumbered sl) = length others \<and> sorted_wrt (<) (sl_renumbered sl)"
    and lo: "\<And>j. j < k \<Longrightarrow> landing_positions (map (position_of ?q ?fb) others) sl ! j < sl_position sl"
    and hi: "\<And>j. k \<le> j \<Longrightarrow> j < length others \<Longrightarrow> sl_position sl < landing_positions (map (position_of ?q ?fb) others) sl ! j"
    and kle: "k \<le> length others"
    and iff: "sl_renumbered sl \<noteq> [] \<longleftrightarrow> (\<exists>i. index_of others anchor = Some i \<and> Suc i < length others
           \<and> \<not> (\<exists>c. representable c \<and> position_of ?q ?fb (others ! i) < c \<and> c < position_of ?q ?fb (others ! Suc i)))"
    unfolding k_def by blast
  let ?ps = "zip (map ch_chunk_id others) (sl_renumbered sl) @ [(ch_chunk_id c, sl_position sl)]"
  let ?fl' = "write_positions l ?ps now fl" and ?new = "take k others @ moving # drop k others"
  have idm: "distinct (map ch_chunk_id (moving # others))"
    using ordered_ids [OF ids, of l st] mv(2) by (auto simp: others_def distinct_map_filter)
  have w: "ch_chunk_id ` set (moving # others) \<subseteq> rankable l fl"
    using candidates_rankable [OF ids, of l ex] mv(1) so by (auto simp: st_def)
  from list_positions.moved_order [OF idm w sorted r kle lo hi, where now = now]
  have "sorted (map (position_key (queue_position ?fl') ?fb) ?new)" unfolding mv(2) .
  moreover have "mset ?new = mset ?members"
  proof -
    have "mset ?new = add_mset moving (mset others)" by (metis append_take_drop_id mset.simps(2) mset_append union_mset_add_mset_right)
    also have "mset others = mset (filter (\<lambda>x. ch_chunk_id x \<noteq> ch_chunk_id moving) ?members)"
      unfolding others [symmetric] by (simp add: ranked_def)
    also have "add_mset moving \<dots> = mset ?members" by (rule mset_apart [OF dm mv(1), symmetric])
    finally show ?thesis .
  qed
  ultimately have "sort_key (position_key (queue_position ?fl') ?fb) ?members = ?new"
    using ranked_eqI [OF dm] by blast
  then have bk: "queue_ordered l ?fl' st = ?new"
    unfolding queue_ordered_def Let_def ranked_read rows_determine(2,3) [OF write_positions_rows] .
  have rep: "reposition ex l c after now fl = Inr (?new, ?fl')"
    unfolding reposition_def Let_def st_def [symmetric] move sum.case prod.case others land
    by (simp add: k_def insertion_index_def mv(2) split: option.split)
  have sub: "fst ` set ?ps \<subseteq> ch_chunk_id ` set ?members"
    using so mv(1) imageI [OF mv(1), of ch_chunk_id] by (auto simp: mv(2) dest!: set_zip_leftD)
  have iff': "sl_renumbered sl \<noteq> [] \<longleftrightarrow> (\<exists>i. index_of others anchor = Some i \<and> Suc i < length others
           \<and> \<not> (\<exists>x. representable x \<and> effective_position ?rk (others ! i) < x \<and> x < effective_position ?rk (others ! Suc i)))"
    unfolding iff by (intro ex_cong1) (auto simp: key(2))
  show thesis by (rule that [OF others_def k_def kle rep bk sub iff'])
qed

lemma reposition_refused:
  "reposition ex l c after now fl = Inl err \<Longrightarrow> err \<noteq> SlotAssertion \<Longrightarrow>
     resolve_move l (queue_candidates l fl (load_live_statuses ex fl)) c after (load_live_statuses ex fl) = Inl err"
  by (auto simp: reposition_def Let_def land_chunk_after_def split: sum.splits option.splits)

lemma resolve_move_error: "resolve_move l current c after st = Inl err \<Longrightarrow> err \<noteq> SlotAssertion"
  by (auto simp: resolve_move_def NotInList_of_def split: if_splits option.splits)

text \<open>C17: Moving one chunk of a list never fails on floating-point precision, and the next read derives
  exactly the order it answered: every other member keeps its relative order, the chunk stands
  right after its anchor or at the top, and the other list's order is untouched (up to 2^52
  chunks, positions within 2^53).\<close>

theorem reposition_is_read_back:
  assumes ids: "distinct (map fr_chunk_id (fl_rows fl))" and n: "length (fl_rows fl) \<le> 2 ^ 52"
    and range: "rank_bounded l fl (load_live_statuses ex fl)"
  shows "reposition ex l c after now fl \<noteq> Inl SlotAssertion
     \<and> (\<forall>ordered fl'. reposition ex l c after now fl = Inr (ordered, fl') \<longrightarrow>
          queue_ordered l fl' (load_live_statuses ex fl') = ordered
        \<and> queue_ordered (other_list l) fl' (load_live_statuses ex fl')
            = queue_ordered (other_list l) fl (load_live_statuses ex fl)
        \<and> filter (\<lambda>x. ch_chunk_id x \<noteq> ch_chunk_id c) ordered
            = filter (\<lambda>x. ch_chunk_id x \<noteq> ch_chunk_id c) (queue_ordered l fl (load_live_statuses ex fl))
        \<and> (\<exists>xs m ys. ordered = xs @ m # ys \<and> ch_chunk_id m = ch_chunk_id c
            \<and> (case after of None \<Rightarrow> xs = [] | Some a \<Rightarrow> xs \<noteq> [] \<and> ch_chunk_id (last xs) = ch_chunk_id a)))"
proof -
  let ?st = "load_live_statuses ex fl"
  let ?members = "queue_candidates l fl ?st" and ?P = "\<lambda>x. ch_chunk_id x \<noteq> ch_chunk_id c"
  show ?thesis
  proof (cases "resolve_move l ?members c after ?st")
    case (Inl err)
    then have "reposition ex l c after now fl = Inl err" by (simp add: reposition_def Let_def)
    with resolve_move_error [OF Inl] show ?thesis by simp
  next
    case (Inr mv)
    obtain moving anchor where mv: "resolve_move l ?members c after ?st = Inr (moving, anchor)"
      using Inr by (cases mv) blast
    note rm = resolve_move_Inr [OF mv]
    from reposition_steps [OF ids n range mv, of now] obtain others and sl :: slot and k where
      others: "others = filter ?P (queue_ordered l fl ?st)" and k: "k = insertion_index others anchor" "k \<le> length others"
      and rep: "reposition ex l c after now fl = Inr (take k others @ moving # drop k others, write_positions l
          (zip (map ch_chunk_id others) (sl_renumbered sl) @ [(ch_chunk_id c, sl_position sl)]) now fl)"
      and bk: "queue_ordered l (write_positions l
          (zip (map ch_chunk_id others) (sl_renumbered sl) @ [(ch_chunk_id c, sl_position sl)]) now fl) ?st
          = take k others @ moving # drop k others"
      and sub: "fst ` set (zip (map ch_chunk_id others) (sl_renumbered sl) @ [(ch_chunk_id c, sl_position sl)])
          \<subseteq> ch_chunk_id ` set ?members" .
    let ?fl' = "write_positions l (zip (map ch_chunk_id others) (sl_renumbered sl) @ [(ch_chunk_id c, sl_position sl)]) now fl"
    have keep: "filter ?P (take k others @ moving # drop k others) = others"
    proof -
      have "filter ?P (take k others) @ filter ?P (drop k others) = filter ?P others"
        by (simp flip: filter_append)
      then show ?thesis using rm(2) by (simp add: others)
    qed
    have place: "case after of None \<Rightarrow> take k others = []
        | Some a \<Rightarrow> take k others \<noteq> [] \<and> ch_chunk_id (last (take k others)) = ch_chunk_id a"
    proof (cases after)
      case None
      then have "anchor = None" using rm(3) by simp
      then show ?thesis using None k(1) by (simp add: insertion_index_def index_of_def)
    next
      case (Some a)
      then obtain a' where a': "anchor = Some a'" "ch_chunk_id a' = ch_chunk_id a" using rm(3) by auto
      with rm(4) have "a' \<in> set others" by (auto simp: others queue_ordered_def Let_def ranked_def)
      from index_of_anchor [OF this] obtain i where i: "index_of others anchor = Some i" "i < length others"
        "ch_chunk_id (others ! i) = ch_chunk_id a" using a' by auto
      then have "take k others = take i others @ [others ! i]"
        using k(1) by (simp add: insertion_index_def take_Suc_conv_app_nth)
      then show ?thesis using i(3) Some by simp
    qed
    have "queue_ordered (other_list l) ?fl' ?st = queue_ordered (other_list l) fl ?st"
      by (rule other_order_kept [OF ids sub])
    then show ?thesis unfolding rep using bk keep place rm(2) rows_determine(1) [of ?fl' fl ex]
      by (auto simp: others [symmetric])
  qed
qed

text \<open>C20: A move appends one position fact, the moved chunk's, unless no double is left strictly between
  the two members it lands between (up to 2^52 chunks, positions within 2^53).\<close>

theorem renumbered_only_when_spent:
  assumes ids: "distinct (map fr_chunk_id (fl_rows fl))" and n: "length (fl_rows fl) \<le> 2 ^ 52"
    and range: "rank_bounded l fl (load_live_statuses ex fl)"
    and r: "reposition ex l c after now fl = Inr (ordered, fl')"
  shows "(\<exists>p. fl_positions fl' = fl_positions fl @ [(ch_chunk_id c, p, now)])
     \<or> (\<exists>xs x m y ys. ordered = xs @ x # m # y # ys \<and> ch_chunk_id m = ch_chunk_id c
          \<and> \<not> (\<exists>d. representable d
             \<and> effective_position (read_ranking fl (queue_candidates l fl (load_live_statuses ex fl))) x < d
             \<and> d < effective_position (read_ranking fl (queue_candidates l fl (load_live_statuses ex fl))) y))"
proof -
  let ?st = "load_live_statuses ex fl"
  let ?members = "queue_candidates l fl ?st"
  from r obtain moving anchor where mv: "resolve_move l ?members c after ?st = Inr (moving, anchor)"
    by (auto simp: reposition_def Let_def split: sum.splits)
  note rm = resolve_move_Inr [OF mv]
  from reposition_steps [OF ids n range mv, of now] obtain others and sl :: slot and k where
      k: "k = insertion_index others anchor"
      and rep: "reposition ex l c after now fl = Inr (take k others @ moving # drop k others, write_positions l
          (zip (map ch_chunk_id others) (sl_renumbered sl) @ [(ch_chunk_id c, sl_position sl)]) now fl)"
      and iff: "sl_renumbered sl \<noteq> [] \<longleftrightarrow> (\<exists>i. index_of others anchor = Some i \<and> Suc i < length others
           \<and> \<not> (\<exists>x. representable x
             \<and> effective_position (read_ranking fl ?members) (others ! i) < x
             \<and> x < effective_position (read_ranking fl ?members) (others ! Suc i)))" .
  from rep r have o: "ordered = take k others @ moving # drop k others"
    and fl': "fl' = write_positions l (zip (map ch_chunk_id others) (sl_renumbered sl) @ [(ch_chunk_id c, sl_position sl)]) now fl"
    by simp_all
  show ?thesis
  proof (cases "sl_renumbered sl = []")
    case True
    have "ch_chunk_id c \<in> rankable l fl"
      using candidates_rankable [OF ids, of l ex] imageI [OF rm(1), of ch_chunk_id] by (auto simp: rm(2))
    with True fl' have "fl_positions fl' = fl_positions fl @ [(ch_chunk_id c, sl_position sl, now)]"
      by (cases l) (simp_all add: write_positions_def record_backlog_positions_def record_queue_positions_def rankable_def)
    then show ?thesis by blast
  next
    case False
    with iff obtain i where i: "index_of others anchor = Some i" "Suc i < length others"
      and gap: "\<not> (\<exists>x. representable x
             \<and> effective_position (read_ranking fl ?members) (others ! i) < x
             \<and> x < effective_position (read_ranking fl ?members) (others ! Suc i))" by blast
    have "ordered = take i others @ others ! i # moving # others ! Suc i # drop (Suc (Suc i)) others"
      using i k o by (simp add: insertion_index_def take_Suc_conv_app_nth Cons_nth_drop_Suc)
    with gap rm(2) show ?thesis by blast
  qed
qed

end
