(* ===== verification/Queue_Entry.thy ===== *)
theory Queue_Entry
  imports Queue_Laws Store_Laws
begin

text \<open>
  Entering and paging a list: a promote and a demote put the chunk where its placement asks, whatever
  they renumber, and a reader following the page cursors reads the whole order once.
\<close>

section \<open>Entering a list\<close>

text \<open>Where a placement asks a chunk to stand.\<close>

definition placed :: "placement \<Rightarrow> chunk list \<Rightarrow> chunk \<Rightarrow> chunk list" where
  "placed pl order c =
     (case pc_after_chunk_id pl of
        Some a \<Rightarrow> (let k = Suc (length (takeWhile (\<lambda>x. ch_chunk_id x \<noteq> a) order)) in take k order @ c # drop k order)
      | None \<Rightarrow> if pc_to_top pl then c # order else order @ [c])"

lemma tail_above:
  assumes "\<And>c. c \<in> set members \<Longrightarrow> in_range (effective_position rk c)" and "x \<in> set members"
  shows "effective_position rk x < tail_position rk members"
proof -
  let ?m = "max_or (- one_double) (map (effective_position rk) members)"
  have "?m \<in> set (map (effective_position rk) members)" using assms(2) by (intro max_or_in) auto
  then have "in_range ?m" using assms(1) by auto
  then have "?m < tail_position rk members" unfolding tail_position_def by (intro double_add_one) (simp_all add: in_range_def)
  moreover have "effective_position rk x \<le> ?m" using assms(2) by (intro max_or_ge) simp
  ultimately show ?thesis by simp
qed

lemma landing_read_back:
  assumes d: "distinct (map ch_chunk_id members)" and new: "ch_chunk_id c \<notin> ch_chunk_id ` set members"
    and n: "length members \<le> 2 ^ 52"
    and range: "\<And>x. x \<in> set members \<Longrightarrow> in_range (effective_position (read_ranking fl members) x)"
    and ld: "resolve_landing (read_ranking fl members) l members (ch_chunk_id c) pl st = Inr ld"
    and pos: "\<And>x. x \<in> set (c # members) \<Longrightarrow> queue_position fl' (ch_chunk_id x) =
        queue_position (record_queue_positions (ql_renormalized ld @ [(ch_chunk_id c, ql_position ld)]) now fl) (ch_chunk_id x)"
    and fb: "\<And>x. x \<in> set members \<Longrightarrow> fallback_position fl' x = fallback_position fl x"
  shows "mset members' = add_mset c (mset members) \<Longrightarrow>
      ranked (read_ranking fl' members') members' = placed pl (ranked (read_ranking fl members) members) c"
    and "mset members' = mset members \<Longrightarrow>
      ranked (read_ranking fl' members') members' = ranked (read_ranking fl members) members"
proof -
  let ?rk = "read_ranking fl members" and ?q = "queue_position fl" and ?fb = "fallback_position fl"
  define others where "others = ranked ?rk members"
  have so: "set others = set members" and mo: "mset others = mset members" by (simp_all add: others_def ranked_def)
  have key: "rank_key ?rk x = position_key ?q ?fb x" "effective_position ?rk x = position_of ?q ?fb x"
    if "x \<in> set others" for x using that so rank_key_read by simp_all
  have sorted: "sorted (map (position_key ?q ?fb) others)"
  proof -
    have "sorted (map (rank_key ?rk) others)" unfolding others_def ranked_def by simp
    moreover have "map (rank_key ?rk) others = map (position_key ?q ?fb) others" using key(1) by simp
    ultimately show ?thesis by (simp only:)
  qed
  have rng: "in_range (position_of ?q ?fb x)" if "x \<in> set others" for x
    using range [of x] that so unfolding key(2) [OF that] by simp
  have len: "length others \<le> 2 ^ 52" using n by (simp add: others_def ranked_def)
  have ido: "distinct (map ch_chunk_id (c # others))"
    using d new so mo by (simp, metis mset_map mset_eq_imp_distinct_iff)
  obtain sl :: slot and k where
      ren: "ql_renormalized ld = zip (map ch_chunk_id others) (sl_renumbered sl)" and qp: "ql_position ld = sl_position sl"
    and r: "sl_renumbered sl = [] \<or> length (sl_renumbered sl) = length others \<and> sorted_wrt (<) (sl_renumbered sl)"
    and lo: "\<And>j. j < k \<Longrightarrow> landing_positions (map (position_of ?q ?fb) others) sl ! j < sl_position sl"
    and hi: "\<And>j. k \<le> j \<Longrightarrow> j < length others \<Longrightarrow> sl_position sl < landing_positions (map (position_of ?q ?fb) others) sl ! j"
    and kle: "k \<le> length others" and pk: "placed pl others c = take k others @ c # drop k others"
  proof (cases "pc_after_chunk_id pl = None \<and> \<not> pc_to_top pl")
    case True
    let ?sl = "\<lparr>sl_position = tail_position ?rk members, sl_renumbered = []\<rparr>"
    have "ld = \<lparr>ql_position = tail_position ?rk members, ql_renormalized = []\<rparr>"
      using ld True by (simp add: resolve_landing_def require_anchor_among_def)
    moreover have "map (position_of ?q ?fb) others ! j < tail_position ?rk members" if "j < length others" for j
      using tail_above [OF range nth_mem [OF that, unfolded so]] key(2) [OF nth_mem [OF that]] that by simp
    ultimately show ?thesis
      using True by (intro that [of ?sl "length others"]) (simp_all add: landing_positions_def placed_def)
  next
    case False
    obtain anchor where anchor: "require_anchor_among l members (pc_after_chunk_id pl) st = Inr anchor"
      and land: "land_chunk_after ?rk others anchor = Inr ld"
      using ld False by (auto simp: resolve_landing_def others_def require_anchor_among_def
          split: if_splits option.splits sum.splits)
    have a: "a \<in> set others \<and> pc_after_chunk_id pl = Some (ch_chunk_id a)" if "anchor = Some a" for a
      using anchor that so by (auto simp: require_anchor_among_def split: option.splits dest: find_chunk_Some)
    from landing_sorted [OF key(2) rng sorted len, of anchor] a obtain sl where
      land': "land_chunk_after ?rk others anchor =
        Inr \<lparr>ql_position = sl_position sl, ql_renormalized = zip (map ch_chunk_id others) (sl_renumbered sl)\<rparr>"
      and r: "sl_renumbered sl = [] \<or> length (sl_renumbered sl) = length others \<and> sorted_wrt (<) (sl_renumbered sl)"
      and lo: "\<And>j. j < insertion_index others anchor \<Longrightarrow>
          landing_positions (map (position_of ?q ?fb) others) sl ! j < sl_position sl"
      and hi: "\<And>j. insertion_index others anchor \<le> j \<Longrightarrow> j < length others \<Longrightarrow>
          sl_position sl < landing_positions (map (position_of ?q ?fb) others) sl ! j"
      and kle: "insertion_index others anchor \<le> length others" by blast
    have "placed pl others c = take (insertion_index others anchor) others @ c # drop (insertion_index others anchor) others"
    proof (cases anchor)
      case None
      then have "pc_after_chunk_id pl = None" using anchor by (auto simp: require_anchor_among_def split: option.splits)
      with None False show ?thesis by (simp add: placed_def insertion_index_def index_of_def)
    next
      case (Some x)
      with a [OF Some] show ?thesis by (simp add: placed_def insertion_index_def index_of_def)
    qed
    with land land' r lo hi kle show ?thesis by (intro that [of sl "insertion_index others anchor"]) auto
  qed
  let ?ps = "zip (map ch_chunk_id others) (sl_renumbered sl) @ [(ch_chunk_id c, sl_position sl)]"
  let ?f1 = "record_queue_positions ?ps now fl" and ?new = "take k others @ c # drop k others"
  have same: "position_key (queue_position fl') (fallback_position fl') x = position_key (queue_position ?f1) ?fb x"
    if x: "x \<in> set (c # others)" for x
  proof (cases "x = c")
    case True
    have "queue_position ?f1 (ch_chunk_id c) \<noteq> None"
      by (auto simp: queue_position_def record_queue_positions_def)
    with True pos [of c] show ?thesis by (auto simp: position_key_def position_of_def ren qp)
  next
    case False
    with x so have "x \<in> set members" by simp
    with pos [of x] fb [of x] show ?thesis by (simp add: position_key_def position_of_def ren qp split: option.split)
  qed
  from ready_positions.moved_order [OF ido _ sorted r kle lo hi, where now = now]
  have srt: "sorted (map (position_key (queue_position ?f1) ?fb) ?new)" by simp
  have sn: "set ?new = set (c # others)" by (metis append_take_drop_id list.simps(15) set_append Un_insert_right)
  have "map (position_key (queue_position fl') (fallback_position fl')) ?new = map (position_key (queue_position ?f1) ?fb) ?new"
    by (rule map_cong [OF refl], rule same) (simp only: sn)
  with srt have srt': "sorted (map (position_key (queue_position fl') (fallback_position fl')) ?new)" by (simp only:)
  show "ranked (read_ranking fl' members') members' = placed pl (ranked ?rk members) c"
    if m: "mset members' = add_mset c (mset members)"
  proof -
    have "mset ?new = add_mset c (mset others)" by (metis append_take_drop_id mset.simps(2) mset_append union_mset_add_mset_right)
    then have "mset ?new = mset members'" using m mo by simp
    moreover have "distinct (map ch_chunk_id members')"
      using ido m mo by (metis mset.simps(2) mset_map mset_eq_imp_distinct_iff)
    ultimately have "ranked (read_ranking fl' members') members' = ?new"
      unfolding ranked_read using srt' by (intro ranked_eqI) simp_all
    then show ?thesis by (simp only: pk flip: others_def)
  qed
  show "ranked (read_ranking fl' members') members' = ranked ?rk members" if m: "mset members' = mset members"
  proof -
    have "sorted (map (position_key (queue_position fl') (fallback_position fl')) (take k others @ drop k others))"
      using srt' unfolding map_append list.map sorted_append by auto
    then have "sorted (map (position_key (queue_position fl') (fallback_position fl')) others)" by simp
    moreover have "distinct (map ch_chunk_id members')" using d m by (metis mset_map mset_eq_imp_distinct_iff)
    ultimately have "ranked (read_ranking fl' members') members' = others"
      unfolding ranked_read using mo m by (intro ranked_eqI) simp_all
    then show ?thesis by (simp only: others_def)
  qed
qed

section \<open>Who is ranked\<close>

definition live_row :: "fleet_row \<Rightarrow> bool" where
  "live_row r \<longleftrightarrow> maybe_live (fr_rows r) \<and> \<not> ck_ephemeral (fr_rows r)"

definition ready_ranked :: "executors \<Rightarrow> fleet_row \<Rightarrow> bool" where
  "ready_ranked ex r \<longleftrightarrow> row_status ex r = Ready
     \<or> row_status ex r = Paused \<and> is_ready_but_for_pause (load_facts ex (fr_rows r))"

lemma live_status_iff:
  assumes ids: "distinct (map fr_chunk_id (fl_rows fl))" and r: "r \<in> set (fl_rows fl)" and st: "st \<notin> TERMINAL_STATUSES"
  shows "(fr_chunk_id r, st) \<in> set (load_live_statuses ex fl) \<longleftrightarrow> live_row r \<and> row_status ex r = st"
proof -
  have eq: "r' = r" if "r' \<in> set (fl_rows fl)" "fr_chunk_id r' = fr_chunk_id r" for r'
    using that ids r by (auto simp: distinct_map dest: inj_onD)
  have "(fr_chunk_id r, st) \<in> set (load_live_statuses ex fl) \<longleftrightarrow>
      (\<exists>r'\<in>set (fl_rows fl). fr_chunk_id r' = fr_chunk_id r \<and> live_row r' \<and> row_status ex r' = st)"
    using st by (auto simp: load_live_statuses_def maybe_live_statuses_def live_row_def intro!: rev_image_eqI)
  then show ?thesis using eq r by blast
qed

lemma listed_set:
  assumes ids: "distinct (map fr_chunk_id (fl_rows fl))" and st: "st \<notin> TERMINAL_STATUSES"
  shows "set (listed_with_status fl st (load_live_statuses ex fl)) =
    chunk_of ` {r \<in> set (fl_rows fl). live_row r \<and> row_status ex r = st}"
proof -
  have "fr_chunk_id r \<in> set (map fst (filter (\<lambda>(_, s). s = st) (load_live_statuses ex fl))) \<longleftrightarrow>
      live_row r \<and> row_status ex r = st" if "r \<in> set (fl_rows fl)" for r
    using live_status_iff [OF ids that st, of ex] by force
  then show ?thesis unfolding listed_with_status_def get_many_def by (auto simp: live_row_def)
qed

lemma facts_of_row:
  "distinct (map fr_chunk_id (fl_rows fl)) \<Longrightarrow> r \<in> set (fl_rows fl) \<Longrightarrow> live_row r \<Longrightarrow>
   facts_of ex fl (fr_chunk_id r) = Some (load_facts ex (fr_rows r))"
  by (simp add: facts_of_def find_row_distinct live_row_def)

lemma ready_members_set:
  assumes ids: "distinct (map fr_chunk_id (fl_rows fl))"
  shows "set (ready_members ex fl (load_live_statuses ex fl)) =
      chunk_of ` {r \<in> set (fl_rows fl). live_row r \<and> ready_ranked ex r}"
    and "distinct (map ch_chunk_id (ready_members ex fl (load_live_statuses ex fl)))"
proof -
  let ?st = "load_live_statuses ex fl"
  let ?paused = "map fst (filter (\<lambda>(_, st). st = Paused) ?st)"
  let ?facts = "List.map_filter (\<lambda>i. map_option (\<lambda>f. (i, f)) (facts_of ex fl i)) ?paused"
  have nt: "Ready \<notin> TERMINAL_STATUSES" "Paused \<notin> TERMINAL_STATUSES" by (simp_all add: TERMINAL_STATUSES_def)
  have paused: "fr_chunk_id r \<in> set ?paused \<longleftrightarrow> live_row r \<and> row_status ex r = Paused" if "r \<in> set (fl_rows fl)" for r
    using live_status_iff [OF ids that nt(2), of ex] by force
  have w: "fr_chunk_id r \<in> set (withheld_by_pause ?facts) \<longleftrightarrow>
      live_row r \<and> row_status ex r = Paused \<and> is_ready_but_for_pause (load_facts ex (fr_rows r))"
    if r: "r \<in> set (fl_rows fl)" for r
  proof -
    have "fr_chunk_id r \<in> set (withheld_by_pause ?facts) \<longleftrightarrow> fr_chunk_id r \<in> set ?paused
        \<and> (\<exists>f. facts_of ex fl (fr_chunk_id r) = Some f \<and> is_ready_but_for_pause f)"
      by (force simp: withheld_by_pause_def List.map_filter_def image_iff)
    then show ?thesis using paused [OF r] facts_of_row [OF ids r, of ex] by auto
  qed
  have many: "set (get_many fl (withheld_by_pause ?facts)) = chunk_of `
      {r \<in> set (fl_rows fl). live_row r \<and> row_status ex r = Paused \<and> is_ready_but_for_pause (load_facts ex (fr_rows r))}"
    using w by (auto simp: get_many_def live_row_def)
  have none: "withheld_by_pause ?facts = []" if "?paused = []"
    unfolding that by (simp add: withheld_by_pause_def List.map_filter_simps)
  then have rm: "ready_members ex fl ?st = listed_with_status fl Ready ?st @ get_many fl (withheld_by_pause ?facts)"
    by (auto simp: ready_members_def Let_def get_many_def)
  show "set (ready_members ex fl ?st) = chunk_of ` {r \<in> set (fl_rows fl). live_row r \<and> ready_ranked ex r}"
    unfolding rm set_append listed_set [OF ids nt(1)] many by (auto simp: ready_ranked_def)
  have "ch_chunk_id x \<noteq> ch_chunk_id y"
    if xy: "x \<in> set (listed_with_status fl Ready ?st)" "y \<in> set (get_many fl (withheld_by_pause ?facts))" for x y
  proof
    assume eq: "ch_chunk_id x = ch_chunk_id y"
    obtain r r' where "r \<in> set (fl_rows fl)" "x = chunk_of r" "row_status ex r = Ready"
      "r' \<in> set (fl_rows fl)" "y = chunk_of r'" "row_status ex r' = Paused"
      using xy unfolding listed_set [OF ids nt(1)] many by auto
    moreover from this eq ids have "r = r'" by (auto simp: distinct_map chunk_of_def dest: inj_onD)
    ultimately show False by simp
  qed
  moreover have "distinct (map ch_chunk_id (listed_with_status fl Ready ?st))"
    "distinct (map ch_chunk_id (get_many fl (withheld_by_pause ?facts)))"
    using ids by (simp_all add: listed_with_status_def get_many_ids distinct_map_filter)
  ultimately show "distinct (map ch_chunk_id (ready_members ex fl ?st))"
    unfolding rm map_append distinct_append set_map by blast
qed

section \<open>Promoting and demoting\<close>

lemma promoted_frame:
  "operator_completion_outranks_stop (f\<lparr>cf_promoted := b\<rparr>) = operator_completion_outranks_stop f"
  "latest_movement_as_of (f\<lparr>cf_promoted := b\<rparr>) as_of = latest_movement_as_of f as_of"
  "newest_transition (f\<lparr>cf_promoted := b\<rparr>) = newest_transition f"
  "routes (f\<lparr>cf_promoted := b\<rparr>) = routes f"
  "open_questions (f\<lparr>cf_promoted := b\<rparr>) = open_questions f"
  "open_decision (f\<lparr>cf_promoted := b\<rparr>) = open_decision f"
  "open_pause (f\<lparr>cf_promoted := b\<rparr>) = open_pause f"
  by (simp_all add: operator_completion_outranks_stop_def latest_movement_as_of_def ranked_movements_def
      newest_transition_def routes_def open_questions_def open_decision_def open_pause_def)

lemma promoted_frame_terminal:
  "newest_transition_is_terminal (f\<lparr>cf_promoted := b\<rparr>) = newest_transition_is_terminal f"
  "latest_movement_enters_hub_node (f\<lparr>cf_promoted := b\<rparr>) = latest_movement_enters_hub_node f"
  by (simp_all add: newest_transition_is_terminal_def latest_movement_enters_hub_node_def promoted_frame)

lemma promoted_frame_escalation: "open_escalation (f\<lparr>cf_promoted := b\<rparr>) = open_escalation f"
  by (simp add: open_escalation_def superseding_instants_def completed_at_def promoted_frame promoted_frame_terminal
      split: option.split)

lemmas promoted_frames = promoted_frame promoted_frame_terminal promoted_frame_escalation

lemma has_live_route_promoted: "has_live_route (f\<lparr>cf_promoted := b\<rparr>) = has_live_route f"
  by (simp add: has_live_route_def promoted_frames)

lemma status_with_promoted: "status_with (f\<lparr>cf_promoted := True\<rparr>) b =
    (if status_with f b = NotReady then (if latest_movement_enters_hub_node f then Delivering else Ready)
     else status_with f b)"
  by (simp add: status_with_def has_open_escalation_def is_waiting_on_human_def has_open_decision_def
      has_live_route_promoted promoted_frames)

lemma status_with_demoted: "status_with (f\<lparr>cf_promoted := False\<rparr>) b =
    (if status_with f b = Ready \<or> status_with f b = Delivering \<and> \<not> has_live_route f then NotReady else status_with f b)"
  by (simp add: status_with_def has_open_escalation_def is_waiting_on_human_def has_open_decision_def
      has_live_route_promoted promoted_frames)

lemma status_promoted: "status (f\<lparr>cf_promoted := True\<rparr>) =
    (if status f = NotReady then (if latest_movement_enters_hub_node f then Delivering else Ready) else status f)"
  by (simp add: status_def is_paused_def status_with_promoted promoted_frames)

lemma status_demoted: "status (f\<lparr>cf_promoted := False\<rparr>) =
    (if status f = Ready \<or> status f = Delivering \<and> \<not> has_live_route f then NotReady else status f)"
  by (simp add: status_def is_paused_def status_with_demoted promoted_frames)

lemma load_facts_queue_rows:
  "load_facts ex (insert_promote_rows now s) = (load_facts ex s)\<lparr>cf_promoted := True\<rparr>"
  "load_facts ex (insert_demote_rows now s) = (load_facts ex s)\<lparr>cf_promoted := False\<rparr>"
proof -
  have p: "currently_promoted (insert_promote_rows now s)"
    by (auto simp: promoted_iff insert_promote_rows_def after_newest_later)
  have d: "\<not> currently_promoted (insert_demote_rows now s)"
    using after_newest_later [of _ "ck_promoted s" now] by (fastforce simp: promoted_iff insert_demote_rows_def)
  show "load_facts ex (insert_promote_rows now s) = (load_facts ex s)\<lparr>cf_promoted := True\<rparr>"
    unfolding load_facts_def using p
    by (simp add: insert_promote_rows_def decision_closure_ids_def resolved_ids_def)
  show "load_facts ex (insert_demote_rows now s) = (load_facts ex s)\<lparr>cf_promoted := False\<rparr>"
    unfolding load_facts_def using d
    by (simp add: insert_demote_rows_def decision_closure_ids_def resolved_ids_def)
qed

abbreviation with_rows :: "(chunk_rows \<Rightarrow> chunk_rows) \<Rightarrow> fleet_row \<Rightarrow> fleet_row" where
  "with_rows g r \<equiv> r\<lparr>fr_rows := g (fr_rows r)\<rparr>"

text \<open>One chunk's rows changed: the members a list had, with or without that chunk.\<close>

lemma entering_members:
  assumes ids: "distinct (map fr_chunk_id (fl_rows fl))" and r: "r \<in> set (fl_rows fl)"
    and rows: "fl_rows fl' = fl_rows (update_row (fr_chunk_id r) g fl)"
    and same: "chunk_of (with_rows g r) = chunk_of r" and live: "live_row (with_rows g r) = live_row r"
    and old: "set old = chunk_of ` {x \<in> set (fl_rows fl). live_row x \<and> P x}" "distinct (map ch_chunk_id old)"
    and new: "set new = chunk_of ` {x \<in> set (fl_rows fl'). live_row x \<and> P x}" "distinct (map ch_chunk_id new)"
    and out: "\<not> P r"
  shows "mset new = (if live_row r \<and> P (with_rows g r) then add_mset (chunk_of r) (mset old) else mset old)"
    and "ch_chunk_id (chunk_of r) \<notin> ch_chunk_id ` set old"
proof -
  have eq: "x = r" if "x \<in> set (fl_rows fl)" "fr_chunk_id x = fr_chunk_id r" for x
    using that ids r by (auto simp: distinct_map dest: inj_onD)
  have id: "ch_chunk_id (chunk_of x) = fr_chunk_id x" for x by (simp add: chunk_of_def)
  show notin: "ch_chunk_id (chunk_of r) \<notin> ch_chunk_id ` set old"
    using eq out by (auto simp: old(1) id)
  have rows': "set (fl_rows fl') = (set (fl_rows fl) - {r}) \<union> {with_rows g r}"
  proof -
    let ?h = "\<lambda>x. if fr_chunk_id x = fr_chunk_id r then with_rows g x else x" and ?S = "set (fl_rows fl)"
    have "?h ` ?S = ?h ` (?S - {r}) \<union> {?h r}" using r by blast
    also have "?h ` (?S - {r}) = (\<lambda>x. x) ` (?S - {r})" by (rule image_cong [OF refl]) (use eq in force)
    finally show ?thesis by (simp add: rows update_row_def)
  qed
  have "set new = set old \<union> (if live_row r \<and> P (with_rows g r) then {chunk_of r} else {})"
  proof -
    have "{x \<in> set (fl_rows fl'). live_row x \<and> P x} = {x \<in> set (fl_rows fl). live_row x \<and> P x}
        \<union> (if live_row r \<and> P (with_rows g r) then {with_rows g r} else {})"
      unfolding rows' using out live by auto
    then show ?thesis unfolding new(1) old(1) image_Un using same by (simp split: if_split)
  qed
  moreover have "chunk_of r \<notin> set old" using notin by auto
  ultimately have "set new = set (if live_row r \<and> P (with_rows g r) then chunk_of r # old else old)"
    and "distinct (if live_row r \<and> P (with_rows g r) then chunk_of r # old else old)"
    using old(2) by (auto simp: distinct_map)
  moreover have "distinct new" using new(2) by (simp add: distinct_map)
  ultimately have "mset new = mset (if live_row r \<and> P (with_rows g r) then chunk_of r # old else old)"
    using set_eq_iff_mset_eq_distinct by blast
  then show "mset new = (if live_row r \<and> P (with_rows g r) then add_mset (chunk_of r) (mset old) else mset old)" by simp
qed

lemma entering_positions:
  assumes ids: "distinct (map fr_chunk_id (fl_rows fl))" and r: "r \<in> set (fl_rows fl)"
    and ren: "fst ` set ren \<subseteq> rankable l fl" and new: "fr_chunk_id r \<notin> ch_chunk_id ` set members"
    and fl': "fl' = record_queue_positions [(fr_chunk_id r, p)] t (update_row (fr_chunk_id r) g
        (if ren = [] then fl else write_positions l ren now fl))"
  shows "queue_position fl' i = queue_position (record_queue_positions (ren @ [(fr_chunk_id r, p)]) now fl) i"
    and "x \<in> set members \<Longrightarrow> fallback_position fl' x = fallback_position fl x"
    and "fl_rows fl' = fl_rows (update_row (fr_chunk_id r) g fl)"
proof -
  let ?fl1 = "if ren = [] then fl else write_positions l ren now fl"
  have qu: "queue_position (update_row c g fl) = queue_position fl" for c g and fl :: fleet
    by (simp add: queue_position_def update_row_def fun_eq_iff)
  have w: "write_positions l ren now fl = record_queue_positions ren now fl"
  proof (cases l)
    case NotReadyList
    with ren have "filter (\<lambda>(i, _). promoted_at fl i = None) ren = ren" by (auto simp: filter_id_conv rankable_def)
    then show ?thesis using NotReadyList by (simp add: write_positions_def record_backlog_positions_def)
  qed (simp add: write_positions_def)
  have two: "record_queue_positions (ren @ [(fr_chunk_id r, p)]) now fl =
      record_queue_positions [(fr_chunk_id r, p)] now (record_queue_positions ren now fl)"
    by (simp add: record_queue_positions_def)
  have "?fl1 = record_queue_positions ren now fl" using w by (simp add: record_queue_positions_def)
  then show "queue_position fl' i = queue_position (record_queue_positions (ren @ [(fr_chunk_id r, p)]) now fl) i"
    unfolding fl' two by (simp add: queue_position_recorded qu)
  show rows: "fl_rows fl' = fl_rows (update_row (fr_chunk_id r) g fl)"
    by (simp add: fl' update_row_def record_queue_positions_def)
  assume "x \<in> set members"
  with new have ne: "ch_chunk_id x \<noteq> fr_chunk_id r" by (metis imageI)
  have "find_row fl' (ch_chunk_id x) = find_row fl (ch_chunk_id x)"
  proof -
    have "List.find (\<lambda>y. fr_chunk_id y = ch_chunk_id x)
        (map (\<lambda>y. if fr_chunk_id y = fr_chunk_id r then y\<lparr>fr_rows := g (fr_rows y)\<rparr> else y) ys) =
        List.find (\<lambda>y. fr_chunk_id y = ch_chunk_id x) ys" for ys
      using ne by (induction ys) auto
    then show ?thesis by (simp add: find_row_def rows update_row_def)
  qed
  then show "fallback_position fl' x = fallback_position fl x" by (simp add: fallback_position_def promoted_at_def)
qed

lemma resolve_landing_names:
  "resolve_landing rk l members cid pl st = Inr ld \<Longrightarrow> fst ` set (ql_renormalized ld) \<subseteq> ch_chunk_id ` set members"
  by (auto simp: resolve_landing_def land_chunk_after_def ranked_def split: if_splits sum.splits option.splits
      dest!: set_zip_leftD)

text \<open>What both services do once they write.\<close>

lemma entered_read_back:
  assumes ids: "distinct (map fr_chunk_id (fl_rows fl))" and n: "length (fl_rows fl) \<le> 2 ^ 52"
    and r: "r \<in> set (fl_rows fl)"
    and ld: "resolve_landing (read_ranking fl old) l old (fr_chunk_id r) pl st = Inr ld"
    and fl': "fl' = record_queue_positions [(fr_chunk_id r, ql_position ld)] t (update_row (fr_chunk_id r) g
        (if ql_renormalized ld = [] then fl else write_positions l (ql_renormalized ld) now fl))"
    and same: "chunk_of (with_rows g r) = chunk_of r" and live: "live_row (with_rows g r) = live_row r"
    and old: "set old = chunk_of ` {x \<in> set (fl_rows fl). live_row x \<and> P x}" "distinct (map ch_chunk_id old)"
    and new: "distinct (map fr_chunk_id (fl_rows fl')) \<Longrightarrow> set new = chunk_of ` {x \<in> set (fl_rows fl'). live_row x \<and> P x}
        \<and> distinct (map ch_chunk_id new)"
    and out: "\<not> P r" and rankable: "ch_chunk_id ` set old \<subseteq> rankable l fl"
    and range: "\<And>x. x \<in> set old \<Longrightarrow> in_range (effective_position (read_ranking fl old) x)"
  shows "ranked (read_ranking fl' new) new =
    (if live_row r \<and> P (with_rows g r) then placed pl (ranked (read_ranking fl old) old) (chunk_of r)
     else ranked (read_ranking fl old) old)"
proof -
  have id: "ch_chunk_id (chunk_of r) = fr_chunk_id r" by (simp add: chunk_of_def)
  have notin: "fr_chunk_id r \<notin> ch_chunk_id ` set old"
  proof
    assume "fr_chunk_id r \<in> ch_chunk_id ` set old"
    then obtain x where x: "x \<in> set (fl_rows fl)" "P x" "fr_chunk_id x = fr_chunk_id r"
      unfolding old(1) by (auto simp: chunk_of_def)
    with ids r have "x = r" by (auto simp: distinct_map dest: inj_onD)
    with x out show False by simp
  qed
  have sub: "fst ` set (ql_renormalized ld) \<subseteq> rankable l fl" using resolve_landing_names [OF ld] rankable by blast
  note pos = entering_positions [OF ids r sub notin fl']
  have ids': "distinct (map fr_chunk_id (fl_rows fl'))"
  proof -
    have "map fr_chunk_id (fl_rows fl') = map fr_chunk_id (fl_rows fl)" by (simp add: pos(3) update_row_def)
    with ids show ?thesis by (simp only:)
  qed
  note ms = entering_members [OF ids r pos(3) same live old conjunct1 [OF new [OF ids']] conjunct2 [OF new [OF ids']] out]
  have "length old \<le> length (fl_rows fl)"
  proof -
    have "set old \<subseteq> chunk_of ` set (fl_rows fl)" unfolding old(1) by auto
    then have "card (set old) \<le> card (chunk_of ` set (fl_rows fl))" by (intro card_mono) simp_all
    also have "\<dots> \<le> length (fl_rows fl)" by (metis card_length list.set_map length_map)
    finally show ?thesis using old(2) by (simp add: distinct_map distinct_card)
  qed
  then have len: "length old \<le> 2 ^ 52" using n by linarith
  have ld': "resolve_landing (read_ranking fl old) l old (ch_chunk_id (chunk_of r)) pl st = Inr ld" by (simp add: id ld)
  have notin': "ch_chunk_id (chunk_of r) \<notin> ch_chunk_id ` set old" using notin by (simp add: id)
  note rb = landing_read_back [OF old(2) notin' len range ld', where fl' = fl' and members' = new and now = now]
  have p: "queue_position fl' (ch_chunk_id x) = queue_position
      (record_queue_positions (ql_renormalized ld @ [(ch_chunk_id (chunk_of r), ql_position ld)]) now fl) (ch_chunk_id x)" for x :: chunk
    by (simp add: id pos(1))
  show ?thesis using rb [OF _ p pos(2)] ms(1) by simp
qed

lemma ready_promoted: "status f = Ready \<Longrightarrow> cf_promoted f"
  by (auto simp: status_def status_with_def split: if_splits)

lemma not_ready_unranked:
  assumes "\<not> cf_promoted (load_facts ex (fr_rows r))"
  shows "\<not> ready_ranked ex r"
  using assms ready_promoted [of "load_facts ex (fr_rows r)"] ready_promoted [of "(load_facts ex (fr_rows r))\<lparr>cf_pauses := []\<rparr>"]
  by (auto simp: ready_ranked_def row_status_def is_ready_but_for_pause_def)

lemma ready_but_for_pause_status:
  assumes "is_ready_but_for_pause f"
  shows "status f = Ready \<or> status f = Paused"
proof -
  have "\<not> is_paused (f\<lparr>cf_pauses := []\<rparr>)" by (simp add: is_paused_def open_pause_def)
  then have "status_with f False = Ready"
    using assms by (simp add: is_ready_but_for_pause_def status_def status_with_pauses)
  then show ?thesis by (auto simp: status_def status_with_def split: if_splits)
qed

lemma queue_rows_keep:
  "chunk_of (with_rows (insert_promote_rows now) r) = chunk_of r"
  "chunk_of (with_rows (insert_demote_rows now) r) = chunk_of r"
  "live_row (with_rows (insert_promote_rows now) r) = live_row r"
  "live_row (with_rows (insert_demote_rows now) r) = live_row r"
  by (simp_all add: chunk_of_def live_row_def maybe_live_def is_terminal_def done_by_transition_def
      unsuperseded_terminal_def insert_promote_rows_def insert_demote_rows_def)

lemma find_row_Some: "find_row fl cid = Some r \<Longrightarrow> r \<in> set (fl_rows fl) \<and> fr_chunk_id r = cid"
  unfolding find_row_def by (rule find_SomeD)

text \<open>C18: A promote puts the chunk where its placement asks (after an anchor, at the top, at the tail)
  among the chunks the ready queue ranks, paused ones included, keeps the order of all the
  others whatever it renumbers, and a resting chunk joins unless its latest movement enters a
  hub node (up to 2^52 chunks, positions within 2^53).\<close>

theorem promotion_lands_where_asked:
  assumes ids: "distinct (map fr_chunk_id (fl_rows fl))" and n: "length (fl_rows fl) \<le> 2 ^ 52"
    and range: "\<forall>x\<in>set (ready_members ex fl (load_live_statuses ex fl)).
        in_range (effective_position (read_ranking fl (ready_members ex fl (load_live_statuses ex fl))) x)"
    and p: "promote ex cid pl now fl = Inr (True, fl')"
  shows "\<exists>r. find_row fl cid = Some r
     \<and> (let old = ready_members ex fl (load_live_statuses ex fl); new = ready_members ex fl' (load_live_statuses ex fl');
            joined = live_row r \<and> ready_ranked ex (with_rows (insert_promote_rows now) r)
        in ranked (read_ranking fl' new) new =
             (if joined then placed pl (ranked (read_ranking fl old) old) (chunk_of r) else ranked (read_ranking fl old) old)
         \<and> (row_status ex r = NotReady \<and> live_row r \<and> \<not> latest_movement_enters_hub_node (load_facts ex (fr_rows r))
              \<longrightarrow> joined))"
proof -
  let ?old = "ready_members ex fl (load_live_statuses ex fl)"
  from p obtain r ld where row: "find_row fl cid = Some r" and np: "\<not> cf_promoted (load_facts ex (fr_rows r))"
    and ld: "resolve_landing (read_ranking fl ?old) ReadyList ?old cid pl (load_live_statuses ex fl) = Inr ld"
    and fl': "fl' = record_promote_with_position cid (ql_position ld) now
        (if ql_renormalized ld = [] then fl else write_positions ReadyList (ql_renormalized ld) now fl)"
    by (auto simp: promote_def Let_def facts_of_def promotion_writes_def
        split: option.splits sum.splits bool.splits if_splits)
  from find_row_Some [OF row] have r: "r \<in> set (fl_rows fl)" "fr_chunk_id r = cid" by blast+
  obtain t where f: "fl' = record_queue_positions [(fr_chunk_id r, ql_position ld)] t
      (update_row (fr_chunk_id r) (insert_promote_rows now)
        (if ql_renormalized ld = [] then fl else write_positions ReadyList (ql_renormalized ld) now fl))"
    using fl' r(2) by (auto simp: record_promote_with_position_def Let_def)
  have "ranked (read_ranking fl' (ready_members ex fl' (load_live_statuses ex fl')))
          (ready_members ex fl' (load_live_statuses ex fl')) =
      (if live_row r \<and> ready_ranked ex (with_rows (insert_promote_rows now) r)
       then placed pl (ranked (read_ranking fl ?old) ?old) (chunk_of r) else ranked (read_ranking fl ?old) ?old)"
    by (rule entered_read_back [OF ids n r(1) ld [folded r(2)] f queue_rows_keep(1) queue_rows_keep(3) ready_members_set [OF ids]])
      (use ready_members_set [of fl' ex] not_ready_unranked [OF np] range in \<open>auto simp: rankable_def\<close>)
  moreover have "ready_ranked ex (with_rows (insert_promote_rows now) r)"
    if "row_status ex r = NotReady" "\<not> latest_movement_enters_hub_node (load_facts ex (fr_rows r))"
    using that by (simp add: ready_ranked_def row_status_def load_facts_queue_rows status_promoted)
  ultimately show ?thesis using row by (auto simp: Let_def)
qed

theorem demotion_lands_where_asked:
  assumes ids: "distinct (map fr_chunk_id (fl_rows fl))" and n: "length (fl_rows fl) \<le> 2 ^ 52"
    and range: "rank_bounded NotReadyList fl (load_live_statuses ex fl)"
    and p: "demote ex cid pl now fl = Inr (True, fl')"
  shows "\<exists>r. find_row fl cid = Some r
     \<and> queue_ordered NotReadyList fl' (load_live_statuses ex fl') =
         (if live_row r \<and> row_status ex r = Ready
          then placed pl (queue_ordered NotReadyList fl (load_live_statuses ex fl)) (chunk_of r)
          else queue_ordered NotReadyList fl (load_live_statuses ex fl))"
proof -
  let ?old = "queue_candidates NotReadyList fl (load_live_statuses ex fl)"
  have old: "listed_with_status fl NotReady (load_live_statuses ex fl) = ?old" by (simp add: queue_candidates_def)
  from p obtain r ld where row: "find_row fl cid = Some r" and np: "cf_promoted (load_facts ex (fr_rows r))"
    and adm: "status (load_facts ex (fr_rows r)) = Ready \<or> is_ready_but_for_pause (load_facts ex (fr_rows r))"
    and ld: "resolve_landing (read_ranking fl ?old) NotReadyList ?old cid pl (load_live_statuses ex fl) = Inr ld"
    and fl': "fl' = record_demote_with_position cid (ql_position ld) now
        (if ql_renormalized ld = [] then fl else write_positions NotReadyList (ql_renormalized ld) now fl)"
    by (auto simp: demote_def Let_def facts_of_def demotion_writes_def old admits_def verb_legal_from_def
        split: option.splits sum.splits bool.splits if_splits)
  from find_row_Some [OF row] have r: "r \<in> set (fl_rows fl)" "fr_chunk_id r = cid" by blast+
  obtain t where f: "fl' = record_queue_positions [(fr_chunk_id r, ql_position ld)] t
      (update_row (fr_chunk_id r) (insert_demote_rows now)
        (if ql_renormalized ld = [] then fl else write_positions NotReadyList (ql_renormalized ld) now fl))"
    using fl' r(2) by (auto simp: record_demote_with_position_def Let_def)
  let ?P = "\<lambda>x. row_status ex x = NotReady"
  have nt: "NotReady \<notin> TERMINAL_STATUSES" by (simp add: TERMINAL_STATUSES_def)
  have set: "set (queue_candidates NotReadyList g (load_live_statuses ex g)) = chunk_of ` {x \<in> set (fl_rows g). live_row x \<and> ?P x}"
    if "distinct (map fr_chunk_id (fl_rows g))" for g
    using listed_set [OF that nt] by (simp add: queue_candidates_def)
  have out: "\<not> ?P r" using not_ready_not_promoted np by (auto simp: row_status_def)
  have join: "?P (with_rows (insert_demote_rows now) r) \<longleftrightarrow> row_status ex r = Ready"
    using adm ready_but_for_pause_status [of "load_facts ex (fr_rows r)"]
    by (auto simp: row_status_def load_facts_queue_rows status_demoted)
  show ?thesis
    by (rule exI [of _ r], rule conjI [OF row], unfold queue_ordered_def Let_def,
        rule entered_read_back [OF ids n r(1) ld [folded r(2)] f queue_rows_keep(2) queue_rows_keep(4) set [OF ids]
          candidates_distinct [OF ids], unfolded join])
      (use set [of fl'] candidates_distinct [of fl'] out candidates_rankable [OF ids, of NotReadyList ex] range
        in \<open>auto simp: rank_bounded_def Let_def\<close>)
qed

section \<open>Pages\<close>

text \<open>A reader that follows each page's cursor; \<open>fuel\<close> bounds the pages it asks for.\<close>

primrec drain :: "nat \<Rightarrow> ranking \<Rightarrow> chunk list \<Rightarrow> (double \<times> ident) option \<Rightarrow> int \<Rightarrow> ident option \<Rightarrow> queue_entry list option" where
  "drain 0 rk members cursor limit project = None"
| "drain (Suc fuel) rk members cursor limit project =
     (case page rk members cursor limit project of
        Inl _ \<Rightarrow> None
      | Inr p \<Rightarrow> (case qp_next_cursor p of
          None \<Rightarrow> Some (qp_entries p)
        | Some k \<Rightarrow> map_option (\<lambda>rest. qp_entries p @ rest) (drain fuel rk members (Some k) limit project)))"

definition entries_after :: "ranking \<Rightarrow> chunk list \<Rightarrow> (double \<times> ident) option \<Rightarrow> ident option \<Rightarrow> (nat \<times> chunk) list" where
  "entries_after rk members cursor project =
     filter (\<lambda>(_, c). (project = None \<or> ch_project_id c = project)
               \<and> (case cursor of None \<Rightarrow> True | Some k \<Rightarrow> \<not> rank_key rk c \<le> k))
       (List.enumerate 0 (ranked rk members))"

lemma filter_above:
  fixes f :: "'a \<Rightarrow> 'k::linorder"
  assumes "sorted_wrt (\<lambda>x y. f x < f y) xs" and "0 < n" and "n \<le> length xs"
  shows "filter (\<lambda>x. \<not> f x \<le> f (xs ! (n - 1))) xs = drop n xs"
proof -
  let ?b = "f (xs ! (n - 1))"
  have "\<forall>x\<in>set (take n xs). f x \<le> ?b"
  proof
    fix x assume "x \<in> set (take n xs)"
    then obtain j where j: "j < n" "j < length xs" "x = xs ! j" by (auto simp: in_set_conv_nth)
    show "f x \<le> ?b"
    proof (cases "j = n - 1")
      case False
      with j have "j < n - 1" "n - 1 < length xs" using assms(2,3) by auto
      with assms(1) j(3) show ?thesis by (auto simp: sorted_wrt_iff_nth_less intro: less_imp_le)
    qed (simp add: j)
  qed
  moreover have "\<forall>x\<in>set (drop n xs). \<not> f x \<le> ?b"
  proof
    fix x assume "x \<in> set (drop n xs)"
    then obtain j where j: "j < length xs - n" "x = xs ! (n + j)" by (auto simp: in_set_conv_nth)
    then have "n - 1 < n + j" "n + j < length xs" using assms(2) by auto
    with assms(1) j(2) show "\<not> f x \<le> ?b" by (auto simp: sorted_wrt_iff_nth_less not_le)
  qed
  ultimately have "filter (\<lambda>x. \<not> f x \<le> ?b) (take n xs @ drop n xs) = drop n xs"
    unfolding filter_append by (simp add: filter_False filter_True del: append_take_drop_id)
  then show ?thesis by simp
qed

lemma ranked_strict:
  assumes "distinct (map ch_chunk_id members)"
  shows "sorted_wrt (\<lambda>x y. rank_key rk (snd x) < rank_key rk (snd y)) (List.enumerate 0 (ranked rk members))"
proof -
  let ?L = "ranked rk members"
  have "distinct (map ch_chunk_id ?L)" using assms
    by (metis mset_map mset_eq_imp_distinct_iff mset_sort ranked_def)
  then have "distinct (map (rank_key rk) ?L)" by (auto simp: distinct_map rank_key_def inj_on_def)
  moreover have "sorted (map (rank_key rk) ?L)" by (simp add: ranked_def)
  ultimately have "sorted_wrt (<) (map (rank_key rk) ?L)" using strict_sorted_iff by blast
  then show ?thesis by (auto simp: sorted_wrt_iff_nth_less nth_enumerate_eq)
qed

lemma entries_after_above:
  "x \<in> set (entries_after rk members cursor project) \<Longrightarrow>
     (case cursor of None \<Rightarrow> True | Some k \<Rightarrow> \<not> rank_key rk (snd x) \<le> k)"
  by (auto simp: entries_after_def split: option.splits)

lemma page_next:
  assumes d: "distinct (map ch_chunk_id members)" and n: "1 \<le> limit"
  shows "\<exists>p. page rk members cursor limit project = Inr p \<and>
    (let left = entries_after rk members cursor project; entry = (\<lambda>(i, c). \<lparr>qe_chunk = c, qe_position = i\<rparr>)
     in case qp_next_cursor p of
       None \<Rightarrow> qp_entries p = map entry left
     | Some k \<Rightarrow> qp_entries p @ map entry (entries_after rk members (Some k) project) = map entry left
         \<and> length (entries_after rk members (Some k) project) < length left)"
proof -
  let ?L = "entries_after rk members cursor project" and ?n = "nat limit"
  let ?entry = "\<lambda>(i, c). \<lparr>qe_chunk = c, qe_position = i\<rparr> :: queue_entry"
  have pos: "0 < ?n" using n by simp
  have pg: "page rk members cursor limit project = Inr \<lparr>qp_entries = map ?entry (take ?n ?L),
      qp_next_cursor = (if ?n < length ?L then Some (rank_key rk (snd (?L ! (?n - 1)))) else None)\<rparr>"
    using n pos by (simp add: page_def Let_def flip: entries_after_def)
  show ?thesis
  proof (cases "?n < length ?L")
    case False
    then show ?thesis by (simp add: pg Let_def)
  next
    case True
    let ?k = "rank_key rk (snd (?L ! (?n - 1)))"
    have strict: "sorted_wrt (\<lambda>x y. rank_key rk (snd x) < rank_key rk (snd y)) ?L"
      unfolding entries_after_def by (rule sorted_wrt_filter [OF ranked_strict [OF d]])
    have "?L ! (?n - 1) \<in> set ?L" using True by (intro nth_mem) simp
    then have above: "case cursor of None \<Rightarrow> True | Some k \<Rightarrow> \<not> ?k \<le> k" by (rule entries_after_above)
    have "entries_after rk members (Some ?k) project = filter (\<lambda>x. \<not> rank_key rk (snd x) \<le> ?k) ?L"
      using above unfolding entries_after_def filter_filter
      by (intro filter_cong [OF refl]) (auto split: option.splits)
    also have "\<dots> = drop ?n ?L"
      by (rule filter_above [where f = "\<lambda>x. rank_key rk (snd x)", OF strict pos]) (use True in simp)
    finally have rest: "entries_after rk members (Some ?k) project = drop ?n ?L" .
    have "map ?entry (take ?n ?L) @ map ?entry (drop ?n ?L) = map ?entry ?L" by (simp flip: map_append)
    then show ?thesis using True pos by (simp add: pg Let_def rest del: One_nat_def)
  qed
qed

lemma drain_from:
  assumes "distinct (map ch_chunk_id members)" and "1 \<le> limit"
  shows "length (entries_after rk members cursor project) < fuel \<Longrightarrow>
    drain fuel rk members cursor limit project =
      Some (map (\<lambda>(i, c). \<lparr>qe_chunk = c, qe_position = i\<rparr>) (entries_after rk members cursor project))"
proof (induction fuel arbitrary: cursor)
  case (Suc fuel)
  from page_next [OF assms, of rk cursor project] obtain p where
    p: "page rk members cursor limit project = Inr p"
    and nx: "let left = entries_after rk members cursor project; entry = (\<lambda>(i, c). \<lparr>qe_chunk = c, qe_position = i\<rparr>)
     in case qp_next_cursor p of
       None \<Rightarrow> qp_entries p = map entry left
     | Some k \<Rightarrow> qp_entries p @ map entry (entries_after rk members (Some k) project) = map entry left
         \<and> length (entries_after rk members (Some k) project) < length left" by blast
  show ?case
  proof (cases "qp_next_cursor p")
    case None
    with p nx show ?thesis by (simp add: Let_def)
  next
    case (Some k)
    with nx Suc.prems have "length (entries_after rk members (Some k) project) < fuel" by (simp add: Let_def)
    from Suc.IH [OF this] p nx Some show ?thesis by (simp add: Let_def)
  qed
qed simp

text \<open>C21: A reader that follows next_cursor from the first page, for any page size and project filter,
  stops after at most one page more than there are members and has read every kept entry once,
  in order, at its position in the whole list.\<close>

theorem pages_drain_the_order:
  assumes "distinct (map ch_chunk_id members)" and "1 \<le> limit"
  shows "drain (Suc (length members)) rk members None limit project =
    Some (entries_of (ranked rk members) (map_option (\<lambda>p. {p}) project))"
proof -
  have "length (entries_after rk members None project) \<le> length members"
    unfolding entries_after_def by (rule order_trans [OF length_filter_le]) (simp add: ranked_def)
  then have "drain (Suc (length members)) rk members None limit project =
      Some (map (\<lambda>(i, c). \<lparr>qe_chunk = c, qe_position = i\<rparr>) (entries_after rk members None project))"
    by (intro drain_from [OF assms]) simp
  also have "entries_after rk members None project = filter (\<lambda>(_, c). case map_option (\<lambda>p. {p}) project of None \<Rightarrow> True
        | Some ps \<Rightarrow> (case ch_project_id c of None \<Rightarrow> False | Some p \<Rightarrow> p \<in> ps)) (List.enumerate 0 (ranked rk members))"
    unfolding entries_after_def by (intro filter_cong [OF refl]) (cases project; auto split: option.splits)
  finally show ?thesis by (simp add: entries_of_def)
qed

section \<open>Witnesses\<close>

text \<open>Three ready chunks at neighbouring doubles and one waiting to be promoted.\<close>

definition sample_fleet_row :: "ident \<Rightarrow> chunk_rows \<Rightarrow> fleet_row" where
  "sample_fleet_row i rows = \<lparr>fr_chunk_id = i, fr_minted_at = 0, fr_default_effort = None, fr_default_harnesses = [],
     fr_project_id = Some ''p'', fr_rows = rows\<rparr>"

definition sample_fleet :: fleet where
  "sample_fleet = \<lparr>fl_rows = map (\<lambda>i. sample_fleet_row i fresh_rows) [''a'', ''b'', ''c'']
       @ [sample_fleet_row ''d'' (insert_chunk_rows ''gr_1'' [] [])],
     fl_positions = [(''a'', 1, 0), (''b'', 2, 0), (''c'', 3, 0)]\<rparr>"

definition sample_ready :: "ident \<Rightarrow> chunk" where
  "sample_ready i = chunk_of (sample_fleet_row i fresh_rows)"

definition sample_executors :: executors where
  "sample_executors = (\<lambda>_. Some ExecRunner)"

lemma in_range_small: "\<bar>p\<bar> < 2 ^ 53 \<Longrightarrow> in_range p"
proof -
  assume p: "\<bar>p\<bar> < 2 ^ 53"
  have "(2::int) ^ 53 \<le> one_double * 2 ^ 53" by (simp add: one_double_def)
  with p show ?thesis unfolding in_range_def whole_bound_def using representable_small [of p] by linarith
qed

lemma sample_ids: "distinct (map fr_chunk_id (fl_rows sample_fleet))" and sample_len: "length (fl_rows sample_fleet) = 4"
  by (simp_all add: sample_fleet_def sample_fleet_row_def)

lemma sample_members:
  "ready_members sample_executors sample_fleet (load_live_statuses sample_executors sample_fleet) =
     map sample_ready [''a'', ''b'', ''c'']"
  "queue_candidates ReadyList sample_fleet (load_live_statuses sample_executors sample_fleet) =
     map sample_ready [''a'', ''b'', ''c'']"
  "queue_ordered ReadyList sample_fleet (load_live_statuses sample_executors sample_fleet) =
     map sample_ready [''a'', ''b'', ''c'']"
  by code_simp+

lemma sample_positions: "map (\<lambda>c. queue_position sample_fleet (ch_chunk_id c)) (map sample_ready [''a'', ''b'', ''c'']) =
    [Some 1, Some 2, Some 3]"
  by code_simp

lemma sample_in_range:
  assumes "x \<in> set (map sample_ready [''a'', ''b'', ''c''])"
  shows "in_range (effective_position (read_ranking sample_fleet (map sample_ready [''a'', ''b'', ''c''])) x)"
proof -
  have "queue_position sample_fleet (ch_chunk_id x) \<in> {Some 1, Some 2, Some 3}"
    using assms sample_positions by auto
  then show ?thesis unfolding rank_key_read(1) [OF assms] by (auto simp: position_of_def in_range_small)
qed

lemma sample_bounded: "rank_bounded ReadyList sample_fleet (load_live_statuses sample_executors sample_fleet)"
  unfolding rank_bounded_def Let_def sample_members(2) using sample_in_range by blast

theorem reorder_is_read_back_witness:
  "queue_ordered ReadyList (snd (projr (reorder sample_executors ReadyList [sample_ready ''c''] 9 sample_fleet)))
     (load_live_statuses sample_executors (snd (projr (reorder sample_executors ReadyList [sample_ready ''c''] 9 sample_fleet))))
   = map sample_ready [''c'', ''a'', ''b'']"
proof -
  let ?fl' = "write_positions ReadyList (map (\<lambda>(i, c). (ch_chunk_id c, double_of_int (int i)))
      (List.enumerate 0 (map sample_ready [''c'', ''a'', ''b'']))) 9 sample_fleet"
  have "replacement_order ReadyList (map sample_ready [''a'', ''b'', ''c'']) [sample_ready ''c'']
      (load_live_statuses sample_executors sample_fleet) = Inr (map sample_ready [''c'', ''a'', ''b''])" by code_simp
  then have r: "reorder sample_executors ReadyList [sample_ready ''c''] 9 sample_fleet =
      Inr (map sample_ready [''c'', ''a'', ''b''], ?fl')"
    unfolding reorder_def Let_def sample_members(3) by simp
  have "length (fl_rows sample_fleet) \<le> 2 ^ 53" by (simp add: sample_len)
  from conjunct1 [OF reorder_is_read_back [OF sample_ids this r]] show ?thesis unfolding r sum.sel snd_conv .
qed

lemma sample_small: "length (fl_rows sample_fleet) \<le> 2 ^ 52"
  by (simp add: sample_len)

lemma sample_reposition:
  assumes "resolve_move ReadyList (map sample_ready [''a'', ''b'', ''c'']) (sample_ready ''c'') (Some (sample_ready i))
     (load_live_statuses sample_executors sample_fleet) = Inr (sample_ready ''c'', Some (sample_ready i))"
    and "insertion_index (map sample_ready [''a'', ''b'']) (Some (sample_ready i)) = k"
  shows "\<exists>fl'. reposition sample_executors ReadyList (sample_ready ''c'') (Some (sample_ready i)) 9 sample_fleet =
     Inr (take k (map sample_ready [''a'', ''b'']) @ sample_ready ''c'' # drop k (map sample_ready [''a'', ''b'']), fl')"
proof -
  note move = assms(1) [folded sample_members(2)]
  obtain others and sl :: slot and j where o:
    "others = filter (\<lambda>x. ch_chunk_id x \<noteq> ch_chunk_id (sample_ready ''c''))
       (queue_ordered ReadyList sample_fleet (load_live_statuses sample_executors sample_fleet))"
    "j = insertion_index others (Some (sample_ready i))"
    "reposition sample_executors ReadyList (sample_ready ''c'') (Some (sample_ready i)) 9 sample_fleet =
       Inr (take j others @ sample_ready ''c'' # drop j others, write_positions ReadyList
         (zip (map ch_chunk_id others) (sl_renumbered sl) @ [(ch_chunk_id (sample_ready ''c''), sl_position sl)]) 9 sample_fleet)"
    by (rule reposition_steps [OF sample_ids sample_small sample_bounded move, of 9])
  have f: "filter (\<lambda>x. ch_chunk_id x \<noteq> ch_chunk_id (sample_ready ''c'')) (map sample_ready [''a'', ''b'', ''c'']) =
      map sample_ready [''a'', ''b'']" by code_simp
  have oth: "others = map sample_ready [''a'', ''b'']" using o(1) unfolding sample_members(3) f .
  have "j = k" using o(2) assms(2) unfolding oth by (rule trans)
  with o(3) oth show ?thesis by blast
qed

lemma sample_moves:
  "\<exists>fl'. reposition sample_executors ReadyList (sample_ready ''c'') (Some (sample_ready ''a'')) 9 sample_fleet =
     Inr (map sample_ready [''a'', ''c'', ''b''], fl')"
  "\<exists>fl'. reposition sample_executors ReadyList (sample_ready ''c'') (Some (sample_ready ''b'')) 9 sample_fleet =
     Inr (map sample_ready [''a'', ''b'', ''c''], fl')"
proof -
  have "resolve_move ReadyList (map sample_ready [''a'', ''b'', ''c'']) (sample_ready ''c'') (Some (sample_ready ''a''))
     (load_live_statuses sample_executors sample_fleet) = Inr (sample_ready ''c'', Some (sample_ready ''a''))"
    and "insertion_index (map sample_ready [''a'', ''b'']) (Some (sample_ready ''a'')) = 1" by code_simp+
  from sample_reposition [OF this] show "\<exists>fl'. reposition sample_executors ReadyList (sample_ready ''c'')
      (Some (sample_ready ''a'')) 9 sample_fleet = Inr (map sample_ready [''a'', ''c'', ''b''], fl')" by simp
  have "resolve_move ReadyList (map sample_ready [''a'', ''b'', ''c'']) (sample_ready ''c'') (Some (sample_ready ''b''))
     (load_live_statuses sample_executors sample_fleet) = Inr (sample_ready ''c'', Some (sample_ready ''b''))"
    and "insertion_index (map sample_ready [''a'', ''b'']) (Some (sample_ready ''b'')) = 2" by code_simp+
  from sample_reposition [OF this] show "\<exists>fl'. reposition sample_executors ReadyList (sample_ready ''c'')
      (Some (sample_ready ''b'')) 9 sample_fleet = Inr (map sample_ready [''a'', ''b'', ''c''], fl')" by simp
qed

theorem reposition_is_read_back_witness:
  "\<exists>fl'. reposition sample_executors ReadyList (sample_ready ''c'') (Some (sample_ready ''a'')) 9 sample_fleet =
     Inr (map sample_ready [''a'', ''c'', ''b''], fl')
   \<and> queue_ordered ReadyList fl' (load_live_statuses sample_executors fl') = map sample_ready [''a'', ''c'', ''b'']"
  using sample_moves(1) reposition_is_read_back [OF sample_ids sample_small sample_bounded, of "sample_ready ''c''"
      "Some (sample_ready ''a'')" 9] by blast

theorem renumbered_only_when_spent_witness:
  "\<exists>fl' p. reposition sample_executors ReadyList (sample_ready ''c'') (Some (sample_ready ''b'')) 9 sample_fleet =
     Inr (map sample_ready [''a'', ''b'', ''c''], fl') \<and> fl_positions fl' = fl_positions sample_fleet @ [(''c'', p, 9)]"
proof -
  obtain fl' where r: "reposition sample_executors ReadyList (sample_ready ''c'') (Some (sample_ready ''b'')) 9 sample_fleet =
     Inr (map sample_ready [''a'', ''b'', ''c''], fl')" using sample_moves(2) by blast
  have ids: "ch_chunk_id (sample_ready i) = i" for i by (simp add: sample_ready_def chunk_of_def sample_fleet_row_def)
  have "\<not> (\<exists>xs x m y ys. map sample_ready [''a'', ''b'', ''c''] = xs @ x # m # y # ys \<and> ch_chunk_id m = ''c'')"
  proof
    assume "\<exists>xs x m y ys. map sample_ready [''a'', ''b'', ''c''] = xs @ x # m # y # ys \<and> ch_chunk_id m = ''c''"
    then obtain xs x m y ys where e: "map sample_ready [''a'', ''b'', ''c''] = xs @ x # m # y # ys" "ch_chunk_id m = ''c''"
      by blast
    from arg_cong [OF e(1), of "map ch_chunk_id"] e(2) show False
      by (cases xs rule: list.exhaust) (auto simp: ids Cons_eq_append_conv)
  qed
  with renumbered_only_when_spent [OF sample_ids sample_small sample_bounded r] r show ?thesis unfolding ids by blast
qed

lemma sample_resting:
  "find_row sample_fleet ''d'' = Some (sample_fleet_row ''d'' (insert_chunk_rows ''gr_1'' [] []))"
  "find_row sample_fleet ''c'' = Some (sample_fleet_row ''c'' fresh_rows)"
  by code_simp+

theorem promotion_lands_where_asked_witness:
  "\<exists>fl'. promote sample_executors ''d'' \<lparr>pc_after_chunk_id = None, pc_to_top = False\<rparr> 9 sample_fleet = Inr (True, fl')
     \<and> map ch_chunk_id (ranked (read_ranking fl' (ready_members sample_executors fl' (load_live_statuses sample_executors fl')))
         (ready_members sample_executors fl' (load_live_statuses sample_executors fl'))) = [''a'', ''b'', ''c'', ''d'']"
proof -
  let ?pl = "\<lparr>pc_after_chunk_id = None, pc_to_top = False\<rparr>" and ?row = "sample_fleet_row ''d'' (insert_chunk_rows ''gr_1'' [] [])"
  have f: "facts_of sample_executors sample_fleet ''d'' = Some (load_facts sample_executors (insert_chunk_rows ''gr_1'' [] []))"
    by (simp add: facts_of_def sample_resting sample_fleet_row_def insert_chunk_rows_def)
  have w: "promotion_writes ''d'' (load_facts sample_executors (insert_chunk_rows ''gr_1'' [] [])) = Inr True" by code_simp
  obtain fl' where p: "promote sample_executors ''d'' ?pl 9 sample_fleet = Inr (True, fl')"
    by (simp add: promote_def f w Let_def resolve_landing_def require_anchor_among_def)
  have range: "\<forall>x\<in>set (ready_members sample_executors sample_fleet (load_live_statuses sample_executors sample_fleet)).
      in_range (effective_position (read_ranking sample_fleet
        (ready_members sample_executors sample_fleet (load_live_statuses sample_executors sample_fleet))) x)"
    unfolding sample_members(1) using sample_in_range by blast
  have order: "ranked (read_ranking sample_fleet (map sample_ready [''a'', ''b'', ''c''])) (map sample_ready [''a'', ''b'', ''c'']) =
      map sample_ready [''a'', ''b'', ''c'']" by code_simp
  have joins: "live_row ?row \<and> ready_ranked sample_executors (with_rows (insert_promote_rows 9) ?row)" by code_simp
  have ids: "map ch_chunk_id (placed ?pl (map sample_ready [''a'', ''b'', ''c'']) (chunk_of ?row)) = [''a'', ''b'', ''c'', ''d'']"
    by code_simp
  from promotion_lands_where_asked [OF sample_ids sample_small range p] obtain r where
    "find_row sample_fleet ''d'' = Some r"
    and e: "ranked (read_ranking fl' (ready_members sample_executors fl' (load_live_statuses sample_executors fl')))
         (ready_members sample_executors fl' (load_live_statuses sample_executors fl')) =
       (if live_row r \<and> ready_ranked sample_executors (with_rows (insert_promote_rows 9) r)
        then placed ?pl (map sample_ready [''a'', ''b'', ''c'']) (chunk_of r) else map sample_ready [''a'', ''b'', ''c''])"
    unfolding Let_def sample_members(1) order by blast
  then have "r = ?row" by (simp only: sample_resting option.inject)
  with e joins have "ranked (read_ranking fl' (ready_members sample_executors fl' (load_live_statuses sample_executors fl')))
         (ready_members sample_executors fl' (load_live_statuses sample_executors fl')) =
      placed ?pl (map sample_ready [''a'', ''b'', ''c'']) (chunk_of ?row)" by (simp only: if_True simp_thms)
  with ids p show ?thesis by (simp only: sum.inject prod.inject simp_thms)
qed

theorem pages_drain_the_order_witness:
  "drain 4 (read_ranking sample_fleet (map sample_ready [''a'', ''b'', ''c''])) (map sample_ready [''a'', ''b'', ''c'']) None 2 None
     = Some (entries_of (map sample_ready [''a'', ''b'', ''c'']) None)"
proof -
  let ?m = "map sample_ready [''a'', ''b'', ''c'']"
  have d: "distinct (map ch_chunk_id ?m)" by code_simp
  have o: "ranked (read_ranking sample_fleet ?m) ?m = ?m" by code_simp
  have n: "Suc (length ?m) = 4" by simp
  have "(1::int) \<le> 2" by simp
  from pages_drain_the_order [OF d this, of "read_ranking sample_fleet ?m" None]
  show ?thesis unfolding o n option.map .
qed

theorem demotion_lands_where_asked_witness:
  "\<exists>fl'. demote sample_executors ''c'' \<lparr>pc_after_chunk_id = None, pc_to_top = True\<rparr> 9 sample_fleet = Inr (True, fl')
     \<and> map ch_chunk_id (queue_ordered NotReadyList fl' (load_live_statuses sample_executors fl')) = [''c'', ''d'']"
proof -
  let ?pl = "\<lparr>pc_after_chunk_id = None, pc_to_top = True\<rparr>" and ?row = "sample_fleet_row ''c'' fresh_rows"
  let ?d = "chunk_of (sample_fleet_row ''d'' (insert_chunk_rows ''gr_1'' [] []))"
  have m: "queue_candidates NotReadyList sample_fleet (load_live_statuses sample_executors sample_fleet) = [?d]" by code_simp
  have l: "listed_with_status sample_fleet NotReady (load_live_statuses sample_executors sample_fleet) = [?d]" by code_simp
  have "queue_position sample_fleet (ch_chunk_id ?d) = None" "promoted_at sample_fleet (ch_chunk_id ?d) = None"
    "ch_minted_at ?d = 0" by code_simp+
  then have e: "effective_position (read_ranking sample_fleet [?d]) ?d = 0"
    by (simp add: rank_key_read position_of_def fallback_position_def timestamp_def round_ratio_def half_even_div_def)
  then have bounded: "rank_bounded NotReadyList sample_fleet (load_live_statuses sample_executors sample_fleet)"
    by (simp add: rank_bounded_def m in_range_small)
  have f: "facts_of sample_executors sample_fleet ''c'' = Some (load_facts sample_executors fresh_rows)"
    by (simp add: facts_of_def sample_resting sample_fleet_row_def fresh_rows_def record_promote_def insert_chunk_rows_def)
  have w: "demotion_writes ''c'' (load_facts sample_executors fresh_rows) = Inr True" by code_simp
  obtain fl' where p: "demote sample_executors ''c'' ?pl 9 sample_fleet = Inr (True, fl')"
    by (simp add: demote_def f w l Let_def resolve_landing_def require_anchor_among_def land_chunk_after_def
        land_after_def slot_after_def index_of_def)
  have order: "queue_ordered NotReadyList sample_fleet (load_live_statuses sample_executors sample_fleet) = [?d]"
    by (simp add: queue_ordered_def m ranked_def Let_def)
  have joins: "live_row ?row \<and> row_status sample_executors ?row = Ready" by code_simp
  have ids: "map ch_chunk_id (placed ?pl [?d] (chunk_of ?row)) = [''c'', ''d'']" by code_simp
  from demotion_lands_where_asked [OF sample_ids sample_small bounded p] obtain r where
    "find_row sample_fleet ''c'' = Some r"
    and q: "queue_ordered NotReadyList fl' (load_live_statuses sample_executors fl') =
       (if live_row r \<and> row_status sample_executors r = Ready then placed ?pl [?d] (chunk_of r) else [?d])"
    unfolding order by blast
  then have "r = ?row" by (simp only: sample_resting option.inject)
  with q joins have "queue_ordered NotReadyList fl' (load_live_statuses sample_executors fl') = placed ?pl [?d] (chunk_of ?row)"
    by (simp only: if_True simp_thms)
  with ids p show ?thesis by (simp only: sum.inject prod.inject simp_thms)
qed

end
