(* ===== verification/Flows.thy ===== *)
theory Flows
  imports Chunk_Writes
begin

text \<open>
  Delivery lines (\<open>hub/domain/delivery/flows.py\<close>, \<open>lines.py\<close>): a flow is one branch a hub node lands
  on, a submission one visit's place in the flows it holds, a turn one pass it takes at their head.
  Here are the values and the rules that judge them: when a submission may take its turn, when it
  leaves its flows, what a turn's outcome says. The tables are theory Flow_Store's. A position in a
  landing order is a double, by its value as in theory Doubles.
\<close>

section \<open>Outcomes\<close>

definition TURN_INTERRUPTED :: string where
  "TURN_INTERRUPTED = ''interrupted''"

definition TURN_CUT_OFF :: string where
  "TURN_CUT_OFF = ''cut-off''"

definition TURN_ESCALATED :: string where
  "TURN_ESCALATED = ''escalated''"

definition TURN_SUPERSEDED :: string where
  "TURN_SUPERSEDED = ''superseded''"

definition STUCK_AFTER :: nat where
  "STUCK_AFTER = 3"

datatype withdrawal = WithdrawStopped | WithdrawRestarted | WithdrawCompleted | WithdrawSuperseded

fun withdrawal_value :: "withdrawal \<Rightarrow> string" where
  "withdrawal_value WithdrawStopped = ''stopped''"
| "withdrawal_value WithdrawRestarted = ''restarted''"
| "withdrawal_value WithdrawCompleted = ''completed''"
| "withdrawal_value WithdrawSuperseded = ''superseded''"

definition LANDED_ANSWER :: string where
  "LANDED_ANSWER = ''landed''"

definition REWORK_ANSWERS :: "string set" where
  "REWORK_ANSWERS = {''conflict''}"

definition NOT_VERDICTS :: "string set" where
  "NOT_VERDICTS = {TURN_INTERRUPTED, TURN_CUT_OFF, TURN_ESCALATED} \<union> RESERVED_WAITS
     \<union> {''stopped'', ''restarted'', ''completed'', ''superseded''}"

definition closed_by_verdict :: "string option \<Rightarrow> bool" where
  "closed_by_verdict closure \<longleftrightarrow> (case closure of None \<Rightarrow> False | Some c \<Rightarrow> c \<notin> NOT_VERDICTS)"

definition closed_by_answer :: "string option \<Rightarrow> string option \<Rightarrow> bool" where
  "closed_by_answer outcome closure \<longleftrightarrow> outcome \<noteq> None \<and> closed_by_verdict closure \<and> closure = outcome"

definition is_stuck :: "string list \<Rightarrow> bool" where
  "is_stuck outcomes \<longleftrightarrow>
     (let counted = take STUCK_AFTER (filter (\<lambda>c. c \<noteq> TURN_INTERRUPTED) outcomes)
      in length counted = STUCK_AFTER \<and> (\<forall>c\<in>set counted. c = TURN_CUT_OFF))"

section \<open>Flows, submissions and turns\<close>

record flow_resource =
  res_repository_id :: ident
  res_branch :: string

definition resource :: "flow_resource \<Rightarrow> string" where
  "resource r = ''repo:'' @ res_repository_id r @ ''/'' @ res_branch r"

record flow =
  fl_flow_id :: ident
  fl_repository_id :: ident
  fl_branch :: string
  fl_created_at :: instant

definition flow_res :: "flow \<Rightarrow> string" where
  "flow_res f = resource \<lparr>res_repository_id = fl_repository_id f, res_branch = fl_branch f\<rparr>"

record submission =
  sub_submission_id :: ident
  sub_chunk_id :: ident
  sub_node_id :: ident
  sub_epoch :: int
  sub_generation :: int
  sub_arrival :: int
  sub_submitted_at :: instant
  sub_flows :: "flow list"
  sub_closed :: "string option"

record submission_closure =
  cl_outcome :: string
  cl_closed_at :: instant

record landing_terms =
  lt_repository_id :: ident
  lt_landing_policy :: string
  lt_park_timeout_hours :: "int option"
  lt_landing_position :: "int option"

record submission_record =
  srec_submission_id :: ident
  srec_node_id :: ident
  srec_epoch :: int
  srec_generation :: int
  srec_arrival :: int
  srec_submitted_at :: instant
  srec_closure :: "submission_closure option"
  srec_flow_ids :: "ident list"
  srec_terms :: "landing_terms list"

record turn =
  tn_turn_id :: ident
  tn_submission_id :: ident
  tn_started_at :: instant
  tn_ended_at :: "instant option"
  tn_outcome :: "string option"

datatype flow_change_kind = FlowSubmitted | FlowTurnStarted | FlowTurnEnded | FlowLanded | FlowWithdrawn

record flow_fact =
  ff_id :: int
  ff_flow_id :: ident
  ff_submission_id :: ident
  ff_chunk_id :: ident
  ff_kind :: flow_change_kind
  ff_at :: instant
  ff_outcome :: "string option"
  ff_revision :: "string option"
  ff_closure :: "string option"

datatype flow_verdict = VerdictLanded | VerdictBounced

definition fact_verdict :: "flow_fact \<Rightarrow> flow_verdict option" where
  "fact_verdict f =
     (if ff_kind f \<noteq> FlowTurnEnded \<or> \<not> closed_by_answer (ff_outcome f) (ff_closure f) then None
      else Some (if ff_outcome f = Some LANDED_ANSWER then VerdictLanded else VerdictBounced))"

definition outcome_among :: "string option \<Rightarrow> string set \<Rightarrow> bool" where
  "outcome_among outcome answers \<longleftrightarrow> (case outcome of None \<Rightarrow> False | Some c \<Rightarrow> c \<in> answers)"

definition is_wait :: "flow_fact \<Rightarrow> bool" where
  "is_wait f \<longleftrightarrow> ff_kind f = FlowTurnEnded \<and> outcome_among (ff_outcome f) RESERVED_WAITS"

definition is_rework :: "flow_fact \<Rightarrow> bool" where
  "is_rework f \<longleftrightarrow> ff_kind f = FlowTurnEnded \<and> outcome_among (ff_outcome f) REWORK_ANSWERS
     \<and> closed_by_answer (ff_outcome f) (ff_closure f)"

record flow_overview =
  ov_flow :: flow
  ov_newest_at :: "instant option"
  ov_last_verdict :: "flow_fact option"
  ov_last_landing :: "flow_fact option"

definition is_active :: "flow_overview \<Rightarrow> bool \<Rightarrow> instant \<Rightarrow> bool" where
  "is_active ov in_line since \<longleftrightarrow> in_line \<or> (case ov_newest_at ov of None \<Rightarrow> False | Some i \<Rightarrow> i \<ge> since)"

text \<open>A bounce is written at its visit's epoch plus one.\<close>

definition bounce_withdrew :: "bounce_fact \<Rightarrow> submission_record list \<Rightarrow> bool" where
  "bounce_withdrew b subs \<longleftrightarrow>
     (\<exists>sub\<in>set subs. srec_epoch sub = bn_epoch b - 1 \<and> closed_by_verdict (map_option cl_outcome (srec_closure sub)))"

definition bounce_is_rework :: "bounce_fact \<Rightarrow> submission_record list \<Rightarrow> bool" where
  "bounce_is_rework b subs \<longleftrightarrow> bn_cause b \<in> REWORK_ANSWERS \<and> bounce_withdrew b subs"

definition resources_moved :: "flow_resource list \<Rightarrow> flow_resource list \<Rightarrow> string list \<Rightarrow> bool" where
  "resources_moved held resolved submitted \<longleftrightarrow>
     \<not> resource ` set held \<subseteq> set submitted \<or> \<not> set submitted \<subseteq> resource ` set resolved"

text \<open>\<open>FlowFactWritten\<close>: what a write appended to a flow's record.\<close>

record flow_fact_written =
  fw_flow_id :: ident
  fw_kind :: flow_change_kind
  fw_submission_id :: ident
  fw_chunk_id :: ident
  fw_outcome :: "string option"

definition facts_each ::
  "ident list \<Rightarrow> flow_change_kind \<Rightarrow> ident \<Rightarrow> ident \<Rightarrow> string option \<Rightarrow> flow_fact_written list" where
  "facts_each flow_ids kind submission_id chunk_id outcome = map (\<lambda>flow_id.
     \<lparr>fw_flow_id = flow_id, fw_kind = kind, fw_submission_id = submission_id, fw_chunk_id = chunk_id,
      fw_outcome = outcome\<rparr>) flow_ids"

definition written_on :: "submission \<Rightarrow> flow_change_kind \<Rightarrow> string option \<Rightarrow> flow_fact_written list" where
  "written_on sub kind outcome =
     facts_each (map fl_flow_id (sub_flows sub)) kind (sub_submission_id sub) (sub_chunk_id sub) outcome"

record admitted_turn =
  adm_turn :: turn
  adm_submission :: submission

section \<open>The poll cadence\<close>

definition seconds :: "int \<Rightarrow> int" where
  "seconds n = n * 1000000"

definition DEFAULT_POLL_INTERVAL :: int where
  "DEFAULT_POLL_INTERVAL = seconds 30"

definition DEFAULT_POLL_TIMEOUT :: int where
  "DEFAULT_POLL_TIMEOUT = seconds (3 * 3600)"

definition PARK_POLL_FLOOR :: int where
  "PARK_POLL_FLOOR = seconds (2 * 60)"

record poll_policy =
  pp_interval :: int
  pp_timeout :: int

definition default_policy :: poll_policy where
  "default_policy = \<lparr>pp_interval = DEFAULT_POLL_INTERVAL, pp_timeout = DEFAULT_POLL_TIMEOUT\<rparr>"

definition PollPolicy_of :: "node \<Rightarrow> poll_policy" where
  "PollPolicy_of n =
     \<lparr>pp_interval = (case node_poll_interval_seconds n of None \<Rightarrow> DEFAULT_POLL_INTERVAL | Some i \<Rightarrow> seconds i),
      pp_timeout = (case node_poll_timeout_seconds n of None \<Rightarrow> DEFAULT_POLL_TIMEOUT | Some i \<Rightarrow> seconds i)\<rparr>"

definition interval_for :: "poll_policy \<Rightarrow> string \<Rightarrow> int" where
  "interval_for p kind = (if kind = ''awaiting-merge'' then max (pp_interval p) PARK_POLL_FLOOR else pp_interval p)"

definition due_at :: "poll_policy \<Rightarrow> hub_node_poll_fact \<Rightarrow> instant" where
  "due_at p row =
     (let due = (case poll_last_polled_at row of None \<Rightarrow> poll_polled_at row | Some i \<Rightarrow> i) + interval_for p (poll_kind row)
      in case poll_next_poll_at row of None \<Rightarrow> due | Some i \<Rightarrow> max due i)"

section \<open>Where a submission's chunk stands\<close>

definition stands_at :: "chunk_facts \<Rightarrow> submission \<Rightarrow> bool" where
  "stands_at facts sub \<longleftrightarrow>
     (case latest_movement facts of None \<Rightarrow> False | Some m \<Rightarrow> mv_node_id m = Some (sub_node_id sub))"

definition is_current :: "chunk_facts \<Rightarrow> submission \<Rightarrow> bool" where
  "is_current facts sub \<longleftrightarrow> visit_is_current facts (sub_node_id sub) (sub_epoch sub)"

definition may_pass :: "chunk_facts \<Rightarrow> submission \<Rightarrow> bool" where
  "may_pass facts sub \<longleftrightarrow> delivering_at facts (sub_node_id sub) (sub_epoch sub)"

definition held_by_a_person :: "chunk_facts \<Rightarrow> submission \<Rightarrow> bool" where
  "held_by_a_person facts sub \<longleftrightarrow>
     stands_at facts sub \<and> epoch_floor facts > sub_epoch sub \<and> status facts \<in> {NeedsHuman, Paused}"

definition withdrawal_for :: "chunk_facts \<Rightarrow> submission \<Rightarrow> withdrawal option" where
  "withdrawal_for facts sub =
     (if status facts = Stopped then Some WithdrawStopped
      else if status facts = Done \<and> cf_operator_completed facts then Some WithdrawCompleted
      else if is_current facts sub \<or> held_by_a_person facts sub then None
      else if restarted_past facts (sub_epoch sub) then Some WithdrawRestarted
      else Some WithdrawSuperseded)"

definition last_moved_at :: "chunk_facts \<Rightarrow> instant option" where
  "last_moved_at facts = option_max
     (map tr_recorded_at (cf_transitions facts) @ map mg_recorded_at (cf_migrations facts)
      @ map rs_recorded_at (cf_restarts facts) @ map esc_recorded_at (cf_escalations facts)
      @ map rq_requeued_at (cf_requeues facts) @ map pz_set_at (cf_pauses facts)
      @ List.map_filter id [cf_stopped_at facts, cf_operator_completed_at facts])"

section \<open>The line\<close>

record flow_line =
  ln_submissions :: "submission list"
  ln_facts :: "ident \<Rightarrow> chunk_facts"
  ln_policies :: "ident \<Rightarrow> poll_policy"
  ln_turning :: "ident set"

definition latest_poll :: "flow_line \<Rightarrow> submission \<Rightarrow> hub_node_poll_fact option" where
  "latest_poll ln sub =
     (let polls = hub_node_poll_history (ln_facts ln (sub_chunk_id sub)) (sub_node_id sub) (sub_epoch sub)
      in if polls = [] then None else Some (last polls))"

definition line_due_at :: "flow_line \<Rightarrow> submission \<Rightarrow> instant option" where
  "line_due_at ln sub = map_option (due_at (ln_policies ln (sub_submission_id sub))) (latest_poll ln sub)"

definition eligible :: "flow_line \<Rightarrow> instant \<Rightarrow> submission \<Rightarrow> bool" where
  "eligible ln now sub \<longleftrightarrow>
     (if \<not> may_pass (ln_facts ln (sub_chunk_id sub)) sub then False
      else if sub_submission_id sub \<in> ln_turning ln then False
      else case line_due_at ln sub of None \<Rightarrow> True | Some due \<Rightarrow> due \<le> now)"

definition held_ids :: "submission \<Rightarrow> ident set" where
  "held_ids sub = fl_flow_id ` set (sub_flows sub)"

definition is_next :: "flow_line \<Rightarrow> instant \<Rightarrow> submission \<Rightarrow> bool" where
  "is_next ln now sub \<longleftrightarrow>
     eligible ln now sub
     \<and> \<not> (\<exists>other\<in>set (ln_submissions ln). sub_arrival other < sub_arrival sub
            \<and> held_ids sub \<inter> held_ids other \<noteq> {} \<and> eligible ln now other)"

datatype place_state = PlaceLanding | PlaceNext | PlaceWaiting | PlacePolling | PlaceAwaitingMerge | PlacePassedOver

record flow_place =
  plc_submission :: submission
  plc_flow :: flow
  plc_state :: place_state
  plc_position :: int
  plc_due_at :: "instant option"

definition place_state_of :: "flow_line \<Rightarrow> instant \<Rightarrow> submission \<Rightarrow> place_state \<times> instant option" where
  "place_state_of ln now sub =
     (if sub_submission_id sub \<in> ln_turning ln then (PlaceLanding, None)
      else if \<not> may_pass (ln_facts ln (sub_chunk_id sub)) sub then (PlacePassedOver, None)
      else let due = line_due_at ln sub in
        if (case due of None \<Rightarrow> False | Some d \<Rightarrow> d > now) then
          ((case latest_poll ln sub of None \<Rightarrow> PlacePolling
            | Some poll \<Rightarrow> if poll_kind poll = ''awaiting-merge'' then PlaceAwaitingMerge else PlacePolling), due)
        else (if is_next ln now sub then PlaceNext else PlaceWaiting, None))"

definition eligible_ahead :: "flow_line \<Rightarrow> instant \<Rightarrow> submission \<Rightarrow> flow \<Rightarrow> int" where
  "eligible_ahead ln now sub f =
     int (length (filter (\<lambda>other. sub_arrival other < sub_arrival sub \<and> fl_flow_id f \<in> held_ids other
        \<and> eligible ln now other) (ln_submissions ln)))"

definition places_of :: "flow_line \<Rightarrow> instant \<Rightarrow> submission \<Rightarrow> flow_place list" where
  "places_of ln now sub =
     (let (state, due) = place_state_of ln now sub in
      map (\<lambda>f. \<lparr>plc_submission = sub, plc_flow = f, plc_state = state,
                 plc_position = (if state \<in> {PlaceLanding, PlaceNext} then 1 else 1 + eligible_ahead ln now sub f),
                 plc_due_at = due\<rparr>) (sub_flows sub))"

definition places :: "flow_line \<Rightarrow> instant \<Rightarrow> flow_place list" where
  "places ln now = concat (map (places_of ln now) (ln_submissions ln))"

text \<open>\<open>FlowLineFactory\<close>: the line over the submissions handed in, from the facts loaded for their chunks
  and the nodes of their chunks' graphs, by chunk and node id.\<close>

definition line_nodes :: "(ident \<Rightarrow> graph option) \<Rightarrow> ident \<times> ident \<Rightarrow> node option" where
  "line_nodes graph_of k = (case graph_of (fst k) of None \<Rightarrow> None
     | Some g \<Rightarrow> List.find (\<lambda>n. node_id n = snd k) (rev (graph_nodes g)))"

definition line_of ::
  "(ident \<Rightarrow> chunk_facts option) \<Rightarrow> (ident \<Rightarrow> graph option) \<Rightarrow> ident set \<Rightarrow> submission list \<Rightarrow> flow_line" where
  "line_of loaded graph_of turning subs = \<lparr>
     ln_submissions = subs,
     ln_facts = (\<lambda>chunk_id. or_default (loaded chunk_id)),
     ln_policies = (\<lambda>submission_id.
       case List.find (\<lambda>sub. sub_submission_id sub = submission_id) subs of None \<Rightarrow> default_policy
       | Some sub \<Rightarrow> (case line_nodes graph_of (sub_chunk_id sub, sub_node_id sub) of
           None \<Rightarrow> default_policy | Some n \<Rightarrow> PollPolicy_of n)),
     ln_turning = turning\<rparr>"

end
