(* ===== verification/Flow_Store.thy ===== *)
theory Flow_Store
  imports Flows
begin

text \<open>
  A tenant's flow tables and the transactions on them (\<open>hub/store/internal/flow_store.py\<close>,
  \<open>flow_rows.py\<close>). A table is the list of its rows in insertion order. Every write holds the
  tenant row's lock, so each is one function of the tables; the ids a write mints are arguments. A fact's and an
  event's autoincremented id is its place in the table; an event's detail is left to its writer. The landing of a merge is joined to the chunk's rows, which
  the same transaction writes.
\<close>

section \<open>Tables\<close>

record submission_row =
  fs_submission_id :: ident
  fs_chunk_id :: ident
  fs_node_id :: ident
  fs_epoch :: int
  fs_generation :: int
  fs_arrival :: int
  fs_submitted_at :: instant

record turn_event =
  te_kind :: string
  te_chunk_id :: "ident option"
  te_node_name :: "ident option"
  te_message :: string

record flow_tables =
  ft_flows :: "flow list"
  ft_submissions :: "submission_row list"
  ft_held :: "(ident \<times> ident) list"
  ft_closures :: "(ident \<times> submission_closure) list"
  ft_terms :: "(ident \<times> landing_terms) list"
  ft_turns :: "turn list"
  ft_facts :: "flow_fact list"
  ft_events :: "(turn_event \<times> instant) list"

definition no_flows :: flow_tables where
  "no_flows = \<lparr>ft_flows = [], ft_submissions = [], ft_held = [], ft_closures = [], ft_terms = [], ft_turns = [],
     ft_facts = [], ft_events = []\<rparr>"

section \<open>Reads\<close>

definition flows_held :: "flow_tables \<Rightarrow> ident \<Rightarrow> flow list" where
  "flows_held s submission_id =
     sort_key flow_res (filter (\<lambda>f. (submission_id, fl_flow_id f) \<in> set (ft_held s)) (ft_flows s))"

definition closure_of :: "flow_tables \<Rightarrow> ident \<Rightarrow> submission_closure option" where
  "closure_of s submission_id = map_of (ft_closures s) submission_id"

definition is_open :: "flow_tables \<Rightarrow> ident \<Rightarrow> bool" where
  "is_open s submission_id \<longleftrightarrow> closure_of s submission_id = None"

definition turn_open :: "turn \<Rightarrow> bool" where
  "turn_open t \<longleftrightarrow> tn_ended_at t = None"

definition has_open_turn :: "flow_tables \<Rightarrow> ident \<Rightarrow> bool" where
  "has_open_turn s submission_id \<longleftrightarrow> (\<exists>t\<in>set (ft_turns s). tn_submission_id t = submission_id \<and> turn_open t)"

definition find_submission :: "flow_tables \<Rightarrow> ident \<Rightarrow> submission_row option" where
  "find_submission s submission_id = List.find (\<lambda>r. fs_submission_id r = submission_id) (ft_submissions s)"

definition submission_of :: "flow_tables \<Rightarrow> string option \<Rightarrow> submission_row \<Rightarrow> submission" where
  "submission_of s closed r =
     \<lparr>sub_submission_id = fs_submission_id r, sub_chunk_id = fs_chunk_id r, sub_node_id = fs_node_id r,
      sub_epoch = fs_epoch r, sub_generation = fs_generation r, sub_arrival = fs_arrival r,
      sub_submitted_at = fs_submitted_at r, sub_flows = flows_held s (fs_submission_id r), sub_closed = closed\<rparr>"

definition open_submissions_from :: "int \<Rightarrow> flow_tables \<Rightarrow> submission list" where
  "open_submissions_from floor s = map (submission_of s None)
     (sort_key fs_arrival (filter (\<lambda>r. fs_arrival r \<ge> floor \<and> is_open s (fs_submission_id r)) (ft_submissions s)))"

definition open_submissions_on :: "ident set \<Rightarrow> flow_tables \<Rightarrow> submission list" where
  "open_submissions_on flow_ids s = map (submission_of s None)
     (sort_key fs_arrival (filter (\<lambda>r. (\<exists>f\<in>flow_ids. (fs_submission_id r, f) \<in> set (ft_held s))
        \<and> is_open s (fs_submission_id r)) (ft_submissions s)))"

definition open_turns :: "flow_tables \<Rightarrow> turn list" where
  "open_turns s = sort_key tn_turn_id (filter turn_open (ft_turns s))"

definition visit_row :: "ident \<Rightarrow> ident \<Rightarrow> int \<Rightarrow> submission_row \<Rightarrow> bool" where
  "visit_row chunk_id nid epoch r \<longleftrightarrow> fs_chunk_id r = chunk_id \<and> fs_node_id r = nid \<and> fs_epoch r = epoch"

definition submission_for_visit :: "flow_tables \<Rightarrow> ident \<Rightarrow> ident \<Rightarrow> int \<Rightarrow> submission option" where
  "submission_for_visit s chunk_id nid epoch =
     map_option (\<lambda>r. submission_of s (map_option cl_outcome (closure_of s (fs_submission_id r))) r)
       (max_by fs_generation (filter (visit_row chunk_id nid epoch) (ft_submissions s)))"

definition submissions_of :: "flow_tables \<Rightarrow> ident \<Rightarrow> submission_record list" where
  "submissions_of s chunk_id = map (\<lambda>r.
     \<lparr>srec_submission_id = fs_submission_id r, srec_node_id = fs_node_id r, srec_epoch = fs_epoch r,
      srec_generation = fs_generation r, srec_arrival = fs_arrival r, srec_submitted_at = fs_submitted_at r,
      srec_closure = closure_of s (fs_submission_id r),
      srec_flow_ids = map fl_flow_id (flows_held s (fs_submission_id r)),
      srec_terms = sort_key lt_repository_id
        (map snd (filter (\<lambda>t. fst t = fs_submission_id r) (ft_terms s)))\<rparr>)
     (sort_key fs_arrival (filter (\<lambda>r. fs_chunk_id r = chunk_id) (ft_submissions s)))"

definition turn_outcomes :: "flow_tables \<Rightarrow> ident \<Rightarrow> ident \<Rightarrow> int \<Rightarrow> string list" where
  "turn_outcomes s chunk_id nid epoch =
     (let ids = fs_submission_id ` set (filter (visit_row chunk_id nid epoch) (ft_submissions s));
          ended = filter (\<lambda>t. tn_submission_id t \<in> ids \<and> \<not> turn_open t) (ft_turns s)
      in map (\<lambda>t. case tn_outcome t of None \<Rightarrow> [] | Some c \<Rightarrow> c)
           (rev (sort_key (\<lambda>t. (tn_ended_at t, tn_turn_id t)) ended)))"

definition first_turn_at :: "flow_tables \<Rightarrow> ident \<Rightarrow> ident \<Rightarrow> int \<Rightarrow> instant option" where
  "first_turn_at s chunk_id nid epoch =
     (let ids = fs_submission_id ` set (filter (visit_row chunk_id nid epoch) (ft_submissions s));
          started = map tn_started_at (filter (\<lambda>t. tn_submission_id t \<in> ids) (ft_turns s))
      in if started = [] then None else Some (Min (set started)))"

definition terms_of :: "flow_tables \<Rightarrow> ident \<Rightarrow> ident \<Rightarrow> landing_terms option" where
  "terms_of s submission_id repository_id =
     map_option snd (List.find (\<lambda>t. fst t = submission_id \<and> lt_repository_id (snd t) = repository_id) (ft_terms s))"

text \<open>A flow fact as it reads beside its submission's closure.\<close>

definition with_closure :: "flow_tables \<Rightarrow> flow_fact \<Rightarrow> flow_fact" where
  "with_closure s f = f\<lparr>ff_closure := map_option cl_outcome (closure_of s (ff_submission_id f))\<rparr>"

definition record_page :: "flow_tables \<Rightarrow> ident \<Rightarrow> int option \<Rightarrow> nat \<Rightarrow> flow_fact list" where
  "record_page s flow_id before limit = map (with_closure s) (take limit
     (rev (sort_key ff_id (filter (\<lambda>f. ff_flow_id f = flow_id
        \<and> (case before of None \<Rightarrow> True | Some b \<Rightarrow> ff_id f < b)) (ft_facts s)))))"

definition facts_of_submission :: "flow_tables \<Rightarrow> ident \<Rightarrow> flow_fact list" where
  "facts_of_submission s submission_id =
     map (with_closure s) (sort_key ff_id (filter (\<lambda>f. ff_submission_id f = submission_id) (ft_facts s)))"

definition flow_overview_of :: "flow_tables \<Rightarrow> flow \<Rightarrow> flow_overview" where
  "flow_overview_of s f =
     (let mine = filter (\<lambda>x. ff_flow_id x = fl_flow_id f) (ft_facts s)
      in \<lparr>ov_flow = f,
          ov_newest_at = map_option ff_at (max_by ff_id mine),
          ov_last_verdict = max_by ff_id (filter (\<lambda>x. ff_kind x = FlowTurnEnded
             \<and> (case ff_outcome x of None \<Rightarrow> False | Some c \<Rightarrow> c \<notin> NOT_VERDICTS)
             \<and> ff_closure x = ff_outcome x) (map (with_closure s) mine)),
          ov_last_landing = max_by ff_id (filter (\<lambda>x. ff_kind x = FlowLanded) (map (with_closure s) mine))\<rparr>)"

section \<open>Writing facts and events\<close>

definition next_fact_id :: "flow_tables \<Rightarrow> int" where
  "next_fact_id s = int (length (ft_facts s)) + 1"

definition insert_fact ::
  "ident \<Rightarrow> ident \<Rightarrow> flow_change_kind \<Rightarrow> string option \<Rightarrow> string option \<Rightarrow> instant \<Rightarrow> ident \<Rightarrow> flow_tables \<Rightarrow> flow_tables" where
  "insert_fact submission_id chunk_id kind outcome revision at flow_id s = s\<lparr>ft_facts := ft_facts s @
     [\<lparr>ff_id = next_fact_id s, ff_flow_id = flow_id, ff_submission_id = submission_id, ff_chunk_id = chunk_id,
       ff_kind = kind, ff_at = at, ff_outcome = outcome, ff_revision = revision, ff_closure = None\<rparr>]\<rparr>"

definition write_facts ::
  "ident list \<Rightarrow> ident \<Rightarrow> ident \<Rightarrow> flow_change_kind \<Rightarrow> string option \<Rightarrow> string option \<Rightarrow> instant \<Rightarrow> flow_tables
     \<Rightarrow> flow_fact_written list \<times> flow_tables" where
  "write_facts flow_ids submission_id chunk_id kind outcome revision at s =
     (facts_each flow_ids kind submission_id chunk_id outcome,
      fold (insert_fact submission_id chunk_id kind outcome revision at) flow_ids s)"

definition write_event :: "turn_event \<Rightarrow> instant \<Rightarrow> flow_tables \<Rightarrow> int \<times> flow_tables" where
  "write_event e at s = (int (length (ft_events s)) + 1, s\<lparr>ft_events := ft_events s @ [(e, at)]\<rparr>)"

text \<open>The submission's chunk and the flows it holds; \<open>scalar_one\<close> over a foreign key.\<close>

definition held_by :: "flow_tables \<Rightarrow> ident \<Rightarrow> ident \<times> flow list" where
  "held_by s submission_id =
     ((case find_submission s submission_id of None \<Rightarrow> [] | Some r \<Rightarrow> fs_chunk_id r), flows_held s submission_id)"

section \<open>Closing a submission and ending a turn\<close>

definition close_submission ::
  "ident \<Rightarrow> string \<Rightarrow> instant \<Rightarrow> flow_tables \<Rightarrow> flow_fact_written list option \<times> flow_tables" where
  "close_submission submission_id outcome at s =
     (if \<not> is_open s submission_id then (None, s)
      else let s1 = s\<lparr>ft_closures := ft_closures s @ [(submission_id, \<lparr>cl_outcome = outcome, cl_closed_at = at\<rparr>)]\<rparr>;
               (chunk_id, flows) = held_by s1 submission_id;
               (written, s2) = write_facts (map fl_flow_id flows) submission_id chunk_id FlowWithdrawn (Some outcome) None at s1
           in (Some written, s2))"

definition end_row :: "ident \<Rightarrow> string \<Rightarrow> instant \<Rightarrow> turn \<Rightarrow> turn" where
  "end_row turn_id outcome at t =
     (if tn_turn_id t = turn_id then t\<lparr>tn_ended_at := Some at, tn_outcome := Some outcome\<rparr> else t)"

definition end_turn ::
  "ident \<Rightarrow> string \<Rightarrow> instant \<Rightarrow> flow_tables \<Rightarrow> (ident \<times> flow_fact_written list) option \<times> flow_tables" where
  "end_turn turn_id outcome at s =
     (case List.find (\<lambda>t. tn_turn_id t = turn_id \<and> turn_open t) (ft_turns s) of
        None \<Rightarrow> (None, s)
      | Some t \<Rightarrow>
          let submission_id = tn_submission_id t;
              s1 = s\<lparr>ft_turns := map (end_row turn_id outcome at) (ft_turns s)\<rparr>;
              (chunk_id, flows) = held_by s1 submission_id;
              (written, s2) = write_facts (map fl_flow_id flows) submission_id chunk_id FlowTurnEnded (Some outcome) None at s1
          in (Some (submission_id, written), s2))"

text \<open>A lever's withdrawal, in the transaction of a stop, restart or completion.\<close>

definition waiting_ids :: "ident \<Rightarrow> flow_tables \<Rightarrow> ident list" where
  "waiting_ids chunk_id s = map fs_submission_id (sort_key fs_arrival (filter (\<lambda>r. fs_chunk_id r = chunk_id
     \<and> is_open s (fs_submission_id r) \<and> \<not> has_open_turn s (fs_submission_id r)) (ft_submissions s)))"

definition withdraw_waiting ::
  "ident \<Rightarrow> withdrawal \<Rightarrow> instant \<Rightarrow> flow_tables \<Rightarrow> flow_fact_written list \<times> flow_tables" where
  "withdraw_waiting chunk_id outcome at s = fold (\<lambda>submission_id (facts, s).
     let (written, s') = close_submission submission_id (withdrawal_value outcome) at s
     in (facts @ (case written of None \<Rightarrow> [] | Some w \<Rightarrow> w), s')) (waiting_ids chunk_id s) ([], s)"

definition close_waiting ::
  "ident \<Rightarrow> withdrawal \<Rightarrow> instant \<Rightarrow> flow_tables \<Rightarrow> flow_fact_written list option \<times> flow_tables" where
  "close_waiting submission_id outcome at s =
     (if has_open_turn s submission_id then (None, s)
      else close_submission submission_id (withdrawal_value outcome) at s)"

definition close_when ::
  "string option \<Rightarrow> ident \<Rightarrow> instant \<Rightarrow> flow_fact_written list \<times> flow_tables \<Rightarrow> flow_fact_written list \<times> flow_tables" where
  "close_when closure submission_id at ws =
     (case closure of None \<Rightarrow> ws
      | Some outcome \<Rightarrow> (let (more, s') = close_submission submission_id outcome at (snd ws)
          in (fst ws @ (case more of None \<Rightarrow> [] | Some w \<Rightarrow> w), s')))"

definition end_turn_locked ::
  "ident \<Rightarrow> string \<Rightarrow> string option \<Rightarrow> turn_event option \<Rightarrow> instant \<Rightarrow> flow_tables
     \<Rightarrow> flow_fact_written list option \<times> flow_tables" where
  "end_turn_locked turn_id outcome closure event at s =
     (case end_turn turn_id outcome at s of
        (None, s1) \<Rightarrow> (None, s1)
      | (Some (submission_id, written), s1) \<Rightarrow>
          let s2 = (case event of None \<Rightarrow> s1 | Some e \<Rightarrow> snd (write_event e at s1));
              (all, s3) = close_when closure submission_id at (written, s2)
          in (Some all, s3))"

definition end_turn_interrupted ::
  "ident \<Rightarrow> withdrawal option \<Rightarrow> turn_event \<Rightarrow> instant \<Rightarrow> flow_tables \<Rightarrow> flow_fact_written list option \<times> flow_tables" where
  "end_turn_interrupted turn_id withdrawal event at s =
     end_turn_locked turn_id TURN_INTERRUPTED (map_option withdrawal_value withdrawal) (Some event) at s"

section \<open>Submitting a visit\<close>

text \<open>\<open>_flow_for\<close>: the flow on the resource, made now when none is.\<close>

definition flow_for :: "instant \<Rightarrow> flow_resource \<Rightarrow> ident \<Rightarrow> flow_tables \<Rightarrow> flow \<times> flow_tables" where
  "flow_for at r fresh_id s =
     (case List.find (\<lambda>f. flow_res f = resource r) (ft_flows s) of
        Some f \<Rightarrow> (f, s)
      | None \<Rightarrow>
          let f = \<lparr>fl_flow_id = fresh_id, fl_repository_id = res_repository_id r, fl_branch = res_branch r,
                   fl_created_at = at\<rparr>
          in (f, s\<lparr>ft_flows := ft_flows s @ [f]\<rparr>))"

definition flows_for ::
  "instant \<Rightarrow> (flow_resource \<Rightarrow> ident) \<Rightarrow> flow_resource list \<Rightarrow> flow_tables \<Rightarrow> flow list \<times> flow_tables" where
  "flows_for at fresh_id rs s =
     fold (\<lambda>r (flows, s). let (f, s') = flow_for at r (fresh_id r) s in (flows @ [f], s')) rs ([], s)"

record visit_submission =
  vs_chunk_id :: ident
  vs_node_id :: ident
  vs_epoch :: int
  vs_generation :: int
  vs_resources :: "flow_resource list"
  vs_at :: instant
  vs_submission_id :: ident
  vs_flow_id :: "flow_resource \<Rightarrow> ident"

definition next_arrival :: "flow_tables \<Rightarrow> int" where
  "next_arrival s = col_max (map fs_arrival (ft_submissions s)) + 1"

definition submit :: "visit_submission \<Rightarrow> flow_tables \<Rightarrow> submission option \<times> flow_tables" where
  "submit v s =
     (if \<exists>r\<in>set (ft_submissions s). visit_row (vs_chunk_id v) (vs_node_id v) (vs_epoch v) r
            \<and> fs_generation r = vs_generation v
      then (None, s)
      else
        let row = \<lparr>fs_submission_id = vs_submission_id v, fs_chunk_id = vs_chunk_id v, fs_node_id = vs_node_id v,
                   fs_epoch = vs_epoch v, fs_generation = vs_generation v, fs_arrival = next_arrival s,
                   fs_submitted_at = vs_at v\<rparr>;
            s1 = s\<lparr>ft_submissions := ft_submissions s @ [row]\<rparr>;
            (flows, s2) = flows_for (vs_at v) (vs_flow_id v) (dedup (vs_resources v)) s1;
            s3 = s2\<lparr>ft_held := ft_held s2 @ map (\<lambda>f. (vs_submission_id v, fl_flow_id f)) flows\<rparr>;
            s4 = snd (write_facts (map fl_flow_id flows) (vs_submission_id v) (vs_chunk_id v) FlowSubmitted None None (vs_at v) s3)
        in (Some (submission_of s4 None row \<lparr>sub_flows := flows\<rparr>), s4))"

section \<open>Taking a turn\<close>

definition flow_busy :: "flow_tables \<Rightarrow> ident set \<Rightarrow> bool" where
  "flow_busy s flow_ids \<longleftrightarrow>
     (\<exists>t\<in>set (ft_turns s). turn_open t \<and> (\<exists>f\<in>flow_ids. (tn_submission_id t, f) \<in> set (ft_held s)))"

definition ahead_on :: "flow_tables \<Rightarrow> ident set \<Rightarrow> int \<Rightarrow> ident set" where
  "ahead_on s flow_ids arrival = fs_submission_id ` set (filter (\<lambda>r.
     (\<exists>f\<in>flow_ids. (fs_submission_id r, f) \<in> set (ft_held s)) \<and> fs_arrival r < arrival
       \<and> is_open s (fs_submission_id r)) (ft_submissions s))"

definition earlier_terms :: "flow_tables \<Rightarrow> submission_row \<Rightarrow> ident \<Rightarrow> landing_terms option" where
  "earlier_terms s row repository_id =
     (let earlier = rev (sort_key fs_generation (filter (\<lambda>r. visit_row (fs_chunk_id row) (fs_node_id row) (fs_epoch row) r
            \<and> fs_generation r < fs_generation row) (ft_submissions s)))
      in if fs_generation row > 0
         then List.find (\<lambda>_. True) (List.map_filter (\<lambda>r. terms_of s (fs_submission_id r) repository_id) earlier)
         else None)"

definition take_terms_for :: "submission_row \<Rightarrow> landing_terms list \<Rightarrow> ident \<Rightarrow> flow_tables \<Rightarrow> flow_tables" where
  "take_terms_for row fresh repository_id s =
     (if terms_of s (fs_submission_id row) repository_id \<noteq> None then s
      else case (case earlier_terms s row repository_id of Some t \<Rightarrow> Some t
                 | None \<Rightarrow> List.find (\<lambda>t. lt_repository_id t = repository_id) (rev fresh)) of
        None \<Rightarrow> s
      | Some chosen \<Rightarrow> s\<lparr>ft_terms := ft_terms s @ [(fs_submission_id row, chosen\<lparr>lt_repository_id := repository_id\<rparr>)]\<rparr>)"

definition take_terms :: "submission_row \<Rightarrow> flow list \<Rightarrow> landing_terms list \<Rightarrow> flow_tables \<Rightarrow> flow_tables" where
  "take_terms row flows fresh s = fold (take_terms_for row fresh) (sort (dedup (map fl_repository_id flows))) s"

definition take_turn ::
  "ident \<Rightarrow> ident set \<Rightarrow> landing_terms list \<Rightarrow> instant \<Rightarrow> ident \<Rightarrow> flow_tables \<Rightarrow> turn option \<times> flow_tables" where
  "take_turn submission_id passed_over terms at turn_id s =
     (case find_submission s submission_id of None \<Rightarrow> (None, s)
      | Some row \<Rightarrow>
          let flows = flows_held s submission_id; ids = fl_flow_id ` set flows
          in if \<not> is_open s submission_id \<or> has_open_turn s submission_id then (None, s)
             else if flows \<noteq> [] \<and> (flow_busy s ids \<or> \<not> ahead_on s ids (fs_arrival row) \<subseteq> passed_over) then (None, s)
             else
               let t = \<lparr>tn_turn_id = turn_id, tn_submission_id = submission_id, tn_started_at = at, tn_ended_at = None,
                        tn_outcome = None\<rparr>;
                   s1 = s\<lparr>ft_turns := ft_turns s @ [t]\<rparr>;
                   s2 = snd (write_facts (map fl_flow_id flows) submission_id (fs_chunk_id row) FlowTurnStarted None None at s1)
               in (Some t, take_terms row flows terms s2))"

section \<open>Recording a landing\<close>

record flow_landing =
  fg_flow :: flow
  fg_submission_id :: ident
  fg_chunk_id :: ident
  fg_event :: turn_event

definition FlowLanding_of :: "flow \<Rightarrow> submission \<Rightarrow> ident \<Rightarrow> string \<Rightarrow> flow_landing" where
  "FlowLanding_of f sub name revision =
     \<lparr>fg_flow = f, fg_submission_id = sub_submission_id sub, fg_chunk_id = sub_chunk_id sub,
      fg_event = \<lparr>te_kind = ''flow-landed'', te_chunk_id = Some (sub_chunk_id sub), te_node_name = Some name,
        te_message = ''landed on '' @ fl_branch f @ '' at '' @ revision\<rparr>\<rparr>"

definition write_landing :: "flow_landing \<Rightarrow> string \<Rightarrow> instant \<Rightarrow> flow_tables \<Rightarrow> (int \<times> flow_fact_written list) \<times> flow_tables" where
  "write_landing landing revision at s =
     (let (written, s1) = write_facts [fl_flow_id (fg_flow landing)] (fg_submission_id landing) (fg_chunk_id landing)
            FlowLanded None (Some revision) at s;
          (event_id, s2) = write_event (fg_event landing) at s1
      in ((event_id, written), s2))"

record landing_written =
  lwr_refused :: bool
  lwr_event_id :: "int option"
  lwr_written :: "flow_fact_written list"

definition record_flow_landing ::
  "flow_landing \<Rightarrow> landing_write \<Rightarrow> chunk_rows \<times> flow_tables \<Rightarrow> store_error + (landing_written \<times> chunk_rows \<times> flow_tables)" where
  "record_flow_landing landing w rs =
     (case write_landing_rows w (fst rs) of
        Inl err \<Rightarrow> Inl err
      | Inr ((refused, wrote), rows) \<Rightarrow>
          if \<not> wrote then Inr (\<lparr>lwr_refused = refused, lwr_event_id = None, lwr_written = []\<rparr>, rows, snd rs)
          else let ((event_id, written), s) = write_landing landing (lw_revision w) (lw_at w) (snd rs)
               in Inr (\<lparr>lwr_refused = refused, lwr_event_id = Some event_id, lwr_written = written\<rparr>, rows, s))"

end
