(* ===== verification/Texts.thy ===== *)
theory Texts
  imports Prelude
begin

text \<open>
  Python's string idioms that the parsers share (\<open>str.partition\<close>, \<open>str.split\<close>, \<open>str.lower\<close> and the
  like), and the lemmas that take a string apart as it was put together. Letter case and digits are
  those of ASCII text.
\<close>

section \<open>Splitting strings\<close>

text \<open>\<open>str.partition\<close> and \<open>str.rpartition\<close> on one character: the parts, the separator between them left out.\<close>

definition partition_at :: "char \<Rightarrow> string \<Rightarrow> string \<times> string" where
  "partition_at sep s = (takeWhile (\<lambda>c. c \<noteq> sep) s, drop 1 (dropWhile (\<lambda>c. c \<noteq> sep) s))"

definition rpartition_at :: "char \<Rightarrow> string \<Rightarrow> string \<times> string" where
  "rpartition_at sep s =
     (rev (drop 1 (dropWhile (\<lambda>c. c \<noteq> sep) (rev s))), rev (takeWhile (\<lambda>c. c \<noteq> sep) (rev s)))"

fun split_char :: "char \<Rightarrow> string \<Rightarrow> string list" where
  "split_char sep [] = [[]]"
| "split_char sep (c # cs) =
     (if c = sep then [] # split_char sep cs else (c # hd (split_char sep cs)) # tl (split_char sep cs))"

definition lstrip_char :: "char \<Rightarrow> string \<Rightarrow> string" where
  "lstrip_char c s = dropWhile (\<lambda>x. x = c) s"

definition rstrip_char :: "char \<Rightarrow> string \<Rightarrow> string" where
  "rstrip_char c s = rev (dropWhile (\<lambda>x. x = c) (rev s))"

definition ends_with :: "string \<Rightarrow> string \<Rightarrow> bool" where
  "ends_with suffix s \<longleftrightarrow> length suffix \<le> length s \<and> drop (length s - length suffix) s = suffix"

definition remove_suffix :: "string \<Rightarrow> string \<Rightarrow> string" where
  "remove_suffix suffix s = (if ends_with suffix s then take (length s - length suffix) s else s)"

definition lower_char :: "char \<Rightarrow> char" where
  "lower_char c = (if CHR ''A'' \<le> c \<and> c \<le> CHR ''Z'' then char_of (of_char c + 32 :: nat) else c)"

definition lower :: "string \<Rightarrow> string" where
  "lower s = map lower_char s"

definition is_letter :: "char \<Rightarrow> bool" where
  "is_letter c \<longleftrightarrow> (CHR ''A'' \<le> c \<and> c \<le> CHR ''Z'') \<or> (CHR ''a'' \<le> c \<and> c \<le> CHR ''z'')"

definition is_digit :: "char \<Rightarrow> bool" where
  "is_digit c \<longleftrightarrow> CHR ''0'' \<le> c \<and> c \<le> CHR ''9''"

section \<open>Taking a string apart\<close>

lemma no_ws_suffix: "\<not> has_ws s \<Longrightarrow> py_strip s = s"
proof -
  assume s: "\<not> has_ws s"
  have "py_lstrip s = s" using s by (cases s) (subst py_lstrip.simps, simp)+
  moreover have "py_rstrip s = s"
    using s
  proof (induction s)
    case (Cons c cs)
    then have "\<not> is_blank (c # cs)" by (subst is_blank.simps) simp
    with Cons show ?case by simp
  qed simp
  ultimately show ?thesis by (simp add: py_strip_def)
qed

lemma printable_no_ws: "33 \<le> (of_char c :: nat) \<Longrightarrow> (of_char c :: nat) \<le> 127 \<Longrightarrow> ws_len (c # cs) = 0"
  unfolding ws_len_def ws_bytes_def by simp

lemma split_char_none: "sep \<notin> set xs \<Longrightarrow> split_char sep xs = [xs]"
  by (induction xs) auto

lemma split_char_append: "sep \<notin> set xs \<Longrightarrow> split_char sep (xs @ sep # ys) = xs # split_char sep ys"
  by (induction xs) auto

end
