(* ===== verification/Repo_Refs.thy ===== *)
theory Repo_Refs
  imports Texts
begin

text \<open>
  The coordinate a repository's origin URL encodes (\<open>foundation/repo_ref.py\<close>) and
  the keys commit pointers are grouped by.
\<close>

definition scheme_char :: "char \<Rightarrow> bool" where
  "scheme_char c \<longleftrightarrow> is_letter c \<or> is_digit c \<or> c \<in> {CHR ''+'', CHR ''.'', CHR ''-''}"

section \<open>The coordinate of an origin\<close>

record repo_ref =
  rf_host :: string
  rf_owner :: string
  rf_name :: string

text \<open>What \<open>.*$\<close> takes of the rest of a string: all of it, but for one closing line feed, when no line
  feed is left inside.\<close>

definition line_rest :: "string \<Rightarrow> string option" where
  "line_rest s =
     (let body = (if s \<noteq> [] \<and> last s = CHR 0x0A then butlast s else s)
      in if CHR 0x0A \<in> set body then None else Some body)"

text \<open>\<open>_WITH_SCHEME\<close>: the network location and the path of a URL with an explicit scheme.\<close>

definition with_scheme :: "string \<Rightarrow> (string \<times> string option) option" where
  "with_scheme url =
     (let scheme = takeWhile scheme_char url; rest = drop (length scheme) url in
      if scheme = [] \<or> \<not> is_letter (hd scheme) \<or> \<not> starts_with ''://'' rest then None
      else let after = drop 3 rest; netloc = takeWhile (\<lambda>c. c \<noteq> CHR ''/'') after; path = drop (length netloc) after
        in if path = [] then Some (netloc, None) else map_option (\<lambda>p. (netloc, Some p)) (line_rest path))"

text \<open>\<open>_SCP_LIKE\<close>: \<open>host:path\<close>, its optional user before an \<open>@\<close> tried first.\<close>

definition scp_host_path :: "string \<Rightarrow> (string \<times> string) option" where
  "scp_host_path s =
     (let host = takeWhile (\<lambda>c. c \<noteq> CHR '':'' \<and> c \<noteq> CHR ''/'') s; rest = drop (length host) s in
      if host = [] \<or> rest = [] \<or> hd rest \<noteq> CHR '':'' then None
      else case line_rest (tl rest) of None \<Rightarrow> None | Some path \<Rightarrow> if path = [] then None else Some (host, path))"

definition scp_like :: "string \<Rightarrow> (string \<times> string) option" where
  "scp_like url =
     (let user = takeWhile (\<lambda>c. c \<noteq> CHR ''@'' \<and> c \<noteq> CHR ''/'') url; rest = drop (length user) url;
          after_user = (if user \<noteq> [] \<and> rest \<noteq> [] \<and> hd rest = CHR ''@'' then scp_host_path (tl rest) else None)
      in case after_user of Some hp \<Rightarrow> Some hp | None \<Rightarrow> scp_host_path url)"

definition host_and_path :: "string \<Rightarrow> (string \<times> string) option" where
  "host_and_path url =
     (case with_scheme url of
        Some (netloc, path) \<Rightarrow>
          let host = snd (rpartition_at (CHR ''@'') netloc)
          in if host = [] then None
             else Some (host, lstrip_char (CHR ''/'') (case path of None \<Rightarrow> [] | Some p \<Rightarrow> p))
      | None \<Rightarrow>
          (case scp_like url of None \<Rightarrow> None
           | Some (host, path) \<Rightarrow> Some (snd (rpartition_at (CHR ''@'') host), lstrip_char (CHR ''/'') path)))"

definition RepoRef_parse :: "string \<Rightarrow> repo_ref option" where
  "RepoRef_parse origin_url =
     (let url = rstrip_char (CHR ''/'') (py_strip origin_url) in
      if url = [] then None
      else case host_and_path url of None \<Rightarrow> None
      | Some (host, path) \<Rightarrow>
          let segments = filter (\<lambda>seg. seg \<noteq> []) (split_char (CHR ''/'') (remove_suffix ''.git'' path))
          in if length segments < 2 then None
             else Some \<lparr>rf_host = host, rf_owner = segments ! (length segments - 2), rf_name = last segments\<rparr>)"

definition ref_qualified :: "repo_ref \<Rightarrow> string" where
  "ref_qualified r = rf_owner r @ ''/'' @ rf_name r"

text \<open>\<open>RepoRef.parse(origin_url) if origin_url else None\<close>.\<close>

definition origin_ref :: "string option \<Rightarrow> repo_ref option" where
  "origin_ref origin_url = (case origin_url of None \<Rightarrow> None | Some u \<Rightarrow> if u = [] then None else RepoRef_parse u)"

definition repo_identity :: "string option \<Rightarrow> string \<Rightarrow> string" where
  "repo_identity origin_url name = (case origin_ref origin_url of None \<Rightarrow> name | Some r \<Rightarrow> ref_qualified r)"

text \<open>The port a host ends in, dropped: the search for a colon with digits up to the end.\<close>

definition ends_in_port :: "string \<Rightarrow> bool" where
  "ends_in_port host \<longleftrightarrow>
     (let tail = rev (takeWhile (\<lambda>c. c \<noteq> CHR '':'') (rev host));
          digits = (if tail \<noteq> [] \<and> last tail = CHR 0x0A then butlast tail else tail)
      in CHR '':'' \<in> set host \<and> list_all is_digit digits)"

definition pointer_key :: "string option \<Rightarrow> string \<Rightarrow> string" where
  "pointer_key origin_url name =
     (case origin_ref origin_url of None \<Rightarrow> name
      | Some r \<Rightarrow>
          let host = snd (rpartition_at (CHR ''@'') (lower (rf_host r)));
              bare = (if ends_in_port host \<and> \<not> ends_with '']'' host then fst (rpartition_at (CHR '':'') host) else host)
          in if bare = [] then ref_qualified r else bare @ ''/'' @ ref_qualified r)"


section \<open>One repository, one key\<close>

definition plain_char :: "char \<Rightarrow> bool" where
  "plain_char c \<longleftrightarrow> 33 \<le> (of_char c :: nat) \<and> (of_char c :: nat) \<le> 126 \<and> c \<notin> {CHR ''/'', CHR '':'', CHR ''@''}"

definition plain :: "string \<Rightarrow> bool" where
  "plain s \<longleftrightarrow> s \<noteq> [] \<and> list_all plain_char s"

lemma plain_D:
  assumes "plain s"
  shows "s \<noteq> []" "c \<in> set s \<Longrightarrow> plain_char c" "CHR ''/'' \<notin> set s" "CHR '':'' \<notin> set s" "CHR ''@'' \<notin> set s"
  using assms unfolding plain_def list_all_iff plain_char_def by auto

definition url_char :: "char \<Rightarrow> bool" where
  "url_char c \<longleftrightarrow> 33 \<le> (of_char c :: nat) \<and> (of_char c :: nat) \<le> 126"

lemma url_strip:
  assumes "list_all url_char s" "s \<noteq> []" "last s \<noteq> CHR ''/''"
  shows "rstrip_char (CHR ''/'') (py_strip s) = s"
proof -
  have "\<not> has_ws s"
    using assms(1) printable_no_ws by (induction s) (auto simp: url_char_def)
  then have "py_strip s = s" by (rule no_ws_suffix)
  moreover obtain ys y where "s = ys @ [y]" using assms(2) by (cases s rule: rev_cases) auto
  ultimately show ?thesis using assms(3) by (simp add: rstrip_char_def)
qed

lemma plain_url: "plain s \<Longrightarrow> list_all url_char s"
  by (auto simp: plain_def list_all_iff plain_char_def url_char_def)

lemma line_rest_url: "list_all url_char s \<Longrightarrow> line_rest s = Some s"
proof -
  assume s: "list_all url_char s"
  then have "CHR 0x0A \<notin> set s" by (auto simp: list_all_iff url_char_def)
  moreover from this have "s \<noteq> [] \<Longrightarrow> last s \<noteq> CHR 0x0A" by (metis last_in_set)
  ultimately show ?thesis by (auto simp: line_rest_def Let_def)
qed

lemma ends_with_append [simp]: "ends_with suffix (s @ suffix)"
  by (simp add: ends_with_def)

lemma remove_suffix_append [simp]: "remove_suffix suffix (s @ suffix) = s"
  by (simp add: remove_suffix_def)

lemma owner_and_name:
  assumes "plain owner" "plain name"
  shows "filter (\<lambda>seg. seg \<noteq> []) (split_char (CHR ''/'') (remove_suffix ''.git'' (owner @ CHR ''/'' # name @ ''.git''))) = [owner, name]"
proof -
  have "remove_suffix ''.git'' (owner @ CHR ''/'' # name @ ''.git'') = owner @ CHR ''/'' # name"
    using remove_suffix_append [of "''.git''" "owner @ CHR ''/'' # name"] by simp
  then show ?thesis using plain_D [OF assms(1)] plain_D [OF assms(2)] by (simp add: split_char_append split_char_none)
qed

lemma take_all: "sep \<notin> set s \<Longrightarrow> takeWhile (\<lambda>c. c \<noteq> sep) s = s \<and> dropWhile (\<lambda>c. c \<noteq> sep) s = []"
  by (auto simp: takeWhile_eq_all_conv dropWhile_eq_Nil_conv)

lemma take_to: "sep \<notin> set s \<Longrightarrow> takeWhile (\<lambda>c. c \<noteq> sep) (s @ sep # t) = s \<and> dropWhile (\<lambda>c. c \<noteq> sep) (s @ sep # t) = sep # t"
  by (induction s) auto

lemma rpartition_none: "sep \<notin> set s \<Longrightarrow> rpartition_at sep s = ([], s)"
proof -
  assume "sep \<notin> set s"
  then have t: "takeWhile (\<lambda>c. c \<noteq> sep) (rev s) = rev s" "dropWhile (\<lambda>c. c \<noteq> sep) (rev s) = []"
    using take_all [of sep "rev s"] by auto
  show ?thesis unfolding rpartition_at_def t by simp
qed

lemma rpartition_append: "sep \<notin> set t \<Longrightarrow> rpartition_at sep (s @ sep # t) = (s, t)"
  using take_to [of sep "rev t" "rev s"] by (simp add: rpartition_at_def)

lemma with_scheme_of:
  assumes "list_all scheme_char scheme" "scheme \<noteq> []" "is_letter (hd scheme)" "CHR ''/'' \<notin> set netloc"
  shows "with_scheme (scheme @ ''://'' @ netloc @ CHR ''/'' # p) = map_option (\<lambda>p. (netloc, Some p)) (line_rest (CHR ''/'' # p))"
proof -
  have "\<not> scheme_char CHR '':''" by (simp add: scheme_char_def is_letter_def is_digit_def)
  then have "takeWhile scheme_char (scheme @ ''://'' @ netloc @ CHR ''/'' # p) = scheme"
    using assms(1) by (simp add: takeWhile_tail list_all_iff takeWhile_eq_all_conv [THEN iffD2])
  moreover have "takeWhile (\<lambda>c. c \<noteq> CHR ''/'') (netloc @ CHR ''/'' # p) = netloc" using take_to [OF assms(4)] by blast
  ultimately show ?thesis using assms(2,3) by (simp add: with_scheme_def Let_def starts_with_def)
qed

lemma with_scheme_none:
  assumes "CHR '':'' \<notin> set user"
  shows "with_scheme (user @ CHR ''@'' # rest) = None"
proof -
  let ?url = "user @ CHR ''@'' # rest"
  have "\<not> scheme_char CHR ''@''" by (simp add: scheme_char_def is_letter_def is_digit_def)
  then have "drop (length (takeWhile scheme_char ?url)) ?url = dropWhile scheme_char user @ CHR ''@'' # rest"
    by (simp add: takeWhile_tail dropWhile_eq_drop length_takeWhile_le)
  moreover have "\<not> starts_with ''://'' (dropWhile scheme_char user @ CHR ''@'' # rest)"
  proof (cases "dropWhile scheme_char user")
    case (Cons c cs)
    then have "c \<in> set user" by (metis list.set_intros(1) set_dropWhileD)
    with assms show ?thesis unfolding Cons by (auto simp: starts_with_def)
  next
    case Nil
    show ?thesis unfolding Nil by (simp add: starts_with_def)
  qed
  ultimately show ?thesis by (simp add: with_scheme_def Let_def)
qed

lemma take_before:
  assumes "a \<notin> set xs" "b \<notin> set xs"
  shows "takeWhile (\<lambda>c. c \<noteq> a \<and> c \<noteq> b) (xs @ a # ys) = xs"
  using assms by (induction xs) auto

lemma scp_like_of:
  assumes "plain user" "plain host" "line_rest path = Some path" "path \<noteq> []"
  shows "scp_like (user @ CHR ''@'' # host @ CHR '':'' # path) = Some (host, path)"
proof -
  have "takeWhile (\<lambda>c. c \<noteq> CHR '':'' \<and> c \<noteq> CHR ''/'') (host @ CHR '':'' # path) = host"
    by (rule take_before) (use plain_D [OF assms(2)] in blast)+
  then have "scp_host_path (host @ CHR '':'' # path) = Some (host, path)"
    using assms(3,4) plain_D(1) [OF assms(2)] by (simp add: scp_host_path_def Let_def)
  moreover have "takeWhile (\<lambda>c. c \<noteq> CHR ''@'' \<and> c \<noteq> CHR ''/'') (user @ CHR ''@'' # host @ CHR '':'' # path) = user"
    by (rule take_before) (use plain_D [OF assms(1)] in blast)+
  ultimately show ?thesis using plain_D(1) [OF assms(1)] by (simp add: scp_like_def Let_def)
qed

lemma lstrip_plain: "plain s \<Longrightarrow> lstrip_char (CHR ''/'') (s @ t) = s @ t"
  using plain_D(1,3) [of s] by (cases s) (auto simp: lstrip_char_def)

text \<open>The two spellings of an origin: with an explicit scheme, user and port, and \<open>scp\<close>-like.\<close>

definition https_origin :: "string \<Rightarrow> string \<Rightarrow> string \<Rightarrow> string \<Rightarrow> string \<Rightarrow> string" where
  "https_origin user host port owner name =
     ''https://'' @ user @ ''@'' @ host @ '':'' @ port @ ''/'' @ owner @ ''/'' @ name @ ''.git''"

definition scp_origin :: "string \<Rightarrow> string \<Rightarrow> string \<Rightarrow> string \<Rightarrow> string" where
  "scp_origin user host owner name = user @ ''@'' @ host @ '':'' @ owner @ ''/'' @ name @ ''.git''"

lemma parsed_as:
  assumes "rstrip_char (CHR ''/'') (py_strip url) = url" "url \<noteq> []" "plain owner" "plain name"
    and "host_and_path url = Some (host, owner @ CHR ''/'' # name @ ''.git'')"
  shows "RepoRef_parse url = Some \<lparr>rf_host = host, rf_owner = owner, rf_name = name\<rparr>"
  using owner_and_name [OF assms(3,4)] assms(2,5) by (simp add: RepoRef_parse_def assms(1) Let_def)

lemma https_parsed:
  assumes "plain user" "plain host" "list_all is_digit port" "plain owner" "plain name"
  shows "RepoRef_parse (https_origin user host port owner name)
     = Some \<lparr>rf_host = host @ '':'' @ port, rf_owner = owner, rf_name = name\<rparr>"
proof -
  define netloc path where "netloc = user @ ''@'' @ host @ '':'' @ port" and "path = owner @ CHR ''/'' # name @ ''.git''"
  define url where "url = https_origin user host port owner name"
  have u: "url = ''https'' @ ''://'' @ netloc @ CHR ''/'' # path"
    by (simp add: url_def https_origin_def netloc_def path_def)
  have digit: "plain_char c" if "is_digit c" for c
    using that by (auto simp: is_digit_def plain_char_def less_eq_char_def)
  have port: "CHR ''/'' \<notin> set port" "CHR ''@'' \<notin> set port" "list_all url_char port"
    using assms(3) digit by (auto simp: list_all_iff plain_char_def url_char_def)
  have path: "list_all url_char (CHR ''/'' # path)" using assms(4,5) by (simp add: path_def plain_url) (simp add: url_char_def)
  have netloc: "CHR ''/'' \<notin> set netloc" "list_all url_char netloc"
    using assms(1,2) port plain_D(3) [OF assms(1)] plain_D(3) [OF assms(2)]
    by (simp_all add: netloc_def plain_url) (simp add: url_char_def)
  have "list_all url_char url" using netloc(2) path by (simp add: u) (simp add: url_char_def)
  then have strip: "rstrip_char (CHR ''/'') (py_strip url) = url" by (rule url_strip) (simp_all add: u path_def)
  have "with_scheme url = Some (netloc, Some (CHR ''/'' # path))"
    unfolding u using line_rest_url [OF path] netloc(1)
    by (subst with_scheme_of) (simp_all add: scheme_char_def is_letter_def)
  moreover have "rpartition_at (CHR ''@'') netloc = (user, host @ '':'' @ port)"
    using rpartition_append [of "CHR ''@''" "host @ '':'' @ port" user] plain_D(5) [OF assms(2)] port(2) by (simp add: netloc_def)
  moreover have "lstrip_char (CHR ''/'') (CHR ''/'' # path) = path"
    using lstrip_plain [OF assms(4)] by (simp add: path_def lstrip_char_def)
  ultimately have "host_and_path url = Some (host @ '':'' @ port, owner @ CHR ''/'' # name @ ''.git'')"
    using plain_D(1) [OF assms(2)] by (simp add: host_and_path_def path_def)
  from parsed_as [OF strip _ assms(4,5) this] show ?thesis by (simp add: u url_def [symmetric])
qed

lemma scp_parsed:
  assumes "plain user" "plain host" "plain owner" "plain name"
  shows "RepoRef_parse (scp_origin user host owner name) = Some \<lparr>rf_host = host, rf_owner = owner, rf_name = name\<rparr>"
proof -
  define path where "path = owner @ CHR ''/'' # name @ ''.git''"
  define url where "url = scp_origin user host owner name"
  have u: "url = user @ CHR ''@'' # host @ CHR '':'' # path" by (simp add: url_def scp_origin_def path_def)
  have path: "list_all url_char path" "path \<noteq> []" using assms(3,4) by (simp_all add: path_def plain_url) (simp add: url_char_def)
  have "list_all url_char url" using assms(1,2) path(1) by (simp add: u plain_url) (simp add: url_char_def)
  then have strip: "rstrip_char (CHR ''/'') (py_strip url) = url" by (rule url_strip) (simp_all add: u path_def)
  have "with_scheme url = None" unfolding u by (rule with_scheme_none) (rule plain_D(4) [OF assms(1)])
  moreover have "scp_like url = Some (host, path)"
    unfolding u by (rule scp_like_of [OF assms(1,2) line_rest_url [OF path(1)] path(2)])
  moreover have "lstrip_char (CHR ''/'') path = path" using lstrip_plain [OF assms(3)] by (simp add: path_def)
  ultimately have "host_and_path url = Some (host, owner @ CHR ''/'' # name @ ''.git'')"
    using plain_D(5) [OF assms(2)] by (simp add: host_and_path_def rpartition_none path_def)
  from parsed_as [OF strip _ assms(3,4) this] show ?thesis by (simp add: u url_def [symmetric])
qed


lemma lower_char_plain: "plain_char c \<Longrightarrow> plain_char (lower_char c)"
proof -
  assume c: "plain_char c"
  show ?thesis
  proof (cases "CHR ''A'' \<le> c \<and> c \<le> CHR ''Z''")
    case True
    then have n: "65 \<le> (of_char c :: nat)" "(of_char c :: nat) \<le> 90" by (simp_all add: less_eq_char_def)
    then have "(of_char (lower_char c) :: nat) = of_char c + 32" using True by (simp add: lower_char_def)
    with n have m: "97 \<le> (of_char (lower_char c) :: nat)" "(of_char (lower_char c) :: nat) \<le> 122" by simp_all
    have "lower_char c \<noteq> d" if "(of_char d :: nat) < 97" for d using m(1) that by auto
    from this [of "CHR ''/''"] this [of "CHR '':''"] this [of "CHR ''@''"] m show ?thesis by (simp add: plain_char_def)
  next
    case False
    then have "lower_char c = c" unfolding lower_char_def by (rule if_not_P)
    with c show ?thesis by simp
  qed
qed

lemma lower_plain: "plain s \<Longrightarrow> plain (lower s)"
  by (auto simp: plain_def lower_def list_all_iff lower_char_plain)

lemma lower_digits: "list_all is_digit s \<Longrightarrow> lower s = s"
proof -
  have "lower_char c = c" if "is_digit c" for c
    using that by (auto simp: lower_char_def is_digit_def less_eq_char_def)
  then show "list_all is_digit s \<Longrightarrow> lower s = s" by (simp add: lower_def list_all_iff map_idI)
qed

lemma port_dropped:
  assumes "plain host" "list_all is_digit port"
  shows "ends_in_port (host @ CHR '':'' # port)" "\<not> ends_with '']'' (host @ CHR '':'' # port)"
proof -
  have colon: "CHR '':'' \<notin> set port" using assms(2) by (auto simp: list_all_iff is_digit_def less_eq_char_def)
  then have t: "takeWhile (\<lambda>c. c \<noteq> CHR '':'') (rev (host @ CHR '':'' # port)) = rev port"
    using take_to [of "CHR '':''" "rev port" "rev host"] by simp
  have "\<not> is_digit (CHR 0x0A)" by (simp add: is_digit_def less_eq_char_def)
  then have "port \<noteq> [] \<Longrightarrow> last port \<noteq> CHR 0x0A" using assms(2) by (metis last_in_set list_all_iff)
  then show "ends_in_port (host @ CHR '':'' # port)" using assms(2) unfolding ends_in_port_def t Let_def by auto
  show "\<not> ends_with '']'' (host @ CHR '':'' # port)"
  proof (cases port rule: rev_cases)
    case (snoc ys y)
    then have "is_digit y" using assms(2) by simp
    then have "y \<noteq> CHR '']''" by (auto simp: is_digit_def less_eq_char_def)
    then show ?thesis by (simp add: ends_with_def snoc)
  qed (simp add: ends_with_def)
qed

lemma https_key:
  assumes "plain user" "plain host" "list_all is_digit port" "plain owner" "plain name"
  shows "pointer_key (Some (https_origin user host port owner name)) n = lower host @ ''/'' @ owner @ ''/'' @ name"
proof -
  let ?h = "lower host @ CHR '':'' # port"
  have port: "CHR ''@'' \<notin> set ?h" "CHR '':'' \<notin> set port"
    using plain_D [OF lower_plain [OF assms(2)]] assms(3) by (auto simp: list_all_iff is_digit_def less_eq_char_def)
  have l: "lower (host @ '':'' @ port) = ?h"
    using lower_digits [OF assms(3)] by (simp add: lower_def lower_char_def)
  have "rpartition_at (CHR ''@'') ?h = ([], ?h)" by (rule rpartition_none [OF port(1)])
  moreover have "rpartition_at (CHR '':'') ?h = (lower host, port)" by (rule rpartition_append [OF port(2)])
  moreover have "https_origin user host port owner name \<noteq> []" by (simp add: https_origin_def)
  ultimately show ?thesis
    using port_dropped [OF lower_plain [OF assms(2)] assms(3)] plain_D(1) [OF lower_plain [OF assms(2)]] l
    by (simp add: pointer_key_def origin_ref_def https_parsed [OF assms] Let_def ref_qualified_def)
qed

lemma scp_key:
  assumes "plain user" "plain host" "plain owner" "plain name"
  shows "pointer_key (Some (scp_origin user host owner name)) n = lower host @ ''/'' @ owner @ ''/'' @ name"
proof -
  note h = plain_D [OF lower_plain [OF assms(2)]]
  have "\<not> ends_in_port (lower host)" using h(4) by (simp add: ends_in_port_def Let_def)
  moreover have "scp_origin user host owner name \<noteq> []" by (simp add: scp_origin_def)
  ultimately show ?thesis
    using h(1) by (simp add: pointer_key_def origin_ref_def scp_parsed [OF assms] Let_def ref_qualified_def rpartition_none [OF h(5)])
qed

lemma append_sep_inj: "sep \<notin> set a \<Longrightarrow> sep \<notin> set b \<Longrightarrow> a @ sep # x = b @ sep # y \<Longrightarrow> a = b \<and> x = y"
proof (induction a arbitrary: b)
  case Nil
  then show ?case by (cases b) auto
next
  case (Cons c a)
  then show ?case by (cases b) auto
qed

text \<open>C35: An https origin with user and port and an scp-style origin parse back to the host, owner and
  name they were written from, and the two get one pointer key exactly when owner, name and
  lowercased host agree, whatever user and port say.\<close>

theorem origins_share_a_key:
  assumes "plain user" "plain host" "list_all is_digit port" "plain owner" "plain name"
    and "plain user'" "plain host'" "plain owner'" "plain name'"
  shows "RepoRef_parse (https_origin user host port owner name)
      = Some \<lparr>rf_host = host @ '':'' @ port, rf_owner = owner, rf_name = name\<rparr>
    \<and> RepoRef_parse (scp_origin user' host' owner' name') = Some \<lparr>rf_host = host', rf_owner = owner', rf_name = name'\<rparr>
    \<and> (pointer_key (Some (https_origin user host port owner name)) n = pointer_key (Some (scp_origin user' host' owner' name')) n'
         \<longleftrightarrow> lower host = lower host' \<and> owner = owner' \<and> name = name')"
proof (intro conjI)
  show "RepoRef_parse (https_origin user host port owner name)
      = Some \<lparr>rf_host = host @ '':'' @ port, rf_owner = owner, rf_name = name\<rparr>"
    by (rule https_parsed) (use assms in simp_all)
  show "RepoRef_parse (scp_origin user' host' owner' name') = Some \<lparr>rf_host = host', rf_owner = owner', rf_name = name'\<rparr>"
    by (rule scp_parsed) (use assms in simp_all)
  note slash = plain_D(3)
  have "lower host @ CHR ''/'' # owner @ CHR ''/'' # name = lower host' @ CHR ''/'' # owner' @ CHR ''/'' # name'
      \<longleftrightarrow> lower host = lower host' \<and> owner @ CHR ''/'' # name = owner' @ CHR ''/'' # name'"
    using append_sep_inj [OF slash [OF lower_plain [OF assms(2)]] slash [OF lower_plain [OF assms(7)]]] by metis
  moreover have "owner @ CHR ''/'' # name = owner' @ CHR ''/'' # name' \<longleftrightarrow> owner = owner' \<and> name = name'"
    using append_sep_inj [OF slash [OF assms(4)] slash [OF assms(8)]] by metis
  ultimately have "lower host @ ''/'' @ owner @ ''/'' @ name = lower host' @ ''/'' @ owner' @ ''/'' @ name'
      \<longleftrightarrow> lower host = lower host' \<and> owner = owner' \<and> name = name'" by simp
  then show "(pointer_key (Some (https_origin user host port owner name)) n = pointer_key (Some (scp_origin user' host' owner' name')) n')
         \<longleftrightarrow> lower host = lower host' \<and> owner = owner' \<and> name = name'"
    using https_key [OF assms(1-5)] scp_key [OF assms(6-9)] by simp
qed

theorem origins_share_a_key_witness:
  "pointer_key (Some ''https://bot@GitHub.com:443/Acme/widgets.git'') ''w'' = pointer_key (Some ''git@github.com:Acme/widgets.git'') ''w''
   \<and> pointer_key (Some ''https://bot@GitHub.com:443/Acme/widgets.git'') ''w'' \<noteq> pointer_key (Some ''git@gitlab.com:Acme/widgets.git'') ''w''"
proof -
  have plain: "plain ''bot''" "plain ''GitHub.com''" "list_all is_digit ''443''" "plain ''Acme''" "plain ''widgets''" "plain ''git''"
    "plain ''github.com''" "plain ''gitlab.com''" by code_simp+
  have https: "https_origin ''bot'' ''GitHub.com'' ''443'' ''Acme'' ''widgets'' = ''https://bot@GitHub.com:443/Acme/widgets.git''"
    and hub: "scp_origin ''git'' ''github.com'' ''Acme'' ''widgets'' = ''git@github.com:Acme/widgets.git''"
    and lab: "scp_origin ''git'' ''gitlab.com'' ''Acme'' ''widgets'' = ''git@gitlab.com:Acme/widgets.git''"
    by (simp_all add: https_origin_def scp_origin_def)
  have "lower ''GitHub.com'' = lower ''github.com''" "lower ''GitHub.com'' \<noteq> lower ''gitlab.com''" by code_simp+
  then show ?thesis
    using origins_share_a_key [OF plain(1-5) plain(6,7,4,5), of "''w''" "''w''"]
      origins_share_a_key [OF plain(1-5) plain(6,8,4,5), of "''w''" "''w''"] unfolding https hub lab by blast
qed

end
