(* ===== verification/Ids.thy ===== *)
theory Ids
  imports Doubles Texts
begin

text \<open>
  Identifiers (\<open>foundation/ids.py\<close>): a tag and a Crockford base32 ULID whose first ten digits are the
  minting millisecond; and trace contexts (\<open>foundation/trace_ids.py\<close>): the W3C header of two
  hexadecimal ids. Both write numbers in a positional system of fixed width, which is the locale
  \<open>digit_system\<close>. Identifiers and headers are ASCII text. The minting instant goes through Python's
  floats (theory Doubles).
\<close>

section \<open>Numbers of a fixed width\<close>

fun encode_base :: "(int \<Rightarrow> char) \<Rightarrow> int \<Rightarrow> int \<Rightarrow> nat \<Rightarrow> string" where
  "encode_base digit b v 0 = []"
| "encode_base digit b v (Suc n) = encode_base digit b (v div b) n @ [digit (v mod b)]"

fun decode_from :: "(char \<Rightarrow> int option) \<Rightarrow> int \<Rightarrow> int \<Rightarrow> string \<Rightarrow> int option" where
  "decode_from val b acc [] = Some acc"
| "decode_from val b acc (c # cs) = (case val c of None \<Rightarrow> None | Some d \<Rightarrow> decode_from val b (acc * b + d) cs)"

lemma length_encode [simp]: "length (encode_base digit b v n) = n"
  by (induction n arbitrary: v) simp_all

lemma decode_append:
  "decode_from val b acc (xs @ ys) = (case decode_from val b acc xs of None \<Rightarrow> None | Some v \<Rightarrow> decode_from val b v ys)"
  by (induction xs arbitrary: acc) (simp_all split: option.split)

lemma less_append_left: "length xs = length ys \<Longrightarrow> xs < ys \<Longrightarrow> xs @ us < ys @ (vs :: 'a::linorder list)"
  by (induction xs ys rule: list_induct2) auto

lemma less_append_right: "us < vs \<Longrightarrow> xs @ us < xs @ (vs :: 'a::linorder list)"
  by (induction xs) auto

lemma div_below: "0 < b \<Longrightarrow> v < b * k \<Longrightarrow> v div b < k" for v b k :: int
  using div_split_bounds(1) [of b v] mult_less_cancel_left_pos [of b "v div b" k] by linarith

locale digit_system =
  fixes digit :: "int \<Rightarrow> char" and val :: "char \<Rightarrow> int option" and b :: int
  assumes base: "1 < b"
    and val_digit: "0 \<le> d \<Longrightarrow> d < b \<Longrightarrow> val (digit d) = Some d"
    and digit_less: "0 \<le> d \<Longrightarrow> d < e \<Longrightarrow> e < b \<Longrightarrow> digit d < digit e"
begin

lemma decode_encode: "0 \<le> v \<Longrightarrow> v < b ^ n \<Longrightarrow> decode_from val b acc (encode_base digit b v n) = Some (acc * b ^ n + v)"
proof (induction n arbitrary: v)
  case (Suc n)
  have "v div b < b ^ n" using Suc.prems base by (intro div_below) simp_all
  moreover have "0 \<le> v div b" "0 \<le> v mod b" "v mod b < b" using Suc.prems base by (simp_all add: pos_imp_zdiv_nonneg_iff)
  ultimately show ?case using Suc.IH val_digit
    by (simp add: decode_append algebra_simps)
qed simp

lemma encode_less: "0 \<le> v \<Longrightarrow> v < w \<Longrightarrow> w < b ^ n \<Longrightarrow> encode_base digit b v n < encode_base digit b w n"
proof (induction n arbitrary: v w)
  case (Suc n)
  have d: "0 \<le> v div b" "v div b \<le> w div b"
    using Suc.prems base by (simp_all add: pos_imp_zdiv_nonneg_iff zdiv_mono1)
  moreover have "w div b < b ^ n" using Suc.prems base by (intro div_below) simp_all
  ultimately have d: "0 \<le> v div b" "w div b < b ^ n" "v div b \<le> w div b" by simp_all
  show ?case
  proof (cases "v div b = w div b")
    case True
    then have "v mod b < w mod b" using Suc.prems(2) by (metis add_less_cancel_left mult_div_mod_eq)
    with base have "digit (v mod b) < digit (w mod b)" by (intro digit_less) simp_all
    with True show ?thesis by (simp add: less_append_right)
  next
    case False
    with d Suc.IH have "encode_base digit b (v div b) n < encode_base digit b (w div b) n" by simp
    then show ?thesis by (simp add: less_append_left)
  qed
qed simp

lemma digits_only: "0 \<le> v \<Longrightarrow> set (encode_base digit b v n) \<subseteq> digit ` {0..<b}"
proof (induction n arbitrary: v)
  case (Suc n)
  have "0 \<le> v div b" "0 \<le> v mod b" "v mod b < b" using Suc.prems base by (simp_all add: pos_imp_zdiv_nonneg_iff)
  then show ?case using Suc.IH [of "v div b"] by auto
qed simp

end

text \<open>The place of a character in an alphabet: Python's \<open>str.find\<close> of one character.\<close>

fun index_in :: "string \<Rightarrow> char \<Rightarrow> int option" where
  "index_in [] c = None"
| "index_in (x # xs) c = (if x = c then Some 0 else map_option (\<lambda>i. i + 1) (index_in xs c))"

lemma index_in_nth: "distinct xs \<Longrightarrow> n < length xs \<Longrightarrow> index_in xs (xs ! n) = Some (int n)"
proof (induction xs arbitrary: n)
  case (Cons x xs)
  then show ?case by (cases n) auto
qed simp

section \<open>Identifiers\<close>

definition CROCKFORD :: string where
  "CROCKFORD = ''0123456789ABCDEFGHJKMNPQRSTVWXYZ''"

definition TIME_CHARS :: nat where
  "TIME_CHARS = 10"

definition RAND_CHARS :: nat where
  "RAND_CHARS = 16"

definition ULID_CHARS :: nat where
  "ULID_CHARS = TIME_CHARS + RAND_CHARS"

definition upper :: "char \<Rightarrow> char" where
  "upper c = (if CHR ''a'' \<le> c \<and> c \<le> CHR ''z'' then char_of (of_char c - 32 :: nat) else c)"

definition crockford_digit :: "int \<Rightarrow> char" where
  "crockford_digit d = CROCKFORD ! nat d"

definition crockford_value :: "char \<Rightarrow> int option" where
  "crockford_value c = index_in CROCKFORD (upper c)"

definition ulid_encode :: "int \<Rightarrow> nat \<Rightarrow> string" where
  "ulid_encode v n = encode_base crockford_digit 32 v n"

datatype id_prefix = IdChunk | IdGraph | IdNode | IdChoice | IdArtifact | IdTransition | IdDecision | IdQuestion
  | IdLease | IdTakeover | IdSelftest | IdMigration | IdUser | IdSegment | IdWorkItem | IdRoutine | IdScope
  | IdFinding | IdFindingSet | IdGardenProposal | IdDependencyEdge | IdConfigApply | IdRunner | IdHost | IdTenant
  | IdInvitation | IdProject | IdRepository | IdWorkSource | IdForge | IdFlow | IdFlowSubmission | IdHubTurn
  | IdCadence | IdChore

fun prefix_value :: "id_prefix \<Rightarrow> string" where
  "prefix_value IdChunk = ''ch''" | "prefix_value IdGraph = ''gr''" | "prefix_value IdNode = ''nd''"
| "prefix_value IdChoice = ''cho''" | "prefix_value IdArtifact = ''art''" | "prefix_value IdTransition = ''tr''"
| "prefix_value IdDecision = ''dec''" | "prefix_value IdQuestion = ''qn''" | "prefix_value IdLease = ''lease''"
| "prefix_value IdTakeover = ''tko''" | "prefix_value IdSelftest = ''self''" | "prefix_value IdMigration = ''mg''"
| "prefix_value IdUser = ''usr''" | "prefix_value IdSegment = ''seg''" | "prefix_value IdWorkItem = ''wi''"
| "prefix_value IdRoutine = ''rtn''" | "prefix_value IdScope = ''scp''" | "prefix_value IdFinding = ''fin''"
| "prefix_value IdFindingSet = ''fins''" | "prefix_value IdGardenProposal = ''gprop''"
| "prefix_value IdDependencyEdge = ''dep''" | "prefix_value IdConfigApply = ''apl''" | "prefix_value IdRunner = ''rn''"
| "prefix_value IdHost = ''hs''" | "prefix_value IdTenant = ''ten''" | "prefix_value IdInvitation = ''inv''"
| "prefix_value IdProject = ''proj''" | "prefix_value IdRepository = ''repo''" | "prefix_value IdWorkSource = ''wsrc''"
| "prefix_value IdForge = ''frg''" | "prefix_value IdFlow = ''flw''" | "prefix_value IdFlowSubmission = ''fsub''"
| "prefix_value IdHubTurn = ''htn''" | "prefix_value IdCadence = ''cad''" | "prefix_value IdChore = ''chr''"

record ulid_id =
  id_prefix_of :: string
  id_ulid :: string

text \<open>\<open>int(at.timestamp() * 1000)\<close>, in floats; \<open>int\<close> truncates toward zero.\<close>

definition millis_of :: "instant \<Rightarrow> int" where
  "millis_of i = (let p = round_ratio (timestamp i * 1000) 1 in sgn p * (\<bar>p\<bar> div one_double))"

definition mint_at :: "string \<Rightarrow> instant \<Rightarrow> int \<Rightarrow> ulid_id" where
  "mint_at prefix i randomness =
     \<lparr>id_prefix_of = prefix,
      id_ulid = ulid_encode (millis_of i) TIME_CHARS @ ulid_encode randomness RAND_CHARS\<rparr>"

definition id_value :: "ulid_id \<Rightarrow> string" where
  "id_value x = id_prefix_of x @ ''_'' @ id_ulid x"

definition parse_id :: "string \<Rightarrow> ulid_id option" where
  "parse_id v =
     (let prefix = takeWhile (\<lambda>c. c \<noteq> CHR ''_'') v; rest = dropWhile (\<lambda>c. c \<noteq> CHR ''_'') v
      in case rest of [] \<Rightarrow> None
         | sep # ulid \<Rightarrow> if length ulid = ULID_CHARS then Some \<lparr>id_prefix_of = prefix, id_ulid = ulid\<rparr> else None)"

text \<open>\<open>datetime.fromtimestamp\<close>: the whole seconds, and the fraction times a million rounded to even. Past
  the year 9999, which ten digits can spell, the code raises where the model answers an instant.\<close>

definition from_timestamp :: "double \<Rightarrow> instant" where
  "from_timestamp d =
     (let whole = sgn d * (\<bar>d\<bar> div one_double); part = d - whole * one_double
      in whole * 1000000 + half_even_div (round_ratio (part * 1000000) 1) one_double)"

definition id_minted_at :: "ulid_id \<Rightarrow> instant option" where
  "id_minted_at x =
     (case decode_from crockford_value 32 0 (take TIME_CHARS (id_ulid x)) of None \<Rightarrow> None
      | Some millis \<Rightarrow> Some (from_timestamp (round_ratio (millis * one_double) 1000)))"

section \<open>Trace headers\<close>

definition HEX :: string where
  "HEX = ''0123456789abcdef''"

definition hex_digit :: "int \<Rightarrow> char" where
  "hex_digit d = HEX ! nat d"

definition hex_value :: "char \<Rightarrow> int option" where
  "hex_value c = index_in HEX c"

record derived_context =
  dc_trace_id :: int
  dc_span_id :: int
  dc_trace_flags :: int

text \<open>\<open>format(n, '0wx')\<close> of a natural number: at least \<open>w\<close> digits, as many more as it takes.\<close>

function hex_width :: "int \<Rightarrow> nat" where
  "hex_width n = (if n < 16 then 1 else Suc (hex_width (n div 16)))"
  by auto
termination by (relation "measure nat") auto

declare hex_width.simps [simp del]

definition hex_padded :: "int \<Rightarrow> nat \<Rightarrow> string" where
  "hex_padded n w = encode_base hex_digit 16 n (max w (hex_width n))"

definition format_traceparent :: "int \<Rightarrow> int \<Rightarrow> int \<Rightarrow> string" where
  "format_traceparent trace spn flags =
     ''00-'' @ hex_padded trace 32 @ ''-'' @ hex_padded spn 16 @ ''-'' @ hex_padded flags 2"

definition hex_field :: "string \<Rightarrow> nat \<Rightarrow> int option" where
  "hex_field text width =
     (if length text \<noteq> width \<or> \<not> set text \<subseteq> set HEX then None else decode_from hex_value 16 0 text)"

definition parse_traceparent :: "string \<Rightarrow> derived_context option" where
  "parse_traceparent text =
     (case split_char (CHR ''-'') (py_strip text) of
        version # trace # spn # flags # further \<Rightarrow>
          (case hex_field version 2 of None \<Rightarrow> None
           | Some v \<Rightarrow>
               if v = 255 \<or> (v = 0 \<and> further \<noteq> []) then None
               else case (hex_field trace 32, hex_field spn 16, hex_field flags 2) of
                 (Some t, Some sp, Some f) \<Rightarrow>
                   if t = 0 \<or> sp = 0 then None
                   else Some \<lparr>dc_trace_id = t, dc_span_id = sp, dc_trace_flags = f\<rparr>
               | _ \<Rightarrow> None)
      | _ \<Rightarrow> None)"


section \<open>The two alphabets\<close>

lemma below_32: "0 \<le> d \<Longrightarrow> d < 32 \<Longrightarrow> d \<in> set [0..31]" for d :: int
  by auto

lemma crockford_digits: "\<forall>d\<in>set [0..31]. crockford_value (crockford_digit d) = Some d
    \<and> (d < 31 \<longrightarrow> crockford_digit d < crockford_digit (d + 1))"
  by code_simp

lemma hex_digits: "\<forall>d\<in>set [0..15]. hex_value (hex_digit d) = Some d \<and> hex_digit d \<in> set HEX
    \<and> (d < 15 \<longrightarrow> hex_digit d < hex_digit (d + 1))"
  by code_simp

lemma step_less:
  assumes "\<And>d. 0 \<le> d \<Longrightarrow> d + 1 < n \<Longrightarrow> (f d :: char) < f (d + 1)" "0 \<le> (d::int)" "d < e" "e < n"
  shows "f d < f e"
  using assms(3,4)
proof (induction e rule: int_gr_induct)
  case base
  then show ?case using assms(1,2) by simp
next
  case (step i)
  then have "f d < f i" "f i < f (i + 1)" using assms(1) [of i] assms(2) by simp_all
  then show ?case by simp
qed

interpretation crockford: digit_system crockford_digit crockford_value 32
proof
  show "crockford_value (crockford_digit d) = Some d" if "0 \<le> d" "d < 32" for d
    using crockford_digits below_32 [OF that] by blast
  show "crockford_digit d < crockford_digit e" if "0 \<le> d" "d < e" "e < 32" for d e
    by (rule step_less [where n = 32]) (use crockford_digits that in auto)
qed simp

interpretation hex: digit_system hex_digit hex_value 16
proof
  show "hex_value (hex_digit d) = Some d" if "0 \<le> d" "d < 16" for d
    using hex_digits that by auto
  show "hex_digit d < hex_digit e" if "0 \<le> d" "d < e" "e < 16" for d e
    by (rule step_less [where n = 16]) (use hex_digits that in auto)
qed simp


section \<open>A minting instant through floats\<close>

lemma round_ratio_error:
  assumes q: "0 < q" and p: "\<bar>p\<bar> < q * 2 ^ (k + 53)"
  shows "2 * \<bar>p - q * round_ratio p q\<bar> \<le> q * 2 ^ k"
proof -
  let ?g = "grain (\<bar>p\<bar> div q)"
  have "\<bar>p\<bar> div q < 2 ^ (k + 53)" using div_below [OF q p] .
  moreover have "0 \<le> \<bar>p\<bar> div q" using q by (simp add: pos_imp_zdiv_nonneg_iff)
  ultimately have "?g \<le> k" by (simp add: grain_le)
  then have "q * 2 ^ ?g \<le> q * 2 ^ k" using q by (simp add: mult_left_mono power_increasing)
  moreover have "2 * \<bar>p - q * 2 ^ ?g * half_even_div p (q * 2 ^ ?g)\<bar> \<le> q * 2 ^ ?g"
    by (rule half_even_div_bounds(3)) (use q in simp)
  ultimately show ?thesis by (simp add: round_ratio_def Let_def mult.assoc)
qed

lemma abs_sides: "2 * \<bar>a - b\<bar> \<le> c \<Longrightarrow> 2 * a - 2 * b \<le> c \<and> 2 * b - 2 * a \<le> c" for a b c :: int
  by (auto simp: abs_if split: if_splits)

lemma abs_near: "2 * \<bar>p - a\<bar> \<le> w \<Longrightarrow> 2 * \<bar>p - b\<bar> < w \<Longrightarrow> \<bar>a - b\<bar> < w" for a b p w :: int
  by (auto simp: abs_if split: if_splits)

text \<open>The last places the roundings act on, as fractions of one.\<close>

definition sec_place :: int where "sec_place = 2 ^ 1054"

definition milli_place :: int where "milli_place = 2 ^ 1064"

definition micro_place :: int where "micro_place = 2 ^ 1041"

lemma places:
  "one_double = 1048576 * sec_place" "one_double = 1024 * milli_place" "one_double = 8589934592 * micro_place" "0 < one_double"
proof -
  have e: "(2::int) ^ (m + n) = 2 ^ m * 2 ^ n" for m n by (rule power_add)
  show "one_double = 1048576 * sec_place" using e [of 20 1054] by (simp add: one_double_def sec_place_def)
  show "one_double = 1024 * milli_place" using e [of 10 1064] by (simp add: one_double_def milli_place_def)
  show "one_double = 8589934592 * micro_place" using e [of 33 1041] by (simp add: one_double_def micro_place_def)
qed (simp add: one_double_def)

lemma place_errors:
  "0 < q \<Longrightarrow> \<bar>p\<bar> < q * (8589934592 * one_double) \<Longrightarrow> 2 * \<bar>p - q * round_ratio p q\<bar> \<le> q * sec_place"
  "\<bar>p\<bar> < 8796093022208 * one_double \<Longrightarrow> 2 * \<bar>p - round_ratio p 1\<bar> \<le> milli_place"
  "\<bar>p\<bar> < 1048576 * one_double \<Longrightarrow> 2 * \<bar>p - round_ratio p 1\<bar> \<le> micro_place"
proof -
  have e: "(2::int) ^ (m + n) = 2 ^ m * 2 ^ n" for m n by (rule power_add)
  have w: "(2::int) ^ (1054 + 53) = 8589934592 * one_double" "(2::int) ^ (1064 + 53) = 8796093022208 * one_double"
    "(2::int) ^ (1041 + 53) = 1048576 * one_double"
    using e [of 33 1074] e [of 43 1074] e [of 20 1074] by (simp_all add: one_double_def)
  show "0 < q \<Longrightarrow> \<bar>p\<bar> < q * (8589934592 * one_double) \<Longrightarrow> 2 * \<bar>p - q * round_ratio p q\<bar> \<le> q * sec_place"
    using round_ratio_error [of q p 1054] unfolding w sec_place_def by blast
  show "\<bar>p\<bar> < 8796093022208 * one_double \<Longrightarrow> 2 * \<bar>p - round_ratio p 1\<bar> \<le> milli_place"
    using round_ratio_error [of 1 p 1064] unfolding w milli_place_def by simp
  show "\<bar>p\<bar> < 1048576 * one_double \<Longrightarrow> 2 * \<bar>p - round_ratio p 1\<bar> \<le> micro_place"
    using round_ratio_error [of 1 p 1041] unfolding w micro_place_def by simp
qed

text \<open>Instants up to \<open>2^33\<close> seconds, the year 2242.\<close>

definition EPOCH_LIMIT :: instant where
  "EPOCH_LIMIT = 8589934592 * 1000000"

lemma timestamp_error:
  assumes "0 \<le> i" "i < EPOCH_LIMIT"
  shows "2 * \<bar>i * one_double - 1000000 * timestamp i\<bar> \<le> 1000000 * sec_place"
proof -
  have "i * one_double < EPOCH_LIMIT * one_double" "0 \<le> i * one_double" using assms places(4) by simp_all
  then have "\<bar>i * one_double\<bar> < 1000000 * (8589934592 * one_double)" by (simp add: EPOCH_LIMIT_def)
  from place_errors(1) [OF _ this] show ?thesis by (simp add: timestamp_def)
qed

lemma millis_error:
  assumes "0 \<le> i" "i < EPOCH_LIMIT"
  shows "\<bar>1000 * round_ratio (timestamp i * 1000) 1 - i * one_double\<bar> < one_double"
proof -
  define x where "x = i * one_double"
  have e: "2 * \<bar>x - 1000000 * timestamp i\<bar> \<le> 1000000 * sec_place" unfolding x_def by (rule timestamp_error [OF assms])
  have "x < 8589934592000000 * one_double" "0 \<le> x" using assms places(4) unfolding x_def EPOCH_LIMIT_def by simp_all
  have "2 * x - 2000000 * timestamp i \<le> 1000000 * sec_place" "2000000 * timestamp i - 2 * x \<le> 1000000 * sec_place"
    using abs_sides [OF e] by simp_all
  with \<open>0 \<le> x\<close> \<open>x < 8589934592000000 * one_double\<close> places(1,4)
  have "timestamp i * 1000 < 8796093022208 * one_double" "- (timestamp i * 1000) < 8796093022208 * one_double" by linarith+
  then have "\<bar>timestamp i * 1000\<bar> < 8796093022208 * one_double" by linarith
  from abs_sides [OF place_errors(2) [OF this]] abs_sides [OF e] places(1,2,4)
  show ?thesis unfolding x_def [symmetric] abs_less_iff by linarith
qed

lemma millis_bounds:
  assumes "0 \<le> i" "i < EPOCH_LIMIT"
  shows "millis_of i \<in> {i div 1000 - 1, i div 1000}" "0 \<le> millis_of i" "i mod 1000 \<noteq> 0 \<Longrightarrow> millis_of i = i div 1000"
proof -
  define p k r where "p = round_ratio (timestamp i * 1000) 1" and "k = i div 1000" and "r = i mod 1000"
  let ?W = one_double
  have i: "i = 1000 * k + r" "0 \<le> r" "r \<le> 999" "0 \<le> k" using assms by (simp_all add: k_def r_def pos_imp_zdiv_nonneg_iff)
  have e: "\<bar>1000 * p - i * ?W\<bar> < ?W" unfolding p_def by (rule millis_error [OF assms])
  have iW: "i * ?W = 1000 * (k * ?W) + r * ?W" "0 \<le> r * ?W" "r * ?W \<le> 999 * ?W" "0 \<le> k * ?W"
    using i places(4) by (simp_all add: distrib_right)
  have p0: "0 \<le> p"
  proof (cases "i = 0")
    case True
    then show ?thesis by (simp add: p_def timestamp_def round_ratio_def half_even_div_def)
  next
    case False
    then have "1 * ?W \<le> i * ?W" using assms places(4) by (intro mult_right_mono) auto
    with e show ?thesis by linarith
  qed
  have m: "millis_of i = p div ?W" using p0 by (auto simp: millis_of_def p_def [symmetric] Let_def sgn_if)
  have kW: "?W * (k + 1) = k * ?W + ?W" "?W * (k - 1) = k * ?W - ?W" "?W * k = k * ?W" by (simp_all add: algebra_simps)
  have up: "p < ?W * (k + 1)" using e iW places(4) unfolding kW by linarith
  have low: "?W * (k - 1) \<le> p" using e iW places(4) unfolding kW by linarith
  note q = div_split_bounds [OF places(4), of p]
  have "p div ?W < k + 1" by (rule div_below [OF places(4) up])
  moreover have "?W * (k - 1) < ?W * (p div ?W + 1)" using low q(2) by linarith
  then have "k - 1 < p div ?W + 1" using places(4) by simp
  ultimately show "millis_of i \<in> {i div 1000 - 1, i div 1000}" unfolding m k_def [symmetric] by auto
  show "0 \<le> millis_of i" unfolding m using p0 places(4) by (simp add: pos_imp_zdiv_nonneg_iff)
  assume "i mod 1000 \<noteq> 0"
  then have "1 * ?W \<le> r * ?W" using i(2) places(4) unfolding r_def by (intro mult_right_mono) auto
  with e iW places(4) have "?W * k \<le> p" unfolding kW by linarith
  then have "?W * k < ?W * (p div ?W + 1)" using q(2) by linarith
  then have "k < p div ?W + 1" using places(4) by simp
  with \<open>p div ?W < k + 1\<close> show "millis_of i = i div 1000" unfolding m k_def [symmetric] by simp
qed

lemma from_timestamp_exact:
  assumes "0 \<le> m" "m < 1000 * 8589934592"
  shows "from_timestamp (round_ratio (m * one_double) 1000) = 1000 * m"
proof -
  let ?W = one_double
  define d where "d = round_ratio (m * ?W) 1000"
  define whole where "whole = d div ?W"
  define part where "part = d - whole * ?W"
  define P where "P = round_ratio (part * 1000000) 1"
  define h where "h = half_even_div P ?W"
  have mW: "0 \<le> m * ?W" "m * ?W < 1000 * 8589934592 * ?W" using assms places(4) by simp_all
  then have "\<bar>m * ?W\<bar> < 1000 * (8589934592 * ?W)" by linarith
  from place_errors(1) [OF _ this] have e1: "2 * \<bar>m * ?W - 1000 * d\<bar> \<le> 1000 * sec_place" by (simp add: d_def)
  have d0: "0 \<le> d"
    unfolding d_def by (rule round_ratio_bounds(1) [of 1000 0]) (use mW representable_small [of 0] in simp_all)
  have part: "0 \<le> part" "part < ?W"
    using div_split_bounds [OF places(4), of d] by (simp_all add: part_def whole_def algebra_simps)
  then have "\<bar>part * 1000000\<bar> < 1048576 * ?W" by linarith
  from place_errors(3) [OF this] have e2: "2 * \<bar>part * 1000000 - P\<bar> \<le> micro_place" by (simp add: P_def)
  have e3: "2 * \<bar>P - ?W * h\<bar> \<le> ?W" unfolding h_def by (rule half_even_div_bounds(3) [OF places(4)])
  let ?z = "1000 * m - 1000000 * whole"
  have "?W * ?z = 1000 * (m * ?W) - 1000000 * (whole * ?W)" by (simp add: algebra_simps)
  then have "part * 1000000 - ?W * ?z = 1000000 * d - 1000 * (m * ?W)" by (simp add: part_def algebra_simps)
  moreover define y x w where "y = ?W * ?z" and "x = m * ?W" and "w = part * 1000000"
  ultimately have y: "w - y = 1000000 * d - 1000 * x" by simp
  have "2 * x - 2 * (1000 * d) \<le> 1000 * sec_place" "2 * (1000 * d) - 2 * x \<le> 1000 * sec_place" "2 * w - 2 * P \<le> micro_place"
    "2 * P - 2 * w \<le> micro_place"
    using abs_sides [OF e1] abs_sides [OF e2] unfolding x_def w_def by blast+
  with y places(1,3,4) have "2 * P - 2 * y < ?W" "2 * y - 2 * P < ?W" by linarith+
  then have "2 * \<bar>P - ?W * ?z\<bar> < ?W" unfolding y_def by (auto simp: abs_if)
  with e3 have "\<bar>?W * h - ?W * ?z\<bar> < ?W" by (rule abs_near)
  then have "?W * \<bar>h - ?z\<bar> < ?W * 1" using places(4) by (simp add: abs_mult flip: right_diff_distrib)
  then have "h = ?z" using places(4) mult_less_cancel_left_pos [of ?W "\<bar>h - ?z\<bar>" 1] by simp
  moreover have "from_timestamp d = whole * 1000000 + h"
    using d0 by (auto simp: from_timestamp_def Let_def whole_def part_def P_def h_def sgn_if)
  ultimately show ?thesis by (simp add: d_def)
qed


section \<open>Round trips\<close>

lemma prefix_value_plain: "CHR ''_'' \<notin> set (prefix_value p)"
  by (cases p) simp_all

lemma parse_id_value:
  assumes "CHR ''_'' \<notin> set (id_prefix_of x)" "length (id_ulid x) = ULID_CHARS"
  shows "parse_id (id_value x) = Some x"
proof -
  have "takeWhile (\<lambda>c. c \<noteq> CHR ''_'') (id_value x) = id_prefix_of x"
    "dropWhile (\<lambda>c. c \<noteq> CHR ''_'') (id_value x) = CHR ''_'' # id_ulid x"
    using assms(1) unfolding id_value_def by (subst takeWhile_append2 dropWhile_append2; auto)+
  with assms(2) show ?thesis by (simp add: parse_id_def)
qed

lemma millis_below: "0 \<le> i \<Longrightarrow> i < EPOCH_LIMIT \<Longrightarrow> millis_of i < 8589934592 * 1000"
  using millis_bounds(1) [of i] by (auto simp: EPOCH_LIMIT_def)

lemma minted_at_mint:
  assumes "0 \<le> i" "i < EPOCH_LIMIT"
  shows "id_minted_at (mint_at prefix i randomness) = Some (1000 * millis_of i)"
proof -
  have m: "0 \<le> millis_of i" "millis_of i < 32 ^ TIME_CHARS"
    using millis_bounds(2) [OF assms] millis_below [OF assms] by (simp_all add: TIME_CHARS_def)
  have t: "take TIME_CHARS (ulid_encode m TIME_CHARS @ xs) = ulid_encode m TIME_CHARS" for m xs
    by (simp add: ulid_encode_def)
  have "decode_from crockford_value 32 0 (ulid_encode (millis_of i) TIME_CHARS) = Some (millis_of i)"
    using crockford.decode_encode [OF m] by (simp add: ulid_encode_def)
  moreover have "from_timestamp (round_ratio (millis_of i * one_double) 1000) = 1000 * millis_of i"
    by (rule from_timestamp_exact) (use m(1) millis_below [OF assms] in simp_all)
  ultimately show ?thesis by (simp add: id_minted_at_def mint_at_def t del: take_append)
qed

definition header_char :: "char \<Rightarrow> bool" where
  "header_char c \<longleftrightarrow> c = CHR ''-'' \<or> c \<in> set HEX"

lemma header_printable: "header_char c \<Longrightarrow> 33 \<le> (of_char c :: nat) \<and> (of_char c :: nat) \<le> 127"
  unfolding header_char_def HEX_def by auto

lemma header_no_ws: "\<forall>c\<in>set s. header_char c \<Longrightarrow> \<not> has_ws s"
  using header_printable printable_no_ws by (induction s) auto

lemma dash_not_hex: "CHR ''-'' \<notin> set HEX" "CHR ''0'' \<in> set HEX"
  by (simp_all add: HEX_def)

lemma hex_width_le: "n < 16 ^ w \<Longrightarrow> 0 < w \<Longrightarrow> hex_width n \<le> w"
proof (induction w arbitrary: n)
  case (Suc w)
  show ?case
  proof (cases "n < 16")
    case False
    with Suc.prems have "0 < w" by (cases w) auto
    moreover have "n div 16 < 16 ^ w" by (rule div_below) (use Suc.prems in simp_all)
    ultimately show ?thesis using Suc.IH False by (subst hex_width.simps) simp
  qed (subst hex_width.simps, simp)
qed simp

lemma hex_padded_field:
  assumes "0 \<le> n" "n < 16 ^ w" "0 < w"
  shows "hex_field (hex_padded n w) w = Some n" "set (hex_padded n w) \<subseteq> set HEX"
proof -
  have w: "hex_padded n w = encode_base hex_digit 16 n w"
    using hex_width_le [OF assms(2,3)] by (simp add: hex_padded_def max_absorb1)
  have "hex_digit ` {0..<16} \<subseteq> set HEX" using hex_digits by auto
  with hex.digits_only [OF assms(1), of w] show sub: "set (hex_padded n w) \<subseteq> set HEX" unfolding w by blast
  show "hex_field (hex_padded n w) w = Some n"
    using sub hex.decode_encode [OF assms(1,2), of 0] unfolding hex_field_def w by simp
qed

section \<open>Properties\<close>

text \<open>C36: A minted identifier's text parses back to it, and the instant read from it is the minting
  instant's millisecond, or the one before it only on an exact millisecond; identifiers minted
  two milliseconds apart sort by age (instants from 1970 to 2242).\<close>

theorem minted_id_reads_back:
  assumes "0 \<le> i" "i < EPOCH_LIMIT" "0 \<le> randomness" "randomness < 2 ^ 80"
  shows "parse_id (id_value (mint_at (prefix_value p) i randomness)) = Some (mint_at (prefix_value p) i randomness)
     \<and> (\<exists>m. id_minted_at (mint_at (prefix_value p) i randomness) = Some m
          \<and> (m = i - i mod 1000 \<or> i mod 1000 = 0 \<and> m = i - 1000))
     \<and> (i + 2000 \<le> j \<and> j < EPOCH_LIMIT \<longrightarrow>
          id_value (mint_at (prefix_value p) i randomness) < id_value (mint_at (prefix_value p) j randomness'))"
proof (intro conjI impI)
  show "parse_id (id_value (mint_at (prefix_value p) i randomness)) = Some (mint_at (prefix_value p) i randomness)"
    by (rule parse_id_value)
      (simp_all add: mint_at_def prefix_value_plain ulid_encode_def ULID_CHARS_def)
  have "1000 * (i div 1000) = i - i mod 1000" by (simp add: minus_mod_eq_mult_div)
  then show "\<exists>m. id_minted_at (mint_at (prefix_value p) i randomness) = Some m
          \<and> (m = i - i mod 1000 \<or> i mod 1000 = 0 \<and> m = i - 1000)"
    using millis_bounds(1,3) [OF assms(1,2)] minted_at_mint [OF assms(1,2)] by (cases "i mod 1000 = 0") auto
next
  assume j: "i + 2000 \<le> j \<and> j < EPOCH_LIMIT"
  then have j': "0 \<le> j" "j < EPOCH_LIMIT" using assms(1) by simp_all
  have "i div 1000 + 2 \<le> j div 1000" using zdiv_mono1 [of "i + 2 * 1000" j 1000] j by simp
  then have "millis_of i < millis_of j" using millis_bounds(1) [OF assms(1,2)] millis_bounds(1) [OF j'] by auto
  moreover have "millis_of j < 32 ^ TIME_CHARS" using millis_below [OF j'] by (simp add: TIME_CHARS_def)
  ultimately have "ulid_encode (millis_of i) TIME_CHARS < ulid_encode (millis_of j) TIME_CHARS"
    unfolding ulid_encode_def by (intro crockford.encode_less) (use millis_bounds(2) [OF assms(1,2)] in simp_all)
  then show "id_value (mint_at (prefix_value p) i randomness) < id_value (mint_at (prefix_value p) j randomness')"
    by (auto simp: id_value_def mint_at_def ulid_encode_def intro!: less_append_right less_append_left)
qed

theorem minted_id_reads_back_witness:
  "parse_id (id_value (mint_at ''ch'' 1700000000123456 7)) = Some (mint_at ''ch'' 1700000000123456 7)
   \<and> id_minted_at (mint_at ''ch'' 1700000000123456 7) = Some 1700000000123000
   \<and> id_value (mint_at ''ch'' 1700000000123456 7) < id_value (mint_at ''ch'' 1700000000200000 3)"
  using minted_id_reads_back [of 1700000000123456 7 IdChunk 1700000000200000 3] by (simp add: EPOCH_LIMIT_def)

theorem traceparent_reads_back:
  assumes "0 < t" "t < 16 ^ 32" "0 < sp" "sp < 16 ^ 16" "0 \<le> f" "f < 16 ^ 2"
  shows "parse_traceparent (format_traceparent t sp f) = Some \<lparr>dc_trace_id = t, dc_span_id = sp, dc_trace_flags = f\<rparr>"
proof -
  let ?t = "hex_padded t 32" and ?s = "hex_padded sp 16" and ?f = "hex_padded f 2"
  have hex: "hex_field ?t 32 = Some t" "hex_field ?s 16 = Some sp" "hex_field ?f 2 = Some f" "hex_field ''00'' 2 = Some 0"
    using assms by (simp_all add: hex_padded_field) (simp add: hex_field_def hex_value_def HEX_def)
  have chars: "set ?t \<subseteq> set HEX" "set ?s \<subseteq> set HEX" "set ?f \<subseteq> set HEX"
    using assms by (simp_all only: hex_padded_field(2))
  have "\<not> has_ws (format_traceparent t sp f)"
    by (rule header_no_ws) (use chars in \<open>auto simp: format_traceparent_def header_char_def dash_not_hex\<close>)
  then have strip: "py_strip (format_traceparent t sp f) = format_traceparent t sp f" by (rule no_ws_suffix)
  have "CHR ''-'' \<notin> set ?t" "CHR ''-'' \<notin> set ?s" "CHR ''-'' \<notin> set ?f" "CHR ''-'' \<notin> set ''00''"
    using chars dash_not_hex by auto
  then have "split_char CHR ''-'' (''00'' @ CHR ''-'' # ?t @ CHR ''-'' # ?s @ CHR ''-'' # ?f) = [''00'', ?t, ?s, ?f]"
    by (simp only: split_char_append split_char_none not_False_eq_True)
  then have "split_char CHR ''-'' (format_traceparent t sp f) = [''00'', ?t, ?s, ?f]" by (simp add: format_traceparent_def)
  with hex assms(1,3) show ?thesis by (simp add: parse_traceparent_def strip)
qed

theorem traceparent_reads_back_witness:
  "parse_traceparent (format_traceparent 255 4096 1) = Some \<lparr>dc_trace_id = 255, dc_span_id = 4096, dc_trace_flags = 1\<rparr>"
  using traceparent_reads_back [of 255 4096 1] by simp

end
