(* ===== verification/Json_Text.thy ===== *)
theory Json_Text
  imports Ids
begin

text \<open>
  \<open>json.dumps\<close> of a string and of an object of strings, with \<open>separators=(",", ":")\<close>: printable ASCII
  but the quote and the backslash stands for itself, the rest is escaped. Python escapes a code point
  beyond ASCII as one or two groups of four hexadecimal digits; here each of its bytes is a group.
\<close>

definition json_escape :: "char \<Rightarrow> string" where
  "json_escape c =
     (if c = CHR 0x22 then [CHR 0x5C, CHR 0x22]
      else if c = CHR 0x5C then [CHR 0x5C, CHR 0x5C]
      else if c = CHR 0x0A then [CHR 0x5C, CHR ''n'']
      else if c = CHR 0x0D then [CHR 0x5C, CHR ''r'']
      else if c = CHR 0x09 then [CHR 0x5C, CHR ''t'']
      else if c = CHR 0x0C then [CHR 0x5C, CHR ''f'']
      else if c = CHR 0x08 then [CHR 0x5C, CHR ''b'']
      else if CHR '' '' \<le> c \<and> c \<le> CHR ''~'' then [c]
      else [CHR 0x5C, CHR ''u'', CHR ''0'', CHR ''0'', hex_digit (of_char c div 16), hex_digit (of_char c mod 16)])"

definition json_string :: "string \<Rightarrow> string" where
  "json_string s = [CHR 0x22] @ concat (map json_escape s) @ [CHR 0x22]"

definition json_value :: "string option \<Rightarrow> string" where
  "json_value v = (case v of None \<Rightarrow> ''null'' | Some s \<Rightarrow> json_string s)"

fun join :: "string \<Rightarrow> string list \<Rightarrow> string" where
  "join sep [] = []"
| "join sep [x] = x"
| "join sep (x # y # ys) = x @ sep @ join sep (y # ys)"

definition json_object :: "(string \<times> string option) list \<Rightarrow> string" where
  "json_object members = ''{'' @ join '','' (map (\<lambda>(k, v). json_string k @ '':'' @ json_value v) members) @ ''}''"

section \<open>The text determines the value\<close>

text \<open>Reading one escaped character off the front of a text.\<close>

definition json_unescape :: "string \<Rightarrow> (char \<times> string) option" where
  "json_unescape t =
     (case t of
        [] \<Rightarrow> None
      | c # r \<Rightarrow>
          if c \<noteq> CHR 0x5C then (if c = CHR 0x22 then None else Some (c, r))
          else (case r of
              [] \<Rightarrow> None
            | k # r2 \<Rightarrow>
                if k = CHR ''u'' then
                  (case (hex_value (hd (tl (tl r2))), hex_value (hd (tl (tl (tl r2))))) of
                     (Some h, Some l) \<Rightarrow> Some (char_of (nat (16 * h + l)), tl (tl (tl (tl r2)))) | _ \<Rightarrow> None)
                else if k = CHR ''n'' then Some (CHR 0x0A, r2) else if k = CHR ''r'' then Some (CHR 0x0D, r2)
                else if k = CHR ''t'' then Some (CHR 0x09, r2) else if k = CHR ''f'' then Some (CHR 0x0C, r2)
                else if k = CHR ''b'' then Some (CHR 0x08, r2) else Some (k, r2)))"

lemma char_nibbles:
  fixes c :: char
  shows "char_of (nat (16 * (of_char c div 16) + of_char c mod 16)) = c" "0 \<le> (of_char c :: int)"
    "(of_char c :: int) div 16 < 16" "0 \<le> (of_char c :: int) div 16"
proof -
  have n: "(of_char c :: int) = int (of_char c :: nat)" by (simp add: of_char_def)
  have "(of_char c :: nat) < 256" using nat_of_char_less_256 [of c] by simp
  then have "(of_char c :: int) < 256" unfolding n by linarith
  then show "(of_char c :: int) div 16 < 16" by simp
  show "0 \<le> (of_char c :: int)" "0 \<le> (of_char c :: int) div 16" using n by simp_all
  have "nat (16 * (of_char c div 16) + of_char c mod 16) = (of_char c :: nat)" using n by simp
  then show "char_of (nat (16 * (of_char c div 16) + of_char c mod 16)) = c" by simp
qed

lemma json_unescape_escape [simp]: "json_unescape (json_escape c @ x) = Some (c, x)"
proof -
  have v: "hex_value (hex_digit (of_char c div 16)) = Some (of_char c div 16)"
    "hex_value (hex_digit (of_char c mod 16)) = Some (of_char c mod 16)"
    using char_nibbles [of c] by (simp_all add: hex.val_digit)
  consider (special) "c \<in> {CHR 0x22, CHR 0x5C, CHR 0x0A, CHR 0x0D, CHR 0x09, CHR 0x0C, CHR 0x08}"
    | (plain) "c \<notin> {CHR 0x22, CHR 0x5C, CHR 0x0A, CHR 0x0D, CHR 0x09, CHR 0x0C, CHR 0x08}" "CHR '' '' \<le> c \<and> c \<le> CHR ''~''"
    | (other) "c \<notin> {CHR 0x22, CHR 0x5C, CHR 0x0A, CHR 0x0D, CHR 0x09, CHR 0x0C, CHR 0x08}" "\<not> (CHR '' '' \<le> c \<and> c \<le> CHR ''~'')"
    by blast
  then show ?thesis
  proof cases
    case special
    then show ?thesis by (elim insertE emptyE) (simp_all add: json_escape_def json_unescape_def)
  next
    case plain
    then show ?thesis by (simp add: json_escape_def json_unescape_def)
  next
    case other
    then have "json_escape c = [CHR 0x5C, CHR ''u'', CHR ''0'', CHR ''0'', hex_digit (of_char c div 16), hex_digit (of_char c mod 16)]"
      by (simp only: json_escape_def insert_iff empty_iff simp_thms de_Morgan_disj if_False)
    then show ?thesis using v char_nibbles(1) [of c] by (simp add: json_unescape_def)
  qed
qed

lemma json_escape_inject:
  assumes "json_escape c @ x = json_escape d @ y"
  shows "c = d \<and> x = y"
proof -
  have "Some (c, x) = Some (d, y)" using arg_cong [OF assms, of json_unescape] by (simp only: json_unescape_escape)
  then show ?thesis by simp
qed

lemma json_escape_not_quote: "json_escape c @ x \<noteq> CHR 0x22 # y"
  using json_unescape_escape [of c x] by (auto simp: json_unescape_def)

text \<open>A string's text ends where its closing quote stands.\<close>

lemma json_string_inject: "json_string s @ x = json_string t @ y \<Longrightarrow> s = t \<and> x = y"
proof -
  have "concat (map json_escape s) @ CHR 0x22 # x = concat (map json_escape t) @ CHR 0x22 # y \<Longrightarrow> s = t \<and> x = y"
  proof (induction s arbitrary: t)
    case Nil
    show ?case
    proof (cases t)
      case (Cons d ds)
      with Nil show ?thesis using json_escape_not_quote [of d "concat (map json_escape ds) @ CHR 0x22 # y" x] by simp
    qed (use Nil in simp)
  next
    case (Cons c cs)
    then obtain d ds where t: "t = d # ds"
      using json_escape_not_quote [of c "concat (map json_escape cs) @ CHR 0x22 # x" y] by (cases t) simp_all
    have "json_escape c @ (concat (map json_escape cs) @ CHR 0x22 # x)
        = json_escape d @ (concat (map json_escape ds) @ CHR 0x22 # y)"
      using Cons.prems t by simp
    from json_escape_inject [OF this] Cons.IH t show ?case by blast
  qed
  then show "json_string s @ x = json_string t @ y \<Longrightarrow> s = t \<and> x = y" by (simp add: json_string_def)
qed

lemma json_value_inject:
  assumes "json_value v @ x = json_value w @ y"
  shows "v = w \<and> x = y"
  using assms
proof (cases v; cases w)
  fix s t assume "json_value v @ x = json_value w @ y" "v = Some s" "w = Some t"
  then show ?thesis using json_string_inject [of s x t y] by (simp add: json_value_def)
qed (simp_all add: json_value_def json_string_def)

lemma json_object_inject:
  assumes "json_object (map (\<lambda>k. (k, f k)) ks) = json_object (map (\<lambda>k. (k, g k)) ks)" "k \<in> set ks"
  shows "f k = g k"
proof -
  have member: "(json_string k @ '':'' @ json_value (f k)) @ x = (json_string k @ '':'' @ json_value (g k)) @ y
      \<Longrightarrow> f k = g k \<and> x = y" for k x y
    using json_value_inject [of "f k" x "g k" y] by simp
  have "join '','' (map (\<lambda>k. json_string k @ '':'' @ json_value (f k)) ks) @ x
      = join '','' (map (\<lambda>k. json_string k @ '':'' @ json_value (g k)) ks) @ x \<Longrightarrow> \<forall>k \<in> set ks. f k = g k" for x
  proof (induction ks rule: induct_list012)
    case (2 k)
    then show ?case using member [of k x x] by simp
  next
    case (3 k l ks)
    have "f k = g k \<and> '','' @ join '','' (map (\<lambda>k. json_string k @ '':'' @ json_value (f k)) (l # ks)) @ x
        = '','' @ join '','' (map (\<lambda>k. json_string k @ '':'' @ json_value (g k)) (l # ks)) @ x"
      by (rule member) (use "3.prems" in \<open>simp only: list.map join.simps append_assoc\<close>)
    then have here: "f k = g k" and rest: "join '','' (map (\<lambda>k. json_string k @ '':'' @ json_value (f k)) (l # ks)) @ x
        = join '','' (map (\<lambda>k. json_string k @ '':'' @ json_value (g k)) (l # ks)) @ x"
      by (simp_all only: same_append_eq)
    show ?case using here "3.IH"(2) [OF rest] by simp
  qed simp
  moreover have "join '','' (map (\<lambda>k. json_string k @ '':'' @ json_value (f k)) ks) @ ''}''
      = join '','' (map (\<lambda>k. json_string k @ '':'' @ json_value (g k)) ks) @ ''}''"
    using assms(1) by (simp add: json_object_def comp_def)
  ultimately show ?thesis using assms(2) by blast
qed

end
