(* ===== verification/Repositories.thy ===== *)
theory Repositories
  imports Flows Repo_Refs Json_Text
begin

text \<open>
  Repository records and what a chunk's commits resolve to (\<open>hub/domain/config/repositories.py\<close>,
  \<open>forges.py\<close>), and the resolution of a hub-node visit (\<open>hub/domain/actions/visit.py\<close>,
  \<open>hub/domain/delivery/flows.py\<close>): the flows the visit holds, or why it is refused. A refusal carries
  the values its message is formatted from. The hexadecimal SHA-256 digest of a text is the
  argument \<open>digest\<close>.
\<close>

section \<open>Records\<close>

datatype landing_policy = MergeOnChecks | FastForward | Park

fun policy_value :: "landing_policy \<Rightarrow> string" where
  "policy_value MergeOnChecks = ''merge-on-checks''"
| "policy_value FastForward = ''fast-forward''"
| "policy_value Park = ''park''"

definition DEFAULT_LANDING_POLICY :: landing_policy where
  "DEFAULT_LANDING_POLICY = MergeOnChecks"

record repository_fields =
  rpf_forge_id :: ident
  rpf_owner :: string
  rpf_repo :: string
  rpf_base_branch :: string
  rpf_secret_name :: string
  rpf_landing_policy :: landing_policy
  rpf_park_timeout_hours :: "int option"

record configured_repository =
  cr_repository_id :: ident
  cr_slug :: string
  cr_name :: string
  cr_fields :: repository_fields
  cr_revision :: int
  cr_created_at :: instant
  cr_created_by :: string
  cr_retired :: bool
  cr_retired_at :: "instant option"

record configured_forge =
  fo_forge_id :: ident
  fo_slug :: string
  fo_kind :: string
  fo_api_base :: string
  fo_web_base :: "string option"

text \<open>\<open>str.replace(old, new, 1)\<close> and the test for a substring.\<close>

fun contains :: "string \<Rightarrow> string \<Rightarrow> bool" where
  "contains needle [] = (needle = [])"
| "contains needle (c # cs) = (starts_with needle (c # cs) \<or> contains needle cs)"

fun replace_first :: "string \<Rightarrow> string \<Rightarrow> string \<Rightarrow> string" where
  "replace_first old new [] = (if old = [] then new else [])"
| "replace_first old new (c # cs) =
     (if starts_with old (c # cs) then new @ drop (length old) (c # cs) else c # replace_first old new cs)"

definition derived_web_origin :: "string \<Rightarrow> string \<Rightarrow> string" where
  "derived_web_origin kind api_base =
     (let stripped = rstrip_char (CHR ''/'') api_base in
      if kind = ''github'' then
        (if ends_with ''/api/v3'' stripped then take (length stripped - length ''/api/v3'') stripped
         else if contains ''://api.'' stripped then replace_first ''://api.'' ''://'' stripped
         else stripped)
      else stripped)"

definition web_origin :: "configured_forge \<Rightarrow> string" where
  "web_origin f = (case fo_web_base f of
     Some w \<Rightarrow> if w = [] then derived_web_origin (fo_kind f) (fo_api_base f) else w
   | None \<Rightarrow> derived_web_origin (fo_kind f) (fo_api_base f))"

section \<open>What a commit pointer's origin names\<close>

record commit_origin =
  og_name :: string
  og_host :: string
  og_owner :: string

definition CommitOrigin_of :: "string option \<Rightarrow> string \<Rightarrow> commit_origin" where
  "CommitOrigin_of origin_url name =
     (case origin_ref origin_url of
        Some r \<Rightarrow> \<lparr>og_name = rf_name r, og_host = rf_host r, og_owner = rf_owner r\<rparr>
      | None \<Rightarrow> (let (owner, bare) = rpartition_at (CHR ''/'') name
                 in \<lparr>og_name = bare, og_host = [], og_owner = owner\<rparr>))"

text \<open>\<open>urllib.parse.urlparse(origin).netloc\<close> of a canonical origin: what stands between \<open>//\<close> and the
  next \<open>/\<close>, \<open>?\<close> or \<open>#\<close>, after the scheme when there is one.\<close>

definition url_netloc :: "string \<Rightarrow> string" where
  "url_netloc url =
     (let scheme = takeWhile (\<lambda>c. c \<noteq> CHR '':'') url; after = drop (length scheme) url;
          rest = (if after \<noteq> [] \<and> scheme \<noteq> [] \<and> is_letter (hd scheme) \<and> list_all scheme_char scheme then tl after else url)
      in if starts_with ''//'' rest
         then takeWhile (\<lambda>c. c \<notin> {CHR ''/'', CHR ''?'', CHR ''#''}) (drop 2 rest) else [])"

definition url_host :: "string \<Rightarrow> string" where
  "url_host origin = remove_prefix ''api.'' (lower (snd (rpartition_at (CHR ''@'') (url_netloc origin))))"

definition forge_hosts :: "configured_forge option \<Rightarrow> string set" where
  "forge_hosts forge = (case forge of None \<Rightarrow> {} | Some f \<Rightarrow> {url_host (web_origin f), url_host (fo_api_base f)})"

definition forges_by_id :: "configured_forge list \<Rightarrow> ident \<Rightarrow> configured_forge option" where
  "forges_by_id forges forge_id = List.find (\<lambda>f. fo_forge_id f = forge_id) (rev forges)"

section \<open>Resolving pointers to records\<close>

definition origin_candidates ::
  "commit_origin \<Rightarrow> configured_repository list \<Rightarrow> (ident \<Rightarrow> configured_forge option) \<Rightarrow> configured_repository list" where
  "origin_candidates origin rows forges =
     (let named = filter (\<lambda>row. rpf_repo (cr_fields row) = og_name origin) rows;
          owned = (if og_owner origin = [] then named
                   else filter (\<lambda>row. lower (rpf_owner (cr_fields row)) = lower (og_owner origin)) named)
      in if og_host origin = [] then owned
         else filter (\<lambda>row. remove_prefix ''api.'' (lower (og_host origin))
            \<in> forge_hosts (forges (rpf_forge_id (cr_fields row)))) owned)"

definition rows_standing :: "configured_repository list \<Rightarrow> instant \<Rightarrow> configured_repository list" where
  "rows_standing rows minted_at =
     filter (\<lambda>row. case cr_retired_at row of None \<Rightarrow> True | Some i \<Rightarrow> i > minted_at) rows"

definition rows_linked :: "configured_repository list \<Rightarrow> ident set option \<Rightarrow> configured_repository list" where
  "rows_linked rows linked = (case linked of None \<Rightarrow> rows | Some ids \<Rightarrow> filter (\<lambda>row. cr_repository_id row \<in> ids) rows)"

definition origin_label :: "commit_origin \<Rightarrow> string" where
  "origin_label origin = (if og_owner origin = [] then og_name origin else og_owner origin @ ''/'' @ og_name origin)"

record resolved_repository =
  rr_forge_id :: ident
  rr_owner :: string
  rr_base_branch :: string
  rr_secret_name :: string
  rr_record :: ident
  rr_slug :: string
  rr_landing_policy :: landing_policy
  rr_landing_position :: "int option"
  rr_park_timeout_hours :: "int option"

datatype repository_outcome = Resolved | NothingToResolve | Unresolved | NotLinked

datatype resolution_detail = NoDetail
  | AmbiguousBetween string "string list"
  | NotLinkedBy string string string
  | AmbiguousUnlinked string "string list" string
  | NoRecordFor string

record repository_resolution =
  rn_outcome :: repository_outcome
  rn_targets :: "resolved_repository list"
  rn_qualified :: "string list"
  rn_records :: "ident list"
  rn_detail :: resolution_detail
  rn_forges :: "configured_forge list"

definition unresolved :: "repository_outcome \<Rightarrow> resolution_detail \<Rightarrow> repository_resolution" where
  "unresolved outcome detail = \<lparr>rn_outcome = outcome, rn_targets = [], rn_qualified = [], rn_records = [],
     rn_detail = detail, rn_forges = []\<rparr>"

definition resolution_refusal ::
  "commit_origin \<Rightarrow> configured_repository list \<Rightarrow> configured_repository list \<Rightarrow> (ident \<Rightarrow> configured_forge option)
     \<Rightarrow> ident set option \<Rightarrow> string \<Rightarrow> repository_resolution" where
  "resolution_refusal origin found standing forges linked project =
     (let label = origin_label origin;
          tenant_wide = (if linked = None then [] else origin_candidates origin standing forges)
      in if found \<noteq> [] then unresolved Unresolved (AmbiguousBetween label (sort (map cr_slug found)))
         else (case tenant_wide of
             [row] \<Rightarrow> unresolved NotLinked (NotLinkedBy label (cr_slug row) project)
           | [] \<Rightarrow> unresolved Unresolved (NoRecordFor label)
           | rows \<Rightarrow> unresolved Unresolved (AmbiguousUnlinked label (sort (map cr_slug rows)) project)))"

text \<open>The records the origins pick, up to the first origin that picks no single one.\<close>

fun pick_each ::
  "configured_repository list \<Rightarrow> (ident \<Rightarrow> configured_forge option) \<Rightarrow> commit_origin list
     \<Rightarrow> commit_origin \<times> configured_repository list + configured_repository list" where
  "pick_each rows forges [] = Inr []"
| "pick_each rows forges (origin # origins) =
     (case origin_candidates origin rows forges of
        [row] \<Rightarrow> (case pick_each rows forges origins of Inl e \<Rightarrow> Inl e | Inr picked \<Rightarrow> Inr (row # picked))
      | found \<Rightarrow> Inl (origin, found))"

definition target_of :: "configured_repository \<Rightarrow> resolved_repository" where
  "target_of row = (let f = cr_fields row in
     \<lparr>rr_forge_id = rpf_forge_id f, rr_owner = rpf_owner f, rr_base_branch = rpf_base_branch f,
      rr_secret_name = rpf_secret_name f, rr_record = cr_repository_id row, rr_slug = cr_slug row,
      rr_landing_policy = rpf_landing_policy f, rr_landing_position = None, rr_park_timeout_hours = None\<rparr>)"

definition qualified_of :: "configured_repository \<Rightarrow> string" where
  "qualified_of row = rpf_owner (cr_fields row) @ ''/'' @ rpf_repo (cr_fields row)"

text \<open>Each forge the records name, once; a missing one is the \<open>KeyError\<close> of the lookup, the first
  missing id.\<close>

definition forges_named ::
  "(ident \<Rightarrow> configured_forge option) \<Rightarrow> configured_repository list \<Rightarrow> ident + configured_forge list" where
  "forges_named forges picked =
     (let ids = map (\<lambda>row. rpf_forge_id (cr_fields row)) picked in
      case List.find (\<lambda>i. forges i = None) ids of
        Some i \<Rightarrow> Inl i
      | None \<Rightarrow> Inr (List.map_filter forges (dedup ids)))"

definition resolve_chunk_repositories ::
  "commit_origin list \<Rightarrow> configured_repository list \<Rightarrow> configured_forge list \<Rightarrow> instant \<Rightarrow> ident set option \<Rightarrow> string
     \<Rightarrow> ident + repository_resolution" where
  "resolve_chunk_repositories origins rows forges minted_at linked project =
     (if origins = [] then Inr (unresolved NothingToResolve NoDetail)
      else
        let by_id = forges_by_id forges; standing = rows_standing rows minted_at in
        case pick_each (rows_linked standing linked) by_id origins of
          Inl (origin, found) \<Rightarrow> Inr (resolution_refusal origin found standing by_id linked project)
        | Inr picked \<Rightarrow>
            (case forges_named by_id picked of
               Inl missing \<Rightarrow> Inl missing
             | Inr fs \<Rightarrow> Inr \<lparr>rn_outcome = Resolved, rn_targets = map target_of picked,
                 rn_qualified = map qualified_of picked, rn_records = map cr_repository_id picked,
                 rn_detail = NoDetail, rn_forges = fs\<rparr>))"

definition resolve_origin_record ::
  "commit_origin \<Rightarrow> configured_repository list \<Rightarrow> configured_forge list \<Rightarrow> instant \<Rightarrow> ident set option
     \<Rightarrow> configured_repository option" where
  "resolve_origin_record origin rows forges minted_at linked =
     (case origin_candidates origin (rows_linked (rows_standing rows minted_at) linked) (forges_by_id forges) of
        [row] \<Rightarrow> Some row | _ \<Rightarrow> None)"

definition resolve_repository ::
  "commit_origin \<Rightarrow> configured_repository list \<Rightarrow> configured_forge list \<Rightarrow> ident set option \<Rightarrow> configured_repository option" where
  "resolve_repository origin rows forges linked =
     (case origin_candidates origin (rows_linked (filter (\<lambda>row. cr_retired_at row = None) rows) linked) (forges_by_id forges) of
        [row] \<Rightarrow> Some row | _ \<Rightarrow> None)"

section \<open>A chunk's commits\<close>

text \<open>\<open>row.repo or row.name\<close>.\<close>

definition pointer_name :: "stored_artifact \<Rightarrow> string" where
  "pointer_name row = (case sa_repo row of Some r \<Rightarrow> if r = [] then sa_name row else r | None \<Rightarrow> sa_name row)"

definition commit_identity :: "stored_artifact \<Rightarrow> string" where
  "commit_identity row = pointer_key (sa_forge row) (pointer_name row)"

definition commit_qualified :: "stored_artifact \<Rightarrow> string" where
  "commit_qualified row = repo_identity (sa_forge row) (pointer_name row)"

datatype unconverged = Unconverged string int string string

definition consider_commit ::
  "stored_artifact \<Rightarrow> (string \<times> stored_artifact) list \<Rightarrow> unconverged + (string \<times> stored_artifact) list" where
  "consider_commit row latest =
     (let identity = commit_identity row in
      case map_of latest identity of
        None \<Rightarrow> Inr (dict_set identity row latest)
      | Some current \<Rightarrow>
          if sa_epoch row > sa_epoch current then Inr (dict_set identity row latest)
          else if sa_epoch row = sa_epoch current \<and> sa_data row \<noteq> sa_data current
          then Inl (Unconverged identity (sa_epoch row) (sa_data current) (sa_data row))
          else if sa_epoch row = sa_epoch current then Inr (dict_set identity row latest)
          else Inr latest)"

fun collect_commits ::
  "stored_artifact list \<Rightarrow> (string \<times> stored_artifact) list \<Rightarrow> unconverged + (string \<times> stored_artifact) list" where
  "collect_commits [] latest = Inr latest"
| "collect_commits (row # rows) latest =
     (if sa_kind row \<noteq> GitCommit then collect_commits rows latest
      else case consider_commit row latest of Inl e \<Rightarrow> Inl e | Inr latest' \<Rightarrow> collect_commits rows latest')"

definition GitCommits_of :: "stored_artifact list \<Rightarrow> unconverged + stored_artifact list" where
  "GitCommits_of artifacts = (case collect_commits artifacts [] of Inl e \<Rightarrow> Inl e | Inr latest \<Rightarrow> Inr (map snd latest))"

definition commit_origins :: "stored_artifact list \<Rightarrow> commit_origin list" where
  "commit_origins rows = map (\<lambda>row. CommitOrigin_of (sa_forge row) (pointer_name row)) rows"

record commit_entry =
  ce_repo :: string
  ce_branch :: string
  ce_commit :: string
  ce_forge_url :: "string option"
  ce_owner :: "string option"
  ce_base_branch :: "string option"
  ce_record :: "string option"

definition forge_of :: "repository_resolution \<Rightarrow> resolved_repository \<Rightarrow> configured_forge option" where
  "forge_of resolution target = List.find (\<lambda>f. fo_forge_id f = rr_forge_id target) (rn_forges resolution)"

definition commit_entry_of ::
  "string list \<Rightarrow> repository_resolution option \<Rightarrow> nat \<Rightarrow> stored_artifact \<Rightarrow> commit_entry" where
  "commit_entry_of qualified resolution index row =
     (let targets = (case resolution of None \<Rightarrow> [] | Some r \<Rightarrow> rn_targets r);
          (branch, commit) = partition_at (CHR '':'') (sa_data row);
          entry = \<lparr>ce_repo = (if qualified = [] then commit_qualified row else qualified ! index), ce_branch = branch,
            ce_commit = commit, ce_forge_url = None, ce_owner = None, ce_base_branch = None, ce_record = None\<rparr>
      in case resolution of
        None \<Rightarrow> entry
      | Some r \<Rightarrow>
          if targets = [] then entry
          else let target = targets ! index in entry\<lparr>ce_forge_url := map_option fo_api_base (forge_of r target),
            ce_owner := Some (rr_owner target), ce_base_branch := Some (rr_base_branch target),
            ce_record := Some (rr_record target)\<rparr>)"

definition payload :: "stored_artifact list \<Rightarrow> string list \<Rightarrow> repository_resolution option \<Rightarrow> commit_entry list" where
  "payload rows qualified resolution = map (\<lambda>(index, row). commit_entry_of qualified resolution index row) (List.enumerate 0 rows)"

section \<open>A visit's repositories, or its refusal\<close>

record landing_project =
  lp_project_id :: string
  lp_slug :: string
  lp_linked :: "ident set"
  lp_positions :: "ident \<Rightarrow> int option"

definition LandingProject_read ::
  "ident option \<Rightarrow> (ident \<Rightarrow> string option) \<Rightarrow> (ident \<Rightarrow> (ident \<times> int option) list) \<Rightarrow> landing_project" where
  "LandingProject_read project_id slug_of links_of =
     (case project_id of
        None \<Rightarrow> \<lparr>lp_project_id = [], lp_slug = [], lp_linked = {}, lp_positions = (\<lambda>_. None)\<rparr>
      | Some i \<Rightarrow> \<lparr>lp_project_id = i, lp_slug = (case slug_of i of Some sl \<Rightarrow> sl | None \<Rightarrow> i),
          lp_linked = set (map fst (links_of i)),
          lp_positions = (\<lambda>r. case map_of (rev (links_of i)) r of Some p \<Rightarrow> p | None \<Rightarrow> None)\<rparr>)"

record visit_repositories =
  vr_spec :: action_spec
  vr_git_commits :: "stored_artifact list"
  vr_resolution :: repository_resolution

datatype refusal_detail = UnknownAction "string option" | NotConverged unconverged | NotResolved resolution_detail
  | TwoRecords string ident ident

record visit_refusal =
  vf_step :: string
  vf_detail :: refusal_detail
  vf_resolution :: "repository_resolution option"

definition outcome_value :: "repository_outcome \<Rightarrow> string" where
  "outcome_value o' = (case o' of Resolved \<Rightarrow> ''resolved'' | NothingToResolve \<Rightarrow> ''nothing-to-resolve''
     | Unresolved \<Rightarrow> ''repository-unresolved'' | NotLinked \<Rightarrow> ''repository-not-linked'')"

text \<open>\<open>_ambiguity\<close>: the first \<open>owner/repo\<close> that an earlier pointer resolved to another record.\<close>

fun ambiguity_from :: "(string \<times> ident) list \<Rightarrow> (string \<times> resolved_repository) list \<Rightarrow> (string \<times> ident \<times> ident) option" where
  "ambiguity_from held [] = None"
| "ambiguity_from held ((repo, target) # rest) =
     (case map_of held repo of
        None \<Rightarrow> ambiguity_from ((repo, rr_record target) # held) rest
      | Some first \<Rightarrow>
          if first \<noteq> rr_record target then Some (repo, first, rr_record target) else ambiguity_from held rest)"

definition ambiguity :: "repository_resolution \<Rightarrow> (string \<times> ident \<times> ident) option" where
  "ambiguity resolution = ambiguity_from [] (zip (rn_qualified resolution) (rn_targets resolution))"

datatype visit_answer = VisitRaises ident | VisitRefused visit_refusal | VisitResolved visit_repositories

definition resolve_visit ::
  "stored_artifact list \<Rightarrow> string option \<Rightarrow> action_spec option \<Rightarrow> landing_project \<Rightarrow> instant \<Rightarrow> configured_repository list
     \<Rightarrow> configured_forge list \<Rightarrow> visit_answer" where
  "resolve_visit artifacts action spec project minted_at repositories forges =
     (case spec of
        None \<Rightarrow> VisitRefused \<lparr>vf_step = ''action-unavailable'', vf_detail = UnknownAction action, vf_resolution = None\<rparr>
      | Some sp \<Rightarrow>
      (case GitCommits_of artifacts of
        Inl e \<Rightarrow> VisitRefused \<lparr>vf_step = ''unconverged-delivery'', vf_detail = NotConverged e, vf_resolution = None\<rparr>
      | Inr commits \<Rightarrow>
      (case resolve_chunk_repositories (commit_origins commits) repositories forges minted_at
              (Some (lp_linked project)) (lp_slug project) of
        Inl missing \<Rightarrow> VisitRaises missing
      | Inr resolution \<Rightarrow>
          if rn_outcome resolution \<in> {Unresolved, NotLinked} then
            VisitRefused \<lparr>vf_step = outcome_value (rn_outcome resolution), vf_detail = NotResolved (rn_detail resolution),
              vf_resolution = Some resolution\<rparr>
          else
            case (if as_lands sp then ambiguity resolution else None) of
              Some (repo, first, second) \<Rightarrow>
                VisitRefused \<lparr>vf_step = ''repository-ambiguous'', vf_detail = TwoRecords repo first second,
                  vf_resolution = Some resolution\<rparr>
            | None \<Rightarrow> VisitResolved \<lparr>vr_spec = sp, vr_git_commits = commits, vr_resolution = resolution\<rparr>)))"

section \<open>The flows a visit holds\<close>

text \<open>\<open>LandedRepos.of(artifacts).names\<close>.\<close>

definition landed_names :: "stored_artifact list \<Rightarrow> string set" where
  "landed_names artifacts = set (map (\<lambda>a. remove_prefix MARKER_PREFIX (sa_name a))
     (filter (\<lambda>a. starts_with MARKER_PREFIX (sa_name a) \<and> is_landed_revision (sa_data a)) artifacts))"

definition truthy_text :: "string option \<Rightarrow> bool" where
  "truthy_text t \<longleftrightarrow> (case t of None \<Rightarrow> False | Some s \<Rightarrow> s \<noteq> [])"

definition no_code_marker :: "(string \<Rightarrow> string) \<Rightarrow> commit_entry \<Rightarrow> string \<times> string" where
  "no_code_marker digest d =
     (let text = json_object [(''base_branch'', ce_base_branch d), (''branch'', Some (ce_branch d)), (''commit'', Some (ce_commit d)),
            (''record'', ce_record d), (''repo'', Some (ce_repo d))]
      in (''no-code/'' @ digest text, text))"

definition no_code_repos :: "(string \<Rightarrow> string) \<Rightarrow> stored_artifact list \<Rightarrow> commit_entry list \<Rightarrow> string set" where
  "no_code_repos digest artifacts declarations =
     (let markers = set (map (\<lambda>row. (sa_name row, sa_data row)) artifacts)
      in set (map ce_repo (filter (\<lambda>d. truthy_text (ce_record d) \<and> truthy_text (ce_base_branch d)
            \<and> ce_branch d \<noteq> [] \<and> ce_commit d \<noteq> [] \<and> no_code_marker digest d \<in> markers) declarations)))"

definition held_resources :: "repository_resolution \<Rightarrow> string set \<Rightarrow> action_spec \<Rightarrow> flow_resource list" where
  "held_resources resolution landed spec =
     (if \<not> as_lands spec then []
      else dedup (map (\<lambda>(repo, target). \<lparr>res_repository_id = rr_record target, res_branch = rr_base_branch target\<rparr>)
        (filter (\<lambda>(repo, target). repo \<notin> landed) (zip (rn_qualified resolution) (rn_targets resolution)))))"

definition visit_resources ::
  "(string \<Rightarrow> string) \<Rightarrow> stored_artifact list \<Rightarrow> visit_repositories \<Rightarrow> flow_resource list" where
  "visit_resources digest artifacts v =
     held_resources (vr_resolution v)
       (landed_names artifacts \<union> no_code_repos digest artifacts
          (payload (vr_git_commits v) (rn_qualified (vr_resolution v)) (Some (vr_resolution v)))) (vr_spec v)"

text \<open>\<open>LandingTerms.candidate\<close>.\<close>

definition LandingTerms_candidate :: "ident \<Rightarrow> configured_repository option \<Rightarrow> int option \<Rightarrow> landing_terms" where
  "LandingTerms_candidate repository_id record position =
     (case record of
        None \<Rightarrow> \<lparr>lt_repository_id = repository_id, lt_landing_policy = policy_value DEFAULT_LANDING_POLICY,
          lt_park_timeout_hours = None, lt_landing_position = position\<rparr>
      | Some r \<Rightarrow> \<lparr>lt_repository_id = repository_id, lt_landing_policy = policy_value (rpf_landing_policy (cr_fields r)),
          lt_park_timeout_hours = rpf_park_timeout_hours (cr_fields r), lt_landing_position = position\<rparr>)"

end
