(* ===== verification/Json_Values.thy ===== *)
theory Json_Values
  imports Json_Text
begin

text \<open>
  \<open>json.dumps\<close> of a value with \<open>ensure_ascii=False\<close>, and decimal numerals. Text is UTF-8: beyond the quote,
  the backslash and the control characters every byte stands for itself.
\<close>

fun nat_text :: "nat \<Rightarrow> string" where
  "nat_text n = (if n < 10 then [char_of (48 + n)] else nat_text (n div 10) @ [char_of (48 + n mod 10)])"

declare nat_text.simps [simp del]

definition int_text :: "int \<Rightarrow> string" where
  "int_text i = (if i < 0 then CHR ''-'' # nat_text (nat (- i)) else nat_text (nat i))"

definition lower_hex :: "nat \<Rightarrow> char" where
  "lower_hex n = (if n < 10 then char_of (48 + n) else char_of (87 + n))"

definition text_escape :: "char \<Rightarrow> string" where
  "text_escape c =
     (if c = CHR 0x22 then [CHR 0x5C, CHR 0x22]
      else if c = CHR 0x5C then [CHR 0x5C, CHR 0x5C]
      else if c = CHR 0x0A then [CHR 0x5C, CHR ''n'']
      else if c = CHR 0x0D then [CHR 0x5C, CHR ''r'']
      else if c = CHR 0x09 then [CHR 0x5C, CHR ''t'']
      else if c = CHR 0x0C then [CHR 0x5C, CHR ''f'']
      else if c = CHR 0x08 then [CHR 0x5C, CHR ''b'']
      else if (of_char c :: nat) < 32
        then [CHR 0x5C, CHR ''u'', CHR ''0'', CHR ''0'', lower_hex (of_char c div 16), lower_hex (of_char c mod 16)]
      else [c])"

definition text_literal :: "string \<Rightarrow> string" where
  "text_literal s = [CHR 0x22] @ concat (map text_escape s) @ [CHR 0x22]"

datatype json = JNull | JBool bool | JInt int | JText string | JArray "json list" | JObject "(string \<times> json) list"

primrec dumps :: "json \<Rightarrow> string" where
  "dumps JNull = ''null''"
| "dumps (JBool b) = (if b then ''true'' else ''false'')"
| "dumps (JInt i) = int_text i"
| "dumps (JText s) = text_literal s"
| "dumps (JArray xs) = ''['' @ join '', '' (map dumps xs) @ '']''"
| "dumps (JObject ms) = ''{'' @ join '', '' (map (\<lambda>(k, v). text_literal k @ '': '' @ v) (map (map_prod id dumps) ms)) @ ''}''"

definition json_text :: "string option \<Rightarrow> json" where
  "json_text t = (case t of None \<Rightarrow> JNull | Some s \<Rightarrow> JText s)"

end
