(* ===== verification/Delivery_Read.thy ===== *)
theory Delivery_Read
  imports Repositories Json_Values
begin

text \<open>
  Delivery's read projection over the durable markers (\<open>hub/domain/chunk/delivery_read.py\<close>): the pull
  requests still open, the repositories landed and where their commits are shown. A repository has at most
  one open pull request, and none once it landed. A pull request's address is ASCII without brackets and
  control characters, on which \<open>urlsplit\<close> neither rewrites nor raises.
\<close>

section \<open>Sources\<close>

record pr_marker =
  pm_name :: string
  pm_epoch :: int
  pm_repo :: string
  pm_number :: int
  pm_url :: string

record delivery_sources =
  dv_markers :: "stored_artifact list"
  dv_pr_markers :: "pr_marker list"
  dv_legacy_landed :: "(string \<times> string) list"
  dv_commits :: "stored_artifact list"

definition no_sources :: delivery_sources where
  "no_sources = \<lparr>dv_markers = [], dv_pr_markers = [], dv_legacy_landed = [], dv_commits = []\<rparr>"

record delivery_pr =
  dp_repo :: string
  dp_number :: int
  dp_url :: string

record landed_repo =
  la_repo :: string
  la_commit_hash :: string
  la_url :: "string option"

record delivery_read =
  de_open_prs :: "delivery_pr list"
  de_closed_prs :: "delivery_pr list"
  de_awaiting_external_merge :: bool
  de_landed_repos :: "landed_repo list"
  de_landed :: bool

definition board_chunk_url :: "string option \<Rightarrow> ident \<Rightarrow> string option" where
  "board_chunk_url public_url chunk_id =
     (if truthy_text public_url then map_option (\<lambda>u. rstrip_char (CHR ''/'') u @ ''/board/chunk/'' @ chunk_id) public_url
      else None)"

section \<open>A commit's address\<close>

text \<open>\<open>quote(sha, safe="")\<close>.\<close>

definition upper_hex :: "nat \<Rightarrow> char" where
  "upper_hex n = (if n < 10 then char_of (48 + n) else char_of (55 + n))"

definition quote_char :: "char \<Rightarrow> string" where
  "quote_char c =
     (if is_letter c \<or> is_digit c \<or> c \<in> {CHR ''_'', CHR ''.'', CHR ''-'', CHR ''~''} then [c]
      else [CHR ''%'', upper_hex (of_char c div 16), upper_hex (of_char c mod 16)])"

record split_url =
  su_scheme :: string
  su_netloc :: string
  su_path :: string

definition urlsplit :: "string \<Rightarrow> split_url" where
  "urlsplit url =
     (let name = takeWhile (\<lambda>c. c \<noteq> CHR '':'') url; after = drop (length name) url;
          named = after \<noteq> [] \<and> name \<noteq> [] \<and> is_letter (hd name) \<and> list_all scheme_char name;
          rest = (if named then tl after else url);
          netloc = (if starts_with ''//'' rest
                    then takeWhile (\<lambda>c. c \<notin> {CHR ''/'', CHR ''?'', CHR ''#''}) (drop 2 rest) else []);
          tail = (if starts_with ''//'' rest then drop (2 + length netloc) rest else rest)
      in \<lparr>su_scheme = (if named then lower name else []), su_netloc = netloc,
          su_path = takeWhile (\<lambda>c. c \<noteq> CHR ''?'' \<and> c \<noteq> CHR ''#'') tail\<rparr>)"

definition commit_url :: "string \<Rightarrow> string \<Rightarrow> string \<Rightarrow> string option" where
  "commit_url repo sha pr_url =
     (let parsed = urlsplit pr_url;
          parts = split_char (CHR ''/'') (rstrip_char (CHR ''/'') (lstrip_char (CHR ''/'') (su_path parsed)))
      in if su_scheme parsed \<notin> {''http'', ''https''} \<or> su_netloc parsed = [] \<or> CHR ''@'' \<in> set (su_netloc parsed)
            \<or> length parts \<noteq> 4 \<or> parts ! 2 \<notin> {''pull'', ''pulls''}
            \<or> \<not> (parts ! 3 \<noteq> [] \<and> list_all is_digit (parts ! 3))
            \<or> (join ''/'' (take 2 parts) \<noteq> repo \<and> parts ! 1 \<noteq> repo)
         then None
         else Some (su_scheme parsed @ ''://'' @ su_netloc parsed @ ''/'' @ join ''/'' (take 2 parts) @ ''/commit/''
                @ concat (map quote_char sha)))"

section \<open>The read\<close>

text \<open>\<open>LandedRepos.of(artifacts).shas\<close>: the newest-written marker decides a repository's commit.\<close>

definition landed_shas :: "stored_artifact list \<Rightarrow> (string \<times> string) list" where
  "landed_shas artifacts = dict_of (map (\<lambda>a. (remove_prefix MARKER_PREFIX (sa_name a), py_strip (sa_data a)))
     (filter (\<lambda>a. starts_with MARKER_PREFIX (sa_name a) \<and> is_landed_revision (sa_data a)) artifacts))"

definition landed_with :: "chunk_facts \<Rightarrow> string set \<Rightarrow> bool" where
  "landed_with f repo_names \<longleftrightarrow> cf_delivery_landed f \<or> cf_landed_repos f \<noteq> {} \<or> repo_names \<noteq> {}"

definition landed_in :: "delivery_sources \<Rightarrow> (string \<times> string) list" where
  "landed_in sources = dict_of (filter (\<lambda>(repo, sha). is_landed_revision sha) (dv_legacy_landed sources)
     @ landed_shas (dv_markers sources))"

text \<open>The newest epoch a repository was settled without code at, \<open>-1\<close> when it never was.\<close>

definition no_code_epoch :: "(string \<Rightarrow> string) \<Rightarrow> commit_entry list \<Rightarrow> delivery_sources \<Rightarrow> string \<Rightarrow> int" where
  "no_code_epoch digest declarations sources repo =
     max (- 1) (max_or (- 1) (map sa_epoch (filter (\<lambda>row. repo \<in> no_code_repos digest [row] declarations) (dv_markers sources))))"

definition pr_key :: "pr_marker \<Rightarrow> string \<times> int" where
  "pr_key pr = (pm_repo pr, pm_number pr)"

definition pr_named :: "pr_marker \<Rightarrow> bool" where
  "pr_named pr \<longleftrightarrow> pm_name pr = ''delivery-pr/'' @ pm_repo pr
     \<or> pm_name pr = ''delivery-pr/'' @ pm_repo pr @ ''/'' @ int_text (pm_number pr)"

definition prs_in :: "delivery_sources \<Rightarrow> ((string \<times> int) \<times> delivery_pr) list" where
  "prs_in sources = dict_of (map (\<lambda>pr. (pr_key pr, \<lparr>dp_repo = pm_repo pr, dp_number = pm_number pr, dp_url = pm_url pr\<rparr>))
     (filter pr_named (dv_pr_markers sources)))"

definition script_pr :: "delivery_sources \<Rightarrow> string \<Rightarrow> (string \<times> int) option" where
  "script_pr sources = map_of (dict_of (map (\<lambda>pr. (pm_repo pr, pr_key pr)) (filter pr_named (dv_pr_markers sources))))"

definition script_epoch :: "delivery_sources \<Rightarrow> string \<times> int \<Rightarrow> int option" where
  "script_epoch sources = map_of (dict_of (map (\<lambda>pr. (pr_key pr, pm_epoch pr)) (filter pr_named (dv_pr_markers sources))))"

definition pr_open :: "(string \<Rightarrow> string) \<Rightarrow> commit_entry list \<Rightarrow> delivery_sources \<Rightarrow> delivery_pr \<Rightarrow> bool" where
  "pr_open digest declarations sources p \<longleftrightarrow>
     (let key = (dp_repo p, dp_number p); epoch = script_epoch sources key in
      dp_repo p \<notin> fst ` set (landed_in sources)
      \<and> (case epoch of None \<Rightarrow> 0 | Some e \<Rightarrow> e) > no_code_epoch digest declarations sources (dp_repo p)
      \<and> (epoch = None \<or> script_pr sources (dp_repo p) = Some key))"

definition DeliveryRead_of ::
  "(string \<Rightarrow> string) \<Rightarrow> chunk_facts \<Rightarrow> delivery_sources \<Rightarrow> commit_entry list \<Rightarrow> (string \<Rightarrow> string \<Rightarrow> string option)
     \<Rightarrow> delivery_read" where
  "DeliveryRead_of digest f sources declarations commit_link =
     (let prs = map snd (prs_in sources); landed = landed_in sources;
          open_prs = filter (pr_open digest declarations sources) prs;
          external_epochs = sa_epoch ` set (filter (\<lambda>row. sa_name row = ''awaiting-external-merge'') (dv_markers sources));
          external = (\<exists>p\<in>set open_prs. script_epoch sources (dp_repo p, dp_number p) \<in> Some ` external_epochs)
      in \<lparr>de_open_prs = sort_key dp_repo open_prs,
          de_closed_prs = sort_key dp_repo (filter (\<lambda>p. p \<notin> set open_prs) prs),
          de_awaiting_external_merge = (external \<and> open_prs \<noteq> []),
          de_landed_repos = map (\<lambda>(repo, sha).
              \<lparr>la_repo = repo, la_commit_hash = sha,
               la_url = (case (case List.find (\<lambda>p. dp_repo p = repo) (rev prs) of None \<Rightarrow> None
                               | Some p \<Rightarrow> commit_url repo sha (dp_url p)) of
                           None \<Rightarrow> commit_link repo sha | Some u \<Rightarrow> Some u)\<rparr>) (sort_key fst landed),
          de_landed = landed_with f (fst ` set landed)\<rparr>)"

section \<open>What landed a chunk's work\<close>

record trace_landing =
  tl_repo :: string
  tl_pr_url :: "string option"
  tl_commit_hash :: string
  tl_commit_url :: "string option"

record delivery_trace =
  dt_chunk_id :: ident
  dt_board_url :: "string option"
  dt_landings :: "trace_landing list"

definition DeliveryTrace_of ::
  "(string \<Rightarrow> string) \<Rightarrow> ident \<Rightarrow> delivery_sources \<Rightarrow> string option \<Rightarrow> (string \<Rightarrow> string \<Rightarrow> string option) \<Rightarrow> delivery_trace option" where
  "DeliveryTrace_of digest chunk_id sources board_url commit_link =
     (let read = DeliveryRead_of digest (blank_facts True) sources [] commit_link;
          landings = map (\<lambda>l. \<lparr>tl_repo = la_repo l,
              tl_pr_url = map_option dp_url (List.find (\<lambda>p. dp_repo p = la_repo l) (rev (de_closed_prs read))),
              tl_commit_hash = la_commit_hash l, tl_commit_url = la_url l\<rparr>) (de_landed_repos read)
      in if landings = [] then None
         else Some \<lparr>dt_chunk_id = chunk_id, dt_board_url = board_url, dt_landings = landings\<rparr>)"

end
