(* ===== verification/Hub_Node.thy ===== *)
theory Hub_Node
  imports Apply Flow_Store Delivery_Read
begin

text \<open>
  Where a hub step's answer goes (\<open>hub/delivery/hub_node.py\<close>): along an authored edge, onto another
  graph, into a wait, back through a bounce, or to a person. Every write of a routing shares one
  transaction with the end of its turn, so a transaction is a function from the tables of the chunk and
  its tenant's flows to the tables it commits, or the fault that rolls all of it back. What is read before
  the lock is an argument; event rows are kept as their kind, node, message and detail.
\<close>

section \<open>Texts of a refusal\<close>

text \<open>\<open>repr\<close> of a string.\<close>

definition repr_char :: "char \<Rightarrow> char \<Rightarrow> string" where
  "repr_char q c =
     (if c = q \<or> c = CHR 0x5C then [CHR 0x5C, c]
      else if c = CHR 0x0A then [CHR 0x5C, CHR ''n'']
      else if c = CHR 0x0D then [CHR 0x5C, CHR ''r'']
      else if c = CHR 0x09 then [CHR 0x5C, CHR ''t'']
      else if (of_char c :: nat) < 32 \<or> (of_char c :: nat) = 127
        then [CHR 0x5C, CHR ''x'', lower_hex (of_char c div 16), lower_hex (of_char c mod 16)]
      else [c])"

definition py_repr :: "string \<Rightarrow> string" where
  "py_repr s =
     (let q = (if CHR 0x27 \<in> set s \<and> CHR 0x22 \<notin> set s then CHR 0x22 else CHR 0x27)
      in [q] @ concat (map (repr_char q) s) @ [q])"

definition optional_text :: "string option \<Rightarrow> string" where
  "optional_text t = (case t of None \<Rightarrow> ''None'' | Some s \<Rightarrow> s)"

fun resolution_text :: "resolution_detail \<Rightarrow> string" where
  "resolution_text NoDetail = []"
| "resolution_text (AmbiguousBetween label slugs) =
     label @ '' is ambiguous between repository records '' @ join '', '' slugs"
| "resolution_text (NotLinkedBy label slug project) =
     label @ '' resolves to repository record '' @ slug @ '', which project '' @ project @ '' doesn'' @ [CHR 0x27] @ ''t link''"
| "resolution_text (AmbiguousUnlinked label slugs project) =
     label @ '' is ambiguous between repository records '' @ join '', '' slugs @ '', none of which project '' @ project @ '' links''"
| "resolution_text (NoRecordFor label) = ''no repository record stands for '' @ label"

section \<open>What a hub step carries\<close>

record action_escalation =
  ac_cause :: escalation_cause
  ac_detail :: string

record bounced_action =
  ba_name :: string
  ba_choice :: ident
  ba_log_artifact :: "string option"

definition BouncedAction_payload :: "bounced_action \<Rightarrow> json" where
  "BouncedAction_payload a =
     JObject [(''name'', JText (ba_name a)), (''choice'', JText (ba_choice a)), (''log_artifact'', json_text (ba_log_artifact a))]"

record unlanded_commit =
  ul_repo :: string
  ul_branch :: string
  ul_commit :: string
  ul_pr :: "delivery_pr option"

record bounce_envelope =
  be_cause :: string
  be_detail :: string
  be_unlanded :: "unlanded_commit list"
  be_action :: "bounced_action option"

definition unlanded_of :: "delivery_pr list \<Rightarrow> string set \<Rightarrow> commit_entry list \<Rightarrow> unlanded_commit list" where
  "unlanded_of open_prs landed commits =
     map (\<lambda>c. \<lparr>ul_repo = ce_repo c, ul_branch = ce_branch c, ul_commit = ce_commit c,
               ul_pr = List.find (\<lambda>p. dp_repo p = ce_repo c) (rev open_prs)\<rparr>)
       (filter (\<lambda>c. ce_repo c \<notin> landed) commits)"

definition unlanded_name :: "unlanded_commit \<Rightarrow> string" where
  "unlanded_name u =
     (case ul_pr u of Some pr \<Rightarrow> ''PR #'' @ int_text (dp_number pr) @ '' in '' @ ul_repo u | None \<Rightarrow> ul_repo u)"

definition BounceEnvelope_of ::
  "(string \<Rightarrow> string) \<Rightarrow> string \<Rightarrow> string \<Rightarrow> commit_entry list \<Rightarrow> delivery_sources \<Rightarrow> bounced_action option \<Rightarrow> bounce_envelope" where
  "BounceEnvelope_of digest cause summary commits sources action =
     (let landed = landed_names (dv_markers sources) \<union> no_code_repos digest (dv_markers sources) commits;
          read = DeliveryRead_of digest (blank_facts True) sources [] (\<lambda>_ _. None);
          unlanded = unlanded_of (de_open_prs read) landed commits;
          names = join '', '' (map unlanded_name unlanded)
      in \<lparr>be_cause = cause,
          be_detail =
            (case action of
               None \<Rightarrow> if names \<noteq> [] then summary @ '' (not landed: '' @ names @ '')'' else summary
             | Some a \<Rightarrow> (if names \<noteq> [] then names else summary) @ '' did not land: `'' @ ba_name a @ ''` answered '' @ ba_choice a),
          be_unlanded = unlanded, be_action = action\<rparr>)"

definition unlanded_json :: "unlanded_commit \<Rightarrow> json" where
  "unlanded_json u =
     JObject [(''repo'', JText (ul_repo u)), (''branch'', JText (ul_branch u)), (''commit'', JText (ul_commit u)),
       (''pr'', case ul_pr u of None \<Rightarrow> JNull
                | Some pr \<Rightarrow> JObject [(''number'', JInt (dp_number pr)), (''url'', JText (dp_url pr))])]"

definition BounceEnvelope_serialize :: "bounce_envelope \<Rightarrow> string" where
  "BounceEnvelope_serialize e = dumps (JObject
     [(''cause'', JText (be_cause e)), (''detail'', JText (be_detail e)),
      (''unlanded'', JArray (map unlanded_json (be_unlanded e))),
      (''action'', case be_action e of None \<Rightarrow> JNull | Some a \<Rightarrow> BouncedAction_payload a)])"

section \<open>Where a choice routes\<close>

datatype hub_destination = ToMigrate landing | ToEscalate action_escalation | ToUnroutable "ident option"
  | ToNode ident ident

fun turn_outcome :: "ident \<Rightarrow> hub_destination \<Rightarrow> string" where
  "turn_outcome choice (ToMigrate landing) = choice"
| "turn_outcome choice (ToEscalate escalation) = TURN_ESCALATED"
| "turn_outcome choice (ToUnroutable to_node) = TURN_ESCALATED"
| "turn_outcome choice (ToNode to_node_id name) = choice"

definition hub_target :: "graph \<Rightarrow> ident \<Rightarrow> ident option" where
  "hub_target g to_node_name =
     (if to_node_name = RESERVED_TERMINAL then Some RESERVED_TERMINAL
      else map_option node_id (node_by_name g to_node_name))"

definition hub_destination_of :: "(ident \<Rightarrow> graph option) \<Rightarrow> graph \<Rightarrow> node \<Rightarrow> ident \<Rightarrow> hub_destination" where
  "hub_destination_of enabled_by_name g n choice =
     (case edge_for_choice g (node_id n) choice of
        None \<Rightarrow> ToUnroutable None
      | Some e \<Rightarrow>
          (case edge_target_graph e of
             Some name \<Rightarrow>
               (case enabled_by_name name of
                  None \<Rightarrow> let draft = UnresolvableTarget_of e
                          in ToEscalate \<lparr>ac_cause = ed_cause draft, ac_detail = ed_detail draft\<rparr>
                | Some target \<Rightarrow> ToMigrate (authored_landing e target n))
           | None \<Rightarrow>
               (case hub_target g (edge_to_node_name e) of
                  None \<Rightarrow> ToUnroutable (Some (edge_to_node_name e))
                | Some to_node_id \<Rightarrow> ToNode to_node_id (edge_to_node_name e))))"

section \<open>Tables and the end of a turn\<close>

record hub_event =
  he_kind :: string
  he_node_name :: ident
  he_message :: string
  he_detail :: "(string \<times> json) list"
  he_at :: instant

text \<open>The chunk's rows, when the chunk is there, its tenant's flows, and the event rows written about it.\<close>

record hub_tables =
  ht_found :: bool
  ht_rows :: chunk_rows
  ht_flows :: flow_tables
  ht_log :: "hub_event list"

datatype turn_fault = HubRaised service_error | TurnEndRefused ident

text \<open>\<open>TurnEnding turn sub abandoned\<close> is \<open>_TurnEnding\<close> of \<open>flow_turn.py\<close>; \<open>NoTurn\<close> is \<open>NO_TURN\<close>.\<close>

datatype turn_ending = NoTurn | TurnEnding ident submission bool

text \<open>The ids a routing mints, its clock's readings, and what it asks of other components.\<close>

record hub_env =
  hv_executors :: executors
  hv_digest :: "string \<Rightarrow> string"
  hv_closer_available :: "string \<Rightarrow> bool"
  hv_enabled_graph :: "ident \<Rightarrow> graph option"
  hv_transition_id :: ident
  hv_migration_id :: ident
  hv_decision_id :: ident
  hv_artifact_id :: ident
  hv_envelope_id :: ident
  hv_at :: instant
  hv_bounced_at :: instant
  hv_escalated_at :: instant
  hv_gate_at :: instant
  hv_ended_at :: instant

definition HUB_RUNNER_ID :: ident where
  "HUB_RUNNER_ID = ''hub''"

definition UNROUTABLE_ARTIFACT_NAME :: string where
  "UNROUTABLE_ARTIFACT_NAME = ''hub-unroutable-outcome''"

definition HUB_LOG_PREFIX :: string where
  "HUB_LOG_PREFIX = ''hub-log.''"

definition CAPABILITY_MISSING_STEP :: string where
  "CAPABILITY_MISSING_STEP = ''forge-capability-missing''"

fun REFUSAL_EVENT :: "repository_outcome \<Rightarrow> string option" where
  "REFUSAL_EVENT Resolved = None"
| "REFUSAL_EVENT NothingToResolve = None"
| "REFUSAL_EVENT Unresolved = Some ''repository-unresolved''"
| "REFUSAL_EVENT NotLinked = Some ''repository-not-linked''"

definition locked_facts :: "hub_env \<Rightarrow> hub_tables \<Rightarrow> chunk_facts option" where
  "locked_facts env t = (if ht_found t then Some (load_facts (hv_executors env) (ht_rows t)) else None)"

definition withdrawal_now :: "hub_env \<Rightarrow> submission \<Rightarrow> hub_tables \<Rightarrow> string option" where
  "withdrawal_now env sub t = map_option withdrawal_value (withdrawal_for (or_default (locked_facts env t)) sub)"

definition end_with ::
  "hub_env \<Rightarrow> turn_ending \<Rightarrow> string \<Rightarrow> string option \<Rightarrow> turn_event option \<Rightarrow> hub_tables \<Rightarrow> turn_fault + hub_tables" where
  "end_with env ending outcome closure event t =
     (case ending of
        NoTurn \<Rightarrow> Inr t
      | TurnEnding turn_id sub abandoned \<Rightarrow>
          if abandoned then Inl (TurnEndRefused turn_id)
          else (case end_turn_locked turn_id outcome
                   (case closure of None \<Rightarrow> withdrawal_now env sub t | Some verdict \<Rightarrow> Some verdict) event
                   (hv_ended_at env) (ht_flows t) of
              (None, _) \<Rightarrow> Inl (TurnEndRefused turn_id)
            | (Some written, flows) \<Rightarrow> Inr (t\<lparr>ht_flows := flows\<rparr>)))"

definition end_on :: "hub_env \<Rightarrow> turn_ending \<Rightarrow> string \<Rightarrow> string option \<Rightarrow> hub_tables \<Rightarrow> turn_fault + hub_tables" where
  "end_on env ending outcome closure t = end_with env ending outcome closure None t"

definition close_decision_of :: "hub_env \<Rightarrow> chunk \<Rightarrow> close_decision" where
  "close_decision_of env c = decide_close_enqueue (ch_work_refs c) (hv_closer_available env)"

section \<open>Escalating\<close>

definition escalate_on ::
  "hub_env \<Rightarrow> escalation_cause \<Rightarrow> string \<Rightarrow> int \<Rightarrow> hub_tables \<Rightarrow> bounce_escalation_outcome \<times> hub_tables" where
  "escalate_on env cause detail epoch t =
     (let (outcome, rows) = record_bounce_escalation HUB_RUNNER_ID
            \<lparr>ew_epoch = epoch, ew_admission = AdmitAbove, ew_claimant = None, ew_takeover_command = [],
             ew_wrapped_takeover_command = [], ew_at = hv_escalated_at env, ew_decision_id = None,
             ew_cause = Some (cause_value cause), ew_detail = Some detail\<rparr> (ht_rows t)
      in (outcome, t\<lparr>ht_rows := rows\<rparr>))"

definition escalated_on ::
  "hub_env \<Rightarrow> action_escalation \<Rightarrow> int \<Rightarrow> turn_ending \<Rightarrow> hub_tables \<Rightarrow> turn_fault + (bounce_escalation_outcome \<times> hub_tables)" where
  "escalated_on env escalation epoch ending t =
     (let (outcome, t1) = escalate_on env (ac_cause escalation) (ac_detail escalation) (epoch + 1) t
      in map_sum id (Pair outcome) (end_on env ending TURN_ESCALATED None t1))"

section \<open>Moving the chunk\<close>

definition DEFAULT_BOUNCE_CAP :: int where
  "DEFAULT_BOUNCE_CAP = 5"

definition bounce_cap_of :: "node \<Rightarrow> int" where
  "bounce_cap_of n = (case node_bounce_cap n of None \<Rightarrow> DEFAULT_BOUNCE_CAP | Some cap \<Rightarrow> cap)"

definition bounce_on :: "hub_env \<Rightarrow> node \<Rightarrow> int \<Rightarrow> string \<Rightarrow> string \<Rightarrow> hub_tables \<Rightarrow> bool \<times> hub_tables" where
  "bounce_on env n hub_epoch cause envelope t =
     (let t1 = t\<lparr>ht_rows := snd (record_bounce hub_epoch AdmitAbove cause envelope (hv_bounced_at env) (ht_rows t))\<rparr>;
          cap = bounce_cap_of n
      in case locked_facts env t1 of
           None \<Rightarrow> (False, t1)
         | Some f \<Rightarrow>
             if \<not> bounces_over_cap f cap then (False, t1)
             else (True, snd (escalate_on env BounceCap
                     (''bounce cap ('' @ int_text cap @ '') crossed after '' @ int_text (bounce_count f) @ '' bounces'')
                     hub_epoch t1)))"

definition envelope_artifact :: "hub_env \<Rightarrow> node \<Rightarrow> int \<Rightarrow> string \<Rightarrow> stored_artifact" where
  "envelope_artifact env n hub_epoch envelope =
     \<lparr>sa_kind = Asset, sa_name = ''bounce-envelope'', sa_data = envelope, sa_repo = None, sa_forge = None,
      sa_artifact_id = hv_envelope_id env, sa_node_id = node_id n, sa_node_name = node_name n, sa_epoch = hub_epoch\<rparr>"

definition hub_step_of ::
  "hub_env \<Rightarrow> chunk \<Rightarrow> node \<Rightarrow> ident \<Rightarrow> int \<Rightarrow> ident \<Rightarrow> stored_artifact list \<Rightarrow> hub_step_write" where
  "hub_step_of env c n to_node_id hub_epoch choice artifacts =
     \<lparr>hw_from_node_id = node_id n, hw_to_node_id = to_node_id, hw_choice_name = choice, hw_epoch = hub_epoch,
      hw_admission = AdmitAbove, hw_runner_id = HUB_RUNNER_ID, hw_transition_id = hv_transition_id env, hw_at = hv_at env,
      hw_artifacts = artifacts, hw_release_route = (to_node_id = RESERVED_TERMINAL),
      hw_close_decision = close_decision_of env c\<rparr>"

text \<open>The landing's gate, in the landing's transaction.\<close>

definition gate_on :: "hub_env \<Rightarrow> chunk \<Rightarrow> graph \<Rightarrow> ident \<Rightarrow> int \<Rightarrow> bool \<Rightarrow> chunk_rows \<Rightarrow> turn_fault + chunk_rows" where
  "gate_on env c g nid epoch wrote s =
     (if wrote then map_sum HubRaised id
          (open_graph_gate_on_arrival (hv_decision_id env) g nid epoch (hv_gate_at env) None (close_decision_of env c) s)
      else Inr s)"

definition step_on ::
  "hub_env \<Rightarrow> graph \<Rightarrow> chunk \<Rightarrow> node \<Rightarrow> ident \<Rightarrow> int \<Rightarrow> ident \<Rightarrow> stored_artifact list \<Rightarrow> turn_ending \<Rightarrow> hub_tables
     \<Rightarrow> turn_fault + hub_tables" where
  "step_on env g c n to_node_id hub_epoch choice artifacts ending t =
     (case record_hub_step_transition (hub_step_of env c n to_node_id hub_epoch choice artifacts) (ht_rows t) of
        Inl err \<Rightarrow> Inl (HubRaised (StoreRaised err))
      | Inr (wrote, rows) \<Rightarrow>
          (case gate_on env c g to_node_id hub_epoch wrote rows of
             Inl fault \<Rightarrow> Inl fault
           | Inr rows' \<Rightarrow> end_on env ending choice (if wrote then Some choice else None) (t\<lparr>ht_rows := rows'\<rparr>)))"

text \<open>\<open>_commit_on\<close>: \<open>bounce\<close> is the cause of a bounce and its envelope, when there is one.\<close>

definition commit_on ::
  "hub_env \<Rightarrow> graph \<Rightarrow> chunk \<Rightarrow> node \<Rightarrow> ident \<Rightarrow> int \<Rightarrow> ident \<Rightarrow> string \<times> string option \<Rightarrow> turn_ending \<Rightarrow> hub_tables
     \<Rightarrow> turn_fault + hub_tables" where
  "commit_on env g c n to_node_id epoch choice bounce ending t =
     (let hub_epoch = epoch + 1 in
      case bounce of
        (cause, None) \<Rightarrow> step_on env g c n to_node_id hub_epoch choice [] ending t
      | (cause, Some envelope) \<Rightarrow>
          (case bounce_on env n hub_epoch cause envelope t of
             (True, t1) \<Rightarrow> end_on env ending TURN_ESCALATED None t1
           | (False, t1) \<Rightarrow>
               step_on env g c n to_node_id hub_epoch choice [envelope_artifact env n hub_epoch envelope] ending t1))"

definition hub_migration_of :: "hub_env \<Rightarrow> chunk \<Rightarrow> node \<Rightarrow> landing \<Rightarrow> int \<Rightarrow> ident \<Rightarrow> migration_write" where
  "hub_migration_of env c n l epoch choice =
     \<lparr>mw_migration_id = hv_migration_id env, mw_from_node_id = Some (node_id n), mw_from_graph_id = node_graph_id n,
      mw_to_graph_id = graph_id (ld_graph l), mw_landed_node_id = Some (ld_node_id l), mw_choice_name = Some choice,
      mw_decision_id = None, mw_model = ld_model l, mw_epoch = epoch, mw_admission = AdmitCurrent, mw_claimant = None,
      mw_at = hv_at env, mw_artifacts = [], mw_close_decision = close_decision_of env c, mw_source = ld_source l,
      mw_release_route = releases_route l, mw_clear_intent = ld_clear_intent l\<rparr>"

definition migrate_on ::
  "hub_env \<Rightarrow> chunk \<Rightarrow> node \<Rightarrow> landing \<Rightarrow> int \<Rightarrow> ident \<Rightarrow> turn_ending \<Rightarrow> hub_tables \<Rightarrow> turn_fault + hub_tables" where
  "migrate_on env c n l epoch choice ending t =
     (case record_migration (hub_migration_of env c n l epoch choice) (ht_rows t) of
        Inl err \<Rightarrow> Inl (HubRaised (StoreRaised err))
      | Inr (outcome, rows) \<Rightarrow>
          let wrote = (case outcome of Migrated i \<Rightarrow> True | _ \<Rightarrow> False) in
          (case gate_on env c (ld_graph l) (ld_node_id l) epoch wrote rows of
             Inl fault \<Rightarrow> Inl fault
           | Inr rows' \<Rightarrow> end_on env ending choice (if wrote then Some choice else None) (t\<lparr>ht_rows := rows'\<rparr>)))"

section \<open>A visit that still stands\<close>

text \<open>\<open>_standing_visit\<close>: the chunk's artifacts under the lock, when the chunk is still delivering at the visit.\<close>

definition standing_visit :: "hub_env \<Rightarrow> node \<Rightarrow> int \<Rightarrow> hub_tables \<Rightarrow> stored_artifact list option" where
  "standing_visit env n epoch t =
     (case locked_facts env t of
        None \<Rightarrow> None
      | Some f \<Rightarrow> if delivering_at f (node_id n) epoch then Some (load_artifacts (ht_rows t)) else None)"

definition first_of_visit :: "node \<Rightarrow> int \<Rightarrow> string \<Rightarrow> stored_artifact list \<Rightarrow> bool" where
  "first_of_visit n epoch name artifacts \<longleftrightarrow>
     \<not> (\<exists>a\<in>set artifacts. sa_node_id a = node_id n \<and> sa_epoch a = epoch \<and> sa_name a = name)"

definition hub_artifact_on ::
  "hub_env \<Rightarrow> chunk \<Rightarrow> node \<Rightarrow> int \<Rightarrow> string \<Rightarrow> string \<Rightarrow> hub_tables \<Rightarrow> turn_fault + hub_tables" where
  "hub_artifact_on env c n epoch name content t =
     (case record_hub_artifact
          \<lparr>ha_node_id = node_id n, ha_node_name = node_name n, ha_epoch = epoch, ha_admission = AdmitAtOrAbove,
           ha_name = name, ha_content = content, ha_artifact_id = hv_artifact_id env, ha_at = hv_at env,
           ha_close_decision = close_decision_of env c\<rparr> (ht_rows t) of
        Inl err \<Rightarrow> Inl (HubRaised (StoreRaised err))
      | Inr (wrote, rows) \<Rightarrow> Inr (t\<lparr>ht_rows := rows\<rparr>))"

definition log_event :: "hub_event \<Rightarrow> hub_tables \<Rightarrow> hub_tables" where
  "log_event e t = t\<lparr>ht_log := ht_log t @ [e]\<rparr>"

definition newline :: string where
  "newline = [CHR 0x0A]"

definition unroutable_detail :: "node \<Rightarrow> ident \<Rightarrow> ident option \<Rightarrow> string" where
  "unroutable_detail n choice to_node =
     (case to_node of
        None \<Rightarrow> ''no authored edge for choice `'' @ choice @ ''` on hub node `'' @ node_name n @ ''`''
      | Some name \<Rightarrow> ''choice `'' @ choice @ ''` on hub node `'' @ node_name n @ ''` routes to unknown node `'' @ name @ ''`'')"

definition unroutable_escalation :: "node \<Rightarrow> ident \<Rightarrow> ident option \<Rightarrow> action_escalation" where
  "unroutable_escalation n choice to_node =
     \<lparr>ac_cause = UnroutableOutcome,
      ac_detail = ''hub node `'' @ node_name n @ ''` answered '' @
        (case to_node of None \<Rightarrow> ''`'' @ choice @ ''`, which no edge routes''
         | Some name \<Rightarrow> ''`'' @ choice @ ''`, routed to unknown `'' @ name @ ''`'')\<rparr>"

definition authored_choices :: "node \<Rightarrow> ident list" where
  "authored_choices n = sort (map choice_name (node_choices n))"

definition unroutable_content :: "node \<Rightarrow> string \<Rightarrow> string" where
  "unroutable_content n detail =
     (let shown = join '', '' (authored_choices n) in
      detail @ newline @ newline @ ''authored choices: '' @ (if shown \<noteq> [] then shown else ''<none>'') @ newline
        @ ''The chunk is escalated to a person; nothing routes it on.'' @ newline)"

definition unroutable_event :: "hub_env \<Rightarrow> node \<Rightarrow> int \<Rightarrow> ident \<Rightarrow> string \<Rightarrow> hub_event" where
  "unroutable_event env n epoch choice detail =
     \<lparr>he_kind = ''hub-node-unroutable-outcome'', he_node_name = node_name n, he_message = detail,
      he_detail = [(''choice'', JText choice), (''epoch'', JInt epoch),
        (''authored_choices'', JArray (map JText (authored_choices n)))], he_at = hv_at env\<rparr>"

definition unroutable_on ::
  "hub_env \<Rightarrow> stored_artifact list \<Rightarrow> chunk \<Rightarrow> node \<Rightarrow> int \<Rightarrow> ident \<Rightarrow> ident option \<Rightarrow> turn_ending \<Rightarrow> hub_tables
     \<Rightarrow> turn_fault + hub_tables" where
  "unroutable_on env artifacts c n epoch choice to_node ending t =
     (let detail = unroutable_detail n choice to_node in
      case hub_artifact_on env c n epoch UNROUTABLE_ARTIFACT_NAME (unroutable_content n detail) t of
        Inl fault \<Rightarrow> Inl fault
      | Inr t1 \<Rightarrow>
          let t2 = (if first_of_visit n epoch UNROUTABLE_ARTIFACT_NAME artifacts
                    then log_event (unroutable_event env n epoch choice detail) t1 else t1)
          in map_sum id snd (escalated_on env (unroutable_escalation n choice to_node) epoch ending t2))"

text \<open>\<open>_route_on\<close>: a choice routed on a held lock, with no delivery to bounce.\<close>

fun route_on ::
  "hub_env \<Rightarrow> stored_artifact list \<Rightarrow> graph \<Rightarrow> chunk \<Rightarrow> node \<Rightarrow> hub_destination \<Rightarrow> int \<Rightarrow> ident \<Rightarrow> turn_ending \<Rightarrow> hub_tables
     \<Rightarrow> turn_fault + hub_tables" where
  "route_on env artifacts g c n (ToMigrate l) epoch choice ending t = migrate_on env c n l epoch choice ending t"
| "route_on env artifacts g c n (ToEscalate escalation) epoch choice ending t =
     map_sum id snd (escalated_on env escalation epoch ending t)"
| "route_on env artifacts g c n (ToUnroutable to_node) epoch choice ending t =
     unroutable_on env artifacts c n epoch choice to_node ending t"
| "route_on env artifacts g c n (ToNode to_node_id name) epoch choice ending t =
     commit_on env g c n to_node_id epoch choice (choice, None) ending t"

text \<open>\<open>str.replace\<close> of a dash by a space.\<close>

definition undashed :: "string \<Rightarrow> string" where
  "undashed s = map (\<lambda>ch. if ch = CHR ''-'' then CHR '' '' else ch) s"

definition refusal_log :: "string \<Rightarrow> string \<Rightarrow> string" where
  "refusal_log step detail = ''['' @ undashed step @ '']'' @ newline @ detail @ newline"

definition refuse ::
  "hub_env \<Rightarrow> chunk \<Rightarrow> graph \<Rightarrow> node \<Rightarrow> int \<Rightarrow> string \<Rightarrow> string \<Rightarrow> repository_resolution option \<Rightarrow> turn_ending \<Rightarrow> hub_tables
     \<Rightarrow> turn_fault + hub_tables" where
  "refuse env c g n epoch step detail resolution ending t =
     (let choice = HUB_DEFAULT_FAILURE_CHOICE; destination = hub_destination_of (hv_enabled_graph env) g n choice;
          name = HUB_LOG_PREFIX @ step
      in case standing_visit env n epoch t of
           None \<Rightarrow> end_on env ending (turn_outcome choice destination) None t
         | Some artifacts \<Rightarrow>
             (case hub_artifact_on env c n epoch name (refusal_log step detail) t of
                Inl fault \<Rightarrow> Inl fault
              | Inr t1 \<Rightarrow>
                  let t2 = (case resolution of None \<Rightarrow> t1
                     | Some res \<Rightarrow> (case REFUSAL_EVENT (rn_outcome res) of None \<Rightarrow> t1
                         | Some kind \<Rightarrow> if first_of_visit n epoch name artifacts
                             then log_event \<lparr>he_kind = kind, he_node_name = node_name n, he_message = resolution_text (rn_detail res),
                                    he_detail = [(''epoch'', JInt epoch)], he_at = hv_at env\<rparr> t1
                             else t1))
                  in route_on env artifacts g c n destination epoch choice ending t2))"

section \<open>Routing a choice\<close>

definition route_unroutable ::
  "hub_env \<Rightarrow> chunk \<Rightarrow> node \<Rightarrow> int \<Rightarrow> ident \<Rightarrow> ident option \<Rightarrow> turn_ending \<Rightarrow> hub_tables \<Rightarrow> turn_fault + hub_tables" where
  "route_unroutable env c n epoch choice to_node ending t =
     (case standing_visit env n epoch t of
        None \<Rightarrow> end_on env ending TURN_ESCALATED None t
      | Some artifacts \<Rightarrow> unroutable_on env artifacts c n epoch choice to_node ending t)"

fun route_away ::
  "hub_env \<Rightarrow> chunk \<Rightarrow> node \<Rightarrow> hub_destination \<Rightarrow> int \<Rightarrow> ident \<Rightarrow> turn_ending \<Rightarrow> hub_tables \<Rightarrow> turn_fault + hub_tables" where
  "route_away env c n (ToEscalate escalation) epoch choice ending t = map_sum id snd (escalated_on env escalation epoch ending t)"
| "route_away env c n (ToUnroutable to_node) epoch choice ending t = route_unroutable env c n epoch choice to_node ending t"
| "route_away env c n (ToMigrate l) epoch choice ending t = migrate_on env c n l epoch choice ending t"
| "route_away env c n (ToNode to_node_id name) epoch choice ending t = Inr t"

text \<open>The bounce a transition carries: decided from the artifacts and markers read before the lock.\<close>

record hub_seen =
  hs_artifacts :: "stored_artifact list"
  hs_sources :: delivery_sources

definition delivery_incomplete :: "hub_env \<Rightarrow> hub_seen \<Rightarrow> commit_entry list \<Rightarrow> ident \<Rightarrow> bool" where
  "delivery_incomplete env reads commits to_node_id \<longleftrightarrow>
     commits \<noteq> [] \<and> to_node_id \<noteq> RESERVED_TERMINAL
     \<and> \<not> ce_repo ` set commits \<subseteq> landed_names (hs_artifacts reads) \<union> no_code_repos (hv_digest env) (hs_artifacts reads) commits"

definition marker_sources :: "delivery_sources \<Rightarrow> delivery_sources" where
  "marker_sources read = no_sources\<lparr>dv_markers := dv_markers read, dv_pr_markers := dv_pr_markers read\<rparr>"

definition kick_back ::
  "hub_env \<Rightarrow> hub_seen \<Rightarrow> node \<Rightarrow> ident \<Rightarrow> string \<Rightarrow> commit_entry list \<Rightarrow> bounced_action option \<Rightarrow> string" where
  "kick_back env reads n choice to_node_name commits action =
     BounceEnvelope_serialize (BounceEnvelope_of (hv_digest env) choice
       (''hub node `'' @ node_name n @ ''` routed `'' @ choice @ ''` to `'' @ to_node_name @ ''`'' @ dash @ ''delivery incomplete'')
       commits (marker_sources (hs_sources reads)) action)"

definition route_answer ::
  "hub_env \<Rightarrow> hub_seen \<Rightarrow> chunk \<Rightarrow> graph \<Rightarrow> node \<Rightarrow> int \<Rightarrow> ident \<Rightarrow> turn_ending \<Rightarrow> commit_entry list \<Rightarrow> bounced_action option
     \<Rightarrow> hub_tables \<Rightarrow> turn_fault + hub_tables" where
  "route_answer env reads c g n epoch choice ending commits action t =
     (case hub_destination_of (hv_enabled_graph env) g n choice of
        ToNode to_node_id name \<Rightarrow>
          commit_on env g c n to_node_id epoch choice
            (choice, if delivery_incomplete env reads commits to_node_id
                     then Some (kick_back env reads n choice name commits action) else None) ending t
      | destination \<Rightarrow> route_away env c n destination epoch choice ending t)"

definition record_wait ::
  "hub_env \<Rightarrow> node \<Rightarrow> int \<Rightarrow> string \<Rightarrow> instant option \<Rightarrow> turn_ending \<Rightarrow> hub_tables \<Rightarrow> turn_fault + hub_tables" where
  "record_wait env n epoch kind next_poll_at ending t =
     end_on env ending kind None
       (t\<lparr>ht_rows := record_hub_node_poll (node_id n) epoch kind (hv_at env) next_poll_at (ht_rows t)\<rparr>)"

text \<open>\<open>{k: v or "" for k, v in c.items()}\<close>.\<close>

definition filled :: "commit_entry \<Rightarrow> commit_entry" where
  "filled e = e\<lparr>ce_forge_url := Some (or_empty (ce_forge_url e)), ce_owner := Some (or_empty (ce_owner e)),
     ce_base_branch := Some (or_empty (ce_base_branch e)), ce_record := Some (or_empty (ce_record e))\<rparr>"

text \<open>The commits of a pending visit and their resolution, read before the lock; \<open>Inl\<close> is an exception.\<close>

definition route_pending_timeout ::
  "hub_env \<Rightarrow> hub_seen \<Rightarrow> commit_entry list \<Rightarrow> chunk \<Rightarrow> graph \<Rightarrow> node \<Rightarrow> int \<Rightarrow> turn_ending \<Rightarrow> hub_tables
     \<Rightarrow> turn_fault + hub_tables" where
  "route_pending_timeout env reads commits c g n epoch ending t =
     (let choice = HUB_DEFAULT_FAILURE_CHOICE in
      case hub_destination_of (hv_enabled_graph env) g n choice of
        ToNode to_node_id name \<Rightarrow>
          commit_on env g c n to_node_id epoch choice
            (''poll-timeout'', Some (BounceEnvelope_serialize (BounceEnvelope_of (hv_digest env) ''poll-timeout''
               (''hub node `'' @ node_name n @ ''` exceeded its poll_timeout awaiting `pending`'')
               commits (marker_sources (hs_sources reads)) None))) ending t
      | destination \<Rightarrow> route_away env c n destination epoch choice ending t)"

section \<open>Escalations the hub authors\<close>

definition escalate ::
  "hub_env \<Rightarrow> action_escalation \<Rightarrow> int \<Rightarrow> turn_ending \<Rightarrow> hub_tables \<Rightarrow> turn_fault + hub_tables" where
  "escalate env escalation epoch ending t = map_sum id snd (escalated_on env escalation epoch ending t)"

text \<open>The event is a transaction of its own, after the escalation took.\<close>

definition action_missing_detail :: "node \<Rightarrow> string" where
  "action_missing_detail n = ''hub node `'' @ node_name n @ ''` names no action ('' @
     (if truthy_text (node_legacy_run n) then ''its stored run: '' @ optional_text (node_legacy_run n) else ''no `run:`'') @ '')''"

definition escalate_action_missing :: "hub_env \<Rightarrow> node \<Rightarrow> int \<Rightarrow> hub_tables \<Rightarrow> turn_fault + (bool \<times> hub_tables)" where
  "escalate_action_missing env n epoch t =
     (let detail = action_missing_detail n in
      case escalated_on env \<lparr>ac_cause = HubActionMissing, ac_detail = detail\<rparr> epoch NoTurn t of
        Inl fault \<Rightarrow> Inl fault
      | Inr (outcome, t1) \<Rightarrow>
          if outcome \<noteq> BounceRecorded then Inr (False, t1)
          else Inr (True, log_event \<lparr>he_kind = ''hub-action-missing'', he_node_name = node_name n, he_message = detail,
                 he_detail = [(''epoch'', JInt epoch), (''legacy_run'', json_text (node_legacy_run n))],
                 he_at = hv_at env\<rparr> t1))"

text \<open>Three transactions: the log artifact, the escalation with the turn's end, and the event. A turn's
  end that is refused leaves the artifact written.\<close>

definition capability_detail :: "string \<Rightarrow> resolved_repository \<Rightarrow> string \<Rightarrow> string \<Rightarrow> string" where
  "capability_detail action_name target forge_label capability =
     ''repository '' @ (if rr_slug target \<noteq> [] then rr_slug target else rr_record target) @ '' on forge '' @ forge_label
       @ '' does not offer `'' @ capability @ ''`, which `'' @ action_name @ ''` requires''"

definition escalate_capability_missing ::
  "hub_env \<Rightarrow> chunk \<Rightarrow> node \<Rightarrow> string \<Rightarrow> resolved_repository \<Rightarrow> string \<Rightarrow> string \<Rightarrow> string \<Rightarrow> int \<Rightarrow> turn_ending \<Rightarrow> hub_tables
     \<Rightarrow> turn_fault option \<times> hub_tables" where
  "escalate_capability_missing env c n action_name target capability forge_label api_base epoch ending t =
     (let detail = capability_detail action_name target forge_label capability in
      case hub_artifact_on env c n epoch (HUB_LOG_PREFIX @ CAPABILITY_MISSING_STEP)
             (refusal_log CAPABILITY_MISSING_STEP detail) t of
        Inl fault \<Rightarrow> (Some fault, t)
      | Inr t1 \<Rightarrow>
          (case escalated_on env \<lparr>ac_cause = ForgeCapabilityMissing, ac_detail = detail\<rparr> epoch ending t1 of
             Inl fault \<Rightarrow> (Some fault, t1)
           | Inr (outcome, t2) \<Rightarrow>
               (None,
                if outcome = BounceRecorded
                then log_event \<lparr>he_kind = CAPABILITY_MISSING_STEP, he_node_name = node_name n, he_message = detail,
                       he_detail = [(''epoch'', JInt epoch), (''capability'', JText capability),
                         (''repository'', JText (rr_record target)), (''forge'', JText api_base)], he_at = hv_at env\<rparr> t2
                else t2)))"

end
