(* ===== verification/Flow_Steps.thy ===== *)
theory Flow_Steps
  imports Flow_Store Store_Steps
begin

text \<open>
  The flow tables as a state machine: one step is one committed transaction of the flow store, of a
  lever or of a turn's end. A state reached from empty tables satisfies \<open>flow_inv\<close>: arrivals are
  distinct, a closed submission has no open turn, and no two open turns share a flow.
\<close>

section \<open>The frame of each write\<close>

definition fact_keys :: "flow_tables \<Rightarrow> (ident \<times> flow_change_kind \<times> ident) list" where
  "fact_keys s = map (\<lambda>x. (ff_flow_id x, ff_kind x, ff_submission_id x)) (ft_facts s)"

definition facts_part :: "flow_tables \<Rightarrow> flow_fact list \<times> (turn_event \<times> instant) list" where
  "facts_part s = (ft_facts s, ft_events s)"

named_theorems flow_simps \<open>the tables a write leaves alone, and what it appends to the others\<close>

lemma insert_fact_frame [flow_simps]:
  "ft_flows (insert_fact i c k out rv t f s) = ft_flows s"
  "ft_submissions (insert_fact i c k out rv t f s) = ft_submissions s"
  "ft_held (insert_fact i c k out rv t f s) = ft_held s"
  "ft_closures (insert_fact i c k out rv t f s) = ft_closures s"
  "ft_terms (insert_fact i c k out rv t f s) = ft_terms s"
  "ft_turns (insert_fact i c k out rv t f s) = ft_turns s"
  "ft_events (insert_fact i c k out rv t f s) = ft_events s"
  "fact_keys (insert_fact i c k out rv t f s) = fact_keys s @ [(f, k, i)]"
  by (simp_all add: insert_fact_def fact_keys_def)

lemma fold_insert_fact_frame [flow_simps]:
  "ft_flows (fold (insert_fact i c k out rv t) fs s) = ft_flows s"
  "ft_submissions (fold (insert_fact i c k out rv t) fs s) = ft_submissions s"
  "ft_held (fold (insert_fact i c k out rv t) fs s) = ft_held s"
  "ft_closures (fold (insert_fact i c k out rv t) fs s) = ft_closures s"
  "ft_terms (fold (insert_fact i c k out rv t) fs s) = ft_terms s"
  "ft_turns (fold (insert_fact i c k out rv t) fs s) = ft_turns s"
  "ft_events (fold (insert_fact i c k out rv t) fs s) = ft_events s"
  "fact_keys (fold (insert_fact i c k out rv t) fs s) = fact_keys s @ map (\<lambda>f. (f, k, i)) fs"
  by (induction fs arbitrary: s) (simp_all add: flow_simps)

lemma fact_keys_update [flow_simps]:
  "fact_keys (s\<lparr>ft_flows := a\<rparr>) = fact_keys s" "fact_keys (s\<lparr>ft_submissions := b\<rparr>) = fact_keys s"
  "fact_keys (s\<lparr>ft_held := c\<rparr>) = fact_keys s" "fact_keys (s\<lparr>ft_closures := d\<rparr>) = fact_keys s"
  "fact_keys (s\<lparr>ft_terms := e\<rparr>) = fact_keys s" "fact_keys (s\<lparr>ft_turns := f\<rparr>) = fact_keys s"
  "fact_keys (s\<lparr>ft_events := g\<rparr>) = fact_keys s"
  by (simp_all add: fact_keys_def)

lemma take_terms_for_frame [flow_simps]:
  "ft_flows (take_terms_for row fr i s) = ft_flows s"
  "ft_submissions (take_terms_for row fr i s) = ft_submissions s"
  "ft_held (take_terms_for row fr i s) = ft_held s"
  "ft_closures (take_terms_for row fr i s) = ft_closures s"
  "ft_turns (take_terms_for row fr i s) = ft_turns s"
  "ft_facts (take_terms_for row fr i s) = ft_facts s"
  "ft_events (take_terms_for row fr i s) = ft_events s"
  "fact_keys (take_terms_for row fr i s) = fact_keys s"
  by (simp_all add: take_terms_for_def flow_simps split: option.split)

lemma take_terms_frame [flow_simps]:
  "ft_flows (take_terms row fs fr s) = ft_flows s"
  "ft_submissions (take_terms row fs fr s) = ft_submissions s"
  "ft_held (take_terms row fs fr s) = ft_held s"
  "ft_closures (take_terms row fs fr s) = ft_closures s"
  "ft_turns (take_terms row fs fr s) = ft_turns s"
  "ft_facts (take_terms row fs fr s) = ft_facts s"
  "ft_events (take_terms row fs fr s) = ft_events s"
  "fact_keys (take_terms row fs fr s) = fact_keys s"
proof -
  have "ft_flows (fold (take_terms_for row fr) is s) = ft_flows s
      \<and> ft_submissions (fold (take_terms_for row fr) is s) = ft_submissions s
      \<and> ft_held (fold (take_terms_for row fr) is s) = ft_held s
      \<and> ft_closures (fold (take_terms_for row fr) is s) = ft_closures s
      \<and> ft_turns (fold (take_terms_for row fr) is s) = ft_turns s
      \<and> ft_facts (fold (take_terms_for row fr) is s) = ft_facts s
      \<and> ft_events (fold (take_terms_for row fr) is s) = ft_events s
      \<and> fact_keys (fold (take_terms_for row fr) is s) = fact_keys s" for "is" s
    by (induction "is" arbitrary: s) (simp_all add: flow_simps)
  then show
    "ft_flows (take_terms row fs fr s) = ft_flows s"
    "ft_submissions (take_terms row fs fr s) = ft_submissions s"
    "ft_held (take_terms row fs fr s) = ft_held s"
    "ft_closures (take_terms row fs fr s) = ft_closures s"
    "ft_turns (take_terms row fs fr s) = ft_turns s"
    "ft_facts (take_terms row fs fr s) = ft_facts s"
    "ft_events (take_terms row fs fr s) = ft_events s"
    "fact_keys (take_terms row fs fr s) = fact_keys s"
    by (simp_all add: take_terms_def)
qed

section \<open>The effect of each write\<close>

text \<open>The tables a write keeps, and the two it may change, as \<open>same_places\<close>: submissions, flows and what
  is held stay as they are.\<close>

definition same_places :: "flow_tables \<Rightarrow> flow_tables \<Rightarrow> bool" where
  "same_places s s' \<longleftrightarrow> ft_flows s' = ft_flows s \<and> ft_submissions s' = ft_submissions s \<and> ft_held s' = ft_held s"

lemma same_places_refl [simp]: "same_places s s"
  by (simp add: same_places_def)

lemma same_places_trans: "same_places s t \<Longrightarrow> same_places t u \<Longrightarrow> same_places s u"
  by (simp add: same_places_def)

lemma same_places_held: "same_places s s' \<Longrightarrow> flows_held s' i = flows_held s i"
  by (simp add: same_places_def flows_held_def)

lemma close_effect:
  "snd (close_submission i out t s) = s \<and> \<not> is_open s i
   \<or> is_open s i \<and> same_places s (snd (close_submission i out t s))
     \<and> ft_closures (snd (close_submission i out t s)) = ft_closures s @ [(i, \<lparr>cl_outcome = out, cl_closed_at = t\<rparr>)]
     \<and> ft_turns (snd (close_submission i out t s)) = ft_turns s
     \<and> ft_terms (snd (close_submission i out t s)) = ft_terms s
     \<and> ft_events (snd (close_submission i out t s)) = ft_events s
     \<and> fact_keys (snd (close_submission i out t s)) = fact_keys s @ map (\<lambda>f. (fl_flow_id f, FlowWithdrawn, i)) (flows_held s i)"
proof (cases "is_open s i")
  case True
  have h: "flows_held (s\<lparr>ft_closures := x\<rparr>) i = flows_held s i" for x by (simp add: flows_held_def)
  show ?thesis
    by (simp add: close_submission_def True Let_def held_by_def write_facts_def h same_places_def flow_simps)
qed (simp add: close_submission_def)

lemma end_turn_effect:
  assumes "end_turn i out t s = (Some (j, w), s')"
  obtains row where "row \<in> set (ft_turns s)" "tn_turn_id row = i" "turn_open row" "tn_submission_id row = j"
    "same_places s s'" "ft_turns s' = map (end_row i out t) (ft_turns s)" "ft_closures s' = ft_closures s"
    "ft_terms s' = ft_terms s" "ft_events s' = ft_events s"
    "fact_keys s' = fact_keys s @ map (\<lambda>f. (fl_flow_id f, FlowTurnEnded, j)) (flows_held s j)"
proof -
  obtain row where f: "List.find (\<lambda>t. tn_turn_id t = i \<and> turn_open t) (ft_turns s) = Some row"
    using assms by (auto simp: end_turn_def split: option.splits)
  have h: "flows_held (s\<lparr>ft_turns := x\<rparr>) k = flows_held s k" for x k by (simp add: flows_held_def)
  from assms f have "j = tn_submission_id row"
      "s' = snd (write_facts (map fl_flow_id (flows_held s j)) j (fst (held_by (s\<lparr>ft_turns := map (end_row i out t) (ft_turns s)\<rparr>) j))
           FlowTurnEnded (Some out) None t (s\<lparr>ft_turns := map (end_row i out t) (ft_turns s)\<rparr>))"
    by (auto simp: end_turn_def Let_def held_by_def write_facts_def h)
  with find_SomeD [OF f] that [of row] show thesis
    by (simp add: write_facts_def same_places_def flow_simps comp_def)
qed

lemma end_turn_None: "end_turn i out t s = (None, s') \<Longrightarrow> s' = s"
  by (auto simp: end_turn_def Let_def split: option.splits prod.splits)

lemma take_turn_effect:
  assumes "take_turn i po terms t turn_id s = (Some turn, s')"
  obtains row where "find_submission s i = Some row"
    "turn = \<lparr>tn_turn_id = turn_id, tn_submission_id = i, tn_started_at = t, tn_ended_at = None, tn_outcome = None\<rparr>"
    "is_open s i" "\<not> has_open_turn s i"
    "\<not> flow_busy s (fl_flow_id ` set (flows_held s i))"
    "ahead_on s (fl_flow_id ` set (flows_held s i)) (fs_arrival row) \<subseteq> po"
    "same_places s s'" "ft_turns s' = ft_turns s @ [turn]" "ft_closures s' = ft_closures s"
    "ft_events s' = ft_events s"
    "fact_keys s' = fact_keys s @ map (\<lambda>f. (fl_flow_id f, FlowTurnStarted, i)) (flows_held s i)"
proof -
  let ?ids = "fl_flow_id ` set (flows_held s i)"
  obtain row where row: "find_submission s i = Some row"
    using assms by (auto simp: take_turn_def split: option.splits)
  have "flows_held s i = [] \<Longrightarrow> \<not> flow_busy s ?ids \<and> ahead_on s ?ids a \<subseteq> po" for a
    by (simp add: flow_busy_def ahead_on_def)
  with assms row that [of row] show thesis
    by (auto simp: take_turn_def Let_def write_facts_def same_places_def flow_simps comp_def split: if_splits)
qed

lemma take_turn_None: "take_turn i po terms t turn_id s = (None, s') \<Longrightarrow> s' = s"
  by (auto simp: take_turn_def Let_def split: option.splits if_splits)

section \<open>Steps\<close>

text \<open>What the primary keys accept: a fresh submission id, one fresh flow id for each resource, and no
  two resources that read the same; a closure's foreign key accepts a submission on record.\<close>

definition mintable :: "visit_submission \<Rightarrow> flow_tables \<Rightarrow> bool" where
  "mintable v s \<longleftrightarrow>
     vs_submission_id v \<notin> fs_submission_id ` set (ft_submissions s)
     \<and> vs_flow_id v ` set (vs_resources v) \<inter> fl_flow_id ` set (ft_flows s) = {}
     \<and> inj_on (vs_flow_id v) (set (vs_resources v)) \<and> inj_on resource (set (vs_resources v))"

inductive flow_step :: "flow_tables \<Rightarrow> flow_tables \<Rightarrow> bool" where
  step_submit: "mintable v s \<Longrightarrow> flow_step s (snd (submit v s))"
| step_take_turn: "turn_id \<notin> tn_turn_id ` set (ft_turns s) \<Longrightarrow> flow_step s (snd (take_turn i po terms t turn_id s))"
| step_end_turn: "flow_step s (snd (end_turn_locked turn_id out closure event t s))"
| step_close: "i \<in> fs_submission_id ` set (ft_submissions s) \<Longrightarrow> flow_step s (snd (close_waiting i w t s))"
| step_withdraw: "flow_step s (snd (withdraw_waiting chunk_id w t s))"
| step_land: "flow_step s (snd (write_landing landing revision t s))"

inductive_cases flow_stepE: "flow_step s s'"

text \<open>Steps other than a submission: what may run between two transactions of a reconcile.\<close>

inductive other_step :: "flow_tables \<Rightarrow> flow_tables \<Rightarrow> bool" where
  other_take_turn: "turn_id \<notin> tn_turn_id ` set (ft_turns s) \<Longrightarrow> other_step s (snd (take_turn i po terms t turn_id s))"
| other_end_turn: "other_step s (snd (end_turn_locked turn_id out closure event t s))"
| other_close: "i \<in> fs_submission_id ` set (ft_submissions s) \<Longrightarrow> other_step s (snd (close_waiting i w t s))"
| other_withdraw: "other_step s (snd (withdraw_waiting chunk_id w t s))"
| other_land: "other_step s (snd (write_landing landing revision t s))"

lemma other_step_flow: "other_step s s' \<Longrightarrow> flow_step s s'"
  by (induction rule: other_step.induct) (rule flow_step.intros; assumption?)+

text \<open>A turn's end is an optional \<open>end_turn\<close> and then an optional closure; the events apart, it is these.\<close>

lemma end_turn_locked_cases:
  assumes "end_turn_locked i out closure event t s = (r, s')"
  obtains (ended_already) "s' = s" "r = None"
  | (ended) j w s1 s2 where "end_turn i out t s = (Some (j, w), s1)" "r \<noteq> None"
      "s2 = (case event of None \<Rightarrow> s1 | Some e \<Rightarrow> s1\<lparr>ft_events := ft_events s1 @ [(e, t)]\<rparr>)"
      "s' = (case closure of None \<Rightarrow> s2 | Some c \<Rightarrow> snd (close_submission j c t s2))"
proof (cases "end_turn i out t s")
  case (Pair ended s1)
  show thesis
  proof (cases ended)
    case None
    with Pair assms end_turn_None [of i out t s s1] show thesis
      by (intro ended_already) (auto simp: end_turn_locked_def)
  next
    case (Some p)
    then obtain j w where "ended = Some (j, w)" by (cases p) auto
    with Pair assms show thesis
      by (intro ended [of j w s1 "case event of None \<Rightarrow> s1 | Some e \<Rightarrow> s1\<lparr>ft_events := ft_events s1 @ [(e, t)]\<rparr>"])
        (auto simp: end_turn_locked_def close_when_def write_event_def Let_def split: option.splits prod.splits)
  qed
qed

end
