(* ===== verification/Flow_Laws.thy ===== *)
theory Flow_Laws
  imports Flow_Steps
begin

text \<open>
  What the flow tables keep: \<open>flow_inv\<close> in every reachable state, shown for each transaction.
\<close>

section \<open>The invariant\<close>

definition flow_inv :: "flow_tables \<Rightarrow> bool" where
  "flow_inv s \<longleftrightarrow>
     distinct (map fl_flow_id (ft_flows s)) \<and> distinct (map flow_res (ft_flows s))
     \<and> distinct (map fs_submission_id (ft_submissions s))
     \<and> sorted_wrt (<) (map fs_arrival (ft_submissions s))
     \<and> (\<forall>r\<in>set (ft_submissions s). 0 < fs_arrival r)
     \<and> set (ft_held s) \<subseteq> fs_submission_id ` set (ft_submissions s) \<times> fl_flow_id ` set (ft_flows s)
     \<and> distinct (map tn_turn_id (ft_turns s))
     \<and> tn_submission_id ` set (ft_turns s) \<subseteq> fs_submission_id ` set (ft_submissions s)
     \<and> distinct (map fst (ft_closures s))
     \<and> fst ` set (ft_closures s) \<subseteq> fs_submission_id ` set (ft_submissions s)
     \<and> (\<forall>t\<in>set (ft_turns s). turn_open t \<longrightarrow> is_open s (tn_submission_id t))
     \<and> (\<forall>t\<in>set (ft_turns s). \<forall>u\<in>set (ft_turns s). turn_open t \<and> turn_open u
            \<and> tn_submission_id t = tn_submission_id u \<longrightarrow> t = u)
     \<and> (\<forall>t\<in>set (ft_turns s). \<forall>u\<in>set (ft_turns s). \<forall>f. turn_open t \<and> turn_open u
            \<and> (tn_submission_id t, f) \<in> set (ft_held s) \<and> (tn_submission_id u, f) \<in> set (ft_held s) \<longrightarrow> t = u)"

lemma flow_inv_D:
  assumes "flow_inv s"
  shows "distinct (map fl_flow_id (ft_flows s))" "distinct (map fs_submission_id (ft_submissions s))"
    "sorted_wrt (<) (map fs_arrival (ft_submissions s))"
    "set (ft_held s) \<subseteq> fs_submission_id ` set (ft_submissions s) \<times> fl_flow_id ` set (ft_flows s)"
    "distinct (map tn_turn_id (ft_turns s))"
    "tn_submission_id ` set (ft_turns s) \<subseteq> fs_submission_id ` set (ft_submissions s)"
    "distinct (map fst (ft_closures s))" "fst ` set (ft_closures s) \<subseteq> fs_submission_id ` set (ft_submissions s)"
    "\<And>t. t \<in> set (ft_turns s) \<Longrightarrow> turn_open t \<Longrightarrow> is_open s (tn_submission_id t)"
    "\<And>t u. t \<in> set (ft_turns s) \<Longrightarrow> u \<in> set (ft_turns s) \<Longrightarrow> turn_open t \<Longrightarrow> turn_open u \<Longrightarrow>
       tn_submission_id t = tn_submission_id u \<Longrightarrow> t = u"
    "\<And>t u f. t \<in> set (ft_turns s) \<Longrightarrow> u \<in> set (ft_turns s) \<Longrightarrow> turn_open t \<Longrightarrow> turn_open u \<Longrightarrow>
       (tn_submission_id t, f) \<in> set (ft_held s) \<Longrightarrow> (tn_submission_id u, f) \<in> set (ft_held s) \<Longrightarrow> t = u"
    "\<And>r. r \<in> set (ft_submissions s) \<Longrightarrow> 0 < fs_arrival r" "distinct (map flow_res (ft_flows s))"
  using assms unfolding flow_inv_def by blast+

lemma flow_inv_initial: "flow_inv no_flows"
  by (simp add: flow_inv_def no_flows_def)

lemma is_open_iff: "is_open s i \<longleftrightarrow> i \<notin> fst ` set (ft_closures s)"
  by (simp add: is_open_def closure_of_def map_of_eq_None_iff)

lemma held_flow_ids:
  assumes "flow_inv s"
  shows "fl_flow_id ` set (flows_held s i) = {f. (i, f) \<in> set (ft_held s)}"
  using flow_inv_D(4) [OF assms] by (auto simp: flows_held_def)

text \<open>The invariant reads five tables.\<close>

lemma flow_inv_cong:
  assumes "same_places s s'" "ft_turns s' = ft_turns s" "ft_closures s' = ft_closures s"
  shows "flow_inv s' = flow_inv s"
  using assms by (simp add: flow_inv_def same_places_def is_open_iff)

lemma close_inv:
  assumes "flow_inv s" "\<not> has_open_turn s i" "i \<in> fs_submission_id ` set (ft_submissions s)"
  shows "flow_inv (snd (close_submission i out t s))"
  using close_effect [of i out t s]
proof
  assume "snd (close_submission i out t s) = s \<and> \<not> is_open s i"
  with assms show ?thesis by simp
next
  let ?s' = "snd (close_submission i out t s)"
  assume e: "is_open s i \<and> same_places s ?s'
     \<and> ft_closures ?s' = ft_closures s @ [(i, \<lparr>cl_outcome = out, cl_closed_at = t\<rparr>)]
     \<and> ft_turns ?s' = ft_turns s \<and> ft_terms ?s' = ft_terms s \<and> ft_events ?s' = ft_events s
     \<and> fact_keys ?s' = fact_keys s @ map (\<lambda>f. (fl_flow_id f, FlowWithdrawn, i)) (flows_held s i)"
  then have "is_open ?s' k \<longleftrightarrow> is_open s k \<and> k \<noteq> i" for k by (auto simp: is_open_iff)
  with e assms show ?thesis
    by (auto simp: flow_inv_def same_places_def is_open_iff has_open_turn_def)
qed

lemma withdraw_as_fold:
  "snd (withdraw_waiting chunk_id w t s) = fold (\<lambda>i s. snd (close_submission i (withdrawal_value w) t s)) (waiting_ids chunk_id s) s"
proof -
  have "snd (fold (\<lambda>i (facts, s). let (written, s') = close_submission i (withdrawal_value w) t s
        in (facts @ (case written of None \<Rightarrow> [] | Some w \<Rightarrow> w), s')) is (facts, s))
      = fold (\<lambda>i s. snd (close_submission i (withdrawal_value w) t s)) is s" for "is" facts s
    by (induction "is" arbitrary: facts s) (simp_all add: case_prod_beta Let_def)
  then show ?thesis by (simp add: withdraw_waiting_def)
qed

lemma close_keeps_turns:
  "ft_turns (snd (close_submission i out t s)) = ft_turns s" "same_places s (snd (close_submission i out t s))"
  using close_effect [of i out t s] by auto

lemma withdraw_inv:
  assumes "flow_inv s"
  shows "flow_inv (snd (withdraw_waiting chunk_id w t s))"
proof -
  have "flow_inv (fold (\<lambda>i s. snd (close_submission i (withdrawal_value w) t s)) is s)"
    if "flow_inv s" "\<forall>i\<in>set is. \<not> has_open_turn s i \<and> i \<in> fs_submission_id ` set (ft_submissions s)" for "is" s
    using that
  proof (induction "is" arbitrary: s)
    case (Cons i "is")
    let ?s = "snd (close_submission i (withdrawal_value w) t s)"
    have "flow_inv ?s" using Cons.prems by (intro close_inv) auto
    moreover have "\<forall>j\<in>set is. \<not> has_open_turn ?s j \<and> j \<in> fs_submission_id ` set (ft_submissions ?s)"
      using Cons.prems(2) close_keeps_turns [where i = i and t = t and s = s] by (auto simp: has_open_turn_def same_places_def)
    ultimately show ?case using Cons.IH by simp
  qed simp
  moreover have "\<forall>i\<in>set (waiting_ids chunk_id s). \<not> has_open_turn s i \<and> i \<in> fs_submission_id ` set (ft_submissions s)"
    by (auto simp: waiting_ids_def)
  ultimately show ?thesis using assms by (simp add: withdraw_as_fold)
qed

lemma end_row_open: "turn_open (end_row i out t u) \<longleftrightarrow> turn_open u \<and> tn_turn_id u \<noteq> i"
  by (simp add: end_row_def turn_open_def)

lemma end_row_keeps [simp]:
  "tn_turn_id (end_row i out t u) = tn_turn_id u" "tn_submission_id (end_row i out t u) = tn_submission_id u"
  "tn_started_at (end_row i out t u) = tn_started_at u"
  by (simp_all add: end_row_def)

lemma end_row_other: "turn_open (end_row i out t u) \<Longrightarrow> end_row i out t u = u"
  by (auto simp: end_row_def turn_open_def split: if_splits)

lemma end_turn_inv:
  assumes "flow_inv s" "end_turn i out t s = (Some (j, w), s')"
  shows "flow_inv s' \<and> \<not> has_open_turn s' j \<and> j \<in> fs_submission_id ` set (ft_submissions s')"
proof -
  obtain row where row: "row \<in> set (ft_turns s)" "tn_turn_id row = i" "turn_open row" "tn_submission_id row = j"
    and e: "same_places s s'" "ft_turns s' = map (end_row i out t) (ft_turns s)" "ft_closures s' = ft_closures s"
    by (rule end_turn_effect [OF assms(2)])
  note I = flow_inv_D [OF assms(1)]
  have o: "is_open s' k = is_open s k" for k by (simp add: is_open_iff e(3))
  have u: "\<exists>v\<in>set (ft_turns s). u = v \<and> turn_open v" if "u \<in> set (ft_turns s')" "turn_open u" for u
    using that e(2) end_row_other by (force simp: end_row_open)
  have "\<not> has_open_turn s' j"
    using I(10) row e(2) by (fastforce simp: has_open_turn_def end_row_open)
  moreover have "flow_inv s'"
    unfolding flow_inv_def o
  proof (intro conjI ballI allI impI)
    show "distinct (map fl_flow_id (ft_flows s'))" "distinct (map flow_res (ft_flows s'))"
        "distinct (map fs_submission_id (ft_submissions s'))"
      "sorted_wrt (<) (map fs_arrival (ft_submissions s'))"
      "set (ft_held s') \<subseteq> fs_submission_id ` set (ft_submissions s') \<times> fl_flow_id ` set (ft_flows s')"
      "distinct (map fst (ft_closures s'))" "fst ` set (ft_closures s') \<subseteq> fs_submission_id ` set (ft_submissions s')"
      using I(1-4,7,8,13) e by (simp_all add: same_places_def)
    show "\<And>r. r \<in> set (ft_submissions s') \<Longrightarrow> 0 < fs_arrival r" using I(12) e(1) by (simp add: same_places_def)
    show "distinct (map tn_turn_id (ft_turns s'))" using I(5) e(2) by (simp add: comp_def)
    show "tn_submission_id ` set (ft_turns s') \<subseteq> fs_submission_id ` set (ft_submissions s')"
      using I(6) e by (force simp: same_places_def)
    show "is_open s (tn_submission_id t)" if "t \<in> set (ft_turns s')" "turn_open t" for t
      using u [OF that] I(9) by blast
    show "t = v" if "t \<in> set (ft_turns s')" "v \<in> set (ft_turns s')"
      "turn_open t \<and> turn_open v \<and> tn_submission_id t = tn_submission_id v" for t v
      using u [of t] u [of v] that I(10) by blast
    show "t = v" if "t \<in> set (ft_turns s')" "v \<in> set (ft_turns s')"
      "turn_open t \<and> turn_open v \<and> (tn_submission_id t, f) \<in> set (ft_held s') \<and> (tn_submission_id v, f) \<in> set (ft_held s')" for t v f
      using u [of t] u [of v] that I(11) e(1) unfolding same_places_def by metis
  qed
  moreover have "j \<in> fs_submission_id ` set (ft_submissions s')"
    using I(6) row e(1) by (auto simp: same_places_def)
  ultimately show ?thesis by blast
qed

lemma end_turn_locked_inv:
  assumes "flow_inv s"
  shows "flow_inv (snd (end_turn_locked i out closure event t s))"
proof -
  obtain r s' where r: "end_turn_locked i out closure event t s = (r, s')" by (rule prod.exhaust)
  then show ?thesis
  proof (cases rule: end_turn_locked_cases)
    case ended_already
    with r assms show ?thesis by simp
  next
    case (ended j w s1 s2)
    from end_turn_inv [OF assms ended(1)] have 1: "flow_inv s1" "\<not> has_open_turn s1 j" "j \<in> fs_submission_id ` set (ft_submissions s1)"
      by simp_all
    have "same_places s1 s2" "ft_turns s2 = ft_turns s1" "ft_closures s2 = ft_closures s1"
      using ended(3) by (simp_all add: same_places_def split: option.split)
    with 1 have "flow_inv s2" "\<not> has_open_turn s2 j" "j \<in> fs_submission_id ` set (ft_submissions s2)"
      using flow_inv_cong [of s1 s2] by (auto simp: has_open_turn_def same_places_def)
    with close_inv ended(4) r show ?thesis by (simp split: option.split)
  qed
qed

lemma take_turn_inv:
  assumes "flow_inv s" "turn_id \<notin> tn_turn_id ` set (ft_turns s)"
  shows "flow_inv (snd (take_turn i po terms t turn_id s))"
proof -
  obtain r s' where r: "take_turn i po terms t turn_id s = (r, s')" by (rule prod.exhaust)
  note I = flow_inv_D [OF assms(1)]
  show ?thesis
  proof (cases r)
    case None
    with r take_turn_None assms(1) show ?thesis by (metis snd_conv)
  next
    case (Some turn)
    with r obtain row where row: "find_submission s i = Some row"
      and turn: "turn = \<lparr>tn_turn_id = turn_id, tn_submission_id = i, tn_started_at = t, tn_ended_at = None, tn_outcome = None\<rparr>"
      and g: "is_open s i" "\<not> has_open_turn s i" "\<not> flow_busy s (fl_flow_id ` set (flows_held s i))"
      and e: "same_places s s'" "ft_turns s' = ft_turns s @ [turn]" "ft_closures s' = ft_closures s"
      by (metis take_turn_effect)
    have o: "is_open s' k = is_open s k" for k by (simp add: is_open_iff e(3))
    have i: "i \<in> fs_submission_id ` set (ft_submissions s)"
      using row by (auto simp: find_submission_def dest: find_SomeD)
    have free: "\<not> (\<exists>u\<in>set (ft_turns s). turn_open u \<and> (tn_submission_id u, f) \<in> set (ft_held s))"
      if "(i, f) \<in> set (ft_held s)" for f
      using g(3) that held_flow_ids [OF assms(1), of i] by (auto simp: flow_busy_def)
    have mine: "turn_open u \<Longrightarrow> u \<in> set (ft_turns s) \<Longrightarrow> tn_submission_id u \<noteq> i" for u
      using g(2) by (auto simp: has_open_turn_def)
    have "flow_inv s'"
      unfolding flow_inv_def o
    proof (intro conjI ballI allI impI)
      show "distinct (map fl_flow_id (ft_flows s'))" "distinct (map flow_res (ft_flows s'))"
        "distinct (map fs_submission_id (ft_submissions s'))"
        "sorted_wrt (<) (map fs_arrival (ft_submissions s'))"
        "set (ft_held s') \<subseteq> fs_submission_id ` set (ft_submissions s') \<times> fl_flow_id ` set (ft_flows s')"
        "distinct (map fst (ft_closures s'))" "fst ` set (ft_closures s') \<subseteq> fs_submission_id ` set (ft_submissions s')"
        using I(1-4,7,8,13) e by (simp_all add: same_places_def)
      show "\<And>r. r \<in> set (ft_submissions s') \<Longrightarrow> 0 < fs_arrival r" using I(12) e(1) by (simp add: same_places_def)
      show "distinct (map tn_turn_id (ft_turns s'))" using I(5) e(2) assms(2) by (simp add: turn)
      show "tn_submission_id ` set (ft_turns s') \<subseteq> fs_submission_id ` set (ft_submissions s')"
        using I(6) e i by (simp add: same_places_def turn)
      show "is_open s (tn_submission_id t)" if "t \<in> set (ft_turns s')" "turn_open t" for t
        using that I(9) g(1) e(2) by (auto simp: turn)
      show "x = v" if "x \<in> set (ft_turns s')" "v \<in> set (ft_turns s')"
        "turn_open x \<and> turn_open v \<and> tn_submission_id x = tn_submission_id v" for x v
        using that I(10) [of x v] mine [of x] mine [of v] e(2) by (auto simp: turn)
      show "x = v" if "x \<in> set (ft_turns s')" "v \<in> set (ft_turns s')"
        "turn_open x \<and> turn_open v \<and> (tn_submission_id x, f) \<in> set (ft_held s') \<and> (tn_submission_id v, f) \<in> set (ft_held s')" for x v f
        using that I(11) [of x v f] free [of f] e(1,2) by (auto simp: turn same_places_def)
    qed
    with r show ?thesis by simp
  qed
qed


lemma flows_for_effect:
  assumes "fold (\<lambda>r (flows, s). let (f, s') = flow_for t r (fresh r) s in (flows @ [f], s')) rs (fs0, s) = (fs, s')"
    and "distinct rs" "inj_on fresh (set rs)" "fresh ` set rs \<inter> fl_flow_id ` set (ft_flows s) = {}"
    and "distinct (map fl_flow_id (ft_flows s))" "distinct (map flow_res (ft_flows s))"
  shows "s' = s\<lparr>ft_flows := ft_flows s'\<rparr> \<and> prefix (ft_flows s) (ft_flows s')
     \<and> distinct (map fl_flow_id (ft_flows s')) \<and> distinct (map flow_res (ft_flows s'))
     \<and> (\<exists>gs. fs = fs0 @ gs \<and> map flow_res gs = map resource rs \<and> set gs \<subseteq> set (ft_flows s'))"
  using assms
proof (induction rs arbitrary: fs0 s)
  case Nil
  then show ?case by simp
next
  case (Cons r rs)
  obtain f s1 where f: "flow_for t r (fresh r) s = (f, s1)" by (rule prod.exhaust)
  have rest: "fold (\<lambda>r (flows, s). let (f, s') = flow_for t r (fresh r) s in (flows @ [f], s')) rs (fs0 @ [f], s1) = (fs, s')"
    using Cons.prems(1) f by simp
  have s1: "s1 = s\<lparr>ft_flows := ft_flows s1\<rparr> \<and> prefix (ft_flows s) (ft_flows s1) \<and> flow_res f = resource r
      \<and> f \<in> set (ft_flows s1) \<and> fl_flow_id ` set (ft_flows s1) \<subseteq> insert (fresh r) (fl_flow_id ` set (ft_flows s))
      \<and> distinct (map fl_flow_id (ft_flows s1)) \<and> distinct (map flow_res (ft_flows s1))"
  proof (cases "List.find (\<lambda>f. flow_res f = resource r) (ft_flows s)")
    case None
    then have "resource r \<notin> flow_res ` set (ft_flows s)" by (auto simp: find_eq_None)
    moreover have "s1 = s\<lparr>ft_flows := ft_flows s @ [f]\<rparr>" "fl_flow_id f = fresh r" "flow_res f = resource r"
      using None f by (auto simp: flow_for_def Let_def flow_res_def resource_def)
    ultimately show ?thesis using Cons.prems(4-6) by auto
  next
    case (Some g)
    with f Cons.prems(5,6) find_SomeD [OF Some] show ?thesis by (auto simp: flow_for_def)
  qed
  have "fresh ` set rs \<inter> fl_flow_id ` set (ft_flows s1) = {}"
  proof -
    have "fresh r \<notin> fresh ` set rs" using Cons.prems(2,3) by (auto simp: inj_on_def)
    moreover have "fl_flow_id ` set (ft_flows s1) \<subseteq> insert (fresh r) (fl_flow_id ` set (ft_flows s))" using s1 by blast
    moreover have "fresh ` set rs \<inter> fl_flow_id ` set (ft_flows s) = {}" using Cons.prems(4) by simp
    moreover have "a \<notin> F \<Longrightarrow> J \<subseteq> insert a I \<Longrightarrow> F \<inter> I = {} \<Longrightarrow> F \<inter> J = {}" for a :: ident and F I J by blast
    ultimately show ?thesis by metis
  qed
  moreover have "distinct (map fl_flow_id (ft_flows s1))" "distinct (map flow_res (ft_flows s1))" using s1 by blast+
  moreover have "distinct rs" "inj_on fresh (set rs)" using Cons.prems(2,3) by auto
  ultimately obtain gs where
    2: "s' = s1\<lparr>ft_flows := ft_flows s'\<rparr>" "prefix (ft_flows s1) (ft_flows s')"
      "distinct (map fl_flow_id (ft_flows s'))" "distinct (map flow_res (ft_flows s'))"
      "fs = fs0 @ [f] @ gs" "map flow_res gs = map resource rs" "set gs \<subseteq> set (ft_flows s')"
    using Cons.IH [OF rest] by auto
  have "s' = s\<lparr>ft_flows := ft_flows s'\<rparr>" using s1 2(1) by (metis flow_tables.simps(9) flow_tables.surjective flow_tables.update_convs(1))
  moreover have "f \<in> set (ft_flows s')" using s1 2(2) set_mono_prefix by blast
  moreover have "prefix (ft_flows s) (ft_flows s')" using s1 2(2) prefix_order.trans by blast
  moreover have "flow_res f = resource r" using s1 by blast
  ultimately show ?case using 2(3-7) by (intro conjI exI [of _ "f # gs"]) simp_all
qed

lemma submit_effect:
  assumes "flow_inv s" "mintable v s" "submit v s = (Some sub, s')"
  obtains row flows where
    "row = \<lparr>fs_submission_id = vs_submission_id v, fs_chunk_id = vs_chunk_id v, fs_node_id = vs_node_id v,
       fs_epoch = vs_epoch v, fs_generation = vs_generation v, fs_arrival = next_arrival s, fs_submitted_at = vs_at v\<rparr>"
    "ft_submissions s' = ft_submissions s @ [row]" "prefix (ft_flows s) (ft_flows s')"
    "distinct (map fl_flow_id (ft_flows s'))" "distinct (map flow_res (ft_flows s'))"
    "set flows \<subseteq> set (ft_flows s')" "map flow_res flows = map resource (dedup (vs_resources v))"
    "ft_held s' = ft_held s @ map (\<lambda>f. (vs_submission_id v, fl_flow_id f)) flows"
    "ft_turns s' = ft_turns s" "ft_closures s' = ft_closures s" "ft_terms s' = ft_terms s"
    "fact_keys s' = fact_keys s @ map (\<lambda>f. (fl_flow_id f, FlowSubmitted, vs_submission_id v)) flows"
    "sub_submission_id sub = vs_submission_id v" "sub_arrival sub = next_arrival s" "sub_flows sub = flows"
    "\<not> (\<exists>r\<in>set (ft_submissions s). visit_row (vs_chunk_id v) (vs_node_id v) (vs_epoch v) r \<and> fs_generation r = vs_generation v)"
proof -
  define row where "row = \<lparr>fs_submission_id = vs_submission_id v, fs_chunk_id = vs_chunk_id v, fs_node_id = vs_node_id v,
       fs_epoch = vs_epoch v, fs_generation = vs_generation v, fs_arrival = next_arrival s, fs_submitted_at = vs_at v\<rparr>"
  define s1 where "s1 = s\<lparr>ft_submissions := ft_submissions s @ [row]\<rparr>"
  obtain flows s2 where fl: "flows_for (vs_at v) (vs_flow_id v) (dedup (vs_resources v)) s1 = (flows, s2)" by (rule prod.exhaust)
  have 2: "s2 = s1\<lparr>ft_flows := ft_flows s2\<rparr>" "prefix (ft_flows s) (ft_flows s2)"
      "distinct (map fl_flow_id (ft_flows s2))" "distinct (map flow_res (ft_flows s2))"
      "set flows \<subseteq> set (ft_flows s2)" "map flow_res flows = map resource (dedup (vs_resources v))"
    using flows_for_effect [OF fl [unfolded flows_for_def]] assms(2) flow_inv_D(1,13) [OF assms(1)]
    by (auto simp: mintable_def s1_def)
  have keep: "ft_turns s2 = ft_turns s" "ft_closures s2 = ft_closures s" "ft_terms s2 = ft_terms s" "ft_held s2 = ft_held s"
      "ft_submissions s2 = ft_submissions s @ [row]" "fact_keys s2 = fact_keys s"
    by (subst 2(1), simp add: s1_def flow_simps)+
  have new: "\<not> (\<exists>r\<in>set (ft_submissions s). visit_row (vs_chunk_id v) (vs_node_id v) (vs_epoch v) r \<and> fs_generation r = vs_generation v)"
    using assms(3) by (auto simp: submit_def split: if_splits)
  let ?s3 = "s2\<lparr>ft_held := ft_held s2 @ map (\<lambda>f. (vs_submission_id v, fl_flow_id f)) flows\<rparr>"
  let ?s4 = "snd (write_facts (map fl_flow_id flows) (vs_submission_id v) (vs_chunk_id v) FlowSubmitted None None (vs_at v) ?s3)"
  from assms(3) new fl have r: "s' = ?s4" "sub = submission_of ?s4 None row \<lparr>sub_flows := flows\<rparr>"
    by (auto simp: submit_def Let_def row_def [symmetric] s1_def [symmetric] split: if_splits)
  show thesis
    by (rule that [OF row_def, of flows]) (use r 2 keep new in \<open>simp_all add: write_facts_def flow_simps comp_def submission_of_def row_def\<close>)
qed

lemma next_arrival_greater: "r \<in> set (ft_submissions s) \<Longrightarrow> fs_arrival r < next_arrival s"
  by (auto simp: next_arrival_def col_max_def intro!: order.strict_trans1 [OF Max_ge])

lemma next_arrival_positive:
  assumes "flow_inv s"
  shows "0 < next_arrival s"
proof (cases "ft_submissions s")
  case (Cons r rs)
  then have "r \<in> set (ft_submissions s)" by simp
  from next_arrival_greater [OF this] flow_inv_D(12) [OF assms this] show ?thesis by simp
qed (simp add: next_arrival_def col_max_def)

lemma submit_None: "submit v s = (None, s') \<Longrightarrow> s' = s"
  by (auto simp: submit_def Let_def split: if_splits prod.splits)

lemma submit_inv:
  assumes "flow_inv s" "mintable v s"
  shows "flow_inv (snd (submit v s))"
proof -
  obtain r s' where r: "submit v s = (r, s')" by (rule prod.exhaust)
  note I = flow_inv_D [OF assms(1)]
  show ?thesis
  proof (cases r)
    case None
    with r submit_None assms(1) show ?thesis by (metis snd_conv)
  next
    case (Some sub)
    with r have "submit v s = (Some sub, s')" by simp
    from submit_effect [OF assms this] obtain row flows where
      row: "fs_submission_id row = vs_submission_id v" "fs_arrival row = next_arrival s"
      and e: "ft_submissions s' = ft_submissions s @ [row]" "prefix (ft_flows s) (ft_flows s')"
        "distinct (map fl_flow_id (ft_flows s'))" "distinct (map flow_res (ft_flows s'))" "set flows \<subseteq> set (ft_flows s')"
        "ft_held s' = ft_held s @ map (\<lambda>f. (vs_submission_id v, fl_flow_id f)) flows"
        "ft_turns s' = ft_turns s" "ft_closures s' = ft_closures s"
      by (metis submission_row.simps(1,6))
    have fresh: "vs_submission_id v \<notin> fs_submission_id ` set (ft_submissions s)" using assms(2) by (simp add: mintable_def)
    have o: "is_open s' k = is_open s k" for k by (simp add: is_open_iff e(8))
    have old: "(tn_submission_id t, f) \<in> set (ft_held s') \<longleftrightarrow> (tn_submission_id t, f) \<in> set (ft_held s)"
      if "t \<in> set (ft_turns s)" for t f
    proof -
      have "tn_submission_id t \<noteq> vs_submission_id v" using that I(6) fresh by (metis image_subset_iff)
      then show ?thesis by (auto simp: e(6))
    qed
    have ids: "fl_flow_id ` set (ft_flows s) \<subseteq> fl_flow_id ` set (ft_flows s')"
      using set_mono_prefix [OF e(2)] by blast
    have "flow_inv s'"
      unfolding flow_inv_def o e(7)
    proof (intro conjI ballI allI impI)
      show "distinct (map fl_flow_id (ft_flows s'))" "distinct (map flow_res (ft_flows s'))" by (rule e(3), rule e(4))
      show "distinct (map fs_submission_id (ft_submissions s'))" using I(2) fresh by (simp add: e(1) row)
      show "sorted_wrt (<) (map fs_arrival (ft_submissions s'))"
        using I(3) next_arrival_greater [of _ s] by (simp add: e(1) row sorted_wrt_append)
      show "\<And>r. r \<in> set (ft_submissions s') \<Longrightarrow> 0 < fs_arrival r"
        using I(12) next_arrival_positive [OF assms(1)] by (auto simp: e(1) row)
      show "set (ft_held s') \<subseteq> fs_submission_id ` set (ft_submissions s') \<times> fl_flow_id ` set (ft_flows s')"
        using I(4) ids e(5) by (auto simp: e(1,6) row)
      show "distinct (map tn_turn_id (ft_turns s))" "distinct (map fst (ft_closures s'))" using I(5,7) by (simp_all add: e(8))
      show "tn_submission_id ` set (ft_turns s) \<subseteq> fs_submission_id ` set (ft_submissions s')"
        "fst ` set (ft_closures s') \<subseteq> fs_submission_id ` set (ft_submissions s')"
        using I(6,8) by (auto simp: e(1,8))
    qed (use I(9-11) old in blast)+
    with r show ?thesis by simp
  qed
qed

lemma land_frame:
  "same_places s (snd (write_landing landing rv t s))" "ft_turns (snd (write_landing landing rv t s)) = ft_turns s"
  "ft_closures (snd (write_landing landing rv t s)) = ft_closures s" "ft_terms (snd (write_landing landing rv t s)) = ft_terms s"
  "fact_keys (snd (write_landing landing rv t s))
     = fact_keys s @ [(fl_flow_id (fg_flow landing), FlowLanded, fg_submission_id landing)]"
  by (simp_all add: write_landing_def write_facts_def write_event_def same_places_def flow_simps Let_def)

lemma flow_step_inv: "flow_step s s' \<Longrightarrow> flow_inv s \<Longrightarrow> flow_inv s'"
proof (induction rule: flow_step.induct)
  case (step_close i s w t)
  then show ?case by (simp add: close_waiting_def close_inv)
next
  case (step_land landing revision t s)
  then show ?case using flow_inv_cong land_frame by blast
qed (simp_all add: submit_inv take_turn_inv end_turn_locked_inv withdraw_inv)

lemma flow_steps_inv: "flow_step\<^sup>*\<^sup>* s s' \<Longrightarrow> flow_inv s \<Longrightarrow> flow_inv s'"
  by (induction rule: rtranclp_induct) (auto intro: flow_step_inv)

lemma reachable_inv: "flow_step\<^sup>*\<^sup>* no_flows s \<Longrightarrow> flow_inv s"
  using flow_steps_inv flow_inv_initial by blast

end
