(* ===== verification/Flow_Lock.thy ===== *)
theory Flow_Lock
  imports Flow_Laws
begin

text \<open>
  Each flow as a lock. The record of a flow, its facts in order, is a run of a lock that a turn's
  start takes and its end gives back, and the lock's holder is the submission whose turn is open.
\<close>

section \<open>The abstract lock\<close>

fun lock_run :: "ident option \<Rightarrow> (flow_change_kind \<times> ident) list \<Rightarrow> ident option option" where
  "lock_run h [] = Some h"
| "lock_run h ((k, i) # es) =
     (if k = FlowTurnStarted then (if h = None then lock_run (Some i) es else None)
      else if k = FlowTurnEnded then (if h = Some i then lock_run None es else None)
      else lock_run h es)"

definition flow_record :: "flow_tables \<Rightarrow> ident \<Rightarrow> (flow_change_kind \<times> ident) list" where
  "flow_record s f = map snd (filter (\<lambda>e. fst e = f) (fact_keys s))"

definition holder :: "flow_tables \<Rightarrow> ident \<Rightarrow> ident option" where
  "holder s f = map_option tn_submission_id
     (List.find (\<lambda>t. turn_open t \<and> (tn_submission_id t, f) \<in> set (ft_held s)) (ft_turns s))"

lemma lock_run_append:
  "lock_run h (xs @ ys) = (case lock_run h xs of None \<Rightarrow> None | Some h' \<Rightarrow> lock_run h' ys)"
  by (induction h xs rule: lock_run.induct) auto

lemma lock_run_idle: "\<forall>e\<in>set ys. fst e \<noteq> FlowTurnStarted \<and> fst e \<noteq> FlowTurnEnded \<Longrightarrow> lock_run h ys = Some h"
  by (induction h ys rule: lock_run.induct) auto

lemma record_grows:
  assumes "fact_keys s' = fact_keys s @ map (\<lambda>x. (g x, k, i)) xs" "distinct (map g xs)"
  shows "flow_record s' f = flow_record s f @ (if f \<in> g ` set xs then [(k, i)] else [])"
proof -
  have "map snd (filter (\<lambda>e. fst e = f) (map (\<lambda>x. (g x, k, i)) xs)) = (if f \<in> g ` set xs then [(k, i)] else [])"
    using assms(2) by (induction xs) auto
  then show ?thesis by (simp add: flow_record_def assms(1))
qed

lemma idle_facts:
  assumes "fact_keys s' = fact_keys s @ map (\<lambda>x. (g x, k, i)) xs" "k \<noteq> FlowTurnStarted" "k \<noteq> FlowTurnEnded"
  shows "lock_run None (flow_record s' f) = lock_run None (flow_record s f)"
proof -
  have "lock_run h (map snd (filter (\<lambda>e. fst e = f) (map (\<lambda>x. (g x, k, i)) xs))) = Some h" for h
    by (rule lock_run_idle) (use assms(2,3) in auto)
  then show ?thesis by (simp add: flow_record_def assms(1) lock_run_append split: option.split)
qed

section \<open>Who holds a flow\<close>

lemma holder_cong: "same_places s s' \<Longrightarrow> ft_turns s' = ft_turns s \<Longrightarrow> holder s' f = holder s f"
  by (simp add: holder_def same_places_def)

lemma holder_iff:
  assumes "flow_inv s"
  shows "holder s f = Some i \<longleftrightarrow> (\<exists>t\<in>set (ft_turns s). turn_open t \<and> (i, f) \<in> set (ft_held s) \<and> tn_submission_id t = i)"
proof
  assume "holder s f = Some i"
  then show "\<exists>t\<in>set (ft_turns s). turn_open t \<and> (i, f) \<in> set (ft_held s) \<and> tn_submission_id t = i"
    by (auto simp: holder_def dest!: find_SomeD)
next
  assume "\<exists>t\<in>set (ft_turns s). turn_open t \<and> (i, f) \<in> set (ft_held s) \<and> tn_submission_id t = i"
  then obtain t where t: "t \<in> set (ft_turns s)" "turn_open t" "(i, f) \<in> set (ft_held s)" "tn_submission_id t = i" by blast
  then obtain u where u: "List.find (\<lambda>t. turn_open t \<and> (tn_submission_id t, f) \<in> set (ft_held s)) (ft_turns s) = Some u"
    using find_Some_ex [of t "ft_turns s" "\<lambda>t. turn_open t \<and> (tn_submission_id t, f) \<in> set (ft_held s)"] by auto
  from find_SomeD [OF u] t flow_inv_D(11) [OF assms, of u t f] have "u = t" by blast
  with u t(4) show "holder s f = Some i" by (simp add: holder_def)
qed

lemma holder_None: "holder s f = None \<longleftrightarrow> \<not> (\<exists>t\<in>set (ft_turns s). turn_open t \<and> (tn_submission_id t, f) \<in> set (ft_held s))"
  by (auto simp: holder_def find_eq_None)

lemma holder_eqI:
  assumes "\<And>i. holder s f = Some i \<longleftrightarrow> holder s' f = Some i"
  shows "holder s' f = holder s f"
proof (cases "holder s f")
  case None
  then have "\<nexists>i. holder s' f = Some i" using assms by simp
  then show ?thesis using None by (cases "holder s' f") auto
next
  case (Some i)
  then show ?thesis using assms [of i] by simp
qed

lemma distinct_flows_held:
  assumes "flow_inv s"
  shows "distinct (map fl_flow_id (flows_held s i))"
  using flow_inv_D(1) [OF assms] by (auto simp: flows_held_def distinct_map inj_on_def)

section \<open>Every write keeps the record a run\<close>

definition locked_run :: "flow_tables \<Rightarrow> bool" where
  "locked_run s \<longleftrightarrow> (\<forall>f. lock_run None (flow_record s f) = Some (holder s f))"

lemma locked_run_idle:
  assumes "locked_run s" "fact_keys s' = fact_keys s @ map (\<lambda>x. (g x, k, i)) xs" "k \<noteq> FlowTurnStarted" "k \<noteq> FlowTurnEnded"
    and "\<And>f. holder s' f = holder s f"
  shows "locked_run s'"
  using idle_facts [OF assms(2-4)] assms(1,5) by (simp add: locked_run_def)

lemma locked_run_close:
  assumes "locked_run s"
  shows "locked_run (snd (close_submission i out t s))"
  using close_effect [of i out t s]
proof
  let ?s' = "snd (close_submission i out t s)"
  assume e: "is_open s i \<and> same_places s ?s'
     \<and> ft_closures ?s' = ft_closures s @ [(i, \<lparr>cl_outcome = out, cl_closed_at = t\<rparr>)]
     \<and> ft_turns ?s' = ft_turns s \<and> ft_terms ?s' = ft_terms s \<and> ft_events ?s' = ft_events s
     \<and> fact_keys ?s' = fact_keys s @ map (\<lambda>f. (fl_flow_id f, FlowWithdrawn, i)) (flows_held s i)"
  then have "fact_keys ?s' = fact_keys s @ map (\<lambda>f. (fl_flow_id f, FlowWithdrawn, i)) (flows_held s i)" by blast
  from locked_run_idle [OF assms this] holder_cong [of s ?s'] e show ?thesis by blast
qed (use assms in simp)

lemma locked_run_end_turn:
  assumes "flow_inv s" "locked_run s" "end_turn i out t s = (Some (j, w), s')"
  shows "locked_run s'"
  unfolding locked_run_def
proof
  fix f
  obtain row where row: "row \<in> set (ft_turns s)" "tn_turn_id row = i" "turn_open row" "tn_submission_id row = j"
    and e: "same_places s s'" "ft_turns s' = map (end_row i out t) (ft_turns s)"
    and k: "fact_keys s' = fact_keys s @ map (\<lambda>f. (fl_flow_id f, FlowTurnEnded, j)) (flows_held s j)"
    by (rule end_turn_effect [OF assms(3)])
  note I = flow_inv_D [OF assms(1)]
  have inv': "flow_inv s'" using end_turn_inv [OF assms(1,3)] by simp
  have mine: "f \<in> fl_flow_id ` set (flows_held s j) \<longleftrightarrow> (j, f) \<in> set (ft_held s)"
    using held_flow_ids [OF assms(1), of j] by auto
  have same: "u = row" if "u \<in> set (ft_turns s)" "tn_turn_id u = i" for u
    using that row(1,2) I(5) by (metis distinct_map inj_onD)
  note rec = record_grows [OF k distinct_flows_held [OF assms(1)], of f]
  show "lock_run None (flow_record s' f) = Some (holder s' f)"
  proof (cases "(j, f) \<in> set (ft_held s)")
    case True
    have "holder s f = Some j" using row True holder_iff [OF assms(1)] by blast
    moreover have "holder s' f = None"
      unfolding holder_None
    proof
      assume "\<exists>u\<in>set (ft_turns s'). turn_open u \<and> (tn_submission_id u, f) \<in> set (ft_held s')"
      then obtain u where u: "u \<in> set (ft_turns s)" "turn_open u" "tn_turn_id u \<noteq> i" "(tn_submission_id u, f) \<in> set (ft_held s)"
        using e by (auto simp: same_places_def end_row_open)
      from I(11) [of u row f] u row True have "u = row" by simp
      with u(3) row(2) show False by simp
    qed
    ultimately show ?thesis using assms(2) True rec mine by (simp add: locked_run_def lock_run_append)
  next
    case False
    have "holder s' f = holder s f"
    proof (rule holder_eqI)
      fix k
      have "(\<exists>t\<in>set (ft_turns s'). turn_open t \<and> (k, f) \<in> set (ft_held s') \<and> tn_submission_id t = k)
          \<longleftrightarrow> (\<exists>t\<in>set (ft_turns s). turn_open t \<and> (k, f) \<in> set (ft_held s) \<and> tn_submission_id t = k)"
        using e False same row(4) by (auto simp: same_places_def end_row_open)
      then show "holder s f = Some k \<longleftrightarrow> holder s' f = Some k"
        using holder_iff [OF assms(1), of f k] holder_iff [OF inv', of f k] by blast
    qed
    with assms(2) False rec mine show ?thesis by (simp add: locked_run_def)
  qed
qed

lemma locked_run_take_turn:
  assumes "flow_inv s" "locked_run s" "turn_id \<notin> tn_turn_id ` set (ft_turns s)"
  shows "locked_run (snd (take_turn i po terms t turn_id s))"
proof -
  obtain r s' where r: "take_turn i po terms t turn_id s = (r, s')" by (rule prod.exhaust)
  have inv': "flow_inv s'" using take_turn_inv [OF assms(1,3), of i po terms t] r by simp
  show ?thesis
  proof (cases r)
    case None
    with r take_turn_None assms(2) show ?thesis by (metis snd_conv)
  next
    case (Some turn)
    with r obtain row where
      turn: "turn = \<lparr>tn_turn_id = turn_id, tn_submission_id = i, tn_started_at = t, tn_ended_at = None, tn_outcome = None\<rparr>"
      and g: "\<not> flow_busy s (fl_flow_id ` set (flows_held s i))"
      and e: "same_places s s'" "ft_turns s' = ft_turns s @ [turn]"
      and k: "fact_keys s' = fact_keys s @ map (\<lambda>f. (fl_flow_id f, FlowTurnStarted, i)) (flows_held s i)"
      by (metis take_turn_effect)
    have "lock_run None (flow_record s' f) = Some (holder s' f)" for f
    proof -
      note rec = record_grows [OF k distinct_flows_held [OF assms(1)], of f]
      have mine: "f \<in> fl_flow_id ` set (flows_held s i) \<longleftrightarrow> (i, f) \<in> set (ft_held s)"
        using held_flow_ids [OF assms(1), of i] by auto
      show ?thesis
      proof (cases "(i, f) \<in> set (ft_held s)")
        case True
        have "holder s f = None" using g True mine by (auto simp: holder_None flow_busy_def)
        moreover have "holder s' f = Some i"
          using True e holder_iff [OF inv', of f i] by (auto simp: turn same_places_def turn_open_def)
        ultimately show ?thesis using assms(2) True rec mine by (simp add: locked_run_def lock_run_append)
      next
        case False
        have "holder s' f = holder s f"
        proof (rule holder_eqI)
          fix k
          have "(\<exists>t\<in>set (ft_turns s'). turn_open t \<and> (k, f) \<in> set (ft_held s') \<and> tn_submission_id t = k)
              \<longleftrightarrow> (\<exists>t\<in>set (ft_turns s). turn_open t \<and> (k, f) \<in> set (ft_held s) \<and> tn_submission_id t = k)"
            using e False by (auto simp: same_places_def turn)
          then show "holder s f = Some k \<longleftrightarrow> holder s' f = Some k"
            using holder_iff [OF assms(1), of f k] holder_iff [OF inv', of f k] by blast
        qed
        with assms(2) False rec mine show ?thesis by (simp add: locked_run_def)
      qed
    qed
    with r show ?thesis by (simp add: locked_run_def)
  qed
qed


lemma locked_run_end_turn_locked:
  assumes "flow_inv s" "locked_run s"
  shows "locked_run (snd (end_turn_locked i out closure event t s))"
proof -
  obtain r s' where r: "end_turn_locked i out closure event t s = (r, s')" by (rule prod.exhaust)
  then show ?thesis
  proof (cases rule: end_turn_locked_cases)
    case ended_already
    with r assms show ?thesis by simp
  next
    case (ended j w s1 s2)
    have "locked_run s1" by (rule locked_run_end_turn [OF assms ended(1)])
    moreover have "fact_keys s2 = fact_keys s1 @ map (\<lambda>x. (x, FlowLanded, [])) []" "same_places s1 s2" "ft_turns s2 = ft_turns s1"
      using ended(3) by (simp_all add: same_places_def flow_simps split: option.split)
    ultimately have "locked_run s2"
      using locked_run_idle [of s1 s2 "\<lambda>x. x" FlowLanded "[]" "[]"] holder_cong [of s1 s2] by auto
    with locked_run_close ended(4) r show ?thesis by (simp split: option.split)
  qed
qed

lemma locked_run_withdraw:
  assumes "locked_run s"
  shows "locked_run (snd (withdraw_waiting chunk_id w t s))"
proof -
  have "locked_run (fold (\<lambda>i s. snd (close_submission i (withdrawal_value w) t s)) is s)" if "locked_run s" for "is" s
    using that by (induction "is" arbitrary: s) (simp_all add: locked_run_close)
  then show ?thesis using assms by (simp add: withdraw_as_fold)
qed

lemma locked_run_submit:
  assumes "flow_inv s" "locked_run s" "mintable v s"
  shows "locked_run (snd (submit v s))"
proof -
  obtain r s' where r: "submit v s = (r, s')" by (rule prod.exhaust)
  show ?thesis
  proof (cases r)
    case None
    with r submit_None assms(2) show ?thesis by (metis snd_conv)
  next
    case (Some sub)
    with r have s: "submit v s = (Some sub, s')" by simp
    obtain flows :: "flow list" where
      h: "ft_held s' = ft_held s @ map (\<lambda>f. (vs_submission_id v, fl_flow_id f)) flows" "ft_turns s' = ft_turns s"
      and k: "fact_keys s' = fact_keys s @ map (\<lambda>f. (fl_flow_id f, FlowSubmitted, vs_submission_id v)) flows"
      by (rule submit_effect [OF assms(1,3) s])
    have "tn_submission_id t \<noteq> vs_submission_id v" if "t \<in> set (ft_turns s)" for t
      using that flow_inv_D(6) [OF assms(1)] assms(3) unfolding mintable_def by (metis image_subset_iff)
    then have "holder s' f = holder s f" for f
      unfolding holder_def h(2) by (intro arg_cong [of _ _ "map_option tn_submission_id"] find_cong) (auto simp: h(1))
    with locked_run_idle [OF assms(2) k] r show ?thesis by simp
  qed
qed

lemma locked_run_land: "locked_run s \<Longrightarrow> locked_run (snd (write_landing landing rv t s))"
  by (rule locked_run_idle [of s _ "\<lambda>_. fl_flow_id (fg_flow landing)" FlowLanded "fg_submission_id landing" "[()]"])
    (simp_all add: land_frame holder_cong)

lemma flow_step_locked_run: "flow_step s s' \<Longrightarrow> flow_inv s \<Longrightarrow> locked_run s \<Longrightarrow> locked_run s'"
proof (induction rule: flow_step.induct)
  case (step_close i s w t)
  then show ?case by (simp add: close_waiting_def locked_run_close)
qed (simp_all add: locked_run_submit locked_run_take_turn locked_run_end_turn_locked locked_run_withdraw locked_run_land)

lemma reachable_locked_run: "flow_step\<^sup>*\<^sup>* no_flows s \<Longrightarrow> locked_run s"
proof (induction rule: rtranclp_induct)
  case base
  show ?case by (simp add: locked_run_def flow_record_def fact_keys_def holder_def no_flows_def)
next
  case (step y z)
  then show ?case using flow_step_locked_run reachable_inv by blast
qed

end
