(* ===== verification/Flow_Record.thy ===== *)
theory Flow_Record
  imports Flow_Lock
begin

text \<open>
  The flow tables as ledgers, and what that gives: a closed submission stays closed as it was, with
  the turns it had; a visit keeps its place; the terms of a landing are taken once.
\<close>

section \<open>The tables only grow\<close>

lemma flow_for_frame:
  "ft_submissions (snd (flow_for t r i s)) = ft_submissions s" "ft_held (snd (flow_for t r i s)) = ft_held s"
  "ft_closures (snd (flow_for t r i s)) = ft_closures s" "ft_terms (snd (flow_for t r i s)) = ft_terms s"
  "ft_turns (snd (flow_for t r i s)) = ft_turns s" "fact_keys (snd (flow_for t r i s)) = fact_keys s"
  "prefix (ft_flows s) (ft_flows (snd (flow_for t r i s)))"
  by (simp_all add: flow_for_def Let_def flow_simps split: option.split)

definition sameterms :: "flow_tables \<Rightarrow> flow_tables \<Rightarrow> bool" where
  "sameterms s s' \<longleftrightarrow> ft_submissions s' = ft_submissions s \<and> ft_held s' = ft_held s \<and> ft_closures s' = ft_closures s
     \<and> ft_terms s' = ft_terms s \<and> ft_turns s' = ft_turns s \<and> fact_keys s' = fact_keys s
     \<and> prefix (ft_flows s) (ft_flows s')"

lemma flows_fold_frame:
  "sameterms s (snd (fold (\<lambda>r (flows, s). let (f, s') = flow_for t r (fresh r) s in (flows @ [f], s')) rs (fs, s)))"
proof (induction rs arbitrary: fs s)
  case (Cons r rs)
  let ?f = "flow_for t r (fresh r) s"
  from Cons.IH [of "snd ?f" "fs @ [fst ?f]"] flow_for_frame [where t = t and r = r and i = "fresh r" and s = s] show ?case
    unfolding sameterms_def by (auto simp: case_prod_beta Let_def intro: prefix_order.trans)
qed (simp add: sameterms_def)

lemma flows_for_frame: "flows_for t fresh rs s = (fs, s') \<Longrightarrow> sameterms s s'"
  using flows_fold_frame [where fs = "[]" and rs = rs and s = s and t = t and fresh = fresh] by (simp add: flows_for_def)

definition grown :: "flow_tables \<Rightarrow> flow_tables \<Rightarrow> bool" where
  "grown s s' \<longleftrightarrow> prefix (ft_flows s) (ft_flows s') \<and> prefix (ft_submissions s) (ft_submissions s')
     \<and> prefix (ft_held s) (ft_held s') \<and> prefix (ft_closures s) (ft_closures s') \<and> prefix (ft_terms s) (ft_terms s')
     \<and> prefix (fact_keys s) (fact_keys s') \<and> prefix (map tn_turn_id (ft_turns s)) (map tn_turn_id (ft_turns s'))"

lemma grown_refl [simp]: "grown s s"
  by (simp add: grown_def)

lemma grown_trans: "grown s s' \<Longrightarrow> grown s' s'' \<Longrightarrow> grown s s''"
  unfolding grown_def by (metis prefix_order.trans)

lemma submit_grown: "grown s (snd (submit v s))"
proof (cases "\<exists>r\<in>set (ft_submissions s). visit_row (vs_chunk_id v) (vs_node_id v) (vs_epoch v) r \<and> fs_generation r = vs_generation v")
  case False
  define row where "row = \<lparr>fs_submission_id = vs_submission_id v, fs_chunk_id = vs_chunk_id v, fs_node_id = vs_node_id v,
       fs_epoch = vs_epoch v, fs_generation = vs_generation v, fs_arrival = next_arrival s, fs_submitted_at = vs_at v\<rparr>"
  obtain fs s2 where fl: "flows_for (vs_at v) (vs_flow_id v) (dedup (vs_resources v)) (s\<lparr>ft_submissions := ft_submissions s @ [row]\<rparr>) = (fs, s2)"
    by (rule prod.exhaust)
  from flows_for_frame [OF fl] False fl show ?thesis
    by (simp add: submit_def Let_def row_def grown_def sameterms_def write_facts_def flow_simps)
qed (simp add: submit_def)

lemma close_grown: "grown s (snd (close_submission i out t s))"
  using close_effect [of i out t s] by (auto simp: grown_def same_places_def)

lemma end_turn_locked_grown: "grown s (snd (end_turn_locked i out closure event t s))"
proof -
  obtain r s' where r: "end_turn_locked i out closure event t s = (r, s')" by (rule prod.exhaust)
  then show ?thesis
  proof (cases rule: end_turn_locked_cases)
    case (ended j w s1 s2)
    obtain row where e: "same_places s s1" "ft_turns s1 = map (end_row i out t) (ft_turns s)" "ft_closures s1 = ft_closures s"
      "ft_terms s1 = ft_terms s" "fact_keys s1 = fact_keys s @ map (\<lambda>f. (fl_flow_id f, FlowTurnEnded, j)) (flows_held s j)"
      by (rule end_turn_effect [OF ended(1)])
    have "grown s s1" by (simp add: grown_def e [unfolded same_places_def] comp_def)
    moreover have "grown s1 s2" using ended(3) by (simp add: grown_def flow_simps split: option.split)
    moreover have "grown s2 s'" using ended(4) close_grown by (simp split: option.split)
    ultimately show ?thesis using r grown_trans by (metis snd_conv)
  qed (use r in simp)
qed

lemma take_terms_grown: "prefix (ft_terms s) (ft_terms (take_terms row fs fr s))"
proof -
  have "prefix (ft_terms s) (ft_terms (fold (take_terms_for row fr) is s))" for "is" s
  proof (induction "is" arbitrary: s)
    case (Cons i "is")
    have "prefix (ft_terms s) (ft_terms (take_terms_for row fr i s))"
      by (simp add: take_terms_for_def split: option.split)
    with Cons.IH [of "take_terms_for row fr i s"] show ?case by (simp add: prefix_order.trans)
  qed simp
  then show ?thesis by (simp add: take_terms_def)
qed

lemma take_turn_grown: "grown s (snd (take_turn i po terms t turn_id s))"
proof (cases "find_submission s i")
  case (Some row)
  have "prefix (ft_terms s) (ft_terms (take_terms row fs terms s'))" if "ft_terms s' = ft_terms s" for fs s'
    using take_terms_grown [of s'] that by simp
  then show ?thesis
    by (simp add: take_turn_def Some Let_def grown_def write_facts_def flow_simps take_terms_grown)
qed (simp add: take_turn_def)

lemma withdraw_grown: "grown s (snd (withdraw_waiting chunk_id w t s))"
proof -
  have "grown s (fold (\<lambda>i s. snd (close_submission i (withdrawal_value w) t s)) is s)" for "is" s
    by (induction "is" arbitrary: s) (auto intro: grown_trans close_grown)
  then show ?thesis by (simp add: withdraw_as_fold)
qed

lemma land_grown: "grown s (snd (write_landing landing rv t s))"
  using land_frame [where s = s and landing = landing and rv = rv and t = t] by (simp add: grown_def same_places_def)

lemma flow_step_grown: "flow_step s s' \<Longrightarrow> grown s s'"
  by (induction rule: flow_step.induct)
    (simp_all add: submit_grown take_turn_grown end_turn_locked_grown close_waiting_def close_grown withdraw_grown land_grown)

interpretation flow_submissions: ledger flow_step ft_submissions
  by unfold_locales (simp add: flow_step_grown [unfolded grown_def])

interpretation flow_places: ledger flow_step ft_held
  by unfold_locales (simp add: flow_step_grown [unfolded grown_def])

interpretation flow_closures: ledger flow_step ft_closures
  by unfold_locales (simp add: flow_step_grown [unfolded grown_def])

interpretation flow_terms: ledger flow_step ft_terms
  by unfold_locales (simp add: flow_step_grown [unfolded grown_def])

interpretation flow_facts: ledger flow_step fact_keys
  by unfold_locales (simp add: flow_step_grown [unfolded grown_def])

section \<open>A closed submission is final\<close>

definition turns_of :: "ident \<Rightarrow> flow_tables \<Rightarrow> turn list" where
  "turns_of i s = filter (\<lambda>t. tn_submission_id t = i) (ft_turns s)"

lemma closure_kept:
  assumes "flow_step\<^sup>*\<^sup>* s s'" "closure_of s i = Some c"
  shows "closure_of s' i = Some c"
  using flow_closures.steps_append [OF assms(1)] assms(2) by (auto simp: closure_of_def prefix_def)

lemma close_turns: "turns_of i (snd (close_submission j out t s)) = turns_of i s"
  by (simp add: turns_of_def close_keeps_turns)

lemma withdraw_turns: "turns_of i (snd (withdraw_waiting chunk_id w t s)) = turns_of i s"
proof -
  have "turns_of i (fold (\<lambda>i s. snd (close_submission i (withdrawal_value w) t s)) is s) = turns_of i s" for "is" s
    by (induction "is" arbitrary: s) (simp_all add: close_turns)
  then show ?thesis by (simp add: withdraw_as_fold)
qed

lemma end_turn_turns:
  assumes "flow_inv s" "\<not> is_open s i"
  shows "turns_of i (snd (end_turn_locked k out closure event t s)) = turns_of i s"
proof -
  obtain r s' where r: "end_turn_locked k out closure event t s = (r, s')" by (rule prod.exhaust)
  then show ?thesis
  proof (cases rule: end_turn_locked_cases)
    case (ended j w s1 s2)
    obtain row where row: "row \<in> set (ft_turns s)" "tn_turn_id row = k" "turn_open row" "tn_submission_id row = j"
      and e: "ft_turns s1 = map (end_row k out t) (ft_turns s)"
      by (rule end_turn_effect [OF ended(1)])
    have "j \<noteq> i" using flow_inv_D(9) [OF assms(1) row(1,3)] row(4) assms(2) by auto
    have keep: "end_row k out t u = u" if "u \<in> set (ft_turns s)" "tn_submission_id u = i" for u
    proof (cases "tn_turn_id u = k")
      case True
      with that row flow_inv_D(5) [OF assms(1)] have "u = row" by (metis distinct_map inj_onD)
      with row(4) that(2) \<open>j \<noteq> i\<close> show ?thesis by simp
    qed (simp add: end_row_def)
    have "filter P (map f xs) = filter P xs" if "\<And>u. u \<in> set xs \<Longrightarrow> P (f u) = P u" "\<And>u. u \<in> set xs \<Longrightarrow> P u \<Longrightarrow> f u = u"
      for P :: "turn \<Rightarrow> bool" and f xs
      using that by (induction xs) auto
    then have "turns_of i s1 = turns_of i s" using keep by (simp add: turns_of_def e)
    moreover have "turns_of i s2 = turns_of i s1" using ended(3) by (simp add: turns_of_def split: option.split)
    ultimately show ?thesis using ended(4) r by (simp add: close_turns split: option.split)
  qed (use r in simp)
qed

lemma take_turn_turns:
  assumes "\<not> is_open s i"
  shows "turns_of i (snd (take_turn j po terms t turn_id s)) = turns_of i s"
proof -
  obtain r s' where r: "take_turn j po terms t turn_id s = (r, s')" by (rule prod.exhaust)
  show ?thesis
  proof (cases r)
    case None
    with r take_turn_None show ?thesis by (metis snd_conv)
  next
    case (Some turn)
    with r obtain "tn_submission_id turn = j" "is_open s j" "ft_turns s' = ft_turns s @ [turn]"
      by (metis take_turn_effect turn.simps(2))
    with assms r show ?thesis by (auto simp: turns_of_def)
  qed
qed

lemma submit_turns: "turns_of i (snd (submit v s)) = turns_of i s"
  by (auto simp: submit_def Let_def turns_of_def write_facts_def flow_simps sameterms_def dest!: flows_for_frame split: prod.split)

lemma land_turns: "turns_of i (snd (write_landing landing rv t s)) = turns_of i s"
  by (simp add: turns_of_def land_frame)

lemma flow_step_turns: "flow_step s s' \<Longrightarrow> flow_inv s \<Longrightarrow> \<not> is_open s i \<Longrightarrow> turns_of i s' = turns_of i s"
  by (induction rule: flow_step.induct)
    (simp_all add: submit_turns take_turn_turns end_turn_turns close_waiting_def close_turns withdraw_turns land_turns)

lemma flow_steps_closed:
  assumes "flow_step\<^sup>*\<^sup>* s s'" "flow_inv s" "\<not> is_open s i"
  shows "turns_of i s' = turns_of i s \<and> closure_of s' i = closure_of s i"
  using assms
proof (induction rule: rtranclp_induct)
  case (step y z)
  from step.prems(2) obtain c where "closure_of s i = Some c" by (auto simp: is_open_def)
  with closure_kept step.hyps(1) have "closure_of y i = Some c" by blast
  moreover from this closure_kept [of y z] step.hyps(2) have "closure_of z i = Some c" by blast
  moreover have "flow_inv y" using flow_steps_inv step.hyps(1) step.prems(1) by blast
  moreover have "\<not> is_open y i" using \<open>closure_of y i = Some c\<close> by (simp add: is_open_def)
  ultimately show ?case using step flow_step_turns [OF step.hyps(2)] by simp
qed simp

section \<open>Two submissions on one branch\<close>

definition demo_visit :: "string \<Rightarrow> string \<Rightarrow> visit_submission" where
  "demo_visit chunk i = \<lparr>vs_chunk_id = chunk, vs_node_id = ''deliver'', vs_epoch = 1, vs_generation = 0,
     vs_resources = [\<lparr>res_repository_id = ''repo'', res_branch = ''main''\<rparr>], vs_at = 0, vs_submission_id = i,
     vs_flow_id = (\<lambda>_. ''flow_'' @ i)\<rparr>"

definition demo_line :: flow_tables where
  "demo_line = snd (submit (demo_visit ''c2'' ''s2'') (snd (submit (demo_visit ''c1'' ''s1'') no_flows)))"

definition demo_turning :: flow_tables where
  "demo_turning = snd (take_turn ''s1'' {} [] 1 ''t1'' demo_line)"

definition demo_ended :: flow_tables where
  "demo_ended = snd (end_turn_locked ''t1'' ''landed'' (Some ''landed'') None 2 demo_turning)"

lemmas flow_eval = submit_def demo_visit_def no_flows_def Let_def flows_for_def flow_for_def write_facts_def insert_fact_def
  next_arrival_def dedup_def col_max_def visit_row_def flow_res_def resource_def next_fact_id_def take_turn_def
  find_submission_def flows_held_def is_open_def closure_of_def has_open_turn_def flow_busy_def turn_open_def ahead_on_def
  take_terms_def end_turn_locked_def end_turn_def end_row_def close_when_def close_submission_def held_by_def
  take_terms_for_def terms_of_def earlier_terms_def

definition demo_flow :: flow where
  "demo_flow = \<lparr>fl_flow_id = ''flow_s1'', fl_repository_id = ''repo'', fl_branch = ''main'', fl_created_at = 0\<rparr>"

definition demo_row :: "string \<Rightarrow> string \<Rightarrow> int \<Rightarrow> submission_row" where
  "demo_row chunk i n = \<lparr>fs_submission_id = i, fs_chunk_id = chunk, fs_node_id = ''deliver'', fs_epoch = 1,
     fs_generation = 0, fs_arrival = n, fs_submitted_at = 0\<rparr>"

definition demo_fact :: "int \<Rightarrow> string \<Rightarrow> string \<Rightarrow> flow_change_kind \<Rightarrow> instant \<Rightarrow> string option \<Rightarrow> flow_fact" where
  "demo_fact n chunk i k t out = \<lparr>ff_id = n, ff_flow_id = ''flow_s1'', ff_submission_id = i, ff_chunk_id = chunk, ff_kind = k,
     ff_at = t, ff_outcome = out, ff_revision = None, ff_closure = None\<rparr>"

definition demo_second :: flow_tables where
  "demo_second = snd (take_turn ''s2'' {} [] 3 ''t2'' demo_ended)"

lemma demo_line_value: "demo_line = \<lparr>ft_flows = [demo_flow], ft_submissions = [demo_row ''c1'' ''s1'' 1, demo_row ''c2'' ''s2'' 2],
    ft_held = [(''s1'', ''flow_s1''), (''s2'', ''flow_s1'')], ft_closures = [], ft_terms = [], ft_turns = [],
    ft_facts = [demo_fact 1 ''c1'' ''s1'' FlowSubmitted 0 None, demo_fact 2 ''c2'' ''s2'' FlowSubmitted 0 None], ft_events = []\<rparr>"
  by (simp add: demo_line_def flow_eval demo_flow_def demo_row_def demo_fact_def)

lemma demo_turning_value: "demo_turning = demo_line\<lparr>
    ft_turns := [\<lparr>tn_turn_id = ''t1'', tn_submission_id = ''s1'', tn_started_at = 1, tn_ended_at = None, tn_outcome = None\<rparr>],
    ft_facts := ft_facts demo_line @ [demo_fact 3 ''c1'' ''s1'' FlowTurnStarted 1 None]\<rparr>"
  by (simp add: demo_turning_def demo_line_value flow_eval demo_flow_def demo_row_def demo_fact_def)

lemma demo_ended_value: "demo_ended = demo_line\<lparr>
    ft_closures := [(''s1'', \<lparr>cl_outcome = ''landed'', cl_closed_at = 2\<rparr>)],
    ft_turns := [\<lparr>tn_turn_id = ''t1'', tn_submission_id = ''s1'', tn_started_at = 1, tn_ended_at = Some 2, tn_outcome = Some ''landed''\<rparr>],
    ft_facts := ft_facts demo_line @ [demo_fact 3 ''c1'' ''s1'' FlowTurnStarted 1 None,
      demo_fact 4 ''c1'' ''s1'' FlowTurnEnded 2 (Some ''landed''), demo_fact 5 ''c1'' ''s1'' FlowWithdrawn 2 (Some ''landed'')]\<rparr>"
  by (simp add: demo_ended_def demo_turning_value demo_line_value flow_eval demo_flow_def demo_row_def demo_fact_def)

lemmas demo_values = demo_line_value demo_turning_value demo_ended_value

lemma flow_then: "flow_step\<^sup>*\<^sup>* s s' \<Longrightarrow> flow_step s' s'' \<Longrightarrow> flow_step\<^sup>*\<^sup>* s s''"
  by (rule rtranclp.rtrancl_into_rtrancl)

lemma demo_steps: "flow_step\<^sup>*\<^sup>* no_flows demo_line" "flow_step\<^sup>*\<^sup>* no_flows demo_turning" "flow_step\<^sup>*\<^sup>* no_flows demo_ended"
proof -
  have 1: "flow_step no_flows (snd (submit (demo_visit ''c1'' ''s1'') no_flows))"
    by (rule step_submit) (simp add: mintable_def demo_visit_def no_flows_def)
  have "mintable (demo_visit ''c2'' ''s2'') (snd (submit (demo_visit ''c1'' ''s1'') no_flows))"
    by (simp add: mintable_def flow_eval)
  from flow_then [OF flow_then [OF rtranclp.rtrancl_refl 1] step_submit [OF this]]
  show 2: "flow_step\<^sup>*\<^sup>* no_flows demo_line" by (simp add: demo_line_def)
  have "''t1'' \<notin> tn_turn_id ` set (ft_turns demo_line)" by (simp add: demo_values)
  from flow_then [OF 2 step_take_turn [OF this]]
  show 3: "flow_step\<^sup>*\<^sup>* no_flows demo_turning" by (simp add: demo_turning_def)
  from flow_then [OF this step_end_turn]
  show "flow_step\<^sup>*\<^sup>* no_flows demo_ended" by (simp add: demo_ended_def)
qed

section \<open>Properties\<close>

text \<open>C23: Each delivery flow is a lock: in every reachable state the flow's record, its facts in order,
  is a run of a lock that a turn's start takes and its end gives back, and whoever holds the
  lock at the end of the run is the one submission holding the flow that has an open turn.\<close>

theorem flow_record_is_a_lock_run:
  assumes "flow_step\<^sup>*\<^sup>* no_flows s"
  shows "lock_run None (flow_record s f) = Some (holder s f)
     \<and> (\<forall>i. holder s f = Some i \<longleftrightarrow> (i, f) \<in> set (ft_held s) \<and> has_open_turn s i)"
  using reachable_locked_run [OF assms] holder_iff [OF reachable_inv [OF assms]]
  by (auto simp: locked_run_def has_open_turn_def)

theorem flow_record_is_a_lock_run_witness:
  "flow_record demo_ended ''flow_s1'' = [(FlowSubmitted, ''s1''), (FlowSubmitted, ''s2''), (FlowTurnStarted, ''s1''),
     (FlowTurnEnded, ''s1''), (FlowWithdrawn, ''s1'')]
   \<and> lock_run None (flow_record demo_turning ''flow_s1'') = Some (holder demo_turning ''flow_s1'')
   \<and> holder demo_turning ''flow_s1'' = Some ''s1''"
  using flow_record_is_a_lock_run [OF demo_steps(2), of "''flow_s1''"] by (intro conjI) (simp_all add: flow_record_def fact_keys_def demo_values demo_fact_def holder_def turn_open_def)

text \<open>C24: A closed submission is final: through any further transactions of the flow store it keeps its
  outcome and exactly the turns it had, and it has no open turn.\<close>

theorem closed_submission_is_final:
  assumes "flow_step\<^sup>*\<^sup>* no_flows s" "flow_step\<^sup>*\<^sup>* s s'" "\<not> is_open s i"
  shows "closure_of s' i = closure_of s i \<and> turns_of i s' = turns_of i s \<and> \<not> has_open_turn s' i"
proof -
  have "flow_inv s" using reachable_inv assms(1) by blast
  note same = flow_steps_closed [OF assms(2) this assms(3)]
  moreover have "flow_inv s'" using flow_steps_inv assms(2) \<open>flow_inv s\<close> by blast
  ultimately show ?thesis using assms(3) flow_inv_D(9) [of s'] by (auto simp: has_open_turn_def is_open_def)
qed

theorem closed_submission_is_final_witness:
  "map_option cl_outcome (closure_of demo_second ''s1'') = Some ''landed''
   \<and> map tn_turn_id (turns_of ''s1'' demo_second) = [''t1''] \<and> \<not> has_open_turn demo_second ''s1''"
proof -
  have "''t2'' \<notin> tn_turn_id ` set (ft_turns demo_ended)" by (simp add: demo_values)
  from flow_then [OF rtranclp.rtrancl_refl step_take_turn [OF this]]
  have step: "flow_step\<^sup>*\<^sup>* demo_ended demo_second" by (simp add: demo_second_def)
  have "\<not> is_open demo_ended ''s1''" by (simp add: is_open_def closure_of_def demo_values)
  note closed_submission_is_final [OF demo_steps(3) step this]
  moreover have "map_option cl_outcome (closure_of demo_ended ''s1'') = Some ''landed''
    \<and> map tn_turn_id (turns_of ''s1'' demo_ended) = [''t1'']"
    by (simp add: closure_of_def turns_of_def demo_values)
  ultimately show ?thesis by simp
qed

end
