(* ===== verification/Flow_Lines.thy ===== *)
theory Flow_Lines
  imports Flow_Record Repositories Completion
begin

text \<open>
  The reconcile of a tenant's delivery lines (\<open>hub/domain/delivery/reconcile.py\<close>) and the driver that
  ticks it (\<open>hub/delivery/flow_driver.py\<close>): visits submitted, departed submissions closed, turns
  admitted, turns no task answers for ended. What a pass reads outside the locks it takes is a record
  of reads; what it reads under a chunk's lock is another, by chunk. Between two of its transactions
  others may commit: \<open>between\<close> is what they do to the tables at that point of the pass.
\<close>

section \<open>Where a chunk stands\<close>

record standing =
  stg_chunk :: chunk
  stg_graph :: graph
  stg_node :: node
  stg_epoch :: int
  stg_entered_at :: instant

definition standing_holds :: "standing \<Rightarrow> chunk option \<Rightarrow> chunk_facts option \<Rightarrow> bool" where
  "standing_holds st chunk facts \<longleftrightarrow>
     (case (chunk, facts) of
        (Some c, Some f) \<Rightarrow> ch_graph_id c = graph_id (stg_graph st) \<and> delivering_at f (node_id (stg_node st)) (stg_epoch st)
      | _ \<Rightarrow> False)"

definition hub_node_of :: "chunk_facts \<Rightarrow> graph option \<Rightarrow> node option" where
  "hub_node_of f g =
     (case (g, current_node_id f) of
        (Some g, Some nid) \<Rightarrow> (case node_by_id g nid of None \<Rightarrow> None | Some n \<Rightarrow> if is_hub_command_node n then Some n else None)
      | _ \<Rightarrow> None)"

definition entered_at :: "chunk_facts \<Rightarrow> instant option" where
  "entered_at f = option_max (map tr_recorded_at (cf_transitions f) @ map mg_recorded_at (cf_migrations f)
     @ map rs_recorded_at (cf_restarts f))"

record line_reads =
  rd_statuses :: "(ident \<times> chunk_status) list"
  rd_facts :: "ident \<Rightarrow> chunk_facts option"
  rd_outside :: "ident \<Rightarrow> chunk_facts option"
  rd_chunk :: "ident \<Rightarrow> chunk option"
  rd_graph :: "ident \<Rightarrow> graph option"
  rd_artifacts :: "ident \<Rightarrow> stored_artifact list"
  rd_slug_of :: "ident \<Rightarrow> string option"
  rd_links_of :: "ident \<Rightarrow> (ident \<times> int option) list"
  rd_repositories :: "configured_repository list"
  rd_forges :: "configured_forge list"
  rd_catalogue :: catalogue
  rd_digest :: "string \<Rightarrow> string"

definition delivering_ids :: "line_reads \<Rightarrow> ident list" where
  "delivering_ids r = map fst (filter (\<lambda>x. snd x = Delivering) (rd_statuses r))"

definition standing_at :: "line_reads \<Rightarrow> ident \<Rightarrow> standing option" where
  "standing_at r chunk_id =
     (case (rd_facts r chunk_id, rd_chunk r chunk_id) of
        (Some f, Some c) \<Rightarrow>
          (case rd_graph r (ch_graph_id c) of
             None \<Rightarrow> None
           | Some g \<Rightarrow>
               (case (hub_node_of f (Some g), entered_at f) of
                  (Some n, Some i) \<Rightarrow> Some \<lparr>stg_chunk = c, stg_graph = g, stg_node = n, stg_epoch = epoch_floor f, stg_entered_at = i\<rparr>
                | _ \<Rightarrow> None))
      | _ \<Rightarrow> None)"

definition standing_visits :: "line_reads \<Rightarrow> standing list" where
  "standing_visits r = sort_key (\<lambda>st. (stg_entered_at st, ch_chunk_id (stg_chunk st)))
     (List.map_filter (standing_at r) (delivering_ids r))"

definition visit_key :: "standing \<Rightarrow> ident \<times> ident \<times> int" where
  "visit_key st = (ch_chunk_id (stg_chunk st), node_id (stg_node st), stg_epoch st)"

section \<open>Submitting a visit\<close>

text \<open>\<open>_generation\<close>: 0 when never submitted, the next when the newest was superseded, else none.\<close>

definition generation_of :: "flow_tables \<Rightarrow> ident \<times> ident \<times> int \<Rightarrow> int option" where
  "generation_of s k =
     (case k of (chunk_id, nid, epoch) \<Rightarrow>
        (case submission_for_visit s chunk_id nid epoch of
           None \<Rightarrow> Some 0
         | Some latest \<Rightarrow> if sub_closed latest = Some TURN_SUPERSEDED then Some (sub_generation latest + 1) else None))"

text \<open>What a submission mints: its id, a flow id for each resource that has no flow yet, and its instant,
  by chunk.\<close>

record line_mints =
  mn_submission_id :: "ident \<Rightarrow> ident"
  mn_flow_id :: "ident \<Rightarrow> flow_resource \<Rightarrow> ident"
  mn_at :: "ident \<Rightarrow> instant"

record locked_reads =
  lk_chunk :: "ident \<Rightarrow> chunk option"
  lk_facts :: "ident \<Rightarrow> chunk_facts option"

definition submission_draft :: "line_mints \<Rightarrow> standing \<Rightarrow> int \<Rightarrow> flow_resource list \<Rightarrow> visit_submission" where
  "submission_draft mn st generation resources =
     (let c = ch_chunk_id (stg_chunk st) in
      \<lparr>vs_chunk_id = c, vs_node_id = node_id (stg_node st), vs_epoch = stg_epoch st, vs_generation = generation,
       vs_resources = resources, vs_at = mn_at mn c, vs_submission_id = mn_submission_id mn c, vs_flow_id = mn_flow_id mn c\<rparr>)"

text \<open>The unit of \<open>submit\<close>, under the chunk's lock.\<close>

definition submit_locked ::
  "chunk option \<Rightarrow> chunk_facts option \<Rightarrow> line_mints \<Rightarrow> standing \<Rightarrow> flow_resource list \<Rightarrow> flow_tables
     \<Rightarrow> submission option \<times> flow_tables" where
  "submit_locked chunk facts mn st resources s =
     (if \<not> standing_holds st chunk facts then (None, s)
      else case generation_of s (visit_key st) of
        None \<Rightarrow> (None, s)
      | Some generation \<Rightarrow> Flow_Store.submit (submission_draft mn st generation resources) s)"

datatype pass_point = BeforeVisit ident | BeforeLock ident | BeforeTurns | BeforeClose ident | BeforeEnd ident
  | BeforeSubmissions | BeforeTurn ident

datatype visit_outcome = VisitSubmitted submission | VisitSkipped | VisitRefusedAs visit_refusal | VisitFailed ident
  | ActionMissing node int

definition resolved_here :: "line_reads \<Rightarrow> standing \<Rightarrow> visit_answer" where
  "resolved_here r st =
     (let c = stg_chunk st; action = node_action (stg_node st) in
      resolve_visit (rd_artifacts r (ch_chunk_id c)) action
        (case action of None \<Rightarrow> None | Some a \<Rightarrow> catalogue_get (rd_catalogue r) a)
        (LandingProject_read (ch_project_id c) (rd_slug_of r) (rd_links_of r)) (ch_minted_at c)
        (rd_repositories r) (rd_forges r))"

definition submit_standing ::
  "line_reads \<Rightarrow> locked_reads \<Rightarrow> line_mints \<Rightarrow> (pass_point \<Rightarrow> flow_tables \<Rightarrow> flow_tables) \<Rightarrow> standing \<Rightarrow> flow_tables
     \<Rightarrow> visit_outcome \<times> flow_tables" where
  "submit_standing r lk mn between st s =
     (let c = ch_chunk_id (stg_chunk st); s1 = between (BeforeVisit c) s in
      if generation_of s1 (visit_key st) = None then (VisitSkipped, s1)
      else case resolved_here r st of
        VisitRaises missing \<Rightarrow> (VisitFailed missing, s1)
      | VisitRefused refusal \<Rightarrow> (VisitRefusedAs refusal, s1)
      | VisitResolved v \<Rightarrow>
          (case submit_locked (lk_chunk lk c) (lk_facts lk c) mn st
                  (visit_resources (rd_digest r) (rd_artifacts r c) v) (between (BeforeLock c) s1) of
             (None, s2) \<Rightarrow> (VisitSkipped, s2)
           | (Some sub, s2) \<Rightarrow> (VisitSubmitted sub, s2)))"

text \<open>\<open>_escalate_actionless\<close>: the node and epoch a person is called to, when they are.\<close>

definition actionless_node :: "chunk_facts \<Rightarrow> graph option \<Rightarrow> (node \<times> int) option" where
  "actionless_node f g =
     (case g of None \<Rightarrow> None
      | Some g \<Rightarrow> (case hub_advance_node f g of
          None \<Rightarrow> None
        | Some n \<Rightarrow> if node_action n \<noteq> None \<or> open_escalation f \<noteq> None then None
                    else if awaits_exit_from f n (epoch_floor f) then Some (n, epoch_floor f) else None))"

definition escalate_actionless :: "line_reads \<Rightarrow> ident list \<Rightarrow> (ident \<times> node \<times> int) list" where
  "escalate_actionless r pinned =
     List.map_filter (\<lambda>chunk_id. case (rd_chunk r chunk_id, rd_facts r chunk_id) of
         (Some c, Some f) \<Rightarrow> map_option (Pair chunk_id) (actionless_node f (rd_graph r (ch_graph_id c)))
       | _ \<Rightarrow> None) pinned"

definition submit_isolated ::
  "line_reads \<Rightarrow> locked_reads \<Rightarrow> line_mints \<Rightarrow> (pass_point \<Rightarrow> flow_tables \<Rightarrow> flow_tables) \<Rightarrow> standing \<Rightarrow> flow_tables
     \<Rightarrow> visit_outcome \<times> flow_tables" where
  "submit_isolated r lk mn between st s =
     (if node_action (stg_node st) = None then
        ((case actionless_node (or_default (rd_facts r (ch_chunk_id (stg_chunk st)))) (Some (stg_graph st)) of
            None \<Rightarrow> VisitSkipped | Some (n, epoch) \<Rightarrow> ActionMissing n epoch), s)
      else submit_standing r lk mn between st s)"

fun submit_each ::
  "line_reads \<Rightarrow> locked_reads \<Rightarrow> line_mints \<Rightarrow> (pass_point \<Rightarrow> flow_tables \<Rightarrow> flow_tables) \<Rightarrow> standing list \<Rightarrow> flow_tables
     \<Rightarrow> visit_outcome list \<times> flow_tables" where
  "submit_each r lk mn between [] s = ([], s)"
| "submit_each r lk mn between (st # sts) s =
     (let (out, s1) = submit_isolated r lk mn between st s; (outs, s2) = submit_each r lk mn between sts s1
      in (out # outs, s2))"

section \<open>Closing the departed\<close>

definition reconcile_facts :: "line_reads \<Rightarrow> ident \<Rightarrow> chunk_facts" where
  "reconcile_facts r chunk_id =
     or_default (if chunk_id \<in> set (delivering_ids r) \<and> rd_facts r chunk_id \<noteq> None then rd_facts r chunk_id
                 else rd_outside r chunk_id)"

fun close_each ::
  "(ident \<Rightarrow> chunk_facts) \<Rightarrow> ident set \<Rightarrow> instant \<Rightarrow> (pass_point \<Rightarrow> flow_tables \<Rightarrow> flow_tables) \<Rightarrow> submission list
     \<Rightarrow> flow_tables \<Rightarrow> (flow_fact_written list list \<times> submission list) \<times> flow_tables" where
  "close_each facts turning i between [] s = (([], []), s)"
| "close_each facts turning i between (sub # subs) s =
     (case withdrawal_for (facts (sub_chunk_id sub)) sub of
        None \<Rightarrow> (let ((closed, still), s') = close_each facts turning i between subs s in ((closed, sub # still), s'))
      | Some w \<Rightarrow>
          if sub_submission_id sub \<in> turning
          then (let ((closed, still), s') = close_each facts turning i between subs s in ((closed, sub # still), s'))
          else
            let (written, s1) = close_waiting (sub_submission_id sub) w i (between (BeforeClose (sub_submission_id sub)) s);
                ((closed, still), s') = close_each facts turning i between subs s1
            in (((case written of None \<Rightarrow> closed | Some fs \<Rightarrow> fs # closed), still), s'))"

definition turning_now :: "flow_tables \<Rightarrow> ident set" where
  "turning_now s = tn_submission_id ` set (open_turns s)"

definition close_departed ::
  "line_reads \<Rightarrow> instant \<Rightarrow> (pass_point \<Rightarrow> flow_tables \<Rightarrow> flow_tables) \<Rightarrow> submission list \<Rightarrow> flow_tables
     \<Rightarrow> (flow_fact_written list list \<times> submission list) \<times> flow_tables" where
  "close_departed r i between subs s =
     (let s1 = between BeforeTurns s in close_each (reconcile_facts r) (turning_now s1) i between subs s1)"

section \<open>The reconcile\<close>

record reconciliation =
  rec_outcomes :: "visit_outcome list"
  rec_submitted :: "submission list"
  rec_withdrawn :: "flow_fact_written list list"
  rec_still_open :: "submission list"
  rec_floor :: int
  rec_written :: "flow_fact_written list"

definition submitted_of :: "visit_outcome list \<Rightarrow> submission list" where
  "submitted_of outs = List.map_filter (\<lambda>out. case out of VisitSubmitted sub \<Rightarrow> Some sub | _ \<Rightarrow> None) outs"

definition visits_due :: "line_reads \<Rightarrow> submission list \<Rightarrow> standing list" where
  "visits_due r subs =
     filter (\<lambda>st. visit_key st \<notin> set (map (\<lambda>sub. (sub_chunk_id sub, sub_node_id sub, sub_epoch sub)) subs)) (standing_visits r)"

definition next_floor :: "int \<Rightarrow> submission list \<Rightarrow> submission list \<Rightarrow> int" where
  "next_floor low here subs =
     (let open_arrivals = map sub_arrival here in
      if open_arrivals \<noteq> [] then Min (set open_arrivals)
      else if subs = [] then low else Max (set (map (\<lambda>sub. sub_arrival sub + 1) subs)))"

definition reconcile ::
  "line_reads \<Rightarrow> locked_reads \<Rightarrow> line_mints \<Rightarrow> instant \<Rightarrow> (pass_point \<Rightarrow> flow_tables \<Rightarrow> flow_tables) \<Rightarrow> int \<Rightarrow> flow_tables
     \<Rightarrow> reconciliation \<times> flow_tables" where
  "reconcile r lk mn i between low s =
     (let subs = open_submissions_from low s;
          (outs, s1) = submit_each r lk mn between (visits_due r subs) s;
          submitted = submitted_of outs;
          ((withdrawn, still), s2) = close_departed r i between subs s1
      in (\<lparr>rec_outcomes = outs, rec_submitted = submitted, rec_withdrawn = withdrawn, rec_still_open = still,
           rec_floor = next_floor low (still @ submitted) subs,
           rec_written = concat (map (\<lambda>sub. written_on sub FlowSubmitted None) submitted) @ concat withdrawn\<rparr>, s2))"

section \<open>Turns no task answers for\<close>

definition interrupted_event :: "turn \<Rightarrow> ident option \<Rightarrow> ident option \<Rightarrow> turn_event" where
  "interrupted_event t chunk_id name =
     \<lparr>te_kind = ''turn-interrupted'', te_chunk_id = chunk_id, te_node_name = name,
      te_message = ''turn '' @ tn_turn_id t @ '' ended interrupted: no running task answers for it''\<rparr>"

fun end_each ::
  "(ident \<Rightarrow> submission option) \<Rightarrow> (ident \<Rightarrow> chunk_facts option) \<Rightarrow> (ident \<times> ident \<Rightarrow> ident option) \<Rightarrow> instant
     \<Rightarrow> (pass_point \<Rightarrow> flow_tables \<Rightarrow> flow_tables) \<Rightarrow> turn list \<Rightarrow> flow_tables \<Rightarrow> flow_fact_written list list \<times> flow_tables" where
  "end_each subs facts names i between [] s = ([], s)"
| "end_each subs facts names i between (t # ts) s =
     (let s0 = between (BeforeEnd (tn_turn_id t)) s;
          (written, s1) =
            (case subs (tn_submission_id t) of
               None \<Rightarrow> end_turn_interrupted (tn_turn_id t) None (interrupted_event t None None) i s0
             | Some sub \<Rightarrow>
                 end_turn_locked (tn_turn_id t) TURN_INTERRUPTED
                   (map_option withdrawal_value (withdrawal_for (or_default (facts (sub_chunk_id sub))) sub))
                   (Some (interrupted_event t (Some (sub_chunk_id sub)) (names (sub_chunk_id sub, sub_node_id sub)))) i s0);
          (ends, s') = end_each subs facts names i between ts s1
      in ((case written of None \<Rightarrow> ends | Some fs \<Rightarrow> fs # ends), s'))"

definition end_unanswered ::
  "instant option \<Rightarrow> ident set \<Rightarrow> (ident \<Rightarrow> chunk_facts option) \<Rightarrow> (ident \<Rightarrow> graph option) \<Rightarrow> instant
     \<Rightarrow> (pass_point \<Rightarrow> flow_tables \<Rightarrow> flow_tables) \<Rightarrow> flow_tables \<Rightarrow> flow_fact_written list list \<times> flow_tables" where
  "end_unanswered started_before running facts graph_of i between s =
     (let turns = filter (\<lambda>t. tn_turn_id t \<notin> running
            \<and> (case started_before of None \<Rightarrow> True | Some b \<Rightarrow> tn_started_at t < b)) (open_turns s)
      in if turns = [] then ([], s)
         else let s1 = between BeforeSubmissions s; subs = open_submissions_from 0 s1
              in end_each (\<lambda>j. List.find (\<lambda>sub. sub_submission_id sub = j) subs) facts
                   (\<lambda>k. map_option node_name (line_nodes graph_of k)) i between turns s1)"

definition recover_turns ::
  "(ident \<Rightarrow> chunk_facts option) \<Rightarrow> (ident \<Rightarrow> graph option) \<Rightarrow> instant \<Rightarrow> (pass_point \<Rightarrow> flow_tables \<Rightarrow> flow_tables)
     \<Rightarrow> flow_tables \<Rightarrow> nat \<times> flow_tables" where
  "recover_turns facts graph_of i between s =
     (let (ends, s') = end_unanswered None {} facts graph_of i between s in (length ends, s'))"

section \<open>Admission\<close>

definition candidate_terms :: "line_reads \<Rightarrow> submission \<Rightarrow> landing_terms list" where
  "candidate_terms r sub =
     (let project = LandingProject_read (case rd_chunk r (sub_chunk_id sub) of None \<Rightarrow> None | Some c \<Rightarrow> ch_project_id c)
            (rd_slug_of r) (rd_links_of r)
      in map (\<lambda>repository_id. LandingTerms_candidate repository_id
              (List.find (\<lambda>row. cr_repository_id row = repository_id) (rev (rd_repositories r)))
              (lp_positions project repository_id))
           (sorted_list_of_set (fl_repository_id ` set (sub_flows sub))))"

fun take_each ::
  "line_reads \<Rightarrow> ident set \<Rightarrow> (ident \<Rightarrow> instant) \<Rightarrow> (ident \<Rightarrow> ident) \<Rightarrow> (pass_point \<Rightarrow> flow_tables \<Rightarrow> flow_tables)
     \<Rightarrow> submission list \<Rightarrow> flow_tables \<Rightarrow> admitted_turn list \<times> flow_tables" where
  "take_each r passed_over clock turn_id between [] s = ([], s)"
| "take_each r passed_over clock turn_id between (sub # subs) s =
     (let i = sub_submission_id sub;
          (taken, s1) = take_turn i passed_over (candidate_terms r sub) (clock i) (turn_id i) (between (BeforeTurn i) s);
          (rest, s2) = take_each r passed_over clock turn_id between subs s1
      in ((case taken of None \<Rightarrow> rest | Some t \<Rightarrow> \<lparr>adm_turn = t, adm_submission = sub\<rparr> # rest), s2))"

definition chunk_graph :: "line_reads \<Rightarrow> ident \<Rightarrow> graph option" where
  "chunk_graph r chunk_id = (case rd_chunk r chunk_id of None \<Rightarrow> None | Some c \<Rightarrow> rd_graph r (ch_graph_id c))"

definition admission_line :: "line_reads \<Rightarrow> submission list \<Rightarrow> flow_tables \<Rightarrow> flow_line" where
  "admission_line r subs s = line_of (rd_facts r) (chunk_graph r) (turning_now s) subs"

definition admit ::
  "line_reads \<Rightarrow> instant \<Rightarrow> (ident \<Rightarrow> instant) \<Rightarrow> (ident \<Rightarrow> ident) \<Rightarrow> (pass_point \<Rightarrow> flow_tables \<Rightarrow> flow_tables) \<Rightarrow> int \<Rightarrow> flow_tables
     \<Rightarrow> admitted_turn list \<times> flow_tables" where
  "admit r now clock turn_id between low s =
     (let subs = open_submissions_from low s
      in if subs = [] then ([], s)
         else
           let s1 = between BeforeTurns s;
               ln = admission_line r subs s1;
               passed_over = sub_submission_id ` {sub \<in> set subs. \<not> eligible ln now sub};
               nexts = filter (is_next ln now) subs
           in take_each r passed_over clock turn_id between nexts s1)"

section \<open>The driver\<close>

definition RECONCILE_FLOOR :: int where
  "RECONCILE_FLOOR = seconds 60"

text \<open>What the driver holds in memory for one tenant; a probe is a table's name, its row count and its
  highest id, for each table that moves a chunk's status.\<close>

type_synonym line_signature = "(string \<times> int \<times> int option) list"

record line_state =
  ls_floor :: "int option"
  ls_converged :: "(line_signature \<times> instant) option"

definition floor_of :: "line_state \<Rightarrow> int" where
  "floor_of ls = (case ls_floor ls of None \<Rightarrow> 0 | Some low \<Rightarrow> low)"

definition line_due :: "line_state \<Rightarrow> line_signature \<Rightarrow> instant \<Rightarrow> bool" where
  "line_due ls signature now \<longleftrightarrow>
     (case ls_converged ls of None \<Rightarrow> True
      | Some (converged, i) \<Rightarrow> if now - i \<ge> RECONCILE_FLOOR then True else signature \<noteq> converged)"

record tick_reads =
  tk_signature :: line_signature
  tk_now :: instant
  tk_swept_before :: "instant option"
  tk_forced :: bool
  tk_running :: "ident set"
  tk_reads :: line_reads
  tk_locked :: locked_reads
  tk_mints :: line_mints
  tk_closed_at :: instant
  tk_end_facts :: "ident \<Rightarrow> chunk_facts option"
  tk_end_graph :: "ident \<Rightarrow> graph option"
  tk_end_at :: instant
  tk_admit_reads :: line_reads
  tk_clock :: "ident \<Rightarrow> instant"
  tk_turn_id :: "ident \<Rightarrow> ident"

record tick_result =
  tr_reconciled :: bool
  tr_submitted :: nat
  tr_closed :: nat
  tr_interrupted :: nat
  tr_started :: "admitted_turn list"

text \<open>One tenant's part of a tick that raises nothing.\<close>

definition tenant_tick ::
  "tick_reads \<Rightarrow> (pass_point \<Rightarrow> flow_tables \<Rightarrow> flow_tables) \<Rightarrow> line_state \<Rightarrow> flow_tables
     \<Rightarrow> tick_result \<times> line_state \<times> flow_tables" where
  "tenant_tick tk between ls s =
     (let run = tk_forced tk \<or> line_due ls (tk_signature tk) (tk_now tk);
          (rc, s1) = reconcile (tk_reads tk) (tk_locked tk) (tk_mints tk) (tk_closed_at tk) between (floor_of ls) s;
          s1 = (if run then s1 else s);
          ls1 = (if run then \<lparr>ls_floor = Some (rec_floor rc), ls_converged = Some (tk_signature tk, tk_now tk)\<rparr> else ls);
          (ends, s2) = (case tk_swept_before tk of None \<Rightarrow> ([], s1)
            | Some b \<Rightarrow> end_unanswered (Some b) (tk_running tk) (tk_end_facts tk) (tk_end_graph tk) (tk_end_at tk) between s1);
          (admitted, s3) = admit (tk_admit_reads tk) (tk_now tk) (tk_clock tk) (tk_turn_id tk) between (floor_of ls1) s2
      in (\<lparr>tr_reconciled = run, tr_submitted = (if run then length (rec_submitted rc) else 0),
           tr_closed = (if run then length (rec_withdrawn rc) else 0), tr_interrupted = length ends, tr_started = admitted\<rparr>,
          ls1, s3))"

text \<open>The boot step: the last process's turns ended, then a reconcile from floor zero.\<close>

definition boot_lines ::
  "tick_reads \<Rightarrow> (pass_point \<Rightarrow> flow_tables \<Rightarrow> flow_tables) \<Rightarrow> flow_tables \<Rightarrow> nat \<times> line_state \<times> flow_tables" where
  "boot_lines tk between s =
     (let (ended, s1) = recover_turns (tk_end_facts tk) (tk_end_graph tk) (tk_end_at tk) between s;
          (rc, s2) = reconcile (tk_reads tk) (tk_locked tk) (tk_mints tk) (tk_closed_at tk) between 0 s1
      in (ended, \<lparr>ls_floor = Some (rec_floor rc), ls_converged = None\<rparr>, s2))"

end
