(* ===== verification/Hub_Laws.thy ===== *)
theory Hub_Laws
  imports Hub_Node Apply_Laws Flow_Lines
begin

text \<open>
  What a routing leaves behind: a submission is closed by a verdict exactly in the transaction that moves
  its chunk, an answer of a standing visit never leaves the visit standing, and a bounce either rides on a
  move or, past the cap, calls a person.
\<close>

section \<open>What the writes change\<close>

lemma movements_hub_lease [simp]: "movement_rows (record_hub_lease e r ti s) = movement_rows s"
  by (simp add: record_hub_lease_def record_epoch_owner_def movement_rows_def)

lemma hub_lease_epoch: "e \<in> row_epochs (record_hub_lease e r ti s)"
  by (simp add: record_hub_lease_def record_epoch_owner_def row_epochs_def)

lemma fence_part_row_epochs: "fence_part s' = fence_part s \<Longrightarrow> row_epochs s' = row_epochs s"
  by (simp add: fence_part_def row_epochs_def)

lemma hub_step_kept: "record_hub_step_transition w s = Inr (False, s') \<Longrightarrow> s' = s"
  by (auto simp: record_hub_step_transition_def Let_def map_sum_Inr split: if_splits)

lemma hub_step_tables:
  assumes "record_hub_step_transition w s = Inr (True, s')"
  shows "ck_transitions s' = ck_transitions s @ [hub_step_transition_row w s] \<and> ck_migrations s' = ck_migrations s
    \<and> ck_restarts s' = ck_restarts s \<and> hw_epoch w \<in> row_epochs s'"
proof -
  let ?s1 = "record_hub_lease (hw_epoch w) (hw_runner_id w) (hw_at w) s"
  let ?s2 = "?s1\<lparr>ck_transitions := ck_transitions ?s1 @ [hub_step_transition_row w ?s1]\<rparr>"
  let ?s3 = "insert_artifacts (hw_at w) (hw_artifacts w) ?s2"
  let ?s4 = "if hw_release_route w then insert_release (hw_at w) None None ?s3 else ?s3"
  have 4: "movement_rows ?s4 = movement_rows ?s2" "fence_part ?s4 = fence_part ?s2" by simp_all
  have "\<not> transition_exists s (hw_from_node_id w) (hw_epoch w)" "fence s (hw_epoch w) (hw_admission w) None = None"
    using assms by (auto simp: record_hub_step_transition_def split: if_splits)
  with assms have "s' = ?s4 \<or> enqueue_close_intents (hw_at w) (hw_close_decision w) ?s4 = Inr s'"
    unfolding record_hub_step_transition_def Let_def by (auto simp: map_sum_Inr split: if_splits)
  then have s': "movement_rows s' = movement_rows ?s2" "fence_part s' = fence_part ?s2"
    using 4 enqueue_movements [of _ _ ?s4 s'] fence_enqueue [of _ _ ?s4 s'] by auto
  have "hub_step_transition_row w ?s1 = hub_step_transition_row w s"
    by (simp add: hub_step_transition_row_def record_hub_lease_def record_epoch_owner_def)
  then have "movement_rows ?s2 = (ck_transitions s @ [hub_step_transition_row w s], ck_migrations s, ck_restarts s)"
    by (simp add: movement_rows_def record_hub_lease_def record_epoch_owner_def)
  moreover have "row_epochs ?s2 = row_epochs ?s1" by (simp add: row_epochs_def)
  ultimately show ?thesis
    using s'(1) fence_part_row_epochs [OF s'(2)] hub_lease_epoch by (simp add: movement_rows_def)
qed

lemma bounce_escalation_tables:
  assumes "record_bounce_escalation i w s = (o', s')"
  shows "movement_rows s' = movement_rows s \<and> (o' \<noteq> BounceRecorded \<longrightarrow> s' = s)
    \<and> (o' = BounceRecorded \<longrightarrow> ew_epoch w \<in> row_epochs s' \<and> er_epoch (last (ck_escalations s')) = ew_epoch w
         \<and> er_cause (last (ck_escalations s')) = ew_cause w \<and> ck_escalations s' \<noteq> [])"
proof -
  have "row_epochs (t\<lparr>ck_escalations := es\<rparr>) = row_epochs t" "movement_rows (t\<lparr>ck_escalations := es\<rparr>) = movement_rows t" for es t
    by (simp_all add: row_epochs_def movement_rows_def)
  then show ?thesis
    using assms hub_lease_epoch [of "ew_epoch w" i "ew_at w" s]
    by (auto simp: record_bounce_escalation_def insert_escalation_def split: if_splits)
qed

lemma bounce_tables: "record_bounce e a c v ti s = (b, s') \<Longrightarrow> movement_rows s' = movement_rows s \<and> fence_part s' = fence_part s"
  by (auto simp: record_bounce_def movement_rows_def fence_part_def split: if_splits)

lemma hub_artifact_tables:
  assumes "record_hub_artifact w s = Inr (b, s')"
  shows "movement_rows s' = movement_rows s \<and> fence_part s' = fence_part s"
proof -
  have "movement_rows (insert_artifact ti a s) = movement_rows s" "fence_part (insert_artifact ti a s) = fence_part s" for ti a
    by (simp_all add: insert_artifact_def movement_rows_def fence_part_def)
  moreover from assms have "s' = s \<or> (\<exists>ti a. s' = insert_artifact ti a s \<or> (\<exists>d. enqueue_close_intents ti d (insert_artifact ti a s) = Inr s'))"
    by (auto simp: record_hub_artifact_def Let_def map_sum_Inr split: if_splits)
  ultimately show ?thesis using enqueue_movements fence_enqueue by metis
qed

section \<open>One routing\<close>

text \<open>The visit's exit: one transition or migration from its node, by its choice.\<close>

definition leaves :: "node \<Rightarrow> int \<Rightarrow> ident \<Rightarrow> chunk_rows \<Rightarrow> chunk_rows \<Rightarrow> bool" where
  "leaves n epoch choice s s' \<longleftrightarrow> ck_restarts s' = ck_restarts s \<and>
     ((\<exists>x. ck_transitions s' = ck_transitions s @ [x] \<and> ck_migrations s' = ck_migrations s
         \<and> xr_from_node_id x = Some (node_id n) \<and> xr_choice_name x = Some choice \<and> xr_epoch x = epoch + 1)
      \<or> (\<exists>m. ck_migrations s' = ck_migrations s @ [m] \<and> ck_transitions s' = ck_transitions s
         \<and> mr_from_node_id m = Some (node_id n) \<and> mr_choice_name m = Some choice \<and> mr_epoch m = epoch))"

lemma leaves_cong: "movement_rows s1 = movement_rows s \<Longrightarrow> movement_rows s2 = movement_rows s' \<Longrightarrow>
    leaves n epoch choice s1 s2 = leaves n epoch choice s s'"
  by (simp add: leaves_def movement_rows_def)

lemma leaves_moved: "leaves n epoch choice s s' \<Longrightarrow> movement_rows s' \<noteq> movement_rows s"
  by (auto simp: leaves_def movement_rows_def)

definition routed :: "hub_env \<Rightarrow> node \<Rightarrow> int \<Rightarrow> ident \<Rightarrow> turn_ending \<Rightarrow> hub_tables \<Rightarrow> hub_tables \<Rightarrow> bool" where
  "routed env n epoch choice ending t t' \<longleftrightarrow>
     (\<exists>t1. ht_flows t1 = ht_flows t \<and> ht_found t1 = ht_found t \<and>
        (leaves n epoch choice (ht_rows t) (ht_rows t1) \<and> end_on env ending choice (Some choice) t1 = Inr t'
         \<or> movement_rows (ht_rows t1) = movement_rows (ht_rows t)
             \<and> (\<exists>out\<in>{choice, TURN_ESCALATED}. end_on env ending out None t1 = Inr t')))"

lemma routed_from:
  "routed env n epoch choice ending t0 t' \<Longrightarrow> ht_flows t0 = ht_flows t \<Longrightarrow> ht_found t0 = ht_found t \<Longrightarrow>
     movement_rows (ht_rows t0) = movement_rows (ht_rows t) \<Longrightarrow> routed env n epoch choice ending t t'"
  unfolding routed_def using leaves_cong [of "ht_rows t0" "ht_rows t"] by auto

lemma routed_end:
  "end_on env ending out None t1 = Inr t' \<Longrightarrow> out \<in> {choice, TURN_ESCALATED} \<Longrightarrow> ht_flows t1 = ht_flows t \<Longrightarrow>
     ht_found t1 = ht_found t \<Longrightarrow> movement_rows (ht_rows t1) = movement_rows (ht_rows t) \<Longrightarrow>
     routed env n epoch choice ending t t'"
  unfolding routed_def by blast

lemma gate_on_tables: "gate_on env c g nid e wrote s = Inr s' \<Longrightarrow> movement_rows s' = movement_rows s \<and> fence_part s' = fence_part s"
  by (cases "open_graph_gate_on_arrival (hv_decision_id env) g nid e (hv_gate_at env) None (close_decision_of env c) s")
    (auto simp: gate_on_def dest: gate_tables split: if_splits)

lemma step_on_routed:
  assumes "step_on env g c n to (epoch + 1) choice artifacts ending t = Inr t'"
  shows "routed env n epoch choice ending t t'"
proof -
  let ?w = "hub_step_of env c n to (epoch + 1) choice artifacts"
  from assms obtain wrote rows rows' where w: "record_hub_step_transition ?w (ht_rows t) = Inr (wrote, rows)"
    and gate: "gate_on env c g to (epoch + 1) wrote rows = Inr rows'"
    and fin: "end_on env ending choice (if wrote then Some choice else None) (t\<lparr>ht_rows := rows'\<rparr>) = Inr t'"
    by (auto simp: step_on_def split: sum.splits)
  show ?thesis
  proof (cases wrote)
    case True
    have "leaves n epoch choice (ht_rows t) rows"
      using hub_step_tables [of ?w "ht_rows t" rows] w True
      by (simp add: leaves_def) (simp add: hub_step_transition_row_def hub_step_of_def)
    then have "leaves n epoch choice (ht_rows t) rows'"
      using leaves_cong [of "ht_rows t" "ht_rows t" rows' rows] gate_on_tables [OF gate] by simp
    with fin True show ?thesis unfolding routed_def by (intro exI [of _ "t\<lparr>ht_rows := rows'\<rparr>"]) simp
  next
    case False
    with w gate hub_step_kept have "rows' = ht_rows t" by (auto simp: gate_on_def)
    with fin False show ?thesis by (intro routed_end [where out = choice]) auto
  qed
qed

lemma migrate_on_routed:
  assumes "migrate_on env c n l epoch choice ending t = Inr t'"
  shows "routed env n epoch choice ending t t'"
proof -
  let ?w = "hub_migration_of env c n l epoch choice"
  from assms obtain outcome rows rows' where w: "record_migration ?w (ht_rows t) = Inr (outcome, rows)"
    and gate: "gate_on env c (ld_graph l) (ld_node_id l) epoch (case outcome of Migrated i \<Rightarrow> True | _ \<Rightarrow> False) rows = Inr rows'"
    and fin: "end_on env ending choice (if (case outcome of Migrated i \<Rightarrow> True | _ \<Rightarrow> False) then Some choice else None)
       (t\<lparr>ht_rows := rows'\<rparr>) = Inr t'"
    by (auto simp: migrate_on_def Let_def split: sum.splits)
  show ?thesis
  proof (cases outcome)
    case (Migrated i)
    have "ck_restarts rows = ck_restarts (ht_rows t)"
      using migration_recorded_tables [of ?w "ht_rows t" i rows] w Migrated by (simp add: fence_part_def)
    then have "leaves n epoch choice (ht_rows t) rows"
      using migration_recorded_tables [of ?w "ht_rows t" i rows] w Migrated by (simp add: leaves_def hub_migration_of_def)
    then have "leaves n epoch choice (ht_rows t) rows'"
      using leaves_cong [of "ht_rows t" "ht_rows t" rows' rows] gate_on_tables [OF gate] by simp
    with fin Migrated show ?thesis unfolding routed_def by (intro exI [of _ "t\<lparr>ht_rows := rows'\<rparr>"]) simp
  next
    case AlreadyMigrated
    with w gate have "rows' = ht_rows t"
      by (auto simp: gate_on_def record_migration_def Let_def map_sum_Inr split: if_splits option.splits)
    with fin AlreadyMigrated show ?thesis by (intro routed_end [where out = choice]) auto
  next
    case (MigrationRefused r)
    with w gate migration_refused_rows have "rows' = ht_rows t" by (auto simp: gate_on_def)
    with fin MigrationRefused show ?thesis by (intro routed_end [where out = choice]) auto
  qed
qed

lemma escalate_on_tables:
  assumes "escalate_on env cause detail e t = (o', t')"
  shows "ht_flows t' = ht_flows t \<and> ht_found t' = ht_found t \<and> ht_log t' = ht_log t
    \<and> movement_rows (ht_rows t') = movement_rows (ht_rows t)"
  using assms bounce_escalation_tables by (auto simp: escalate_on_def split: prod.splits)

lemma escalated_on_routed:
  assumes "escalated_on env escalation epoch ending t = Inr (o', t')"
  shows "routed env n epoch choice ending t t'"
proof -
  obtain o1 t1 where e: "escalate_on env (ac_cause escalation) (ac_detail escalation) (epoch + 1) t = (o1, t1)" by fastforce
  with assms have "end_on env ending TURN_ESCALATED None t1 = Inr t'"
    by (auto simp: escalated_on_def map_sum_Inr split: sum.splits)
  with escalate_on_tables [OF e] show ?thesis by (intro routed_end [where out = TURN_ESCALATED and ?t1.0 = t1]) auto
qed

lemma bounce_on_tables:
  assumes "bounce_on env n e cause envelope t = (b, t')"
  shows "ht_flows t' = ht_flows t \<and> ht_found t' = ht_found t \<and> ht_log t' = ht_log t
    \<and> movement_rows (ht_rows t') = movement_rows (ht_rows t)"
proof -
  let ?t1 = "t\<lparr>ht_rows := snd (record_bounce e AdmitAbove cause envelope (hv_bounced_at env) (ht_rows t))\<rparr>"
  have 1: "movement_rows (ht_rows ?t1) = movement_rows (ht_rows t)" using bounce_tables by (metis hub_tables.select_convs(2)
      hub_tables.surjective hub_tables.update_convs(2) prod.collapse)
  have "t' = ?t1 \<or> (\<exists>c d o'. escalate_on env c d e ?t1 = (o', t'))"
    using assms by (auto simp: bounce_on_def Let_def split: option.splits if_splits) (metis prod.collapse)
  with 1 escalate_on_tables [of env _ _ e ?t1 _ t'] show ?thesis by auto
qed

lemma commit_on_routed:
  assumes "commit_on env g c n to epoch choice bounce ending t = Inr t'"
  shows "routed env n epoch choice ending t t'"
proof (cases "snd bounce")
  case None
  with assms step_on_routed show ?thesis by (cases bounce) (auto simp: commit_on_def)
next
  case (Some envelope)
  obtain over t1 where b: "bounce_on env n (epoch + 1) (fst bounce) envelope t = (over, t1)" by fastforce
  show ?thesis
  proof (cases over)
    case True
    with assms Some b have "end_on env ending TURN_ESCALATED None t1 = Inr t'" by (cases bounce) (auto simp: commit_on_def)
    with bounce_on_tables [OF b] show ?thesis by (intro routed_end [where out = TURN_ESCALATED and ?t1.0 = t1]) auto
  next
    case False
    with assms Some b have "step_on env g c n to (epoch + 1) choice [envelope_artifact env n (epoch + 1) envelope] ending t1 = Inr t'"
      by (cases bounce) (auto simp: commit_on_def Let_def)
    from routed_from [OF step_on_routed [OF this]] bounce_on_tables [OF b] show ?thesis by simp
  qed
qed

lemma hub_artifact_on_tables:
  assumes "hub_artifact_on env c n epoch name content t = Inr t'"
  shows "ht_flows t' = ht_flows t \<and> ht_found t' = ht_found t \<and> ht_log t' = ht_log t
    \<and> movement_rows (ht_rows t') = movement_rows (ht_rows t) \<and> fence_part (ht_rows t') = fence_part (ht_rows t)"
  using assms hub_artifact_tables by (auto simp: hub_artifact_on_def split: sum.splits)

lemma log_event_fields [simp]:
  "ht_flows (log_event e t) = ht_flows t" "ht_found (log_event e t) = ht_found t" "ht_rows (log_event e t) = ht_rows t"
  by (simp_all add: log_event_def)

lemma unroutable_on_routed:
  assumes "unroutable_on env artifacts c n epoch choice to_node ending t = Inr t'"
  shows "routed env n epoch choice ending t t'"
proof -
  let ?d = "unroutable_detail n choice to_node"
  from assms obtain t1 where 1: "hub_artifact_on env c n epoch UNROUTABLE_ARTIFACT_NAME (unroutable_content n ?d) t = Inr t1"
    by (auto simp: unroutable_on_def Let_def split: sum.splits)
  define t2 where "t2 = (if first_of_visit n epoch UNROUTABLE_ARTIFACT_NAME artifacts
    then log_event (unroutable_event env n epoch choice ?d) t1 else t1)"
  have 2: "t2 = t1 \<or> (\<exists>e. t2 = log_event e t1)" by (auto simp: t2_def)
  have "map_sum id snd (escalated_on env (unroutable_escalation n choice to_node) epoch ending t2) = Inr t'"
    using assms by (simp add: unroutable_on_def Let_def 1 t2_def)
  then obtain o' where 3: "escalated_on env (unroutable_escalation n choice to_node) epoch ending t2 = Inr (o', t')"
    by (auto simp: map_sum_Inr)
  from 2 have "ht_flows t2 = ht_flows t1" "ht_found t2 = ht_found t1" "ht_rows t2 = ht_rows t1" by auto
  with routed_from [OF escalated_on_routed [OF 3]] hub_artifact_on_tables [OF 1] show ?thesis by simp
qed

lemma route_away_routed:
  assumes "route_away env c n destination epoch choice ending t = Inr t'" "\<not> (\<exists>i name. destination = ToNode i name)"
  shows "routed env n epoch choice ending t t'"
proof (cases destination)
  case (ToUnroutable to_node)
  with assms(1) have r: "route_unroutable env c n epoch choice to_node ending t = Inr t'" by simp
  show ?thesis
  proof (cases "standing_visit env n epoch t")
    case None
    with r have "end_on env ending TURN_ESCALATED None t = Inr t'" by (simp add: route_unroutable_def)
    then show ?thesis by (intro routed_end [where out = TURN_ESCALATED]) auto
  next
    case (Some artifacts)
    with r unroutable_on_routed show ?thesis by (simp add: route_unroutable_def)
  qed
qed (use assms migrate_on_routed escalated_on_routed in \<open>auto simp: map_sum_Inr\<close>)

lemma route_on_routed:
  "route_on env artifacts g c n destination epoch choice ending t = Inr t' \<Longrightarrow> routed env n epoch choice ending t t'"
  using migrate_on_routed escalated_on_routed unroutable_on_routed commit_on_routed
  by (cases destination) (auto simp: map_sum_Inr)

declare route_away.simps [simp del]

lemma route_routed:
  assumes "route_answer env reads c g n epoch choice ending commits action t = Inr t'"
  shows "routed env n epoch choice ending t t'"
  using assms route_away_routed commit_on_routed by (auto simp: route_answer_def split: hub_destination.splits)

lemma timeout_routed:
  assumes "route_pending_timeout env reads commits c g n epoch ending t = Inr t'"
  shows "routed env n epoch HUB_DEFAULT_FAILURE_CHOICE ending t t'"
  using assms route_away_routed commit_on_routed by (auto simp: route_pending_timeout_def Let_def split: hub_destination.splits)

lemma turn_outcome_among: "turn_outcome choice destination \<in> {choice, TURN_ESCALATED}"
  by (cases destination) auto

lemma refuse_cases:
  assumes "refuse env c g n epoch step detail resolution ending t = Inr t'"
  shows "(standing_visit env n epoch t = None
      \<and> end_on env ending (turn_outcome HUB_DEFAULT_FAILURE_CHOICE (hub_destination_of (hv_enabled_graph env) g n HUB_DEFAULT_FAILURE_CHOICE)) None t = Inr t')
    \<or> (\<exists>artifacts t1 t2. standing_visit env n epoch t = Some artifacts
        \<and> hub_artifact_on env c n epoch (HUB_LOG_PREFIX @ step) (refusal_log step detail) t = Inr t1
        \<and> ht_rows t2 = ht_rows t1 \<and> ht_flows t2 = ht_flows t1 \<and> ht_found t2 = ht_found t1
        \<and> route_on env artifacts g c n (hub_destination_of (hv_enabled_graph env) g n HUB_DEFAULT_FAILURE_CHOICE) epoch
             HUB_DEFAULT_FAILURE_CHOICE ending t2 = Inr t')"
proof (cases "standing_visit env n epoch t")
  case (Some artifacts)
  with assms obtain t1 where t1: "hub_artifact_on env c n epoch (HUB_LOG_PREFIX @ step) (refusal_log step detail) t = Inr t1"
    by (auto simp: refuse_def Let_def split: sum.splits)
  have "\<exists>t2. ht_rows t2 = ht_rows t1 \<and> ht_flows t2 = ht_flows t1 \<and> ht_found t2 = ht_found t1
      \<and> route_on env artifacts g c n (hub_destination_of (hv_enabled_graph env) g n HUB_DEFAULT_FAILURE_CHOICE) epoch
             HUB_DEFAULT_FAILURE_CHOICE ending t2 = Inr t'"
    using assms Some t1 by (auto simp: refuse_def Let_def split: option.splits if_splits) (metis log_event_fields)+
  with Some t1 show ?thesis by auto
qed (use assms in \<open>auto simp: refuse_def Let_def\<close>)

lemma refuse_routed:
  assumes "refuse env c g n epoch step detail resolution ending t = Inr t'"
  shows "routed env n epoch HUB_DEFAULT_FAILURE_CHOICE ending t t'"
  using refuse_cases [OF assms]
proof (elim disjE exE conjE)
  assume "end_on env ending (turn_outcome HUB_DEFAULT_FAILURE_CHOICE (hub_destination_of (hv_enabled_graph env) g n HUB_DEFAULT_FAILURE_CHOICE)) None t = Inr t'"
  then show ?thesis using turn_outcome_among by (rule routed_end) simp_all
next
  fix artifacts t1 t2
  assume "hub_artifact_on env c n epoch (HUB_LOG_PREFIX @ step) (refusal_log step detail) t = Inr t1"
    "ht_rows t2 = ht_rows t1" "ht_flows t2 = ht_flows t1" "ht_found t2 = ht_found t1"
    "route_on env artifacts g c n (hub_destination_of (hv_enabled_graph env) g n HUB_DEFAULT_FAILURE_CHOICE) epoch
             HUB_DEFAULT_FAILURE_CHOICE ending t2 = Inr t'"
  then show ?thesis using routed_from [OF route_on_routed] hub_artifact_on_tables by simp
qed


text \<open>The ways the hub routes a turn's answer, each one transaction.\<close>

inductive hub_routing ::
  "hub_env \<Rightarrow> hub_seen \<Rightarrow> chunk \<Rightarrow> graph \<Rightarrow> node \<Rightarrow> int \<Rightarrow> turn_ending \<Rightarrow> hub_tables \<Rightarrow> ident \<Rightarrow> turn_fault + hub_tables \<Rightarrow> bool"
  for env reads c g n epoch ending t where
  routing_choice: "hub_routing env reads c g n epoch ending t choice (route_answer env reads c g n epoch choice ending commits action t)"
| routing_refused: "hub_routing env reads c g n epoch ending t HUB_DEFAULT_FAILURE_CHOICE
    (refuse env c g n epoch step detail resolution ending t)"
| routing_timeout: "hub_routing env reads c g n epoch ending t HUB_DEFAULT_FAILURE_CHOICE
    (route_pending_timeout env reads commits c g n epoch ending t)"
| routing_escalated: "hub_routing env reads c g n epoch ending t choice (escalate env escalation epoch ending t)"

lemma escalate_routed: "escalate env escalation epoch ending t = Inr t' \<Longrightarrow> routed env n epoch choice ending t t'"
  by (auto simp: escalate_def map_sum_Inr intro: escalated_on_routed)

lemmas routings_routed = route_routed [OF sym] refuse_routed [OF sym] timeout_routed [OF sym] escalate_routed [OF sym]

lemma hub_routing_routed: "hub_routing env reads c g n epoch ending t choice (Inr t') \<Longrightarrow> routed env n epoch choice ending t t'"
  by (cases rule: hub_routing.cases) (auto intro: routings_routed)

lemma end_on_rows: "end_on env ending out closure t = Inr t' \<Longrightarrow> ht_rows t' = ht_rows t \<and> ht_found t' = ht_found t"
  by (auto simp: end_on_def end_with_def split: turn_ending.splits if_splits prod.splits option.splits)

lemma end_on_turn:
  assumes "end_on env (TurnEnding turn sub abandoned) out closure t = Inr t'"
  shows "\<not> abandoned \<and> (\<exists>written. end_turn_locked turn out
      (case closure of None \<Rightarrow> withdrawal_now env sub t | Some verdict \<Rightarrow> Some verdict) None (hv_ended_at env) (ht_flows t)
        = (Some written, ht_flows t'))"
  using assms by (auto simp: end_on_def end_with_def split: if_splits prod.splits option.splits)

lemma withdrawal_cong: "ht_rows t' = ht_rows t \<Longrightarrow> ht_found t' = ht_found t \<Longrightarrow> withdrawal_now env sub t' = withdrawal_now env sub t"
  by (simp add: withdrawal_now_def locked_facts_def)

text \<open>C14: Whatever way the hub routes a turn's answer (the choice, a refused visit, a poll timeout, an
  escalation), in the transaction that commits it the chunk leaves its node by exactly one
  transition or migration with that choice, and then the turn ends with that choice as the
  verdict its submission is closed with; or no movement is recorded, and then the submission is
  closed only if its chunk, read under the lock, has withdrawn.\<close>

theorem verdict_rides_with_the_move:
  assumes "hub_routing env reads c g n epoch (TurnEnding turn sub abandoned) t choice (Inr t')"
  shows "\<not> abandoned \<and>
    (\<exists>outcome written. outcome \<in> {choice, TURN_ESCALATED}
       \<and> (if movement_rows (ht_rows t') \<noteq> movement_rows (ht_rows t)
          then leaves n epoch choice (ht_rows t) (ht_rows t')
             \<and> end_turn_locked turn choice (Some choice) None (hv_ended_at env) (ht_flows t) = (Some written, ht_flows t')
          else end_turn_locked turn outcome (withdrawal_now env sub t') None (hv_ended_at env) (ht_flows t)
             = (Some written, ht_flows t')))"
proof -
  from hub_routing_routed [OF assms] obtain t1 where t1: "ht_flows t1 = ht_flows t"
    and or: "leaves n epoch choice (ht_rows t) (ht_rows t1) \<and> end_on env (TurnEnding turn sub abandoned) choice (Some choice) t1 = Inr t'
      \<or> movement_rows (ht_rows t1) = movement_rows (ht_rows t)
          \<and> (\<exists>out\<in>{choice, TURN_ESCALATED}. end_on env (TurnEnding turn sub abandoned) out None t1 = Inr t')"
    unfolding routed_def by blast
  from or show ?thesis
  proof (elim disjE conjE bexE)
    assume l: "leaves n epoch choice (ht_rows t) (ht_rows t1)" and e: "end_on env (TurnEnding turn sub abandoned) choice (Some choice) t1 = Inr t'"
    from end_on_rows [OF e] end_on_turn [OF e] leaves_moved [OF l] l t1 show ?thesis by auto
  next
    fix out
    assume m: "movement_rows (ht_rows t1) = movement_rows (ht_rows t)" and o: "out \<in> {choice, TURN_ESCALATED}"
      and e: "end_on env (TurnEnding turn sub abandoned) out None t1 = Inr t'"
    have "withdrawal_now env sub t' = withdrawal_now env sub t1" using end_on_rows [OF e] by (intro withdrawal_cong) auto
    with m o end_on_rows [OF e] end_on_turn [OF e] t1 show ?thesis by auto
  qed
qed


section \<open>A visit nothing has answered\<close>

definition unanswered :: "node \<Rightarrow> int \<Rightarrow> chunk_rows \<Rightarrow> bool" where
  "unanswered n epoch s \<longleftrightarrow> \<not> transition_exists s (node_id n) (epoch + 1) \<and> \<not> migration_exists s (Some (node_id n)) epoch
     \<and> \<not> (\<exists>e\<in>set (ck_escalations s). er_epoch e = epoch + 1)"

definition ready_to_route :: "node \<Rightarrow> int \<Rightarrow> chunk_rows \<Rightarrow> bool" where
  "ready_to_route n epoch s \<longleftrightarrow> unanswered n epoch s
     \<and> fence s (epoch + 1) AdmitAbove None = None \<and> fence s epoch AdmitCurrent None = None"

lemma floor_is_latest:
  assumes "latest_epoch s \<noteq> 0"
  shows "epoch_floor (load_facts ex s) = latest_epoch s"
proof -
  let ?E = "set (fact_epochs (load_facts ex s))"
  have E: "?E = row_epochs s" by (auto simp: fact_epochs_def load_facts_def row_epochs_def image_image restart_of_row_def)
  from latest_epoch_in assms have m: "latest_epoch s \<in> ?E" unfolding E by blast
  moreover have "Max ?E = latest_epoch s"
  proof (rule Max_eqI)
    show "finite ?E" by simp
  qed (use m latest_epoch_ge [of _ s] E in auto)
  ultimately show ?thesis by (auto simp: epoch_floor_def facts_latest_epoch_def)
qed

lemma standing_fence:
  assumes "standing_visit env n epoch t = Some artifacts"
  shows "fence (ht_rows t) (epoch + 1) AdmitAbove None = None \<and> fence (ht_rows t) epoch AdmitCurrent None = None"
proof -
  let ?f = "load_facts (hv_executors env) (ht_rows t)"
  from assms have d: "delivering_at ?f (node_id n) epoch"
    by (auto simp: standing_visit_def locked_facts_def split: if_splits)
  then have "status ?f = Delivering" by (simp add: delivering_at_def)
  with is_terminal_sound [of "ht_rows t" "hv_executors env"] have "\<not> is_terminal (ht_rows t)"
    by (auto simp: rows_status_def TERMINAL_STATUSES_def)
  moreover from d have "epoch_floor ?f = epoch" by (auto simp: delivering_at_def visit_is_current_def split: option.splits)
  ultimately show ?thesis using floor_is_latest [of "ht_rows t" "hv_executors env"] by (cases "latest_epoch (ht_rows t) = 0") (simp_all add: fence_def)
qed

definition visit_part :: "chunk_rows \<Rightarrow> _" where
  "visit_part s = (movement_rows s, fence_part s, ck_escalations s)"

lemma ready_cong:
  assumes "visit_part s' = visit_part s"
  shows "ready_to_route n epoch s' = ready_to_route n epoch s"
proof -
  from assms have p: "movement_rows s' = movement_rows s" "fence_part s' = fence_part s" "ck_escalations s' = ck_escalations s"
    by (simp_all add: visit_part_def)
  from p(1,2) done_cong [OF p(1)] have "is_terminal s' = is_terminal s" by (simp add: is_terminal_def fence_part_def)
  then have "fence s' e a None = fence s e a None" for e a using fence_part_epochs [OF p(2)] by (simp add: fence_def Let_def)
  with p(1,3) show ?thesis
    by (simp add: ready_to_route_def unanswered_def transition_exists_def migration_exists_def movement_rows_def)
qed

definition called :: "int \<Rightarrow> chunk_rows \<Rightarrow> chunk_rows \<Rightarrow> bool" where
  "called epoch s s' \<longleftrightarrow> movement_rows s' = movement_rows s \<and> epoch + 1 \<in> row_epochs s'
     \<and> (\<exists>x. ck_escalations s' = ck_escalations s @ [x] \<and> er_epoch x = epoch + 1)"

definition exits_with :: "node \<Rightarrow> int \<Rightarrow> ident \<Rightarrow> chunk_rows \<Rightarrow> chunk_rows \<Rightarrow> bool" where
  "exits_with n epoch choice s s' \<longleftrightarrow> leaves n epoch choice s s'
     \<and> (ck_migrations s' = ck_migrations s \<longrightarrow> epoch + 1 \<in> row_epochs s')"

definition visit_answered :: "node \<Rightarrow> int \<Rightarrow> ident \<Rightarrow> chunk_rows \<Rightarrow> chunk_rows \<Rightarrow> bool" where
  "visit_answered n epoch choice s s' \<longleftrightarrow> exits_with n epoch choice s s' \<or> called epoch s s'"

lemma answeredI:
  "exits_with n epoch choice s s' \<Longrightarrow> visit_answered n epoch choice s s'" "called epoch s s' \<Longrightarrow> visit_answered n epoch choice s s'"
  by (simp_all add: visit_answered_def)

lemma answered_cong: "visit_part s1 = visit_part s \<Longrightarrow> visit_answered n epoch choice s1 s' = visit_answered n epoch choice s s'"
  by (simp add: visit_answered_def exits_with_def leaves_def called_def visit_part_def movement_rows_def)

lemma exits_with_cong:
  assumes "movement_rows s2 = movement_rows s'" "fence_part s2 = fence_part s'"
  shows "exits_with n epoch choice s s2 = exits_with n epoch choice s s'"
proof -
  from assms(1) have "ck_migrations s2 = ck_migrations s'" by (simp add: movement_rows_def)
  with leaves_cong [of s s s2 s'] fence_part_row_epochs [OF assms(2)] assms(1) show ?thesis by (simp add: exits_with_def)
qed

lemma step_on_answered:
  assumes "step_on env g c n to (epoch + 1) choice artifacts ending t = Inr t'" "ready_to_route n epoch (ht_rows t)"
  shows "exits_with n epoch choice (ht_rows t) (ht_rows t')"
proof -
  let ?w = "hub_step_of env c n to (epoch + 1) choice artifacts"
  from assms(1) obtain wrote rows rows' where w: "record_hub_step_transition ?w (ht_rows t) = Inr (wrote, rows)"
    and gate: "gate_on env c g to (epoch + 1) wrote rows = Inr rows'"
    and fin: "end_on env ending choice (if wrote then Some choice else None) (t\<lparr>ht_rows := rows'\<rparr>) = Inr t'"
    by (auto simp: step_on_def split: sum.splits)
  from assms(2) have "\<not> transition_exists (ht_rows t) (node_id n) (epoch + 1)" "fence (ht_rows t) (epoch + 1) AdmitAbove None = None"
    by (simp_all add: ready_to_route_def unanswered_def)
  with w have True: wrote by (auto simp: record_hub_step_transition_def hub_step_of_def Let_def map_sum_Inr split: if_splits)
  have "exits_with n epoch choice (ht_rows t) rows"
    using hub_step_tables [of ?w "ht_rows t" rows] w True
    by (simp add: exits_with_def leaves_def) (simp add: hub_step_transition_row_def hub_step_of_def)
  then show ?thesis using exits_with_cong [of rows' rows] gate_on_tables [OF gate] end_on_rows [OF fin] by simp
qed

lemma migrate_on_answered:
  assumes "migrate_on env c n l epoch choice ending t = Inr t'" "ready_to_route n epoch (ht_rows t)"
  shows "exits_with n epoch choice (ht_rows t) (ht_rows t')"
proof -
  let ?w = "hub_migration_of env c n l epoch choice"
  from assms(1) obtain outcome rows rows' where w: "record_migration ?w (ht_rows t) = Inr (outcome, rows)"
    and gate: "gate_on env c (ld_graph l) (ld_node_id l) epoch (case outcome of Migrated i \<Rightarrow> True | _ \<Rightarrow> False) rows = Inr rows'"
    and fin: "end_on env ending choice (if (case outcome of Migrated i \<Rightarrow> True | _ \<Rightarrow> False) then Some choice else None)
       (t\<lparr>ht_rows := rows'\<rparr>) = Inr t'"
    by (auto simp: migrate_on_def Let_def split: sum.splits)
  from assms(2) have "\<not> migration_exists (ht_rows t) (Some (node_id n)) epoch" "fence (ht_rows t) epoch AdmitCurrent None = None"
    by (simp_all add: ready_to_route_def unanswered_def)
  with w obtain i where M: "outcome = Migrated i"
    by (auto simp: record_migration_def hub_migration_of_def Let_def map_sum_Inr split: if_splits)
  have "ck_restarts rows = ck_restarts (ht_rows t)"
    using migration_recorded_tables [of ?w "ht_rows t" i rows] w M by (simp add: fence_part_def)
  then have "exits_with n epoch choice (ht_rows t) rows"
    using migration_recorded_tables [of ?w "ht_rows t" i rows] w M by (simp add: exits_with_def leaves_def hub_migration_of_def)
  then show ?thesis using exits_with_cong [of rows' rows] gate_on_tables [OF gate] end_on_rows [OF fin] by simp
qed

lemma escalate_on_called:
  assumes "escalate_on env cause detail (epoch + 1) t = (o', t')" "ready_to_route n epoch (ht_rows t)"
  shows "called epoch (ht_rows t) (ht_rows t') \<and> er_cause (last (ck_escalations (ht_rows t'))) = Some (cause_value cause)"
proof -
  let ?w = "\<lparr>ew_epoch = epoch + 1, ew_admission = AdmitAbove, ew_claimant = None, ew_takeover_command = [],
             ew_wrapped_takeover_command = [], ew_at = hv_escalated_at env, ew_decision_id = None,
             ew_cause = Some (cause_value cause), ew_detail = Some detail\<rparr>"
  from assms obtain s' where s': "record_bounce_escalation HUB_RUNNER_ID ?w (ht_rows t) = (o', s')" "ht_rows t' = s'"
    by (auto simp: escalate_on_def split: prod.splits)
  with assms(2) have "o' = BounceRecorded"
    by (auto simp: record_bounce_escalation_def ready_to_route_def unanswered_def split: if_splits)
  moreover from this s'(1) have "\<exists>x. ck_escalations s' = ck_escalations (ht_rows t) @ [x] \<and> er_epoch x = epoch + 1"
    by (auto simp: record_bounce_escalation_def insert_escalation_def record_hub_lease_def record_epoch_owner_def split: if_splits)
  ultimately show ?thesis using bounce_escalation_tables [OF s'(1)] s'(2) by (simp add: called_def)
qed


lemma escalated_on_called:
  assumes "escalated_on env escalation epoch ending t = Inr (o', t')" "ready_to_route n epoch (ht_rows t)"
  shows "called epoch (ht_rows t) (ht_rows t')"
proof -
  obtain o1 t1 where e: "escalate_on env (ac_cause escalation) (ac_detail escalation) (epoch + 1) t = (o1, t1)" by fastforce
  with assms(1) have "end_on env ending TURN_ESCALATED None t1 = Inr t'"
    by (auto simp: escalated_on_def map_sum_Inr split: sum.splits)
  from end_on_rows [OF this] escalate_on_called [OF e assms(2)] show ?thesis by simp
qed

lemma bounce_on_cases:
  assumes "bounce_on env n (epoch + 1) cause envelope t = (over, t')" "ready_to_route n epoch (ht_rows t)" "ht_found t"
    and "s1 = snd (record_bounce (epoch + 1) AdmitAbove cause envelope (hv_bounced_at env) (ht_rows t))"
  shows "visit_part s1 = visit_part (ht_rows t)
    \<and> (over \<longleftrightarrow> int (length (ck_bounces s1)) > bounce_cap_of n)
    \<and> (if over then called epoch s1 (ht_rows t') \<and> er_cause (last (ck_escalations (ht_rows t'))) = Some (cause_value BounceCap)
       else ht_rows t' = s1)"
proof -
  let ?t1 = "t\<lparr>ht_rows := s1\<rparr>"
  have v: "visit_part s1 = visit_part (ht_rows t)"
    unfolding assms(4) by (auto simp: record_bounce_def visit_part_def movement_rows_def fence_part_def)
  have f: "locked_facts env ?t1 = Some (load_facts (hv_executors env) s1)"
    using assms(3) by (simp add: locked_facts_def)
  have o: "bounces_over_cap (load_facts (hv_executors env) s1) k \<longleftrightarrow> int (length (ck_bounces s1)) > k" for k
    by (simp add: bounces_over_cap_def bounce_count_def load_facts_def)
  show ?thesis
  proof (cases "int (length (ck_bounces s1)) > bounce_cap_of n")
    case False
    with assms(1,4) f o have "over = False \<and> t' = ?t1" by (simp add: bounce_on_def Let_def)
    with v False show ?thesis by simp
  next
    case True
    from ready_cong [OF v] assms(2) have r: "ready_to_route n epoch (ht_rows ?t1)" by simp
    from True assms(1,4) f o obtain d o' where "over" and e: "escalate_on env BounceCap d (epoch + 1) ?t1 = (o', t')"
      by (auto simp: bounce_on_def Let_def) (metis prod.collapse)
    with escalate_on_called [OF e r] v True show ?thesis by simp
  qed
qed

lemma commit_on_answered:
  assumes "commit_on env g c n to epoch choice bounce ending t = Inr t'" "ready_to_route n epoch (ht_rows t)" "ht_found t"
  shows "visit_answered n epoch choice (ht_rows t) (ht_rows t')"
proof (cases "snd bounce")
  case None
  with assms(1) have "step_on env g c n to (epoch + 1) choice [] ending t = Inr t'" by (cases bounce) (auto simp: commit_on_def Let_def)
  from step_on_answered [OF this assms(2)] show ?thesis by (simp add: visit_answered_def)
next
  case (Some envelope)
  let ?s1 = "snd (record_bounce (epoch + 1) AdmitAbove (fst bounce) envelope (hv_bounced_at env) (ht_rows t))"
  obtain over t1 where b: "bounce_on env n (epoch + 1) (fst bounce) envelope t = (over, t1)" by fastforce
  note cases = bounce_on_cases [OF b assms(2,3) refl]
  show ?thesis
  proof (cases over)
    case True
    with assms(1) Some b have "end_on env ending TURN_ESCALATED None t1 = Inr t'" by (cases bounce) (auto simp: commit_on_def)
    from end_on_rows [OF this] cases True have "visit_answered n epoch choice ?s1 (ht_rows t')" by (simp add: visit_answered_def)
    with cases answered_cong show ?thesis by blast
  next
    case False
    with assms(1) Some b have "step_on env g c n to (epoch + 1) choice [envelope_artifact env n (epoch + 1) envelope] ending t1 = Inr t'"
      by (cases bounce) (auto simp: commit_on_def Let_def)
    moreover from cases False have t1: "ht_rows t1 = ?s1" "visit_part ?s1 = visit_part (ht_rows t)" by simp_all
    ultimately have "visit_answered n epoch choice ?s1 (ht_rows t')"
      using step_on_answered ready_cong [OF t1(2)] assms(2) unfolding visit_answered_def by metis
    with t1(2) answered_cong show ?thesis by blast
  qed
qed

lemma hub_artifact_visit:
  assumes "hub_artifact_on env c n epoch name content t = Inr t'"
  shows "visit_part (ht_rows t') = visit_part (ht_rows t) \<and> ht_found t' = ht_found t"
proof -
  have "ck_escalations s' = ck_escalations s" if "enqueue_close_intents ti d s = Inr s'" for ti d s s'
  proof -
    have one: "ck_escalations (enqueue_one a b d ti r u) = ck_escalations u" for a b r u by (simp add: enqueue_one_def)
    have "ck_escalations (fold (enqueue_one a b d ti) rs u) = ck_escalations u" for a b rs u
      by (induction rs arbitrary: u) (auto simp: one)
    with that show ?thesis by (auto simp: enqueue_close_intents_def Let_def split: if_splits)
  qed
  moreover have "ck_escalations (insert_artifact ti a s) = ck_escalations s" for ti a s by (simp add: insert_artifact_def)
  moreover from assms obtain w b where "record_hub_artifact w (ht_rows t) = Inr (b, ht_rows t')"
    by (auto simp: hub_artifact_on_def split: sum.splits)
  then have "ht_rows t' = ht_rows t \<or> (\<exists>ti a. ht_rows t' = insert_artifact ti a (ht_rows t)
      \<or> (\<exists>d. enqueue_close_intents ti d (insert_artifact ti a (ht_rows t)) = Inr (ht_rows t')))"
    by (auto simp: record_hub_artifact_def Let_def map_sum_Inr split: if_splits dest!: sym [of _ "ht_rows t'"])
  ultimately have "ck_escalations (ht_rows t') = ck_escalations (ht_rows t)" by metis
  with hub_artifact_on_tables [OF assms] show ?thesis by (simp add: visit_part_def)
qed

lemma unroutable_on_answered:
  assumes "unroutable_on env artifacts c n epoch choice to_node ending t = Inr t'" "ready_to_route n epoch (ht_rows t)"
  shows "visit_answered n epoch choice (ht_rows t) (ht_rows t')"
proof -
  let ?d = "unroutable_detail n choice to_node"
  from assms(1) obtain t1 where 1: "hub_artifact_on env c n epoch UNROUTABLE_ARTIFACT_NAME (unroutable_content n ?d) t = Inr t1"
    by (auto simp: unroutable_on_def Let_def split: sum.splits)
  define t2 where "t2 = (if first_of_visit n epoch UNROUTABLE_ARTIFACT_NAME artifacts
    then log_event (unroutable_event env n epoch choice ?d) t1 else t1)"
  have 2: "ht_rows t2 = ht_rows t1" by (simp add: t2_def)
  have "map_sum id snd (escalated_on env (unroutable_escalation n choice to_node) epoch ending t2) = Inr t'"
    using assms(1) by (simp add: unroutable_on_def Let_def 1 t2_def)
  then obtain o' where "escalated_on env (unroutable_escalation n choice to_node) epoch ending t2 = Inr (o', t')"
    by (auto simp: map_sum_Inr)
  moreover note v = conjunct1 [OF hub_artifact_visit [OF 1]]
  ultimately have "visit_answered n epoch choice (ht_rows t1) (ht_rows t')"
    using escalated_on_called [of env _ epoch ending t2 _ t' n] ready_cong [OF v] assms(2) 2 by (simp add: answeredI)
  with answered_cong [OF v] show ?thesis by blast
qed

lemma route_on_answered:
  assumes "route_on env artifacts g c n destination epoch choice ending t = Inr t'" "ready_to_route n epoch (ht_rows t)" "ht_found t"
  shows "visit_answered n epoch choice (ht_rows t) (ht_rows t')"
  using assms
  by (cases destination) (auto simp: map_sum_Inr intro: answeredI migrate_on_answered escalated_on_called
      unroutable_on_answered commit_on_answered)

lemma route_away_answered:
  assumes "route_away env c n destination epoch choice ending t = Inr t'" "\<not> (\<exists>i name. destination = ToNode i name)"
    "ready_to_route n epoch (ht_rows t)" "standing_visit env n epoch t \<noteq> None"
  shows "visit_answered n epoch choice (ht_rows t) (ht_rows t')"
  using assms
  by (cases destination) (auto simp: map_sum_Inr route_away.simps route_unroutable_def
      intro: answeredI migrate_on_answered escalated_on_called unroutable_on_answered)

lemma refuse_answered:
  assumes "refuse env c g n epoch step detail resolution ending t = Inr t'"
    "ready_to_route n epoch (ht_rows t)" "standing_visit env n epoch t \<noteq> None"
  shows "visit_answered n epoch HUB_DEFAULT_FAILURE_CHOICE (ht_rows t) (ht_rows t')"
proof -
  from refuse_cases [OF assms(1)] assms(3) obtain artifacts t1 t2 where
    1: "hub_artifact_on env c n epoch (HUB_LOG_PREFIX @ step) (refusal_log step detail) t = Inr t1"
    and 2: "ht_rows t2 = ht_rows t1" "ht_found t2 = ht_found t1"
    and r: "route_on env artifacts g c n (hub_destination_of (hv_enabled_graph env) g n HUB_DEFAULT_FAILURE_CHOICE) epoch
             HUB_DEFAULT_FAILURE_CHOICE ending t2 = Inr t'"
    by auto
  have "ht_found t" using assms(3) by (auto simp: standing_visit_def locked_facts_def split: if_splits)
  with 2 hub_artifact_visit [OF 1] ready_cong [of "ht_rows t2" "ht_rows t"] assms(2)
  have "ready_to_route n epoch (ht_rows t2)" "ht_found t2" "visit_part (ht_rows t2) = visit_part (ht_rows t)" by simp_all
  with route_on_answered [OF r] answered_cong show ?thesis by blast
qed

lemma standing_found: "standing_visit env n epoch t \<noteq> None \<Longrightarrow> ht_found t"
  by (auto simp: standing_visit_def locked_facts_def split: if_splits)

lemma route_answered:
  assumes "route_answer env reads c g n epoch choice ending commits action t = Inr t'"
    "ready_to_route n epoch (ht_rows t)" "standing_visit env n epoch t \<noteq> None"
  shows "visit_answered n epoch choice (ht_rows t) (ht_rows t')"
proof (cases "hub_destination_of (hv_enabled_graph env) g n choice")
  case (ToNode i name)
  with assms(1) commit_on_answered [OF _ assms(2) standing_found [OF assms(3)]] show ?thesis by (simp add: route_answer_def)
qed (use assms route_away_answered [OF _ _ assms(2,3)] in \<open>simp_all add: route_answer_def\<close>)

lemma timeout_answered:
  assumes "route_pending_timeout env reads commits c g n epoch ending t = Inr t'"
    "ready_to_route n epoch (ht_rows t)" "standing_visit env n epoch t \<noteq> None"
  shows "visit_answered n epoch HUB_DEFAULT_FAILURE_CHOICE (ht_rows t) (ht_rows t')"
proof (cases "hub_destination_of (hv_enabled_graph env) g n HUB_DEFAULT_FAILURE_CHOICE")
  case (ToNode i name)
  with assms(1) commit_on_answered [OF _ assms(2) standing_found [OF assms(3)]] show ?thesis
    by (simp add: route_pending_timeout_def Let_def)
qed (use assms route_away_answered [OF _ _ assms(2,3)] in \<open>simp_all add: route_pending_timeout_def Let_def\<close>)

lemma escalate_answered:
  "escalate env escalation epoch ending t = Inr t' \<Longrightarrow> ready_to_route n epoch (ht_rows t) \<Longrightarrow>
     visit_answered n epoch choice (ht_rows t) (ht_rows t')"
  by (auto simp: escalate_def map_sum_Inr visit_answered_def intro: escalated_on_called)

lemmas routings_answered = route_answered [OF sym] refuse_answered [OF sym] timeout_answered [OF sym] escalate_answered [OF sym]

lemma hub_routing_answered:
  "hub_routing env reads c g n epoch ending t choice (Inr t') \<Longrightarrow> ready_to_route n epoch (ht_rows t) \<Longrightarrow>
     standing_visit env n epoch t \<noteq> None \<Longrightarrow> visit_answered n epoch choice (ht_rows t) (ht_rows t')"
  by (cases rule: hub_routing.cases) (auto intro: routings_answered)


lemma floor_ge: "e \<in> row_epochs s \<Longrightarrow> e \<le> epoch_floor (load_facts ex s)"
proof -
  assume "e \<in> row_epochs s"
  then have e: "e \<in> set (fact_epochs (load_facts ex s))"
    by (auto simp: fact_epochs_def load_facts_def row_epochs_def image_image restart_of_row_def)
  then have "fact_epochs (load_facts ex s) \<noteq> []" by auto
  with e show ?thesis by (simp add: epoch_floor_def facts_latest_epoch_def)
qed

text \<open>C15: A visit that stands and that nothing has answered is left by every routing that commits: by
  its exit, or by an escalation at the epoch above it; and unless the exit is a migration, which
  keeps the epoch, the chunk no longer delivers at the visit's epoch, so no later turn of it
  acts.\<close>

theorem answered_visit_is_left:
  assumes routing: "hub_routing env reads c g n epoch ending t choice (Inr t')"
    and standing: "standing_visit env n epoch t \<noteq> None" and fresh: "unanswered n epoch (ht_rows t)"
  shows "(leaves n epoch choice (ht_rows t) (ht_rows t') \<or> called epoch (ht_rows t) (ht_rows t'))
    \<and> (ck_migrations (ht_rows t') = ck_migrations (ht_rows t) \<longrightarrow> standing_visit env n' epoch t' = None)"
proof -
  from standing standing_fence fresh have "ready_to_route n epoch (ht_rows t)" by (auto simp: ready_to_route_def)
  from hub_routing_answered [OF routing this standing] have a: "visit_answered n epoch choice (ht_rows t) (ht_rows t')" .
  have "standing_visit env n' epoch t' = None" if "ck_migrations (ht_rows t') = ck_migrations (ht_rows t)"
  proof -
    from a that have "epoch + 1 \<in> row_epochs (ht_rows t')" by (auto simp: visit_answered_def exits_with_def called_def)
    from floor_ge [OF this, of "hv_executors env"] show ?thesis
      by (auto simp: standing_visit_def locked_facts_def delivering_at_def visit_is_current_def split: option.splits)
  qed
  with a show ?thesis by (auto simp: visit_answered_def exits_with_def)
qed

text \<open>C16: While a visit stands that nothing has answered, and no bounce is recorded at the epoch above
  it, a delivery the markers say is incomplete bounces along its edge if the chunk's bounces,
  this one included, are within the node's cap; past it the chunk stays on its node and an
  escalation with cause bounce-cap calls a person.\<close>

theorem bounces_stop_at_the_cap:
  assumes routed: "route_answer env reads c g n epoch choice ending commits action t = Inr t'"
    and to: "hub_destination_of (hv_enabled_graph env) g n choice = ToNode to name"
    and incomplete: "delivery_incomplete env reads commits to"
    and standing: "standing_visit env n epoch t \<noteq> None" and fresh: "unanswered n epoch (ht_rows t)"
    and unbounced: "\<forall>b\<in>set (ck_bounces (ht_rows t)). bn_epoch b \<noteq> epoch + 1"
  shows "if int (length (ck_bounces (ht_rows t))) < bounce_cap_of n
    then leaves n epoch choice (ht_rows t) (ht_rows t')
    else called epoch (ht_rows t) (ht_rows t') \<and> er_cause (last (ck_escalations (ht_rows t'))) = Some (cause_value BounceCap)"
proof -
  let ?e = "kick_back env reads n choice name commits action"
  let ?s1 = "snd (record_bounce (epoch + 1) AdmitAbove choice ?e (hv_bounced_at env) (ht_rows t))"
  from standing standing_fence fresh have ready: "ready_to_route n epoch (ht_rows t)" by (auto simp: ready_to_route_def)
  have commit: "commit_on env g c n to epoch choice (choice, Some ?e) ending t = Inr t'"
    using routed to incomplete by (simp add: route_answer_def)
  obtain over t1 where b: "bounce_on env n (epoch + 1) choice ?e t = (over, t1)" by fastforce
  note cases = bounce_on_cases [OF b ready standing_found [OF standing] refl]
  have "fence (ht_rows t) (epoch + 1) AdmitAbove None = None" using ready by (simp add: ready_to_route_def)
  then have len: "length (ck_bounces ?s1) = Suc (length (ck_bounces (ht_rows t)))" using unbounced
    by (auto simp: record_bounce_def)
  show ?thesis
  proof (cases over)
    case True
    with commit b have "end_on env ending TURN_ESCALATED None t1 = Inr t'" by (simp add: commit_on_def)
    from end_on_rows [OF this] cases True len show ?thesis by (auto simp: called_def visit_part_def)
  next
    case False
    with commit b have step: "step_on env g c n to (epoch + 1) choice [envelope_artifact env n (epoch + 1) ?e] ending t1 = Inr t'"
      by (simp add: commit_on_def Let_def)
    from cases False have t1: "ht_rows t1 = ?s1" "visit_part ?s1 = visit_part (ht_rows t)" by simp_all
    have "leaves n epoch choice (ht_rows t1) (ht_rows t')"
      using step_on_answered [OF step] ready_cong [OF t1(2)] ready t1(1) by (simp add: exits_with_def)
    moreover have "leaves n epoch choice (ht_rows t1) (ht_rows t') = leaves n epoch choice (ht_rows t) (ht_rows t')"
      using t1 by (simp add: leaves_def visit_part_def movement_rows_def)
    ultimately show ?thesis using cases False len by auto
  qed
qed

end
