(* ===== verification/Flow_Line_Laws.thy ===== *)
theory Flow_Line_Laws
  imports Flow_Lines
begin

text \<open>
  What the passes over a tenant's lines guarantee, whatever commits between their transactions: no open
  submission escapes the floor the next pass reads from, departed submissions are closed, and admission
  takes exactly the turns that are next on free flows.
\<close>

section \<open>What may commit while a pass runs\<close>

text \<open>Only a tick submits and starts turns, and one tick runs at a time. A turn's end, a lever's withdrawal
  and a landing come from elsewhere.\<close>

inductive quiet_step :: "flow_tables \<Rightarrow> flow_tables \<Rightarrow> bool" where
  quiet_end: "quiet_step s (snd (end_turn_locked turn_id out closure event t s))"
| quiet_withdraw: "quiet_step s (snd (withdraw_waiting chunk_id w t s))"
| quiet_land: "quiet_step s (snd (write_landing landing revision t s))"

definition quiet :: "(pass_point \<Rightarrow> flow_tables \<Rightarrow> flow_tables) \<Rightarrow> bool" where
  "quiet between \<longleftrightarrow> (\<forall>p s. quiet_step\<^sup>*\<^sup>* s (between p s))"

text \<open>Places stay, closures are only added, and no turn is opened.\<close>

definition settling :: "flow_tables \<Rightarrow> flow_tables \<Rightarrow> bool" where
  "settling s s' \<longleftrightarrow> same_places s s' \<and> prefix (ft_closures s) (ft_closures s')
     \<and> (\<forall>i. has_open_turn s' i \<longrightarrow> has_open_turn s i)"

lemma settling_refl [simp]: "settling s s"
  by (simp add: settling_def)

lemma settling_trans: "settling s t \<Longrightarrow> settling t u \<Longrightarrow> settling s u"
  unfolding settling_def by (meson prefix_order.trans same_places_trans)

lemma settling_open: "settling s s' \<Longrightarrow> is_open s' i \<Longrightarrow> is_open s i"
  by (auto simp: settling_def is_open_iff prefix_def)

lemma settling_close: "settling s (snd (close_submission i out t s))"
  using close_effect [of i out t s] by (auto simp: settling_def has_open_turn_def)

lemma settling_close_waiting: "settling s (snd (close_waiting i w t s))"
  by (simp add: close_waiting_def settling_close)

lemma settling_end_turn:
  assumes "end_turn i out t s = (Some (j, w), s')"
  shows "settling s s'"
proof -
  obtain row where e: "same_places s s'" "ft_turns s' = map (end_row i out t) (ft_turns s)" "ft_closures s' = ft_closures s"
    by (rule end_turn_effect [OF assms])
  then show ?thesis by (auto simp: settling_def has_open_turn_def end_row_open)
qed

lemma settling_end_turn_locked: "settling s (snd (end_turn_locked i out closure event t s))"
proof -
  obtain r s' where r: "end_turn_locked i out closure event t s = (r, s')" by (rule prod.exhaust)
  then show ?thesis
  proof (cases rule: end_turn_locked_cases)
    case (ended j w s1 s2)
    have "settling s s1" by (rule settling_end_turn [OF ended(1)])
    moreover have "settling s1 s2"
      using ended(3) by (auto simp: settling_def same_places_def has_open_turn_def split: option.split)
    moreover have "settling s2 s'" using ended(4) settling_close by (simp split: option.split)
    ultimately show ?thesis using r settling_trans by (metis snd_conv)
  qed (simp add: r)
qed

lemma settling_withdraw: "settling s (snd (withdraw_waiting chunk_id w t s))"
proof -
  have "settling s (fold (\<lambda>i s. snd (close_submission i (withdrawal_value w) t s)) is s)" for "is"
    by (induction "is" arbitrary: s) (auto intro: settling_trans settling_close)
  then show ?thesis by (simp add: withdraw_as_fold)
qed

lemma settling_land: "settling s (snd (write_landing landing rv t s))"
  using land_frame [where landing = landing and rv = rv and t = t and s = s] by (simp add: settling_def has_open_turn_def)

lemma quiet_settles: "quiet_step\<^sup>*\<^sup>* s s' \<Longrightarrow> settling s s'"
proof (induction rule: rtranclp_induct)
  case (step t u)
  from step.hyps(2) have "settling t u"
    by cases (simp_all add: settling_end_turn_locked settling_withdraw settling_land)
  with step.IH show ?case by (rule settling_trans)
qed simp

lemma quiet_between: "quiet between \<Longrightarrow> settling s (between p s)"
  using quiet_settles by (simp add: quiet_def)

lemma quiet_flow_steps: "quiet_step\<^sup>*\<^sup>* s s' \<Longrightarrow> flow_step\<^sup>*\<^sup>* s s'"
proof (induction rule: rtranclp_induct)
  case (step t u)
  from step.hyps(2) have "flow_step t u" by cases (simp_all add: flow_step.intros)
  with step.IH show ?case by (rule flow_then)
qed simp

lemma no_interference: "quiet (\<lambda>_ s. s)"
  by (simp add: quiet_def)

section \<open>One submission\<close>

lemma submit_row:
  assumes "submit v s = (Some sub, s')"
  obtains row where "ft_submissions s' = ft_submissions s @ [row]" "sub_submission_id sub = fs_submission_id row"
    "sub_arrival sub = fs_arrival row" "fs_arrival row = next_arrival s" "ft_closures s' = ft_closures s" "ft_turns s' = ft_turns s"
    "fs_submission_id row = vs_submission_id v" "visit_row (vs_chunk_id v) (vs_node_id v) (vs_epoch v) row"
    "fs_generation row = vs_generation v" "ft_terms s' = ft_terms s"
    "sub_chunk_id sub = vs_chunk_id v" "sub_node_id sub = vs_node_id v" "sub_epoch sub = vs_epoch v"
proof -
  define row where "row = \<lparr>fs_submission_id = vs_submission_id v, fs_chunk_id = vs_chunk_id v, fs_node_id = vs_node_id v,
    fs_epoch = vs_epoch v, fs_generation = vs_generation v, fs_arrival = next_arrival s, fs_submitted_at = vs_at v\<rparr>"
  obtain flows s2 where f: "flows_for (vs_at v) (vs_flow_id v) (dedup (vs_resources v)) (s\<lparr>ft_submissions := ft_submissions s @ [row]\<rparr>)
      = (flows, s2)" by (rule prod.exhaust)
  from flows_for_frame [OF this] have e: "ft_submissions s2 = ft_submissions s @ [row]" "ft_closures s2 = ft_closures s"
    "ft_turns s2 = ft_turns s" "ft_terms s2 = ft_terms s" by (simp_all add: sameterms_def)
  let ?s3 = "s2\<lparr>ft_held := ft_held s2 @ map (\<lambda>f. (vs_submission_id v, fl_flow_id f)) flows\<rparr>"
  have s': "s' = snd (write_facts (map fl_flow_id flows) (vs_submission_id v) (vs_chunk_id v) FlowSubmitted None None (vs_at v) ?s3)"
    and sub: "sub = submission_of s' None row \<lparr>sub_flows := flows\<rparr>"
    using assms f by (auto simp: submit_def Let_def row_def [symmetric] split: if_splits)
  have "ft_submissions s' = ft_submissions s @ [row]" "ft_closures s' = ft_closures s" "ft_turns s' = ft_turns s" "ft_terms s' = ft_terms s"
    using e by (simp_all add: s' write_facts_def flow_simps)
  then show thesis
    by (intro that [of row]) (simp_all add: sub submission_of_def visit_row_def, simp_all add: row_def)
qed

lemma next_arrival_le: "r \<in> set (ft_submissions s) \<Longrightarrow> fs_arrival r < next_arrival s"
  by (auto simp: next_arrival_def col_max_def intro: le_imp_less_Suc)

section \<open>A pass of submissions\<close>

text \<open>From \<open>s\<close> to \<open>s'\<close> the tables gained the rows of \<open>subs\<close> and no other, and no turn was opened.\<close>

definition gained :: "flow_tables \<Rightarrow> submission list \<Rightarrow> flow_tables \<Rightarrow> bool" where
  "gained s subs s' \<longleftrightarrow>
     (\<exists>rows. ft_submissions s' = ft_submissions s @ rows \<and> map fs_arrival rows = map sub_arrival subs
        \<and> map fs_submission_id rows = map sub_submission_id subs \<and> (\<forall>r\<in>set rows. next_arrival s \<le> fs_arrival r))
     \<and> next_arrival s \<le> next_arrival s'
     \<and> prefix (ft_closures s) (ft_closures s') \<and> (\<forall>i. has_open_turn s' i \<longrightarrow> has_open_turn s i)"

lemma gained_settling: "settling s s' \<Longrightarrow> gained s [] s'"
  by (auto simp: settling_def gained_def same_places_def next_arrival_def)

lemma gained_trans:
  assumes "gained s xs t" "gained t ys u"
  shows "gained s (xs @ ys) u"
proof -
  obtain rows rows' where r: "ft_submissions t = ft_submissions s @ rows" "map fs_arrival rows = map sub_arrival xs"
    "map fs_submission_id rows = map sub_submission_id xs" "ft_submissions u = ft_submissions t @ rows'"
    "map fs_arrival rows' = map sub_arrival ys" "map fs_submission_id rows' = map sub_submission_id ys"
    "\<forall>r\<in>set rows. next_arrival s \<le> fs_arrival r" "\<forall>r\<in>set rows'. next_arrival t \<le> fs_arrival r"
    "next_arrival s \<le> next_arrival t"
    using assms by (auto simp: gained_def)
  then have "ft_submissions u = ft_submissions s @ (rows @ rows')" "map fs_arrival (rows @ rows') = map sub_arrival (xs @ ys)"
    "map fs_submission_id (rows @ rows') = map sub_submission_id (xs @ ys)"
    "\<forall>r\<in>set (rows @ rows'). next_arrival s \<le> fs_arrival r" by fastforce+
  with assms show ?thesis unfolding gained_def by (meson order_trans prefix_order.trans)
qed

lemma gained_submit:
  assumes "submit v s = (Some sub, s')"
  shows "gained s [sub] s'"
proof -
  obtain row where "ft_submissions s' = ft_submissions s @ [row]" "sub_submission_id sub = fs_submission_id row"
    "sub_arrival sub = fs_arrival row" "fs_arrival row = next_arrival s" "ft_closures s' = ft_closures s" "ft_turns s' = ft_turns s"
    by (rule submit_row [OF assms])
  moreover from this have "next_arrival s \<le> next_arrival s'" using next_arrival_le [of row s'] by simp
  ultimately show ?thesis by (auto simp: gained_def has_open_turn_def)
qed

lemma gained_open: "gained s subs s' \<Longrightarrow> is_open s' i \<Longrightarrow> is_open s i"
  by (auto simp: gained_def is_open_iff prefix_def)

lemma submit_locked_cases:
  assumes "submit_locked chunk facts mn st rs s = (out, s')"
  obtains (nothing) "out = None" "s' = s"
  | (submitted) g sub where "standing_holds st chunk facts" "generation_of s (visit_key st) = Some g"
      "submit (submission_draft mn st g rs) s = (Some sub, s')" "out = Some sub"
  using assms submit_None by (cases out) (auto simp: submit_locked_def split: if_splits option.splits)

lemma gained_isolated:
  assumes "quiet between" "submit_isolated r lk mn between st s = (out, s')"
  shows "gained s (submitted_of [out]) s'"
proof (cases "node_action (stg_node st) = None")
  case True
  with assms(2) show ?thesis by (auto simp: submit_isolated_def submitted_of_def map_filter_def gained_settling split: option.splits)
next
  case False
  let ?c = "ch_chunk_id (stg_chunk st)"
  define s1 where "s1 = between (BeforeVisit ?c) s"
  have 1: "gained s [] s1" unfolding s1_def by (rule gained_settling [OF quiet_between [OF assms(1)]])
  have here: "submit_standing r lk mn between st s = (out, s')" using assms(2) False by (simp add: submit_isolated_def)
  show ?thesis
  proof (cases "generation_of s1 (visit_key st) = None")
    case True
    with here 1 show ?thesis by (auto simp: submit_standing_def Let_def s1_def [symmetric] submitted_of_def map_filter_def)
  next
    case False
    show ?thesis
    proof (cases "resolved_here r st")
      case (VisitResolved v)
      define rs where "rs = visit_resources (rd_digest r) (rd_artifacts r ?c) v"
      have 2: "gained s [] (between (BeforeLock ?c) s1)"
        using gained_trans [OF 1 gained_settling [OF quiet_between [OF assms(1)]]] by simp
      obtain o' where o: "submit_locked (lk_chunk lk ?c) (lk_facts lk ?c) mn st rs (between (BeforeLock ?c) s1) = (o', s')"
        and out: "out = (case o' of None \<Rightarrow> VisitSkipped | Some sub \<Rightarrow> VisitSubmitted sub)"
        using here False VisitResolved
        by (auto simp: submit_standing_def Let_def s1_def [symmetric] rs_def split: prod.splits option.splits)
      from o show ?thesis
      proof (cases rule: submit_locked_cases)
        case nothing
        with out 2 show ?thesis by (simp add: submitted_of_def map_filter_def)
      next
        case (submitted g sub)
        with out gained_trans [OF 2 gained_submit] show ?thesis by (simp add: submitted_of_def map_filter_def)
      qed
    qed (use here False 1 in \<open>auto simp: submit_standing_def Let_def s1_def [symmetric] submitted_of_def map_filter_def\<close>)
  qed
qed

lemma gained_each:
  assumes "quiet between" "submit_each r lk mn between sts s = (outs, s')"
  shows "gained s (submitted_of outs) s'"
  using assms(2)
proof (induction sts arbitrary: s outs)
  case Nil
  then show ?case by (simp add: submitted_of_def map_filter_def gained_settling)
next
  case (Cons st sts)
  obtain out s1 outs' where o: "submit_isolated r lk mn between st s = (out, s1)" "submit_each r lk mn between sts s1 = (outs', s')"
    "outs = out # outs'" using Cons.prems by (auto split: prod.splits)
  have "submitted_of outs = submitted_of [out] @ submitted_of outs'"
    by (simp add: o(3) submitted_of_def map_filter_def)
  with gained_trans [OF gained_isolated [OF assms(1) o(1)] Cons.IH [OF o(2)]] show ?case by simp
qed

section \<open>Closing the departed\<close>

definition departed :: "(ident \<Rightarrow> chunk_facts) \<Rightarrow> ident set \<Rightarrow> submission \<Rightarrow> bool" where
  "departed facts turning sub \<longleftrightarrow> withdrawal_for (facts (sub_chunk_id sub)) sub \<noteq> None \<and> sub_submission_id sub \<notin> turning"

lemma closed_after: "\<not> has_open_turn s i \<Longrightarrow> \<not> is_open (snd (close_waiting i w t s)) i"
  using close_effect [of i "withdrawal_value w" t s] by (auto simp: close_waiting_def is_open_iff)

lemma close_each_spec:
  assumes "quiet between" "close_each facts turning t between subs s = ((shut, still), s')"
    and "\<And>i. has_open_turn s i \<Longrightarrow> i \<in> turning"
  shows "settling s s' \<and> still = filter (\<lambda>sub. \<not> departed facts turning sub) subs
     \<and> (\<forall>sub\<in>set subs. departed facts turning sub \<longrightarrow> \<not> is_open s' (sub_submission_id sub))"
  using assms(2,3)
proof (induction subs arbitrary: s shut still)
  case Nil
  then show ?case by simp
next
  case (Cons sub subs)
  let ?i = "sub_submission_id sub"
  show ?case
  proof (cases "departed facts turning sub")
    case False
    then obtain still' where c: "close_each facts turning t between subs s = ((shut, still'), s')" "still = sub # still'"
      using Cons.prems(1) by (auto simp: departed_def split: option.splits prod.splits)
    from Cons.IH [OF c(1) Cons.prems(2)] c(2) False show ?thesis by auto
  next
    case True
    then obtain w where w: "withdrawal_for (facts (sub_chunk_id sub)) sub = Some w" "?i \<notin> turning" by (auto simp: departed_def)
    define s1 where "s1 = snd (close_waiting ?i w t (between (BeforeClose ?i) s))"
    obtain shut' where c: "close_each facts turning t between subs s1 = ((shut', still), s')"
      using Cons.prems(1) w by (auto simp: s1_def split: prod.splits)
    have b: "settling s (between (BeforeClose ?i) s)" by (rule quiet_between [OF assms(1)])
    have 1: "settling s s1" unfolding s1_def by (rule settling_trans [OF b settling_close_waiting])
    then have "\<And>i. has_open_turn s1 i \<Longrightarrow> i \<in> turning" using Cons.prems(2) by (auto simp: settling_def)
    note ih = Cons.IH [OF c this]
    have "\<not> has_open_turn (between (BeforeClose ?i) s) ?i" using b w(2) Cons.prems(2) by (auto simp: settling_def)
    then have "\<not> is_open s1 ?i" unfolding s1_def by (rule closed_after)
    then have "\<not> is_open s' ?i" using ih settling_open by blast
    with ih True settling_trans [OF 1] show ?thesis by auto
  qed
qed

lemma close_departed_spec:
  assumes "quiet between" "close_departed r t between subs s = ((shut, still), s')"
  defines "turning \<equiv> turning_now (between BeforeTurns s)"
  shows "settling s s' \<and> still = filter (\<lambda>sub. \<not> departed (reconcile_facts r) turning sub) subs
     \<and> (\<forall>sub\<in>set subs. departed (reconcile_facts r) turning sub \<longrightarrow> \<not> is_open s' (sub_submission_id sub))"
proof -
  have "i \<in> turning" if "has_open_turn (between BeforeTurns s) i" for i
    using that by (auto simp: turning_def turning_now_def open_turns_def has_open_turn_def)
  moreover have "close_each (reconcile_facts r) turning t between subs (between BeforeTurns s) = ((shut, still), s')"
    using assms(2) by (simp add: close_departed_def turning_def Let_def)
  ultimately show ?thesis
    using close_each_spec [OF assms(1)] settling_trans [OF quiet_between [OF assms(1)]] by metis
qed

section \<open>The floor\<close>

definition floor_ok :: "int \<Rightarrow> flow_tables \<Rightarrow> bool" where
  "floor_ok low s \<longleftrightarrow> low \<le> next_arrival s
     \<and> (\<forall>r\<in>set (ft_submissions s). is_open s (fs_submission_id r) \<longrightarrow> low \<le> fs_arrival r)"

lemma open_read:
  "sub \<in> set (open_submissions_from low s) \<longleftrightarrow>
     (\<exists>r\<in>set (ft_submissions s). low \<le> fs_arrival r \<and> is_open s (fs_submission_id r) \<and> sub = submission_of s None r)"
  by (auto simp: open_submissions_from_def)

lemma submission_of_keeps [simp]:
  "sub_arrival (submission_of s c r) = fs_arrival r" "sub_submission_id (submission_of s c r) = fs_submission_id r"
  "sub_chunk_id (submission_of s c r) = fs_chunk_id r" "sub_node_id (submission_of s c r) = fs_node_id r"
  "sub_epoch (submission_of s c r) = fs_epoch r" "sub_generation (submission_of s c r) = fs_generation r"
  "sub_flows (submission_of s c r) = flows_held s (fs_submission_id r)" "sub_closed (submission_of s c r) = c"
  by (simp_all add: submission_of_def)

lemma floor_gained: "gained s subs s' \<Longrightarrow> floor_ok low s \<Longrightarrow> floor_ok low s'"
proof -
  assume g: "gained s subs s'" and ok: "floor_ok low s"
  obtain rows where rows: "ft_submissions s' = ft_submissions s @ rows" "\<forall>r\<in>set rows. next_arrival s \<le> fs_arrival r"
    "next_arrival s \<le> next_arrival s'" using g unfolding gained_def by blast
  have low: "low \<le> next_arrival s" using ok by (simp add: floor_ok_def)
  have "low \<le> fs_arrival r" if "r \<in> set (ft_submissions s')" "is_open s' (fs_submission_id r)" for r
  proof (cases "r \<in> set rows")
    case True
    with rows(2) low show ?thesis by force
  next
    case False
    with rows(1) that gained_open [OF g] ok show ?thesis by (auto simp: floor_ok_def)
  qed
  with rows(3) low show ?thesis by (simp add: floor_ok_def)
qed

lemma reconcile_floor:
  assumes "quiet between" "reconcile r lk mn i between low s = (rc, s')" "floor_ok low s"
  shows "floor_ok (rec_floor rc) s'"
proof -
  define subs where "subs = open_submissions_from low s"
  obtain outs s1 where 1: "submit_each r lk mn between (visits_due r subs) s = (outs, s1)" by (rule prod.exhaust)
  obtain shut still where 2: "close_departed r i between subs s1 = ((shut, still), s')"
      "rec_floor rc = next_floor low (still @ submitted_of outs) subs"
    using assms(2) 1 by (auto simp: reconcile_def Let_def subs_def [symmetric] split: prod.splits)
  define here where "here = map sub_arrival (still @ submitted_of outs)"
  have g: "gained s (submitted_of outs) s1" by (rule gained_each [OF assms(1) 1])
  then obtain rows where rows: "ft_submissions s1 = ft_submissions s @ rows" "map fs_arrival rows = map sub_arrival (submitted_of outs)"
    by (auto simp: gained_def)
  note c = close_departed_spec [OF assms(1) 2(1)]
  then have set2: "ft_submissions s' = ft_submissions s @ rows" using rows by (simp add: settling_def same_places_def)
  have reached: "fs_arrival r' \<in> set here" if "r' \<in> set (ft_submissions s')" "is_open s' (fs_submission_id r')" for r'
  proof (cases "r' \<in> set rows")
    case True
    then have "fs_arrival r' \<in> set (map fs_arrival rows)" by simp
    with rows(2) show ?thesis by (simp add: here_def)
  next
    case False
    with that(1) set2 have old: "r' \<in> set (ft_submissions s)" by simp
    have "is_open s (fs_submission_id r')"
      using settling_open [of s1 s'] gained_open [OF g] c that(2) by blast
    with old assms(3) have sub: "submission_of s None r' \<in> set subs" by (auto simp: subs_def open_read floor_ok_def)
    then have "submission_of s None r' \<in> set still" using c that(2) by auto
    then show ?thesis by (auto simp: here_def intro: rev_image_eqI)
  qed
  have below: "a < next_arrival s'" if "a \<in> set here" for a
  proof -
    have "a \<in> fs_arrival ` set (ft_submissions s')"
    proof (cases "a \<in> sub_arrival ` set still")
      case True
      then obtain sub where "sub \<in> set subs" "a = sub_arrival sub" using c by auto
      then show ?thesis using set2 by (auto simp: subs_def open_read)
    next
      case False
      with that have "a \<in> set (map fs_arrival rows)" by (simp add: here_def rows(2))
      with set2 show ?thesis by auto
    qed
    then show ?thesis using next_arrival_le by auto
  qed
  have grow: "next_arrival s \<le> next_arrival s'"
    using g c by (simp add: gained_def settling_def same_places_def next_arrival_def)
  show ?thesis
  proof (cases "here = []")
    case True
    have "sub_arrival sub + 1 \<le> next_arrival s'" if "sub \<in> set subs" for sub
    proof -
      obtain r' where "r' \<in> set (ft_submissions s)" "sub_arrival sub = fs_arrival r'" using \<open>sub \<in> set subs\<close> by (auto simp: subs_def open_read)
      with next_arrival_le [of r' s] grow show ?thesis by simp
    qed
    then have "rec_floor rc \<le> next_arrival s'"
      using True assms(3) grow by (auto simp: 2(2) next_floor_def here_def floor_ok_def intro!: Max.boundedI)
    with True reached show ?thesis by (auto simp: floor_ok_def)
  next
    case False
    then have f: "rec_floor rc = Min (set here)" by (simp add: 2(2) next_floor_def here_def Let_def)
    then have "rec_floor rc \<in> set here" using False by simp
    with below have "rec_floor rc \<le> next_arrival s'" by fastforce
    with f reached show ?thesis by (simp add: floor_ok_def)
  qed
qed

section \<open>The driver's floor\<close>

lemma floor_settling: "settling s s' \<Longrightarrow> floor_ok low s \<Longrightarrow> floor_ok low s'"
  using settling_open by (auto simp: floor_ok_def settling_def same_places_def next_arrival_def)

lemma floor_submit: "floor_ok low s \<Longrightarrow> floor_ok low (snd (submit v s))"
proof (cases "submit v s")
  case (Pair out s')
  assume ok: "floor_ok low s"
  show ?thesis
  proof (cases out)
    case None
    with Pair submit_None ok show ?thesis by auto
  next
    case (Some sub)
    with Pair obtain row where row: "ft_submissions s' = ft_submissions s @ [row]" "fs_arrival row = next_arrival s"
      "ft_closures s' = ft_closures s" by (metis submit_row)
    have "next_arrival s < next_arrival s'" using next_arrival_le [of row s'] row by simp
    with ok row Pair show ?thesis by (auto simp: floor_ok_def is_open_iff)
  qed
qed

lemma take_turn_places: "same_places s (snd (take_turn i po terms t turn_id s))"
  "ft_closures (snd (take_turn i po terms t turn_id s)) = ft_closures s"
proof -
  obtain out s' where r: "take_turn i po terms t turn_id s = (out, s')" by (rule prod.exhaust)
  then show "same_places s (snd (take_turn i po terms t turn_id s))"
    by (cases out) (auto dest: take_turn_None elim: take_turn_effect)
  from r show "ft_closures (snd (take_turn i po terms t turn_id s)) = ft_closures s"
    by (cases out) (auto dest: take_turn_None elim: take_turn_effect)
qed

lemma floor_places: "same_places s s' \<Longrightarrow> ft_closures s' = ft_closures s \<Longrightarrow> floor_ok low s' = floor_ok low s"
  by (simp add: floor_ok_def same_places_def next_arrival_def is_open_iff)

lemma floor_step: "flow_step s s' \<Longrightarrow> floor_ok low s \<Longrightarrow> floor_ok low s'"
proof (induction rule: flow_step.induct)
  case (step_take_turn turn_id s i po terms t)
  then show ?case using floor_places [OF take_turn_places] by blast
qed (blast intro: floor_submit floor_settling settling_end_turn_locked settling_close_waiting settling_withdraw settling_land)+

lemma end_each_settles: "quiet between \<Longrightarrow> settling s (snd (end_each subs facts names i between ts s))"
proof (induction ts arbitrary: s)
  case (Cons t ts)
  let ?s0 = "between (BeforeEnd (tn_turn_id t)) s"
  define s1 where "s1 = snd (case subs (tn_submission_id t) of
               None \<Rightarrow> end_turn_interrupted (tn_turn_id t) None (interrupted_event t None None) i ?s0
             | Some sub \<Rightarrow>
                 end_turn_locked (tn_turn_id t) TURN_INTERRUPTED
                   (map_option withdrawal_value (withdrawal_for (or_default (facts (sub_chunk_id sub))) sub))
                   (Some (interrupted_event t (Some (sub_chunk_id sub)) (names (sub_chunk_id sub, sub_node_id sub)))) i ?s0)"
  have "settling ?s0 s1"
    by (simp add: s1_def end_turn_interrupted_def settling_end_turn_locked split: option.split)
  with quiet_between [OF Cons.prems] have "settling s s1" by (rule settling_trans)
  moreover have "settling s1 (snd (end_each subs facts names i between ts s1))" by (rule Cons.IH [OF Cons.prems])
  moreover have "snd (end_each subs facts names i between (t # ts) s) = snd (end_each subs facts names i between ts s1)"
    by (simp add: s1_def Let_def split: prod.split)
  ultimately show ?case using settling_trans by metis
qed simp

lemma end_unanswered_settles: "quiet between \<Longrightarrow> settling s (snd (end_unanswered b running facts graph_of i between s))"
  by (auto simp: end_unanswered_def Let_def intro: settling_trans [OF quiet_between end_each_settles])

lemma floor_take_each:
  "quiet between \<Longrightarrow> floor_ok low s \<Longrightarrow> floor_ok low (snd (take_each r po clock turn_id between subs s))"
proof (induction subs arbitrary: s)
  case (Cons sub subs)
  let ?i = "sub_submission_id sub"
  define s1 where "s1 = snd (take_turn ?i po (candidate_terms r sub) (clock ?i) (turn_id ?i) (between (BeforeTurn ?i) s))"
  have "floor_ok low (between (BeforeTurn ?i) s)" using Cons.prems quiet_between floor_settling by blast
  then have "floor_ok low s1" unfolding s1_def using floor_places [OF take_turn_places] by blast
  from Cons.IH [OF Cons.prems(1) this] show ?case by (simp add: s1_def Let_def case_prod_beta)
qed simp

lemma floor_admit: "quiet between \<Longrightarrow> floor_ok low s \<Longrightarrow> floor_ok low (snd (admit r now clock turn_id between n s))"
  using floor_take_each floor_settling [OF quiet_between] by (auto simp: admit_def Let_def)

lemma floor_zero: "flow_inv s \<Longrightarrow> floor_ok 0 s"
proof -
  assume I: "flow_inv s"
  have "0 \<le> next_arrival s"
  proof (cases "ft_submissions s")
    case (Cons r rs)
    with flow_inv_D(12) [OF I, of r] next_arrival_le [of r s] show ?thesis by simp
  qed (simp add: next_arrival_def col_max_def)
  with flow_inv_D(12) [OF I] show ?thesis by (simp add: floor_ok_def less_imp_le)
qed

text \<open>A tenant's driver and its tables: a boot, a tick that runs through, and any transaction of the tables,
  also those a pass committed before it was cut off.\<close>

inductive driver_step :: "line_state \<times> flow_tables \<Rightarrow> line_state \<times> flow_tables \<Rightarrow> bool" where
  driver_boot: "quiet between \<Longrightarrow> driver_step (ls, s) (snd (boot_lines tk between s))"
| driver_tick: "quiet between \<Longrightarrow> driver_step (ls, s) (snd (tenant_tick tk between ls s))"
| driver_flow: "flow_step s s' \<Longrightarrow> driver_step (ls, s) (ls, s')"

lemma reconcile_floor':
  "quiet between \<Longrightarrow> floor_ok low s \<Longrightarrow>
     floor_ok (rec_floor (fst (reconcile r lk mn i between low s))) (snd (reconcile r lk mn i between low s))"
  using reconcile_floor by (metis prod.collapse)

lemma tick_floor:
  assumes "quiet between" "floor_ok (floor_of ls) s" "tenant_tick tk between ls s = (res, ls', s')"
  shows "floor_ok (floor_of ls') s'"
proof -
  define rcs where "rcs = reconcile (tk_reads tk) (tk_locked tk) (tk_mints tk) (tk_closed_at tk) between (floor_of ls) s"
  define run where "run \<longleftrightarrow> tk_forced tk \<or> line_due ls (tk_signature tk) (tk_now tk)"
  define s1 where "s1 = (if run then snd rcs else s)"
  have ls': "ls' = (if run then \<lparr>ls_floor = Some (rec_floor (fst rcs)), ls_converged = Some (tk_signature tk, tk_now tk)\<rparr> else ls)"
    using assms(3) by (auto simp: tenant_tick_def Let_def rcs_def run_def split: prod.splits)
  define s2 where "s2 = (case tk_swept_before tk of None \<Rightarrow> s1
     | Some b \<Rightarrow> snd (end_unanswered (Some b) (tk_running tk) (tk_end_facts tk) (tk_end_graph tk) (tk_end_at tk) between s1))"
  have s': "s' = snd (admit (tk_admit_reads tk) (tk_now tk) (tk_clock tk) (tk_turn_id tk) between (floor_of ls') s2)"
    using assms(3) unfolding ls' by (auto simp: tenant_tick_def Let_def rcs_def run_def s1_def s2_def split: prod.splits option.splits)
  have "floor_ok (floor_of ls') s1"
    using reconcile_floor' [OF assms(1,2)] assms(2) by (simp add: ls' s1_def rcs_def floor_of_def)
  then have "floor_ok (floor_of ls') s2"
    by (auto simp: s2_def intro: floor_settling [OF end_unanswered_settles [OF assms(1)]] split: option.split)
  with floor_admit [OF assms(1)] show ?thesis by (simp add: s')
qed

lemma boot_floor:
  assumes "quiet between" "floor_ok 0 s" "boot_lines tk between s = (n, ls', s')"
  shows "floor_ok (floor_of ls') s'"
proof -
  define s1 where "s1 = snd (recover_turns (tk_end_facts tk) (tk_end_graph tk) (tk_end_at tk) between s)"
  have "settling s s1"
    using end_unanswered_settles [OF assms(1)] by (auto simp: s1_def recover_turns_def case_prod_beta)
  then have "floor_ok 0 s1" using assms(2) floor_settling by blast
  from reconcile_floor' [OF assms(1) this, of "tk_reads tk" "tk_locked tk" "tk_mints tk" "tk_closed_at tk"] assms(3)
  show ?thesis by (auto simp: boot_lines_def s1_def floor_of_def case_prod_beta)
qed

lemma floor_reconcile:
  assumes "quiet between" "floor_ok n s"
  shows "floor_ok n (snd (reconcile r lk mn i between low s))"
proof -
  define subs where "subs = open_submissions_from low s"
  obtain outs s1 where 1: "submit_each r lk mn between (visits_due r subs) s = (outs, s1)" by (rule prod.exhaust)
  obtain shut still s' where 2: "close_departed r i between subs s1 = ((shut, still), s')" by (metis prod.exhaust)
  have "floor_ok n s1" by (rule floor_gained [OF gained_each [OF assms(1) 1] assms(2)])
  with close_departed_spec [OF assms(1) 2] have "floor_ok n s'" using floor_settling by blast
  then show ?thesis by (simp add: reconcile_def Let_def subs_def [symmetric] 1 2)
qed

lemma driver_floor:
  assumes "driver_step\<^sup>*\<^sup>* (ls0, no_flows) (ls, s)" "floor_of ls0 = 0"
  shows "floor_ok (floor_of ls) s \<and> floor_ok 0 s"
  using assms(1)
proof (induction "(ls, s)" arbitrary: ls s rule: rtranclp_induct)
  case base
  then show ?case using assms(2) floor_zero [OF flow_inv_initial] by auto
next
  case (step y)
  obtain ls1 s1 where y: "y = (ls1, s1)" by (rule prod.exhaust)
  from step.hyps(3) [OF y] have ok: "floor_ok (floor_of ls1) s1" "floor_ok 0 s1" by simp_all
  from step.hyps(2) [unfolded y] show ?case
  proof cases
    case (driver_boot between tk)
    obtain n where b: "boot_lines tk between s1 = (n, ls, s)" using driver_boot(1) by (metis prod.collapse)
    define s2 where "s2 = snd (recover_turns (tk_end_facts tk) (tk_end_graph tk) (tk_end_at tk) between s1)"
    have "floor_ok 0 s2"
      using floor_settling [OF end_unanswered_settles [OF driver_boot(2)] ok(2)] by (simp add: s2_def recover_turns_def case_prod_beta)
    then have "floor_ok 0 s"
      using floor_reconcile [OF driver_boot(2)] b by (auto simp: boot_lines_def s2_def case_prod_beta)
    with boot_floor [OF driver_boot(2) ok(2) b] show ?thesis by simp
  next
    case (driver_tick between tk)
    obtain res where t: "tenant_tick tk between ls1 s1 = (res, ls, s)" using driver_tick(1) by (metis prod.collapse)
    define s2 where "s2 = (if tk_forced tk \<or> line_due ls1 (tk_signature tk) (tk_now tk)
      then snd (reconcile (tk_reads tk) (tk_locked tk) (tk_mints tk) (tk_closed_at tk) between (floor_of ls1) s1) else s1)"
    have "floor_ok 0 s2" using floor_reconcile [OF driver_tick(2) ok(2)] ok(2) by (simp add: s2_def)
    then have "floor_ok 0 (case tk_swept_before tk of None \<Rightarrow> s2
       | Some b \<Rightarrow> snd (end_unanswered (Some b) (tk_running tk) (tk_end_facts tk) (tk_end_graph tk) (tk_end_at tk) between s2))"
      by (auto intro: floor_settling [OF end_unanswered_settles [OF driver_tick(2)]] split: option.split)
    then have "floor_ok 0 s"
      using floor_admit [OF driver_tick(2)] t
      by (auto simp: tenant_tick_def Let_def s2_def case_prod_beta split: if_splits option.splits)
    with tick_floor [OF driver_tick(2) ok(1) t] show ?thesis by simp
  next
    case driver_flow
    with floor_step [of s1 s] ok show ?thesis by simp
  qed
qed

text \<open>C25: The driver's arrival floor never hides an open submission: after any boots, ticks and
  transactions of the tables, also those of passes cut off half way, the read that starts at the
  floor the driver holds for a tenant is the read of all open submissions in arrival order.\<close>

theorem every_open_submission_is_read:
  assumes "driver_step\<^sup>*\<^sup>* (\<lparr>ls_floor = None, ls_converged = None\<rparr>, no_flows) (ls, s)"
  shows "open_submissions_from (floor_of ls) s =
    map (submission_of s None) (sort_key fs_arrival (filter (\<lambda>r. is_open s (fs_submission_id r)) (ft_submissions s)))"
proof -
  have "floor_ok (floor_of ls) s" using driver_floor [OF assms] by (simp add: floor_of_def)
  then have "filter (\<lambda>r. floor_of ls \<le> fs_arrival r \<and> is_open s (fs_submission_id r)) (ft_submissions s)
      = filter (\<lambda>r. is_open s (fs_submission_id r)) (ft_submissions s)"
    by (intro filter_cong) (auto simp: floor_ok_def)
  then show ?thesis by (simp add: open_submissions_from_def)
qed

section \<open>Admission\<close>

lemma find_distinct: "distinct (map f xs) \<Longrightarrow> x \<in> set xs \<Longrightarrow> List.find (\<lambda>y. f y = f x) xs = Some x"
  by (induction xs) auto

lemma find_row: "flow_inv s \<Longrightarrow> r \<in> set (ft_submissions s) \<Longrightarrow> find_submission s (fs_submission_id r) = Some r"
  using find_distinct [OF flow_inv_D(2), of s r] by (simp add: find_submission_def)

lemma turning_now_iff: "i \<in> turning_now s \<longleftrightarrow> has_open_turn s i"
  by (auto simp: turning_now_def open_turns_def has_open_turn_def)

text \<open>The store takes a turn exactly when the flows are free and whoever is ahead was passed over.\<close>

lemma take_turn_taken:
  assumes "flow_inv s" "r \<in> set (ft_submissions s)" "is_open s (fs_submission_id r)" "\<not> has_open_turn s (fs_submission_id r)"
    and "ahead_on s (fl_flow_id ` set (flows_held s (fs_submission_id r))) (fs_arrival r) \<subseteq> po"
  shows "fst (take_turn (fs_submission_id r) po terms t turn_id s) = None
     \<longleftrightarrow> flow_busy s (fl_flow_id ` set (flows_held s (fs_submission_id r)))"
  using assms find_row [OF assms(1,2)] by (auto simp: take_turn_def Let_def flow_busy_def)

text \<open>While admission runs: places as at the start, and only turns of submissions already considered
  opened.\<close>

definition admitting :: "flow_tables \<Rightarrow> submission set \<Rightarrow> flow_tables \<Rightarrow> bool" where
  "admitting s tried s' \<longleftrightarrow> flow_inv s' \<and> same_places s s' \<and> ft_closures s' = ft_closures s
     \<and> (\<exists>new. ft_turns s' = ft_turns s @ new \<and> tn_submission_id ` set new \<subseteq> sub_submission_id ` tried)"

lemma disjoint_insert_sub: "A \<inter> B = {} \<Longrightarrow> x \<notin> A \<Longrightarrow> C \<subseteq> insert x B \<Longrightarrow> A \<inter> C = {}"
  by blast

lemma take_each_exact:
  assumes "admitting s tried s'"
    and "\<And>sub. sub \<in> set subs \<Longrightarrow> \<exists>r\<in>set (ft_submissions s). sub = submission_of s None r \<and> is_open s (fs_submission_id r)
        \<and> \<not> has_open_turn s (fs_submission_id r)
        \<and> ahead_on s (fl_flow_id ` set (flows_held s (fs_submission_id r))) (fs_arrival r) \<subseteq> po"
    and "\<And>x y. x \<in> tried \<union> set subs \<Longrightarrow> y \<in> set subs \<Longrightarrow> x \<noteq> y \<Longrightarrow> held_ids x \<inter> held_ids y = {} \<and> sub_submission_id x \<noteq> sub_submission_id y"
    and "\<And>x. x \<in> tried \<Longrightarrow> held_ids x = fl_flow_id ` set (flows_held s (sub_submission_id x))"
    and "distinct subs" "tried \<inter> set subs = {}" "inj_on turn_id (sub_submission_id ` set subs)"
    and "turn_id ` sub_submission_id ` set subs \<inter> tn_turn_id ` set (ft_turns s') = {}"
  shows "map adm_submission (fst (take_each r po clock turn_id (\<lambda>_ s. s) subs s'))
     = filter (\<lambda>sub. \<not> flow_busy s (held_ids sub)) subs"
  using assms
proof (induction subs arbitrary: tried s')
  case (Cons sub subs)
  obtain row where row: "row \<in> set (ft_submissions s)" "sub = submission_of s None row" "is_open s (fs_submission_id row)"
    "\<not> has_open_turn s (fs_submission_id row)" "ahead_on s (fl_flow_id ` set (flows_held s (fs_submission_id row))) (fs_arrival row) \<subseteq> po"
    using Cons.prems(2) [of sub] by auto
  let ?i = "fs_submission_id row"
  from Cons.prems(1) obtain new where a: "flow_inv s'" "same_places s s'" "ft_closures s' = ft_closures s"
    "ft_turns s' = ft_turns s @ new" "tn_submission_id ` set new \<subseteq> sub_submission_id ` tried" by (auto simp: admitting_def)
  have held: "flows_held s' j = flows_held s j" for j by (rule same_places_held [OF a(2)])
  have mine: "held_ids sub = fl_flow_id ` set (flows_held s ?i)" by (simp add: row(2) held_ids_def)
  have fresh: "f \<notin> held_ids sub" if "u \<in> set new" "(tn_submission_id u, f) \<in> set (ft_held s)" for u f
  proof -
    obtain x where x: "tn_submission_id u = sub_submission_id x" "x \<in> tried"
      using subsetD [OF a(5) imageI [OF \<open>u \<in> set new\<close>]] by (rule imageE)
    have "f \<in> {f. (sub_submission_id x, f) \<in> set (ft_held s')}" using that(2) a(2) x(1) by (simp add: same_places_def)
    then have "f \<in> held_ids x" unfolding held_flow_ids [OF a(1), symmetric] Cons.prems(4) [OF x(2)] held .
    moreover have "x \<noteq> sub" using x(2) Cons.prems(6) by auto
    then have "held_ids x \<inter> held_ids sub = {}" by (intro Cons.prems(3) [THEN conjunct1] UnI1 x(2) list.set_intros(1))
    ultimately show ?thesis by blast
  qed
  have busy: "flow_busy s' (held_ids sub) = flow_busy s (held_ids sub)"
    using a(2,4) fresh by (auto simp: flow_busy_def same_places_def)
  have "tn_submission_id u \<noteq> ?i" if "u \<in> set new" for u
  proof -
    obtain x where x: "tn_submission_id u = sub_submission_id x" "x \<in> tried" using subsetD [OF a(5) imageI [OF \<open>u \<in> set new\<close>]] by (rule imageE)
    moreover have "x \<noteq> sub" using x(2) Cons.prems(6) by auto
    ultimately show ?thesis using Cons.prems(3) [of x sub] x row(2) by auto
  qed
  then have turn: "\<not> has_open_turn s' ?i" using row(4) a(4) by (auto simp: has_open_turn_def)
  have "row \<in> set (ft_submissions s')" "is_open s' ?i" "ahead_on s' (fl_flow_id ` set (flows_held s' ?i)) (fs_arrival row) \<subseteq> po"
    using row a(2,3) by (auto simp: same_places_def is_open_iff ahead_on_def held)
  note taken = take_turn_taken [OF a(1) this(1,2) turn this(3), of "candidate_terms r sub" "clock ?i" "turn_id ?i"]
  obtain out s2 where t: "take_turn ?i po (candidate_terms r sub) (clock ?i) (turn_id ?i) s' = (out, s2)" by (rule prod.exhaust)
  have out: "out = None \<longleftrightarrow> flow_busy s (held_ids sub)" using taken busy by (simp add: t held mine)
  have "turn_id ?i \<notin> tn_turn_id ` set (ft_turns s')" using Cons.prems(8) row(2) by auto
  with take_turn_inv [OF a(1), of "turn_id ?i" ?i po "candidate_terms r sub" "clock ?i"] t have inv: "flow_inv s2" by simp
  have nxt: "admitting s (insert sub tried) s2 \<and> tn_turn_id ` set (ft_turns s2) \<subseteq> insert (turn_id ?i) (tn_turn_id ` set (ft_turns s'))"
  proof (cases out)
    case None
    with take_turn_None t have "s2 = s'" by metis
    with Cons.prems(1) show ?thesis by (auto simp: admitting_def)
  next
    case (Some u)
    with t obtain row' where u: "u = \<lparr>tn_turn_id = turn_id ?i, tn_submission_id = ?i, tn_started_at = clock ?i, tn_ended_at = None, tn_outcome = None\<rparr>"
      "same_places s' s2" "ft_turns s2 = ft_turns s' @ [u]" "ft_closures s2 = ft_closures s'" by (metis take_turn_effect)
    then have "ft_turns s2 = ft_turns s @ (new @ [u])" "tn_submission_id ` set (new @ [u]) \<subseteq> sub_submission_id ` insert sub tried"
      using a(4,5) row(2) by auto
    then have "admitting s (insert sub tried) s2"
      unfolding admitting_def using inv same_places_trans [OF a(2) u(2)] u(4) a(3) by (metis (no_types, lifting))
    moreover have "tn_turn_id ` set (ft_turns s2) \<subseteq> insert (turn_id ?i) (tn_turn_id ` set (ft_turns s'))" using u(1,3) by auto
    ultimately show ?thesis by simp
  qed
  have "map adm_submission (fst (take_each r po clock turn_id (\<lambda>_ s. s) subs s2)) = filter (\<lambda>sub. \<not> flow_busy s (held_ids sub)) subs"
  proof (rule Cons.IH [of "insert sub tried"])
    show "admitting s (insert sub tried) s2" using nxt by simp
    show "held_ids x = fl_flow_id ` set (flows_held s (sub_submission_id x))" if "x \<in> insert sub tried" for x
      using that Cons.prems(4) mine row(2) by auto
    show "turn_id ` sub_submission_id ` set subs \<inter> tn_turn_id ` set (ft_turns s2) = {}"
    proof -
      have "turn_id ?i \<noteq> turn_id (sub_submission_id x)" if "x \<in> set subs" for x
      proof -
        have "sub_submission_id x \<noteq> ?i" using that Cons.prems(3) [of x sub] Cons.prems(5) row(2) by auto
        with Cons.prems(7) that row(2) show ?thesis by (auto simp: inj_on_def)
      qed
      then have "turn_id ?i \<notin> turn_id ` sub_submission_id ` set subs" by (simp add: image_iff)
      from disjoint_insert_sub [OF _ this nxt [THEN conjunct2]] Cons.prems(8) show ?thesis by simp
    qed
    show "\<exists>r\<in>set (ft_submissions s). x = submission_of s None r \<and> is_open s (fs_submission_id r) \<and> \<not> has_open_turn s (fs_submission_id r)
        \<and> ahead_on s (fl_flow_id ` set (flows_held s (fs_submission_id r))) (fs_arrival r) \<subseteq> po" if "x \<in> set subs" for x
      by (rule Cons.prems(2)) (simp add: that)
    show "held_ids x \<inter> held_ids y = {} \<and> sub_submission_id x \<noteq> sub_submission_id y"
      if "x \<in> insert sub tried \<union> set subs" "y \<in> set subs" "x \<noteq> y" for x y
      by (rule Cons.prems(3)) (use that in simp_all)
    show "distinct subs" "insert sub tried \<inter> set subs = {}" using Cons.prems(5,6) by simp_all
    show "inj_on turn_id (sub_submission_id ` set subs)" by (rule inj_on_subset [OF Cons.prems(7)]) auto
  qed
  then show ?case using t out row(2) by (cases out) (simp_all add: Let_def case_prod_beta)
qed simp

lemma open_arrivals_distinct:
  assumes "flow_inv s" "x \<in> set (open_submissions_from low s)" "y \<in> set (open_submissions_from low s)"
  shows "sub_submission_id x = sub_submission_id y \<longleftrightarrow> x = y" "sub_arrival x = sub_arrival y \<longleftrightarrow> x = y"
proof -
  obtain r r' where r: "r \<in> set (ft_submissions s)" "x = submission_of s None r" "r' \<in> set (ft_submissions s)" "y = submission_of s None r'"
    using assms(2,3) by (auto simp: open_read)
  have "distinct (map fs_arrival (ft_submissions s))"
    using flow_inv_D(3) [OF assms(1)] strict_sorted_iff by blast
  then have "fs_arrival r = fs_arrival r' \<longleftrightarrow> r = r'" "fs_submission_id r = fs_submission_id r' \<longleftrightarrow> r = r'"
    using r flow_inv_D(2) [OF assms(1)] by (auto simp: distinct_map inj_on_eq_iff)
  then show "sub_submission_id x = sub_submission_id y \<longleftrightarrow> x = y" "sub_arrival x = sub_arrival y \<longleftrightarrow> x = y"
    unfolding r(2,4) using submission_of_keeps(1,2) by metis+
qed

lemma distinct_open_submissions: "flow_inv s \<Longrightarrow> distinct (open_submissions_from low s)"
proof -
  assume I: "flow_inv s"
  have "distinct (map fs_submission_id (filter P (ft_submissions s)))" for P
    using flow_inv_D(2) [OF I] by (simp add: distinct_map_filter)
  then have "distinct (map fs_submission_id (sort_key fs_arrival (filter P (ft_submissions s))))" for P
    by (simp add: distinct_map)
  then have "distinct (map sub_submission_id (open_submissions_from low s))"
    by (simp add: open_submissions_from_def comp_def)
  then show ?thesis by (simp add: distinct_map)
qed

lemma nexts_apart:
  assumes "flow_inv s" "x \<in> set subs" "y \<in> set subs" "is_next l now x" "is_next l now y" "x \<noteq> y"
    and "subs = open_submissions_from low s" "ln_submissions l = subs"
  shows "held_ids x \<inter> held_ids y = {}"
proof (rule ccontr)
  assume "held_ids x \<inter> held_ids y \<noteq> {}"
  moreover have "sub_arrival x < sub_arrival y \<or> sub_arrival y < sub_arrival x"
    using open_arrivals_distinct(2) [OF assms(1), of x low y] assms by (meson linorder_neqE)
  ultimately show False using assms unfolding is_next_def by (metis Int_commute)
qed

text \<open>C26: If nothing else commits during it and its floor hides no open submission, an admission pass
  starts a turn for exactly the submissions the line derives as next on flows no turn holds, in
  line order: none of them is starved by another started in the same pass, and nothing else
  starts.\<close>

theorem admitted_are_next:
  fixes r :: line_reads
  assumes "flow_step\<^sup>*\<^sup>* no_flows s" "floor_ok low s"
    and "inj turn_id" "range turn_id \<inter> tn_turn_id ` set (ft_turns s) = {}"
  defines "subs \<equiv> open_submissions_from low s"
  defines "l \<equiv> admission_line r subs s"
  shows "map adm_submission (fst (admit r now clock turn_id (\<lambda>_ s. s) low s))
      = filter (\<lambda>sub. is_next l now sub \<and> \<not> flow_busy s (held_ids sub)) subs"
proof (cases "subs = []")
  case True
  then show ?thesis by (simp add: admit_def subs_def)
next
  case False
  have I: "flow_inv s" by (rule reachable_inv [OF assms(1)])
  let ?po = "sub_submission_id ` {sub \<in> set subs. \<not> eligible l now sub}"
  let ?nexts = "filter (is_next l now) subs"
  have lns: "ln_submissions l = subs" "ln_turning l = turning_now s" by (simp_all add: l_def admission_line_def line_of_def)
  have "map adm_submission (fst (take_each r ?po clock turn_id (\<lambda>_ s. s) ?nexts s))
      = filter (\<lambda>sub. \<not> flow_busy s (held_ids sub)) ?nexts"
  proof (rule take_each_exact [where tried = "{}"])
    show "admitting s {} s" using I by (simp add: admitting_def)
    show "\<exists>row\<in>set (ft_submissions s). sub = submission_of s None row \<and> is_open s (fs_submission_id row)
        \<and> \<not> has_open_turn s (fs_submission_id row)
        \<and> ahead_on s (fl_flow_id ` set (flows_held s (fs_submission_id row))) (fs_arrival row) \<subseteq> ?po"
      if n: "sub \<in> set ?nexts" for sub
    proof -
      obtain row where row: "row \<in> set (ft_submissions s)" "is_open s (fs_submission_id row)" "sub = submission_of s None row"
        using n by (auto simp: subs_def open_read)
      have nx: "is_next l now sub" using n by simp
      then have "sub_submission_id sub \<notin> turning_now s" by (auto simp: is_next_def eligible_def lns split: if_splits)
      then have turn: "\<not> has_open_turn s (fs_submission_id row)" by (simp add: turning_now_iff row(3))
      have "i \<in> ?po" if ahead: "i \<in> ahead_on s (fl_flow_id ` set (flows_held s (fs_submission_id row))) (fs_arrival row)" for i
      proof -
        obtain o' f where o: "o' \<in> set (ft_submissions s)" "i = fs_submission_id o'" "is_open s i" "fs_arrival o' < fs_arrival row"
            "f \<in> fl_flow_id ` set (flows_held s (fs_submission_id row))" "(i, f) \<in> set (ft_held s)"
          using ahead by (auto simp: ahead_on_def)
        then have mem: "submission_of s None o' \<in> set subs" using assms(2) by (auto simp: subs_def open_read floor_ok_def)
        have "f \<in> held_ids sub \<inter> held_ids (submission_of s None o')"
          using o(2,5,6) held_flow_ids [OF I, of i] by (simp add: held_ids_def row(3))
        then have "\<not> eligible l now (submission_of s None o')"
          using nx mem o(4) unfolding is_next_def lns row(3) by auto
        with mem o(2) show ?thesis by force
      qed
      with row turn show ?thesis by blast
    qed
    show "held_ids x \<inter> held_ids y = {} \<and> sub_submission_id x \<noteq> sub_submission_id y"
      if "x \<in> {} \<union> set ?nexts" "y \<in> set ?nexts" "x \<noteq> y" for x y
      using that nexts_apart [OF I, of x subs y l now low] open_arrivals_distinct(1) [OF I, of x low y]
      by (auto simp: lns subs_def)
    show "distinct ?nexts" using distinct_open_submissions [OF I] by (simp add: subs_def)
    show "inj_on turn_id (sub_submission_id ` set ?nexts)" using assms(3) by (rule inj_on_subset) simp
    show "turn_id ` sub_submission_id ` set ?nexts \<inter> tn_turn_id ` set (ft_turns s) = {}" using assms(4) by auto
  qed simp_all
  then show ?thesis using False by (simp add: admit_def Let_def subs_def [symmetric] l_def [symmetric] conj_commute)
qed

section \<open>Departures\<close>

lemma may_pass_stays: "may_pass f sub \<Longrightarrow> withdrawal_for f sub = None"
  by (simp add: may_pass_def delivering_at_def withdrawal_for_def is_current_def)

lemma gained_closures: "gained s subs s' \<Longrightarrow> closure_of s i = Some c \<Longrightarrow> closure_of s' i = Some c"
  by (auto simp: gained_def closure_of_def prefix_def)

lemma settling_closures: "settling s s' \<Longrightarrow> closure_of s i = Some c \<Longrightarrow> closure_of s' i = Some c"
  by (auto simp: settling_def closure_of_def prefix_def)

lemma close_waiting_closure:
  "closure_of (snd (close_waiting i w t s)) j =
     (if j = i \<and> is_open s i \<and> \<not> has_open_turn s i then Some \<lparr>cl_outcome = withdrawal_value w, cl_closed_at = t\<rparr> else closure_of s j)"
  using close_effect [of i "withdrawal_value w" t s]
  by (auto simp: close_waiting_def is_open_def closure_of_def map_of_append map_add_def split: option.split)

text \<open>Alone, the pass closes the departed and nobody else.\<close>

lemma close_each_alone:
  assumes "distinct (map sub_submission_id subs)" "\<And>i. has_open_turn s i \<Longrightarrow> i \<in> turning"
    and "\<And>sub. sub \<in> set subs \<Longrightarrow> is_open s (sub_submission_id sub)"
  shows "(\<forall>sub\<in>set subs. closure_of (snd (close_each facts turning t (\<lambda>_ s. s) subs s)) (sub_submission_id sub)
     = (if sub_submission_id sub \<in> turning then None
        else map_option (\<lambda>w. \<lparr>cl_outcome = withdrawal_value w, cl_closed_at = t\<rparr>) (withdrawal_for (facts (sub_chunk_id sub)) sub)))
   \<and> (\<forall>i. i \<notin> sub_submission_id ` set subs \<longrightarrow>
       closure_of (snd (close_each facts turning t (\<lambda>_ s. s) subs s)) i = closure_of s i)"
  using assms
proof (induction subs arbitrary: s)
  case (Cons x subs)
  let ?x = "sub_submission_id x"
  let ?w = "withdrawal_for (facts (sub_chunk_id x)) x"
  let ?shut = "?w \<noteq> None \<and> ?x \<notin> turning"
  define s1 where "s1 = (if ?shut then snd (close_waiting ?x (the ?w) t s) else s)"
  have step: "snd (close_each facts turning t (\<lambda>_ s. s) (x # subs) s) = snd (close_each facts turning t (\<lambda>_ s. s) subs s1)"
    by (auto simp: s1_def Let_def case_prod_beta split: option.splits)
  have settle: "settling s s1" by (simp add: s1_def settling_close_waiting)
  have turn: "\<And>i. has_open_turn s1 i \<Longrightarrow> i \<in> turning" using settle Cons.prems(2) by (auto simp: settling_def)
  have clo: "closure_of s1 j = (if j = ?x \<and> ?shut then Some \<lparr>cl_outcome = withdrawal_value (the ?w), cl_closed_at = t\<rparr> else closure_of s j)" for j
    using Cons.prems(2) [of ?x] Cons.prems(3) [of x] by (auto simp: s1_def close_waiting_closure)
  have dist: "?x \<notin> sub_submission_id ` set subs" "distinct (map sub_submission_id subs)" using Cons.prems(1) by auto
  have "is_open s1 (sub_submission_id y)" if "y \<in> set subs" for y
  proof -
    have "sub_submission_id y \<noteq> ?x" using that dist(1) by (metis image_eqI)
    with Cons.prems(3) [of y] that show ?thesis by (simp add: is_open_def clo)
  qed
  note ih = Cons.IH [OF dist(2) turn this]
  have "closure_of s1 ?x = (if ?x \<in> turning then None else map_option (\<lambda>w. \<lparr>cl_outcome = withdrawal_value w, cl_closed_at = t\<rparr>) ?w)"
    using Cons.prems(3) [of x] by (cases ?w) (auto simp: clo is_open_def)
  with ih dist(1) clo show ?case unfolding step by auto
qed simp

lemma submit_isolated_alone:
  "ft_closures (snd (submit_isolated r lk mn (\<lambda>_ s. s) st s)) = ft_closures s
   \<and> ft_turns (snd (submit_isolated r lk mn (\<lambda>_ s. s) st s)) = ft_turns s"
proof -
  have locked: "ft_closures s' = ft_closures s \<and> ft_turns s' = ft_turns s"
    if "submit_locked c f mn st rs s = (out, s')" for c f rs out s'
    using that by (cases rule: submit_locked_cases) (auto elim: submit_row)
  show ?thesis
    by (auto simp: submit_isolated_def submit_standing_def Let_def dest: locked split: visit_answer.split prod.split option.split)
qed

lemma submit_each_alone:
  "ft_closures (snd (submit_each r lk mn (\<lambda>_ s. s) sts s)) = ft_closures s
   \<and> ft_turns (snd (submit_each r lk mn (\<lambda>_ s. s) sts s)) = ft_turns s"
proof (induction sts arbitrary: s)
  case (Cons st sts)
  then show ?case using submit_isolated_alone [of r lk mn st s] by (simp add: Let_def case_prod_beta)
qed simp

text \<open>C27: A reconcile withdraws every open submission whose chunk no longer stands where it was
  submitted, unless its turn runs, whatever commits in between; it never withdraws one that may
  pass; and with nothing in between the closure recorded is the one its chunk's facts call for.\<close>

theorem departed_submissions_leave:
  assumes "flow_step\<^sup>*\<^sup>* no_flows s" "sub \<in> set (open_submissions_from low s)"
    and "reconcile r lk mn i between low s = (rc, s')" "quiet between"
  defines "departure \<equiv> withdrawal_for (reconcile_facts r (sub_chunk_id sub)) sub"
  shows "(departure \<noteq> None \<and> \<not> has_open_turn s (sub_submission_id sub) \<longrightarrow> \<not> is_open s' (sub_submission_id sub))
    \<and> (may_pass (reconcile_facts r (sub_chunk_id sub)) sub \<longrightarrow> departure = None)
    \<and> (between = (\<lambda>_ s. s) \<longrightarrow> map_option cl_outcome (closure_of s' (sub_submission_id sub))
         = (if has_open_turn s (sub_submission_id sub) then None else map_option withdrawal_value departure))"
proof -
  have I: "flow_inv s" by (rule reachable_inv [OF assms(1)])
  define subs where "subs = open_submissions_from low s"
  obtain outs s1 where 1: "submit_each r lk mn between (visits_due r subs) s = (outs, s1)" by (rule prod.exhaust)
  obtain shut still where 2: "close_departed r i between subs s1 = ((shut, still), s')"
    using assms(3) 1 by (auto simp: reconcile_def Let_def subs_def [symmetric] split: prod.splits)
  have g: "gained s (submitted_of outs) s1" by (rule gained_each [OF assms(4) 1])
  have sub: "sub \<in> set subs" using assms(2) by (simp add: subs_def)
  have turning: "has_open_turn (between BeforeTurns s1) j \<Longrightarrow> has_open_turn s j" for j
    using g quiet_between [OF assms(4)] by (auto simp: gained_def settling_def)
  have "\<not> is_open s' (sub_submission_id sub)" if "departure \<noteq> None" "\<not> has_open_turn s (sub_submission_id sub)"
    using close_departed_spec [OF assms(4) 2] sub that turning by (auto simp: departed_def departure_def turning_now_iff)
  moreover have "departure = None" if "may_pass (reconcile_facts r (sub_chunk_id sub)) sub"
    using may_pass_stays [OF that] by (simp add: departure_def)
  moreover have "map_option cl_outcome (closure_of s' (sub_submission_id sub))
         = (if has_open_turn s (sub_submission_id sub) then None else map_option withdrawal_value departure)"
    if alone: "between = (\<lambda>_ s. s)"
  proof -
    have "inj_on sub_submission_id (set subs)"
      using open_arrivals_distinct(1) [OF I] by (auto simp: inj_on_def subs_def)
    then have "distinct (map sub_submission_id subs)"
      using distinct_open_submissions [OF I] by (simp add: distinct_map subs_def)
    moreover have same: "ft_closures s1 = ft_closures s" "ft_turns s1 = ft_turns s"
      using submit_each_alone [of r lk mn "visits_due r subs" s] 1 alone by simp_all
    moreover have "is_open s1 (sub_submission_id x)" if "x \<in> set subs" for x
      using that same(1) by (auto simp: subs_def open_read is_open_def closure_of_def)
    moreover have "has_open_turn s1 j = has_open_turn s j" for j using same(2) by (simp add: has_open_turn_def)
    ultimately show ?thesis
      using close_each_alone [of subs s1 "turning_now s1" "reconcile_facts r" i] sub 2 alone
      by (auto simp: close_departed_def turning_now_iff Let_def departure_def option.map_comp comp_def)
  qed
  ultimately show ?thesis by blast
qed

end
