(* ===== verification/Flow_Visits.thy ===== *)
theory Flow_Visits
  imports Flow_Line_Laws
begin

text \<open>
  A visit's submissions: which visits a reconcile submits, that a visit never has two submissions open,
  and that the terms it lands on are settled once, at whichever of its generations.
\<close>

section \<open>What a reconcile submits\<close>

definition submits :: "line_reads \<Rightarrow> locked_reads \<Rightarrow> flow_tables \<Rightarrow> standing \<Rightarrow> bool" where
  "submits r lk s st \<longleftrightarrow>
     (case resolved_here r st of VisitResolved v \<Rightarrow> True | _ \<Rightarrow> False)
     \<and> node_action (stg_node st) \<noteq> None \<and> generation_of s (visit_key st) \<noteq> None
     \<and> standing_holds st (lk_chunk lk (ch_chunk_id (stg_chunk st))) (lk_facts lk (ch_chunk_id (stg_chunk st)))"

definition resources_of :: "line_reads \<Rightarrow> standing \<Rightarrow> flow_resource list" where
  "resources_of r st =
     (case resolved_here r st of
        VisitResolved v \<Rightarrow> visit_resources (rd_digest r) (rd_artifacts r (ch_chunk_id (stg_chunk st))) v | _ \<Rightarrow> [])"

lemma flows_fold_res:
  "fold (\<lambda>r (flows, s). let (f, s') = flow_for t r (fresh r) s in (flows @ [f], s')) rs (fs, s) = (fs', s')
     \<Longrightarrow> map flow_res fs' = map flow_res fs @ map resource rs"
proof (induction rs arbitrary: fs s)
  case (Cons r rs)
  obtain f s1 where f: "flow_for t r (fresh r) s = (f, s1)" by (rule prod.exhaust)
  then have "flow_res f = resource r"
    by (auto simp: flow_for_def Let_def flow_res_def resource_def split: option.splits dest: find_SomeD)
  with Cons.IH [of "fs @ [f]" s1] Cons.prems f show ?case by simp
qed simp

lemma flows_for_res: "flows_for t fresh rs s = (fs, s') \<Longrightarrow> map flow_res fs = map resource rs"
  using flows_fold_res [of t fresh rs "[]" s fs s'] by (simp add: flows_for_def)

lemma submit_flows: "submit v s = (Some sub, s') \<Longrightarrow> map flow_res (sub_flows sub) = map resource (dedup (vs_resources v))"
  by (auto simp: submit_def Let_def dest!: flows_for_res split: if_splits prod.splits)

lemma visit_row_same: "visit_row c n e r \<Longrightarrow> visit_row c' n' e' r \<longleftrightarrow> c = c' \<and> n = n' \<and> e = e'"
  by (auto simp: visit_row_def)

lemma generation_eq:
  "generation_of s (c, n, e) =
     (case max_by fs_generation (filter (visit_row c n e) (ft_submissions s)) of
        None \<Rightarrow> Some 0
      | Some r \<Rightarrow> if map_option cl_outcome (closure_of s (fs_submission_id r)) = Some TURN_SUPERSEDED
                  then Some (fs_generation r + 1) else None)"
  by (cases "max_by fs_generation (filter (visit_row c n e) (ft_submissions s))")
    (simp_all add: generation_of_def submission_for_visit_def)

lemma generation_submitted:
  assumes "ft_submissions s' = ft_submissions s @ [row]" "ft_closures s' = ft_closures s" "visit_row c n e row"
    and "k \<noteq> (c, n, e)"
  shows "generation_of s' k = generation_of s k"
proof -
  obtain c' n' e' where k: "k = (c', n', e')" by (rule prod_cases3)
  have "\<not> visit_row c' n' e' row" using assms(3,4) by (auto simp: k visit_row_def)
  then have "filter (visit_row c' n' e') (ft_submissions s') = filter (visit_row c' n' e') (ft_submissions s)"
    using assms(1) by simp
  moreover have "closure_of s' i = closure_of s i" for i using assms(2) by (simp add: closure_of_def)
  ultimately show ?thesis
    by (cases "max_by fs_generation (filter (visit_row c' n' e') (ft_submissions s))") (simp_all add: k generation_eq)
qed

lemma submit_fails: "submit v s = (None, s') \<Longrightarrow>
   \<exists>r\<in>set (ft_submissions s). visit_row (vs_chunk_id v) (vs_node_id v) (vs_epoch v) r \<and> fs_generation r = vs_generation v"
  by (auto simp: submit_def Let_def split: if_splits prod.splits)

lemma generation_fresh:
  assumes "generation_of s (c, n, e) = Some g" "r \<in> set (ft_submissions s)" "visit_row c n e r"
  shows "fs_generation r < g"
proof -
  have "filter (visit_row c n e) (ft_submissions s) \<noteq> []" using assms(2,3) by (auto simp: filter_empty_conv)
  then obtain m where m: "max_by fs_generation (filter (visit_row c n e) (ft_submissions s)) = Some m" using max_by_Some_ex by blast
  have "fs_generation r \<le> fs_generation m" by (rule max_by_greatest [OF m]) (use assms(2,3) in simp)
  with assms(1) m show ?thesis by (auto simp: generation_eq split: if_splits)
qed

lemma draft_keeps [simp]:
  "vs_chunk_id (submission_draft mn st g rs) = ch_chunk_id (stg_chunk st)" "vs_node_id (submission_draft mn st g rs) = node_id (stg_node st)"
  "vs_epoch (submission_draft mn st g rs) = stg_epoch st" "vs_generation (submission_draft mn st g rs) = g"
  "vs_resources (submission_draft mn st g rs) = rs" "vs_submission_id (submission_draft mn st g rs) = mn_submission_id mn (ch_chunk_id (stg_chunk st))"
  by (simp_all add: submission_draft_def Let_def)

lemma submit_isolated_exact:
  assumes "submit_isolated r lk mn (\<lambda>_ s. s) st s = (out, s')"
  obtains (no) "\<not> submits r lk s st" "submitted_of [out] = []" "s' = s"
  | (yes) sub row where "submits r lk s st" "submitted_of [out] = [sub]" "ft_submissions s' = ft_submissions s @ [row]"
      "ft_closures s' = ft_closures s" "visit_row (ch_chunk_id (stg_chunk st)) (node_id (stg_node st)) (stg_epoch st) row"
      "(sub_chunk_id sub, sub_node_id sub, sub_epoch sub) = visit_key st" "sub_arrival sub = next_arrival s" "fs_arrival row = next_arrival s"
      "map flow_res (sub_flows sub) = map resource (dedup (resources_of r st))"
proof (cases "submits r lk s st")
  case True
  then obtain v g where v: "resolved_here r st = VisitResolved v" "generation_of s (visit_key st) = Some g"
    "node_action (stg_node st) \<noteq> None"
    "standing_holds st (lk_chunk lk (ch_chunk_id (stg_chunk st))) (lk_facts lk (ch_chunk_id (stg_chunk st)))"
    by (auto simp: submits_def split: visit_answer.splits)
  let ?d = "submission_draft mn st g (resources_of r st)"
  obtain o' s1 where o: "submit ?d s = (o', s1)" by (rule prod.exhaust)
  have "o' \<noteq> None"
    using submit_fails [of ?d s s1] o generation_fresh [of s "ch_chunk_id (stg_chunk st)" "node_id (stg_node st)" "stg_epoch st" g] v(2)
    by (auto simp: visit_key_def)
  then obtain sub where sub: "submit ?d s = (Some sub, s1)" using o by auto
  then have here: "out = VisitSubmitted sub" "s' = s1"
    using assms v by (auto simp: submit_isolated_def submit_standing_def Let_def submit_locked_def resources_of_def)
  obtain row where row: "ft_submissions s1 = ft_submissions s @ [row]" "ft_closures s1 = ft_closures s" "sub_arrival sub = fs_arrival row"
    "fs_arrival row = next_arrival s" "visit_row (vs_chunk_id ?d) (vs_node_id ?d) (vs_epoch ?d) row" "sub_chunk_id sub = vs_chunk_id ?d"
    "sub_node_id sub = vs_node_id ?d" "sub_epoch sub = vs_epoch ?d" by (rule submit_row [OF sub])
  show thesis
    by (rule yes [of sub row]) (use True here row submit_flows [OF sub] in \<open>simp_all add: submitted_of_def map_filter_def visit_key_def\<close>)
next
  case False
  show thesis
  proof (rule no [OF False])
    show "submitted_of [out] = []" "s' = s"
      using assms False by (auto simp: submits_def submit_isolated_def submit_standing_def submit_locked_def Let_def submitted_of_def map_filter_def
        split: visit_answer.splits option.splits if_splits)
  qed
qed

lemma submit_each_exact:
  assumes "submit_each r lk mn (\<lambda>_ s. s) sts s = (outs, s')" "distinct (map visit_key sts)"
    and "\<And>st. st \<in> set sts \<Longrightarrow> generation_of s (visit_key st) = generation_of s0 (visit_key st)"
  shows "map (\<lambda>sub. (sub_chunk_id sub, sub_node_id sub, sub_epoch sub)) (submitted_of outs) = map visit_key (filter (submits r lk s0) sts)
     \<and> map sub_arrival (submitted_of outs) = map (\<lambda>k. next_arrival s + int k) [0..<length (submitted_of outs)]
     \<and> map (\<lambda>sub. map flow_res (sub_flows sub)) (submitted_of outs)
         = map (\<lambda>st. map resource (dedup (resources_of r st))) (filter (submits r lk s0) sts)"
  using assms
proof (induction sts arbitrary: s outs)
  case Nil
  then show ?case by (simp add: submitted_of_def map_filter_def)
next
  case (Cons st sts)
  obtain out s1 outs' where o: "submit_isolated r lk mn (\<lambda>_ s. s) st s = (out, s1)" "submit_each r lk mn (\<lambda>_ s. s) sts s1 = (outs', s')"
    "outs = out # outs'" using Cons.prems(1) by (auto split: prod.splits)
  have split: "submitted_of outs = submitted_of [out] @ submitted_of outs'" by (simp add: o(3) submitted_of_def map_filter_def)
  have same: "submits r lk s st = submits r lk s0 st" using Cons.prems(3) [of st] by (simp add: submits_def)
  from o(1) show ?case
  proof (cases rule: submit_isolated_exact)
    case no
    with Cons.IH [of s outs'] Cons.prems o(2) split same show ?thesis by simp
  next
    case (yes sub row)
    have "generation_of s1 (visit_key x) = generation_of s0 (visit_key x)" if "x \<in> set sts" for x
    proof -
      have "visit_key x \<noteq> visit_key st" using that Cons.prems(2) by (metis distinct.simps(2) image_eqI list.simps(9) set_map)
      then have "generation_of s1 (visit_key x) = generation_of s (visit_key x)"
        by (intro generation_submitted [OF yes(3,4,5)]) (simp add: visit_key_def)
      with Cons.prems(3) [of x] that show ?thesis by simp
    qed
    note ih = Cons.IH [OF o(2) _ this]
    have "next_arrival s1 = next_arrival s + 1"
      using yes(3,8) by (auto simp: next_arrival_def col_max_def max_def)
    then have "map sub_arrival (submitted_of outs') = map (\<lambda>k. next_arrival s + int k) [1..<Suc (length (submitted_of outs'))]"
      using ih Cons.prems(2) by (simp add: map_Suc_upt [symmetric] comp_def algebra_simps del: upt_Suc map_Suc_upt)
    with ih yes(1,2,6,7,9) split same Cons.prems(2) show ?thesis by (simp add: upt_conv_Cons del: upt_Suc)
  qed
qed

lemma standing_visits_distinct:
  assumes "distinct (map fst (rd_statuses r))" "\<And>i c. rd_chunk r i = Some c \<Longrightarrow> ch_chunk_id c = i"
  shows "distinct (map (\<lambda>st. ch_chunk_id (stg_chunk st)) (standing_visits r))"
proof -
  have chunk: "ch_chunk_id (stg_chunk st) = i" if "standing_at r i = Some st" for i st
    using that assms(2) by (auto simp: standing_at_def split: option.splits)
  have "distinct (map (\<lambda>st. ch_chunk_id (stg_chunk st)) (List.map_filter (standing_at r) is))
      \<and> (\<lambda>st. ch_chunk_id (stg_chunk st)) ` set (List.map_filter (standing_at r) is) \<subseteq> set is" if "distinct is" for "is"
    using that
  proof (induction "is")
    case (Cons i "is")
    then have ih: "distinct (map (\<lambda>st. ch_chunk_id (stg_chunk st)) (List.map_filter (standing_at r) is))"
      "(\<lambda>st. ch_chunk_id (stg_chunk st)) ` set (List.map_filter (standing_at r) is) \<subseteq> set is" by simp_all
    show ?case
    proof (cases "standing_at r i")
      case None
      with ih show ?thesis by (simp add: map_filter_simps subset_insertI2)
    next
      case (Some st)
      have "i \<notin> (\<lambda>st. ch_chunk_id (stg_chunk st)) ` set (List.map_filter (standing_at r) is)"
        using subsetD [OF ih(2)] Cons.prems by (metis distinct.simps(2))
      with Some ih chunk [OF Some] show ?thesis by (simp add: map_filter_simps subset_insertI2)
    qed
  qed (simp add: map_filter_simps)
  moreover have "distinct (delivering_ids r)" using assms(1) by (simp add: delivering_ids_def distinct_map_filter)
  ultimately have "distinct (map (\<lambda>st. ch_chunk_id (stg_chunk st)) (List.map_filter (standing_at r) (delivering_ids r)))" by blast
  then show ?thesis by (simp add: standing_visits_def distinct_map)
qed

text \<open>C28: If nothing else commits during it, a reconcile submits exactly the hub-node visits that stand
  unsubmitted, still stand under the chunk's lock and resolve, each once, at the next arrivals
  in a row, in order of entry with ties by chunk id, on one flow per resource its commits still
  have to land on.\<close>

theorem standing_visits_are_submitted:
  assumes "distinct (map fst (rd_statuses r))" "\<And>i c. rd_chunk r i = Some c \<Longrightarrow> ch_chunk_id c = i"
    and "reconcile r lk mn i (\<lambda>_ s. s) low s = (rc, s')"
  defines "sent \<equiv> filter (submits r lk s) (visits_due r (open_submissions_from low s))"
  shows "map (\<lambda>sub. (sub_chunk_id sub, sub_node_id sub, sub_epoch sub)) (rec_submitted rc) = map visit_key sent
     \<and> map sub_arrival (rec_submitted rc) = map (\<lambda>k. next_arrival s + int k) [0..<length sent]
     \<and> map (\<lambda>sub. map flow_res (sub_flows sub)) (rec_submitted rc) = map (\<lambda>st. map resource (dedup (resources_of r st))) sent
     \<and> sorted (map (\<lambda>st. (stg_entered_at st, ch_chunk_id (stg_chunk st))) sent)"
proof -
  let ?due = "visits_due r (open_submissions_from low s)"
  obtain outs s1 where 1: "submit_each r lk mn (\<lambda>_ s. s) ?due s = (outs, s1)" by (rule prod.exhaust)
  then have sub: "rec_submitted rc = submitted_of outs"
    using assms(3) by (auto simp: reconcile_def Let_def split: prod.splits)
  have "distinct (map (\<lambda>st. ch_chunk_id (stg_chunk st)) ?due)"
    using standing_visits_distinct [OF assms(1,2)] by (simp add: visits_due_def distinct_map_filter)
  then have "distinct (map visit_key ?due)"
    by (auto simp: distinct_map visit_key_def inj_on_def)
  from submit_each_exact [OF 1 this refl]
  have e: "map (\<lambda>sub. (sub_chunk_id sub, sub_node_id sub, sub_epoch sub)) (rec_submitted rc) = map visit_key sent"
    "map sub_arrival (rec_submitted rc) = map (\<lambda>k. next_arrival s + int k) [0..<length (rec_submitted rc)]"
    "map (\<lambda>sub. map flow_res (sub_flows sub)) (rec_submitted rc) = map (\<lambda>st. map resource (dedup (resources_of r st))) sent"
    by (simp_all add: sub sent_def)
  moreover have "length (rec_submitted rc) = length sent" using map_eq_imp_length_eq [OF e(1)] .
  moreover have "sorted (map (\<lambda>st. (stg_entered_at st, ch_chunk_id (stg_chunk st))) (standing_visits r))"
    by (simp add: standing_visits_def)
  then have "sorted (map (\<lambda>st. (stg_entered_at st, ch_chunk_id (stg_chunk st))) sent)"
    by (simp add: sent_def visits_due_def sorted_filter)
  ultimately show ?thesis by simp
qed

section \<open>One submission at a time\<close>

text \<open>What commits on a tenant's flow tables: submissions as the reconcile drafts them, and the other
  transactions.\<close>

inductive line_step :: "flow_tables \<Rightarrow> flow_tables \<Rightarrow> bool" where
  line_submit: "generation_of s (vs_chunk_id v, vs_node_id v, vs_epoch v) = Some (vs_generation v) \<Longrightarrow> mintable v s
     \<Longrightarrow> line_step s (snd (submit v s))"
| line_other: "other_step s s' \<Longrightarrow> line_step s s'"

lemma line_step_flow: "line_step s s' \<Longrightarrow> flow_step s s'"
  by (induction rule: line_step.induct) (auto intro: step_submit other_step_flow)

lemma line_steps_flow: "line_step\<^sup>*\<^sup>* s s' \<Longrightarrow> flow_step\<^sup>*\<^sup>* s s'"
  by (induction rule: rtranclp_induct) (auto intro: flow_then line_step_flow)

text \<open>The unit of \<open>submit\<close> is such a step.\<close>

lemma submit_locked_step:
  assumes "submit_locked chunk facts mn st rs s = (out, s')" "\<And>g. mintable (submission_draft mn st g rs) s"
  shows "s' = s \<or> line_step s s'"
  using assms(1)
proof (cases rule: submit_locked_cases)
  case (submitted g sub)
  then show ?thesis using line_submit [of s "submission_draft mn st g rs", OF _ assms(2)] by (simp add: visit_key_def)
qed simp

lemma other_step_places: "other_step s s' \<Longrightarrow> same_places s s'"
proof (induction rule: other_step.induct)
  case (other_end_turn s turn_id out closure event t)
  then show ?case using settling_end_turn_locked by (simp add: settling_def)
next
  case (other_close i s w t)
  then show ?case using settling_close_waiting by (simp add: settling_def)
next
  case (other_withdraw s chunk_id w t)
  then show ?case using settling_withdraw by (simp add: settling_def)
next
  case (other_land s landing revision t)
  then show ?case using settling_land by (simp add: settling_def)
qed (rule take_turn_places)

text \<open>Among the submissions of a visit, all but the newest are superseded.\<close>

definition visit_inv :: "flow_tables \<Rightarrow> bool" where
  "visit_inv s \<longleftrightarrow> (\<forall>c n e. \<forall>r\<in>set (ft_submissions s). \<forall>r'\<in>set (ft_submissions s).
     visit_row c n e r \<and> visit_row c n e r' \<and> r \<noteq> r' \<longrightarrow>
       fs_generation r \<noteq> fs_generation r'
       \<and> (fs_generation r < fs_generation r' \<longrightarrow> map_option cl_outcome (closure_of s (fs_submission_id r)) = Some TURN_SUPERSEDED))"

lemma visit_inv_D:
  assumes "visit_inv s" "r \<in> set (ft_submissions s)" "r' \<in> set (ft_submissions s)" "visit_row c n e r" "visit_row c n e r'" "r \<noteq> r'"
  shows "fs_generation r < fs_generation r' \<and> map_option cl_outcome (closure_of s (fs_submission_id r)) = Some TURN_SUPERSEDED
     \<or> fs_generation r' < fs_generation r \<and> map_option cl_outcome (closure_of s (fs_submission_id r')) = Some TURN_SUPERSEDED"
proof -
  have each: "fs_generation x \<noteq> fs_generation y
      \<and> (fs_generation x < fs_generation y \<longrightarrow> map_option cl_outcome (closure_of s (fs_submission_id x)) = Some TURN_SUPERSEDED)"
    if "x \<in> set (ft_submissions s)" "y \<in> set (ft_submissions s)" "visit_row c n e x" "visit_row c n e y" "x \<noteq> y" for x y
    using assms(1) that unfolding visit_inv_def by blast
  show ?thesis
  proof (cases "fs_generation r < fs_generation r'")
    case True
    with each [OF assms(2-6)] show ?thesis by simp
  next
    case False
    with each [OF assms(2-6)] have "fs_generation r' < fs_generation r" by simp
    with each [OF assms(3,2,5,4) assms(6) [symmetric]] show ?thesis by simp
  qed
qed

lemma visit_inv_step:
  assumes "line_step s s'" "flow_inv s" "visit_inv s"
  shows "visit_inv s'"
  using assms(1)
proof cases
  case (line_other)
  have same: "ft_submissions s' = ft_submissions s" using other_step_places [OF line_other] by (simp add: same_places_def)
  have kept: "map_option cl_outcome (closure_of s' i) = Some TURN_SUPERSEDED"
    if sup: "map_option cl_outcome (closure_of s i) = Some TURN_SUPERSEDED" for i
  proof -
    obtain c where "closure_of s i = Some c" "cl_outcome c = TURN_SUPERSEDED" using sup by auto
    with closure_kept [OF r_into_rtranclp [of flow_step, OF line_step_flow [OF assms(1)]], of i c] show ?thesis by simp
  qed
  show ?thesis
    unfolding visit_inv_def same
  proof (intro allI ballI impI)
    fix c n e r r' assume r: "r \<in> set (ft_submissions s)" "r' \<in> set (ft_submissions s)"
      "visit_row c n e r \<and> visit_row c n e r' \<and> r \<noteq> r'"
    from visit_inv_D [OF assms(3) r(1,2), of c n e] r(3) kept
    show "fs_generation r \<noteq> fs_generation r'
        \<and> (fs_generation r < fs_generation r' \<longrightarrow> map_option cl_outcome (closure_of s' (fs_submission_id r)) = Some TURN_SUPERSEDED)"
      by (metis less_irrefl not_less_iff_gr_or_eq)
  qed
next
  case (line_submit v)
  let ?k = "(vs_chunk_id v, vs_node_id v, vs_epoch v)"
  obtain out s1 where o: "submit v s = (out, s1)" by (rule prod.exhaust)
  show ?thesis
  proof (cases out)
    case None
    with o submit_None line_submit(1) assms(3) show ?thesis by fastforce
  next
    case (Some sub)
    with o obtain row where row: "ft_submissions s1 = ft_submissions s @ [row]" "ft_closures s1 = ft_closures s"
      "visit_row (vs_chunk_id v) (vs_node_id v) (vs_epoch v) row" "fs_generation row = vs_generation v" by (metis submit_row)
    have clo: "closure_of s1 i = closure_of s i" for i using row(2) by (simp add: closure_of_def)
    have older: "fs_generation r < fs_generation row \<and> map_option cl_outcome (closure_of s (fs_submission_id r)) = Some TURN_SUPERSEDED"
      if r: "r \<in> set (ft_submissions s)" "visit_row (vs_chunk_id v) (vs_node_id v) (vs_epoch v) r" for r
    proof -
      have less: "fs_generation r < fs_generation row" using generation_fresh [OF line_submit(2) r] row(4) by simp
      have "filter (visit_row (vs_chunk_id v) (vs_node_id v) (vs_epoch v)) (ft_submissions s) \<noteq> []" using r by (auto simp: filter_empty_conv)
      then obtain m where m: "max_by fs_generation (filter (visit_row (vs_chunk_id v) (vs_node_id v) (vs_epoch v)) (ft_submissions s)) = Some m"
        using max_by_Some_ex by blast
      have mm: "m \<in> set (ft_submissions s)" "visit_row (vs_chunk_id v) (vs_node_id v) (vs_epoch v) m" using max_by_in_set [OF m] by simp_all
      have sup: "map_option cl_outcome (closure_of s (fs_submission_id m)) = Some TURN_SUPERSEDED"
        using line_submit(2) m by (auto simp: generation_eq split: if_splits)
      have "fs_generation r \<le> fs_generation m" by (rule max_by_greatest [OF m]) (use r in simp)
      then have "map_option cl_outcome (closure_of s (fs_submission_id r)) = Some TURN_SUPERSEDED"
        using sup visit_inv_D [OF assms(3) r(1) mm(1) r(2) mm(2)] by (cases "r = m") auto
      with less show ?thesis by simp
    qed
    have "visit_inv s1"
      unfolding visit_inv_def clo
    proof (intro allI ballI impI)
      fix c n e r r' assume r: "r \<in> set (ft_submissions s1)" "r' \<in> set (ft_submissions s1)"
        "visit_row c n e r \<and> visit_row c n e r' \<and> r \<noteq> r'"
      show "fs_generation r \<noteq> fs_generation r'
        \<and> (fs_generation r < fs_generation r' \<longrightarrow> map_option cl_outcome (closure_of s (fs_submission_id r)) = Some TURN_SUPERSEDED)"
      proof (cases "r = row \<or> r' = row")
        case True
        then have "c = vs_chunk_id v" "n = vs_node_id v" "e = vs_epoch v" using r(3) row(3) by (auto simp: visit_row_def)
        with True r row(1) older [of r] older [of r'] show ?thesis by auto
      next
        case False
        with r row(1) have "r \<in> set (ft_submissions s)" "r' \<in> set (ft_submissions s)" by auto
        with assms(3) r(3) show ?thesis unfolding visit_inv_def by blast
      qed
    qed
    with o line_submit(1) show ?thesis by simp
  qed
qed

lemma line_reachable:
  assumes "line_step\<^sup>*\<^sup>* no_flows s"
  shows "flow_inv s \<and> visit_inv s"
  using assms
proof (induction rule: rtranclp_induct)
  case base
  show ?case using flow_inv_initial by (simp add: visit_inv_def no_flows_def)
next
  case (step y z)
  then show ?case using visit_inv_step flow_step_inv line_step_flow by blast
qed

text \<open>C29: Of two submissions of one visit the earlier generation is superseded and holds no turn, so a
  visit never has two open submissions and never two turns.\<close>

theorem one_submission_per_visit:
  assumes "line_step\<^sup>*\<^sup>* no_flows s"
    and "r \<in> set (ft_submissions s)" "r' \<in> set (ft_submissions s)" "visit_row c n e r" "visit_row c n e r'"
    and "fs_generation r \<le> fs_generation r'" "r \<noteq> r'"
  shows "fs_generation r < fs_generation r' \<and> map_option cl_outcome (closure_of s (fs_submission_id r)) = Some TURN_SUPERSEDED
     \<and> \<not> has_open_turn s (fs_submission_id r)"
proof -
  note I = line_reachable [OF assms(1)]
  have 1: "fs_generation r < fs_generation r' \<and> map_option cl_outcome (closure_of s (fs_submission_id r)) = Some TURN_SUPERSEDED"
    using visit_inv_D [OF conjunct2 [OF I] assms(2-5,7)] assms(6) by linarith
  then have "\<not> is_open s (fs_submission_id r)" by (auto simp: is_open_def)
  then have "\<not> has_open_turn s (fs_submission_id r)" using flow_inv_D(9) [OF conjunct1 [OF I]] unfolding has_open_turn_def by metis
  with 1 show ?thesis by simp
qed

section \<open>The terms a visit lands on\<close>

lemma terms_of_append:
  "terms_of (s\<lparr>ft_terms := ft_terms s @ [(i, x\<lparr>lt_repository_id := p\<rparr>)]\<rparr>) j q =
     (case terms_of s j q of Some y \<Rightarrow> Some y | None \<Rightarrow> if j = i \<and> q = p then Some (x\<lparr>lt_repository_id := p\<rparr>) else None)"
  by (auto simp: terms_of_def find_append split: option.splits)

lemma terms_of_repository: "terms_of s i p = Some x \<Longrightarrow> lt_repository_id x = p"
  by (auto simp: terms_of_def dest: find_SomeD)

text \<open>Every generation of a visit lands a repository on the same terms.\<close>

definition terms_inv :: "flow_tables \<Rightarrow> bool" where
  "terms_inv s \<longleftrightarrow> (\<forall>c n e. \<forall>r\<in>set (ft_submissions s). \<forall>r'\<in>set (ft_submissions s). \<forall>p x y.
     visit_row c n e r \<and> visit_row c n e r' \<and> terms_of s (fs_submission_id r) p = Some x \<and> terms_of s (fs_submission_id r') p = Some y
       \<longrightarrow> x = y)
   \<and> fst ` set (ft_terms s) \<subseteq> fs_submission_id ` set (ft_submissions s)"

lemma terms_inv_D:
  "terms_inv s \<Longrightarrow> r \<in> set (ft_submissions s) \<Longrightarrow> r' \<in> set (ft_submissions s) \<Longrightarrow> visit_row c n e r \<Longrightarrow> visit_row c n e r'
     \<Longrightarrow> terms_of s (fs_submission_id r) p = Some x \<Longrightarrow> terms_of s (fs_submission_id r') p = Some y \<Longrightarrow> x = y"
  unfolding terms_inv_def by blast

lemma find_first: "List.find (\<lambda>_. True) xs = (case xs of [] \<Rightarrow> None | x # _ \<Rightarrow> Some x)"
  by (cases xs) simp_all

lemma map_filter_empty: "List.map_filter f xs = [] \<longleftrightarrow> (\<forall>x\<in>set xs. f x = None)"
  by (induction xs) (auto simp: map_filter_simps split: option.split)

lemma map_filter_set: "y \<in> set (List.map_filter f xs) \<longleftrightarrow> (\<exists>x\<in>set xs. f x = Some y)"
  by (induction xs) (auto simp: map_filter_simps split: option.split)

lemma earlier_terms_cases:
  assumes "0 < fs_generation row"
  obtains (some) r x where "r \<in> set (ft_submissions s)" "visit_row (fs_chunk_id row) (fs_node_id row) (fs_epoch row) r"
      "fs_generation r < fs_generation row" "terms_of s (fs_submission_id r) p = Some x" "earlier_terms s row p = Some x"
  | (none) "earlier_terms s row p = None" "\<And>r. r \<in> set (ft_submissions s) \<Longrightarrow> visit_row (fs_chunk_id row) (fs_node_id row) (fs_epoch row) r
      \<Longrightarrow> fs_generation r < fs_generation row \<Longrightarrow> terms_of s (fs_submission_id r) p = None"
proof -
  define earlier where "earlier = rev (sort_key fs_generation (filter (\<lambda>r. visit_row (fs_chunk_id row) (fs_node_id row) (fs_epoch row) r
            \<and> fs_generation r < fs_generation row) (ft_submissions s)))"
  let ?found = "List.map_filter (\<lambda>r. terms_of s (fs_submission_id r) p) earlier"
  have e: "earlier_terms s row p = (case ?found of [] \<Rightarrow> None | x # _ \<Rightarrow> Some x)"
    using assms by (simp add: earlier_terms_def earlier_def Let_def find_first)
  show thesis
  proof (cases ?found)
    case Nil
    then have "\<forall>r\<in>set earlier. terms_of s (fs_submission_id r) p = None" by (simp only: map_filter_empty)
    with Nil e show ?thesis by (intro none) (auto simp: earlier_def)
  next
    case (Cons x xs)
    then have "x \<in> set ?found" by simp
    then obtain r where "r \<in> set earlier" "terms_of s (fs_submission_id r) p = Some x" by (auto simp: map_filter_set)
    with Cons e show ?thesis by (intro some [of r x]) (auto simp: earlier_def)
  qed
qed

text \<open>Taking terms for one repository, for the newest submission of its visit.\<close>

lemma take_terms_for_inv:
  assumes "terms_inv s" "flow_inv s" "row \<in> set (ft_submissions s)"
    and "\<And>r. r \<in> set (ft_submissions s) \<Longrightarrow> visit_row (fs_chunk_id row) (fs_node_id row) (fs_epoch row) r \<Longrightarrow> r \<noteq> row
      \<Longrightarrow> fs_generation r < fs_generation row"
    and "\<And>r. r \<in> set (ft_submissions s) \<Longrightarrow> 0 \<le> fs_generation r"
  shows "terms_inv (take_terms_for row fresh p s)"
proof (cases "terms_of s (fs_submission_id row) p")
  case (Some x)
  then show ?thesis using assms(1) by (simp add: take_terms_for_def)
next
  case None
  let ?s = "take_terms_for row fresh p s"
  let ?mine = "visit_row (fs_chunk_id row) (fs_node_id row) (fs_epoch row)"
  have same: "ft_submissions ?s = ft_submissions s" by (simp add: flow_simps)
  consider (kept) "?s = s" | (taken) x where "?s = s\<lparr>ft_terms := ft_terms s @ [(fs_submission_id row, x\<lparr>lt_repository_id := p\<rparr>)]\<rparr>"
      "\<And>r y. r \<in> set (ft_submissions s) \<Longrightarrow> ?mine r \<Longrightarrow> terms_of s (fs_submission_id r) p = Some y \<Longrightarrow> x\<lparr>lt_repository_id := p\<rparr> = y"
  proof (cases "0 < fs_generation row")
    case True
    then show ?thesis
    proof (cases rule: earlier_terms_cases [of row s p])
      case (some r x)
      have "x\<lparr>lt_repository_id := p\<rparr> = x" using terms_of_repository [OF some(4)] by simp
      moreover have "x = y" if "r' \<in> set (ft_submissions s)" "?mine r'" "terms_of s (fs_submission_id r') p = Some y" for r' y
        by (rule terms_inv_D [OF assms(1) some(1) that(1) some(2) that(2) some(4) that(3)])
      ultimately show ?thesis using some(5) None by (intro taken [of x]) (simp_all add: take_terms_for_def)
    next
      case none
      have no: "terms_of s (fs_submission_id r) p = None" if "r \<in> set (ft_submissions s)" "?mine r" for r
        using none(2) [OF that] assms(4) [OF that] None by (cases "r = row") simp_all
      show ?thesis
      proof (cases "List.find (\<lambda>t. lt_repository_id t = p) (rev fresh)")
        case (Some x)
        with none(1) None no show ?thesis by (intro taken [of x]) (simp_all add: take_terms_for_def)
      qed (use none(1) None in \<open>intro kept; simp add: take_terms_for_def\<close>)
    qed
  next
    case False
    then have only: "terms_of s (fs_submission_id r) p = None" if "r \<in> set (ft_submissions s)" "?mine r" for r
      using assms(4) [OF that] assms(5) [OF that(1)] None by (cases "r = row") simp_all
    have e: "earlier_terms s row p = None" using False by (simp add: earlier_terms_def Let_def)
    show ?thesis
    proof (cases "List.find (\<lambda>t. lt_repository_id t = p) (rev fresh)")
      case (Some x)
      with e None only show ?thesis by (intro taken [of x]) (simp_all add: take_terms_for_def)
    qed (use e None in \<open>intro kept; simp add: take_terms_for_def\<close>)
  qed
  then show ?thesis
  proof cases
    case kept
    with assms(1) show ?thesis by simp
  next
    case (taken x)
    define new where "new = x\<lparr>lt_repository_id := p\<rparr>"
    have ids: "fs_submission_id r = fs_submission_id row \<longleftrightarrow> r = row" if "r \<in> set (ft_submissions s)" for r
      using flow_inv_D(2) [OF assms(2)] that assms(3) by (auto simp: distinct_map inj_on_eq_iff)
    have look: "terms_of ?s (fs_submission_id r) q = (if r = row \<and> q = p then Some new else terms_of s (fs_submission_id r) q)"
      if "r \<in> set (ft_submissions s)" for r q
      unfolding taken(1) terms_of_append using None ids [OF that] by (auto simp: new_def split: option.splits)
    have "y = z" if r: "r \<in> set (ft_submissions s)" "r' \<in> set (ft_submissions s)" "visit_row c n e r" "visit_row c n e r'"
      "terms_of ?s (fs_submission_id r) q = Some y" "terms_of ?s (fs_submission_id r') q = Some z" for c n e r r' q y z
    proof -
      have mine: "?mine r'" if "r = row" using r(3,4) that by (auto simp: visit_row_def)
      have mine': "?mine r" if "r' = row" using r(3,4) that by (auto simp: visit_row_def)
      show ?thesis
      proof (cases "q = p \<and> (r = row \<or> r' = row)")
        case True
        then consider "r = row" "r' = row" | "r = row" "r' \<noteq> row" | "r \<noteq> row" "r' = row" by blast
        then show ?thesis
        proof cases
          case 1
          with r(5,6) show ?thesis by simp
        next
          case 2
          with r(5,6) True have "y = new" "terms_of s (fs_submission_id r') p = Some z" by (simp_all add: look [OF assms(3)] look [OF r(1)] look [OF r(2)])
          with taken(2) [OF r(2) mine [OF 2(1)]] show ?thesis by (simp add: new_def)
        next
          case 3
          with r(5,6) True have "z = new" "terms_of s (fs_submission_id r) p = Some y" by (simp_all add: look [OF assms(3)] look [OF r(1)] look [OF r(2)])
          with taken(2) [OF r(1) mine' [OF 3(2)]] show ?thesis by (simp add: new_def)
        qed
      next
        case False
        then have "terms_of s (fs_submission_id r) q = Some y" "terms_of s (fs_submission_id r') q = Some z"
          using r(5,6) by (auto simp: look [OF r(1)] look [OF r(2)] split: if_splits)
        from terms_inv_D [OF assms(1) r(1-4) this] show ?thesis .
      qed
    qed
    moreover have "fst ` set (ft_terms ?s) \<subseteq> fs_submission_id ` set (ft_submissions s)"
      using assms(1,3) by (auto simp: taken(1) terms_inv_def)
    ultimately show ?thesis unfolding terms_inv_def same by blast
  qed
qed

lemma take_terms_inv:
  assumes "terms_inv s" "flow_inv s" "row \<in> set (ft_submissions s)"
    and "\<And>r. r \<in> set (ft_submissions s) \<Longrightarrow> visit_row (fs_chunk_id row) (fs_node_id row) (fs_epoch row) r \<Longrightarrow> r \<noteq> row
      \<Longrightarrow> fs_generation r < fs_generation row"
    and "\<And>r. r \<in> set (ft_submissions s) \<Longrightarrow> 0 \<le> fs_generation r"
  shows "terms_inv (take_terms row fs fresh s)"
proof -
  have "terms_inv (fold (take_terms_for row fresh) ps s)" for ps
    using assms
  proof (induction ps arbitrary: s)
    case (Cons p ps)
    let ?s = "take_terms_for row fresh p s"
    have same: "ft_submissions ?s = ft_submissions s" by (simp add: flow_simps)
    have "flow_inv ?s" using Cons.prems(2) flow_inv_cong [of s ?s] by (simp add: same_places_def flow_simps)
    from Cons.IH [OF take_terms_for_inv [OF Cons.prems] this] Cons.prems(3-5) show ?case by (simp add: same)
  qed simp
  then show ?thesis by (simp add: take_terms_def)
qed

lemma terms_inv_cong:
  assumes "ft_submissions s' = ft_submissions s" "ft_terms s' = ft_terms s" "terms_inv s"
  shows "terms_inv s'"
proof -
  have "terms_of s' i p = terms_of s i p" for i p using assms(2) by (simp add: terms_of_def)
  then show ?thesis using assms(3) unfolding terms_inv_def assms(1,2) by simp
qed

lemma close_terms: "ft_terms (snd (close_submission i out t s)) = ft_terms s"
  using close_effect [of i out t s] by auto

lemma end_turn_locked_terms: "ft_terms (snd (end_turn_locked i out closure event t s)) = ft_terms s"
proof -
  obtain r s' where r: "end_turn_locked i out closure event t s = (r, s')" by (rule prod.exhaust)
  then show ?thesis
  proof (cases rule: end_turn_locked_cases)
    case (ended j w s1 s2)
    have "ft_terms s1 = ft_terms s" by (rule end_turn_effect [OF ended(1)])
    with ended(3,4) r show ?thesis by (simp add: close_terms split: option.split)
  qed (simp add: r)
qed

lemma withdraw_terms: "ft_terms (snd (withdraw_waiting chunk_id w t s)) = ft_terms s"
proof -
  have "ft_terms (fold (\<lambda>i s. snd (close_submission i (withdrawal_value w) t s)) is s) = ft_terms s" for "is"
    by (induction "is" arbitrary: s) (simp_all add: close_terms)
  then show ?thesis by (simp add: withdraw_as_fold)
qed

lemma take_turn_terms_inv:
  assumes "terms_inv s" "flow_inv s" "visit_inv s" "\<And>r. r \<in> set (ft_submissions s) \<Longrightarrow> 0 \<le> fs_generation r"
  shows "terms_inv (snd (take_turn i po terms t turn_id s))"
proof (cases "find_submission s i")
  case None
  with assms(1) show ?thesis by (simp add: take_turn_def)
next
  case (Some row)
  then have row: "row \<in> set (ft_submissions s)" "fs_submission_id row = i" by (auto simp: find_submission_def dest: find_SomeD)
  define s1 where "s1 = snd (write_facts (map fl_flow_id (flows_held s i)) i (fs_chunk_id row) FlowTurnStarted None None t
     (s\<lparr>ft_turns := ft_turns s @ [\<lparr>tn_turn_id = turn_id, tn_submission_id = i, tn_started_at = t, tn_ended_at = None, tn_outcome = None\<rparr>]\<rparr>))"
  have same: "ft_submissions s1 = ft_submissions s" "ft_terms s1 = ft_terms s" "ft_flows s1 = ft_flows s" "ft_held s1 = ft_held s"
    "ft_closures s1 = ft_closures s"
    by (simp_all add: s1_def write_facts_def flow_simps)
  have "snd (take_turn i po terms t turn_id s) = s \<or>
      is_open s i \<and> snd (take_turn i po terms t turn_id s) = take_terms row (flows_held s i) terms s1"
    by (auto simp: take_turn_def Some Let_def s1_def)
  then show ?thesis
  proof
    assume "snd (take_turn i po terms t turn_id s) = s"
    with assms(1) show ?thesis by simp
  next
    assume taken: "is_open s i \<and> snd (take_turn i po terms t turn_id s) = take_terms row (flows_held s i) terms s1"
    have newest: "fs_generation r < fs_generation row"
      if "r \<in> set (ft_submissions s)" "visit_row (fs_chunk_id row) (fs_node_id row) (fs_epoch row) r" "r \<noteq> row" for r
    proof -
      have "visit_row (fs_chunk_id row) (fs_node_id row) (fs_epoch row) row" by (simp add: visit_row_def)
      from visit_inv_D [OF assms(3) that(1) row(1) that(2) this that(3)] taken row(2) show ?thesis by (auto simp: is_open_def)
    qed
    have ids: "fs_submission_id r = i \<longleftrightarrow> r = row" if "r \<in> set (ft_submissions s)" for r
      using flow_inv_D(2) [OF assms(2)] that row by (auto simp: distinct_map inj_on_eq_iff)
    have fold: "ft_terms (take_terms row fs terms s1) = ft_terms (take_terms row fs terms s)" for fs
    proof -
      have one: "ft_terms (take_terms_for row terms p x) = ft_terms (take_terms_for row terms p y)"
        if "ft_terms x = ft_terms y" "ft_submissions x = ft_submissions y" for x y p
      proof -
        have "terms_of x j q = terms_of y j q" for j q using that(1) by (simp add: terms_of_def)
        moreover from this have "earlier_terms x row p = earlier_terms y row p" using that(2) by (simp add: earlier_terms_def)
        ultimately show ?thesis using that(1) by (simp add: take_terms_for_def split: option.split)
      qed
      have "ft_terms (fold (take_terms_for row terms) ps x) = ft_terms (fold (take_terms_for row terms) ps y)"
        if "ft_terms x = ft_terms y" "ft_submissions x = ft_submissions y" for x y ps
        using that
      proof (induction ps arbitrary: x y)
        case (Cons p ps)
        have "ft_terms (take_terms_for row terms p x) = ft_terms (take_terms_for row terms p y)" by (rule one [OF Cons.prems])
        moreover have "ft_submissions (take_terms_for row terms p x) = ft_submissions (take_terms_for row terms p y)"
          unfolding take_terms_for_frame by (rule Cons.prems(2))
        ultimately show ?case unfolding fold_simps by (rule Cons.IH)
      qed simp
      from this [OF same(2,1)] show ?thesis by (simp only: take_terms_def)
    qed
    have "terms_inv (take_terms row (flows_held s i) terms s)"
      by (rule take_terms_inv [OF assms(1,2) row(1)]) (use newest assms(4) in auto)
    then have "terms_inv (take_terms row (flows_held s i) terms s1)"
      by (rule terms_inv_cong [rotated 2]) (simp_all add: fold same flow_simps)
    with taken show ?thesis by simp
  qed
qed

definition generations_ok :: "flow_tables \<Rightarrow> bool" where
  "generations_ok s \<longleftrightarrow> (\<forall>r\<in>set (ft_submissions s). 0 \<le> fs_generation r)"

lemma terms_inv_step:
  assumes "line_step s s'" "flow_inv s" "visit_inv s" "terms_inv s" "generations_ok s"
  shows "terms_inv s' \<and> generations_ok s'"
  using assms(1)
proof cases
  case (line_submit v)
  obtain out s1 where o: "submit v s = (out, s1)" by (rule prod.exhaust)
  show ?thesis
  proof (cases out)
    case None
    with o submit_None line_submit(1) assms(4,5) show ?thesis by fastforce
  next
    case (Some sub)
    with o obtain row where row: "ft_submissions s1 = ft_submissions s @ [row]" "ft_terms s1 = ft_terms s"
      "fs_submission_id row = vs_submission_id v" "fs_generation row = vs_generation v" by (metis submit_row)
    have look: "terms_of s1 j q = terms_of s j q" for j q using row(2) by (simp add: terms_of_def)
    have "vs_submission_id v \<notin> fst ` set (ft_terms s)" using line_submit(3) assms(4) by (auto simp: mintable_def terms_inv_def)
    then have none: "terms_of s (fs_submission_id row) q = None" for q
      by (auto simp: terms_of_def row(3) find_None_iff image_iff)
    have "terms_inv s1"
      using assms(4) unfolding terms_inv_def row(1,2) look by (auto simp: none)
    moreover have "0 \<le> fs_generation row"
      using line_submit(2) assms(5) max_by_in_set
      by (fastforce simp: row(4) generation_eq generations_ok_def split: option.splits if_splits)
    ultimately show ?thesis using o line_submit(1) assms(5) by (simp add: row(1) generations_ok_def)
  qed
next
  case line_other
  have "ft_submissions s' = ft_submissions s" using other_step_places [OF line_other] by (simp add: same_places_def)
  moreover have "terms_inv s'"
    using line_other
  proof cases
    case (other_take_turn turn_id i po terms t)
    with take_turn_terms_inv [OF assms(4,2,3)] assms(5) show ?thesis by (simp add: generations_ok_def)
  qed (use calculation in \<open>simp_all add: terms_inv_cong [OF _ _ assms(4)] end_turn_locked_terms close_waiting_def close_terms withdraw_terms land_frame\<close>)
  ultimately show ?thesis using assms(5) by (simp add: generations_ok_def)
qed

text \<open>C30: The landing terms a visit's turn first records for a repository bind every later turn and
  generation of the visit: a change of the repository's policy after a visit started its first
  turn never reaches it.\<close>

theorem landing_terms_are_settled_once:
  assumes "line_step\<^sup>*\<^sup>* no_flows s" "line_step\<^sup>*\<^sup>* s s'"
    and "r \<in> set (ft_submissions s)" "r' \<in> set (ft_submissions s')" "visit_row c n e r" "visit_row c n e r'"
    and "terms_of s (fs_submission_id r) p = Some x" "terms_of s' (fs_submission_id r') p = Some y"
  shows "x = y"
proof -
  have inv: "terms_inv s \<and> generations_ok s" if "line_step\<^sup>*\<^sup>* no_flows s" for s
    using that
  proof (induction rule: rtranclp_induct)
    case base
    show ?case by (simp add: terms_inv_def generations_ok_def no_flows_def)
  next
    case (step y z)
    with terms_inv_step line_reachable show ?case by blast
  qed
  have "prefix (ft_terms s) (ft_terms s')" "prefix (ft_submissions s) (ft_submissions s')"
    using flow_terms.steps_append flow_submissions.steps_append line_steps_flow [OF assms(2)] by blast+
  then have "terms_of s' (fs_submission_id r) p = Some x" "r \<in> set (ft_submissions s')"
    using assms(3,7) by (auto simp: terms_of_def prefix_def find_append)
  with terms_inv_D [OF conjunct1 [OF inv] this(2) assms(4,5,6) this(1) assms(8)] assms(1,2) show ?thesis
    by (meson rtranclp_trans)
qed

end
