(* ===== verification/Repository_Laws.thy ===== *)
theory Repository_Laws
  imports Repositories
begin

text \<open>
  What resolving a visit guarantees: which commits a chunk delivers, exactly when its declarations are
  refused as unconverged, and the records, marker names and flows of a visit that resolves.
\<close>

section \<open>A chunk's commits\<close>

definition commit_row :: "string \<Rightarrow> stored_artifact \<Rightarrow> bool" where
  "commit_row k a \<longleftrightarrow> sa_kind a = GitCommit \<and> commit_identity a = k"

text \<open>Beside the declarations before it, \<open>b\<close> ties at the newest epoch of its repository with one that says
  something else.\<close>

definition ties :: "stored_artifact list \<Rightarrow> stored_artifact \<Rightarrow> bool" where
  "ties us b \<longleftrightarrow> sa_kind b = GitCommit
     \<and> (\<forall>a\<in>set us. commit_row (commit_identity b) a \<longrightarrow> sa_epoch a \<le> sa_epoch b)
     \<and> (\<exists>a\<in>set us. commit_row (commit_identity b) a \<and> sa_epoch a = sa_epoch b \<and> sa_data a \<noteq> sa_data b)"

text \<open>\<open>r\<close> is written, and after it only rows of older epochs are.\<close>

definition written_last :: "stored_artifact list \<Rightarrow> string \<Rightarrow> stored_artifact \<Rightarrow> bool" where
  "written_last us k r \<longleftrightarrow>
     (\<exists>vs ws. us = vs @ r # ws \<and> (\<forall>a\<in>set ws. commit_row k a \<longrightarrow> sa_epoch a < sa_epoch r))"

lemma written_last_snoc [simp]: "written_last (us @ [r]) k r"
  unfolding written_last_def by (intro exI [of _ us] exI [of _ "[]"]) simp

lemma written_last_more [intro]:
  assumes "written_last us k r" and "commit_row k x \<Longrightarrow> sa_epoch x < sa_epoch r"
  shows "written_last (us @ [x]) k r"
proof -
  from assms(1) obtain vs ws where "us = vs @ r # ws" "\<forall>a\<in>set ws. commit_row k a \<longrightarrow> sa_epoch a < sa_epoch r"
    unfolding written_last_def by blast
  with assms(2) have "us @ [x] = vs @ r # (ws @ [x])"
      "\<forall>a\<in>set (ws @ [x]). commit_row k a \<longrightarrow> sa_epoch a < sa_epoch r" by auto
  then show ?thesis unfolding written_last_def by blast
qed

definition newest_among :: "stored_artifact list \<Rightarrow> string \<Rightarrow> stored_artifact \<Rightarrow> bool" where
  "newest_among us k r \<longleftrightarrow> r \<in> set us \<and> commit_row k r
     \<and> (\<forall>a\<in>set us. commit_row k a \<longrightarrow> sa_epoch a < sa_epoch r \<or> sa_epoch a = sa_epoch r \<and> sa_data a = sa_data r)
     \<and> written_last us k r"

definition collected :: "stored_artifact list \<Rightarrow> (string \<times> stored_artifact) list \<Rightarrow> bool" where
  "collected us latest \<longleftrightarrow>
     map fst latest = dedup (map commit_identity (filter (\<lambda>a. sa_kind a = GitCommit) us))
     \<and> (\<forall>(k, r)\<in>set latest. newest_among us k r)"

lemma dedup_snoc: "dedup (xs @ [x]) = (if x \<in> set xs then dedup xs else dedup xs @ [x])"
  by (simp add: dedup_def)

lemma keys_of_dict_set: "map fst (dict_set k v ps) = (if k \<in> fst ` set ps then map fst ps else map fst ps @ [k])"
  by (induction ps) auto

lemma collected_distinct: "collected us latest \<Longrightarrow> distinct (map fst latest)"
  by (simp add: collected_def)

lemma collected_keys: "collected us latest \<Longrightarrow> fst ` set latest = {k. \<exists>a\<in>set us. commit_row k a}"
proof -
  assume "collected us latest"
  then have "fst ` set latest = set (dedup (map commit_identity (filter (\<lambda>a. sa_kind a = GitCommit) us)))"
    by (metis collected_def set_map)
  then show ?thesis by (auto simp: commit_row_def)
qed

lemma collected_identities: "collected us latest \<Longrightarrow> fst ` set latest = set (map commit_identity (filter (\<lambda>a. sa_kind a = GitCommit) us))"
  by (metis collected_def set_dedup set_map)

lemma collected_skip: "collected us latest \<Longrightarrow> sa_kind row \<noteq> GitCommit \<Longrightarrow> collected (us @ [row]) latest"
  by (auto simp: collected_def newest_among_def commit_row_def)

lemma collected_put:
  assumes "collected us latest" "sa_kind row = GitCommit" "newest_among (us @ [row]) (commit_identity row) row"
  shows "collected (us @ [row]) (dict_set (commit_identity row) row latest)"
  unfolding collected_def
proof
  let ?k = "commit_identity row"
  have "?k \<in> fst ` set latest \<longleftrightarrow> ?k \<in> set (map commit_identity (filter (\<lambda>a. sa_kind a = GitCommit) us))"
    using collected_identities [OF assms(1)] by simp
  then show "map fst (dict_set ?k row latest) = dedup (map commit_identity (filter (\<lambda>a. sa_kind a = GitCommit) (us @ [row])))"
    using assms(1,2) by (simp add: keys_of_dict_set dedup_snoc collected_def)
  show "\<forall>(k, r)\<in>set (dict_set ?k row latest). newest_among (us @ [row]) k r"
  proof (clarify)
    fix k r assume kr: "(k, r) \<in> set (dict_set ?k row latest)"
    have d: "distinct (map fst (dict_set ?k row latest))" by (rule distinct_dict_set [OF collected_distinct [OF assms(1)]])
    show "newest_among (us @ [row]) k r"
    proof (cases "k = ?k")
      case True
      with map_of_is_SomeI [OF d kr] assms(3) show ?thesis by simp
    next
      case False
      with kr set_dict_set have "(k, r) \<in> set latest" by fastforce
      with assms(1) have "newest_among us k r" by (auto simp: collected_def)
      with False show ?thesis by (auto simp: newest_among_def commit_row_def)
    qed
  qed
qed

lemma consider_commit_step:
  assumes inv: "collected us latest" and git: "sa_kind row = GitCommit"
  shows "case consider_commit row latest of Inl e \<Rightarrow> ties us row | Inr latest' \<Rightarrow> \<not> ties us row \<and> collected (us @ [row]) latest'"
proof (cases "map_of latest (commit_identity row)")
  case None
  then have none: "\<not> (\<exists>a\<in>set us. commit_row (commit_identity row) a)"
    using collected_keys [OF inv] by (auto simp: map_of_eq_None_iff)
  then have "newest_among (us @ [row]) (commit_identity row) row"
    using git by (auto simp: newest_among_def commit_row_def)
  with collected_put [OF inv git] None none show ?thesis by (auto simp: consider_commit_def ties_def)
next
  case (Some current)
  then have cur: "newest_among us (commit_identity row) current"
    using inv map_of_SomeD [OF Some] by (auto simp: collected_def)
  have le: "sa_epoch a \<le> sa_epoch current" if "a \<in> set us" "commit_row (commit_identity row) a" for a
    using cur that by (auto simp: newest_among_def)
  have c: "current \<in> set us" "commit_row (commit_identity row) current" using cur by (simp_all add: newest_among_def)
  have new: "newest_among (us @ [row]) (commit_identity row) row"
    if "sa_epoch row > sa_epoch current \<or> sa_epoch row = sa_epoch current \<and> sa_data row = sa_data current"
    using that cur git by (fastforce simp: newest_among_def commit_row_def)
  consider (newer) "sa_epoch row > sa_epoch current" | (tie) "sa_epoch row = sa_epoch current" "sa_data row \<noteq> sa_data current"
    | (same) "sa_epoch row = sa_epoch current" "sa_data row = sa_data current" | (older) "sa_epoch row < sa_epoch current"
    by linarith
  then show ?thesis
  proof cases
    case newer
    moreover from newer le have "\<not> ties us row" by (force simp: ties_def)
    ultimately show ?thesis using Some collected_put [OF inv git] new by (simp add: consider_commit_def)
  next
    case tie
    moreover from tie le c git have "ties us row" by (auto simp: ties_def)
    ultimately show ?thesis using Some by (simp add: consider_commit_def)
  next
    case same
    moreover have "\<not> ties us row" using same cur by (auto simp: ties_def newest_among_def)
    ultimately show ?thesis using Some collected_put [OF inv git] new by (simp add: consider_commit_def)
  next
    case older
    have "\<not> ties us row" using older c by (auto simp: ties_def)
    moreover have "collected (us @ [row]) latest"
    proof -
      have "commit_identity row \<in> fst ` set latest" using Some by (metis map_of_eq_None_iff option.discI)
      then have "commit_identity row \<in> set (map commit_identity (filter (\<lambda>a. sa_kind a = GitCommit) us))"
        using collected_identities [OF inv] by simp
      moreover have "newest_among (us @ [row]) k r" if "(k, r) \<in> set latest" for k r
      proof -
        have n: "newest_among us k r" using that inv by (auto simp: collected_def)
        have "r = current" if "k = commit_identity row"
          using that Some map_of_is_SomeI [OF collected_distinct [OF inv] \<open>(k, r) \<in> set latest\<close>] by simp
        with n older show ?thesis by (auto simp: newest_among_def commit_row_def)
      qed
      ultimately show ?thesis using inv git by (auto simp: collected_def dedup_snoc)
    qed
    ultimately show ?thesis using Some older by (simp add: consider_commit_def)
  qed
qed

lemma collect_commits_spec:
  assumes "collected us latest" "\<not> (\<exists>vs b ws. us = vs @ b # ws \<and> ties vs b)"
  shows "case collect_commits rows latest of
      Inl e \<Rightarrow> \<exists>vs b ws. us @ rows = vs @ b # ws \<and> ties vs b
    | Inr latest' \<Rightarrow> collected (us @ rows) latest' \<and> \<not> (\<exists>vs b ws. us @ rows = vs @ b # ws \<and> ties vs b)"
  using assms
proof (induction rows arbitrary: us latest)
  case (Cons row rows)
  have snoc: "(\<exists>vs b ws. us @ [row] = vs @ b # ws \<and> ties vs b) \<longleftrightarrow> ties us row"
    if "\<not> (\<exists>vs b ws. us = vs @ b # ws \<and> ties vs b)"
  proof
    assume "\<exists>vs b ws. us @ [row] = vs @ b # ws \<and> ties vs b"
    then obtain vs b ws where v: "us @ [row] = vs @ b # ws" "ties vs b" by blast
    then show "ties us row" using that by (cases ws rule: rev_cases) auto
  qed blast
  show ?case
  proof (cases "sa_kind row = GitCommit")
    case False
    then have "\<not> ties us row" by (simp add: ties_def)
    with Cons.IH [OF collected_skip [OF Cons.prems(1) False]] snoc [OF Cons.prems(2)] False show ?thesis
      by (simp split: sum.splits)
  next
    case True
    note step = consider_commit_step [OF Cons.prems(1) True]
    show ?thesis
    proof (cases "consider_commit row latest")
      case (Inl e)
      with step have "ties us row" by simp
      then have "\<exists>vs b ws. us @ row # rows = vs @ b # ws \<and> ties vs b" by blast
      with Inl True show ?thesis by simp
    next
      case (Inr latest')
      with step have "\<not> ties us row" "collected (us @ [row]) latest'" by simp_all
      with Cons.IH [of "us @ [row]" latest'] snoc [OF Cons.prems(2)] Inr True show ?thesis
        by (simp split: sum.splits)
    qed
  qed
qed simp

lemma collected_start: "collected [] []"
  by (simp add: collected_def dedup_def)

lemma git_commits_cases:
  "case GitCommits_of rows of
      Inl e \<Rightarrow> \<exists>vs b ws. rows = vs @ b # ws \<and> ties vs b
    | Inr commits \<Rightarrow> \<not> (\<exists>vs b ws. rows = vs @ b # ws \<and> ties vs b)
        \<and> (\<exists>latest. collected rows latest \<and> commits = map snd latest)"
  using collect_commits_spec [OF collected_start, of rows] by (auto simp: GitCommits_of_def split: sum.splits)

lemma collect_commits_append: "collect_commits xs latest = Inl e \<Longrightarrow> collect_commits (xs @ ys) latest = Inl e"
  by (induction xs arbitrary: latest) (auto split: sum.splits)

lemma collected_commits: "collected rows latest \<Longrightarrow> map commit_identity (map snd latest) = map fst latest"
proof -
  assume "collected rows latest"
  then have "\<forall>p\<in>set latest. commit_identity (snd p) = fst p"
    by (auto simp: collected_def newest_among_def commit_row_def)
  then show ?thesis by simp
qed

text \<open>Delivery is refused exactly on a row that ties, at the newest epoch its repository had reached so
  far, with an earlier row of different data; and it stays refused whatever is declared afterwards,
  a newer epoch included.\<close>

lemma refused_on_the_first_tie:
  "(\<exists>e. GitCommits_of rows = Inl e) \<longleftrightarrow> (\<exists>vs b ws. rows = vs @ b # ws \<and> ties vs b)"
  using git_commits_cases [of rows] by (cases "GitCommits_of rows") auto

lemma refused_for_good: "GitCommits_of rows = Inl e \<Longrightarrow> GitCommits_of (rows @ later) = Inl e"
  using collect_commits_append [of rows "[]" _ later] by (auto simp: GitCommits_of_def split: sum.splits)

definition branch_of :: "stored_artifact \<Rightarrow> string" where
  "branch_of a = fst (partition_at (CHR '':'') (sa_data a))"

lemma split_ties:
  assumes a: "a \<in> set rows" and b: "b \<in> set rows" and git: "sa_kind a = GitCommit" "sa_kind b = GitCommit"
    and same: "commit_identity a = commit_identity b" "sa_epoch a = sa_epoch b" and "branch_of a \<noteq> branch_of b"
    and newest: "\<forall>c\<in>set rows. sa_kind c = GitCommit \<and> commit_identity c = commit_identity a \<longrightarrow> sa_epoch c \<le> sa_epoch a"
  shows "\<exists>vs b ws. rows = vs @ b # ws \<and> ties vs b"
proof -
  have d: "sa_data a \<noteq> sa_data b" using assms(7) by (auto simp: branch_of_def)
  have tie: "ties vs y" if "rows = vs @ y # ws" "x \<in> set vs" "{x, y} = {a, b}" for vs ws x y
  proof -
    have xy: "commit_row (commit_identity y) x" "sa_epoch x = sa_epoch y" "sa_data x \<noteq> sa_data y" "sa_kind y = GitCommit"
        "commit_identity y = commit_identity a" "sa_epoch y = sa_epoch a"
      using that(3) git same d by (auto simp: commit_row_def doubleton_eq_iff)
    with newest that show ?thesis unfolding ties_def by (auto simp: commit_row_def)
  qed
  from a obtain vs ws where v: "rows = vs @ a # ws" by (blast dest: split_list)
  show ?thesis
  proof (cases "b \<in> set vs")
    case True
    with tie [OF v, of b] v show ?thesis by blast
  next
    case False
    with b v d have "b \<in> set ws" by auto
    then obtain us us' where w: "ws = us @ b # us'" by (blast dest: split_list)
    with v have r: "rows = (vs @ a # us) @ b # us'" by simp
    have "ties (vs @ a # us) b" by (rule tie [OF r, of a]) auto
    with r show ?thesis by blast
  qed
qed

text \<open>A refusal names two declarations of one repository and epoch that differ.\<close>

lemma collect_refusal:
  assumes "collected us latest" and "collect_commits rows latest = Inl (Unconverged k e x y)"
  shows "\<exists>a\<in>set (us @ rows). \<exists>b\<in>set (us @ rows). commit_row k a \<and> commit_row k b \<and> sa_epoch a = e \<and> sa_epoch b = e
      \<and> sa_data a = x \<and> sa_data b = y \<and> x \<noteq> y"
  using assms
proof (induction rows arbitrary: us latest)
  case (Cons row rows)
  show ?case
  proof (cases "sa_kind row = GitCommit")
    case False
    with Cons.IH [OF collected_skip [OF Cons.prems(1) False]] Cons.prems(2) show ?thesis by simp
  next
    case True
    note step = consider_commit_step [OF Cons.prems(1) True]
    show ?thesis
    proof (cases "consider_commit row latest")
      case (Inl err)
      with Cons.prems(2) True have "consider_commit row latest = Inl (Unconverged k e x y)" by simp
      then obtain current where c: "map_of latest k = Some current" "k = commit_identity row" "sa_epoch row = e"
          "sa_epoch current = e" "sa_data current = x" "sa_data row = y" "x \<noteq> y"
        by (auto simp: consider_commit_def Let_def split: option.splits if_splits)
      have "newest_among us k current" using Cons.prems(1) map_of_SomeD [OF c(1)] by (auto simp: collected_def)
      then have "current \<in> set us" "commit_row k current" by (simp_all add: newest_among_def)
      moreover have "commit_row k row" using c(2) True by (simp add: commit_row_def)
      ultimately show ?thesis using c by (intro bexI [of _ current] bexI [of _ row]) auto
    next
      case (Inr latest')
      with step have "collected (us @ [row]) latest'" by simp
      from Cons.IH [OF this] Cons.prems(2) Inr True show ?thesis by simp
    qed
  qed
qed simp

section \<open>A visit that resolves\<close>

lemma pick_each_Inr:
  "pick_each rows forges origins = Inr picked \<Longrightarrow> length picked = length origins
     \<and> (\<forall>i<length origins. origin_candidates (origins ! i) rows forges = [picked ! i])"
proof (induction origins arbitrary: picked)
  case (Cons origin origins)
  from Cons.prems obtain row rest where
    "origin_candidates origin rows forges = [row]" "pick_each rows forges origins = Inr rest" "picked = row # rest"
    by (auto split: list.splits sum.splits)
  with Cons.IH show ?case by (auto simp: nth_Cons split: nat.split)
qed simp

lemma ambiguity_from_None:
  assumes "ambiguity_from held xs = None"
  shows "(r, t) \<in> set xs \<Longrightarrow> map_of held r = Some f \<Longrightarrow> f = rr_record t"
    and "(r, t) \<in> set xs \<Longrightarrow> (r, u) \<in> set xs \<Longrightarrow> rr_record t = rr_record u"
proof -
  have "(\<forall>r t f. (r, t) \<in> set xs \<longrightarrow> map_of held r = Some f \<longrightarrow> f = rr_record t)
      \<and> (\<forall>r t u. (r, t) \<in> set xs \<longrightarrow> (r, u) \<in> set xs \<longrightarrow> rr_record t = rr_record u)"
    using assms
  proof (induction held xs rule: ambiguity_from.induct)
    case (2 held repo target rest)
    show ?case
    proof (cases "map_of held repo")
      case None
      have "ambiguity_from ((repo, rr_record target) # held) rest = None" using 2(3) None by simp
      from 2(1) [OF None this]
      have IH: "\<forall>r t f. (r, t) \<in> set rest \<longrightarrow> map_of ((repo, rr_record target) # held) r = Some f \<longrightarrow> f = rr_record t"
        "\<forall>r t u. (r, t) \<in> set rest \<longrightarrow> (r, u) \<in> set rest \<longrightarrow> rr_record t = rr_record u" by blast+
      have "rr_record target = rr_record t" if "(repo, t) \<in> set rest" for t using IH(1) that by simp
      moreover have "f = rr_record t" if "(r, t) \<in> set rest" "map_of held r = Some f" for r t f
      proof -
        have "r \<noteq> repo" using that(2) None by auto
        with that(2) have "map_of ((repo, rr_record target) # held) r = Some f" by simp
        with IH(1) that(1) show ?thesis by blast
      qed
      ultimately show ?thesis using IH(2) None unfolding list.set(2) by (metis insert_iff option.discI prod.inject)
    next
      case (Some first)
      have first: "first = rr_record target" and rest: "ambiguity_from held rest = None"
        using 2(3) Some by (auto split: if_splits)
      from 2(2) [OF Some _ rest] first
      have IH: "\<forall>r t f. (r, t) \<in> set rest \<longrightarrow> map_of held r = Some f \<longrightarrow> f = rr_record t"
        "\<forall>r t u. (r, t) \<in> set rest \<longrightarrow> (r, u) \<in> set rest \<longrightarrow> rr_record t = rr_record u" by blast+
      then have "rr_record target = rr_record t" if "(repo, t) \<in> set rest" for t using Some first that by blast
      with IH Some first show ?thesis unfolding list.set(2) by (metis insert_iff option.inject prod.inject)
    qed
  qed simp
  then show "(r, t) \<in> set xs \<Longrightarrow> map_of held r = Some f \<Longrightarrow> f = rr_record t"
    and "(r, t) \<in> set xs \<Longrightarrow> (r, u) \<in> set xs \<Longrightarrow> rr_record t = rr_record u" by blast+
qed

lemma refusal_outcome: "rn_outcome (resolution_refusal origin found standing forges linked project) \<in> {Unresolved, NotLinked}"
  by (simp add: resolution_refusal_def unresolved_def Let_def split: list.split)

lemma resolution_resolved:
  assumes "resolve_chunk_repositories origins rows forges minted_at linked project = Inr r" "rn_outcome r \<notin> {Unresolved, NotLinked}"
  obtains picked where "length picked = length origins"
    "\<And>i. i < length origins \<Longrightarrow>
       origin_candidates (origins ! i) (rows_linked (rows_standing rows minted_at) linked) (forges_by_id forges) = [picked ! i]"
    "rn_targets r = map target_of picked" "rn_qualified r = map qualified_of picked"
proof (cases "origins = []")
  case True
  with assms(1) show thesis by (intro that [of "[]"]) (auto simp: resolve_chunk_repositories_def unresolved_def)
next
  case False
  let ?rows = "rows_linked (rows_standing rows minted_at) linked"
  show thesis
  proof (cases "pick_each ?rows (forges_by_id forges) origins")
    case (Inl p)
    obtain origin found where "p = (origin, found)" by (cases p)
    with Inl assms(1) False have "r = resolution_refusal origin found (rows_standing rows minted_at) (forges_by_id forges) linked project"
      by (simp add: resolve_chunk_repositories_def Let_def)
    with assms(2) refusal_outcome show thesis by metis
  next
    case (Inr picked)
    with assms(1) False that [of picked] pick_each_Inr [OF Inr] show thesis
      by (auto simp: resolve_chunk_repositories_def Let_def split: sum.splits)
  qed
qed

lemma candidates_sub: "set (origin_candidates origin (rows_linked (rows_standing rows t) linked) forges) \<subseteq> set rows"
  by (auto simp: origin_candidates_def rows_linked_def rows_standing_def Let_def split: option.splits if_splits)

lemma resolve_visit_resolved:
  assumes "resolve_visit artifacts action (Some sp) project minted_at repositories forges = VisitResolved v"
  shows "GitCommits_of artifacts = Inr (vr_git_commits v)" "vr_spec v = sp"
    and "resolve_chunk_repositories (commit_origins (vr_git_commits v)) repositories forges minted_at (Some (lp_linked project))
       (lp_slug project) = Inr (vr_resolution v)"
    and "rn_outcome (vr_resolution v) \<notin> {Unresolved, NotLinked}" "as_lands sp \<Longrightarrow> ambiguity (vr_resolution v) = None"
  using assms by (auto simp: resolve_visit_def split: sum.splits if_splits option.splits prod.splits)

definition flow_of_row :: "configured_repository \<Rightarrow> flow_resource" where
  "flow_of_row row = \<lparr>res_repository_id = cr_repository_id row, res_branch = rpf_base_branch (cr_fields row)\<rparr>"

definition settled_repos :: "(string \<Rightarrow> string) \<Rightarrow> stored_artifact list \<Rightarrow> visit_repositories \<Rightarrow> string set" where
  "settled_repos digest artifacts v = landed_names artifacts \<union> no_code_repos digest artifacts
     (payload (vr_git_commits v) (rn_qualified (vr_resolution v)) (Some (vr_resolution v)))"

section \<open>A chunk over two repositories\<close>

definition sample_commit :: "string \<Rightarrow> string \<Rightarrow> int \<Rightarrow> stored_artifact" where
  "sample_commit origin data epoch = \<lparr>sa_kind = GitCommit, sa_name = ''work'', sa_data = data, sa_repo = None,
     sa_forge = Some origin, sa_artifact_id = ''art'', sa_node_id = ''n'', sa_node_name = ''build'', sa_epoch = epoch\<rparr>"

definition sample_repository :: "string \<Rightarrow> string \<Rightarrow> configured_repository" where
  "sample_repository i owner = \<lparr>cr_repository_id = i, cr_slug = i, cr_name = i,
     cr_fields = \<lparr>rpf_forge_id = ''hub'', rpf_owner = owner, rpf_repo = ''web'', rpf_base_branch = ''main'',
       rpf_secret_name = ''s'', rpf_landing_policy = Park, rpf_park_timeout_hours = None\<rparr>,
     cr_revision = 1, cr_created_at = 0, cr_created_by = ''op'', cr_retired = False, cr_retired_at = None\<rparr>"

definition sample_forges :: "configured_forge list" where
  "sample_forges = [\<lparr>fo_forge_id = ''hub'', fo_slug = ''hub'', fo_kind = ''github'', fo_api_base = ''https://api.hub.io'',
     fo_web_base = None\<rparr>]"

definition sample_project :: landing_project where
  "sample_project = \<lparr>lp_project_id = ''p'', lp_slug = ''p'', lp_linked = {''r1'', ''r2''}, lp_positions = (\<lambda>_. None)\<rparr>"

definition sample_commits :: "stored_artifact list" where
  "sample_commits = [sample_commit ''git@hub.io:a/web.git'' ''x:1'' 1, sample_commit ''git@hub.io:b/web.git'' ''x:2'' 1,
     sample_commit ''https://hub.io/a/web'' ''x:3'' 2]"

definition sample_visit :: visit_answer where
  "sample_visit = resolve_visit sample_commits (Some ''land'') (Some LAND) sample_project 0
     [sample_repository ''r1'' ''a'', sample_repository ''r2'' ''b''] sample_forges"

definition sample_resolved :: visit_repositories where
  "sample_resolved = \<lparr>vr_spec = LAND, vr_git_commits = [sample_commits ! 2, sample_commits ! 1],
     vr_resolution = \<lparr>rn_outcome = Resolved,
       rn_targets = [target_of (sample_repository ''r1'' ''a''), target_of (sample_repository ''r2'' ''b'')],
       rn_qualified = [''a/web'', ''b/web''], rn_records = [''r1'', ''r2''], rn_detail = NoDetail, rn_forges = sample_forges\<rparr>\<rparr>"

lemma sample_visit_resolves: "sample_visit = VisitResolved sample_resolved"
  by code_simp

section \<open>Properties\<close>

text \<open>C32: The commits delivered are, for each repository key among the chunk's commit artifacts, exactly
  one row: one declared at the newest epoch of that key, the last such in write order (every
  later row of the key is of an older epoch), with every row of that epoch agreeing on its data.\<close>

theorem newest_epoch_is_delivered:
  assumes "GitCommits_of rows = Inr commits"
  shows "map commit_identity commits = dedup (map commit_identity (filter (\<lambda>a. sa_kind a = GitCommit) rows))
    \<and> (\<forall>r\<in>set commits. sa_kind r = GitCommit
         \<and> (\<forall>a\<in>set rows. sa_kind a = GitCommit \<and> commit_identity a = commit_identity r \<longrightarrow>
              sa_epoch a < sa_epoch r \<or> sa_epoch a = sa_epoch r \<and> sa_data a = sa_data r)
         \<and> (\<exists>vs ws. rows = vs @ r # ws
              \<and> (\<forall>a\<in>set ws. sa_kind a = GitCommit \<and> commit_identity a = commit_identity r \<longrightarrow> sa_epoch a < sa_epoch r)))"
proof -
  obtain latest where l: "collected rows latest" "commits = map snd latest"
    using git_commits_cases [of rows] assms by auto
  then have "map commit_identity commits = map fst latest" using collected_commits by simp
  then have keys: "map commit_identity commits = dedup (map commit_identity (filter (\<lambda>a. sa_kind a = GitCommit) rows))"
    using l(1) by (simp add: collected_def)
  have "newest_among rows (commit_identity r) r" if r: "r \<in> set commits" for r
  proof -
    from r l obtain k where "newest_among rows k r" by (auto simp: collected_def)
    moreover from this have "k = commit_identity r" by (simp add: newest_among_def commit_row_def)
    ultimately show ?thesis by simp
  qed
  then have "sa_kind r = GitCommit
         \<and> (\<forall>a\<in>set rows. sa_kind a = GitCommit \<and> commit_identity a = commit_identity r \<longrightarrow>
              sa_epoch a < sa_epoch r \<or> sa_epoch a = sa_epoch r \<and> sa_data a = sa_data r)
         \<and> (\<exists>vs ws. rows = vs @ r # ws
              \<and> (\<forall>a\<in>set ws. sa_kind a = GitCommit \<and> commit_identity a = commit_identity r \<longrightarrow> sa_epoch a < sa_epoch r))"
    if "r \<in> set commits" for r
    using that unfolding newest_among_def written_last_def commit_row_def by blast
  with keys show ?thesis by blast
qed

theorem newest_epoch_is_delivered_witness:
  "GitCommits_of sample_commits = Inr [sample_commits ! 2, sample_commits ! 1]
   \<and> [commit_identity (sample_commits ! 2), commit_identity (sample_commits ! 1)]
       = dedup (map commit_identity (filter (\<lambda>a. sa_kind a = GitCommit) sample_commits))"
proof
  show "GitCommits_of sample_commits = Inr [sample_commits ! 2, sample_commits ! 1]" by code_simp
  from newest_epoch_is_delivered [OF this]
  show "[commit_identity (sample_commits ! 2), commit_identity (sample_commits ! 1)]
       = dedup (map commit_identity (filter (\<lambda>a. sa_kind a = GitCommit) sample_commits))" by simp
qed

text \<open>C33: Two declarations of one repository at its newest epoch that name different branches are never
  delivered: the chunk is refused as unconverged. If no two declarations of one repository at
  one epoch differ, the commits resolve. A refusal names a repository and an epoch with two
  declarations that differ, and quotes both. (On the inputs between, see the finding.)\<close>

theorem split_branches_are_refused:
  "((\<exists>a\<in>set rows. \<exists>b\<in>set rows. sa_kind a = GitCommit \<and> sa_kind b = GitCommit
        \<and> commit_identity a = commit_identity b \<and> sa_epoch a = sa_epoch b \<and> branch_of a \<noteq> branch_of b
        \<and> (\<forall>c\<in>set rows. sa_kind c = GitCommit \<and> commit_identity c = commit_identity a \<longrightarrow> sa_epoch c \<le> sa_epoch a))
      \<longrightarrow> (\<exists>e. GitCommits_of rows = Inl e))
   \<and> ((\<forall>a\<in>set rows. \<forall>b\<in>set rows. sa_kind a = GitCommit \<and> sa_kind b = GitCommit
        \<and> commit_identity a = commit_identity b \<and> sa_epoch a = sa_epoch b \<longrightarrow> sa_data a = sa_data b)
      \<longrightarrow> (\<exists>commits. GitCommits_of rows = Inr commits))
   \<and> (GitCommits_of rows = Inl (Unconverged k e x y) \<longrightarrow>
        (\<exists>a\<in>set rows. \<exists>b\<in>set rows. commit_row k a \<and> commit_row k b \<and> sa_epoch a = e \<and> sa_epoch b = e
           \<and> sa_data a = x \<and> sa_data b = y \<and> x \<noteq> y))"
proof (intro conjI impI)
  assume "\<exists>a\<in>set rows. \<exists>b\<in>set rows. sa_kind a = GitCommit \<and> sa_kind b = GitCommit
        \<and> commit_identity a = commit_identity b \<and> sa_epoch a = sa_epoch b \<and> branch_of a \<noteq> branch_of b
        \<and> (\<forall>c\<in>set rows. sa_kind c = GitCommit \<and> commit_identity c = commit_identity a \<longrightarrow> sa_epoch c \<le> sa_epoch a)"
  then have "\<exists>vs b ws. rows = vs @ b # ws \<and> ties vs b" using split_ties by blast
  with refused_on_the_first_tie show "\<exists>e. GitCommits_of rows = Inl e" by blast
next
  assume "\<forall>a\<in>set rows. \<forall>b\<in>set rows. sa_kind a = GitCommit \<and> sa_kind b = GitCommit
        \<and> commit_identity a = commit_identity b \<and> sa_epoch a = sa_epoch b \<longrightarrow> sa_data a = sa_data b"
  then have "\<not> (\<exists>vs b ws. rows = vs @ b # ws \<and> ties vs b)" by (fastforce simp: ties_def commit_row_def)
  with refused_on_the_first_tie [of rows] show "\<exists>commits. GitCommits_of rows = Inr commits"
    by (cases "GitCommits_of rows") auto
next
  assume "GitCommits_of rows = Inl (Unconverged k e x y)"
  then have "collect_commits rows [] = Inl (Unconverged k e x y)" by (auto simp: GitCommits_of_def split: sum.splits)
  from collect_refusal [OF collected_start this] show "\<exists>a\<in>set rows. \<exists>b\<in>set rows. commit_row k a \<and> commit_row k b
      \<and> sa_epoch a = e \<and> sa_epoch b = e \<and> sa_data a = x \<and> sa_data b = y \<and> x \<noteq> y" by simp
qed

lemma old_tie_hides_a_newer_declaration:
  "GitCommits_of [sample_commit ''git@hub.io:a/web.git'' ''x:1'' 1, sample_commit ''git@hub.io:a/web.git'' ''y:2'' 1,
     sample_commit ''git@hub.io:a/web.git'' ''x:3'' 2] = Inl (Unconverged ''hub.io/a/web'' 1 ''x:1'' ''y:2'')"
proof -
  have "GitCommits_of [sample_commit ''git@hub.io:a/web.git'' ''x:1'' 1, sample_commit ''git@hub.io:a/web.git'' ''y:2'' 1]
      = Inl (Unconverged ''hub.io/a/web'' 1 ''x:1'' ''y:2'')" by code_simp
  from refused_for_good [OF this, of "[sample_commit ''git@hub.io:a/web.git'' ''x:3'' 2]"] show ?thesis by simp
qed

lemma one_branch_two_commits_refused:
  "GitCommits_of [sample_commit ''git@hub.io:a/web.git'' ''x:1'' 1, sample_commit ''git@hub.io:a/web.git'' ''x:2'' 1]
     = Inl (Unconverged ''hub.io/a/web'' 1 ''x:1'' ''x:2'')"
  by code_simp

theorem split_branches_are_refused_witness:
  "\<exists>e. GitCommits_of [sample_commit ''git@hub.io:a/web.git'' ''x:1'' 1, sample_commit ''git@hub.io:a/web.git'' ''y:2'' 1] = Inl e"
proof -
  let ?rows = "[sample_commit ''git@hub.io:a/web.git'' ''x:1'' 1, sample_commit ''git@hub.io:a/web.git'' ''y:2'' 1]"
  have same: "commit_identity (?rows ! 0) = commit_identity (?rows ! 1)"
      and apart: "branch_of (?rows ! 0) \<noteq> branch_of (?rows ! 1)" by code_simp+
  have "\<exists>a\<in>set ?rows. \<exists>b\<in>set ?rows. sa_kind a = GitCommit \<and> sa_kind b = GitCommit
      \<and> commit_identity a = commit_identity b \<and> sa_epoch a = sa_epoch b \<and> branch_of a \<noteq> branch_of b
      \<and> (\<forall>c\<in>set ?rows. sa_kind c = GitCommit \<and> commit_identity c = commit_identity a \<longrightarrow> sa_epoch c \<le> sa_epoch a)"
    using same apart by (intro bexI [of _ "?rows ! 0"] bexI [of _ "?rows ! 1"]) (simp_all add: sample_commit_def)
  with conjunct1 [OF split_branches_are_refused [of ?rows]] show ?thesis by blast
qed

text \<open>C31: A landing visit that resolves picked, for each commit in order, the one record its origin
  names among the linked records standing when the chunk was minted; no two picked records share
  an owner and name, so marker names stay apart; and the flows it holds are those records'
  branches, each once, less the repositories already landed or settled without code.\<close>

theorem resolved_visit_holds_its_flows:
  assumes "resolve_visit artifacts action (Some sp) project minted_at repositories forges = VisitResolved v"
    and "as_lands sp" "distinct (map cr_repository_id repositories)"
  shows "\<exists>picked. length picked = length (vr_git_commits v) \<and> set picked \<subseteq> set repositories
     \<and> (\<forall>i<length picked. origin_candidates (commit_origins (vr_git_commits v) ! i)
          (rows_linked (rows_standing repositories minted_at) (Some (lp_linked project))) (forges_by_id forges) = [picked ! i])
     \<and> inj_on qualified_of (set picked)
     \<and> distinct (visit_resources digest artifacts v)
     \<and> set (visit_resources digest artifacts v) = flow_of_row ` {row \<in> set picked. qualified_of row \<notin> settled_repos digest artifacts v}"
proof -
  note r = resolve_visit_resolved [OF assms(1)]
  obtain picked where p: "length picked = length (commit_origins (vr_git_commits v))"
    "\<And>i. i < length (commit_origins (vr_git_commits v)) \<Longrightarrow> origin_candidates (commit_origins (vr_git_commits v) ! i)
       (rows_linked (rows_standing repositories minted_at) (Some (lp_linked project))) (forges_by_id forges) = [picked ! i]"
    "rn_targets (vr_resolution v) = map target_of picked" "rn_qualified (vr_resolution v) = map qualified_of picked"
    by (rule resolution_resolved [OF r(3,4)]) blast
  have sub: "set picked \<subseteq> set repositories"
  proof
    fix row assume "row \<in> set picked"
    then obtain i where i: "i < length picked" "row = picked ! i" by (auto simp: in_set_conv_nth)
    with p(2) [of i] p(1) candidates_sub show "row \<in> set repositories" by (metis list.set_intros(1) subsetD)
  qed
  have zip: "zip (rn_qualified (vr_resolution v)) (rn_targets (vr_resolution v)) = map (\<lambda>row. (qualified_of row, target_of row)) picked"
    by (simp add: p(3,4) zip_map_map zip_same_conv_map)
  have "row = row'" if "row \<in> set picked" "row' \<in> set picked" "qualified_of row = qualified_of row'" for row row'
  proof -
    have "ambiguity_from [] (map (\<lambda>row. (qualified_of row, target_of row)) picked) = None"
      using r(5) assms(2) by (simp add: ambiguity_def zip)
    moreover have "(qualified_of row, target_of row) \<in> set (map (\<lambda>row. (qualified_of row, target_of row)) picked)"
      using that(1) by simp
    moreover have "(qualified_of row', target_of row') \<in> set (map (\<lambda>row. (qualified_of row, target_of row)) picked)"
      using that(2) by simp
    note this [folded that(3)]
    ultimately have "rr_record (target_of row) = rr_record (target_of row')" by (rule ambiguity_from_None(2))
    then have "cr_repository_id row = cr_repository_id row'" by (simp add: target_of_def Let_def)
    with assms(3) sub that(1,2) show ?thesis by (meson distinct_map inj_onD subsetD)
  qed
  then have inj: "inj_on qualified_of (set picked)" by (auto simp: inj_on_def)
  have flows: "visit_resources digest artifacts v
      = dedup (map flow_of_row (filter (\<lambda>row. qualified_of row \<notin> settled_repos digest artifacts v) picked))"
    using assms(2) r(2)
    by (simp add: visit_resources_def held_resources_def zip settled_repos_def filter_map comp_def case_prod_beta
        flow_of_row_def [abs_def] target_of_def Let_def)
  show ?thesis
    by (rule exI [of _ picked]) (use p(1,2) sub inj in \<open>simp add: flows commit_origins_def\<close>)
qed


theorem resolved_visit_holds_its_flows_witness:
  "distinct (visit_resources (\<lambda>_. []) sample_commits sample_resolved)
   \<and> map res_repository_id (visit_resources (\<lambda>_. []) sample_commits sample_resolved) = [''r1'', ''r2'']"
proof
  have "resolve_visit sample_commits (Some ''land'') (Some LAND) sample_project 0
     [sample_repository ''r1'' ''a'', sample_repository ''r2'' ''b''] sample_forges = VisitResolved sample_resolved"
    using sample_visit_resolves by (simp only: sample_visit_def)
  moreover have "as_lands LAND" "distinct (map cr_repository_id [sample_repository ''r1'' ''a'', sample_repository ''r2'' ''b''])"
    by (simp_all add: LAND_def sample_repository_def)
  ultimately show "distinct (visit_resources (\<lambda>_. []) sample_commits sample_resolved)"
    using resolved_visit_holds_its_flows [of sample_commits "Some ''land''" LAND sample_project 0] by blast
  show "map res_repository_id (visit_resources (\<lambda>_. []) sample_commits sample_resolved) = [''r1'', ''r2'']"
    by code_simp
qed

section \<open>No-code markers\<close>

definition same_declaration :: "commit_entry \<Rightarrow> commit_entry \<Rightarrow> bool" where
  "same_declaration w d \<longleftrightarrow> ce_repo w = ce_repo d \<and> ce_record w = ce_record d \<and> ce_base_branch w = ce_base_branch d
     \<and> ce_branch w = ce_branch d \<and> ce_commit w = ce_commit d"

definition declaration_member :: "commit_entry \<Rightarrow> string \<Rightarrow> string option" where
  "declaration_member d k = (if k = ''base_branch'' then ce_base_branch d else if k = ''branch'' then Some (ce_branch d)
     else if k = ''commit'' then Some (ce_commit d) else if k = ''record'' then ce_record d else Some (ce_repo d))"

lemma marker_text:
  "snd (no_code_marker digest d) = json_object (map (\<lambda>k. (k, declaration_member d k))
     [''base_branch'', ''branch'', ''commit'', ''record'', ''repo''])"
  by (simp add: no_code_marker_def declaration_member_def Let_def)

lemma marker_inject: "no_code_marker digest w = no_code_marker digest d \<longleftrightarrow> same_declaration w d"
proof
  assume "no_code_marker digest w = no_code_marker digest d"
  then have eq: "snd (no_code_marker digest w) = snd (no_code_marker digest d)" by simp
  have "declaration_member w k = declaration_member d k" if "k \<in> set [''base_branch'', ''branch'', ''commit'', ''record'', ''repo'']" for k
    by (rule json_object_inject [OF eq [unfolded marker_text] that])
  from this [of "''base_branch''"] this [of "''branch''"] this [of "''commit''"] this [of "''record''"] this [of "''repo''"]
  show "same_declaration w d" by (simp add: declaration_member_def same_declaration_def)
qed (simp add: same_declaration_def no_code_marker_def)

text \<open>C34: A repository is settled without code exactly when a current declaration of it is complete and
  a marker was written for a declaration with the same repository, record, base branch, branch
  and commit, so a marker written for one commit never settles another.\<close>

theorem no_code_settles_the_exact_commit:
  assumes "\<And>row. row \<in> set artifacts \<Longrightarrow> starts_with ''no-code/'' (sa_name row)
      \<Longrightarrow> \<exists>w \<in> set written. (sa_name row, sa_data row) = no_code_marker digest w"
    and "\<And>w. w \<in> set written \<Longrightarrow> \<exists>row \<in> set artifacts. (sa_name row, sa_data row) = no_code_marker digest w"
  shows "repo \<in> no_code_repos digest artifacts declarations \<longleftrightarrow>
    (\<exists>d \<in> set declarations. ce_repo d = repo \<and> truthy_text (ce_record d) \<and> truthy_text (ce_base_branch d)
       \<and> ce_branch d \<noteq> [] \<and> ce_commit d \<noteq> [] \<and> (\<exists>w \<in> set written. same_declaration w d))"
proof -
  have "no_code_marker digest d \<in> set (map (\<lambda>row. (sa_name row, sa_data row)) artifacts)
      \<longleftrightarrow> (\<exists>w \<in> set written. same_declaration w d)" for d
  proof
    assume "no_code_marker digest d \<in> set (map (\<lambda>row. (sa_name row, sa_data row)) artifacts)"
    then obtain row where row: "row \<in> set artifacts" "(sa_name row, sa_data row) = no_code_marker digest d" by auto
    then have "starts_with ''no-code/'' (sa_name row)" by (simp add: no_code_marker_def Let_def starts_with_def)
    from assms(1) [OF row(1) this] row(2) show "\<exists>w \<in> set written. same_declaration w d" by (metis marker_inject)
  next
    assume "\<exists>w \<in> set written. same_declaration w d"
    then obtain w where w: "w \<in> set written" "no_code_marker digest w = no_code_marker digest d" by (auto simp: marker_inject)
    from assms(2) [OF w(1)] w(2) show "no_code_marker digest d \<in> set (map (\<lambda>row. (sa_name row, sa_data row)) artifacts)"
      by (force simp: image_iff)
  qed
  then show ?thesis by (auto simp: no_code_repos_def Let_def)
qed

definition sample_declaration :: "string \<Rightarrow> commit_entry" where
  "sample_declaration revision = \<lparr>ce_repo = ''a/web'', ce_branch = ''x'', ce_commit = revision, ce_forge_url = None, ce_owner = Some ''a'',
     ce_base_branch = Some ''main'', ce_record = Some ''r1''\<rparr>"

definition sample_marker_row :: stored_artifact where
  "sample_marker_row = (sample_commit ''git@hub.io:a/web.git'' ''x:1'' 1)\<lparr>
     sa_name := fst (no_code_marker (\<lambda>_. ''7f'') (sample_declaration ''1'')), sa_data := snd (no_code_marker (\<lambda>_. ''7f'') (sample_declaration ''1''))\<rparr>"

theorem no_code_settles_the_exact_commit_witness:
  "''a/web'' \<in> no_code_repos (\<lambda>_. ''7f'') [sample_marker_row] [sample_declaration ''1'']
   \<and> ''a/web'' \<notin> no_code_repos (\<lambda>_. ''7f'') [sample_marker_row] [sample_declaration ''2'']"
proof -
  have row: "(sa_name sample_marker_row, sa_data sample_marker_row) = no_code_marker (\<lambda>_. ''7f'') (sample_declaration ''1'')"
    by (simp add: sample_marker_row_def)
  have "''a/web'' \<in> no_code_repos (\<lambda>_. ''7f'') [sample_marker_row] [sample_declaration c] \<longleftrightarrow> c = ''1''" if "c \<noteq> []" for c
    using no_code_settles_the_exact_commit [of "[sample_marker_row]" "[sample_declaration ''1'']" "\<lambda>_. ''7f''" "''a/web''"
        "[sample_declaration c]"] row that
    by (auto simp: same_declaration_def sample_declaration_def truthy_text_def)
  then show ?thesis by simp
qed

end
