(* ===== verification/Flow_Line_Samples.thy ===== *)
theory Flow_Line_Samples
  imports Flow_Visits Repository_Laws
begin

text \<open>
  Concrete lines on which the guarantees of the reconcile, the admission and the driver apply.
\<close>

section \<open>Two chunks at one landing\<close>

definition hub_node :: node where
  "hub_node = \<lparr>node_id = ''deliver'', node_graph_id = ''gr_1'', node_name = ''land'', node_executor = ExecHub,
     node_prompt = None, node_checks = [], node_produces = [], node_session = SessResume, node_judged_by = ByWorker,
     node_retries_max = None, node_retries_exhausted = None, node_judgement_prompt = None, node_choices = [],
     node_bounce_cap = None, node_action = Some ''land'', node_action_args = [], node_legacy_run = None,
     node_poll_interval_seconds = None, node_poll_timeout_seconds = None, node_session_source = None,
     node_checks_cwd = None, node_checks_timeout = None\<rparr>"

definition hub_graph :: graph where
  "hub_graph = \<lparr>graph_id = ''gr_1'', graph_name = ''g'', graph_entry_node_id = ''deliver'', graph_nodes = [hub_node],
     graph_edges = [], graph_created_at = 0, graph_sessions = [], graph_artifacts = []\<rparr>"

definition hub_chunk :: "ident \<Rightarrow> chunk" where
  "hub_chunk i = \<lparr>ch_chunk_id = i, ch_graph_id = ''gr_1'', ch_work_refs = [], ch_minted_at = 0, ch_default_model = [],
     ch_default_effort = None, ch_default_harnesses = [], ch_intended_migration = None, ch_project_id = Some ''p''\<rparr>"

definition arrived :: "instant \<Rightarrow> chunk_facts" where
  "arrived i = (blank_facts True)\<lparr>cf_promoted := True, cf_leases := [\<lparr>lease_epoch = 1, lease_minted_at = 0\<rparr>],
     cf_transitions := [\<lparr>tr_to_node_id = ''deliver'', tr_to_node_executor = ExecHub, tr_epoch = 1, tr_recorded_at = i,
       tr_from_node_id = Some ''build'', tr_choice_name = None, tr_graph_id = None, tr_transition_id = None\<rparr>]\<rparr>"

definition hub_facts :: "ident \<Rightarrow> chunk_facts option" where
  "hub_facts i = (if i = ''c1'' then Some (arrived 20) else if i = ''c2'' then Some (arrived 10) else None)"

definition hub_commit :: stored_artifact where
  "hub_commit = \<lparr>sa_kind = GitCommit, sa_name = ''a/web'', sa_data = ''x:1'', sa_repo = None, sa_forge = None,
     sa_artifact_id = ''art'', sa_node_id = ''build'', sa_node_name = ''build'', sa_epoch = 1\<rparr>"

definition hub_reads :: line_reads where
  "hub_reads = \<lparr>rd_statuses = [(''c1'', Delivering), (''c2'', Delivering)], rd_facts = hub_facts, rd_outside = (\<lambda>_. None),
     rd_chunk = (\<lambda>i. if i = ''c1'' \<or> i = ''c2'' then Some (hub_chunk i) else None),
     rd_graph = (\<lambda>i. if i = ''gr_1'' then Some hub_graph else None), rd_artifacts = (\<lambda>_. [hub_commit]),
     rd_slug_of = (\<lambda>_. None), rd_links_of = (\<lambda>_. [(''r1'', None)]),
     rd_repositories = [sample_repository ''r1'' ''a''], rd_forges = sample_forges,
     rd_catalogue = SHIPPED_CATALOGUE, rd_digest = (\<lambda>_. [])\<rparr>"

definition idle_reads :: line_reads where
  "idle_reads = hub_reads\<lparr>rd_statuses := [], rd_facts := (\<lambda>_. None)\<rparr>"

definition hub_locked :: locked_reads where
  "hub_locked = \<lparr>lk_chunk = rd_chunk hub_reads, lk_facts = hub_facts\<rparr>"

definition hub_mints :: line_mints where
  "hub_mints = \<lparr>mn_submission_id = (\<lambda>i. ''fsub_'' @ i), mn_flow_id = (\<lambda>i r. ''flw_'' @ resource r), mn_at = (\<lambda>_. 30)\<rparr>"

definition idle_tick :: tick_reads where
  "idle_tick = \<lparr>tk_signature = [], tk_now = 5, tk_swept_before = None, tk_forced = True, tk_running = {}, tk_reads = idle_reads,
     tk_locked = hub_locked, tk_mints = hub_mints, tk_closed_at = 5, tk_end_facts = (\<lambda>_. None), tk_end_graph = (\<lambda>_. None),
     tk_end_at = 5, tk_admit_reads = idle_reads, tk_clock = (\<lambda>_. 5), tk_turn_id = (\<lambda>i. ''htn_'' @ i)\<rparr>"




definition hub_sent :: "standing list" where
  "hub_sent = filter (submits hub_reads hub_locked no_flows) (visits_due hub_reads (open_submissions_from 0 no_flows))"

section \<open>Witnesses\<close>

theorem standing_visits_are_submitted_witness:
  "map sub_chunk_id (rec_submitted (fst (reconcile hub_reads hub_locked hub_mints 30 (\<lambda>_ s. s) 0 no_flows))) = [''c2'', ''c1'']"
proof -
  have sent: "map visit_key hub_sent = [(''c2'', ''deliver'', 1), (''c1'', ''deliver'', 1)]" by code_simp
  obtain rc s' where rc: "reconcile hub_reads hub_locked hub_mints 30 (\<lambda>_ s. s) 0 no_flows = (rc, s')" by (rule prod.exhaust)
  have "distinct (map fst (rd_statuses hub_reads))" "rd_chunk hub_reads i = Some c \<Longrightarrow> ch_chunk_id c = i" for i c
    by (auto simp: hub_reads_def hub_chunk_def split: if_splits)
  from standing_visits_are_submitted [OF this rc]
  have "map (\<lambda>sub. (sub_chunk_id sub, sub_node_id sub, sub_epoch sub)) (rec_submitted rc) = [(''c2'', ''deliver'', 1), (''c1'', ''deliver'', 1)]"
    by (simp only: hub_sent_def [symmetric] sent)
  then have "map fst (map (\<lambda>sub. (sub_chunk_id sub, sub_node_id sub, sub_epoch sub)) (rec_submitted rc)) = [''c2'', ''c1'']" by (simp only: list.map fst_conv)
  then show ?thesis by (simp add: rc comp_def)
qed

lemma flow_steps_driver: "flow_step\<^sup>*\<^sup>* s s' \<Longrightarrow> driver_step\<^sup>*\<^sup>* (ls, s) (ls, s')"
  by (induction rule: rtranclp_induct) (auto intro: rtranclp.rtrancl_into_rtrancl driver_flow)

definition swept :: "line_state \<times> flow_tables" where
  "swept = snd (tenant_tick idle_tick (\<lambda>_ s. s) \<lparr>ls_floor = None, ls_converged = None\<rparr> demo_line)"

definition later_line :: flow_tables where
  "later_line = snd (submit (demo_visit ''c3'' ''s3'') (snd swept))"

theorem every_open_submission_is_read_witness:
  "ls_floor (fst swept) = Some 3 \<and> map sub_submission_id (open_submissions_from (floor_of (fst swept)) later_line) = [''s3'']"
proof
  show "ls_floor (fst swept) = Some 3" by code_simp
  have "driver_step\<^sup>*\<^sup>* (\<lparr>ls_floor = None, ls_converged = None\<rparr>, no_flows) (\<lparr>ls_floor = None, ls_converged = None\<rparr>, demo_line)"
    by (rule flow_steps_driver [OF demo_steps(1)])
  moreover have "driver_step (\<lparr>ls_floor = None, ls_converged = None\<rparr>, demo_line) (fst swept, snd swept)"
    unfolding swept_def prod.collapse by (rule driver_tick [OF no_interference])
  ultimately have swept: "driver_step\<^sup>*\<^sup>* (\<lparr>ls_floor = None, ls_converged = None\<rparr>, no_flows) (fst swept, snd swept)"
    by (rule rtranclp.rtrancl_into_rtrancl)
  have "\<not> (vs_submission_id (demo_visit ''c3'' ''s3'') \<in> fs_submission_id ` set (ft_submissions (snd swept))
     \<or> vs_flow_id (demo_visit ''c3'' ''s3'') \<lparr>res_repository_id = ''repo'', res_branch = ''main''\<rparr> \<in> fl_flow_id ` set (ft_flows (snd swept)))"
    by code_simp
  then have "mintable (demo_visit ''c3'' ''s3'') (snd swept)" by (simp add: mintable_def demo_visit_def)
  then have "driver_step (fst swept, snd swept) (fst swept, later_line)"
    unfolding later_line_def by (rule driver_flow [OF step_submit])
  with swept have "driver_step\<^sup>*\<^sup>* (\<lparr>ls_floor = None, ls_converged = None\<rparr>, no_flows) (fst swept, later_line)"
    by (rule rtranclp.rtrancl_into_rtrancl)
  note read = every_open_submission_is_read [OF this]
  show "map sub_submission_id (open_submissions_from (floor_of (fst swept)) later_line) = [''s3'']"
    unfolding read by code_simp
qed

theorem admitted_are_next_witness:
  "map (sub_submission_id \<circ> adm_submission) (fst (admit hub_reads 0 (\<lambda>_. 0) (\<lambda>i. ''htn_'' @ i) (\<lambda>_ s. s) 0 demo_line)) = [''s1'']"
proof -
  have "floor_ok 0 demo_line" by (rule floor_zero [OF reachable_inv [OF demo_steps(1)]])
  moreover have "inj (\<lambda>i. ''htn_'' @ i)" "range (\<lambda>i. ''htn_'' @ i) \<inter> tn_turn_id ` set (ft_turns demo_line) = {}"
    by (auto simp: inj_def demo_values)
  ultimately have "map adm_submission (fst (admit hub_reads 0 (\<lambda>_. 0) (\<lambda>i. ''htn_'' @ i) (\<lambda>_ s. s) 0 demo_line))
      = filter (\<lambda>sub. is_next (admission_line hub_reads (open_submissions_from 0 demo_line) demo_line) 0 sub \<and> \<not> flow_busy demo_line (held_ids sub))
          (open_submissions_from 0 demo_line)"
    using admitted_are_next [OF demo_steps(1)] by blast
  moreover have "map sub_submission_id (filter (\<lambda>sub. is_next (admission_line hub_reads (open_submissions_from 0 demo_line) demo_line) 0 sub
      \<and> \<not> flow_busy demo_line (held_ids sub)) (open_submissions_from 0 demo_line)) = [''s1'']"
    by code_simp
  ultimately show ?thesis by (metis map_map)
qed

definition departing :: submission where
  "departing = submission_of demo_line None (demo_row ''c1'' ''s1'' 1)"

theorem departed_submissions_leave_witness:
  "map_option cl_outcome (closure_of (snd (reconcile idle_reads hub_locked hub_mints 30 (\<lambda>_ s. s) 0 demo_line)) ''s1'') = Some ''superseded''"
proof -
  obtain rc s' where rc: "reconcile idle_reads hub_locked hub_mints 30 (\<lambda>_ s. s) 0 demo_line = (rc, s')" by (rule prod.exhaust)
  have sub: "departing \<in> set (open_submissions_from 0 demo_line)"
    by (simp add: departing_def open_read demo_values demo_row_def is_open_def closure_of_def)
  have "withdrawal_for (reconcile_facts idle_reads (sub_chunk_id departing)) departing = Some WithdrawSuperseded" by code_simp
  moreover have "\<not> has_open_turn demo_line ''s1''" "sub_submission_id departing = ''s1''"
    by (simp_all add: has_open_turn_def demo_values departing_def demo_row_def)
  ultimately show ?thesis
    using departed_submissions_leave [OF demo_steps(1) sub rc no_interference] by (simp add: rc)
qed

definition some_terms :: "string \<Rightarrow> landing_terms" where
  "some_terms policy = \<lparr>lt_repository_id = ''repo'', lt_landing_policy = policy, lt_park_timeout_hours = None, lt_landing_position = None\<rparr>"

definition first_gen :: flow_tables where
  "first_gen = snd (take_turn ''s1'' {} [some_terms ''park''] 1 ''t1'' (snd (submit (demo_visit ''c1'' ''s1'') no_flows)))"

definition moved_on :: flow_tables where
  "moved_on = snd (end_turn_locked ''t1'' ''superseded'' (Some ''superseded'') None 2 first_gen)"

definition second_gen :: flow_tables where
  "second_gen = snd (take_turn ''s2'' {} [some_terms ''fast-forward''] 3 ''t2''
     (snd (submit ((demo_visit ''c1'' ''s2'')\<lparr>vs_generation := 1\<rparr>) moved_on)))"

definition gen_row :: "string \<Rightarrow> int \<Rightarrow> submission_row" where
  "gen_row i g = (demo_row ''c1'' i (g + 1))\<lparr>fs_generation := g\<rparr>"

lemma generations_run: "line_step\<^sup>*\<^sup>* no_flows first_gen" "line_step\<^sup>*\<^sup>* first_gen second_gen"
proof -
  let ?v = "demo_visit ''c1'' ''s1''" and ?w = "(demo_visit ''c1'' ''s2'')\<lparr>vs_generation := 1\<rparr>"
  have "generation_of no_flows (vs_chunk_id ?v, vs_node_id ?v, vs_epoch ?v) = Some (vs_generation ?v)" by code_simp
  moreover have "mintable ?v no_flows" by (simp add: mintable_def demo_visit_def no_flows_def)
  ultimately have "line_step\<^sup>*\<^sup>* no_flows (snd (submit ?v no_flows))" by (rule r_into_rtranclp [of line_step, OF line_submit])
  moreover have "line_step (snd (submit ?v no_flows)) first_gen"
    unfolding first_gen_def by (rule line_other [OF other_take_turn]) (simp add: flow_eval)
  ultimately show "line_step\<^sup>*\<^sup>* no_flows first_gen" by (rule rtranclp.rtrancl_into_rtrancl)
  have moved: "line_step first_gen moved_on" unfolding moved_on_def by (rule line_other [OF other_end_turn])
  have gen: "generation_of moved_on (vs_chunk_id ?w, vs_node_id ?w, vs_epoch ?w) = Some (vs_generation ?w)" by code_simp
  have "\<not> (''s2'' \<in> fs_submission_id ` set (ft_submissions moved_on) \<or> ''flow_s2'' \<in> fl_flow_id ` set (ft_flows moved_on))" by code_simp
  then have "mintable ?w moved_on" by (simp add: mintable_def demo_visit_def)
  then have sent: "line_step moved_on (snd (submit ?w moved_on))" by (rule line_submit [OF gen])
  have "\<not> ''t2'' \<in> tn_turn_id ` set (ft_turns (snd (submit ?w moved_on)))" by code_simp
  then have turned: "line_step (snd (submit ?w moved_on)) second_gen"
    unfolding second_gen_def by (intro line_other [OF other_take_turn])
  show "line_step\<^sup>*\<^sup>* first_gen second_gen"
    by (rule converse_rtranclp_into_rtranclp [of line_step, OF moved converse_rtranclp_into_rtranclp [of line_step, OF sent r_into_rtranclp [of line_step, OF turned]]])
qed

lemma gen_rows: "gen_row ''s1'' 0 \<in> set (ft_submissions first_gen)" "gen_row ''s1'' 0 \<in> set (ft_submissions second_gen)"
  "gen_row ''s2'' 1 \<in> set (ft_submissions second_gen)"
  by code_simp+

theorem one_submission_per_visit_witness:
  "map_option cl_outcome (closure_of second_gen ''s1'') = Some ''superseded'' \<and> \<not> has_open_turn second_gen ''s1''"
proof -
  have "visit_row ''c1'' ''deliver'' 1 (gen_row ''s1'' 0)" "visit_row ''c1'' ''deliver'' 1 (gen_row ''s2'' 1)"
    "fs_generation (gen_row ''s1'' 0) \<le> fs_generation (gen_row ''s2'' 1)" "gen_row ''s1'' 0 \<noteq> gen_row ''s2'' 1"
    "fs_submission_id (gen_row ''s1'' 0) = ''s1''"
    by (simp_all add: gen_row_def demo_row_def visit_row_def)
  then show ?thesis
    using one_submission_per_visit [OF rtranclp_trans [OF generations_run] gen_rows(2,3)] by (simp add: TURN_SUPERSEDED_def)
qed

theorem landing_terms_are_settled_once_witness:
  "map_option lt_landing_policy (terms_of second_gen ''s2'' ''repo'') = Some ''park''"
proof -
  have rows: "visit_row ''c1'' ''deliver'' 1 (gen_row ''s1'' 0)" "visit_row ''c1'' ''deliver'' 1 (gen_row ''s2'' 1)"
    "fs_submission_id (gen_row ''s1'' 0) = ''s1''" "fs_submission_id (gen_row ''s2'' 1) = ''s2''"
    by (simp_all add: gen_row_def demo_row_def visit_row_def)
  have known: "terms_of first_gen ''s1'' ''repo'' = Some (some_terms ''park'')" by code_simp
  have "terms_of second_gen ''s2'' ''repo'' \<noteq> None" by code_simp
  then obtain y where y: "terms_of second_gen ''s2'' ''repo'' = Some y" by blast
  from landing_terms_are_settled_once [OF generations_run gen_rows(1,3) rows(1,2), unfolded rows(3,4), OF known y]
  show ?thesis by (auto simp: y some_terms_def)
qed

end
