(* ===== verification/Hub_Samples.thy ===== *)
theory Hub_Samples
  imports Hub_Laws Flow_Line_Samples
begin

text \<open>
  Concrete hub steps on which the guarantees of a routing apply: a delivery that lands, one that is kicked
  back, one that has been kicked back too often, and one whose choice migrates onto its own graph.
\<close>

section \<open>A hub step that answers\<close>

definition routing_node :: node where
  "routing_node = hub_node\<lparr>node_bounce_cap := Some 1, node_choices :=
     [\<lparr>choice_id = ''k1'', choice_name = ''landed'', choice_description = [], choice_requires_checks = False\<rparr>,
      \<lparr>choice_id = ''k2'', choice_name = HUB_DEFAULT_FAILURE_CHOICE, choice_description = [], choice_requires_checks = False\<rparr>,
      \<lparr>choice_id = ''k3'', choice_name = ''again'', choice_description = [], choice_requires_checks = False\<rparr>]\<rparr>"

definition build_node :: node where
  "build_node = hub_node\<lparr>node_id := ''build'', node_name := ''build'', node_executor := ExecRunner, node_action := None\<rparr>"

definition routing_edge :: "ident \<Rightarrow> string \<Rightarrow> string option \<Rightarrow> edge" where
  "routing_edge k to target = \<lparr>edge_from_node_id = ''deliver'', edge_choice_id = k, edge_to_node_name = to,
     edge_prompt_addendum = None, edge_target_graph = target, edge_model = None\<rparr>"

definition routing_graph :: graph where
  "routing_graph = hub_graph\<lparr>graph_nodes := [build_node, routing_node],
     graph_edges := [routing_edge ''k1'' RESERVED_TERMINAL None, routing_edge ''k2'' ''build'' None,
       routing_edge ''k3'' [] (Some ''g'')]\<rparr>"

definition routing_env :: hub_env where
  "routing_env = \<lparr>hv_executors = (\<lambda>(g, n). if n = ''deliver'' then Some ExecHub else None), hv_digest = (\<lambda>_. []),
     hv_closer_available = (\<lambda>_. True), hv_enabled_graph = (\<lambda>name. if name = ''g'' then Some routing_graph else None),
     hv_transition_id = ''tr_2'', hv_migration_id = ''mg_1'', hv_decision_id = ''dc_1'', hv_artifact_id = ''ar_1'',
     hv_envelope_id = ''ar_2'', hv_at = 30, hv_bounced_at = 30, hv_escalated_at = 30, hv_gate_at = 30, hv_ended_at = 31\<rparr>"

definition standing_rows :: chunk_rows where
  "standing_rows = (record_promote 5 (insert_chunk_rows ''gr_1'' [] []))\<lparr>
     ck_leases := [\<lparr>lr_epoch = 1, lr_runner_id = ''rn_1'', lr_minted_at = 5, lr_lease_id = None\<rparr>],
     ck_transitions := [sample_row ''build'' ''deliver'' 1 10]\<rparr>"

definition turning_tables :: hub_tables where
  "turning_tables = \<lparr>ht_found = True, ht_rows = standing_rows, ht_flows = first_gen, ht_log = []\<rparr>"

definition turning_submission :: submission where
  "turning_submission = submission_of first_gen None (gen_row ''s1'' 0)"

definition unlanded_entry :: commit_entry where
  "unlanded_entry = \<lparr>ce_repo = ''a/web'', ce_branch = ''x'', ce_commit = ''1'', ce_forge_url = None, ce_owner = None,
     ce_base_branch = None, ce_record = None\<rparr>"

definition answer_with :: "ident \<Rightarrow> hub_tables \<Rightarrow> turn_fault + hub_tables" where
  "answer_with choice t = route_answer routing_env \<lparr>hs_artifacts = [], hs_sources = no_sources\<rparr> (hub_chunk ''c1'') routing_graph
     routing_node 1 choice (TurnEnding ''t1'' turning_submission False)
     (if choice = HUB_DEFAULT_FAILURE_CHOICE then [unlanded_entry] else []) None t"

definition answered_tables :: "ident \<Rightarrow> hub_tables \<Rightarrow> hub_tables" where
  "answered_tables choice t = (case answer_with choice t of Inr t' \<Rightarrow> t' | Inl fault \<Rightarrow> t)"

lemma answer_commits:
  assumes "(case answer_with choice t of Inr x \<Rightarrow> True | Inl y \<Rightarrow> False)"
  shows "answer_with choice t = Inr (answered_tables choice t)"
  using assms by (auto simp: answered_tables_def split: sum.splits)

lemma landed_commits: "(case answer_with ''landed'' turning_tables of Inr x \<Rightarrow> True | Inl y \<Rightarrow> False)"
  by code_simp

lemma failed_commits: "(case answer_with HUB_DEFAULT_FAILURE_CHOICE turning_tables of Inr x \<Rightarrow> True | Inl y \<Rightarrow> False)"
  by code_simp

lemma answer_is_routing:
  "hub_routing routing_env \<lparr>hs_artifacts = [], hs_sources = no_sources\<rparr> (hub_chunk ''c1'') routing_graph routing_node 1
     (TurnEnding ''t1'' turning_submission False) t choice (answer_with choice t)"
  unfolding answer_with_def by (rule routing_choice)

section \<open>Witnesses\<close>

theorem verdict_rides_with_the_move_witness:
  "leaves routing_node 1 ''landed'' standing_rows (ht_rows (answered_tables ''landed'' turning_tables))
     \<and> map_option cl_outcome (closure_of (ht_flows (answered_tables ''landed'' turning_tables)) ''s1'') = Some ''landed''"
proof -
  let ?t = "answered_tables ''landed'' turning_tables"
  have "length (ck_transitions (ht_rows ?t)) = 2" by code_simp
  then have "movement_rows (ht_rows ?t) \<noteq> movement_rows (ht_rows turning_tables)"
    by (auto simp: movement_rows_def turning_tables_def standing_rows_def)
  with verdict_rides_with_the_move [OF answer_is_routing [of turning_tables "''landed''", unfolded answer_commits [OF landed_commits]]]
  obtain written where l: "leaves routing_node 1 ''landed'' (ht_rows turning_tables) (ht_rows ?t)"
    and e: "end_turn_locked ''t1'' ''landed'' (Some ''landed'') None (hv_ended_at routing_env) (ht_flows turning_tables)
      = (Some written, ht_flows ?t)"
    by auto
  have "map_option cl_outcome (closure_of (snd (end_turn_locked ''t1'' ''landed'' (Some ''landed'') None (hv_ended_at routing_env)
      (ht_flows turning_tables))) ''s1'') = Some ''landed''" by code_simp
  with l e show ?thesis by (simp add: turning_tables_def)
qed

lemma turning_stands: "standing_visit routing_env routing_node 1 turning_tables \<noteq> None"
  by code_simp

lemma turning_unanswered: "unanswered routing_node 1 (ht_rows turning_tables)"
  by code_simp

theorem answered_visit_is_left_witness:
  "standing_visit routing_env routing_node 1 turning_tables \<noteq> None
     \<and> standing_visit routing_env routing_node 1 (answered_tables ''landed'' turning_tables) = None"
proof -
  have "ck_migrations (ht_rows (answered_tables ''landed'' turning_tables)) = ck_migrations (ht_rows turning_tables)" by code_simp
  with answered_visit_is_left [OF answer_is_routing [of turning_tables "''landed''", unfolded answer_commits [OF landed_commits]]
      turning_stands turning_unanswered] turning_stands
  show ?thesis by blast
qed

text \<open>The node's cap is 1: a first bounce is within it, a second is past it.\<close>

definition bounced_once :: hub_tables where
  "bounced_once = turning_tables\<lparr>ht_rows := standing_rows\<lparr>ck_bounces :=
     [\<lparr>bn_epoch = 1, bn_cause = ''conflict'', bn_envelope = [], bn_recorded_at = 7\<rparr>]\<rparr>\<rparr>"

lemma bounced_commits: "(case answer_with HUB_DEFAULT_FAILURE_CHOICE bounced_once of Inr x \<Rightarrow> True | Inl y \<Rightarrow> False)"
  by code_simp

theorem bounces_stop_at_the_cap_witness:
  "leaves routing_node 1 HUB_DEFAULT_FAILURE_CHOICE standing_rows (ht_rows (answered_tables HUB_DEFAULT_FAILURE_CHOICE turning_tables))
     \<and> er_cause (last (ck_escalations (ht_rows (answered_tables HUB_DEFAULT_FAILURE_CHOICE bounced_once)))) = Some ''bounce-cap''"
proof -
  let ?c = HUB_DEFAULT_FAILURE_CHOICE and ?r = "\<lparr>hs_artifacts = [], hs_sources = no_sources\<rparr>"
  have to: "hub_destination_of (hv_enabled_graph routing_env) routing_graph routing_node ?c = ToNode ''build'' ''build''" by code_simp
  have inc: "delivery_incomplete routing_env ?r [unlanded_entry] ''build''" by code_simp
  have ans: "answer_with ?c t = route_answer routing_env ?r (hub_chunk ''c1'') routing_graph routing_node 1 ?c
      (TurnEnding ''t1'' turning_submission False) [unlanded_entry] None t" for t
    by (simp add: answer_with_def)
  note cap = bounces_stop_at_the_cap [OF _ to inc]
  have once: "standing_visit routing_env routing_node 1 bounced_once \<noteq> None" "unanswered routing_node 1 (ht_rows bounced_once)"
    by code_simp+
  have "bounce_cap_of routing_node = 1" by code_simp
  with cap [OF answer_commits [OF failed_commits, unfolded ans] turning_stands turning_unanswered]
    cap [OF answer_commits [OF bounced_commits, unfolded ans] once]
  show ?thesis by (simp add: turning_tables_def bounced_once_def standing_rows_def insert_chunk_rows_def record_promote_def)
qed

text \<open>A choice whose graph is the chunk's own: the migration lands on the node it leaves, at the same epoch,
  so the visit stands, but its submission is closed by the verdict and none is made for it again.\<close>

theorem own_graph_choice_strands_the_visit:
  "(let t' = answered_tables ''again'' turning_tables in
     standing_visit routing_env routing_node 1 t' \<noteq> None
     \<and> map_option cl_outcome (closure_of (ht_flows t') ''s1'') = Some ''again''
     \<and> generation_of (ht_flows t') (''c1'', ''deliver'', 1) = None)"
  by code_simp

end
