(* ===== verification/Spec2Isabelle.thy ===== *)
theory Spec2Isabelle
  imports Graph_Validation Fold_Laws Apply_Laws Claim_Laws Queue_Entry Hub_Samples Ids
begin

text \<open>
  A model of the work core of blizzard's hub (\<open>src/blizzard/hub\<close>): the workflow graph a chunk of work
  travels, the facts recorded about a chunk and the status derived from them, and the store whose
  locked transactions record those facts behind an epoch fence.

  \<^bold>\<open>How the parts interact.\<close> A graph document is validated and compiled into an immutable graph; a
  chunk is pinned to one. Nothing about a chunk's progress is stored as a status: claims, leases,
  transitions, migrations, restarts, escalations, decisions and their like are appended as facts,
  and \<open>ChunkFacts.status\<close> derives the status from them. A runner that claims a chunk is given a fresh
  epoch; every write names the epoch it was made under, and the store refuses one that is stale, from
  a runner that does not own the epoch, or on an ended chunk.

  \<^bold>\<open>Theories.\<close>
  \<^item> \<open>Prelude\<close>: Python's \<open>max\<close>, dictionaries, \<open>str.strip\<close>; lemmas on lists and options.
  \<^item> \<open>Walks\<close>: the stack walk and the three-colour cycle search, against the successor relation.
  \<^item> \<open>Graphs\<close> (\<open>hub/domain/graph/model.py\<close>, \<open>actions.py\<close>): documents, graphs, choice targets,
    the action catalogue, retirement and the choice among the mints of a name.
  \<^item> \<open>Graph_Validation\<close> (\<open>validation.py\<close>, \<open>harnesses.py\<close>, \<open>authoring.py\<close>): the validator's rules in the
    code's order, the reachability warnings, the compilation of a document; what an error-free
    document guarantees of the compiled graph.
  \<^item> \<open>Chunk_Verbs\<close>, \<open>Chunk_Facts\<close> (\<open>hub/domain/chunk/model.py\<close>): statuses, verbs and where they are
    legal; the fact families and every derivation over them.
  \<^item> \<open>Fence\<close> (\<open>hub/domain/chunk/ports/fence.py\<close>): epoch admissions, claimants, lease-mint admission.
  \<^item> \<open>Chunk_Rows\<close> (\<open>chunk_rows.py\<close>, \<open>chunk_fact_loading.py\<close>): the tables of one chunk, the reads the
    adapters share, and the loading of the facts.
  \<^item> \<open>Terminal_Predicates\<close> (\<open>chunk_terminal_predicates.py\<close>): the SQL forms of the ended chunk, exact
    against the derived status but for one kind of tie.
  \<^item> \<open>Chunk_Writes\<close> (\<open>chunk_movement_store.py\<close>, \<open>chunk_route_store.py\<close>, \<open>chunk_escalations_store.py\<close>,
    \<open>chunk_hub_exec_store.py\<close>, \<open>chunk_lifecycle_store.py\<close>, \<open>chunk_decisions_store.py\<close>,
    \<open>chunk_queue_store.py\<close>, \<open>chunk_artifacts_store.py\<close>, \<open>chunk_questions_store.py\<close>): one function per
    transaction.
  \<^item> \<open>Store_Steps\<close>: the locales \<open>ledger\<close> (a table the steps only append to) and \<open>fenced_write\<close> (a write
    behind the fence), interpreted on the tables and the writes; the step relation and its invariant.
  \<^item> \<open>Store_Laws\<close>: what every reachable state guarantees: epochs, fencing, ended chunks, replays, routes.
  \<^item> \<open>Dependencies\<close> (\<open>hub/domain/chunk/dependencies.py\<close>, \<open>chunk_dependencies_store.py\<close>): declared edges,
    the cycle check, the blocked marking, a fold's edge plan and a delete's releases.
  \<^item> \<open>Dependency_Laws\<close>, \<open>Fold_Laws\<close>: the table stays acyclic with one edge a pair; what declaring,
    releasing, deleting and folding do to it, errors included.
  \<^item> \<open>Completion\<close> (\<open>hub/domain/execution/completion.py\<close>, \<open>submissions.py\<close>, \<open>auth/\<close>): what a runner
    submits, its refusals in order, the edge it takes and where a migration lands.
  \<^item> \<open>Apply\<close> (\<open>apply.py\<close>, \<open>gate_arrival.py\<close>): the whole call, from the replay probes through the
    locked write to the answer; rows read outside the lock are an argument of their own.
  \<^item> \<open>Apply_Laws\<close>: the locale \<open>once_register\<close> (a register written at most once per key), interpreted on
    the exits of a visit; a call refines one put into it.
  \<^item> \<open>Claims\<close> (\<open>claim.py\<close>, \<open>eligibility.py\<close>, \<open>release.py\<close>, \<open>detach.py\<close> under \<open>hub/domain/execution\<close>,
    \<open>runners/registration.py\<close>), \<open>Claim_Laws\<close>: how a runner takes a chunk and how it is given back; the exact
    conditions of a grant, the eligibility walk against reachability, and that one claim wins.
  \<^item> \<open>Doubles\<close>, \<open>Float_Slots\<close> (\<open>hub/domain/kernel/float_slots.py\<close>): Python's floats by value, rounded to
    nearest, and the slot between two positions; a slot is exact up to \<open>2^52\<close> members and \<open>2^53\<close>.
  \<^item> \<open>Queue\<close> (\<open>hub/domain/operations/queue.py\<close>, \<open>promote.py\<close>, \<open>demote.py\<close>, \<open>chunk_queue_store.py\<close>): the
    hub's chunks, their ranking, pages and the services that reorder, move, promote and demote.
  \<^item> \<open>Queue_Laws\<close>, \<open>Queue_Entry\<close>: the locale \<open>position_table\<close>, interpreted on both lists' writes; the order
    a service answers is the one the next read derives, and pages drain to it.
  \<^item> \<open>Flows\<close> (\<open>hub/domain/delivery/flows.py\<close>, \<open>lines.py\<close>), \<open>Flow_Store\<close> (\<open>flow_store.py\<close>, \<open>flow_rows.py\<close>): the
    delivery flows chunks queue on to land: submissions, turns, closures, landing terms, who may pass,
    who is next, and the transactions on the flow tables.
  \<^item> \<open>Flow_Steps\<close>, \<open>Flow_Laws\<close>, \<open>Flow_Lock\<close>, \<open>Flow_Record\<close>: the transactions as a step relation, its
    invariant, each flow's record as a run of a lock, and the tables as ledgers.
  \<^item> \<open>Flow_Lines\<close> (\<open>hub/domain/delivery/reconcile.py\<close>, \<open>hub/delivery/flow_driver.py\<close>): the passes over a
    tenant's lines: submitting the visits that stand, withdrawing departed submissions, ending the turns
    no task answers for, admitting the next, and the driver's tick and boot. An argument \<open>between\<close> is what
    others commit between two transactions of a pass.
  \<^item> \<open>Flow_Line_Laws\<close>, \<open>Flow_Visits\<close>, \<open>Flow_Line_Samples\<close>: the arrival floor, admission, departures, the
    submissions and landing terms of one visit; sample lines and witnesses.
  \<^item> \<open>Delivery_Read\<close> (\<open>hub/domain/chunk/delivery_read.py\<close>): what a chunk's markers say of its delivery.
  \<^item> \<open>Hub_Node\<close> (\<open>hub/delivery/hub_node.py\<close>, the turn's end in \<open>flow_turn.py\<close>): where a hub step's answer goes. One
    transaction writes the move, the bounce or the escalation with the end of the turn, so it is a function from
    the chunk's rows, its tenant's flows and the event rows to those it commits, or the fault that rolls it back.
  \<^item> \<open>Hub_Laws\<close>, \<open>Hub_Samples\<close>: a submission is closed by a verdict exactly with its chunk's move, an answered
    visit does not stand, bounces stop at the cap; and the choice whose graph is its own, which strands its visit.
  \<^item> \<open>Texts\<close>, \<open>Json_Text\<close>, \<open>Json_Values\<close>: Python's string operations and \<open>json.dumps\<close>; of an object of strings the
    text determines the object.
  \<^item> \<open>Ids\<close> (\<open>foundation/ids.py\<close>, \<open>trace_ids.py\<close>): prefixed ULIDs and trace headers; the locale
    \<open>digit_system\<close>, interpreted on Crockford's base 32 and on hexadecimal; what is minted reads back.
  \<^item> \<open>Repo_Refs\<close> (\<open>foundation/repo_ref.py\<close>): origins, and the key a repository's pointers group by.
  \<^item> \<open>Repositories\<close> (\<open>hub/domain/config/repositories.py\<close>, \<open>hub/domain/actions/visit.py\<close>), \<open>Repository_Laws\<close>:
    the resolution of a chunk's commits to repository records, the refusals of a hub-node visit, the
    no-code markers and the flows a resolved visit holds.

  \<^bold>\<open>Correspondence.\<close> A dataclass is a record with its fields prefixed, a \<open>StrEnum\<close> a datatype, an
  instant an integer of microseconds, an identifier a string. A fact table is the list of one chunk's
  rows in insertion order. A store operation takes the row lock before it reads, so it is one
  function from rows to rows; a refusal is a value, and a raise, which rolls the transaction back, is
  \<open>Inl\<close>. Identifiers minted inside a write are arguments of it. Epochs and write-order positions are
  Python integers and are \<open>int\<close> here. Searches that recurse come with termination proofs; no fuel is
  used anywhere.

  \<^bold>\<open>What is assumed of a document.\<close> Node names, and the choice names of a node, are keys of a mapping in
  the document, but the parser's \<open>str\<close> may merge two keys and the validator does not compare them. What needs
  them apart says so (\<open>named_apart\<close>); \<open>twin_choice_takes_the_first_edge\<close> and
  \<open>nameless_target_ends_the_chunk\<close> show what happens otherwise.

  \<^bold>\<open>Not modelled.\<close> YAML parsing, cross-chunk batching and tenant scoping of the queries, usage rows beside the
  modelled writes, and the subsystems around the core: the services not named above, the
  pass a turn runs and its git and forge calls, asyncio scheduling and publishing, cadence, garden, configuration, the
  runner process, authentication, transport and rendering.
\<close>

end
